(* ===== verification/Omni_Prelude.thy ===== *)
theory Omni_Prelude
  imports Complex_Main "HOL-Library.AList"
begin

text \<open>
  Shared vocabulary of the development: the exceptions the modelled code raises, Python's
  insertion-ordered dictionaries as association lists, the few string operations the code
  uses, and the generic lemmas every component needs.

  A Python \<^verbatim>\<open>dict\<close> keeps insertion order: assigning to a present key keeps its place, a new
  key goes to the end, deletion removes the entry.  These are exactly
  \<^theory_text>\<open>AList.update\<close> and \<^theory_text>\<open>AList.delete\<close>; lookup is \<^theory_text>\<open>map_of\<close>.
  A fallible operation returns a value of \<open>py_exc + 'a\<close>: \<open>Inl\<close> is the raised exception,
  \<open>Inr\<close> the normal result.  Characters are Unicode code points below 256, which covers
  every string literal the modelled code compares against.
\<close>

section \<open>Exceptions and results\<close>

datatype py_exc =
    ValueError | KeyError | TypeError | RuntimeError | AssertionError
  | MemoryError | IndexError | NotImplementedError | AttributeError | ZeroDivisionError | StructError

type_synonym 'a result = "py_exc + 'a"

definition rbind :: "'e + 'a \<Rightarrow> ('a \<Rightarrow> 'e + 'b) \<Rightarrow> 'e + 'b" where
  "rbind r f = (case r of Inl e \<Rightarrow> Inl e | Inr x \<Rightarrow> f x)"

fun rmap :: "('a \<Rightarrow> 'e + 'b) \<Rightarrow> 'a list \<Rightarrow> 'e + 'b list" where
  "rmap f [] = Inr []"
| "rmap f (x # xs) = rbind (f x) (\<lambda>y. rbind (rmap f xs) (\<lambda>ys. Inr (y # ys)))"

section \<open>Insertion-ordered dictionaries\<close>

type_synonym ('k, 'v) dict = "('k \<times> 'v) list"

abbreviation dict_get :: "('k, 'v) dict \<Rightarrow> 'k \<Rightarrow> 'v option" where
  "dict_get \<equiv> map_of"

abbreviation dict_set :: "'k \<Rightarrow> 'v \<Rightarrow> ('k, 'v) dict \<Rightarrow> ('k, 'v) dict" where
  "dict_set \<equiv> AList.update"

abbreviation dict_del :: "'k \<Rightarrow> ('k, 'v) dict \<Rightarrow> ('k, 'v) dict" where
  "dict_del \<equiv> AList.delete"

abbreviation dict_keys :: "('k, 'v) dict \<Rightarrow> 'k list" where
  "dict_keys d \<equiv> map fst d"

abbreviation dict_values :: "('k, 'v) dict \<Rightarrow> 'v list" where
  "dict_values d \<equiv> map snd d"

abbreviation dict_ok :: "('k, 'v) dict \<Rightarrow> bool" where
  "dict_ok d \<equiv> distinct (map fst d)"

section \<open>Strings\<close>

definition py_isspace :: "char \<Rightarrow> bool" where
  "py_isspace c = (let n = (of_char c :: nat) in
     (9 \<le> n \<and> n \<le> 13) \<or> (28 \<le> n \<and> n \<le> 32) \<or> n = 133 \<or> n = 160)"

definition py_strip :: "string \<Rightarrow> string" where
  "py_strip s = rev (dropWhile py_isspace (rev (dropWhile py_isspace s)))"

definition py_lower_char :: "char \<Rightarrow> char" where
  "py_lower_char c = (let n = (of_char c :: nat) in
     if (65 \<le> n \<and> n \<le> 90) \<or> (192 \<le> n \<and> n \<le> 222 \<and> n \<noteq> 215) then char_of (n + 32) else c)"

definition py_lower :: "string \<Rightarrow> string" where
  "py_lower s = map py_lower_char s"

definition py_startswith :: "string \<Rightarrow> string \<Rightarrow> bool" where
  "py_startswith s p = (take (length p) s = p)"

definition py_endswith :: "string \<Rightarrow> string \<Rightarrow> bool" where
  "py_endswith s p = (length p \<le> length s \<and> drop (length s - length p) s = p)"

fun py_contains :: "string \<Rightarrow> string \<Rightarrow> bool" where
  "py_contains p [] = (p = [])"
| "py_contains p (c # cs) = (py_startswith (c # cs) p \<or> py_contains p cs)"

section \<open>Collections of automation\<close>

named_theorems dict_simps \<open>lookup and key facts of insertion-ordered dictionaries\<close>

section \<open>Generic lemmas\<close>

lemma rbind_simps [simp]:
  "rbind (Inl e) f = Inl e" "rbind (Inr x) f = f x"
  by (simp_all add: rbind_def)

lemma rbind_Inr_iff: "rbind r f = Inr y \<longleftrightarrow> (\<exists>x. r = Inr x \<and> f x = Inr y)"
  by (cases r) auto

lemma rbind_Inl_iff: "rbind r f = Inl e \<longleftrightarrow> r = Inl e \<or> (\<exists>x. r = Inr x \<and> f x = Inl e)"
  by (cases r) auto

lemma rmap_Inr_iff: "rmap f xs = Inr ys \<longleftrightarrow> list_all2 (\<lambda>x y. f x = Inr y) xs ys"
proof (induction xs arbitrary: ys)
  case (Cons x xs)
  then show ?case by (cases ys) (auto simp: rbind_Inr_iff)
qed (auto simp: eq_commute)

lemma rmap_Inl_ex: "rmap f xs = Inl e \<Longrightarrow> \<exists>x \<in> set xs. f x = Inl e"
  by (induction xs) (auto simp: rbind_Inl_iff)

lemma rmap_Inr_each: "rmap f xs = Inr ys \<Longrightarrow> x \<in> set xs \<Longrightarrow> \<exists>y. f x = Inr y"
  by (induction xs arbitrary: ys) (auto simp: rbind_Inr_iff)

lemma rmap_append: "rmap f (xs @ ys) = rbind (rmap f xs) (\<lambda>a. rbind (rmap f ys) (\<lambda>b. Inr (a @ b)))"
proof (induction xs)
  case (Cons x xs)
  then show ?case by (cases "f x"; cases "rmap f xs"; cases "rmap f ys") simp_all
qed (simp add: rbind_def split: sum.splits)

lemma rmap_map: "rmap f (map g xs) = rmap (\<lambda>x. f (g x)) xs"
  by (induction xs) simp_all

text \<open>Two passes are one when there is only one error to raise.\<close>

lemma rmap_fuse:
  assumes "\<And>x. x \<in> set xs \<Longrightarrow> rbind (f x) g = h x" "\<And>x e. x \<in> set xs \<Longrightarrow> f x = Inl e \<Longrightarrow> e = E"
    "\<And>x y e. x \<in> set xs \<Longrightarrow> f x = Inr y \<Longrightarrow> g y = Inl e \<Longrightarrow> e = E"
  shows "rbind (rmap f xs) (rmap g) = rmap h xs"
  using assms
proof (induction xs)
  case (Cons x xs)
  have ih: "rbind (rmap f xs) (rmap g) = rmap h xs"
    by (rule Cons.IH) (use Cons.prems in \<open>meson list.set_intros(2)\<close>)+
  note ih = ih [symmetric]
  have hx: "h x = rbind (f x) g" using Cons.prems(1) [of x] by simp
  have l: "e = E" if "rmap f xs = Inl e" for e using rmap_Inl_ex [OF that] Cons.prems(2) by auto
  show ?case
  proof (cases "f x")
    case (Inr y)
    show ?thesis
    proof (cases "rmap f xs")
      case i: (Inl e)
      then show ?thesis using ih hx Inr l [OF i] Cons.prems(3) [of x y] by (cases "g y") auto
    qed (use ih hx Inr in simp)
  qed (simp add: hx)
qed simp

lemma rmap_values:
  "rmap (\<lambda>(k, v). rbind (f v) (\<lambda>w. Inr (k, w))) L = Inr r \<Longrightarrow> dict_get r k = map_option (\<lambda>v. projr (f v)) (dict_get L k)"
  by (induction L arbitrary: r) (auto simp: rbind_Inr_iff)

lemma dict_get_set [dict_simps]:
  "dict_get (dict_set k v d) k' = (if k' = k then Some v else dict_get d k')"
  by (simp add: update_conv')

lemma dict_get_del [dict_simps]:
  "dict_get (dict_del k d) k' = (if k' = k then None else dict_get d k')"
  by (simp add: delete_conv')

lemma dict_keys_set [dict_simps]:
  "dict_keys (dict_set k v d) = (if k \<in> set (dict_keys d) then dict_keys d else dict_keys d @ [k])"
  by (simp add: update_keys)

lemma dict_keys_del [dict_simps]: "dict_keys (dict_del k d) = removeAll k (dict_keys d)"
  by (induction d) auto

lemma dict_keyset_set [dict_simps]: "fst ` set (dict_set k v d) = insert k (fst ` set d)"
  using dom_update [of k v d] by (simp add: dom_map_of_conv_image_fst)

lemma dict_keyset_del [dict_simps]: "fst ` set (dict_del k d) = fst ` set d - {k}"
  by (induction d) auto

lemma dict_ok_set [intro, simp]: "dict_ok d \<Longrightarrow> dict_ok (dict_set k v d)"
  by (rule distinct_update)

lemma dict_ok_del [intro, simp]: "dict_ok d \<Longrightarrow> dict_ok (dict_del k d)"
  by (simp add: dict_keys_del distinct_removeAll)

lemma dict_get_None_iff: "dict_get d k = None \<longleftrightarrow> k \<notin> set (dict_keys d)"
  by (simp add: map_of_eq_None_iff)

lemma dict_get_Some_key: "dict_get d k = Some v \<Longrightarrow> k \<in> set (dict_keys d)"
  using map_of_SomeD by force

lemma dict_set_fresh: "dict_get d k = None \<Longrightarrow> dict_set k v d = d @ [(k, v)]"
  by (induction d) (auto split: if_splits)

lemma dict_del_fresh: "dict_get d k = None \<Longrightarrow> dict_del k d = d"
  by (induction d) (auto split: if_splits)

lemma length_removeAll_distinct:
  "distinct xs \<Longrightarrow> x \<in> set xs \<Longrightarrow> Suc (length (removeAll x xs)) = length xs"
  by (induction xs) auto

lemma concat_map_Nil: "concat (map f xs) = [] \<longleftrightarrow> (\<forall>x \<in> set xs. f x = [])"
  by simp

lemma py_strip_empty [simp]: "py_strip [] = []"
  by (simp add: py_strip_def)

lemma dropWhile_idem_on: "(xs \<noteq> [] \<longrightarrow> \<not> P (hd xs)) \<Longrightarrow> dropWhile P xs = xs"
  by (cases xs) auto

lemma py_strip_first: "py_strip s \<noteq> [] \<Longrightarrow> \<not> py_isspace (hd (py_strip s))"
proof -
  define t where "t = dropWhile py_isspace s"
  define u where "u = dropWhile py_isspace (rev t)"
  assume ne: "py_strip s \<noteq> []"
  then have une: "u \<noteq> []" by (simp add: py_strip_def t_def u_def)
  have "rev t = takeWhile py_isspace (rev t) @ u" by (simp add: u_def)
  then have "t = rev u @ rev (takeWhile py_isspace (rev t))"
    by (metis rev_append rev_rev_ident)
  with une have tne: "t \<noteq> []" and hdt: "hd t = hd (rev u)"
    by (metis append_is_Nil_conv rev_is_Nil_conv, metis hd_append2 rev_is_Nil_conv)
  have "\<not> py_isspace (hd t)"
    using tne unfolding t_def by (rule hd_dropWhile)
  with hdt show ?thesis by (simp add: py_strip_def t_def u_def)
qed

lemma py_strip_last: "py_strip s \<noteq> [] \<Longrightarrow> \<not> py_isspace (last (py_strip s))"
  unfolding py_strip_def by (simp add: hd_dropWhile last_rev)

lemma py_strip_idem [simp]: "py_strip (py_strip s) = py_strip s"
proof (cases "py_strip s = []")
  case False
  have a: "dropWhile py_isspace (py_strip s) = py_strip s"
    using py_strip_first [OF False] by (intro dropWhile_idem_on) simp
  have b: "dropWhile py_isspace (rev (py_strip s)) = rev (py_strip s)"
    using py_strip_last [OF False] by (intro dropWhile_idem_on) (simp add: hd_rev)
  show ?thesis by (subst py_strip_def) (simp add: a b)
qed simp

end
