(* ===== verification/Py_Int.thy ===== *)
theory Py_Int
  imports Omni_Prelude
begin

text \<open>
  Python's \<^verbatim>\<open>str\<close> of an integer and \<^verbatim>\<open>int\<close> of a string, as the keys of payloads and the
  configuration by environment variables use them.
\<close>

section \<open>Decimal integers\<close>

definition digit_char :: "nat \<Rightarrow> char" where
  "digit_char d = char_of (48 + d)"

fun str_nat :: "nat \<Rightarrow> string" where
  "str_nat n = (if n < 10 then [digit_char n] else str_nat (n div 10) @ [digit_char (n mod 10)])"

declare str_nat.simps [simp del]

definition str_int :: "int \<Rightarrow> string" where
  "str_int i = (if i < 0 then CHR ''-'' # str_nat (nat (- i)) else str_nat (nat i))"

definition digit_of :: "char \<Rightarrow> nat option" where
  "digit_of c = (let n = (of_char c :: nat) in if 48 \<le> n \<and> n \<le> 57 then Some (n - 48) else None)"

text \<open>Digits with single underscores between them; \<open>after\<close> tells whether a digit came just before.\<close>

fun read_digits :: "bool \<Rightarrow> nat \<Rightarrow> string \<Rightarrow> nat option" where
  "read_digits after acc [] = (if after then Some acc else None)"
| "read_digits after acc (c # cs) =
     (case digit_of c of
        Some d \<Rightarrow> read_digits True (10 * acc + d) cs
      | None \<Rightarrow> if c = CHR ''_'' \<and> after then read_digits False acc cs else None)"

text \<open>Python's \<^verbatim>\<open>int\<close> on a string with decimal digits.\<close>

definition py_int :: "string \<Rightarrow> py_exc + int" where
  "py_int s =
     (let num = (\<lambda>sign t. case read_digits False 0 t of None \<Rightarrow> Inl ValueError | Some n \<Rightarrow> Inr (sign * int n))
      in case py_strip s of
          [] \<Rightarrow> Inl ValueError
        | c # cs \<Rightarrow> if c = CHR ''-'' then num (- 1) cs else if c = CHR ''+'' then num 1 cs else num 1 (c # cs))"

section \<open>Integers round trip\<close>

lemma digit_of_char: "d < 10 \<Longrightarrow> digit_of (digit_char d) = Some d"
  by (simp add: digit_of_def digit_char_def of_char_of Let_def)

lemma digit_not: "d < 10 \<Longrightarrow> \<not> py_isspace (digit_char d) \<and> digit_char d \<noteq> CHR ''-'' \<and> digit_char d \<noteq> CHR ''+''"
proof -
  assume d: "d < 10"
  have n: "(of_char (digit_char d) :: nat) = 48 + d" using d by (simp add: digit_char_def of_char_of)
  have "(of_char CHR ''-'' :: nat) = 45" "(of_char CHR ''+'' :: nat) = 43" by simp_all
  with n have "digit_char d \<noteq> CHR ''-''" "digit_char d \<noteq> CHR ''+''" by auto
  moreover have "\<not> py_isspace (digit_char d)" using n d by (simp add: py_isspace_def Let_def)
  ultimately show ?thesis by blast
qed

lemma read_str_nat:
  "\<exists>k. \<forall>acc after rest. read_digits after acc (str_nat n @ rest) = read_digits True (10 ^ k * acc + n) rest"
proof (induction n rule: str_nat.induct)
  case (1 n)
  show ?case
  proof (cases "n < 10")
    case True
    then have "\<forall>acc after rest. read_digits after acc (str_nat n @ rest) = read_digits True (10 ^ 1 * acc + n) rest"
      by (subst str_nat.simps) (simp add: digit_of_char)
    then show ?thesis by blast
  next
    case False
    with 1 obtain k where k: "\<forall>acc after rest. read_digits after acc (str_nat (n div 10) @ rest) =
        read_digits True (10 ^ k * acc + n div 10) rest" by blast
    have "read_digits after acc (str_nat n @ rest) = read_digits True (10 ^ Suc k * acc + n) rest" for acc after rest
    proof -
      have "read_digits after acc (str_nat n @ rest) = read_digits True (10 ^ k * acc + n div 10) (digit_char (n mod 10) # rest)"
        using False k by (subst str_nat.simps) simp
      also have "\<dots> = read_digits True (10 * (10 ^ k * acc + n div 10) + n mod 10) rest" by (simp add: digit_of_char)
      also have "10 * (10 ^ k * acc + n div 10) + n mod 10 = 10 ^ Suc k * acc + n" by (simp add: algebra_simps)
      finally show ?thesis .
    qed
    then show ?thesis by blast
  qed
qed

lemma str_nat_digits: "str_nat n \<noteq> [] \<and> (\<forall>c \<in> set (str_nat n). \<exists>d < 10. c = digit_char d)"
proof (induction n rule: str_nat.induct)
  case (1 n)
  note e = str_nat.simps [of n]
  show ?case
  proof (cases "n < 10")
    case True
    then show ?thesis by (auto simp: e)
  next
    case False
    with 1 show ?thesis by (auto simp: e intro: exI [of _ "n mod 10"])
  qed
qed

lemma py_strip_keep: "(\<forall>c \<in> set s. \<not> py_isspace c) \<Longrightarrow> py_strip s = s"
proof -
  assume ns: "\<forall>c \<in> set s. \<not> py_isspace c"
  have "dropWhile py_isspace s = s" using ns by (intro dropWhile_idem_on) auto
  moreover have "dropWhile py_isspace (rev s) = rev s"
    using ns hd_in_set [of "rev s"] by (intro dropWhile_idem_on) auto
  ultimately show ?thesis by (simp add: py_strip_def)
qed

lemma read_str: "read_digits False 0 (str_nat n) = Some n"
proof -
  obtain k where "\<forall>acc after rest. read_digits after acc (str_nat n @ rest) = read_digits True (10 ^ k * acc + n) rest"
    using read_str_nat by blast
  from this [rule_format, of False 0 "[]"] show ?thesis by simp
qed

lemma str_nat_inject: "str_nat m = str_nat n \<longleftrightarrow> m = n"
  by (metis option.inject read_str)

lemma py_int_str: "py_int (str_int i) = Inr i"
proof -
  obtain c cs where s: "str_nat (nat \<bar>i\<bar>) = c # cs" using str_nat_digits [of "nat \<bar>i\<bar>"] by (cases "str_nat (nat \<bar>i\<bar>)") auto
  have dig: "\<forall>x \<in> set (c # cs). \<exists>d < 10. x = digit_char d" using str_nat_digits [of "nat \<bar>i\<bar>"] s by metis
  then have sp: "\<forall>x \<in> set (c # cs). \<not> py_isspace x" and c: "c \<noteq> CHR ''-''" "c \<noteq> CHR ''+''" using digit_not by auto
  have "\<not> py_isspace CHR ''-''" by (simp add: py_isspace_def)
  with sp have strip: "py_strip (CHR ''-'' # c # cs) = CHR ''-'' # c # cs" "py_strip (c # cs) = c # cs"
    by (auto intro!: py_strip_keep)
  have r: "read_digits False 0 (c # cs) = Some (nat \<bar>i\<bar>)" using read_str [of "nat \<bar>i\<bar>"] s by simp
  show ?thesis
  proof (cases "i < 0")
    case True
    then show ?thesis using s strip r by (simp add: py_int_def str_int_def Let_def abs_if del: read_digits.simps)
  next
    case False
    then show ?thesis using s strip r c by (simp add: py_int_def str_int_def Let_def abs_if del: read_digits.simps)
  qed
qed

lemma str_int_inject: "str_int i = str_int j \<longleftrightarrow> i = j"
  by (metis Inr_inject py_int_str)

end
