(* ===== verification/Stage_Roles.thy ===== *)
theory Stage_Roles
  imports Omni_Prelude
begin

text \<open>
  The stage-role vocabulary of disaggregated diffusion execution
  (\<^verbatim>\<open>vllm_omni/diffusion/stage_roles.py\<close>): role normalisation and the execution path a role
  selects, the component specification of a stage, and the validator of linear
  encode/denoise/decode topologies.  The two DreamZero topologies of
  \<^verbatim>\<open>model_executor/models/dreamzero/pipeline.py\<close> are instances.

  A stage object is a record of the attributes the validator reads (the fields of
  \<^verbatim>\<open>StagePipelineConfig\<close>); every error string of the validator is a constructor of
  \<open>topology_error\<close> carrying the values the string is formatted from.
\<close>

section \<open>Role vocabulary\<close>

definition ENCODE :: string where "ENCODE = ''encode''"
definition DENOISE :: string where "DENOISE = ''denoise''"
definition DECODE :: string where "DECODE = ''decode''"
definition MONOLITHIC :: string where "MONOLITHIC = ''diffusion''"

definition DISAGGREGATED_ROLES :: "string set" where
  "DISAGGREGATED_ROLES = {ENCODE, DENOISE, DECODE}"

definition KNOWN_ROLES :: "string set" where
  "KNOWN_ROLES = DISAGGREGATED_ROLES \<union> {MONOLITHIC}"

definition LINEAR_ROLE_ORDER :: "string list" where
  "LINEAR_ROLE_ORDER = [ENCODE, DENOISE, DECODE]"

definition normalize_stage_role :: "string option \<Rightarrow> string" where
  "normalize_stage_role model_stage =
     (case model_stage of
        None \<Rightarrow> MONOLITHIC
      | Some s \<Rightarrow> (let role = py_strip s in if role = [] then MONOLITHIC else role))"

definition is_monolithic_role :: "string option \<Rightarrow> bool" where
  "is_monolithic_role model_stage = (normalize_stage_role model_stage = MONOLITHIC)"

definition is_disaggregated_role :: "string option \<Rightarrow> bool" where
  "is_disaggregated_role model_stage = (normalize_stage_role model_stage \<in> DISAGGREGATED_ROLES)"

definition is_known_role :: "string option \<Rightarrow> bool" where
  "is_known_role model_stage = (normalize_stage_role model_stage \<in> KNOWN_ROLES)"

definition EXECUTION_PATH_MONOLITHIC :: string where "EXECUTION_PATH_MONOLITHIC = ''monolithic''"
definition EXECUTION_PATH_ENCODE :: string where "EXECUTION_PATH_ENCODE = ''encode_stage''"
definition EXECUTION_PATH_DENOISE :: string where "EXECUTION_PATH_DENOISE = ''denoise_stage''"
definition EXECUTION_PATH_DECODE :: string where "EXECUTION_PATH_DECODE = ''decode_stage''"
definition EXECUTION_PATH_MODEL_DEFINED :: string where
  "EXECUTION_PATH_MODEL_DEFINED = ''model_defined_stage''"

definition resolve_execution_path :: "string option \<Rightarrow> string" where
  "resolve_execution_path model_stage =
     (let role = normalize_stage_role model_stage in
      if role = MONOLITHIC then EXECUTION_PATH_MONOLITHIC
      else if role = ENCODE then EXECUTION_PATH_ENCODE
      else if role = DENOISE then EXECUTION_PATH_DENOISE
      else if role = DECODE then EXECUTION_PATH_DECODE
      else EXECUTION_PATH_MODEL_DEFINED)"

section \<open>Component ownership\<close>

record StageComponentSpec =
  tokenizer :: bool
  text_encoder :: bool
  image_encoder :: bool
  vae_encoder :: bool
  dit :: bool
  scheduler :: bool
  vae_decoder :: bool
  action_modules :: bool

text \<open>\<^verbatim>\<open>dataclasses.fields(self)\<close>, with \<^verbatim>\<open>getattr(self, name)\<close> for each: the declared order.\<close>

definition spec_fields :: "StageComponentSpec \<Rightarrow> (string, bool) dict" where
  "spec_fields s =
     [(''tokenizer'', tokenizer s), (''text_encoder'', text_encoder s),
      (''image_encoder'', image_encoder s), (''vae_encoder'', vae_encoder s),
      (''dit'', dit s), (''scheduler'', scheduler s),
      (''vae_decoder'', vae_decoder s), (''action_modules'', action_modules s)]"

text \<open>The methods the class declares: they are attributes too.\<close>

definition spec_methods :: "string list" where
  "spec_methods = [''enabled_components'', ''requires'', ''union'', ''describe'']"

definition enabled_components :: "StageComponentSpec \<Rightarrow> string list" where
  "enabled_components s = map fst (filter snd (spec_fields s))"

text \<open>
  \<^verbatim>\<open>bool(getattr(self, component, False))\<close>.  Attribute lookup also finds the methods of the
  class (a bound method is truthy) and what the class inherits from \<^verbatim>\<open>object\<close> and the dataclass
  decorator; the latter is the parameter \<open>inherited\<close> (the truth value of an inherited attribute).
\<close>

definition requires :: "(string \<Rightarrow> bool) \<Rightarrow> StageComponentSpec \<Rightarrow> string \<Rightarrow> bool" where
  "requires inherited s component =
     (case dict_get (spec_fields s) component of
        Some b \<Rightarrow> b
      | None \<Rightarrow> component \<in> set spec_methods \<or> inherited component)"

definition spec_union :: "StageComponentSpec \<Rightarrow> StageComponentSpec \<Rightarrow> StageComponentSpec" where
  "spec_union a b =
     \<lparr>tokenizer = tokenizer a \<or> tokenizer b, text_encoder = text_encoder a \<or> text_encoder b,
      image_encoder = image_encoder a \<or> image_encoder b,
      vae_encoder = vae_encoder a \<or> vae_encoder b, dit = dit a \<or> dit b,
      scheduler = scheduler a \<or> scheduler b, vae_decoder = vae_decoder a \<or> vae_decoder b,
      action_modules = action_modules a \<or> action_modules b\<rparr>"

fun join_plus :: "string list \<Rightarrow> string" where
  "join_plus [] = []"
| "join_plus [x] = x"
| "join_plus (x # y # xs) = x @ ''+'' @ join_plus (y # xs)"

definition describe :: "StageComponentSpec \<Rightarrow> string" where
  "describe s = (let enabled = enabled_components s in
     if enabled \<noteq> [] then join_plus enabled else ''none'')"

definition NO_COMPONENTS :: StageComponentSpec where
  "NO_COMPONENTS = \<lparr>tokenizer = False, text_encoder = False, image_encoder = False,
     vae_encoder = False, dit = False, scheduler = False, vae_decoder = False,
     action_modules = False\<rparr>"

definition ALL_COMPONENTS :: StageComponentSpec where
  "ALL_COMPONENTS = \<lparr>tokenizer = True, text_encoder = True, image_encoder = True,
     vae_encoder = True, dit = True, scheduler = True, vae_decoder = True,
     action_modules = True\<rparr>"

text \<open>DreamZero's declaration (\<^verbatim>\<open>DreamZeroPipeline.required_components_for_stage\<close>).\<close>

definition required_components_for_stage :: "string option \<Rightarrow> StageComponentSpec" where
  "required_components_for_stage model_stage =
     (let role = normalize_stage_role model_stage in
      if role = ENCODE then
        NO_COMPONENTS\<lparr>tokenizer := True, text_encoder := True, image_encoder := True,
                      vae_encoder := True\<rparr>
      else if role = DENOISE then
        NO_COMPONENTS\<lparr>dit := True, scheduler := True, action_modules := True\<rparr>
      else if role = DECODE then NO_COMPONENTS\<lparr>vae_decoder := True\<rparr>
      else ALL_COMPONENTS)"

section \<open>Topology validation\<close>

record stage =
  stage_id :: int
  model_stage :: "string option"
  input_sources :: "int list"
  final_output :: bool

datatype topology_error =
    No_Stages
  | Duplicate_Id int
  | Self_Reference int
  | Missing_Source int int
  | Encode_Not_Entry int
  | Denoise_No_Source int
  | Denoise_Bad_Source int "string set"
  | Denoise_Many_Sources int nat
  | Decode_No_Source int
  | Decode_Bad_Source int "string set"
  | Decode_Many_Sources int nat
  | Final_Count nat
  | Final_Not_Decode string int

definition stage_role :: "stage \<Rightarrow> string" where
  "stage_role s = normalize_stage_role (model_stage s)"

text \<open>The first loop: \<^verbatim>\<open>by_id\<close> (a later stage with the same id replaces the earlier) and the
  duplicate errors.\<close>

fun collect_ids ::
  "stage list \<Rightarrow> (int, stage) dict \<Rightarrow> topology_error list \<Rightarrow> (int, stage) dict \<times> topology_error list" where
  "collect_ids [] by_id errors = (by_id, errors)"
| "collect_ids (s # ss) by_id errors =
     collect_ids ss (dict_set (stage_id s) s by_id)
       (if stage_id s \<in> set (dict_keys by_id) then errors @ [Duplicate_Id (stage_id s)] else errors)"

text \<open>A source that names no stage contributes an error; the sorted role set printed by a
  bad-source message is kept as the set.\<close>

definition source_errors :: "(int, stage) dict \<Rightarrow> stage \<Rightarrow> topology_error list" where
  "source_errors by_id s =
     concat (map (\<lambda>src.
        if src = stage_id s then [Self_Reference (stage_id s)]
        else if src \<notin> set (dict_keys by_id) then [Missing_Source (stage_id s) src]
        else []) (input_sources s))"

text \<open>\<^verbatim>\<open>{_stage_role(by_id[s]) for s in sources if s in by_id}\<close>\<close>

definition upstream_roles :: "(int, stage) dict \<Rightarrow> stage \<Rightarrow> string set" where
  "upstream_roles by_id s = stage_role ` set (List.map_filter (dict_get by_id) (input_sources s))"

definition role_errors :: "(int, stage) dict \<Rightarrow> stage \<Rightarrow> topology_error list" where
  "role_errors by_id s =
     (let sid = stage_id s; role = stage_role s; sources = input_sources s in
      (if role = ENCODE \<and> sources \<noteq> [] then [Encode_Not_Entry sid] else []) @
      (if role = DENOISE then
         (if sources = [] then [Denoise_No_Source sid]
          else
            (if upstream_roles by_id s \<inter> {ENCODE, DENOISE} = {} then [Denoise_Bad_Source sid (upstream_roles by_id s)] else []) @
            (if length sources > 1 then [Denoise_Many_Sources sid (length sources)] else []))
       else []) @
      (if role = DECODE then
         (if sources = [] then [Decode_No_Source sid]
          else
            (if DENOISE \<notin> upstream_roles by_id s then [Decode_Bad_Source sid (upstream_roles by_id s)] else []) @
            (if length sources > 1 then [Decode_Many_Sources sid (length sources)] else []))
       else []))"

definition final_errors :: "stage list \<Rightarrow> topology_error list" where
  "final_errors stage_list =
     (let disaggregated = filter (\<lambda>s. stage_role s \<in> DISAGGREGATED_ROLES) stage_list;
          final_stages = filter final_output stage_list in
      if length final_stages \<noteq> 1 then [Final_Count (length final_stages)]
      else if disaggregated \<noteq> [] then
        (let decode_stages = filter (\<lambda>s. stage_role s = DECODE) stage_list in
         if decode_stages \<noteq> [] \<and> stage_role (hd final_stages) \<noteq> DECODE
         then [Final_Not_Decode (stage_role (hd final_stages)) (stage_id (hd final_stages))]
         else [])
      else [])"

definition validate_linear_diffusion_topology :: "stage list \<Rightarrow> topology_error list" where
  "validate_linear_diffusion_topology stage_list =
     (if stage_list = [] then [No_Stages]
      else
        (case collect_ids stage_list [] [] of
           (by_id, errors) \<Rightarrow>
             errors @ concat (map (\<lambda>s. source_errors by_id s @ role_errors by_id s) stage_list)
             @ final_errors stage_list))"

section \<open>The registered DreamZero topologies\<close>

definition DREAMZERO_PIPELINE :: "stage list" where
  "DREAMZERO_PIPELINE =
     [\<lparr>stage_id = 0, model_stage = Some ''diffusion'', input_sources = [], final_output = True\<rparr>]"

definition DREAMZERO_DISAGGREGATED_PIPELINE :: "stage list" where
  "DREAMZERO_DISAGGREGATED_PIPELINE =
     [\<lparr>stage_id = 0, model_stage = Some ''encode'', input_sources = [], final_output = False\<rparr>,
      \<lparr>stage_id = 1, model_stage = Some ''denoise'', input_sources = [0], final_output = False\<rparr>,
      \<lparr>stage_id = 2, model_stage = Some ''decode'', input_sources = [1], final_output = True\<rparr>]"


section \<open>What the validator accepts\<close>

text \<open>The rules of the docstring, stated without the loops.\<close>

definition has_source :: "stage list \<Rightarrow> stage \<Rightarrow> string set \<Rightarrow> bool" where
  "has_source stages s roles =
     (\<exists>t \<in> set stages. input_sources s = [stage_id t] \<and> stage_id t \<noteq> stage_id s \<and> stage_role t \<in> roles)"

definition valid_stage :: "stage list \<Rightarrow> stage \<Rightarrow> bool" where
  "valid_stage stages s \<longleftrightarrow>
     (\<forall>src \<in> set (input_sources s). src \<noteq> stage_id s \<and> src \<in> stage_id ` set stages) \<and>
     (stage_role s = ENCODE \<longrightarrow> input_sources s = []) \<and>
     (stage_role s = DENOISE \<longrightarrow> has_source stages s {ENCODE, DENOISE}) \<and>
     (stage_role s = DECODE \<longrightarrow> has_source stages s {DENOISE})"

definition valid_topology :: "stage list \<Rightarrow> bool" where
  "valid_topology stages \<longleftrightarrow>
     stages \<noteq> [] \<and> distinct (map stage_id stages) \<and> (\<forall>s \<in> set stages. valid_stage stages s) \<and>
     (\<exists>f. filter final_output stages = [f] \<and>
        ((\<exists>d \<in> set stages. stage_role d = DECODE) \<longrightarrow> stage_role f = DECODE))"

lemma role_constants_distinct [simp]:
  "ENCODE \<noteq> DENOISE" "ENCODE \<noteq> DECODE" "DENOISE \<noteq> DECODE"
  "DENOISE \<noteq> ENCODE" "DECODE \<noteq> ENCODE" "DECODE \<noteq> DENOISE"
  "ENCODE \<noteq> MONOLITHIC" "DENOISE \<noteq> MONOLITHIC" "DECODE \<noteq> MONOLITHIC"
  "MONOLITHIC \<noteq> ENCODE" "MONOLITHIC \<noteq> DENOISE" "MONOLITHIC \<noteq> DECODE"
  by (simp_all add: ENCODE_def DENOISE_def DECODE_def MONOLITHIC_def)

lemma normalize_nonempty: "normalize_stage_role m \<noteq> []"
  by (auto simp: normalize_stage_role_def MONOLITHIC_def Let_def split: option.splits)

lemma normalize_MONOLITHIC [simp]: "normalize_stage_role (Some MONOLITHIC) = MONOLITHIC"
  by (simp add: normalize_stage_role_def MONOLITHIC_def py_strip_def py_isspace_def)

lemma normalize_idem: "normalize_stage_role (Some (normalize_stage_role m)) = normalize_stage_role m"
proof (cases "\<exists>s. m = Some s \<and> py_strip s \<noteq> []")
  case True
  then obtain s where "m = Some s" "py_strip s \<noteq> []" by blast
  then show ?thesis by (simp add: normalize_stage_role_def Let_def)
next
  case False
  then have "normalize_stage_role m = MONOLITHIC"
    by (cases m) (auto simp: normalize_stage_role_def Let_def)
  then show ?thesis by simp
qed

lemma collect_ids_fst: "fst (collect_ids ss m es) = foldl (\<lambda>d s. dict_set (stage_id s) s d) m ss"
  by (induction ss arbitrary: m es) auto

lemma foldl_set_keys:
  "fst ` set (foldl (\<lambda>d s. dict_set (stage_id s) s d) m ss) = fst ` set m \<union> stage_id ` set ss"
  by (induction ss arbitrary: m) (auto simp: dict_keyset_set)

lemma collect_ids_errors:
  "snd (collect_ids ss m es) = [] \<longleftrightarrow>
     es = [] \<and> distinct (map stage_id ss) \<and> fst ` set m \<inter> stage_id ` set ss = {}"
  by (induction ss arbitrary: m es) (auto simp: dict_keyset_set)

lemma foldl_set_lookup:
  assumes "distinct (map stage_id ss)" "t \<in> set ss"
  shows "dict_get (foldl (\<lambda>d s. dict_set (stage_id s) s d) m ss) (stage_id t) = Some t"
  using assms
proof (induction ss rule: rev_induct)
  case (snoc x xs)
  have "stage_id x \<noteq> stage_id u" if "u \<in> set xs" for u
    using that snoc.prems by auto
  with snoc show ?case by (auto simp: dict_get_set dest: sym)
qed simp

lemma foldl_set_lookup_None:
  "j \<notin> stage_id ` set ss \<Longrightarrow>
     dict_get (foldl (\<lambda>d s. dict_set (stage_id s) s d) [] ss) j = None"
  by (simp add: map_of_eq_None_iff foldl_set_keys)

definition id_table :: "stage list \<Rightarrow> (int, stage) dict" where
  "id_table ss = foldl (\<lambda>d s. dict_set (stage_id s) s d) [] ss"

lemma id_table_get:
  "distinct (map stage_id ss) \<Longrightarrow>
     dict_get (id_table ss) j = Some t \<longleftrightarrow> t \<in> set ss \<and> stage_id t = j"
proof (cases "j \<in> stage_id ` set ss")
  case True
  assume d: "distinct (map stage_id ss)"
  from True obtain u where "u \<in> set ss" "stage_id u = j" by blast
  with foldl_set_lookup [OF d, of u] show ?thesis
    using d by (auto simp: id_table_def distinct_map inj_on_eq_iff)
next
  case False
  then show ?thesis using foldl_set_lookup_None [of j ss] by (auto simp: id_table_def)
qed

lemma id_table_keys: "fst ` set (id_table ss) = stage_id ` set ss"
  by (simp add: id_table_def foldl_set_keys)

lemma upstream_roles_single:
  assumes "distinct (map stage_id ss)" "input_sources s = [j]"
  shows "upstream_roles (id_table ss) s = {stage_role t | t. t \<in> set ss \<and> stage_id t = j}"
proof (cases "dict_get (id_table ss) j")
  case None
  then have "\<not> (\<exists>t \<in> set ss. stage_id t = j)"
    by (metis assms(1) id_table_get option.distinct(1))
  with None assms(2) show ?thesis by (auto simp: upstream_roles_def List.map_filter_def)
next
  case (Some t)
  with assms(1) have "\<forall>u. u \<in> set ss \<and> stage_id u = j \<longleftrightarrow> u = t"
    by (metis id_table_get option.inject)
  with Some assms(2) show ?thesis by (auto simp: upstream_roles_def List.map_filter_def)
qed

lemma source_errors_empty:
  "source_errors (id_table ss) s = [] \<longleftrightarrow>
     (\<forall>src \<in> set (input_sources s). src \<noteq> stage_id s \<and> src \<in> stage_id ` set ss)"
  unfolding source_errors_def concat_map_Nil by (intro ball_cong) (simp_all add: id_table_keys)

lemma single_source_iff:
  assumes "distinct (map stage_id ss)"
      and "\<forall>src \<in> set (input_sources s). src \<noteq> stage_id s \<and> src \<in> stage_id ` set ss"
  shows "(input_sources s \<noteq> [] \<and> upstream_roles (id_table ss) s \<inter> R \<noteq> {} \<and> length (input_sources s) \<le> 1)
           \<longleftrightarrow> has_source ss s R" (is "?l \<longleftrightarrow> ?r")
proof
  assume l: ?l
  then obtain j where j: "input_sources s = [j]"
    by (cases "input_sources s"; cases "tl (input_sources s)") auto
  with l assms obtain t where "t \<in> set ss" "stage_id t = j" "stage_role t \<in> R"
    by (auto simp: upstream_roles_single)
  with j assms(2) show ?r by (auto simp: has_source_def)
next
  assume ?r
  then obtain t where t: "t \<in> set ss" "input_sources s = [stage_id t]" "stage_role t \<in> R"
    by (auto simp: has_source_def)
  with assms(1) show ?l by (auto simp: upstream_roles_single)
qed

lemma stage_errors_empty:
  assumes "distinct (map stage_id ss)"
  shows "source_errors (id_table ss) s @ role_errors (id_table ss) s = [] \<longleftrightarrow> valid_stage ss s"
proof (cases "source_errors (id_table ss) s = []")
  case True
  then have src: "\<forall>src \<in> set (input_sources s). src \<noteq> stage_id s \<and> src \<in> stage_id ` set ss"
    by (simp add: source_errors_empty)
  have one: "DENOISE \<notin> U \<longleftrightarrow> U \<inter> {DENOISE} = {}" for U by auto
  show ?thesis
    using True src single_source_iff [OF assms src, of "{ENCODE, DENOISE}"]
      single_source_iff [OF assms src, of "{DENOISE}"]
    unfolding valid_stage_def role_errors_def Let_def one by (auto split: if_splits)
next
  case False
  then show ?thesis by (auto simp: source_errors_empty valid_stage_def)
qed

lemma final_errors_empty:
  "final_errors ss = [] \<longleftrightarrow>
     (\<exists>f. filter final_output ss = [f] \<and>
        ((\<exists>d \<in> set ss. stage_role d = DECODE) \<longrightarrow> stage_role f = DECODE))"
proof (cases "\<exists>f. filter final_output ss = [f]")
  case True
  then obtain f where f: "filter final_output ss = [f]" by blast
  have "(filter (\<lambda>s. stage_role s = DECODE) ss \<noteq> []) = (\<exists>d \<in> set ss. stage_role d = DECODE)"
    by (auto simp: filter_empty_conv)
  moreover have "(filter (\<lambda>s. stage_role s \<in> DISAGGREGATED_ROLES) ss \<noteq> []) =
      (\<exists>d \<in> set ss. stage_role d \<in> DISAGGREGATED_ROLES)"
    by (auto simp: filter_empty_conv)
  ultimately show ?thesis
    using f by (auto simp: final_errors_def Let_def DISAGGREGATED_ROLES_def)
next
  case False
  then have "length (filter final_output ss) \<noteq> 1"
    by (auto simp: length_Suc_conv)
  with False show ?thesis by (auto simp: final_errors_def Let_def)
qed

lemma validate_iff: "validate_linear_diffusion_topology ss = [] \<longleftrightarrow> valid_topology ss"
proof (cases "ss = [] \<or> \<not> distinct (map stage_id ss)")
  case True
  then show ?thesis
    using collect_ids_errors [of ss "[]" "[]"]
    by (auto simp: validate_linear_diffusion_topology_def valid_topology_def split: prod.splits)
next
  case False
  then have d: "distinct (map stage_id ss)" by simp
  have "collect_ids ss [] [] = (id_table ss, [])"
    using collect_ids_errors [of ss "[]" "[]"] d collect_ids_fst [of ss "[]" "[]"]
    by (simp add: id_table_def prod_eq_iff)
  then show ?thesis
    using False stage_errors_empty [OF d]
    by (simp add: validate_linear_diffusion_topology_def valid_topology_def final_errors_empty)
qed

section \<open>Upstream chains\<close>

text \<open>
  \<open>upstream_chain stages p\<close>: \<open>p\<close> starts at a consumer and follows single input sources, through
  denoise stages only, until an encode entry stage.
\<close>

fun upstream_chain :: "stage list \<Rightarrow> stage list \<Rightarrow> bool" where
  "upstream_chain stages [] = False"
| "upstream_chain stages [e] =
     (e \<in> set stages \<and> stage_role e = ENCODE \<and> input_sources e = [])"
| "upstream_chain stages (s # t # p) =
     (s \<in> set stages \<and> stage_role s \<in> {DENOISE, DECODE} \<and> input_sources s = [stage_id t] \<and>
      stage_role t \<in> {ENCODE, DENOISE} \<and> upstream_chain stages (t # p))"

definition ordered_sources :: "stage list \<Rightarrow> bool" where
  "ordered_sources stages \<longleftrightarrow> (\<forall>s \<in> set stages. \<forall>src \<in> set (input_sources s). 0 \<le> src \<and> src < stage_id s)"

lemma chain_exists:
  assumes v: "valid_topology ss" and o: "ordered_sources ss"
  shows "s \<in> set ss \<Longrightarrow> stage_role s \<in> DISAGGREGATED_ROLES \<Longrightarrow> \<exists>p. upstream_chain ss (s # p)"
proof (induction "nat (stage_id s)" arbitrary: s rule: less_induct)
  case less
  have vs: "valid_stage ss s" using v less.prems by (simp add: valid_topology_def)
  show ?case
  proof (cases "stage_role s = ENCODE")
    case True
    with vs less.prems have "upstream_chain ss [s]" by (simp add: valid_stage_def)
    then show ?thesis by blast
  next
    case False
    with less.prems have r: "stage_role s \<in> {DENOISE, DECODE}" by (auto simp: DISAGGREGATED_ROLES_def)
    with vs obtain t where t: "t \<in> set ss" "input_sources s = [stage_id t]"
        "stage_role t \<in> {ENCODE, DENOISE}"
      by (auto simp: valid_stage_def has_source_def)
    have "nat (stage_id t) < nat (stage_id s)"
      using o less.prems t by (auto simp: ordered_sources_def)
    with less.hyps [of t] t obtain p where "upstream_chain ss (t # p)"
      by (auto simp: DISAGGREGATED_ROLES_def)
    with t r less.prems have "upstream_chain ss (s # t # p)" by simp
    then show ?thesis by blast
  qed
qed

lemmas topology_eval =
  validate_linear_diffusion_topology_def final_errors_def role_errors_def source_errors_def
  upstream_roles_def stage_role_def normalize_stage_role_def py_strip_def py_isspace_def Let_def
  ENCODE_def DENOISE_def DECODE_def MONOLITHIC_def DISAGGREGATED_ROLES_def List.map_filter_def

lemma dreamzero_disaggregated_valid:
  "validate_linear_diffusion_topology DREAMZERO_DISAGGREGATED_PIPELINE = []"
  by (simp add: topology_eval DREAMZERO_DISAGGREGATED_PIPELINE_def)

lemma dreamzero_monolithic_valid: "validate_linear_diffusion_topology DREAMZERO_PIPELINE = []"
  by (simp add: topology_eval DREAMZERO_PIPELINE_def)

section \<open>Properties\<close>

text \<open>
  C34: the topology validator returns no error exactly for the topologies that satisfy the
  documented rules: at least one stage, unique ids, every source an existing other stage,
  encode stages without sources, denoise stages with one encode or denoise source, decode
  stages with one denoise source, and exactly one final stage, which is a decode stage
  whenever there is one.
\<close>

theorem topology_validator_exact:
  "validate_linear_diffusion_topology ss = [] \<longleftrightarrow> valid_topology ss"
  by (rule validate_iff)

text \<open>
  In an accepted topology whose sources come before their consumers, every encode, denoise
  or decode stage is fed, through denoise stages only, from an encode entry point.
\<close>

theorem accepted_topology_reaches_encode:
  assumes "validate_linear_diffusion_topology ss = []"
      and "ordered_sources ss"
      and "s \<in> set ss" and "stage_role s \<in> DISAGGREGATED_ROLES"
  shows "\<exists>p. upstream_chain ss (s # p)"
  using assms by (intro chain_exists) (simp_all add: validate_iff)

theorem accepted_topology_reaches_encode_witness:
  "\<exists>p. upstream_chain DREAMZERO_DISAGGREGATED_PIPELINE (DREAMZERO_DISAGGREGATED_PIPELINE ! 2 # p)"
  by (rule accepted_topology_reaches_encode [OF dreamzero_disaggregated_valid])
     (simp_all add: ordered_sources_def DREAMZERO_DISAGGREGATED_PIPELINE_def topology_eval)

definition cyclic_topology :: "stage list" where
  "cyclic_topology =
     [\<lparr>stage_id = 0, model_stage = Some ENCODE, input_sources = [], final_output = False\<rparr>,
      \<lparr>stage_id = 1, model_stage = Some DENOISE, input_sources = [2], final_output = False\<rparr>,
      \<lparr>stage_id = 2, model_stage = Some DENOISE, input_sources = [1], final_output = False\<rparr>,
      \<lparr>stage_id = 3, model_stage = Some DECODE, input_sources = [2], final_output = True\<rparr>]"

lemma cyclic_no_chain:
  "upstream_chain cyclic_topology (s # p) \<Longrightarrow> s \<in> set cyclic_topology \<Longrightarrow> stage_id s = 0"
proof (induction p arbitrary: s)
  case Nil
  then show ?case by (auto simp: cyclic_topology_def topology_eval)
next
  case (Cons t p)
  then have t: "t \<in> set cyclic_topology" by (cases p) auto
  with Cons have "stage_id t = 0" by simp
  with Cons.prems show ?case by (auto simp: cyclic_topology_def)
qed

text \<open>
  The validator checks adjacency only, so a linear topology in which two denoise stages feed
  each other and no encode stage reaches the decode stage is accepted.
\<close>

theorem validator_accepts_denoise_cycle:
  "validate_linear_diffusion_topology cyclic_topology = [] \<and>
   \<not> (\<exists>p. upstream_chain cyclic_topology (cyclic_topology ! 3 # p))"
proof
  show "validate_linear_diffusion_topology cyclic_topology = []"
    by (simp add: topology_eval cyclic_topology_def)
  have "cyclic_topology ! 3 \<in> set cyclic_topology" "stage_id (cyclic_topology ! 3) = 3"
    by (simp_all add: cyclic_topology_def)
  then show "\<not> (\<exists>p. upstream_chain cyclic_topology (cyclic_topology ! 3 # p))"
    using cyclic_no_chain by fastforce
qed

definition owns :: "string option \<Rightarrow> string set" where
  "owns m = set (enabled_components (required_components_for_stage m))"

text \<open>
  The three disaggregated DreamZero roles partition the pipeline's components: whatever
  the whitespace around the role names, no two of them build the same component, together they
  build exactly what the monolithic worker builds, and every other role builds everything.
\<close>

theorem dreamzero_roles_partition_components:
  "owns (Some ENCODE) \<inter> owns (Some DENOISE) = {} \<and>
   owns (Some ENCODE) \<inter> owns (Some DECODE) = {} \<and>
   owns (Some DENOISE) \<inter> owns (Some DECODE) = {} \<and>
   owns (Some ENCODE) \<union> owns (Some DENOISE) \<union> owns (Some DECODE) = owns None \<and>
   spec_union (spec_union (required_components_for_stage (Some ENCODE))
      (required_components_for_stage (Some DENOISE))) (required_components_for_stage (Some DECODE))
     = ALL_COMPONENTS \<and>
   (is_disaggregated_role m \<or> required_components_for_stage m = ALL_COMPONENTS)"
proof -
  have n: "normalize_stage_role (Some ENCODE) = ENCODE" "normalize_stage_role (Some DENOISE) = DENOISE"
    "normalize_stage_role (Some DECODE) = DECODE" "normalize_stage_role None = MONOLITHIC"
    by (simp_all add: topology_eval)
  have "is_disaggregated_role m \<or> required_components_for_stage m = ALL_COMPONENTS"
    by (simp add: is_disaggregated_role_def DISAGGREGATED_ROLES_def required_components_for_stage_def Let_def)
  then show ?thesis
    by (simp add: owns_def required_components_for_stage_def n enabled_components_def spec_fields_def
        NO_COMPONENTS_def ALL_COMPONENTS_def spec_union_def insert_commute)
qed

text \<open>
  Role dispatch is total and exact: the runner's path is decided by the role up to
  surrounding whitespace, the four built-in paths are taken by exactly one role each, and the
  model-defined path exactly by the roles the framework does not know.
\<close>

theorem execution_path_exact:
  "resolve_execution_path (Some (normalize_stage_role m)) = resolve_execution_path m \<and>
   (resolve_execution_path m = EXECUTION_PATH_MONOLITHIC \<longleftrightarrow> is_monolithic_role m) \<and>
   (resolve_execution_path m = EXECUTION_PATH_ENCODE \<longleftrightarrow> normalize_stage_role m = ENCODE) \<and>
   (resolve_execution_path m = EXECUTION_PATH_DENOISE \<longleftrightarrow> normalize_stage_role m = DENOISE) \<and>
   (resolve_execution_path m = EXECUTION_PATH_DECODE \<longleftrightarrow> normalize_stage_role m = DECODE) \<and>
   (resolve_execution_path m = EXECUTION_PATH_MODEL_DEFINED \<longleftrightarrow> \<not> is_known_role m)"
  by (simp add: resolve_execution_path_def normalize_idem is_monolithic_role_def is_known_role_def
      KNOWN_ROLES_def DISAGGREGATED_ROLES_def Let_def EXECUTION_PATH_MONOLITHIC_def
      EXECUTION_PATH_ENCODE_def EXECUTION_PATH_DENOISE_def EXECUTION_PATH_DECODE_def
      EXECUTION_PATH_MODEL_DEFINED_def)

end
