(* ===== verification/Stage_Payload.thy ===== *)
theory Stage_Payload
  imports Omni_Prelude "HOL-Library.Word"
begin

text \<open>
  The typed envelope that crosses a stage boundary: the transport rules of
  \<^verbatim>\<open>vllm_omni/diffusion/stage_payload.py\<close> and \<^verbatim>\<open>StageBoundary\<close>, \<^verbatim>\<open>boundary_from_roles\<close> and
  \<^verbatim>\<open>StagePayload\<close> of \<^verbatim>\<open>vllm_omni/diffusion/models/interface.py\<close>.

  A Python value is a \<open>'t pyval\<close>, where \<open>'t\<close> is the type of \<^verbatim>\<open>torch.Tensor\<close> objects: torch is not
  part of the repository, so its tensors stay abstract and the four tensor operations
  the export boundary calls are the parameter \<open>torch_ops\<close>.  An instance of any other class
  (\<open>PInst\<close>) carries what the code can observe of it: the module, name and bases of
  its class and the outcome of the \<^verbatim>\<open>callable\<close>, \<^verbatim>\<open>isinstance\<close> and \<^verbatim>\<open>hasattr\<close> tests the code makes.
  Instances of \<^verbatim>\<open>list\<close>, \<^verbatim>\<open>tuple\<close> and \<^verbatim>\<open>dict\<close> (and of their subclasses) are \<open>PSeq\<close> and \<open>PMap\<close>.
  Containers that contain themselves are not values of the type, and dictionary keys are
  compared structurally (the keys the code looks up are plain strings).
\<close>

section \<open>Python values\<close>

record pyclass =
  cls_module :: string
  cls_name :: string
  cls_mro :: "(string \<times> string) list"
  cls_callable :: bool
  cls_scalar :: bool
  cls_str :: bool
  cls_iterator :: bool

datatype StageBoundary = ENCODE_TO_DIT | DIT_TO_DECODE

datatype 't pyval =
    PNone
  | PBool bool
  | PInt int
  | PFloat "64 word"
  | PStr string
  | PBytes "8 word list"
  | PBoundary StageBoundary
  | PTensor 't
  | PSeq pyclass "'t pyval list"
  | PMap pyclass "('t pyval \<times> 't pyval) list"
  | PInst pyclass

definition builtin_class :: "string \<Rightarrow> bool \<Rightarrow> pyclass" where
  "builtin_class name scalar =
     \<lparr>cls_module = ''builtins'', cls_name = name,
      cls_mro = [(''builtins'', name), (''builtins'', ''object'')],
      cls_callable = False, cls_scalar = scalar, cls_str = (name = ''str''), cls_iterator = False\<rparr>"

abbreviation LIST_CLS :: pyclass where "LIST_CLS \<equiv> builtin_class ''list'' False"
abbreviation TUPLE_CLS :: pyclass where "TUPLE_CLS \<equiv> builtin_class ''tuple'' False"
abbreviation DICT_CLS :: pyclass where "DICT_CLS \<equiv> builtin_class ''dict'' False"

definition TENSOR_CLS :: pyclass where
  "TENSOR_CLS = \<lparr>cls_module = ''torch'', cls_name = ''Tensor'',
     cls_mro = [(''torch'', ''Tensor''), (''torch._C'', ''TensorBase''), (''builtins'', ''object'')],
     cls_callable = False, cls_scalar = False, cls_str = False, cls_iterator = False\<rparr>"

definition BOUNDARY_CLS :: pyclass where
  "BOUNDARY_CLS = \<lparr>cls_module = ''vllm_omni.diffusion.models.interface'', cls_name = ''StageBoundary'',
     cls_mro = [(''vllm_omni.diffusion.models.interface'', ''StageBoundary''), (''builtins'', ''str''),
                (''enum'', ''Enum''), (''builtins'', ''object'')],
     cls_callable = False, cls_scalar = True, cls_str = True, cls_iterator = False\<rparr>"

fun type_of :: "'t pyval \<Rightarrow> pyclass" where
  "type_of PNone = builtin_class ''NoneType'' True"
| "type_of (PBool _) = builtin_class ''bool'' True"
| "type_of (PInt _) = builtin_class ''int'' True"
| "type_of (PFloat _) = builtin_class ''float'' True"
| "type_of (PStr _) = builtin_class ''str'' True"
| "type_of (PBytes _) = builtin_class ''bytes'' True"
| "type_of (PBoundary _) = BOUNDARY_CLS"
| "type_of (PTensor _) = TENSOR_CLS"
| "type_of (PSeq c _) = c"
| "type_of (PMap c _) = c"
| "type_of (PInst c) = c"

definition is_str :: "'t pyval \<Rightarrow> bool" where
  "is_str v = cls_str (type_of v)"

text \<open>Truth value of the values the code tests with \<^verbatim>\<open>or\<close> and \<^verbatim>\<open>not\<close>; instances of other classes
  and tensors are taken as true.\<close>

fun py_truthy :: "'t pyval \<Rightarrow> bool" where
  "py_truthy PNone = False"
| "py_truthy (PBool b) = b"
| "py_truthy (PInt i) = (i \<noteq> 0)"
| "py_truthy (PFloat w) = (w \<noteq> 0 \<and> w \<noteq> 0x8000000000000000)"
| "py_truthy (PStr s) = (s \<noteq> [])"
| "py_truthy (PBytes b) = (b \<noteq> [])"
| "py_truthy (PSeq _ xs) = (xs \<noteq> [])"
| "py_truthy (PMap _ kvs) = (kvs \<noteq> [])"
| "py_truthy _ = True"

section \<open>Transport errors\<close>

datatype 't path_elem = At_Index nat | At_Key "'t pyval"

type_synonym 't path = "string \<times> 't path_elem list"

datatype 't transport_error =
    Is_Tensor "'t path"
  | Process_Local "'t path" string
  | Bad_Type "'t path" string
  | Nested_Key "'t path" "'t pyval"
  | Not_A_Tensor string "'t pyval"
  | Field_Key string "'t pyval"
  | Field_Not_Dict string
  | Bad_Request_Id
  | Bad_Boundary "'t pyval"
  | Bad_Version "'t pyval"
  | Missing_Tensors "'t pyval list"
  | Wrong_Boundary "'t pyval" StageBoundary
  | No_Boundary string string
  | No_Carrier string
  | No_KV_State string
  | Scalar_Attribute string
  | No_Payload string
  | Not_A_Payload string
  | Raised py_exc

text \<open>\<^verbatim>\<open>NonTransportableValueError\<close> is a subclass of \<^verbatim>\<open>StagePayloadError\<close>.\<close>

fun is_non_transportable_error :: "'t transport_error \<Rightarrow> bool" where
  "is_non_transportable_error (Is_Tensor _) = True"
| "is_non_transportable_error (Process_Local _ _) = True"
| "is_non_transportable_error (Bad_Type _ _) = True"
| "is_non_transportable_error (Not_A_Tensor _ _) = True"
| "is_non_transportable_error _ = False"

definition is_stage_payload_error :: "'t transport_error \<Rightarrow> bool" where
  "is_stage_payload_error e = (case e of Raised _ \<Rightarrow> False | _ \<Rightarrow> True)"

section \<open>What may cross a boundary\<close>

definition is_tensor :: "'t pyval \<Rightarrow> bool" where
  "is_tensor value = ((''torch'', ''Tensor'') \<in> set (cls_mro (type_of value)))"

definition PROCESS_LOCAL_NAMES :: "string list" where
  "PROCESS_LOCAL_NAMES = [''DiffusionRequestState'', ''DreamZeroState'', ''ARDiffusionKVState'',
     ''ARDiffusionKVCache'']"

definition looks_non_transportable :: "'t pyval \<Rightarrow> string option" where
  "looks_non_transportable value =
     (let cls = type_of value; module = cls_module cls; name = cls_name cls in
      if cls_callable cls \<and> (module \<noteq> [] \<or> name \<noteq> []) \<and>
         (module = ''builtins'' \<and> name \<in> {''function'', ''builtin_function_or_method''} \<or>
          name \<in> {''function'', ''method'', ''builtin_function_or_method'', ''type''})
      then Some ''callable''
      else if py_startswith module ''torch'' \<and>
              name \<in> {''Generator'', ''Stream'', ''Event'', ''device'', ''dtype''}
      then Some (''torch.'' @ name)
      else if py_startswith module ''torch'' \<and> (py_contains ''Module'' name \<or> py_endswith name ''Module'')
      then Some (''torch module ('' @ name @ '')'')
      else if py_contains ''scheduler'' (py_lower name)
      then Some (''scheduler object ('' @ name @ '')'')
      else if name \<in> set PROCESS_LOCAL_NAMES
      then Some (''process-local state object ('' @ name @ '')'')
      else if cls_iterator cls \<and> name = ''generator'' then Some ''generator''
      else None)"

text \<open>The loops return at the first error, in iteration order.\<close>

function (sequential) validate_transport_scalar ::
    "'t path \<Rightarrow> 't pyval \<Rightarrow> 't transport_error option"
  and validate_items :: "'t path \<Rightarrow> nat \<Rightarrow> 't pyval list \<Rightarrow> 't transport_error option"
  and validate_entries :: "'t path \<Rightarrow> ('t pyval \<times> 't pyval) list \<Rightarrow> 't transport_error option"
where
  "validate_transport_scalar path value =
     (if is_tensor value then Some (Is_Tensor path)
      else (case looks_non_transportable value of
        Some reason \<Rightarrow> Some (Process_Local path reason)
      | None \<Rightarrow>
          if cls_scalar (type_of value) then None
          else (case value of
              PSeq c xs \<Rightarrow> validate_items path 0 xs
            | PMap c kvs \<Rightarrow> validate_entries path kvs
            | _ \<Rightarrow> if py_startswith (cls_module (type_of value)) ''numpy'' then None
                   else Some (Bad_Type path (cls_name (type_of value))))))"
| "validate_items path i [] = None"
| "validate_items path i (x # xs) =
     (case validate_transport_scalar (fst path, snd path @ [At_Index i]) x of
        Some e \<Rightarrow> Some e
      | None \<Rightarrow> validate_items path (Suc i) xs)"
| "validate_entries path [] = None"
| "validate_entries path ((k, v) # kvs) =
     (if \<not> is_str k then Some (Nested_Key path k)
      else (case validate_transport_scalar (fst path, snd path @ [At_Key k]) v of
        Some e \<Rightarrow> Some e
      | None \<Rightarrow> validate_entries path kvs))"
  by pat_completeness auto
termination by size_change

declare validate_transport_scalar.simps [simp del]


section \<open>The allow-list, stated without the traversal\<close>

text \<open>\<open>subvalue v p w\<close>: following the indices and keys \<open>p\<close> from \<open>v\<close> reaches \<open>w\<close>; values whose class
  is an allowed scalar are not entered.\<close>

inductive subvalue :: "'t pyval \<Rightarrow> 't path_elem list \<Rightarrow> 't pyval \<Rightarrow> bool" where
  sub_here: "subvalue v [] v"
| sub_seq: "\<not> cls_scalar c \<Longrightarrow> i < length xs \<Longrightarrow> subvalue (xs ! i) p w \<Longrightarrow>
              subvalue (PSeq c xs) (At_Index i # p) w"
| sub_map: "\<not> cls_scalar c \<Longrightarrow> (k, x) \<in> set kvs \<Longrightarrow> subvalue x p w \<Longrightarrow>
              subvalue (PMap c kvs) (At_Key k # p) w"

inductive_cases subvalue_PSeqE: "subvalue (PSeq c xs) p w"
inductive_cases subvalue_PMapE: "subvalue (PMap c kvs) p w"
inductive_cases subvalue_E: "subvalue v p w"

definition node_allowed :: "'t pyval \<Rightarrow> bool" where
  "node_allowed w \<longleftrightarrow>
     \<not> is_tensor w \<and> looks_non_transportable w = None \<and>
     (cls_scalar (type_of w) \<or>
      (case w of PSeq c xs \<Rightarrow> True
       | PMap c kvs \<Rightarrow> (\<forall>(k, x) \<in> set kvs. is_str k)
       | _ \<Rightarrow> py_startswith (cls_module (type_of w)) ''numpy''))"

definition transportable :: "'t pyval \<Rightarrow> bool" where
  "transportable v \<longleftrightarrow> (\<forall>p w. subvalue v p w \<longrightarrow> node_allowed w)"

definition error_at :: "'t path \<Rightarrow> 't pyval \<Rightarrow> 't transport_error \<Rightarrow> bool" where
  "error_at path w e \<longleftrightarrow>
     (is_tensor w \<and> e = Is_Tensor path) \<or>
     (\<not> is_tensor w \<and> (\<exists>r. looks_non_transportable w = Some r \<and> e = Process_Local path r)) \<or>
     (\<not> is_tensor w \<and> looks_non_transportable w = None \<and> \<not> cls_scalar (type_of w) \<and>
        (case w of PSeq c xs \<Rightarrow> False
         | PMap c kvs \<Rightarrow> (\<exists>k x. (k, x) \<in> set kvs \<and> \<not> is_str k \<and> e = Nested_Key path k)
         | _ \<Rightarrow> \<not> py_startswith (cls_module (type_of w)) ''numpy'' \<and>
               e = Bad_Type path (cls_name (type_of w))))"

lemma error_at_not_allowed: "error_at path w e \<Longrightarrow> \<not> node_allowed w"
  by (auto simp: error_at_def node_allowed_def split: pyval.splits)

lemma transportable_here: "transportable v \<Longrightarrow> node_allowed v"
  using sub_here by (force simp: transportable_def)

lemma transportable_PSeq:
  "transportable (PSeq c xs) \<longleftrightarrow>
     node_allowed (PSeq c xs) \<and> (cls_scalar c \<or> (\<forall>x \<in> set xs. transportable x))" (is "?l \<longleftrightarrow> ?r")
proof
  assume l: ?l
  have "transportable x" if "\<not> cls_scalar c" "x \<in> set xs" for x
    using l that unfolding transportable_def in_set_conv_nth by (metis sub_seq)
  with transportable_here [OF l] show ?r by blast
next
  assume r: ?r
  have "node_allowed w" if "subvalue (PSeq c xs) p w" for p w
    using that
  proof (rule subvalue_PSeqE)
    fix i q assume "\<not> cls_scalar c" "i < length xs" "subvalue (xs ! i) q w"
    then show "node_allowed w" using r unfolding transportable_def by (metis nth_mem)
  qed (use r in simp)
  then show ?l by (simp add: transportable_def)
qed

lemma transportable_PMap:
  "transportable (PMap c kvs) \<longleftrightarrow>
     node_allowed (PMap c kvs) \<and> (cls_scalar c \<or> (\<forall>(k, x) \<in> set kvs. transportable x))" (is "?l \<longleftrightarrow> ?r")
proof
  assume l: ?l
  have "transportable x" if "\<not> cls_scalar c" "(k, x) \<in> set kvs" for k x
    using l that unfolding transportable_def by (metis sub_map)
  with transportable_here [OF l] show ?r by blast
next
  assume r: ?r
  have "node_allowed w" if "subvalue (PMap c kvs) p w" for p w
    using that
  proof (rule subvalue_PMapE)
    fix k x q assume "\<not> cls_scalar c" "(k, x) \<in> set kvs" "subvalue x q w"
    then show "node_allowed w" using r unfolding transportable_def by blast
  qed (use r in simp)
  then show ?l by (simp add: transportable_def)
qed

lemma transportable_leaf:
  "(\<And>c xs. v \<noteq> PSeq c xs) \<Longrightarrow> (\<And>c kvs. v \<noteq> PMap c kvs) \<Longrightarrow> transportable v \<longleftrightarrow> node_allowed v"
  unfolding transportable_def by (metis subvalue_E sub_here)

lemma transportable_iff:
  "transportable v \<longleftrightarrow> node_allowed v \<and> (cls_scalar (type_of v) \<or>
     (case v of PSeq c xs \<Rightarrow> (\<forall>x \<in> set xs. transportable x)
      | PMap c kvs \<Rightarrow> (\<forall>(k, x) \<in> set kvs. transportable x) | _ \<Rightarrow> True))"
  by (cases v) (auto simp: transportable_PSeq transportable_PMap transportable_leaf)

lemma validate_None_iff:
  "(validate_transport_scalar path v = None) \<longleftrightarrow> transportable v"
  "(validate_items path i xs = None) \<longleftrightarrow> (\<forall>x \<in> set xs. transportable x)"
  "(validate_entries path kvs = None) \<longleftrightarrow> (\<forall>(k, x) \<in> set kvs. is_str k \<and> transportable x)"
proof (induction path v and path i xs and path kvs rule: validate_transport_scalar_validate_items_validate_entries.induct)
  case (1 path w0)
  show ?case
  proof (cases "\<not> is_tensor w0 \<and> looks_non_transportable w0 = None")
    case True
    note g = this
    show ?thesis
    proof (cases "cls_scalar (type_of w0)")
      case True
      with g show ?thesis
        by (simp add: validate_transport_scalar.simps transportable_iff node_allowed_def)
    next
      case False
      with g 1 show ?thesis
        by (cases w0) (auto simp: validate_transport_scalar.simps transportable_iff node_allowed_def)
    qed
  next
    case False
    then show ?thesis
      by (auto simp: validate_transport_scalar.simps transportable_iff node_allowed_def split: option.splits)
  qed
qed (auto split: option.splits)

lemma validate_error:
  "validate_transport_scalar path v = Some e \<Longrightarrow>
     \<exists>p w. subvalue v p w \<and> error_at (fst path, snd path @ p) w e"
  "validate_items path i xs = Some e \<Longrightarrow>
     \<exists>j p w. j < length xs \<and> subvalue (xs ! j) p w \<and> error_at (fst path, snd path @ At_Index (i + j) # p) w e"
  "validate_entries path kvs = Some e \<Longrightarrow>
     (\<exists>k x. (k, x) \<in> set kvs \<and> \<not> is_str k \<and> e = Nested_Key path k) \<or>
     (\<exists>k x p w. (k, x) \<in> set kvs \<and> subvalue x p w \<and> error_at (fst path, snd path @ At_Key k # p) w e)"
proof (induction path v and path i xs and path kvs arbitrary: e and e and e rule: validate_transport_scalar_validate_items_validate_entries.induct)
  case (1 path w0)
  show ?case
  proof (cases "is_tensor w0 \<or> looks_non_transportable w0 \<noteq> None \<or> cls_scalar (type_of w0)
      \<or> (\<forall>c xs. w0 \<noteq> PSeq c xs) \<and> (\<forall>c kvs. w0 \<noteq> PMap c kvs)")
    case True
    with "1.prems" have "error_at path w0 e"
      by (auto simp: validate_transport_scalar.simps error_at_def
          split: if_splits option.splits pyval.splits)
    then show ?thesis by (metis append_Nil2 prod.collapse sub_here)
  next
    case False
    then consider c xs where "w0 = PSeq c xs" | c kvs where "w0 = PMap c kvs" by blast
    then show ?thesis
    proof cases
      case 1
      with "1.prems" False have "validate_items path 0 xs = Some e"
        by (simp add: validate_transport_scalar.simps)
      with "1.IH" 1 False show ?thesis by (fastforce intro: sub_seq)
    next
      case 2
      with "1.prems" False have "validate_entries path kvs = Some e"
        by (simp add: validate_transport_scalar.simps)
      with "1.IH" 2 False consider
          k x where "(k, x) \<in> set kvs" "\<not> is_str k" "e = Nested_Key path k"
        | k x p w where "(k, x) \<in> set kvs" "subvalue x p w"
            "error_at (fst path, snd path @ At_Key k # p) w e" by fastforce
      then show ?thesis
      proof cases
        case 1
        with 2 False have "error_at path w0 e" by (auto simp: error_at_def)
        then show ?thesis by (metis append_Nil2 prod.collapse sub_here)
      next
        case 3: 2
        with 2 False show ?thesis by (fastforce intro: sub_map)
      qed
    qed
  qed
next
  case (3 path i x xs)
  show ?case
  proof (cases "validate_transport_scalar (fst path, snd path @ [At_Index i]) x")
    case (Some e')
    with 3 show ?thesis by (intro exI [of _ 0]) simp
  next
    case None
    with 3 obtain j p w where "j < length xs" "subvalue (xs ! j) p w"
        "error_at (fst path, snd path @ At_Index (Suc i + j) # p) w e" by auto
    then show ?thesis by (intro exI [of _ "Suc j"]) auto
  qed
next
  case (5 path k v kvs)
  show ?case
  proof (cases "is_str k")
    case k: True
    show ?thesis
    proof (cases "validate_transport_scalar (fst path, snd path @ [At_Key k]) v")
      case (Some e')
      with "5.prems" k have "e' = e" by simp
      with "5.IH"(1) [of e'] k Some obtain p w where "subvalue v p w"
        "error_at (fst path, snd path @ At_Key k # p) w e" by auto
      then show ?thesis by (meson list.set_intros(1))
    next
      case None
      with "5.prems" k have "validate_entries path kvs = Some e" by simp
      with "5.IH"(2) [of e] k None show ?thesis by (meson list.set_intros(2))
    qed
  next
    case False
    with "5.prems" show ?thesis by auto
  qed
qed simp_all

section \<open>The device-to-host boundary\<close>

text \<open>
  What \<^verbatim>\<open>sanitize_transport_tensor\<close> calls on a \<^verbatim>\<open>torch.Tensor\<close>, and what can be observed of one:
  its element data with dtype and shape (\<open>t_data\<close>), whether it is host resident, whether it is
  contiguous, whether it requires grad, and its \<^verbatim>\<open>data_ptr()\<close>.
\<close>

record ('t, 'd) torch_ops =
  detach :: "'t \<Rightarrow> 't"
  cpu :: "'t \<Rightarrow> 't"
  contiguous :: "'t \<Rightarrow> 't"
  clone :: "'t \<Rightarrow> 't"
  data_ptr :: "'t \<Rightarrow> int"
  t_data :: "'t \<Rightarrow> 'd"
  on_host :: "'t \<Rightarrow> bool"
  is_contiguous :: "'t \<Rightarrow> bool"
  requires_grad :: "'t \<Rightarrow> bool"

text \<open>The documented behaviour of those operations.\<close>

definition torch_laws :: "('t, 'd) torch_ops \<Rightarrow> bool" where
  "torch_laws T \<longleftrightarrow>
     (\<forall>t. t_data T (detach T t) = t_data T t \<and> \<not> requires_grad T (detach T t) \<and>
          on_host T (detach T t) = on_host T t \<and> is_contiguous T (detach T t) = is_contiguous T t) \<and>
     (\<forall>t. t_data T (cpu T t) = t_data T t \<and> requires_grad T (cpu T t) = requires_grad T t \<and>
          on_host T (cpu T t)) \<and>
     (\<forall>t. t_data T (contiguous T t) = t_data T t \<and>
          requires_grad T (contiguous T t) = requires_grad T t \<and>
          on_host T (contiguous T t) = on_host T t \<and> is_contiguous T (contiguous T t)) \<and>
     (\<forall>t. t_data T (clone T t) = t_data T t \<and> requires_grad T (clone T t) = requires_grad T t \<and>
          on_host T (clone T t) = on_host T t \<and>
          is_contiguous T (clone T t) = is_contiguous T t \<and> data_ptr T (clone T t) \<noteq> data_ptr T t)"

definition sanitize_transport_tensor :: "('t, 'd) torch_ops \<Rightarrow> 't \<Rightarrow> 't" where
  "sanitize_transport_tensor T tensor =
     (let detached = detach T tensor; host = cpu T detached; contig = contiguous T host in
      if data_ptr T contig = data_ptr T tensor then clone T contig else contig)"

definition transport_safe :: "('t, 'd) torch_ops \<Rightarrow> 't \<Rightarrow> 't \<Rightarrow> bool" where
  "transport_safe T original t \<longleftrightarrow>
     t_data T t = t_data T original \<and> on_host T t \<and> is_contiguous T t \<and> \<not> requires_grad T t \<and>
     data_ptr T t \<noteq> data_ptr T original"

lemma sanitize_transport_safe:
  "torch_laws T \<Longrightarrow> transport_safe T t (sanitize_transport_tensor T t)"
  unfolding torch_laws_def transport_safe_def sanitize_transport_tensor_def Let_def
  by (smt (verit, best))

section \<open>Boundaries\<close>

definition boundary_value :: "StageBoundary \<Rightarrow> string" where
  "boundary_value b = (case b of ENCODE_TO_DIT \<Rightarrow> ''encode_to_dit'' | DIT_TO_DECODE \<Rightarrow> ''dit_to_decode'')"

text \<open>\<^verbatim>\<open>StageBoundary(x)\<close>: the member itself, or the member of that value.\<close>

definition StageBoundary_of :: "'t pyval \<Rightarrow> 't transport_error + StageBoundary" where
  "StageBoundary_of x = (case x of
      PBoundary b \<Rightarrow> Inr b
    | PStr s \<Rightarrow> if s = ''encode_to_dit'' then Inr ENCODE_TO_DIT
                else if s = ''dit_to_decode'' then Inr DIT_TO_DECODE else Inl (Raised ValueError)
    | _ \<Rightarrow> Inl (Raised ValueError))"

definition boundary_from_roles :: "string \<Rightarrow> string \<Rightarrow> 't transport_error + StageBoundary" where
  "boundary_from_roles source_stage target_stage =
     (if source_stage = ''encode'' \<and> target_stage = ''denoise'' then Inr ENCODE_TO_DIT
      else if source_stage = ''denoise'' \<and> target_stage = ''decode'' then Inr DIT_TO_DECODE
      else Inl (No_Boundary source_stage target_stage))"

section \<open>The envelope\<close>

definition STAGE_PAYLOAD_SCHEMA_VERSION :: int where
  "STAGE_PAYLOAD_SCHEMA_VERSION = 1"

text \<open>Dataclass fields are not checked by Python, so each holds any value.\<close>

record 't StagePayload =
  request_id :: "'t pyval"
  boundary :: "'t pyval"
  scalar_fields :: "'t pyval"
  tensor_fields :: "'t pyval"
  private_scalar_fields :: "'t pyval"
  private_tensor_fields :: "'t pyval"
  payload_version :: "'t pyval"

type_synonym 't items = "('t pyval \<times> 't pyval) list"

text \<open>\<^verbatim>\<open>version != 1\<close>: Python compares numbers across types, so \<^verbatim>\<open>True\<close> and \<^verbatim>\<open>1.0\<close> equal \<^verbatim>\<open>1\<close>.\<close>

definition version_ok :: "'t pyval \<Rightarrow> bool" where
  "version_ok v = (case v of PInt i \<Rightarrow> i = STAGE_PAYLOAD_SCHEMA_VERSION | PBool b \<Rightarrow> b
     | PFloat w \<Rightarrow> w = 0x3FF0000000000000 | _ \<Rightarrow> False)"

fun check_tensors :: "string \<Rightarrow> 't items \<Rightarrow> 't transport_error option" where
  "check_tensors label [] = None"
| "check_tensors label ((name, tensor) # rest) =
     (if \<not> is_str name then Some (Field_Key label name)
      else if \<not> is_tensor tensor then Some (Not_A_Tensor label name)
      else check_tensors label rest)"

fun check_scalars :: "string \<Rightarrow> 't items \<Rightarrow> 't transport_error option" where
  "check_scalars label [] = None"
| "check_scalars label ((key, v) # rest) =
     (if \<not> is_str key then Some (Field_Key label key)
      else case validate_transport_scalar (label, [At_Key key]) v of
             Some e \<Rightarrow> Some e
           | None \<Rightarrow> check_scalars label rest)"

definition check_dict ::
  "(string \<Rightarrow> 't items \<Rightarrow> 't transport_error option) \<Rightarrow> string \<Rightarrow> 't pyval \<Rightarrow> 't transport_error option" where
  "check_dict check label d =
     (case d of PMap _ kvs \<Rightarrow> check label kvs | _ \<Rightarrow> Some (Field_Not_Dict label))"

fun first_error :: "'e option list \<Rightarrow> 'e option" where
  "first_error [] = None"
| "first_error (Some e # _) = Some e"
| "first_error (None # es) = first_error es"

definition is_boundary :: "'t pyval \<Rightarrow> bool" where
  "is_boundary v = (case v of PBoundary _ \<Rightarrow> True | _ \<Rightarrow> False)"

definition validate :: "'t StagePayload \<Rightarrow> 't transport_error option" where
  "validate p =
     (if \<not> is_str (request_id p) \<or> \<not> py_truthy (request_id p) then Some Bad_Request_Id
      else if \<not> is_boundary (boundary p) then Some (Bad_Boundary (boundary p))
      else if \<not> version_ok (payload_version p) then Some (Bad_Version (payload_version p))
      else first_error
        [check_dict check_tensors ''tensor_fields'' (tensor_fields p),
         check_dict check_tensors ''private_tensor_fields'' (private_tensor_fields p),
         check_dict check_scalars ''scalar_fields'' (scalar_fields p),
         check_dict check_scalars ''private_scalar_fields'' (private_scalar_fields p)])"

text \<open>The \<^verbatim>\<open>_prep\<close> loop of \<^verbatim>\<open>create\<close>: a non-tensor stops it, a present name is overwritten in place.
  \<^verbatim>\<open>san\<close> is \<^verbatim>\<open>sanitize_transport_tensor\<close> on a tensor object.\<close>

definition sanitize_value :: "('t, 'd) torch_ops \<Rightarrow> bool \<Rightarrow> 't pyval \<Rightarrow> 't pyval" where
  "sanitize_value T san v =
     (case v of PTensor t \<Rightarrow> if san then PTensor (sanitize_transport_tensor T t) else v | _ \<Rightarrow> v)"

fun prep :: "('t, 'd) torch_ops \<Rightarrow> bool \<Rightarrow> string \<Rightarrow> 't items \<Rightarrow> 't items \<Rightarrow> 't transport_error + 't items" where
  "prep T san label [] prepared = Inr prepared"
| "prep T san label ((name, tensor) # rest) prepared =
     (if \<not> is_tensor tensor then Inl (Not_A_Tensor label name)
      else prep T san label rest (dict_set name (sanitize_value T san tensor) prepared))"

definition create ::
  "('t, 'd) torch_ops \<Rightarrow> 't pyval \<Rightarrow> 't pyval \<Rightarrow> 't items option \<Rightarrow> 't items option \<Rightarrow>
   't items option \<Rightarrow> 't items option \<Rightarrow> bool \<Rightarrow> bool \<Rightarrow> 't transport_error + 't StagePayload" where
  "create T rid bnd scalars tensors private_scalars private_tensors san validated =
     (let items = (\<lambda>opt. case opt of None \<Rightarrow> [] | Some kvs \<Rightarrow> kvs) in
      rbind (prep T san ''tensor_fields'' (items tensors) []) (\<lambda>ts.
      rbind (prep T san ''private_tensor_fields'' (items private_tensors) []) (\<lambda>pts.
        let payload = \<lparr>request_id = rid, boundary = bnd,
              scalar_fields = PMap DICT_CLS (items scalars), tensor_fields = PMap DICT_CLS ts,
              private_scalar_fields = PMap DICT_CLS (items private_scalars),
              private_tensor_fields = PMap DICT_CLS pts,
              payload_version = PInt STAGE_PAYLOAD_SCHEMA_VERSION\<rparr> in
        if validated
        then (case validate payload of Some e \<Rightarrow> Inl e | None \<Rightarrow> Inr payload)
        else Inr payload)))"

text \<open>\<^verbatim>\<open>dict(x or {})\<close>: falsy values give the empty dict, a dict is copied; what the \<^verbatim>\<open>dict\<close>
  constructor does on any other value is the parameter \<open>conv\<close>.\<close>

definition dict_or_empty ::
  "('t pyval \<Rightarrow> 't transport_error + 't items) \<Rightarrow> 't pyval option \<Rightarrow> 't transport_error + 't pyval" where
  "dict_or_empty conv x = (case x of
      None \<Rightarrow> Inr (PMap DICT_CLS [])
    | Some v \<Rightarrow> if \<not> py_truthy v then Inr (PMap DICT_CLS [])
                else (case v of PMap _ kvs \<Rightarrow> Inr (PMap DICT_CLS kvs)
                      | _ \<Rightarrow> rbind (conv v) (\<lambda>kvs. Inr (PMap DICT_CLS kvs))))"

definition item :: "'t items \<Rightarrow> string \<Rightarrow> 't transport_error + 't pyval" where
  "item d k = (case dict_get d (PStr k) of None \<Rightarrow> Inl (Raised KeyError) | Some v \<Rightarrow> Inr v)"

definition from_dict ::
  "('t pyval \<Rightarrow> 't transport_error + 't items) \<Rightarrow> 't items \<Rightarrow> 't transport_error + 't StagePayload" where
  "from_dict conv data =
     (let field = (\<lambda>k. dict_or_empty conv (dict_get data (PStr k))) in
      rbind (item data ''request_id'') (\<lambda>rid.
      rbind (rbind (item data ''boundary'') StageBoundary_of) (\<lambda>b.
      rbind (field ''scalar_fields'') (\<lambda>sc.
      rbind (field ''tensor_fields'') (\<lambda>ts.
      rbind (field ''private_scalar_fields'') (\<lambda>psc.
      rbind (field ''private_tensor_fields'') (\<lambda>pts.
      Inr \<lparr>request_id = rid, boundary = PBoundary b, scalar_fields = sc, tensor_fields = ts,
           private_scalar_fields = psc, private_tensor_fields = pts,
           payload_version = (case dict_get data (PStr ''payload_version'') of
              None \<Rightarrow> PInt STAGE_PAYLOAD_SCHEMA_VERSION | Some v \<Rightarrow> v)\<rparr>)))))))"

text \<open>\<^verbatim>\<open>dict(self.field)\<close>; \<^verbatim>\<open>self.boundary.value\<close> needs a \<^verbatim>\<open>StageBoundary\<close>
  (an \<^verbatim>\<open>AttributeError\<close> otherwise, here \<^verbatim>\<open>TypeError\<close> like the failing \<^verbatim>\<open>dict\<close> copies).\<close>

definition dict_copy ::
  "('t pyval \<Rightarrow> 't transport_error + 't items) \<Rightarrow> 't pyval \<Rightarrow> 't transport_error + 't pyval" where
  "dict_copy conv v = (case v of PMap _ kvs \<Rightarrow> Inr (PMap DICT_CLS kvs)
     | _ \<Rightarrow> rbind (conv v) (\<lambda>kvs. Inr (PMap DICT_CLS kvs)))"

definition to_dict ::
  "('t pyval \<Rightarrow> 't transport_error + 't items) \<Rightarrow> 't StagePayload \<Rightarrow> 't transport_error + 't items" where
  "to_dict conv p =
     (case boundary p of
        PBoundary b \<Rightarrow>
          rbind (dict_copy conv (scalar_fields p)) (\<lambda>sc.
          rbind (dict_copy conv (tensor_fields p)) (\<lambda>ts.
          rbind (dict_copy conv (private_scalar_fields p)) (\<lambda>psc.
          rbind (dict_copy conv (private_tensor_fields p)) (\<lambda>pts.
          Inr [(PStr ''request_id'', request_id p), (PStr ''boundary'', PStr (boundary_value b)),
               (PStr ''scalar_fields'', sc), (PStr ''tensor_fields'', ts),
               (PStr ''private_scalar_fields'', psc), (PStr ''private_tensor_fields'', pts),
               (PStr ''payload_version'', payload_version p)]))))
      | _ \<Rightarrow> Inl (Raised TypeError))"

text \<open>\<^verbatim>\<open>sanitize\<close>, on a payload whose fields are dicts (its \<^verbatim>\<open>create\<close> reads them with \<^verbatim>\<open>.items()\<close>).\<close>

definition map_items :: "'t pyval \<Rightarrow> 't items option" where
  "map_items v = (case v of PMap _ kvs \<Rightarrow> Some kvs | _ \<Rightarrow> None)"

definition sanitize :: "('t, 'd) torch_ops \<Rightarrow> 't StagePayload \<Rightarrow> 't transport_error + 't StagePayload" where
  "sanitize T p = create T (request_id p) (boundary p) (map_items (scalar_fields p))
     (map_items (tensor_fields p)) (map_items (private_scalar_fields p))
     (map_items (private_tensor_fields p)) True False"

definition require_tensors :: "'t StagePayload \<Rightarrow> bool \<Rightarrow> string list \<Rightarrow> 't transport_error option" where
  "require_tensors p private names =
     (let source = (case map_items (if private then private_tensor_fields p else tensor_fields p) of
                      None \<Rightarrow> [] | Some kvs \<Rightarrow> kvs);
          missing = filter (\<lambda>n. PStr n \<notin> set (dict_keys source)) names in
      if missing \<noteq> [] then Some (Missing_Tensors (map PStr missing)) else None)"

definition expect_boundary :: "'t StagePayload \<Rightarrow> StageBoundary \<Rightarrow> 't transport_error option" where
  "expect_boundary p b =
     (if boundary p \<noteq> PBoundary b \<and> boundary p \<noteq> PStr (boundary_value b)
      then Some (Wrong_Boundary (boundary p) b) else None)"

section \<open>Envelope facts\<close>

lemma check_tensors_None:
  "check_tensors label kvs = None \<longleftrightarrow> (\<forall>(k, v) \<in> set kvs. is_str k \<and> is_tensor v)"
  by (induction label kvs rule: check_tensors.induct) auto

lemma check_scalars_None:
  "check_scalars label kvs = None \<longleftrightarrow> (\<forall>(k, v) \<in> set kvs. is_str k \<and> transportable v)"
proof (induction label kvs rule: check_scalars.induct)
  case (2 label key v rest)
  have "check_scalars label ((key, v) # rest) = None \<longleftrightarrow>
      is_str key \<and> validate_transport_scalar (label, [At_Key key]) v = None \<and> check_scalars label rest = None"
    by (auto split: option.splits)
  also have "\<dots> \<longleftrightarrow> is_str key \<and> transportable v \<and> check_scalars label rest = None"
    by (simp only: validate_None_iff)
  finally show ?case using 2 by (cases "is_str key \<and> transportable v") (auto simp: validate_None_iff)
qed simp

lemma first_error_None: "first_error es = None \<longleftrightarrow> (\<forall>e \<in> set es. e = None)"
  by (induction es rule: first_error.induct) auto

lemma check_dict_None:
  "check_dict check label d = None \<longleftrightarrow> (\<exists>c kvs. d = PMap c kvs \<and> check label kvs = None)"
  by (auto simp: check_dict_def split: pyval.splits)

lemma prep_distinct:
  assumes "distinct (map fst prepared @ map fst kvs)"
  shows "prep T san label kvs prepared =
     (if \<forall>(n, v) \<in> set kvs. is_tensor v
      then Inr (prepared @ map (\<lambda>(n, v). (n, sanitize_value T san v)) kvs)
      else prep T san label kvs prepared)"
  using assms
proof (induction T san label kvs prepared rule: prep.induct)
  case (2 T san label name tensor rest prepared)
  show ?case
  proof (cases "is_tensor tensor")
    case True
    from "2.prems" have fresh: "dict_get prepared name = None"
      by (simp add: map_of_eq_None_iff)
    have "distinct (map fst (prepared @ [(name, sanitize_value T san tensor)]) @ map fst rest)"
      using "2.prems" by auto
    with "2.IH" [of] True show ?thesis by (auto simp: dict_set_fresh [OF fresh])
  qed simp
qed simp

lemma prep_Inr_tensors:
  "prep T san label kvs prepared = Inr r \<Longrightarrow> (n, v) \<in> set kvs \<Longrightarrow> is_tensor v"
  by (induction T san label kvs prepared rule: prep.induct) (auto split: if_splits)

lemma prep_Inr:
  assumes "prep T san label kvs [] = Inr r" and "distinct (map fst kvs)"
  shows "r = map (\<lambda>(n, v). (n, sanitize_value T san v)) kvs"
proof -
  have "\<forall>(n, v) \<in> set kvs. is_tensor v" using prep_Inr_tensors [OF assms(1)] by auto
  with prep_distinct [of "[]" kvs T san label] assms show ?thesis by simp
qed

section \<open>Validation, stated without the loops\<close>

definition tensor_dict :: "'t pyval \<Rightarrow> bool" where
  "tensor_dict d = (\<exists>c kvs. d = PMap c kvs \<and> (\<forall>(k, v) \<in> set kvs. is_str k \<and> is_tensor v))"

definition scalar_dict :: "'t pyval \<Rightarrow> bool" where
  "scalar_dict d = (\<exists>c kvs. d = PMap c kvs \<and> (\<forall>(k, v) \<in> set kvs. is_str k \<and> transportable v))"

lemma validate_exact:
  "validate p = None \<longleftrightarrow>
     is_str (request_id p) \<and> py_truthy (request_id p) \<and> is_boundary (boundary p) \<and>
     version_ok (payload_version p) \<and>
     tensor_dict (tensor_fields p) \<and> tensor_dict (private_tensor_fields p) \<and>
     scalar_dict (scalar_fields p) \<and> scalar_dict (private_scalar_fields p)"
  unfolding validate_def tensor_dict_def scalar_dict_def
  by (simp only: first_error_None check_dict_None check_tensors_None check_scalars_None
      list.set ball_simps split: if_splits) auto

section \<open>Properties\<close>

text \<open>
  C26: an envelope passes validation exactly when its request id is a non-empty string, its
  boundary is a stage boundary, its version is the supported one, both tensor dicts map
  strings to tensors, and both scalar dicts map strings to values all of whose
  subvalues, at any depth, are on the allow-list.
\<close>

theorem payload_validation_exact:
  "validate p = None \<longleftrightarrow>
     is_str (request_id p) \<and> py_truthy (request_id p) \<and> is_boundary (boundary p) \<and>
     version_ok (payload_version p) \<and>
     tensor_dict (tensor_fields p) \<and> tensor_dict (private_tensor_fields p) \<and>
     scalar_dict (scalar_fields p) \<and> scalar_dict (private_scalar_fields p)"
  by (rule validate_exact)

text \<open>
  When a scalar value is refused, the error names a path that really leads, from the value
  the check was given, to a subvalue that is not allowed, and it states that
  subvalue's own fault; such a value is never transportable.
\<close>

theorem transport_error_located:
  assumes "validate_transport_scalar (label, q) v = Some e"
  shows "\<not> transportable v \<and> (\<exists>p w. subvalue v p w \<and> error_at (label, q @ p) w e \<and> \<not> node_allowed w)"
proof -
  from validate_error(1) [OF assms] obtain p w where "subvalue v p w" "error_at (label, q @ p) w e"
    by auto
  with assms show ?thesis
    using error_at_not_allowed validate_None_iff(1) by (metis option.distinct(1))
qed

definition nested_generator :: "int pyval" where
  "nested_generator = PMap DICT_CLS [(PStr ''a'', PInt 1),
     (PStr ''b'', PSeq LIST_CLS [PNone,
        PInst \<lparr>cls_module = ''builtins'', cls_name = ''generator'', cls_mro = [],
               cls_callable = False, cls_scalar = False, cls_str = False, cls_iterator = True\<rparr>])]"

lemma nested_generator_check:
  "validate_transport_scalar (''scalar_fields'', []) nested_generator =
     Some (Process_Local (''scalar_fields'', [At_Key (PStr ''b''), At_Index 1]) ''generator'')"
  by (simp add: nested_generator_def validate_transport_scalar.simps is_tensor_def
      looks_non_transportable_def builtin_class_def is_str_def py_startswith_def py_endswith_def
      py_lower_def py_lower_char_def PROCESS_LOCAL_NAMES_def Let_def)

theorem transport_error_located_witness:
  "\<not> transportable nested_generator \<and>
   (\<exists>p w. subvalue nested_generator p w \<and>
      error_at (''scalar_fields'', [] @ p) w
        (Process_Local (''scalar_fields'', [At_Key (PStr ''b''), At_Index 1]) ''generator'') \<and>
      \<not> node_allowed w)"
  by (rule transport_error_located [OF nested_generator_check])

definition exported :: "('t, 'd) torch_ops \<Rightarrow> 't items \<Rightarrow> 't pyval \<Rightarrow> bool" where
  "exported T original field \<longleftrightarrow>
     (\<exists>kvs. field = PMap DICT_CLS kvs \<and> map fst kvs = map fst original \<and>
        list_all2 (\<lambda>(_, v) (_, w). \<forall>t. v = PTensor t \<longrightarrow> (\<exists>t'. w = PTensor t' \<and> transport_safe T t t'))
          original kvs)"

lemma exported_map:
  assumes "torch_laws T"
  shows "exported T ts (PMap DICT_CLS (map (\<lambda>(n, v). (n, sanitize_value T True v)) ts))"
  using sanitize_transport_safe [OF assms]
  by (auto simp: exported_def list_all2_map2 sanitize_value_def intro!: list.rel_refl)

text \<open>
  With tensors that behave as torch documents, a payload built with sanitising and
  validation on is a valid envelope whose tensor dicts have the producer's names in order, and every
  tensor in them carries the producer's data, is host resident, contiguous, detached
  from autograd and never shares the producer's buffer.
\<close>

theorem created_payload_is_safe:
  assumes "torch_laws T"
      and "distinct (map fst ts)" and "distinct (map fst pts)"
      and "create T rid b sc (Some ts) psc (Some pts) True True = Inr p"
  shows "validate p = None \<and> request_id p = rid \<and> boundary p = b \<and>
         exported T ts (tensor_fields p) \<and> exported T pts (private_tensor_fields p)"
proof -
  from assms(4) obtain rs rps where
      r: "prep T True ''tensor_fields'' ts [] = Inr rs"
         "prep T True ''private_tensor_fields'' pts [] = Inr rps"
    and p: "validate p = None" "request_id p = rid" "boundary p = b"
      "tensor_fields p = PMap DICT_CLS rs" "private_tensor_fields p = PMap DICT_CLS rps"
    by (force simp: create_def Let_def rbind_Inr_iff split: option.splits)
  with prep_Inr [OF r(1) assms(2)] prep_Inr [OF r(2) assms(3)] exported_map [OF assms(1)]
  show ?thesis by simp
qed

text \<open>A concrete tensor library: data, host flag, contiguity, gradient flag and address.\<close>

type_synonym mem_tensor = "int list \<times> bool \<times> bool \<times> bool \<times> int"

definition mem_torch :: "(mem_tensor, int list) torch_ops" where
  "mem_torch =
     \<lparr>detach = (\<lambda>(d, h, c, g, p). (d, h, c, False, p)),
      cpu = (\<lambda>(d, h, c, g, p). if h then (d, h, c, g, p) else (d, True, c, g, p + 4096)),
      contiguous = (\<lambda>(d, h, c, g, p). if c then (d, h, c, g, p) else (d, h, True, g, p + 4096)),
      clone = (\<lambda>(d, h, c, g, p). (d, h, c, g, p + 4096)),
      data_ptr = (\<lambda>(d, h, c, g, p). p), t_data = (\<lambda>(d, h, c, g, p). d),
      on_host = (\<lambda>(d, h, c, g, p). h), is_contiguous = (\<lambda>(d, h, c, g, p). c),
      requires_grad = (\<lambda>(d, h, c, g, p). g)\<rparr>"

lemma mem_torch_laws: "torch_laws mem_torch"
  by (simp add: torch_laws_def mem_torch_def split: prod.splits)

definition live_tensor :: mem_tensor where
  "live_tensor = ([1, 2, 3], True, True, True, 64)"

lemma create_example:
  "create mem_torch (PStr ''r'') (PBoundary ENCODE_TO_DIT) None (Some [(PStr ''latents'', PTensor live_tensor)])
      None (Some []) True True
   = Inr \<lparr>request_id = PStr ''r'', boundary = PBoundary ENCODE_TO_DIT, scalar_fields = PMap DICT_CLS [],
        tensor_fields = PMap DICT_CLS [(PStr ''latents'', PTensor ([1, 2, 3], True, True, False, 4160))],
        private_scalar_fields = PMap DICT_CLS [], private_tensor_fields = PMap DICT_CLS [],
        payload_version = PInt 1\<rparr>"
  by (simp add: create_def validate_def check_dict_def is_tensor_def TENSOR_CLS_def builtin_class_def
      is_str_def is_boundary_def version_ok_def STAGE_PAYLOAD_SCHEMA_VERSION_def sanitize_value_def
      sanitize_transport_tensor_def mem_torch_def live_tensor_def)

theorem created_payload_is_safe_witness:
  "\<exists>p. create mem_torch (PStr ''r'') (PBoundary ENCODE_TO_DIT) None
         (Some [(PStr ''latents'', PTensor live_tensor)]) None (Some []) True True = Inr p \<and>
       validate p = None \<and> request_id p = PStr ''r'' \<and> boundary p = PBoundary ENCODE_TO_DIT \<and>
       exported mem_torch [(PStr ''latents'', PTensor live_tensor)] (tensor_fields p) \<and>
       exported mem_torch [] (private_tensor_fields p)"
  by (rule exI, rule conjI, rule create_example,
      rule created_payload_is_safe [OF mem_torch_laws _ _ create_example]) simp_all

definition canonical :: "'t StagePayload \<Rightarrow> bool" where
  "canonical p \<longleftrightarrow> is_boundary (boundary p) \<and>
     (\<exists>a b c d. scalar_fields p = PMap DICT_CLS a \<and> tensor_fields p = PMap DICT_CLS b \<and>
        private_scalar_fields p = PMap DICT_CLS c \<and> private_tensor_fields p = PMap DICT_CLS d)"

lemma dict_or_empty_PMap: "dict_or_empty conv (Some (PMap DICT_CLS kvs)) = Inr (PMap DICT_CLS kvs)"
  by (auto simp: dict_or_empty_def)

lemma dict_copy_PMap: "dict_copy conv (PMap c kvs) = Inr (PMap DICT_CLS kvs)"
  by (simp add: dict_copy_def)

lemma StageBoundary_of_value: "StageBoundary_of (PStr (boundary_value b)) = Inr b"
  by (cases b) (simp_all add: StageBoundary_of_def boundary_value_def)

lemma from_dict_to_dict:
  assumes "canonical p"
  shows "rbind (to_dict conv p) (from_dict conv') = Inr p"
proof -
  obtain b where b: "boundary p = PBoundary b"
    using assms by (auto simp: canonical_def is_boundary_def split: pyval.splits)
  then show ?thesis
    using assms
    by (cases p) (auto simp: canonical_def to_dict_def from_dict_def dict_copy_PMap
        dict_or_empty_PMap item_def Let_def StageBoundary_of_value)
qed

text \<open>
  Flattening an envelope to the plain dict that crosses processes and rehydrating it gives the
  envelope back, whatever the \<^verbatim>\<open>dict\<close> constructor does on non-dicts: the boundary
  survives as its string value and every field and the version are kept.
\<close>

theorem payload_dict_roundtrip:
  assumes "canonical p"
  shows "\<exists>d. to_dict conv p = Inr d \<and> from_dict conv' d = Inr p"
  using from_dict_to_dict [OF assms, of conv conv'] by (auto simp: rbind_Inr_iff)

definition sample_payload :: "int StagePayload" where
  "sample_payload = \<lparr>request_id = PStr ''r'', boundary = PBoundary DIT_TO_DECODE,
     scalar_fields = PMap DICT_CLS [(PStr ''n'', PInt 3)], tensor_fields = PMap DICT_CLS [],
     private_scalar_fields = PMap DICT_CLS [], private_tensor_fields = PMap DICT_CLS [(PStr ''x'', PTensor 7)],
     payload_version = PInt 1\<rparr>"

theorem payload_dict_roundtrip_witness:
  "\<exists>d. to_dict (\<lambda>_. Inl (Raised TypeError)) sample_payload = Inr d \<and>
       from_dict (\<lambda>_. Inl (Raised ValueError)) d = Inr sample_payload"
  by (rule payload_dict_roundtrip) (simp add: canonical_def sample_payload_def is_boundary_def)

definition future_payload :: "'t StagePayload" where
  "future_payload = \<lparr>request_id = PStr ''r'', boundary = PBoundary DIT_TO_DECODE,
     scalar_fields = PMap DICT_CLS [], tensor_fields = PMap DICT_CLS [],
     private_scalar_fields = PMap DICT_CLS [], private_tensor_fields = PMap DICT_CLS [],
     payload_version = PInt 2\<rparr>"

text \<open>
  \<^verbatim>\<open>StagePayload.sanitize\<close> does not copy the payload's version: it rebuilds the envelope with the
  current one, so an envelope of an unsupported version, which validation refuses, comes
  out of \<^verbatim>\<open>sanitize\<close> as an envelope that validation accepts.
\<close>

theorem sanitize_relabels_version:
  "validate (future_payload :: 't StagePayload) = Some (Bad_Version (PInt 2)) \<and>
   sanitize T (future_payload :: 't StagePayload) = Inr (future_payload\<lparr>payload_version := PInt 1\<rparr>) \<and>
   validate (future_payload\<lparr>payload_version := PInt 1\<rparr> :: 't StagePayload) = None"
  by (simp add: future_payload_def validate_def sanitize_def create_def map_items_def version_ok_def
      STAGE_PAYLOAD_SCHEMA_VERSION_def is_str_def builtin_class_def is_boundary_def check_dict_def)

end
