(* ===== verification/Lru_Cache.thy ===== *)
theory Lru_Cache
  imports Omni_Prelude
begin

text \<open>
  Bounded least-recently-used maps.  The code builds three of them from \<^verbatim>\<open>OrderedDict\<close>: the prompt
  embedding cache (\<^verbatim>\<open>vllm_omni/diffusion/cache/prompt_embed_cache.py\<close>), the session states of
  the DreamZero pipeline (\<^verbatim>\<open>_get_or_create_state\<close>) and the session KV states of the AR-Diffusion
  runner.  This theory holds the dictionary operations they use, the locale \<open>lru_map\<close>
  that states the contract they share with the lemmas about it, and the prompt
  embedding cache, which interprets it.
\<close>

section \<open>OrderedDict\<close>

definition move_to_end :: "'k \<Rightarrow> ('k, 'v) dict \<Rightarrow> ('k, 'v) dict" where
  "move_to_end k d = (case dict_get d k of None \<Rightarrow> d | Some v \<Rightarrow> dict_del k d @ [(k, v)])"

text \<open>\<^verbatim>\<open>while len(d) > n: d.popitem(last=False)\<close>, returning also what was popped, oldest first.\<close>

fun evict :: "nat \<Rightarrow> ('k, 'v) dict \<Rightarrow> ('k, 'v) dict" where
  "evict n [] = []"
| "evict n (x # d) = (if length (x # d) > n then evict n d else x # d)"

fun evicted :: "nat \<Rightarrow> ('k, 'v) dict \<Rightarrow> ('k, 'v) dict" where
  "evicted n [] = []"
| "evicted n (x # d) = (if length (x # d) > n then x # evicted n d else [])"

definition lastn :: "nat \<Rightarrow> 'a list \<Rightarrow> 'a list" where
  "lastn n xs = drop (length xs - n) xs"

lemma evict_lastn: "evict n d = lastn n d"
proof (induction d)
  case (Cons x d)
  then show ?case by (cases "length d < n") (auto simp: lastn_def Suc_diff_le not_less)
qed (simp add: lastn_def)

lemma evicted_evict: "evicted n d @ evict n d = d"
  by (induction d) auto

lemma map_lastn: "map f (lastn n xs) = lastn n (map f xs)"
  by (simp add: lastn_def drop_map)

lemma lastn_id: "length xs \<le> n \<Longrightarrow> lastn n xs = xs"
  by (simp add: lastn_def)

lemma length_lastn: "length (lastn n xs) = min n (length xs)"
  by (simp add: lastn_def)

lemma distinct_lastn: "distinct xs \<Longrightarrow> distinct (lastn n xs)"
  by (simp add: lastn_def)

lemma set_lastn: "set (lastn n xs) \<subseteq> set xs"
  by (simp add: lastn_def set_drop_subset)

lemma last_in_lastn: "0 < n \<Longrightarrow> x \<in> set (lastn n (xs @ [x]))"
  by (simp add: lastn_def)

lemma map_of_lastn:
  assumes "distinct (map fst d)"
  shows "map_of (lastn n d) k = (if k \<in> set (lastn n (map fst d)) then map_of d k else None)"
proof -
  have sub: "set (lastn n d) \<subseteq> set d" by (rule set_lastn)
  have dn: "distinct (map fst (lastn n d))" using assms by (simp add: map_lastn distinct_lastn)
  show ?thesis
  proof (cases "map_of (lastn n d) k")
    case None
    then show ?thesis by (simp add: map_of_eq_None_iff map_lastn [symmetric])
  next
    case (Some v)
    then have "(k, v) \<in> set (lastn n d)" by (rule map_of_SomeD)
    with sub assms have "map_of d k = Some v" by auto
    moreover have "k \<in> set (lastn n (map fst d))"
      using Some dict_get_Some_key [of "lastn n d" k] by (simp add: map_lastn)
    ultimately show ?thesis using Some by simp
  qed
qed

lemma move_to_end_keys:
  "k \<in> set (dict_keys d) \<Longrightarrow> dict_keys (move_to_end k d) = removeAll k (dict_keys d) @ [k]"
  by (cases "dict_get d k") (auto simp: move_to_end_def dict_keys_del map_of_eq_None_iff)

lemma move_to_end_absent: "k \<notin> set (dict_keys d) \<Longrightarrow> move_to_end k d = d"
  by (simp add: move_to_end_def map_of_eq_None_iff [THEN iffD2])

lemma move_to_end_ok: "dict_ok d \<Longrightarrow> dict_ok (move_to_end k d)"
proof (cases "k \<in> set (dict_keys d)")
  case True
  assume "dict_ok d"
  with move_to_end_keys [OF True] show ?thesis by (simp add: distinct_removeAll)
qed (simp add: move_to_end_absent)

lemma move_to_end_get: "dict_get (move_to_end k d) j = dict_get d j"
  by (auto simp: move_to_end_def map_add_def dict_get_del split: option.splits)

lemma move_to_end_length:
  assumes "dict_ok d"
  shows "length (move_to_end k d) = length d"
proof (cases "k \<in> set (dict_keys d)")
  case True
  have "Suc (length (removeAll k (dict_keys d))) = length (dict_keys d)"
    by (rule length_removeAll_distinct [OF assms True])
  with move_to_end_keys [OF True] show ?thesis
    by (metis length_append_singleton length_map)
qed (simp add: move_to_end_absent)

section \<open>The contract of a bounded LRU map\<close>

text \<open>
  \<open>recency s\<close> lists the keys, least recently used first.  \<open>touch\<close> is a hit, \<open>insert\<close> stores a
  value and evicts down to \<open>cap\<close> entries.
\<close>

locale lru_map =
  fixes inv :: "'s \<Rightarrow> bool"
    and recency :: "'s \<Rightarrow> 'k list"
    and lookup :: "'s \<Rightarrow> 'k \<Rightarrow> 'v option"
    and touch :: "'k \<Rightarrow> 's \<Rightarrow> 's"
    and put :: "'k \<Rightarrow> 'v \<Rightarrow> 's \<Rightarrow> 's"
    and cap :: "'s \<Rightarrow> nat"
  assumes cap_pos: "inv s \<Longrightarrow> 0 < cap s"
    and recency_ok: "inv s \<Longrightarrow> distinct (recency s) \<and> length (recency s) \<le> cap s"
    and lookup_dom: "inv s \<Longrightarrow> lookup s k = None \<longleftrightarrow> k \<notin> set (recency s)"
    and touch_inv: "inv s \<Longrightarrow> inv (touch k s) \<and> cap (touch k s) = cap s"
    and touch_lookup: "inv s \<Longrightarrow> lookup (touch k s) j = lookup s j"
    and touch_recency: "inv s \<Longrightarrow> k \<in> set (recency s) \<Longrightarrow>
          recency (touch k s) = removeAll k (recency s) @ [k]"
    and put_inv: "inv s \<Longrightarrow> k \<notin> set (recency s) \<Longrightarrow> inv (put k v s) \<and> cap (put k v s) = cap s"
    and put_recency: "inv s \<Longrightarrow> k \<notin> set (recency s) \<Longrightarrow>
          recency (put k v s) = lastn (cap s) (recency s @ [k])"
    and put_lookup: "inv s \<Longrightarrow> k \<notin> set (recency s) \<Longrightarrow> j \<in> set (recency (put k v s)) \<Longrightarrow>
          lookup (put k v s) j = (if j = k then Some v else lookup s j)"
begin

text \<open>One access: a hit refreshes the entry, a miss inserts the value made for the key.\<close>

definition use_key :: "('k \<Rightarrow> 'v) \<Rightarrow> 'k \<Rightarrow> 's \<Rightarrow> 's" where
  "use_key make k s = (if lookup s k \<noteq> None then touch k s else put k (make k) s)"

lemma put_found: "inv s \<Longrightarrow> k \<notin> set (recency s) \<Longrightarrow> lookup (put k v s) k = Some v"
  using put_lookup [of s k k v] put_recency [of s k v] cap_pos [of s]
  by (simp add: last_in_lastn)

lemma use_inv: "inv s \<Longrightarrow> inv (use_key make k s) \<and> cap (use_key make k s) = cap s"
  using lookup_dom [of s k] by (auto simp: use_key_def touch_inv put_inv)

lemma use_recency:
  assumes "inv s"
  shows "recency (use_key make k s) = lastn (cap s) (removeAll k (recency s) @ [k])"
proof (cases "k \<in> set (recency s)")
  case True
  have d: "distinct (recency s)" "length (recency s) \<le> cap s" using recency_ok [OF assms] by auto
  with length_removeAll_distinct [OF d(1) True]
  have "length (removeAll k (recency s) @ [k]) \<le> cap s" by simp
  then have "lastn (cap s) (removeAll k (recency s) @ [k]) = removeAll k (recency s) @ [k]"
    by (rule lastn_id)
  moreover have "use_key make k s = touch k s"
    using lookup_dom [OF assms] True by (simp add: use_key_def)
  ultimately show ?thesis using touch_recency [OF assms True] by simp
next
  case False
  with assms lookup_dom [OF assms, of k] show ?thesis by (simp add: use_key_def put_recency)
qed

lemma use_found: "inv s \<Longrightarrow> lookup (use_key make k s) k \<noteq> None"
  using use_inv [of s make k] lookup_dom [of "use_key make k s" k]
  by (simp add: use_recency last_in_lastn cap_pos del: not_None_eq)

lemma use_bounded: "inv s \<Longrightarrow> length (recency (use_key make k s)) \<le> cap s"
  using use_inv recency_ok by metis

text \<open>Later accesses evict a key only after \<open>cap\<close> distinct other keys were used.\<close>

definition younger_in :: "'k \<Rightarrow> 'k set \<Rightarrow> 's \<Rightarrow> bool" where
  "younger_in k A s \<longleftrightarrow> (\<exists>older newer. recency s = older @ k # newer \<and> set newer \<subseteq> A)"

lemma younger_in_self:
  assumes "inv s"
  shows "younger_in k A (use_key make k s)"
proof -
  obtain xs where "lastn (cap s) (removeAll k (recency s) @ [k]) = xs @ [k]"
    using cap_pos [OF assms] by (auto simp: lastn_def)
  with use_recency [OF assms, of make k] have "recency (use_key make k s) = xs @ k # []" by simp
  then show ?thesis unfolding younger_in_def by (metis empty_subsetI list.set(1))
qed

lemma younger_in_step:
  assumes s: "inv s" and y: "younger_in k A s"
      and A: "j \<in> A \<or> j = k" "finite A" "k \<notin> A" "card A < cap s"
  shows "younger_in k A (use_key make j s)"
proof (cases "j = k")
  case True
  with younger_in_self [OF s] show ?thesis by simp
next
  case False
  from y obtain older newer where r: "recency s = older @ k # newer" "set newer \<subseteq> A"
    by (auto simp: younger_in_def)
  let ?newer = "removeAll j newer @ [j]" and ?older = "removeAll j older"
  have sub: "set ?newer \<subseteq> A" using r(2) A(1) False by auto
  have "distinct (recency s)" using recency_ok [OF s] by simp
  with r have "distinct ?newer" by (simp add: distinct_removeAll)
  then have "length ?newer \<le> card A"
    by (metis sub A(2) card_mono distinct_card)
  with A(4) have len: "Suc (length ?newer) \<le> cap s" by linarith
  have "recency (use_key make j s) = lastn (cap s) (?older @ k # ?newer)"
    using use_recency [OF s, of make j] r False by simp
  also have "\<dots> = drop (length ?older + Suc (length ?newer) - cap s) ?older @ k # ?newer"
    using len by (simp add: lastn_def)
  finally show ?thesis using sub unfolding younger_in_def by blast
qed

lemma recent_kept:
  assumes "inv s" and "card (set ks - {k}) < cap s"
  shows "lookup (foldl (\<lambda>s j. use_key make j s) (use_key make k s) ks) k \<noteq> None"
proof -
  let ?A = "set ks - {k}"
  have "set js \<subseteq> ?A \<union> {k} \<Longrightarrow> inv t \<Longrightarrow> cap t = cap s \<Longrightarrow> younger_in k ?A t \<Longrightarrow>
      inv (foldl (\<lambda>s j. use_key make j s) t js) \<and>
      younger_in k ?A (foldl (\<lambda>s j. use_key make j s) t js)" for js t
  proof (induction js arbitrary: t)
    case (Cons j js)
    have "younger_in k ?A (use_key make j t)"
      using Cons.prems assms(2) by (intro younger_in_step) auto
    with Cons use_inv [of t make j] show ?case by simp
  qed simp
  from this [of ks "use_key make k s"] use_inv [OF assms(1), of make k] younger_in_self [OF assms(1)]
  have "inv (foldl (\<lambda>s j. use_key make j s) (use_key make k s) ks)"
    "younger_in k ?A (foldl (\<lambda>s j. use_key make j s) (use_key make k s) ks)" by auto
  then show ?thesis by (auto simp: younger_in_def lookup_dom)
qed

text \<open>Memoisation: as long as every entry is the function's value, a lookup can replace a call.\<close>

definition faithful :: "('k \<Rightarrow> 'v) \<Rightarrow> 's \<Rightarrow> bool" where
  "faithful f s \<longleftrightarrow> (\<forall>k v. lookup s k = Some v \<longrightarrow> v = f k)"

lemma faithful_touch: "inv s \<Longrightarrow> faithful f s \<Longrightarrow> faithful f (touch k s)"
  by (simp add: faithful_def touch_lookup)

lemma faithful_put:
  assumes "inv s" "k \<notin> set (recency s)" "faithful f s" "v = f k"
  shows "faithful f (put k v s)"
  unfolding faithful_def
proof (intro allI impI)
  fix j w assume l: "lookup (put k v s) j = Some w"
  then have "j \<in> set (recency (put k v s))"
    using put_inv [OF assms(1,2)] lookup_dom by (metis option.distinct(1))
  from put_lookup [OF assms(1,2) this] l assms show "w = f j"
    by (auto simp: faithful_def split: if_splits)
qed

end

section \<open>Sessions that are modified in place\<close>

text \<open>A session table also changes the value of a present entry without moving it.\<close>

locale lru_sessions = lru_map inv recency lookup touch put cap
  for inv :: "'s \<Rightarrow> bool" and recency :: "'s \<Rightarrow> 'k list" and lookup :: "'s \<Rightarrow> 'k \<Rightarrow> 'v option"
    and touch :: "'k \<Rightarrow> 's \<Rightarrow> 's" and put :: "'k \<Rightarrow> 'v \<Rightarrow> 's \<Rightarrow> 's" and cap :: "'s \<Rightarrow> nat" +
  fixes change :: "'k \<Rightarrow> ('v \<Rightarrow> 'v) \<Rightarrow> 's \<Rightarrow> 's"
    and new_session :: 'v
  assumes change_inv: "inv s \<Longrightarrow> inv (change k f s) \<and> cap (change k f s) = cap s"
    and change_recency: "inv s \<Longrightarrow> recency (change k f s) = recency s"
    and change_lookup: "inv s \<Longrightarrow>
          lookup (change k f s) j = (if j = k then map_option f (lookup s k) else lookup s j)"
begin

definition session_step :: "'k \<times> ('v \<Rightarrow> 'v) \<Rightarrow> 's \<Rightarrow> 's" where
  "session_step kf s = change (fst kf) (snd kf) (use_key (\<lambda>_. new_session) (fst kf) s)"

definition session_run :: "('k \<times> ('v \<Rightarrow> 'v)) list \<Rightarrow> 's \<Rightarrow> 's" where
  "session_run steps s = foldl (\<lambda>s kf. session_step kf s) s steps"

lemma step_inv: "inv s \<Longrightarrow> inv (session_step kf s) \<and> cap (session_step kf s) = cap s"
  using use_inv change_inv by (simp add: session_step_def)

lemma run_inv: "inv s \<Longrightarrow> inv (session_run steps s) \<and> cap (session_run steps s) = cap s"
  unfolding session_run_def
  by (induction steps arbitrary: s) (use step_inv in auto)

lemma run_bounded: "inv s \<Longrightarrow> length (recency (session_run steps s)) \<le> cap s"
  using run_inv recency_ok by metis

lemma younger_change:
  "inv s \<Longrightarrow> younger_in k A (change j f s) = younger_in k A s"
  by (simp add: younger_in_def change_recency)

lemma use_lookup_other:
  assumes s: "inv s" and k: "younger_in k A (use_key make j s)" and "j \<noteq> k"
  shows "lookup (use_key make j s) k = lookup s k"
proof (cases "lookup s j")
  case None
  then have j: "j \<notin> set (recency s)" and u: "use_key make j s = put j (make j) s"
    using lookup_dom [OF s] by (auto simp: use_key_def)
  have "k \<in> set (recency (put j (make j) s))" using k u by (auto simp: younger_in_def)
  from put_lookup [OF s j this] u assms(3) show ?thesis by simp
next
  case (Some v)
  then show ?thesis using s by (simp add: use_key_def touch_lookup)
qed

lemma session_kept:
  assumes s: "inv s" and "k \<notin> fst ` set steps" and "card (fst ` set steps) < cap s"
  shows "lookup (session_run steps (session_step (k, f) s)) k = lookup (session_step (k, f) s) k \<and>
         lookup (session_step (k, f) s) k \<noteq> None"
proof -
  let ?A = "fst ` set steps"
  have "fst ` set qs \<subseteq> ?A \<Longrightarrow> inv t \<Longrightarrow> cap t = cap s \<Longrightarrow> younger_in k ?A t \<Longrightarrow>
      lookup (session_run qs t) k = lookup t k" for qs t
  proof (induction qs arbitrary: t)
    case (Cons q qs)
    let ?u = "use_key (\<lambda>_. new_session) (fst q) t"
    have q: "fst q \<in> ?A" "fst q \<noteq> k" using Cons.prems(1) assms(2) by auto
    have u: "inv ?u" "cap ?u = cap s" using use_inv [of t] Cons.prems by auto
    have y: "younger_in k ?A ?u"
      using Cons.prems q assms by (intro younger_in_step) auto
    have "lookup (session_step q t) k = lookup t k"
      using change_lookup [OF u(1)] use_lookup_other [OF Cons.prems(2) y] q(2)
      by (simp add: session_step_def)
    moreover have "younger_in k ?A (session_step q t)"
      using y younger_change [OF u(1)] by (simp add: session_step_def)
    moreover have "inv (session_step q t)" "cap (session_step q t) = cap s"
      using step_inv [of t q] Cons.prems by auto
    ultimately show ?case using Cons.IH [of "session_step q t"] Cons.prems(1)
      by (simp add: session_run_def)
  qed (simp add: session_run_def)
  from this [of steps "session_step (k, f) s"] step_inv [OF s, of "(k, f)"]
  have "lookup (session_run steps (session_step (k, f) s)) k = lookup (session_step (k, f) s) k"
    using younger_in_self [OF s, of k ?A "\<lambda>_. new_session"] use_inv [OF s]
    by (simp add: session_step_def younger_change)
  moreover have "lookup (session_step (k, f) s) k \<noteq> None"
    using use_found [OF s, of "\<lambda>_. new_session" k] use_inv [OF s, of "\<lambda>_. new_session" k]
      change_lookup [of "use_key (\<lambda>_. new_session) k s" k f k]
    by (auto simp: session_step_def)
  ultimately show ?thesis by simp
qed

end

end
