(* ===== verification/Prompt_Cache.thy ===== *)
theory Prompt_Cache
  imports Lru_Cache "HOL-Library.Char_ord" "HOL-Library.List_Lexorder"
begin

text \<open>
  The prompt embedding cache of \<^verbatim>\<open>vllm_omni/diffusion/cache/prompt_embed_cache.py\<close>: which
  arguments may take part in a key, how the key is built from the bound arguments, the
  cache itself with its counters, and the wrapper around \<^verbatim>\<open>encode_prompt\<close>.

  Arguments are the values \<^verbatim>\<open>_hashable\<close> tells apart.  Keys compare as Python compares the tuples
  the code builds: numbers by value across \<^verbatim>\<open>bool\<close>, \<^verbatim>\<open>int\<close> and \<^verbatim>\<open>float\<close> (finite floats are rationals;
  infinities and NaNs are kept by their bits), lists and tuples alike.  The wrapped
  \<^verbatim>\<open>encode_prompt\<close>, the binding of a call to its signature, \<^verbatim>\<open>repr\<close> and \<^verbatim>\<open>detach\<close> are parameters.
  The lock makes \<^verbatim>\<open>get\<close> and \<^verbatim>\<open>put\<close> atomic, so calls are modelled one after the other.
\<close>

section \<open>Keys\<close>

datatype arg =
    ANone | ABool bool | AInt int | AFloat rat | AFloatSpecial nat | AStr string | ABytes "nat list"
  | ADevice string | ADtype string
  | ANumpy "arg option"
  | AList "arg list" | ATuple "arg list"
  | ADict "(arg \<times> arg) list"
  | AOpaque nat

datatype hkey =
    HNone | HNum rat | HSpecial nat | HStr string | HBytes "nat list" | HTag string string
  | HSeq "hkey list" | HDict "(string \<times> hkey) list"

text \<open>\<open>ANumpy (Some a)\<close> is a numpy object whose \<^verbatim>\<open>item()\<close> gives \<open>a\<close>, \<open>ANumpy None\<close> one whose \<^verbatim>\<open>item()\<close>
  raises; tensors, images and all other objects are \<open>AOpaque\<close>.  \<open>None\<close> is \<^verbatim>\<open>_NOT_HASHABLE\<close>.\<close>

function (sequential) hashable :: "(arg \<Rightarrow> string) \<Rightarrow> arg \<Rightarrow> hkey option"
  and hashable_list :: "(arg \<Rightarrow> string) \<Rightarrow> arg list \<Rightarrow> hkey list option"
  and hashable_items :: "(arg \<Rightarrow> string) \<Rightarrow> (arg \<times> arg) list \<Rightarrow> (string \<times> hkey) list option"
where
  "hashable rep ANone = Some HNone"
| "hashable rep (AStr s) = Some (HStr s)"
| "hashable rep (AInt i) = Some (HNum (of_int i))"
| "hashable rep (AFloat q) = Some (HNum q)"
| "hashable rep (AFloatSpecial n) = Some (HSpecial n)"
| "hashable rep (ABool b) = Some (HNum (of_bool b))"
| "hashable rep (ABytes b) = Some (HBytes b)"
| "hashable rep (ADevice s) = Some (HTag ''__torch_device__'' s)"
| "hashable rep (ADtype s) = Some (HTag ''__torch_dtype__'' s)"
| "hashable rep (ANumpy None) = None"
| "hashable rep (ANumpy (Some a)) = hashable rep a"
| "hashable rep (AList xs) = map_option HSeq (hashable_list rep xs)"
| "hashable rep (ATuple xs) = map_option HSeq (hashable_list rep xs)"
| "hashable rep (ADict kvs) = map_option (\<lambda>items. HDict (sort_key fst items)) (hashable_items rep kvs)"
| "hashable rep (AOpaque n) = None"
| "hashable_list rep [] = Some []"
| "hashable_list rep (x # xs) =
     (case hashable rep x of None \<Rightarrow> None
      | Some h \<Rightarrow> map_option (\<lambda>hs. h # hs) (hashable_list rep xs))"
| "hashable_items rep [] = Some []"
| "hashable_items rep ((k, v) # kvs) =
     (case hashable rep v of None \<Rightarrow> None
      | Some h \<Rightarrow> map_option (\<lambda>hs. (rep k, h) # hs) (hashable_items rep kvs))"
  by pat_completeness auto
termination by size_change

definition PRECOMPUTED_EMBED_ARGS :: "string list" where
  "PRECOMPUTED_EMBED_ARGS =
     [''prompt_embeds'', ''negative_prompt_embeds'', ''pooled_prompt_embeds'',
      ''negative_pooled_prompt_embeds'', ''prompt_embeds_mask'', ''negative_prompt_embeds_mask'']"

fun hash_bound :: "(arg \<Rightarrow> string) \<Rightarrow> (string \<times> arg) list \<Rightarrow> (string \<times> hkey) list option" where
  "hash_bound rep [] = Some []"
| "hash_bound rep ((name, a) # rest) =
     (case hashable rep a of None \<Rightarrow> None
      | Some h \<Rightarrow> map_option (\<lambda>hs. (name, h) # hs) (hash_bound rep rest))"

type_synonym cache_key = "string \<times> (string \<times> hkey) list"

text \<open>\<open>bound\<close> is what \<^verbatim>\<open>bind_partial\<close> and \<^verbatim>\<open>apply_defaults\<close> give (\<open>None\<close>: a \<^verbatim>\<open>TypeError\<close>).\<close>

definition build_key :: "(arg \<Rightarrow> string) \<Rightarrow> string \<Rightarrow> (string, arg) dict option \<Rightarrow> cache_key option" where
  "build_key rep model_tag bound =
     (case bound of None \<Rightarrow> None
      | Some arguments \<Rightarrow>
          if \<exists>name \<in> set PRECOMPUTED_EMBED_ARGS. dict_get arguments name \<notin> {None, Some ANone}
          then None
          else map_option (\<lambda>items. (model_tag, items)) (hash_bound rep (sort_key fst arguments)))"

section \<open>The cache\<close>

record ('k, 'v) PromptEmbedCache =
  max_size :: nat
  enabled :: bool
  store :: "('k, 'v) dict"
  hits :: nat
  misses :: nat
  bypassed :: nat

definition make_cache :: "int \<Rightarrow> bool \<Rightarrow> py_exc + ('k, 'v) PromptEmbedCache" where
  "make_cache n on =
     (if n \<le> 0 then Inl ValueError
      else Inr \<lparr>max_size = nat n, enabled = on, store = [], hits = 0, misses = 0, bypassed = 0\<rparr>)"

definition cache_get :: "'k \<Rightarrow> ('k, 'v) PromptEmbedCache \<Rightarrow> 'v option \<times> ('k, 'v) PromptEmbedCache" where
  "cache_get key c =
     (case dict_get (store c) key of
        None \<Rightarrow> (None, c\<lparr>misses := misses c + 1\<rparr>)
      | Some v \<Rightarrow> (Some v, c\<lparr>store := move_to_end key (store c), hits := hits c + 1\<rparr>))"

definition cache_put :: "'k \<Rightarrow> 'v \<Rightarrow> ('k, 'v) PromptEmbedCache \<Rightarrow> ('k, 'v) PromptEmbedCache" where
  "cache_put key v c =
     c\<lparr>store := evict (max_size c) (move_to_end key (dict_set key v (store c)))\<rparr>"

definition cache_clear :: "('k, 'v) PromptEmbedCache \<Rightarrow> ('k, 'v) PromptEmbedCache" where
  "cache_clear c = c\<lparr>store := []\<rparr>"

definition cache_stats :: "('k, 'v) PromptEmbedCache \<Rightarrow> (string \<times> nat) list" where
  "cache_stats c = [(''size'', length (store c)), (''max_size'', max_size c), (''hits'', hits c),
     (''misses'', misses c), (''bypassed'', bypassed c)]"

section \<open>The wrapper\<close>

text \<open>\<open>key\<close> is \<open>build_key\<close> on the call's bound arguments.\<close>

definition cached_encode_prompt ::
  "('c \<Rightarrow> 'k option) \<Rightarrow> ('c \<Rightarrow> 'v) \<Rightarrow> ('v \<Rightarrow> 'v) \<Rightarrow> 'c \<Rightarrow> ('k, 'v) PromptEmbedCache \<Rightarrow>
   'v \<times> ('k, 'v) PromptEmbedCache" where
  "cached_encode_prompt key encode_fn detach_output call c =
     (if \<not> enabled c then (encode_fn call, c)
      else case key call of
        None \<Rightarrow> (encode_fn call, c\<lparr>bypassed := bypassed c + 1\<rparr>)
      | Some k \<Rightarrow>
          (case cache_get k c of
             (Some v, c') \<Rightarrow> (v, c')
           | (None, c') \<Rightarrow> (let out = encode_fn call in (out, cache_put k (detach_output out) c'))))"

fun serve_calls ::
  "('c \<Rightarrow> 'k option) \<Rightarrow> ('c \<Rightarrow> 'v) \<Rightarrow> ('v \<Rightarrow> 'v) \<Rightarrow> 'c list \<Rightarrow> ('k, 'v) PromptEmbedCache \<Rightarrow>
   'v list \<times> ('k, 'v) PromptEmbedCache" where
  "serve_calls key enc det [] c = ([], c)"
| "serve_calls key enc det (x # xs) c =
     (case cached_encode_prompt key enc det x c of (v, c1) \<Rightarrow>
        case serve_calls key enc det xs c1 of (vs, c2) \<Rightarrow> (v # vs, c2))"

section \<open>The cache is a bounded LRU map\<close>

definition cache_touch :: "'k \<Rightarrow> ('k, 'v) PromptEmbedCache \<Rightarrow> ('k, 'v) PromptEmbedCache" where
  "cache_touch k c = snd (cache_get k c)"

definition cache_inv :: "('k, 'v) PromptEmbedCache \<Rightarrow> bool" where
  "cache_inv c \<longleftrightarrow> 0 < max_size c \<and> dict_ok (store c) \<and> length (store c) \<le> max_size c"

lemma keys_set_move:
  "dict_keys (move_to_end k (dict_set k v d)) = removeAll k (dict_keys d) @ [k]"
  by (subst move_to_end_keys) (auto simp: dict_keys_set dict_keyset_set)

lemma cache_put_keys:
  "dict_keys (store (cache_put k v c)) = lastn (max_size c) (removeAll k (dict_keys (store c)) @ [k])"
  by (simp add: cache_put_def evict_lastn map_lastn keys_set_move)

lemma move_set_ok: "dict_ok d \<Longrightarrow> dict_ok (move_to_end k (dict_set k v d))"
  by (simp add: keys_set_move distinct_removeAll)

lemma cache_put_lookup:
  assumes "dict_ok (store c)" "j \<in> set (dict_keys (store (cache_put k v c)))"
  shows "dict_get (store (cache_put k v c)) j = (if j = k then Some v else dict_get (store c) j)"
  using assms(2) map_of_lastn [OF move_set_ok [OF assms(1)], of "max_size c" k v j]
  by (simp add: cache_put_def evict_lastn move_to_end_get dict_get_set map_lastn)

interpretation prompt_lru:
  lru_map cache_inv "\<lambda>c. dict_keys (store c)" "\<lambda>c. dict_get (store c)" cache_touch
    cache_put max_size
proof
  fix s :: "('a, 'b) PromptEmbedCache" and k j :: 'a and v :: 'b
  assume s: "cache_inv s"
  show "0 < max_size s" "distinct (dict_keys (store s)) \<and> length (dict_keys (store s)) \<le> max_size s"
    "(dict_get (store s) k = None) = (k \<notin> set (dict_keys (store s)))"
    using s by (auto simp: cache_inv_def map_of_eq_None_iff)
  show "cache_inv (cache_touch k s) \<and> max_size (cache_touch k s) = max_size s"
    using s by (auto simp: cache_touch_def cache_get_def cache_inv_def move_to_end_ok move_to_end_length split: option.splits)
  show "dict_get (store (cache_touch k s)) j = dict_get (store s) j"
    by (simp add: cache_touch_def cache_get_def move_to_end_get split: option.splits)
  show "k \<notin> set (dict_keys (store s)) \<Longrightarrow> cache_inv (cache_put k v s) \<and> max_size (cache_put k v s) = max_size s"
    using s cache_put_keys [of k v s]
    by (auto simp: cache_inv_def distinct_lastn distinct_removeAll length_lastn
        simp flip: length_map [of fst "store (cache_put k v s)"]) (simp add: cache_put_def)+
  show "k \<notin> set (dict_keys (store s)) \<Longrightarrow>
      dict_keys (store (cache_put k v s)) = lastn (max_size s) (dict_keys (store s) @ [k])"
    using cache_put_keys [of k v s] by simp
  show "k \<in> set (dict_keys (store s)) \<Longrightarrow>
      dict_keys (store (cache_touch k s)) = removeAll k (dict_keys (store s)) @ [k]"
    using move_to_end_keys [of k "store s"]
    by (auto simp: cache_touch_def cache_get_def dict_get_None_iff split: option.splits)
  show "k \<notin> set (dict_keys (store s)) \<Longrightarrow> j \<in> set (dict_keys (store (cache_put k v s))) \<Longrightarrow>
      dict_get (store (cache_put k v s)) j = (if j = k then Some v else dict_get (store s) j)"
    using s by (intro cache_put_lookup) (simp_all add: cache_inv_def)
qed

lemma cached_hit:
  "enabled c \<Longrightarrow> key call = Some k \<Longrightarrow> dict_get (store c) k = Some v \<Longrightarrow>
     cached_encode_prompt key enc det call c =
       (v, c\<lparr>store := move_to_end k (store c), hits := hits c + 1\<rparr>)"
  by (simp add: cached_encode_prompt_def cache_get_def)

lemma cached_miss:
  "enabled c \<Longrightarrow> key call = Some k \<Longrightarrow> dict_get (store c) k = None \<Longrightarrow>
     cached_encode_prompt key enc det call c =
       (enc call, cache_put k (det (enc call)) (c\<lparr>misses := misses c + 1\<rparr>))"
  by (simp add: cached_encode_prompt_def cache_get_def Let_def)

lemma cached_bypass:
  "enabled c \<Longrightarrow> key call = None \<Longrightarrow>
     cached_encode_prompt key enc det call c = (enc call, c\<lparr>bypassed := bypassed c + 1\<rparr>)"
  by (simp add: cached_encode_prompt_def)

lemma counters_irrelevant [simp]:
  "cache_inv (c\<lparr>misses := n\<rparr>) = cache_inv c" "cache_inv (c\<lparr>bypassed := n\<rparr>) = cache_inv c"
  "cache_inv (c\<lparr>hits := n\<rparr>) = cache_inv c"
  "prompt_lru.faithful f (c\<lparr>misses := n\<rparr>) = prompt_lru.faithful f c"
  "prompt_lru.faithful f (c\<lparr>bypassed := n\<rparr>) = prompt_lru.faithful f c"
  by (simp_all add: cache_inv_def prompt_lru.faithful_def)

definition good_cache :: "('k \<Rightarrow> 'v) \<Rightarrow> ('k, 'v) PromptEmbedCache \<Rightarrow> bool" where
  "good_cache f c \<longleftrightarrow> cache_inv c \<and> enabled c \<and> prompt_lru.faithful f c"

definition calls_counted :: "('k, 'v) PromptEmbedCache \<Rightarrow> nat" where
  "calls_counted c = hits c + misses c + bypassed c"

lemma put_fields [simp]:
  "enabled (cache_put k v c) = enabled c" "hits (cache_put k v c) = hits c"
  "misses (cache_put k v c) = misses c" "bypassed (cache_put k v c) = bypassed c"
  "max_size (cache_put k v c) = max_size c"
  by (simp_all add: cache_put_def)

lemma cached_step:
  assumes g: "good_cache f c" and f: "\<And>k. key call = Some k \<Longrightarrow> det (enc call) = f k"
      and r: "cached_encode_prompt key enc det call c = (v, c')"
  shows "good_cache f c' \<and> max_size c' = max_size c \<and> calls_counted c' = Suc (calls_counted c) \<and>
         (v = enc call \<or> v = det (enc call))"
proof (cases "key call")
  case None
  with g r show ?thesis by (auto simp: good_cache_def cached_bypass calls_counted_def)
next
  case (Some k)
  show ?thesis
  proof (cases "dict_get (store c) k")
    case None
    let ?c = "c\<lparr>misses := misses c + 1\<rparr>"
    have i: "cache_inv ?c" "prompt_lru.faithful f ?c" using g by (auto simp: good_cache_def)
    have "v = enc call" "c' = cache_put k (det (enc call)) ?c"
      using r g cached_miss [of c key call k enc det, OF _ Some None] by (auto simp: good_cache_def)
    moreover have fresh: "k \<notin> set (dict_keys (store ?c))" using None by (simp add: map_of_eq_None_iff)
    ultimately show ?thesis
      using g prompt_lru.put_inv [OF i(1) fresh, of "det (enc call)"]
        prompt_lru.faithful_put [OF i(1) fresh i(2), of "det (enc call)"] f [OF Some]
      by (simp add: good_cache_def calls_counted_def)
  next
    case hit: (Some w)
    have "v = w" and c': "c' = cache_touch k c"
      using r g cached_hit [of c key call k, OF _ Some hit, of enc det]
      by (auto simp: good_cache_def cache_touch_def cache_get_def hit)
    moreover have "w = det (enc call)"
      using g hit f [OF Some] by (simp add: good_cache_def prompt_lru.faithful_def)
    moreover have "enabled c' = enabled c" "calls_counted c' = Suc (calls_counted c)"
      by (simp_all add: c' cache_touch_def cache_get_def hit calls_counted_def)
    ultimately show ?thesis
      using g prompt_lru.touch_inv [of c k] prompt_lru.faithful_touch [of c f k]
      by (auto simp: good_cache_def)
  qed
qed

lemma serve_calls_good:
  assumes "good_cache f c" and "\<And>call k. key call = Some k \<Longrightarrow> det (enc call) = f k"
  shows "good_cache f (snd (serve_calls key enc det calls c)) \<and>
     max_size (snd (serve_calls key enc det calls c)) = max_size c \<and>
     calls_counted (snd (serve_calls key enc det calls c)) = calls_counted c + length calls \<and>
     list_all2 (\<lambda>call v. v = enc call \<or> v = det (enc call)) calls (fst (serve_calls key enc det calls c))"
  using assms(1)
proof (induction calls arbitrary: c)
  case (Cons call calls)
  obtain v c1 where 1: "cached_encode_prompt key enc det call c = (v, c1)" by fastforce
  from cached_step [OF Cons.prems assms(2) 1] Cons.IH [of c1] 1 show ?case
    by (auto split: prod.splits)
qed simp

text \<open>Recency is unaffected by the counters, so a run of keyed calls is a run of accesses.\<close>

definition same_store :: "('k, 'v) PromptEmbedCache \<Rightarrow> ('k, 'v) PromptEmbedCache \<Rightarrow> bool" where
  "same_store c d \<longleftrightarrow> store c = store d \<and> max_size c = max_size d \<and> enabled c = enabled d"

lemma cached_use:
  assumes "same_store c d" "enabled c" "key call = Some k" "det (enc call) = f k"
  shows "same_store (snd (cached_encode_prompt key enc det call c)) (prompt_lru.use_key f k d)"
proof (cases "dict_get (store d) k")
  case None
  with assms have "dict_get (store c) k = None" by (simp add: same_store_def)
  with None assms cached_miss [of c key call k enc det] show ?thesis
    by (simp add: same_store_def prompt_lru.use_key_def cache_put_def)
next
  case (Some v)
  with assms have "dict_get (store c) k = Some v" by (simp add: same_store_def)
  with Some assms cached_hit [of c key call k v enc det] show ?thesis
    by (simp add: same_store_def prompt_lru.use_key_def cache_touch_def cache_get_def)
qed

lemma enabled_use [simp]: "enabled (prompt_lru.use_key f k c) = enabled c"
  by (auto simp: prompt_lru.use_key_def cache_touch_def cache_get_def split: option.splits)

lemma enabled_uses [simp]: "enabled (foldl (\<lambda>s j. prompt_lru.use_key f j s) c ks) = enabled c"
  by (induction ks arbitrary: c) simp_all

lemma serve_calls_use:
  assumes "same_store c d" "enabled c"
      and "\<And>call. call \<in> set calls \<Longrightarrow> key call = Some (k' call) \<and> det (enc call) = f (k' call)"
  shows "same_store (snd (serve_calls key enc det calls c))
           (foldl (\<lambda>s j. prompt_lru.use_key f j s) d (map k' calls))"
  using assms
proof (induction calls arbitrary: c d)
  case (Cons call calls)
  obtain v c1 where 1: "cached_encode_prompt key enc det call c = (v, c1)" by fastforce
  have s: "same_store c1 (prompt_lru.use_key f (k' call) d)"
    using cached_use [of c d key call "k' call" det enc f] Cons.prems 1 by simp
  have "enabled c1"
    using s Cons.prems by (simp add: same_store_def)
  with Cons.IH [OF s] Cons.prems 1 show ?case by (auto split: prod.splits)
qed simp

section \<open>Properties\<close>

text \<open>
  C40: the prompt embedding cache is transparent: if the key of a call determines its
  (detached) encoding, then any sequence of wrapped calls on a new cache returns to every call
  its own encoding, possibly detached; the store never exceeds the configured size, and
  every call is counted exactly once as a hit, a miss or a bypass.
\<close>

theorem prompt_cache_transparent:
  assumes "make_cache n True = Inr c"
      and "\<And>call k. key call = Some k \<Longrightarrow> det (enc call) = f k"
      and "serve_calls key enc det calls c = (vs, c')"
  shows "list_all2 (\<lambda>call v. v = enc call \<or> v = det (enc call)) calls vs \<and>
         length (store c') \<le> nat n \<and> hits c' + misses c' + bypassed c' = length calls"
proof -
  have g: "good_cache f c" and n: "max_size c = nat n" and z: "calls_counted c = 0"
    using assms(1) by (auto simp: make_cache_def good_cache_def cache_inv_def calls_counted_def
        prompt_lru.faithful_def split: if_splits)
  from serve_calls_good [OF g, of key det enc calls] assms(2,3) n z show ?thesis
    by (auto simp: good_cache_def cache_inv_def calls_counted_def)
qed

theorem prompt_cache_transparent_witness:
  "list_all2 (\<lambda>call v. v = call * 10 \<or> v = call * 10) [3, 4, 3, 5, 4::nat] [30, 40, 30, 50, 40] \<and>
   length [(3, 30), (5, 50), (4, 40::nat)] \<le> nat 3 \<and> (2::nat) + 3 + 0 = length [3, 4, 3, 5, 4::nat]"
  using prompt_cache_transparent [of 3
      "\<lparr>max_size = 3, enabled = True, store = [], hits = 0, misses = 0, bypassed = 0\<rparr>"
      Some "\<lambda>v. v" "\<lambda>x::nat. x * 10" "\<lambda>x. x * 10" "[3, 4, 3, 5, 4]" "[30, 40, 30, 50, 40]"
      "\<lparr>max_size = 3, enabled = True, store = [(3, 30), (5, 50), (4, 40)], hits = 2, misses = 3,
        bypassed = 0\<rparr>"]
  by (simp add: make_cache_def cached_encode_prompt_def cache_get_def cache_put_def move_to_end_def)

text \<open>
  A prompt is encoded again only after the cache had to make room: when fewer than
  \<open>max_size\<close> distinct other keys were used since a call, repeating the call is a hit.
\<close>

theorem recent_prompt_hits:
  assumes "cache_inv c" "enabled c"
      and "\<And>x. x \<in> set (call # calls) \<Longrightarrow> key x = Some (k' x) \<and> det (enc x) = f (k' x)"
      and "card (k' ` set calls - {k' call}) < max_size c"
      and "snd (serve_calls key enc det (call # calls) c) = c1"
      and "cached_encode_prompt key enc det call c1 = (v, c2)"
  shows "hits c2 = Suc (hits c1) \<and> misses c2 = misses c1"
proof -
  have s: "same_store c1 (foldl (\<lambda>s j. prompt_lru.use_key f j s) c (map k' (call # calls)))"
    using serve_calls_use [of c c "call # calls" key k' det enc f] assms by (simp add: same_store_def)
  have "dict_get (store (foldl (\<lambda>s j. prompt_lru.use_key f j s) (prompt_lru.use_key f (k' call) c)
      (map k' calls))) (k' call) \<noteq> None"
    using prompt_lru.recent_kept [OF assms(1), of "map k' calls" "k' call"] assms(4) by simp
  with s have "dict_get (store c1) (k' call) \<noteq> None" by (simp add: same_store_def)
  moreover have "enabled c1"
    using s assms(2) by (simp add: same_store_def)
  ultimately show ?thesis
    using assms(3) [of call] assms(6) cached_hit [of c1 key call "k' call"] by auto
qed

theorem recent_prompt_hits_witness:
  "hits \<lparr>max_size = 2, enabled = True, store = [(4, 40::nat), (3::nat, 30)], hits = 1, misses = 2,
          bypassed = 0\<rparr> =
     Suc (hits \<lparr>max_size = 2, enabled = True, store = [(3::nat, 30::nat), (4, 40)], hits = 0,
          misses = 2, bypassed = 0\<rparr>) \<and>
   misses \<lparr>max_size = 2, enabled = True, store = [(4, 40::nat), (3::nat, 30)], hits = 1, misses = 2,
          bypassed = 0\<rparr> =
     misses \<lparr>max_size = 2, enabled = True, store = [(3::nat, 30::nat), (4, 40)], hits = 0,
          misses = 2, bypassed = 0\<rparr>"
  by (rule recent_prompt_hits [of
      "\<lparr>max_size = 2, enabled = True, store = [], hits = 0, misses = 0, bypassed = 0\<rparr>"
      3 "[4]" Some "\<lambda>x. x" "\<lambda>v. v" "\<lambda>x. x * 10" "\<lambda>x. x * 10" _ 30])
    (auto simp: cache_inv_def cached_encode_prompt_def cache_get_def cache_put_def move_to_end_def)

end
