(* ===== verification/DreamZero_State.thy ===== *)
theory DreamZero_State
  imports Lru_Cache
begin

text \<open>
  The persistent per-session state of the DreamZero pipeline
  (\<^verbatim>\<open>models/dreamzero/state_dreamzero.py\<close>), the incremental VAE encoder stream and the session
  table of \<^verbatim>\<open>models/dreamzero/pipeline_dreamzero.py\<close>.

  \<open>'t\<close> is the type of arrays, torch or numpy.  A video tensor is the list of its frames along
  the time axis.  The neural networks are parameters: \<open>enc_chunk\<close> is one call of the Wan encoder
  on a list of frames with its feature cache, \<open>quantize\<close> the normalisation of the accumulated
  encoder output.
\<close>

section \<open>State\<close>

type_synonym 't feat_map = "'t option list"

record 't DreamZeroState =
  stitched_buffer :: "'t list"
  call_count :: nat
  video_latents_across_time :: "'t list"
  current_start_frame :: int
  st_clip_feas :: "'t option"
  st_ys :: "'t option"
  st_language :: "'t option"
  st_prompt_embeds :: "'t option"
  vae_stream_initialized :: bool
  vae_enc_feat_map :: "'t feat_map option"
  vae_encoder_out :: "'t list option"
  vae_pending_body_frames :: "'t list option"

definition FRAMES_PER_CHUNK :: nat where "FRAMES_PER_CHUNK = 4"

definition reset_vae_encoder_stream :: "'t DreamZeroState \<Rightarrow> 't DreamZeroState" where
  "reset_vae_encoder_stream s =
     s\<lparr>vae_stream_initialized := False, vae_enc_feat_map := None, vae_encoder_out := None,
       vae_pending_body_frames := None\<rparr>"

definition reset :: "bool \<Rightarrow> 't DreamZeroState \<Rightarrow> 't DreamZeroState" where
  "reset clear_latents s =
     (let saved = (if clear_latents then [] else video_latents_across_time s);
          s1 = s\<lparr>stitched_buffer := [], call_count := 0, video_latents_across_time := saved,
                 current_start_frame := 0, st_clip_feas := None, st_ys := None\<rparr> in
      if clear_latents
      then reset_vae_encoder_stream (s1\<lparr>st_language := None, st_prompt_embeds := None\<rparr>)
      else s1)"

text \<open>\<^verbatim>\<open>DreamZeroState()\<close>: the constructor calls \<^verbatim>\<open>reset()\<close>.\<close>

definition fresh_state :: "'t DreamZeroState" where
  "fresh_state = \<lparr>stitched_buffer = [], call_count = 0, video_latents_across_time = [],
     current_start_frame = 0, st_clip_feas = None, st_ys = None, st_language = None, st_prompt_embeds = None,
     vae_stream_initialized = False, vae_enc_feat_map = None, vae_encoder_out = None,
     vae_pending_body_frames = None\<rparr>"

definition clear_video_latents :: "'t DreamZeroState \<Rightarrow> 't DreamZeroState" where
  "clear_video_latents s = s\<lparr>video_latents_across_time := []\<rparr>"

section \<open>Frame accumulation\<close>

text \<open>\<^verbatim>\<open>xs[-n:]\<close>; \<^verbatim>\<open>xs[-0:]\<close> is the whole list.\<close>

definition py_tail :: "nat \<Rightarrow> 'a list \<Rightarrow> 'a list" where
  "py_tail n xs = (if n = 0 then xs else lastn n xs)"

text \<open>A stitched observation: one \<open>(H, W, C)\<close> frame, a \<open>(T, H, W, C)\<close> clip, or another rank.\<close>

datatype 't stitched = Frame3 't | Frame4 "'t list" | Rank nat

fun pad_front :: "nat \<Rightarrow> 't \<Rightarrow> 't list \<Rightarrow> 't list" where
  "pad_front 0 x frames = frames"
| "pad_front (Suc n) x frames = pad_front n x (x # frames)"

text \<open>\<^verbatim>\<open>deque(maxlen=4)\<close> keeps the last four frames.  The buffer keeps what was appended even when
  padding an empty buffer raises.\<close>

definition accumulate_frames ::
  "'t stitched \<Rightarrow> 't DreamZeroState \<Rightarrow> (py_exc + 't list) \<times> 't DreamZeroState" where
  "accumulate_frames st s =
     (case st of
        Rank n \<Rightarrow> (Inl ValueError, s)
      | _ \<Rightarrow>
        (let new = (case st of Frame3 f \<Rightarrow> [f] | Frame4 fs \<Rightarrow> fs | Rank n \<Rightarrow> []);
             s1 = s\<lparr>stitched_buffer := lastn FRAMES_PER_CHUNK (stitched_buffer s @ new)\<rparr>;
             num_frames = (if call_count s = 0 then 1 else FRAMES_PER_CHUNK);
             buffer_frames = stitched_buffer s1 in
         if length buffer_frames \<ge> num_frames
         then (Inr (py_tail num_frames buffer_frames), s1\<lparr>call_count := call_count s + 1\<rparr>)
         else if buffer_frames = [] then (Inl IndexError, s1)
         else (Inr (pad_front (num_frames - length buffer_frames) (hd buffer_frames) buffer_frames),
               s1\<lparr>call_count := call_count s + 1\<rparr>)))"

definition append_video_latents ::
  "('t \<Rightarrow> nat) \<Rightarrow> ('t \<Rightarrow> 't) \<Rightarrow> 't \<Rightarrow> 't DreamZeroState \<Rightarrow> py_exc + 't DreamZeroState" where
  "append_video_latents ndim to_chunk video_out s =
     (if ndim video_out \<noteq> 5 then Inl ValueError
      else Inr (s\<lparr>video_latents_across_time := video_latents_across_time s @ [to_chunk video_out]\<rparr>))"

definition get_concatenated_video_latents ::
  "('t list \<Rightarrow> 't) \<Rightarrow> 't DreamZeroState \<Rightarrow> 't option" where
  "get_concatenated_video_latents cat s =
     (case video_latents_across_time s of [] \<Rightarrow> None | [x] \<Rightarrow> Some x | xs \<Rightarrow> Some (cat xs))"

text \<open>\<^verbatim>\<open>torch.equal\<close> is equality of values.\<close>

definition reset_reason ::
  "'t option \<Rightarrow> int \<Rightarrow> int \<Rightarrow> 't DreamZeroState \<Rightarrow> string option" where
  "reset_reason text_tokens num_video_frames local_attn_size s =
     (if st_language s = None then Some ''session''
      else if text_tokens \<noteq> None \<and> st_language s \<noteq> text_tokens then Some ''session''
      else if num_video_frames = 1 \<and> call_count s > 1 then Some ''session''
      else if local_attn_size \<noteq> -1 \<and> current_start_frame s \<ge> local_attn_size then Some ''inference''
      else None)"

section \<open>The incremental VAE encoder\<close>

type_synonym 't enc_chunk = "'t list \<Rightarrow> 't feat_map \<Rightarrow> 't list \<times> 't feat_map"

definition vae_stream_seed ::
  "'t enc_chunk \<Rightarrow> 't feat_map \<Rightarrow> 't list \<Rightarrow> 't DreamZeroState \<Rightarrow> 't DreamZeroState" where
  "vae_stream_seed enc init_map first_frame s =
     (case enc (take 1 first_frame) init_map of
        (out, m) \<Rightarrow> (reset_vae_encoder_stream s)
          \<lparr>vae_enc_feat_map := Some m, vae_encoder_out := Some out, vae_pending_body_frames := None,
           vae_stream_initialized := True\<rparr>)"

text \<open>The loop of \<^verbatim>\<open>_vae_stream_append_frame\<close> on the pending frames, the output and the cache.\<close>

function encode_body ::
  "'t enc_chunk \<Rightarrow> 't list \<Rightarrow> 't list \<Rightarrow> 't feat_map \<Rightarrow> 't list \<times> 't list \<times> 't feat_map" where
  "encode_body enc pending out m =
     (if length pending \<ge> 4
      then (case enc (take 4 pending) m of
              (chunk, m') \<Rightarrow> encode_body enc (drop 4 pending) (out @ chunk) m')
      else (pending, out, m))"
  by pat_completeness auto
termination by (relation "measure (\<lambda>(enc, pending, out, m). length pending)") auto

declare encode_body.simps [simp del]

definition vae_stream_append_frame ::
  "'t enc_chunk \<Rightarrow> 't list \<Rightarrow> 't DreamZeroState \<Rightarrow> py_exc + 't DreamZeroState" where
  "vae_stream_append_frame enc new_frame s =
     (case (vae_stream_initialized s, vae_enc_feat_map s, vae_encoder_out s) of
        (True, Some m, Some out) \<Rightarrow>
          (let pending = (case vae_pending_body_frames s of None \<Rightarrow> new_frame | Some p \<Rightarrow> p @ new_frame) in
           case encode_body enc pending out m of
             (rest, out', m') \<Rightarrow>
               Inr (s\<lparr>vae_pending_body_frames := (if rest = [] \<and> length pending \<ge> 4 then None else Some rest),
                      vae_encoder_out := Some out', vae_enc_feat_map := Some m'\<rparr>))
      | _ \<Rightarrow> Inl RuntimeError)"

definition vae_stream_get_observation_latents ::
  "('t list \<Rightarrow> 't list) \<Rightarrow> nat \<Rightarrow> 't DreamZeroState \<Rightarrow> py_exc + 't list" where
  "vae_stream_get_observation_latents quantize num_latent_frames s =
     (case vae_encoder_out s of
        None \<Rightarrow> Inl RuntimeError
      | Some out \<Rightarrow>
          (let latents = quantize out in
           if length latents \<ge> num_latent_frames then Inr (py_tail num_latent_frames latents)
           else if latents = [] then Inl RuntimeError
           else Inr (replicate (num_latent_frames - length latents) (last latents) @ latents)))"

text \<open>\<^verbatim>\<open>_preprocess_vae_observation_window\<close>; \<^verbatim>\<open>//\<close> by zero raises.\<close>

definition preprocess_vae_observation_window :: "nat \<Rightarrow> 't list \<Rightarrow> py_exc + 't list" where
  "preprocess_vae_observation_window num_frame_per_block videos =
     (let n = length videos in
      if (int n - 1) div 4 = int num_frame_per_block then Inr videos
      else if n div 4 \<noteq> num_frame_per_block then
        (if n div 4 = 0 then Inl ZeroDivisionError
         else (let repeated = concat (map (replicate (num_frame_per_block div (n div 4))) videos) in
               Inr (take 1 repeated @ repeated)))
      else Inr (take 1 videos @ videos))"

definition encode_observation_latents ::
  "'t enc_chunk \<Rightarrow> ('t list \<Rightarrow> 't list) \<Rightarrow> ('t list \<Rightarrow> 't list) \<Rightarrow> nat \<Rightarrow> 't list \<Rightarrow>
   't DreamZeroState \<Rightarrow> (py_exc + 't list) \<times> 't DreamZeroState" where
  "encode_observation_latents enc quant encode_whole nfpb videos s =
     (if vae_stream_initialized s then
        (case vae_stream_append_frame enc (py_tail 1 videos) s of
           Inl e \<Rightarrow> (Inl e, s)
         | Inr s1 \<Rightarrow> (vae_stream_get_observation_latents quant nfpb s1, s1))
      else
        (rbind (preprocess_vae_observation_window nfpb videos) (\<lambda>v. Inr (encode_whole v)), s))"

section \<open>The session table\<close>

definition MAX_DREAMZERO_SESSIONS :: nat where "MAX_DREAMZERO_SESSIONS = 64"

definition session_key :: "string option \<Rightarrow> string" where
  "session_key sid = (case sid of None \<Rightarrow> ''default'' | Some s \<Rightarrow> if s = [] then ''default'' else s)"

definition get_or_create_state ::
  "nat \<Rightarrow> string option \<Rightarrow> (string, 't DreamZeroState) dict \<Rightarrow>
   't DreamZeroState \<times> (string, 't DreamZeroState) dict" where
  "get_or_create_state max_states sid states =
     (let key = session_key sid in
      case dict_get states key of
        None \<Rightarrow> (fresh_state, evict max_states (dict_set key fresh_state states))
      | Some s \<Rightarrow> (s, move_to_end key states))"

section \<open>Facts\<close>

lemma pad_front_replicate: "pad_front n x frames = replicate n x @ frames"
  by (induction n arbitrary: frames) (simp_all add: replicate_app_Cons_same)

lemma lastn_lastn_append: "lastn n (lastn n xs @ ys') = lastn n (xs @ ys')"
  by (cases "n \<le> length xs") (auto simp: lastn_def add.commute)

lemma reset_fresh: "reset True s = fresh_state"
  by (simp add: reset_def fresh_state_def reset_vae_encoder_stream_def Let_def)

text \<open>The window of a history of single frames: the first frame alone, then the last four with the
  first frame repeated in front of a short history.\<close>

definition window :: "'t list \<Rightarrow> 't list" where
  "window hist = (if length hist = 1 then hist
     else lastn FRAMES_PER_CHUNK (replicate 3 (hd hist) @ hist))"

lemma accumulate_single:
  assumes "stitched_buffer s = lastn FRAMES_PER_CHUNK hist" "call_count s = length hist"
  shows "fst (accumulate_frames (Frame3 f) s) = Inr (window (hist @ [f])) \<and>
     stitched_buffer (snd (accumulate_frames (Frame3 f) s)) = lastn FRAMES_PER_CHUNK (hist @ [f]) \<and>
     call_count (snd (accumulate_frames (Frame3 f) s)) = length (hist @ [f])"
proof -
  have b: "lastn FRAMES_PER_CHUNK (stitched_buffer s @ [f]) = lastn FRAMES_PER_CHUNK (hist @ [f])"
    by (simp add: assms(1) lastn_lastn_append)
  consider "hist = []" | "hist \<noteq> []" "length hist < 3" | "length hist \<ge> 3" by fastforce
  then show ?thesis
  proof cases
    case 1
    with assms b show ?thesis
      by (simp add: accumulate_frames_def Let_def window_def lastn_def FRAMES_PER_CHUNK_def py_tail_def)
  next
    case 2
    then consider x where "hist = [x]" | x y where "hist = [x, y]"
      by (cases hist; cases "tl hist"; cases "tl (tl hist)") auto
    then show ?thesis
      using assms b
      by cases (simp_all add: accumulate_frames_def Let_def window_def lastn_def FRAMES_PER_CHUNK_def
          py_tail_def numeral_eq_Suc)
  next
    case 3
    then have "length (lastn FRAMES_PER_CHUNK (hist @ [f])) = FRAMES_PER_CHUNK" "hist \<noteq> []"
      by (auto simp: length_lastn FRAMES_PER_CHUNK_def)
    moreover have "lastn FRAMES_PER_CHUNK (replicate 3 (hd (hist @ [f])) @ hist @ [f])
        = lastn FRAMES_PER_CHUNK (hist @ [f])"
      using 3 by (simp add: lastn_def FRAMES_PER_CHUNK_def)
    ultimately show ?thesis
      using assms b 3
      by (simp add: accumulate_frames_def Let_def window_def py_tail_def lastn_id FRAMES_PER_CHUNK_def)
  qed
qed

fun feed_frames :: "'t list \<Rightarrow> 't DreamZeroState \<Rightarrow> (py_exc + 't list) list" where
  "feed_frames [] s = []"
| "feed_frames (f # fs) s =
     fst (accumulate_frames (Frame3 f) s) # feed_frames fs (snd (accumulate_frames (Frame3 f) s))"

lemma feed_frames_window:
  assumes "stitched_buffer s = lastn FRAMES_PER_CHUNK hist" "call_count s = length hist"
  shows "feed_frames fs s = map (\<lambda>i. Inr (window (hist @ take (Suc i) fs))) [0..<length fs]"
  using assms
proof (induction fs arbitrary: s hist)
  case (Cons f fs)
  from accumulate_single [OF Cons.prems] Cons.IH [of _ "hist @ [f]"]
  show ?case by (auto simp: upt_conv_Cons map_Suc_upt [symmetric] simp del: upt_Suc)
qed simp

text \<open>Groups of four, the reference of the streaming encoder.\<close>

function groups4 :: "'a list \<Rightarrow> 'a list list" where
  "groups4 xs = (if length xs \<ge> 4 then take 4 xs # groups4 (drop 4 xs) else [])"
  by pat_completeness auto
termination by (relation "measure length") auto

declare groups4.simps [simp del]

definition encode_groups ::
  "'t enc_chunk \<Rightarrow> 't list list \<Rightarrow> 't list \<times> 't feat_map \<Rightarrow> 't list \<times> 't feat_map" where
  "encode_groups enc gs om =
     foldl (\<lambda>(out, m) g. case enc g m of (chunk, m') \<Rightarrow> (out @ chunk, m')) om gs"

lemma encode_body_groups:
  "encode_body enc p out m =
     (drop (4 * (length p div 4)) p, encode_groups enc (groups4 p) (out, m))"
proof (induction enc p out m rule: encode_body.induct)
  case (1 enc p out m)
  show ?case
  proof (cases "length p \<ge> 4")
    case True
    obtain chunk m' where e: "enc (take 4 p) m = (chunk, m')" by fastforce
    have "4 * ((length p - 4) div 4) + 4 = 4 * (length p div 4)"
      using True by (simp add: le_div_geq)
    with 1 [OF True e [symmetric]] True e show ?thesis
      by (simp add: encode_body.simps [of enc p] groups4.simps [of p] encode_groups_def add.commute)
  next
    case False
    then show ?thesis by (simp add: encode_body.simps groups4.simps encode_groups_def)
  qed
qed

lemma groups4_rest:
  "groups4 (p @ q) = groups4 p @ groups4 (drop (4 * (length p div 4)) p @ q)"
proof (induction p rule: groups4.induct)
  case (1 p)
  show ?case
  proof (cases "length p \<ge> 4")
    case True
    have "4 * ((length p - 4) div 4) + 4 = 4 * (length p div 4)"
      using True by (simp add: le_div_geq)
    with 1 True show ?thesis
      by (simp add: groups4.simps [of "p @ q"] groups4.simps [of p] add.commute)
  next
    case False
    then show ?thesis by (simp add: groups4.simps [of p])
  qed
qed

lemma length_groups4: "length (groups4 xs) = length xs div 4"
  by (induction xs rule: groups4.induct) (subst groups4.simps, auto simp: le_div_geq)

lemma drop_add_append: "m \<le> length p \<Longrightarrow> drop (m + n) (p @ q) = drop n (drop m p @ q)"
  by (simp only: add.commute [of m n] drop_drop [symmetric]) simp

lemma rest_append:
  "drop (4 * (length (p @ q) div 4)) (p @ q) =
     (let r = drop (4 * (length p div 4)) p @ q in drop (4 * (length r div 4)) r)"
proof -
  let ?a = "length p div 4"
  have d: "length (p @ q) div 4 = ?a + (length p mod 4 + length q) div 4"
    unfolding length_append by presburger
  have l: "length (drop (4 * ?a) p @ q) = length p mod 4 + length q"
    by (simp add: minus_mult_div_eq_mod)
  have "drop (4 * ?a + n) (p @ q) = drop n (drop (4 * ?a) p @ q)" for n
    by (rule drop_add_append) simp
  then show ?thesis unfolding Let_def d l distrib_left .
qed

definition pending_frames :: "'t DreamZeroState \<Rightarrow> 't list" where
  "pending_frames s = (case vae_pending_body_frames s of None \<Rightarrow> [] | Some p \<Rightarrow> p)"

text \<open>The stream has consumed the body frames \<open>fs\<close> after a seed that left \<open>out0\<close> and \<open>m0\<close>.\<close>

definition stream_at ::
  "'t enc_chunk \<Rightarrow> 't list \<times> 't feat_map \<Rightarrow> 't list \<Rightarrow> 't DreamZeroState \<Rightarrow> bool" where
  "stream_at enc om fs s \<longleftrightarrow>
     vae_stream_initialized s \<and>
     pending_frames s = drop (4 * (length fs div 4)) fs \<and>
     (case encode_groups enc (groups4 fs) om of
        (out, m) \<Rightarrow> vae_encoder_out s = Some out \<and> vae_enc_feat_map s = Some m)"

lemma stream_seed: "stream_at enc (enc (take 1 f) m0) [] (vae_stream_seed enc m0 f s)"
  by (auto simp: stream_at_def vae_stream_seed_def pending_frames_def encode_groups_def
      groups4.simps [of "[]"] split: prod.splits)

lemma stream_append:
  assumes "stream_at enc om fs s"
  shows "\<exists>s'. vae_stream_append_frame enc xs s = Inr s' \<and> stream_at enc om (fs @ xs) s'"
proof -
  obtain out m where om: "encode_groups enc (groups4 fs) om = (out, m)" by fastforce
  define p where "p = drop (4 * (length fs div 4)) fs @ xs"
  have g: "encode_groups enc (groups4 (fs @ xs)) om = encode_groups enc (groups4 p) (out, m)"
    using om by (simp add: p_def groups4_rest [of fs xs] encode_groups_def)
  obtain out' m' where e: "encode_groups enc (groups4 p) (out, m) = (out', m')" by fastforce
  have r: "drop (4 * (length (fs @ xs) div 4)) (fs @ xs) = drop (4 * (length p div 4)) p"
    unfolding p_def using rest_append [of fs xs] unfolding Let_def .
  have "(case vae_pending_body_frames s of None \<Rightarrow> xs | Some p \<Rightarrow> p @ xs) = p"
    using assms by (auto simp: stream_at_def pending_frames_def p_def split: option.splits)
  moreover have "vae_stream_initialized s" "vae_encoder_out s = Some out" "vae_enc_feat_map s = Some m"
    using assms om by (auto simp: stream_at_def)
  ultimately have a: "vae_stream_append_frame enc xs s = Inr (s
      \<lparr>vae_pending_body_frames := (if drop (4 * (length p div 4)) p = [] \<and> length p \<ge> 4 then None
          else Some (drop (4 * (length p div 4)) p)),
       vae_encoder_out := Some out', vae_enc_feat_map := Some m'\<rparr>)" (is "_ = Inr ?s")
    using e by (simp add: vae_stream_append_frame_def encode_body_groups)
  have "pending_frames ?s = drop (4 * (length p div 4)) p" by (simp add: pending_frames_def)
  then have "stream_at enc om (fs @ xs) ?s"
    using g e assms unfolding stream_at_def r by simp
  with a show ?thesis by blast
qed

fun append_clips ::
  "'t enc_chunk \<Rightarrow> 't list list \<Rightarrow> 't DreamZeroState \<Rightarrow> py_exc + 't DreamZeroState" where
  "append_clips enc [] s = Inr s"
| "append_clips enc (c # cs) s = rbind (vae_stream_append_frame enc c s) (append_clips enc cs)"

lemma stream_clips:
  "stream_at enc om fs s \<Longrightarrow>
     \<exists>s'. append_clips enc cs s = Inr s' \<and> stream_at enc om (fs @ concat cs) s'"
proof (induction cs arbitrary: fs s)
  case (Cons c cs)
  from stream_append [OF Cons.prems, of c] Cons.IH show ?case by fastforce
qed simp

section \<open>The session table is a bounded LRU map\<close>

definition sessions_inv :: "(string, 't DreamZeroState) dict \<Rightarrow> bool" where
  "sessions_inv d \<longleftrightarrow> dict_ok d \<and> length d \<le> MAX_DREAMZERO_SESSIONS"

definition sessions_put ::
  "string \<Rightarrow> 't DreamZeroState \<Rightarrow> (string, 't DreamZeroState) dict \<Rightarrow> (string, 't DreamZeroState) dict" where
  "sessions_put k v d = evict MAX_DREAMZERO_SESSIONS (dict_set k v d)"

text \<open>The pipeline mutates the state object it got; an object no longer in the table is unaffected.\<close>

definition change_state ::
  "'k \<Rightarrow> ('v \<Rightarrow> 'v) \<Rightarrow> ('k, 'v) dict \<Rightarrow> ('k, 'v) dict" where
  "change_state k f d = (case dict_get d k of None \<Rightarrow> d | Some v \<Rightarrow> dict_set k (f v) d)"

lemma change_state_keys: "dict_keys (change_state k f d) = dict_keys d"
proof (cases "dict_get d k")
  case (Some v)
  then have "k \<in> set (dict_keys d)" by (rule dict_get_Some_key)
  then have "dict_keys (dict_set k w d) = dict_keys d" for w by (simp add: dict_keys_set)
  with Some show ?thesis by (simp add: change_state_def)
qed (simp add: change_state_def)

lemma change_state_get:
  "dict_get (change_state k f d) j = (if j = k then map_option f (dict_get d k) else dict_get d j)"
  by (auto simp: change_state_def dict_get_set split: option.splits)

lemma dict_set_keys_fresh: "k \<notin> set (dict_keys d) \<Longrightarrow> dict_keys (dict_set k v d) = dict_keys d @ [k]"
  by (simp add: dict_keys_set)

lemma evict_put_lookup:
  assumes "dict_ok d" "j \<in> set (dict_keys (evict n (dict_set k v d)))"
  shows "dict_get (evict n (dict_set k v d)) j = (if j = k then Some v else dict_get d j)"
  using assms map_of_lastn [of "dict_set k v d" n j]
  by (simp add: evict_lastn map_lastn dict_get_set)

interpretation dz_sessions:
  lru_sessions sessions_inv dict_keys dict_get move_to_end sessions_put "\<lambda>_. MAX_DREAMZERO_SESSIONS"
    change_state fresh_state
proof
  fix s :: "(string, 'a DreamZeroState) dict" and k j :: string and v :: "'a DreamZeroState" and f
  assume s: "sessions_inv s"
  show "0 < MAX_DREAMZERO_SESSIONS" by (simp add: MAX_DREAMZERO_SESSIONS_def)
  show "dict_ok s \<and> length (dict_keys s) \<le> MAX_DREAMZERO_SESSIONS"
    "(dict_get s k = None) = (k \<notin> set (dict_keys s))"
    using s by (auto simp: sessions_inv_def map_of_eq_None_iff)
  show "sessions_inv (move_to_end k s) \<and> MAX_DREAMZERO_SESSIONS = MAX_DREAMZERO_SESSIONS"
    using s by (simp add: sessions_inv_def move_to_end_ok move_to_end_length)
  show "dict_get (move_to_end k s) j = dict_get s j" by (rule move_to_end_get)
  show "k \<in> set (dict_keys s) \<Longrightarrow> dict_keys (move_to_end k s) = removeAll k (dict_keys s) @ [k]"
    by (rule move_to_end_keys)
  show "sessions_inv (sessions_put k v s) \<and> MAX_DREAMZERO_SESSIONS = MAX_DREAMZERO_SESSIONS"
    using s by (simp add: sessions_inv_def sessions_put_def evict_lastn map_lastn distinct_lastn length_lastn)
  show "k \<notin> set (dict_keys s) \<Longrightarrow> dict_keys (sessions_put k v s) = lastn MAX_DREAMZERO_SESSIONS (dict_keys s @ [k])"
    by (simp add: sessions_put_def evict_lastn map_lastn dict_set_keys_fresh)
  show "j \<in> set (dict_keys (sessions_put k v s)) \<Longrightarrow>
      dict_get (sessions_put k v s) j = (if j = k then Some v else dict_get s j)"
    using s unfolding sessions_put_def by (intro evict_put_lookup) (simp_all add: sessions_inv_def)
  show "sessions_inv (change_state k f s) \<and> MAX_DREAMZERO_SESSIONS = MAX_DREAMZERO_SESSIONS"
    using s change_state_keys [of k f s] by (metis length_map sessions_inv_def)
  show "dict_keys (change_state k f s) = dict_keys s" by (rule change_state_keys)
  show "dict_get (change_state k f s) j = (if j = k then map_option f (dict_get s k) else dict_get s j)"
    by (rule change_state_get)
qed

text \<open>One request of a session: fetch or create its state, and modify the state object.\<close>

definition session_access ::
  "string option \<times> ('t DreamZeroState \<Rightarrow> 't DreamZeroState) \<Rightarrow> (string, 't DreamZeroState) dict \<Rightarrow>
   (string, 't DreamZeroState) dict" where
  "session_access req d =
     change_state (session_key (fst req)) (snd req)
       (snd (get_or_create_state MAX_DREAMZERO_SESSIONS (fst req) d))"

lemma get_or_create_snd:
  "snd (get_or_create_state MAX_DREAMZERO_SESSIONS sid d) =
     dz_sessions.use_key (\<lambda>_. fresh_state) (session_key sid) d"
  by (simp add: get_or_create_state_def dz_sessions.use_key_def sessions_put_def Let_def
      split: option.splits)

lemma session_access_step:
  "session_access req d = dz_sessions.session_step (session_key (fst req), snd req) d"
  by (simp add: session_access_def get_or_create_snd dz_sessions.session_step_def)

lemma session_accesses_run:
  "foldl (\<lambda>d r. session_access r d) d reqs =
     dz_sessions.session_run (map (\<lambda>r. (session_key (fst r), snd r)) reqs) d"
  by (induction reqs arbitrary: d) (simp_all add: dz_sessions.session_run_def session_access_step)

lemma get_or_create_lookup:
  assumes "sessions_inv d"
  shows "dict_get (snd (get_or_create_state MAX_DREAMZERO_SESSIONS sid d)) (session_key sid) =
     Some (fst (get_or_create_state MAX_DREAMZERO_SESSIONS sid d))"
proof (cases "dict_get d (session_key sid)")
  case None
  then have "session_key sid \<notin> set (dict_keys d)" by (simp add: map_of_eq_None_iff)
  from dz_sessions.put_found [OF assms this, of fresh_state] None show ?thesis
    by (simp add: get_or_create_state_def Let_def sessions_put_def)
qed (simp add: get_or_create_state_def Let_def move_to_end_get)

lemma get_or_create_hit:
  "dict_get d (session_key sid) = Some s \<Longrightarrow> fst (get_or_create_state n sid d) = s"
  by (simp add: get_or_create_state_def Let_def)

section \<open>Properties\<close>

text \<open>
  Feeding single observations to a new session gives the model the first frame alone and
  from then on always a clip of exactly the four most recent frames, the first frame repeated
  in front while there are fewer than four.
\<close>

theorem observation_window:
  "feed_frames fs fresh_state = map (\<lambda>i. Inr (window (take (Suc i) fs))) [0..<length fs]"
  using feed_frames_window [of fresh_state "[]" fs] by (simp add: fresh_state_def lastn_def)

text \<open>
  C39: the incremental VAE encoder is equivalent to batch encoding however the frames arrive:
  after a seed and any sequence of appended clips, the encoder has run on the seed frame and
  then on the consecutive groups of four of all appended frames, in order and with its feature
  cache threaded through, and the at most three remaining frames are pending.
\<close>

theorem vae_stream_equals_batch:
  "\<exists>s'. append_clips enc clips (vae_stream_seed enc m0 first s) = Inr s' \<and>
     vae_stream_initialized s' \<and>
     (let frames = concat clips; om = encode_groups enc (groups4 frames) (enc (take 1 first) m0) in
        vae_encoder_out s' = Some (fst om) \<and> vae_enc_feat_map s' = Some (snd om) \<and>
        pending_frames s' = drop (4 * (length frames div 4)) frames \<and> length (pending_frames s') < 4)"
proof -
  from stream_clips [OF stream_seed [of enc first m0 s], of clips] obtain s' where
    s': "append_clips enc clips (vae_stream_seed enc m0 first s) = Inr s'"
      "stream_at enc (enc (take 1 first) m0) (concat clips) s'" by auto
  moreover have "length (drop (4 * (length (concat clips) div 4)) (concat clips)) < 4"
    by (simp only: length_drop minus_mult_div_eq_mod)
  ultimately show ?thesis
    unfolding stream_at_def Let_def by (force split: prod.splits)
qed

text \<open>
  A session's state survives the traffic of other sessions: whatever fewer than 64 distinct
  other sessions do, the state left by a request is exactly the state its session's next
  request finds, and the table never holds more than 64 sessions.
\<close>

theorem session_state_survives:
  assumes "sessions_inv d"
      and "session_key sid \<notin> (\<lambda>r. session_key (fst r)) ` set reqs"
      and "card ((\<lambda>r. session_key (fst r)) ` set reqs) < MAX_DREAMZERO_SESSIONS"
      and "d' = foldl (\<lambda>d r. session_access r d) (session_access (sid, f) d) reqs"
  shows "fst (get_or_create_state MAX_DREAMZERO_SESSIONS sid d') =
           f (fst (get_or_create_state MAX_DREAMZERO_SESSIONS sid d)) \<and>
         length d' \<le> MAX_DREAMZERO_SESSIONS"
proof -
  let ?k = "session_key sid" and ?steps = "map (\<lambda>r. (session_key (fst r), snd r)) reqs"
  have fsts: "fst ` set ?steps = (\<lambda>r. session_key (fst r)) ` set reqs"
    by (simp add: image_image)
  have d': "d' = dz_sessions.session_run ?steps (dz_sessions.session_step (?k, f) d)"
    unfolding assms(4) session_accesses_run by (simp add: session_access_step)
  then have "dict_get d' ?k = dict_get (session_access (sid, f) d) ?k"
    using dz_sessions.session_kept [OF assms(1), of ?k ?steps f] assms(2,3)
    unfolding fsts by (simp add: session_access_step)
  also have "\<dots> = Some (f (fst (get_or_create_state MAX_DREAMZERO_SESSIONS sid d)))"
    by (simp add: session_access_def change_state_get get_or_create_lookup [OF assms(1)])
  finally have l: "dict_get d' ?k = Some (f (fst (get_or_create_state MAX_DREAMZERO_SESSIONS sid d)))" .
  have "sessions_inv d'"
    using d' dz_sessions.run_inv dz_sessions.step_inv [OF assms(1)] by blast
  with get_or_create_hit [OF l] show ?thesis by (simp add: sessions_inv_def)
qed

theorem session_state_survives_witness:
  "fst (get_or_create_state MAX_DREAMZERO_SESSIONS (Some ''a'')
       [(''a'', fresh_state\<lparr>call_count := 7\<rparr>), (''default'', fresh_state :: nat DreamZeroState)]) =
     (fst (get_or_create_state MAX_DREAMZERO_SESSIONS (Some ''a'')
       ([] :: (string, nat DreamZeroState) dict)))\<lparr>call_count := 7\<rparr> \<and>
   length [(''a'', fresh_state\<lparr>call_count := 7\<rparr>), (''default'', fresh_state :: nat DreamZeroState)]
     \<le> MAX_DREAMZERO_SESSIONS"
  using session_state_survives [of "[] :: (string, nat DreamZeroState) dict" "Some ''a''"
      "[(None, \<lambda>s. s)]" _ "\<lambda>s. s\<lparr>call_count := 7\<rparr>"]
  by (simp add: sessions_inv_def session_key_def MAX_DREAMZERO_SESSIONS_def session_access_def
      get_or_create_state_def change_state_def)

end
