(* ===== verification/DreamZero.thy ===== *)
theory DreamZero
  imports DreamZero_State Stage_Payload
begin

text \<open>
  The DreamZero pipeline of \<^verbatim>\<open>vllm_omni/diffusion/models/dreamzero/pipeline_dreamzero.py\<close>: the
  three phases, the monolithic \<^verbatim>\<open>forward\<close> that composes them in one process, the
  state-based atoms the disaggregated stages call, and the packing of the inter-phase
  carrier into a stage payload.

  The neural networks, tokenizers, transforms, schedulers and the AR-Diffusion KV engine are the
  parameter \<open>dz_ops\<close>; \<open>'kv\<close> is the engine's session state, threaded through every call that
  changes it, \<open>'o\<close> a raw robot observation, \<open>'s\<close> the scheduler pair.  Tensors are compared by
  value in this theory.  Every phase returns its result together with the state it
  leaves behind, also when it raises.
\<close>

section \<open>The carrier\<close>

record 't carrier =
  c_session_id :: string
  c_embodiment_name :: string
  c_transform_embodiment :: string
  c_reset_reason :: "'t pyval"
  c_explicit_reset :: "'t pyval"
  c_do_true_cfg :: bool
  c_current_start_frame :: int
  c_height :: int
  c_width :: int
  c_seq_len :: int
  c_frame_seqlen :: int
  c_num_inference_steps :: int
  c_sigma_shift :: "64 word"
  c_tensors :: "string \<rightharpoonup> 't"

text \<open>The tensor attributes of the dataclass are the entries of \<open>c_tensors\<close>.\<close>

definition CARRIER_TENSORS :: "string list" where
  "CARRIER_TENSORS =
     [''prompt_embeds'', ''negative_prompt_embeds'', ''clip_feas'', ''ys'', ''image_latent'',
      ''state_features'', ''embodiment_id'', ''noise_obs'', ''noise_action'',
      ''state_for_postprocess'', ''video_out'', ''action_out'']"

definition CARRIER_SCALARS :: "string list" where
  "CARRIER_SCALARS =
     [''session_id'', ''embodiment_name'', ''transform_embodiment'', ''reset_reason'',
      ''explicit_reset'', ''do_true_cfg'', ''current_start_frame'', ''height'', ''width'',
      ''seq_len'', ''frame_seqlen'', ''num_inference_steps'', ''sigma_shift'', ''extra'']"

section \<open>Model operations\<close>

record 't unified_obs =
  u_prompt :: string
  u_images :: "'t stitched"
  u_embodiment_name :: string
  u_state :: "'t option"

record 't prefill_args =
  p_hidden :: 't
  p_seq_len :: int
  p_start_frame :: int
  p_y :: "'t option"
  p_clip :: "'t option"
  p_context :: 't
  p_negative_context :: "'t option"
  p_true_cfg :: bool

record 't dit_args =
  d_hidden :: 't
  d_action :: 't
  d_timestep :: 't
  d_timestep_action :: 't
  d_seq_len :: int
  d_start_frame :: int
  d_y :: 't
  d_clip :: "'t option"
  d_context :: 't
  d_negative_context :: "'t option"
  d_state_features :: "'t option"
  d_embodiment_id :: "'t option"
  d_true_cfg :: bool

record ('t, 'o, 'kv, 's) dz_ops =
  cfg_scale_above_1 :: bool
  local_attn_size :: int
  num_frame_per_block :: nat
  num_inference_steps :: int
  sigma_shift :: "64 word"
  relative_action :: bool
  negative_prompt :: string
  embodiment_key :: "'o \<Rightarrow> string"
  transform_obs :: "'o \<Rightarrow> py_exc + 't unified_obs"
  embodiment_to_id :: "string \<Rightarrow> 't option"
  pad_state :: "'t \<Rightarrow> 't"
  normalize_state :: "'t \<Rightarrow> string \<Rightarrow> 't"
  tokenize :: "string \<Rightarrow> 't \<times> 't"
  encode_text :: "'t \<Rightarrow> 't \<Rightarrow> 't"
  preprocess_video :: "'t list \<Rightarrow> 't list"
  frame_size :: "'t list \<Rightarrow> int \<times> int"
  clip_encode :: "'t list \<Rightarrow> 't"
  image_vae :: "'t list \<Rightarrow> int \<Rightarrow> int \<Rightarrow> 't \<times> 't"
  enc_chunk :: "'t enc_chunk"
  init_feat_map :: "'t feat_map"
  quantize :: "'t list \<Rightarrow> 't list"
  encode_vae :: "'t list \<Rightarrow> 't list"
  join_latents :: "'t list \<Rightarrow> 't"
  noise_obs :: "int \<Rightarrow> int \<Rightarrow> 't"
  noise_action :: "int \<Rightarrow> int \<Rightarrow> 't"
  kv_reset :: "bool \<Rightarrow> 'kv \<Rightarrow> 'kv"
  kv_populate_cross :: "'t \<Rightarrow> 't option \<Rightarrow> bool \<Rightarrow> 'kv \<Rightarrow> (py_exc + unit) \<times> 'kv"
  dit_prefill :: "'t prefill_args \<Rightarrow> 'kv \<Rightarrow> (py_exc + unit) \<times> 'kv"
  dit_predict :: "'t dit_args \<Rightarrow> 'kv \<Rightarrow> (py_exc + 't \<times> 't) \<times> 'kv"
  last_frames :: "nat \<Rightarrow> 't \<Rightarrow> 't"
  y_len :: "'t \<Rightarrow> int"
  y_slice :: "int \<Rightarrow> int \<Rightarrow> 't \<Rightarrow> 't"
  y_tail :: "nat \<Rightarrow> 't \<Rightarrow> 't"
  sched_init :: "int \<Rightarrow> 64 word \<Rightarrow> 's"
  timesteps_video :: "'s \<Rightarrow> 't list"
  timesteps_action :: "'s \<Rightarrow> 't list"
  sched_step :: "'t \<times> 't \<Rightarrow> 't \<times> 't \<Rightarrow> 't \<times> 't \<Rightarrow> 's \<Rightarrow> ('t \<times> 't) \<times> 's"
  step_cache :: "('t list \<Rightarrow> bool) option"
  trim_history :: "'t list \<Rightarrow> 't list"
  cat_frames :: "'t \<Rightarrow> 't \<Rightarrow> 't"
  ndim :: "'t \<Rightarrow> nat"
  latent_chunk :: "'t \<Rightarrow> 't"
  denormalize_action :: "'t \<Rightarrow> string \<Rightarrow> 't"
  add_last_state :: "'t \<Rightarrow> 't \<Rightarrow> 't"
  action_transform :: "string \<Rightarrow> py_exc + ('t \<Rightarrow> 't)"
  video_output :: "'t \<Rightarrow> 't"
  to_device :: "'t \<Rightarrow> 't"

datatype 't dz_output = Dummy_Output | Dz_Output 't 't

text \<open>The pipeline object: session table, cached negative prompt embedding, attached KV state.\<close>

record ('t, 'kv) dz_pipeline =
  dz_states :: "(string, 't DreamZeroState) dict"
  negative_cache :: "'t option"
  ar_kv :: "'kv option"

section \<open>Encode phase\<close>

definition apply_model_local_reset ::
  "('t, 'o, 'kv, 's) dz_ops \<Rightarrow> 't pyval \<Rightarrow> 't DreamZeroState \<Rightarrow> 'kv option \<Rightarrow> 't DreamZeroState \<times> 'kv option" where
  "apply_model_local_reset M reason s kv =
     (if reason = PStr ''session'' then (reset True s, map_option (kv_reset M False) kv)
      else if reason = PStr ''inference'' then (reset False s, map_option (kv_reset M True) kv)
      else (s, kv))"

definition encode_image ::
  "('t, 'o, 'kv, 's) dz_ops \<Rightarrow> 't list \<Rightarrow> int \<Rightarrow> int \<Rightarrow> 't DreamZeroState \<Rightarrow>
   py_exc + ('t \<times> 't \<times> 't) \<times> 't DreamZeroState" where
  "encode_image M img height width s =
     (let clip = clip_encode M img; (y, new_image) = image_vae M img height width in
      if \<not> vae_stream_initialized s
      then Inr ((clip, y, new_image), vae_stream_seed (enc_chunk M) (init_feat_map M) (take 1 img) s)
      else rbind (vae_stream_append_frame (enc_chunk M) (take 1 img) s) (\<lambda>s'.
             Inr ((clip, y, new_image), s')))"

definition opt_tensors :: "(string \<times> 't option) list \<Rightarrow> (string \<rightharpoonup> 't)" where
  "opt_tensors xs = (\<lambda>name. Option.bind (map_of xs name) id)"

text \<open>The tail of the phase: img conditions, noise and the carrier.\<close>

definition finish_encode ::
  "('t, 'o, 'kv, 's) dz_ops \<Rightarrow> 'o \<Rightarrow> 't unified_obs \<Rightarrow> string \<Rightarrow> 't pyval \<Rightarrow> 't pyval \<Rightarrow> 't \<Rightarrow>
   't list \<Rightarrow> 't option \<Rightarrow> 't DreamZeroState \<Rightarrow> (py_exc + 't carrier) \<times> 't DreamZeroState" where
  "finish_encode M obs u sid explicit reason emb_id videos neg_embeds s =
     (let n = length videos; (height, width) = frame_size M videos;
          image0 = (if n = 4 \<or> n = 9 then py_tail 1 videos else take 1 videos);
          encoded = (if current_start_frame s = 0
             then (case encode_image M image0 height width s of
                     Inl e \<Rightarrow> (Inl e, s)
                   | Inr ((clip, y, im), s1) \<Rightarrow>
                       (Inr im, s1\<lparr>st_clip_feas := Some clip, st_ys := Some y\<rparr>))
             else (case encode_observation_latents (enc_chunk M) (quantize M) (encode_vae M)
                          (num_frame_per_block M) videos s of (r, s1) \<Rightarrow>
                    (rbind r (\<lambda>l. Inr (join_latents M l)), s1))) in
      case encoded of
        (Inl e, s1) \<Rightarrow> (Inl e, s1)
      | (Inr img, s1) \<Rightarrow>
          (let frame_seqlen = ((height div 8) * (width div 8)) div 4;
               state_pp = map_option (pad_state M) (u_state u);
               tensors = opt_tensors
                 [(''prompt_embeds'', st_prompt_embeds s1), (''negative_prompt_embeds'', neg_embeds),
                  (''clip_feas'', st_clip_feas s1), (''ys'', st_ys s1), (''image_latent'', Some img),
                  (''state_features'', map_option (\<lambda>x. normalize_state M x (u_embodiment_name u)) state_pp),
                  (''embodiment_id'', Some emb_id), (''noise_obs'', Some (noise_obs M height width)),
                  (''noise_action'', Some (noise_action M height width)),
                  (''state_for_postprocess'', state_pp)] in
           (Inr \<lparr>c_session_id = sid, c_embodiment_name = u_embodiment_name u,
                 c_transform_embodiment = embodiment_key M obs, c_reset_reason = reason,
                 c_explicit_reset = explicit,
                 c_do_true_cfg = (cfg_scale_above_1 M \<and> neg_embeds \<noteq> None),
                 c_current_start_frame = current_start_frame s1, c_height = height, c_width = width,
                 c_seq_len = frame_seqlen * int (num_frame_per_block M), c_frame_seqlen = frame_seqlen,
                 c_num_inference_steps = num_inference_steps M, c_sigma_shift = sigma_shift M,
                 c_tensors = tensors\<rparr>, s1)))"

definition reason_value :: "string option \<Rightarrow> 't pyval" where
  "reason_value r = (case r of None \<Rightarrow> PNone | Some s \<Rightarrow> PStr s)"

definition decide_reset ::
  "('t, 'o, 'kv, 's) dz_ops \<Rightarrow> 't pyval \<Rightarrow> 't \<Rightarrow> 't DreamZeroState \<Rightarrow> 't pyval" where
  "decide_reset M explicit tokens s =
     (if py_truthy explicit then PStr ''session''
      else reason_value (reset_reason (Some tokens) 0 (local_attn_size M) s))"

definition cache_prompt ::
  "('t, 'o, 'kv, 's) dz_ops \<Rightarrow> 't \<times> 't \<Rightarrow> 't DreamZeroState \<Rightarrow> 't DreamZeroState" where
  "cache_prompt M tok s =
     (case st_prompt_embeds s of
        None \<Rightarrow> s\<lparr>st_prompt_embeds := Some (encode_text M (fst tok) (snd tok))\<rparr> | Some _ \<Rightarrow> s)"

definition cache_negative :: "('t, 'o, 'kv, 's) dz_ops \<Rightarrow> 't option \<Rightarrow> 't option" where
  "cache_negative M neg =
     (if cfg_scale_above_1 M \<and> neg = None
      then (let tok = tokenize M (negative_prompt M) in Some (encode_text M (fst tok) (snd tok)))
      else neg)"

definition run_encode_phase ::
  "('t, 'o, 'kv, 's) dz_ops \<Rightarrow> 'o \<Rightarrow> string \<Rightarrow> 't pyval \<Rightarrow> 't DreamZeroState \<Rightarrow> 't option \<Rightarrow> 'kv option \<Rightarrow>
   (py_exc + 't carrier) \<times> 't DreamZeroState \<times> 't option \<times> 'kv option" where
  "run_encode_phase M obs sid explicit s neg kv =
     (case transform_obs M obs of
        Inl e \<Rightarrow> (Inl e, s, neg, kv)
      | Inr u \<Rightarrow>
     (case embodiment_to_id M (u_embodiment_name u) of
        None \<Rightarrow> (Inl KeyError, s, neg, kv)
      | Some emb_id \<Rightarrow>
     (let tok = tokenize M (u_prompt u);
          reason = decide_reset M explicit (fst tok) s;
          (s1, kv1) = apply_model_local_reset M reason s kv in
      case accumulate_frames (u_images u) (s1\<lparr>st_language := Some (fst tok)\<rparr>) of
        (Inl e, s2) \<Rightarrow> (Inl e, s2, neg, kv1)
      | (Inr frames, s2) \<Rightarrow>
     (let neg1 = cache_negative M neg;
          neg_embeds = (if cfg_scale_above_1 M then neg1 else None) in
      case finish_encode M obs u sid explicit reason emb_id (preprocess_video M frames) neg_embeds
             (cache_prompt M tok s2) of
        (r, s4) \<Rightarrow> (r, s4, neg1, kv1)))))"

section \<open>Denoise phase\<close>

text \<open>\<^verbatim>\<open>_prefill_kv_cache\<close>: the first frame when the window is empty, the observation otherwise.\<close>

definition prefill_first ::
  "('t, 'o, 'kv, 's) dz_ops \<Rightarrow> 't \<Rightarrow> 't \<Rightarrow> 't option \<Rightarrow> int \<Rightarrow> bool \<Rightarrow> 't DreamZeroState \<Rightarrow> 't prefill_args" where
  "prefill_first M latents ctx neg_ctx frame_seqlen cfg s =
     \<lparr>p_hidden = latents, p_seq_len = frame_seqlen, p_start_frame = 0,
      p_y = map_option (y_slice M 0 1) (st_ys s), p_clip = st_clip_feas s, p_context = ctx,
      p_negative_context = neg_ctx, p_true_cfg = cfg\<rparr>"

definition prefill_observation ::
  "('t, 'o, 'kv, 's) dz_ops \<Rightarrow> 't \<Rightarrow> 't \<Rightarrow> 't option \<Rightarrow> int \<Rightarrow> bool \<Rightarrow> 't DreamZeroState \<Rightarrow> 't prefill_args" where
  "prefill_observation M latents ctx neg_ctx seq_len cfg s =
     (let csf = current_start_frame s; nfpb = num_frame_per_block M in
      \<lparr>p_hidden = last_frames M nfpb latents, p_seq_len = seq_len, p_start_frame = csf - int nfpb,
       p_y = (case st_ys s of None \<Rightarrow> None
              | Some y \<Rightarrow> Some (if csf \<le> y_len M y then y_slice M (csf - int nfpb) csf y
                               else y_tail M nfpb y)),
       p_clip = st_clip_feas s, p_context = ctx, p_negative_context = neg_ctx, p_true_cfg = cfg\<rparr>)"

definition prefill_kv_cache ::
  "('t, 'o, 'kv, 's) dz_ops \<Rightarrow> 't \<Rightarrow> 't \<Rightarrow> 't option \<Rightarrow> int \<Rightarrow> int \<Rightarrow> bool \<Rightarrow> 't DreamZeroState \<Rightarrow> 'kv \<Rightarrow>
   (py_exc + unit) \<times> 't DreamZeroState \<times> 'kv" where
  "prefill_kv_cache M latents ctx neg_ctx frame_seqlen seq_len cfg s kv =
     (let (r, s1, kv1) =
        (if current_start_frame s = 0
         then (case dit_prefill M (prefill_first M latents ctx neg_ctx frame_seqlen cfg s) kv of
                 (Inl e, kv1) \<Rightarrow> (Inl e, s, kv1)
               | (Inr u, kv1) \<Rightarrow> (Inr u, s\<lparr>current_start_frame := 1\<rparr>, kv1))
         else (Inr (), s, kv)) in
      case r of
        Inl e \<Rightarrow> (Inl e, s1, kv1)
      | Inr u \<Rightarrow>
          if current_start_frame s1 \<noteq> 1
          then (case dit_prefill M (prefill_observation M latents ctx neg_ctx seq_len cfg s1) kv1 of
                  (r2, kv2) \<Rightarrow> (r2, s1, kv2))
          else (Inr (), s1, kv1))"

text \<open>\<^verbatim>\<open>_run_dit_loop\<close>: \<open>cached\<close> is the last prediction, \<open>prevs\<close> the history of the step cache.\<close>

definition dit_step_args ::
  "('t, 'o, 'kv, 's) dz_ops \<Rightarrow> 't carrier \<Rightarrow> 't \<Rightarrow> 't DreamZeroState \<Rightarrow> 't \<Rightarrow> 't \<Rightarrow> 't \<times> 't \<Rightarrow> 't \<Rightarrow> 't dit_args" where
  "dit_step_args M c ctx s t t_action inputs y =
     (let csf = current_start_frame s; nfpb = num_frame_per_block M;
          neg = c_tensors c ''negative_prompt_embeds'' in
      \<lparr>d_hidden = fst inputs, d_action = snd inputs, d_timestep = t, d_timestep_action = t_action,
       d_seq_len = c_seq_len c, d_start_frame = csf,
       d_y = (if csf + int nfpb \<le> y_len M y then y_slice M csf (csf + int nfpb) y else y_tail M nfpb y),
       d_clip = st_clip_feas s, d_context = ctx,
       d_negative_context = (if c_do_true_cfg c then neg else None),
       d_state_features = c_tensors c ''state_features'', d_embodiment_id = c_tensors c ''embodiment_id'',
       d_true_cfg = c_do_true_cfg c\<rparr>)"

fun run_dit_loop ::
  "('t, 'o, 'kv, 's) dz_ops \<Rightarrow> 't carrier \<Rightarrow> 't \<Rightarrow> 't DreamZeroState \<Rightarrow> 't list \<Rightarrow> 't list \<Rightarrow> 't \<times> 't \<Rightarrow>
   ('t \<times> 't) option \<Rightarrow> 't list \<Rightarrow> 's \<Rightarrow> 'kv \<Rightarrow> (py_exc + 't \<times> 't) \<times> 'kv" where
  "run_dit_loop M c ctx s [] ts_action inputs cached prevs sch kv = (Inr inputs, kv)"
| "run_dit_loop M c ctx s (t # ts) [] inputs cached prevs sch kv = (Inl IndexError, kv)"
| "run_dit_loop M c ctx s (t # ts) (ta # tas) inputs cached prevs sch kv =
     (case st_ys s of
        None \<Rightarrow> (Inl AttributeError, kv)
      | Some y \<Rightarrow>
          if (case step_cache M of None \<Rightarrow> True | Some should_run \<Rightarrow> should_run prevs)
          then (case dit_predict M (dit_step_args M c ctx s t ta inputs y) kv of
                  (Inl e, kv1) \<Rightarrow> (Inl e, kv1)
                | (Inr pred, kv1) \<Rightarrow>
                    (let prevs1 = prevs @ [fst pred];
                         prevs2 = (case step_cache M of None \<Rightarrow> prevs1 | Some _ \<Rightarrow> trim_history M prevs1);
                         (inputs1, sch1) = sched_step M pred (t, ta) inputs sch in
                     run_dit_loop M c ctx s ts tas inputs1 (Some pred) prevs2 sch1 kv1))
          else (case cached of
                  None \<Rightarrow> (Inl AssertionError, kv)
                | Some pred \<Rightarrow>
                    (let (inputs1, sch1) = sched_step M pred (t, ta) inputs sch in
                     run_dit_loop M c ctx s ts tas inputs1 cached prevs sch1 kv)))"

text \<open>The required conditions are read as attributes of tensors; a missing one raises.\<close>

definition populate_cross ::
  "('t, 'o, 'kv, 's) dz_ops \<Rightarrow> 't carrier \<Rightarrow> 't \<Rightarrow> 'kv \<Rightarrow> (py_exc + unit) \<times> 'kv" where
  "populate_cross M c ctx kv =
     (if c_current_start_frame c = 0
      then (case kv_populate_cross M ctx (c_tensors c ''clip_feas'') False kv of
              (Inl e, kv1) \<Rightarrow> (Inl e, kv1)
            | (Inr u, kv1) \<Rightarrow>
                (case c_tensors c ''negative_prompt_embeds'' of
                   None \<Rightarrow> (Inr (), kv1)
                 | Some neg \<Rightarrow> kv_populate_cross M neg (c_tensors c ''clip_feas'') True kv1))
      else (Inr (), kv))"

definition run_denoise_phase ::
  "('t, 'o, 'kv, 's) dz_ops \<Rightarrow> 't carrier \<Rightarrow> 't DreamZeroState \<Rightarrow> 'kv option \<Rightarrow>
   (py_exc + 't carrier) \<times> 't DreamZeroState \<times> 'kv option" where
  "run_denoise_phase M c s kv =
     (case (kv, c_tensors c ''prompt_embeds'', c_tensors c ''image_latent'',
            c_tensors c ''noise_obs'', c_tensors c ''noise_action'') of
        (Some kv0, Some ctx, Some latents, Some n_obs, Some n_act) \<Rightarrow>
          (case populate_cross M c ctx kv0 of
             (Inl e, kv1) \<Rightarrow> (Inl e, s, Some kv1)
           | (Inr u0, kv1) \<Rightarrow>
          (case prefill_kv_cache M latents ctx (c_tensors c ''negative_prompt_embeds'')
                  (c_frame_seqlen c) (c_seq_len c) (c_do_true_cfg c) s kv1 of
             (Inl e, s1, kv2) \<Rightarrow> (Inl e, s1, Some kv2)
           | (Inr u, s1, kv2) \<Rightarrow>
          (let sch = sched_init M (c_num_inference_steps c) (c_sigma_shift c) in
           case run_dit_loop M c ctx s1 (timesteps_video M sch) (timesteps_action M sch)
                  (n_obs, n_act) None [] sch kv2 of
             (Inl e, kv3) \<Rightarrow> (Inl e, s1, Some kv3)
           | (Inr (video, action), kv3) \<Rightarrow>
          (let video_out = (if current_start_frame s1 = 1 then cat_frames M latents video else video);
               s2 = s1\<lparr>current_start_frame := current_start_frame s1 + int (num_frame_per_block M)\<rparr> in
           case append_video_latents (ndim M) (latent_chunk M) video_out s2 of
             Inl e \<Rightarrow> (Inl e, s2, Some kv3)
           | Inr s3 \<Rightarrow>
               (Inr (c\<lparr>c_tensors := (c_tensors c)(''video_out'' \<mapsto> video_out, ''action_out'' \<mapsto> action)\<rparr>),
                s3, Some kv3)))))
      | _ \<Rightarrow> (Inl AttributeError, s, kv))"

section \<open>Decode phase and the monolithic forward\<close>

definition run_decode_phase :: "('t, 'o, 'kv, 's) dz_ops \<Rightarrow> 't carrier \<Rightarrow> py_exc + 't dz_output" where
  "run_decode_phase M c =
     rbind (action_transform M (if c_transform_embodiment c \<noteq> [] then c_transform_embodiment c
                                else c_embodiment_name c)) (\<lambda>tr.
     case c_tensors c ''action_out'' of
       None \<Rightarrow> Inl AttributeError
     | Some action \<Rightarrow>
         (let a1 = denormalize_action M action (c_embodiment_name c);
              a2 = (case c_tensors c ''state_for_postprocess'' of
                      Some st \<Rightarrow> if relative_action M then add_last_state M a1 st else a1
                    | None \<Rightarrow> a1) in
          case c_tensors c ''video_out'' of
            None \<Rightarrow> Inl AttributeError
          | Some video \<Rightarrow> Inr (Dz_Output (tr a2) (video_output M video))))"

text \<open>What the pipeline reads of a request: \<^verbatim>\<open>extra_args\<close>, the prompt text and the step count.\<close>

record ('t, 'o) dz_request =
  rq_id :: string
  rq_robot_obs :: "'o option"
  rq_session_id :: "string option"
  rq_reset :: "'t pyval"
  rq_prompt :: string
  rq_steps :: int

definition store_state ::
  "string \<Rightarrow> 't DreamZeroState \<Rightarrow> ('t, 'kv) dz_pipeline \<Rightarrow> ('t, 'kv) dz_pipeline" where
  "store_state sid s p = p\<lparr>dz_states := change_state (session_key (Some sid)) (\<lambda>_. s) (dz_states p)\<rparr>"

definition acquire_state ::
  "string \<Rightarrow> ('t, 'kv) dz_pipeline \<Rightarrow> 't DreamZeroState \<times> ('t, 'kv) dz_pipeline" where
  "acquire_state sid p =
     (case get_or_create_state MAX_DREAMZERO_SESSIONS (Some sid) (dz_states p) of
        (s, d) \<Rightarrow> (s, p\<lparr>dz_states := d\<rparr>))"

definition forward ::
  "('t, 'o, 'kv, 's) dz_ops \<Rightarrow> ('t, 'o) dz_request \<Rightarrow> ('t, 'kv) dz_pipeline \<Rightarrow>
   (py_exc + 't dz_output) \<times> ('t, 'kv) dz_pipeline" where
  "forward M req p =
     (case rq_robot_obs req of
        None \<Rightarrow> (if rq_prompt req = ''dummy run'' \<and> rq_steps req = 1 then (Inr Dummy_Output, p)
                 else (Inl KeyError, p))
      | Some obs \<Rightarrow>
          (let sid = session_key (rq_session_id req); (s, p1) = acquire_state sid p in
           case run_encode_phase M obs sid (rq_reset req) s (negative_cache p1) (ar_kv p1) of
             (Inl e, s1, neg, kv) \<Rightarrow>
               (Inl e, store_state sid s1 (p1\<lparr>negative_cache := neg, ar_kv := kv\<rparr>))
           | (Inr c, s1, neg, kv) \<Rightarrow>
               (case run_denoise_phase M c s1 kv of
                  (Inl e, s2, kv2) \<Rightarrow>
                    (Inl e, store_state sid s2 (p1\<lparr>negative_cache := neg, ar_kv := kv2\<rparr>))
                | (Inr c2, s2, kv2) \<Rightarrow>
                    (run_decode_phase M c2,
                     store_state sid s2 (p1\<lparr>negative_cache := neg, ar_kv := kv2\<rparr>)))))"

section \<open>The state-based atoms\<close>

text \<open>The request state the runner owns, as far as these atoms use it.\<close>

record ('t, 'o) request_state =
  rs_request_id :: string
  rs_robot_obs :: "'o option"
  rs_session_id :: "string option"
  rs_reset :: "'t pyval"
  rs_carrier :: "'t carrier option"

definition init_state :: "('t, 'o) request_state \<Rightarrow> ('t, 'o) request_state" where
  "init_state st = st\<lparr>rs_carrier := None\<rparr>"

definition check_inputs ::
  "('t, 'o) request_state \<Rightarrow> 't transport_error + ('t, 'o) request_state" where
  "check_inputs st = (if rs_robot_obs st = None then Inl (Raised ValueError) else Inr st)"

text \<open>\<^verbatim>\<open>extra_args.get("session_id") or state.request_id or "default"\<close>\<close>

definition encode_session_id :: "('t, 'o) request_state \<Rightarrow> string" where
  "encode_session_id st =
     (case rs_session_id st of
        Some s \<Rightarrow> if s \<noteq> [] then s else if rs_request_id st \<noteq> [] then rs_request_id st else ''default''
      | None \<Rightarrow> if rs_request_id st \<noteq> [] then rs_request_id st else ''default'')"

definition encode_atom ::
  "('t, 'o, 'kv, 's) dz_ops \<Rightarrow> ('t, 'o) request_state \<Rightarrow> ('t, 'kv) dz_pipeline \<Rightarrow>
   ('t transport_error + ('t, 'o) request_state) \<times> ('t, 'kv) dz_pipeline" where
  "encode_atom M st p =
     (case rs_robot_obs st of
        None \<Rightarrow> (Inl (Raised KeyError), p)
      | Some obs \<Rightarrow>
          (let sid = encode_session_id st; (s, p1) = acquire_state sid p in
           case run_encode_phase M obs sid (PBool (py_truthy (rs_reset st))) s (negative_cache p1) (ar_kv p1) of
             (Inl e, s1, neg, kv) \<Rightarrow>
               (Inl (Raised e), store_state sid s1 (p1\<lparr>negative_cache := neg, ar_kv := kv\<rparr>))
           | (Inr c, s1, neg, kv) \<Rightarrow>
               (Inr (st\<lparr>rs_carrier := Some c\<rparr>),
                store_state sid s1 (p1\<lparr>negative_cache := neg, ar_kv := kv\<rparr>))))"

definition prepare :: "('t, 'o) request_state \<Rightarrow> ('t, 'o) request_state" where
  "prepare st = st"

text \<open>\<^verbatim>\<open>diffuse\<close>: realign the denoise worker's own session state with the carrier, then denoise.\<close>

definition align_state :: "'t carrier \<Rightarrow> 't DreamZeroState \<Rightarrow> 't DreamZeroState" where
  "align_state c s =
     s\<lparr>current_start_frame := c_current_start_frame c, st_clip_feas := c_tensors c ''clip_feas'',
       st_ys := c_tensors c ''ys'',
       st_prompt_embeds := (case st_prompt_embeds s of None \<Rightarrow> c_tensors c ''prompt_embeds'' | e \<Rightarrow> e)\<rparr>"

definition diffuse ::
  "('t, 'o, 'kv, 's) dz_ops \<Rightarrow> ('t, 'o) request_state \<Rightarrow> ('t, 'kv) dz_pipeline \<Rightarrow>
   ('t transport_error + ('t, 'o) request_state) \<times> ('t, 'kv) dz_pipeline" where
  "diffuse M st p =
     (case rs_carrier st of
        None \<Rightarrow> (Inl (No_Carrier (rs_request_id st)), p)
      | Some c \<Rightarrow>
          (let (s, p1) = acquire_state (c_session_id c) p in
           if ar_kv p1 = None then (Inl (No_KV_State (c_session_id c)), p1)
           else
             (let (s1, kv1) = (if c_current_start_frame c = 0
                               then apply_model_local_reset M (c_reset_reason c) s (ar_kv p1)
                               else (s, ar_kv p1)) in
              case run_denoise_phase M c (align_state c s1) kv1 of
                (Inl e, s2, kv2) \<Rightarrow>
                  (Inl (Raised e), store_state (c_session_id c) s2 (p1\<lparr>ar_kv := kv2\<rparr>))
              | (Inr c2, s2, kv2) \<Rightarrow>
                  (Inr (st\<lparr>rs_carrier := Some c2\<rparr>), store_state (c_session_id c) s2 (p1\<lparr>ar_kv := kv2\<rparr>)))))"

definition decode_atom :: "('t, 'o) request_state \<Rightarrow> ('t, 'o) request_state" where
  "decode_atom st = st"

definition postprocess ::
  "('t, 'o, 'kv, 's) dz_ops \<Rightarrow> ('t, 'o) request_state \<Rightarrow> 't transport_error + 't dz_output" where
  "postprocess M st =
     (case rs_carrier st of
        None \<Rightarrow> Inl (No_Carrier (rs_request_id st))
      | Some c \<Rightarrow> (case run_decode_phase M c of Inl e \<Rightarrow> Inl (Raised e) | Inr out \<Rightarrow> Inr out))"

section \<open>Payload marshalling\<close>

definition PAYLOAD_TENSOR_FIELDS :: "StageBoundary \<Rightarrow> string list" where
  "PAYLOAD_TENSOR_FIELDS b = (case b of
      ENCODE_TO_DIT \<Rightarrow> [''prompt_embeds'', ''negative_prompt_embeds'', ''clip_feas'', ''ys'',
        ''image_latent'', ''state_features'', ''embodiment_id'', ''noise_obs'', ''noise_action'',
        ''state_for_postprocess'']
    | DIT_TO_DECODE \<Rightarrow> [''video_out'', ''action_out'', ''state_for_postprocess''])"

text \<open>\<^verbatim>\<open>{name: getattr(carrier, name) for name in _PAYLOAD_SCALAR_FIELDS}\<close>\<close>

definition payload_scalars :: "'t carrier \<Rightarrow> 't items" where
  "payload_scalars c =
     [(PStr ''embodiment_name'', PStr (c_embodiment_name c)),
      (PStr ''transform_embodiment'', PStr (c_transform_embodiment c)),
      (PStr ''reset_reason'', c_reset_reason c), (PStr ''explicit_reset'', c_explicit_reset c),
      (PStr ''do_true_cfg'', PBool (c_do_true_cfg c)),
      (PStr ''current_start_frame'', PInt (c_current_start_frame c)),
      (PStr ''height'', PInt (c_height c)), (PStr ''width'', PInt (c_width c)),
      (PStr ''seq_len'', PInt (c_seq_len c)), (PStr ''frame_seqlen'', PInt (c_frame_seqlen c)),
      (PStr ''num_inference_steps'', PInt (c_num_inference_steps c)),
      (PStr ''sigma_shift'', PFloat (c_sigma_shift c))]"

definition pack_tensors :: "'t carrier \<Rightarrow> string list \<Rightarrow> 't items" where
  "pack_tensors c names =
     List.map_filter (\<lambda>n. map_option (\<lambda>t. (PStr n, PTensor t)) (c_tensors c n)) names"

definition pack_stage_state ::
  "('t, 'd) torch_ops \<Rightarrow> ('t, 'o) request_state \<Rightarrow> StageBoundary \<Rightarrow> 't transport_error + 't StagePayload" where
  "pack_stage_state T st b =
     (case rs_carrier st of
        None \<Rightarrow> Inl (No_Carrier (rs_request_id st))
      | Some c \<Rightarrow>
          create T (PStr (rs_request_id st)) (PBoundary b)
            (Some [(PStr ''session_id'', PStr (c_session_id c))]) None
            (Some (payload_scalars c)) (Some (pack_tensors c (PAYLOAD_TENSOR_FIELDS b))) True True)"

text \<open>
  \<^verbatim>\<open>str\<close>, \<^verbatim>\<open>int\<close> and \<^verbatim>\<open>float\<close> of a value of the same type is that value; of any other value it is
  the parameter \<open>py_conv\<close>.
\<close>

record 't py_conv =
  conv_str :: "'t pyval \<Rightarrow> string"
  conv_int :: "'t pyval \<Rightarrow> py_exc + int"
  conv_float :: "'t pyval \<Rightarrow> py_exc + 64 word"

definition py_str :: "'t py_conv \<Rightarrow> 't pyval \<Rightarrow> string" where
  "py_str C v = (case v of PStr s \<Rightarrow> s | _ \<Rightarrow> conv_str C v)"

definition py_int :: "'t py_conv \<Rightarrow> 't pyval \<Rightarrow> 't transport_error + int" where
  "py_int C v = (case v of PInt i \<Rightarrow> Inr i | PBool b \<Rightarrow> Inr (of_bool b)
     | _ \<Rightarrow> (case conv_int C v of Inl e \<Rightarrow> Inl (Raised e) | Inr i \<Rightarrow> Inr i))"

definition py_float :: "'t py_conv \<Rightarrow> 't pyval \<Rightarrow> 't transport_error + 64 word" where
  "py_float C v = (case v of PFloat w \<Rightarrow> Inr w
     | _ \<Rightarrow> (case conv_float C v of Inl e \<Rightarrow> Inl (Raised e) | Inr i \<Rightarrow> Inr i))"

definition get_or :: "'t items \<Rightarrow> string \<Rightarrow> 't pyval \<Rightarrow> 't pyval" where
  "get_or d k dflt = (case dict_get d (PStr k) of None \<Rightarrow> dflt | Some v \<Rightarrow> v)"

text \<open>
  The \<^verbatim>\<open>setattr\<close> loop.  Names that are no attribute of the carrier are skipped; a tensor filed under
  the name of a scalar attribute, which packing never does, is an error value here.
\<close>

fun restore_tensors ::
  "('t \<Rightarrow> 't) \<Rightarrow> 't items \<Rightarrow> (string \<rightharpoonup> 't) \<Rightarrow> 't transport_error + (string \<rightharpoonup> 't)" where
  "restore_tensors dev [] m = Inr m"
| "restore_tensors dev ((k, v) # rest) m =
     (case (k, v) of
        (PStr n, PTensor t) \<Rightarrow>
          if n \<in> set CARRIER_TENSORS then restore_tensors dev rest (m(n \<mapsto> dev t))
          else if n \<in> set CARRIER_SCALARS then Inl (Scalar_Attribute n)
          else restore_tensors dev rest m
      | _ \<Rightarrow> restore_tensors dev rest m)"

definition items_of :: "'t pyval \<Rightarrow> 't items" where
  "items_of v = (case v of PMap _ kvs \<Rightarrow> kvs | _ \<Rightarrow> [])"

definition unpack_stage_state ::
  "'t py_conv \<Rightarrow> ('t \<Rightarrow> 't) \<Rightarrow> 't StagePayload \<Rightarrow> ('t, 'o) request_state \<Rightarrow>
   't transport_error + ('t, 'o) request_state" where
  "unpack_stage_state C dev p st =
     (case validate p of
        Some e \<Rightarrow> Inl e
      | None \<Rightarrow>
          (let meta = items_of (private_scalar_fields p) in
           rbind (py_int C (get_or meta ''current_start_frame'' (PInt 0))) (\<lambda>csf.
           rbind (py_int C (get_or meta ''height'' (PInt 0))) (\<lambda>h.
           rbind (py_int C (get_or meta ''width'' (PInt 0))) (\<lambda>w.
           rbind (py_int C (get_or meta ''seq_len'' (PInt 0))) (\<lambda>sl.
           rbind (py_int C (get_or meta ''frame_seqlen'' (PInt 0))) (\<lambda>fs.
           rbind (py_int C (get_or meta ''num_inference_steps'' (PInt 0))) (\<lambda>nis.
           rbind (py_float C (get_or meta ''sigma_shift'' (PFloat 0x3FF0000000000000))) (\<lambda>sg.
           rbind (restore_tensors dev (items_of (private_tensor_fields p)) Map.empty) (\<lambda>ts.
           Inr (st\<lparr>rs_carrier := Some
             \<lparr>c_session_id = py_str C (get_or (items_of (scalar_fields p)) ''session_id'' (PStr ''default'')),
              c_embodiment_name = py_str C (get_or meta ''embodiment_name'' (PStr [])),
              c_transform_embodiment = py_str C (get_or meta ''transform_embodiment'' (PStr [])),
              c_reset_reason = get_or meta ''reset_reason'' PNone,
              c_explicit_reset = PBool (py_truthy (get_or meta ''explicit_reset'' (PBool False))),
              c_do_true_cfg = py_truthy (get_or meta ''do_true_cfg'' (PBool False)),
              c_current_start_frame = csf, c_height = h, c_width = w, c_seq_len = sl,
              c_frame_seqlen = fs, c_num_inference_steps = nis, c_sigma_shift = sg,
              c_tensors = ts\<rparr>\<rparr>)))))))))))"

section \<open>Facts about packing\<close>

text \<open>Restoring an exported tensor on the receiving worker gives an equal tensor.\<close>

definition value_preserving :: "('t \<Rightarrow> 't) \<Rightarrow> ('t, 'd) torch_ops \<Rightarrow> bool" where
  "value_preserving dev T \<longleftrightarrow> (\<forall>t. dev (sanitize_transport_tensor T t) = t)"

text \<open>The part of a carrier that crosses a boundary.\<close>

definition at_boundary :: "StageBoundary \<Rightarrow> 't carrier \<Rightarrow> 't carrier" where
  "at_boundary b c = c\<lparr>c_explicit_reset := PBool (py_truthy (c_explicit_reset c)),
     c_tensors := c_tensors c |` set (PAYLOAD_TENSOR_FIELDS b)\<rparr>"

lemma scalar_transportable:
  "transportable PNone" "transportable (PBool b)" "transportable (PInt i)" "transportable (PFloat w)"
  "transportable (PStr s)"
  by (simp_all add: transportable_leaf node_allowed_def is_tensor_def looks_non_transportable_def
      builtin_class_def py_startswith_def py_endswith_def py_lower_def py_lower_char_def
      PROCESS_LOCAL_NAMES_def Let_def)

lemma str_values [simp]:
  "is_str (PStr s)" "is_tensor (PTensor t)" "is_boundary (PBoundary b)"
  by (simp_all add: is_str_def is_tensor_def is_boundary_def builtin_class_def TENSOR_CLS_def)

lemma pack_tensors_keys: "dict_keys (pack_tensors c names) = map PStr (filter (\<lambda>n. c_tensors c n \<noteq> None) names)"
  by (induction names) (auto simp: pack_tensors_def List.map_filter_simps split: option.splits)

lemma pack_tensors_values: "(k, v) \<in> set (pack_tensors c names) \<Longrightarrow> \<exists>n t. k = PStr n \<and> v = PTensor t"
  by (auto simp: pack_tensors_def List.map_filter_def)

lemma payload_fields_distinct: "distinct (PAYLOAD_TENSOR_FIELDS b)"
  by (cases b) (simp_all add: PAYLOAD_TENSOR_FIELDS_def)

lemma payload_fields_carrier: "set (PAYLOAD_TENSOR_FIELDS b) \<subseteq> set CARRIER_TENSORS"
  by (cases b) (simp_all add: PAYLOAD_TENSOR_FIELDS_def CARRIER_TENSORS_def)

lemma prep_pack:
  assumes "distinct names"
  shows "prep T san label (pack_tensors c names) [] =
     Inr (map (\<lambda>(n, v). (n, sanitize_value T san v)) (pack_tensors c names))"
proof -
  have "distinct (map fst [] @ dict_keys (pack_tensors c names))"
    using assms by (simp add: pack_tensors_keys distinct_map inj_on_def)
  moreover have "\<forall>(n, v) \<in> set (pack_tensors c names). is_tensor v"
    by (auto dest!: pack_tensors_values)
  ultimately show ?thesis by (simp add: prep_distinct)
qed

definition packed :: "('t, 'd) torch_ops \<Rightarrow> string \<Rightarrow> StageBoundary \<Rightarrow> 't carrier \<Rightarrow> 't StagePayload" where
  "packed T rid b c =
     \<lparr>request_id = PStr rid, boundary = PBoundary b,
      scalar_fields = PMap DICT_CLS [(PStr ''session_id'', PStr (c_session_id c))],
      tensor_fields = PMap DICT_CLS [],
      private_scalar_fields = PMap DICT_CLS (payload_scalars c),
      private_tensor_fields = PMap DICT_CLS (map (\<lambda>(n, v). (n, sanitize_value T True v))
        (pack_tensors c (PAYLOAD_TENSOR_FIELDS b))),
      payload_version = PInt STAGE_PAYLOAD_SCHEMA_VERSION\<rparr>"

lemma packed_valid:
  assumes "rid \<noteq> []" "transportable (c_reset_reason c)" "transportable (c_explicit_reset c)"
  shows "validate (packed T rid b c) = None"
proof -
  have "tensor_dict (private_tensor_fields (packed T rid b c))"
    by (auto simp: tensor_dict_def packed_def sanitize_value_def dest!: pack_tensors_values)
  then show ?thesis
    using assms
    by (simp add: validate_exact packed_def version_ok_def STAGE_PAYLOAD_SCHEMA_VERSION_def
        tensor_dict_def scalar_dict_def scalar_transportable payload_scalars_def)
qed

lemma pack_packed:
  assumes "rs_carrier st = Some c" "rs_request_id st \<noteq> []"
      and "transportable (c_reset_reason c)" "transportable (c_explicit_reset c)"
  shows "pack_stage_state T st b = Inr (packed T (rs_request_id st) b c)"
  using packed_valid [OF assms(2-4), of T b] prep_pack [OF payload_fields_distinct, of T True _ c b]
  by (simp add: pack_stage_state_def assms(1) create_def packed_def)

lemma restore_pack:
  assumes "value_preserving dev T" "set names \<subseteq> set CARRIER_TENSORS"
  shows "restore_tensors dev (map (\<lambda>(n, v). (n, sanitize_value T True v)) (pack_tensors c names)) m =
     Inr (m ++ (c_tensors c |` set names))"
  using assms(2)
proof (induction names arbitrary: m)
  case (Cons n names)
  show ?case
  proof (cases "c_tensors c n")
    case None
    then have "m ++ (c_tensors c |` set (n # names)) = m ++ (c_tensors c |` set names)"
      by (auto simp: map_add_def restrict_map_def fun_eq_iff split: option.splits)
    with Cons None show ?thesis by (simp add: pack_tensors_def List.map_filter_simps)
  next
    case (Some t)
    then have "m(n \<mapsto> t) ++ (c_tensors c |` set names) = m ++ (c_tensors c |` set (n # names))"
      by (auto simp: map_add_def restrict_map_def fun_eq_iff split: option.splits)
    with Cons Some assms(1) show ?thesis
      by (simp add: pack_tensors_def List.map_filter_simps sanitize_value_def value_preserving_def)
  qed
qed (simp add: pack_tensors_def List.map_filter_simps)

lemma unpack_packed:
  assumes "value_preserving dev T" "rid \<noteq> []"
      and "transportable (c_reset_reason c)" "transportable (c_explicit_reset c)"
  shows "unpack_stage_state C dev (packed T rid b c) st = Inr (st\<lparr>rs_carrier := Some (at_boundary b c)\<rparr>)"
  unfolding unpack_stage_state_def packed_valid [OF assms(2-4)]
  using restore_pack [OF assms(1) payload_fields_carrier, of c b Map.empty]
  by (simp add: packed_def items_of_def payload_scalars_def get_or_def py_int_def py_float_def
      py_str_def at_boundary_def)

section \<open>Facts about the phases\<close>

lemma stream_csf:
  "vae_stream_append_frame enc f s = Inr s' \<Longrightarrow> current_start_frame s' = current_start_frame s"
  "current_start_frame (vae_stream_seed enc m f s) = current_start_frame s"
  by (auto simp: vae_stream_append_frame_def vae_stream_seed_def reset_vae_encoder_stream_def Let_def
      split: option.splits bool.splits prod.splits)

lemma encode_image_csf:
  "encode_image M img h w s = Inr (r, s') \<Longrightarrow> current_start_frame s' = current_start_frame s"
  by (auto simp: encode_image_def Let_def rbind_Inr_iff stream_csf split: prod.splits if_splits)

lemma encode_observation_csf:
  "encode_observation_latents enc q ev n videos s = (r, s') \<Longrightarrow>
     current_start_frame s' = current_start_frame s"
  by (auto simp: encode_observation_latents_def stream_csf split: if_splits sum.splits)

lemma opt_tensors_get: "opt_tensors xs n = (case map_of xs n of None \<Rightarrow> None | Some v \<Rightarrow> v)"
  by (auto simp: opt_tensors_def split: option.splits)

text \<open>What an encode carrier says about the state it was made from.\<close>

definition carrier_of_state :: "'t carrier \<Rightarrow> 't DreamZeroState \<Rightarrow> bool" where
  "carrier_of_state c s \<longleftrightarrow>
     c_current_start_frame c = current_start_frame s \<and>
     c_tensors c ''clip_feas'' = st_clip_feas s \<and> c_tensors c ''ys'' = st_ys s \<and>
     c_tensors c |` set (PAYLOAD_TENSOR_FIELDS ENCODE_TO_DIT) = c_tensors c"

lemma finish_encode_facts:
  assumes "finish_encode M obs u sid explicit reason e videos neg s = (r, s')"
  shows "current_start_frame s' = current_start_frame s \<and>
    (\<forall>c. r = Inr c \<longrightarrow> carrier_of_state c s' \<and> c_session_id c = sid \<and> c_reset_reason c = reason \<and>
       c_explicit_reset c = explicit)"
proof -
  have "opt_tensors [(''prompt_embeds'', a1), (''negative_prompt_embeds'', a2), (''clip_feas'', a3),
      (''ys'', a4), (''image_latent'', a5), (''state_features'', a6), (''embodiment_id'', a7),
      (''noise_obs'', a8), (''noise_action'', a9), (''state_for_postprocess'', a10)]
      |` set (PAYLOAD_TENSOR_FIELDS ENCODE_TO_DIT) =
    opt_tensors [(''prompt_embeds'', a1), (''negative_prompt_embeds'', a2), (''clip_feas'', a3),
      (''ys'', a4), (''image_latent'', a5), (''state_features'', a6), (''embodiment_id'', a7),
      (''noise_obs'', a8), (''noise_action'', a9), (''state_for_postprocess'', a10)]"
    for a1 a2 a3 a4 a5 a6 a7 a8 a9 a10 :: "'a option"
    by (rule ext) (simp add: restrict_map_def opt_tensors_get PAYLOAD_TENSOR_FIELDS_def)
  note closed = this
  show ?thesis
    using assms
    by (auto simp: finish_encode_def Let_def carrier_of_state_def closed opt_tensors_get
        dest: encode_image_csf encode_observation_csf split: prod.splits sum.splits if_splits)
qed

lemma reset_csf [simp]: "current_start_frame (reset b s) = 0"
  by (simp add: reset_def reset_vae_encoder_stream_def Let_def)

lemma accumulate_csf:
  "accumulate_frames st s = (r, s') \<Longrightarrow> current_start_frame s' = current_start_frame s"
  by (auto simp: accumulate_frames_def Let_def split: stitched.splits if_splits)

lemma apply_reset_parts:
  "fst (apply_model_local_reset M reason s kv) = fst (apply_model_local_reset M reason s None)"
  "snd (apply_model_local_reset M reason s None) = None"
  by (simp_all add: apply_model_local_reset_def)

lemma apply_reset_csf:
  "apply_model_local_reset M reason s kv = (s', kv') \<Longrightarrow>
     current_start_frame s' = 0 \<or> (s' = s \<and> kv' = kv)"
  by (auto simp: apply_model_local_reset_def split: if_splits)

lemma reason_cases:
  "reason_value (reset_reason tok n l s) \<in> {PNone, PStr ''session'', PStr ''inference''}"
  by (simp add: reason_value_def reset_reason_def)

text \<open>The encode phase never lets the KV state influence anything but the KV state.\<close>

lemma run_encode_kv:
  fixes M :: "('t, 'o, 'kv, 's) dz_ops"
  assumes "run_encode_phase M obs sid explicit s neg None = (r, s1, neg1, k0)"
  shows "k0 = None \<and> (\<exists>kv1. run_encode_phase M obs sid explicit s neg kv = (r, s1, neg1, kv1) \<and>
     (\<forall>c. r = Inr c \<longrightarrow> kv1 = snd (apply_model_local_reset M (c_reset_reason c) s kv) \<and>
        (c_current_start_frame c \<noteq> 0 \<longrightarrow> kv1 = kv)))"
proof (cases "transform_obs M obs")
  case (Inl e)
  with assms show ?thesis by (auto simp: run_encode_phase_def)
next
  case u: (Inr u)
  show ?thesis
  proof (cases "embodiment_to_id M (u_embodiment_name u)")
    case None
    with assms u show ?thesis by (auto simp: run_encode_phase_def)
  next
    case i: (Some i)
    let ?tok = "tokenize M (u_prompt u)"
    define reason :: "'t pyval" where "reason = decide_reset M explicit (fst ?tok) s"
    define sa where "sa = fst (apply_model_local_reset M reason s (None :: 'kv option))"
    define kf where "kf k = snd (apply_model_local_reset M reason s k)" for k :: "'kv option"
    have sa: "apply_model_local_reset M reason s k = (sa, kf k)" for k
      using apply_reset_parts(1) [of M reason s k] by (simp add: sa_def kf_def prod_eq_iff)
    have k0: "kf None = None" by (simp add: kf_def apply_reset_parts(2))
    obtain ra sb where ra: "accumulate_frames (u_images u) (sa\<lparr>st_language := Some (fst ?tok)\<rparr>) = (ra, sb)"
      by fastforce
    show ?thesis
    proof (cases ra)
      case (Inl e)
      have "run_encode_phase M obs sid explicit s neg k = (Inl e, sb, neg, kf k)" for k
        by (subst run_encode_phase_def) (simp add: u i Let_def reason_def [symmetric] sa [of k] ra Inl)
      with assms k0 show ?thesis by auto
    next
      case (Inr frames)
      define sc where "sc = cache_prompt M ?tok sb"
      have csc: "current_start_frame sc = current_start_frame sa"
        using accumulate_csf [OF ra] by (simp add: sc_def cache_prompt_def split: option.splits)
      obtain rf sd where fin: "finish_encode M obs u sid explicit reason i (preprocess_video M frames)
          (if cfg_scale_above_1 M then cache_negative M neg else None) sc = (rf, sd)" by fastforce
      have run: "run_encode_phase M obs sid explicit s neg k =
          (rf, sd, cache_negative M neg, kf k)" for k
        by (subst run_encode_phase_def)
          (simp add: u i Let_def reason_def [symmetric] sa [of k] ra Inr sc_def [symmetric] fin [simplified])
      have facts: "\<forall>c. rf = Inr c \<longrightarrow> c_reset_reason c = reason \<and>
          c_current_start_frame c = current_start_frame sa"
        using finish_encode_facts [OF fin] csc by (auto simp: carrier_of_state_def)
      have "current_start_frame sa \<noteq> 0 \<longrightarrow> kf kv = kv"
        using apply_reset_csf [OF sa [of kv]] by auto
      with facts run [of None] run [of kv] assms k0 show ?thesis by (auto simp: kf_def)
    qed
  qed
qed

lemma run_encode_facts:
  assumes "run_encode_phase M obs sid explicit s neg kv = (Inr c, s1, neg1, kv1)"
  shows "carrier_of_state c s1 \<and> c_session_id c = sid \<and> c_explicit_reset c = explicit \<and>
     c_reset_reason c \<in> {PNone, PStr ''session'', PStr ''inference''}"
  using assms reason_cases
  by (fastforce simp: run_encode_phase_def Let_def decide_reset_def dest!: finish_encode_facts
      split: sum.splits option.splits prod.splits)

text \<open>The denoise phase reads three fields of the session state.\<close>

definition same_window :: "'t DreamZeroState \<Rightarrow> 't DreamZeroState \<Rightarrow> bool" where
  "same_window s t \<longleftrightarrow> current_start_frame s = current_start_frame t \<and>
     st_clip_feas s = st_clip_feas t \<and> st_ys s = st_ys t"

lemma prefill_args_cong:
  "same_window s t \<Longrightarrow> prefill_first M l ctx n fs cfg s = prefill_first M l ctx n fs cfg t"
  "same_window s t \<Longrightarrow> prefill_observation M l ctx n sl cfg s = prefill_observation M l ctx n sl cfg t"
  by (simp_all add: same_window_def prefill_first_def prefill_observation_def Let_def)

lemma same_window_set:
  "same_window s t \<Longrightarrow> same_window (s\<lparr>current_start_frame := i\<rparr>) (t\<lparr>current_start_frame := i\<rparr>)"
  by (simp add: same_window_def)

lemma prefill_cong:
  assumes "same_window s t" and "prefill_kv_cache M l ctx n fs sl cfg s kv = (r, s', kv')"
  shows "\<exists>t'. prefill_kv_cache M l ctx n fs sl cfg t kv = (r, t', kv') \<and> same_window s' t'"
proof -
  have csf: "current_start_frame s = current_start_frame t" using assms(1) by (simp add: same_window_def)
  have pf: "prefill_first M l ctx n fs cfg s = prefill_first M l ctx n fs cfg t"
    and po: "prefill_observation M l ctx n sl cfg s = prefill_observation M l ctx n sl cfg t"
    by (rule prefill_args_cong [OF assms(1)])+
  show ?thesis
  proof (cases "current_start_frame t = 0")
    case True
    obtain r1 kv1 where d: "dit_prefill M (prefill_first M l ctx n fs cfg t) kv = (r1, kv1)" by fastforce
    from True d pf csf assms same_window_set [OF assms(1), of 1] show ?thesis
      by (cases r1) (auto simp: prefill_kv_cache_def)
  next
    case False
    with assms csf po show ?thesis
      by (auto simp: prefill_kv_cache_def split: prod.splits if_splits)
  qed
qed

lemma run_dit_loop_cong:
  assumes "same_window s t"
  shows "run_dit_loop M c ctx s ts tas i cached prevs sch kv = run_dit_loop M c ctx t ts tas i cached prevs sch kv"
proof -
  have a: "st_ys s = st_ys t" "\<And>x y z w. dit_step_args M c ctx s x y z w = dit_step_args M c ctx t x y z w"
    using assms by (simp_all add: same_window_def dit_step_args_def Let_def)
  show ?thesis
  proof (induction ts arbitrary: tas i cached prevs sch kv)
    case (Cons x xs)
    show ?case
      by (cases tas) (auto simp: a Cons.IH Let_def split: option.split prod.split sum.split)
  qed simp
qed

lemma run_denoise_cong:
  assumes "same_window s t" and "run_denoise_phase M c s kv = (r, s', kv')"
  shows "\<exists>t'. run_denoise_phase M c t kv = (r, t', kv')"
proof (cases "\<exists>k a b d e. kv = Some k \<and> c_tensors c ''prompt_embeds'' = Some a \<and>
    c_tensors c ''image_latent'' = Some b \<and> c_tensors c ''noise_obs'' = Some d \<and>
    c_tensors c ''noise_action'' = Some e")
  case False
  with assms(2) show ?thesis by (auto simp: run_denoise_phase_def split: option.splits)
next
  case True
  then obtain k a b d e where f: "kv = Some k" "c_tensors c ''prompt_embeds'' = Some a"
      "c_tensors c ''image_latent'' = Some b" "c_tensors c ''noise_obs'' = Some d"
      "c_tensors c ''noise_action'' = Some e" by blast
  obtain r0 k1 where p: "populate_cross M c a k = (r0, k1)" by fastforce
  show ?thesis
  proof (cases r0)
    case (Inl x)
    with assms(2) f p show ?thesis by (simp add: run_denoise_phase_def)
  next
    case r0: (Inr x)
    obtain r1 s1 k2 where q: "prefill_kv_cache M b a (c_tensors c ''negative_prompt_embeds'')
        (c_frame_seqlen c) (c_seq_len c) (c_do_true_cfg c) s k1 = (r1, s1, k2)"
      by (metis prod_cases3)
    from prefill_cong [OF assms(1) this] obtain t1 where q': "prefill_kv_cache M b a
        (c_tensors c ''negative_prompt_embeds'') (c_frame_seqlen c) (c_seq_len c) (c_do_true_cfg c) t k1
        = (r1, t1, k2)" and w: "same_window s1 t1" by blast
    have csf: "current_start_frame s1 = current_start_frame t1" using w by (simp add: same_window_def)
    show ?thesis
      using assms(2) f p r0 q q' csf run_dit_loop_cong [OF w, of M c a]
      by (cases r1)
        (auto simp: run_denoise_phase_def Let_def append_video_latents_def split: prod.splits sum.splits if_splits)
  qed
qed

lemma denoise_tensors_only:
  "run_denoise_phase M c s kv = (Inr c2, s', kv') \<Longrightarrow>
     \<exists>v a. c2 = c\<lparr>c_tensors := (c_tensors c)(''video_out'' \<mapsto> v, ''action_out'' \<mapsto> a)\<rparr>"
  by (auto simp: run_denoise_phase_def Let_def append_video_latents_def
      split: option.splits prod.splits sum.splits if_splits)

lemma prefill_csf:
  assumes "prefill_kv_cache M l ctx n fs sl cfg s kv = (Inr u, s', kv')"
  shows "current_start_frame s' = (if current_start_frame s = 0 then 1 else current_start_frame s)"
  using assms by (auto simp: prefill_kv_cache_def Let_def split: prod.splits sum.splits if_splits)

lemma denoise_window:
  assumes "run_denoise_phase M c s kv = (Inr c2, s', kv')"
  shows "current_start_frame s' =
       (if current_start_frame s = 0 then 1 else current_start_frame s) + int (num_frame_per_block M) \<and>
     kv \<noteq> None \<and> kv' \<noteq> None"
  using assms
  by (auto simp: run_denoise_phase_def Let_def append_video_latents_def dest!: prefill_csf
      split: option.splits prod.splits sum.splits if_splits)

lemma at_boundary_encode:
  "carrier_of_state c s \<Longrightarrow> c_explicit_reset c = PBool b \<Longrightarrow> at_boundary ENCODE_TO_DIT c = c"
  by (cases c) (simp add: at_boundary_def carrier_of_state_def)

lemma decode_at_boundary: "run_decode_phase M (at_boundary DIT_TO_DECODE c) = run_decode_phase M c"
  by (simp add: run_decode_phase_def at_boundary_def PAYLOAD_TENSOR_FIELDS_def restrict_map_def Let_def
      cong: option.case_cong)

lemma snd_pair: "snd x = b \<Longrightarrow> (\<And>a. x = (a, b) \<Longrightarrow> P) \<Longrightarrow> P"
  by (cases x) auto

text \<open>The denoise worker reproduces the monolithic denoise phase from the carrier alone.\<close>

lemma diffuse_matches:
  assumes enc: "run_encode_phase M obs sid explicit s neg (Some kv) = (Inr c, s1, neg1, kv1)"
      and st: "rs_carrier st = Some c" and kv: "ar_kv pd = Some kv"
      and den: "run_denoise_phase M c s1 kv1 = (r, s2, kv2)"
  shows "fst (diffuse M st pd) = (case r of Inl e \<Rightarrow> Inl (Raised e)
           | Inr c2 \<Rightarrow> Inr (st\<lparr>rs_carrier := Some c2\<rparr>)) \<and> ar_kv (snd (diffuse M st pd)) = kv2"
proof -
  obtain r0 sx n0 k0 where e0: "run_encode_phase M obs sid explicit s neg None = (r0, sx, n0, k0)"
    by (metis prod_cases4)
  from run_encode_kv [OF e0, of "Some kv"] enc
  have kv1: "kv1 = snd (apply_model_local_reset M (c_reset_reason c) s (Some kv))"
    "c_current_start_frame c \<noteq> 0 \<Longrightarrow> kv1 = Some kv" by auto
  obtain sd p1 where acq: "acquire_state (c_session_id c) pd = (sd, p1)" by fastforce
  then have k: "ar_kv p1 = Some kv"
    using kv by (auto simp: acquire_state_def split: prod.splits)
  have "snd (apply_model_local_reset M (c_reset_reason c) sd (Some kv)) = kv1"
    using kv1(1) by (simp add: apply_model_local_reset_def)
  with k kv1(2) have "snd (if c_current_start_frame c = 0
      then apply_model_local_reset M (c_reset_reason c) sd (ar_kv p1) else (sd, ar_kv p1)) = kv1"
    by (cases "c_current_start_frame c = 0") auto
  then obtain sd1 where red: "(if c_current_start_frame c = 0
      then apply_model_local_reset M (c_reset_reason c) sd (ar_kv p1) else (sd, ar_kv p1)) = (sd1, kv1)"
    by (elim snd_pair) blast
  have "same_window s1 (align_state c sd1)"
    using run_encode_facts [OF enc] by (simp add: same_window_def align_state_def carrier_of_state_def)
  from run_denoise_cong [OF this den] obtain t2 where
    d: "run_denoise_phase M c (align_state c sd1) kv1 = (r, t2, kv2)" by blast
  show ?thesis
    using st acq k red d by (cases r) (simp_all add: diffuse_def store_state_def)
qed

section \<open>A concrete model\<close>

definition tiny_ops :: "(int, int, int list, unit) dz_ops" where
  "tiny_ops = \<lparr>cfg_scale_above_1 = False, local_attn_size = -1, num_frame_per_block = 1,
     num_inference_steps = 1, sigma_shift = 0, relative_action = False, negative_prompt = [],
     embodiment_key = (\<lambda>_. ''e''),
     transform_obs = (\<lambda>img. Inr \<lparr>u_prompt = ''p'', u_images = Frame3 img, u_embodiment_name = ''e'', u_state = None\<rparr>),
     embodiment_to_id = (\<lambda>_. Some 0), pad_state = (\<lambda>x. x), normalize_state = (\<lambda>x _. x),
     tokenize = (\<lambda>_. (0, 0)), encode_text = (\<lambda>_ _. 0), preprocess_video = (\<lambda>xs. xs),
     frame_size = (\<lambda>_. (8, 8)), clip_encode = (\<lambda>_. 0), image_vae = (\<lambda>xs _ _. (0, hd xs)),
     enc_chunk = (\<lambda>fs m. (fs, m)), init_feat_map = [], quantize = (\<lambda>xs. xs), encode_vae = (\<lambda>xs. xs),
     join_latents = last, noise_obs = (\<lambda>_ _. 0), noise_action = (\<lambda>_ _. 0), kv_reset = (\<lambda>_ _. []),
     kv_populate_cross = (\<lambda>_ _ _ kv. (Inr (), kv)),
     dit_prefill = (\<lambda>a kv. (Inr (), kv @ [p_start_frame a])),
     dit_predict = (\<lambda>a kv. (Inr (d_start_frame a, d_start_frame a), kv)),
     last_frames = (\<lambda>_ x. x), y_len = (\<lambda>_. 1), y_slice = (\<lambda>_ _ y. y), y_tail = (\<lambda>_ y. y),
     sched_init = (\<lambda>_ _. ()), timesteps_video = (\<lambda>_. [0]), timesteps_action = (\<lambda>_. [0]),
     sched_step = (\<lambda>pred _ _ s. (pred, s)), step_cache = None, trim_history = (\<lambda>xs. xs),
     cat_frames = (\<lambda>_ v. v), ndim = (\<lambda>_. 5), latent_chunk = (\<lambda>v. v),
     denormalize_action = (\<lambda>a _. a), add_last_state = (\<lambda>a _. a), action_transform = (\<lambda>_. Inr (\<lambda>a. a)),
     video_output = (\<lambda>v. v), to_device = (\<lambda>v. v)\<rparr>"

definition plain_torch :: "(int, int) torch_ops" where
  "plain_torch = \<lparr>detach = (\<lambda>t. t), cpu = (\<lambda>t. t), contiguous = (\<lambda>t. t), clone = (\<lambda>t. t),
     data_ptr = (\<lambda>_. 0), t_data = (\<lambda>t. t), on_host = (\<lambda>_. True), is_contiguous = (\<lambda>_. True),
     requires_grad = (\<lambda>_. False)\<rparr>"

definition native_conv :: "int py_conv" where
  "native_conv = \<lparr>conv_str = (\<lambda>_. []), conv_int = (\<lambda>_. Inl TypeError), conv_float = (\<lambda>_. Inl TypeError)\<rparr>"

lemma value_preserving_tiny: "value_preserving (to_device tiny_ops) plain_torch"
  by (simp add: value_preserving_def tiny_ops_def plain_torch_def sanitize_transport_tensor_def Let_def)

definition tiny_carrier :: "int carrier" where
  "tiny_carrier = \<lparr>c_session_id = ''s'', c_embodiment_name = ''e'', c_transform_embodiment = [],
     c_reset_reason = PNone, c_explicit_reset = PBool True, c_do_true_cfg = False,
     c_current_start_frame = 3, c_height = 8, c_width = 8, c_seq_len = 1, c_frame_seqlen = 1,
     c_num_inference_steps = 1, c_sigma_shift = 0,
     c_tensors = [''prompt_embeds'' \<mapsto> 1, ''ys'' \<mapsto> 7, ''image_latent'' \<mapsto> 2, ''noise_obs'' \<mapsto> 0,
       ''noise_action'' \<mapsto> 0, ''video_out'' \<mapsto> 9]\<rparr>"

definition tiny_state :: "int carrier option \<Rightarrow> (int, int) request_state" where
  "tiny_state c = \<lparr>rs_request_id = ''r'', rs_robot_obs = None, rs_session_id = None, rs_reset = PNone,
     rs_carrier = c\<rparr>"

section \<open>Properties\<close>

text \<open>
  C18: A carrier crosses a stage boundary unharmed.  Packing the carrier of a request for a boundary and
  unpacking the payload on the next worker succeeds and gives back every scalar of the carrier and
  exactly the tensors declared for that boundary, each with its value.
\<close>

theorem carrier_crosses_boundary:
  assumes "value_preserving dev T" "rs_carrier st = Some c" "rs_request_id st \<noteq> []"
      and "transportable (c_reset_reason c)" "transportable (c_explicit_reset c)"
  shows "rbind (pack_stage_state T st b) (\<lambda>p. unpack_stage_state C dev p st2) =
     Inr (st2\<lparr>rs_carrier := Some (c\<lparr>c_explicit_reset := PBool (py_truthy (c_explicit_reset c)),
       c_tensors := c_tensors c |` set (PAYLOAD_TENSOR_FIELDS b)\<rparr>)\<rparr>)"
  using pack_packed [OF assms(2-5), of T b] unpack_packed [OF assms(1,3-5), of C b st2]
  by (simp add: at_boundary_def)

theorem carrier_crosses_boundary_witness:
  "rbind (pack_stage_state plain_torch (tiny_state (Some tiny_carrier)) ENCODE_TO_DIT)
     (\<lambda>p. unpack_stage_state native_conv (to_device tiny_ops) p (tiny_state None)) =
   Inr (tiny_state (Some (tiny_carrier\<lparr>c_tensors := (c_tensors tiny_carrier)(''video_out'' := None)\<rparr>)))"
  using carrier_crosses_boundary [OF value_preserving_tiny, of "tiny_state (Some tiny_carrier)" tiny_carrier
      ENCODE_TO_DIT native_conv "tiny_state None"]
  by (simp add: tiny_state_def tiny_carrier_def scalar_transportable PAYLOAD_TENSOR_FIELDS_def
      restrict_map_def fun_eq_iff)

text \<open>
  A denoise run advances the window by one block.  When the denoise phase returns a result, the
  session's start frame is one block further on than where it was (counting the first frame, which an
  empty window prefills first), the KV state is present, and the carrier differs only in the two result
  tensors.
\<close>

theorem denoise_advances_window:
  assumes "run_denoise_phase M c s kv = (Inr c2, s', kv')"
  shows "current_start_frame s' =
       (if current_start_frame s = 0 then 1 else current_start_frame s) + int (num_frame_per_block M) \<and>
     kv \<noteq> None \<and> kv' \<noteq> None \<and>
     (\<exists>v a. c2 = c\<lparr>c_tensors := (c_tensors c)(''video_out'' \<mapsto> v, ''action_out'' \<mapsto> a)\<rparr>)"
  using denoise_window [OF assms] denoise_tensors_only [OF assms] by blast

theorem denoise_advances_window_witness:
  "\<exists>c2 s' kv'. run_denoise_phase tiny_ops tiny_carrier
      (fresh_state\<lparr>current_start_frame := 3, st_ys := Some 7\<rparr>) (Some []) = (Inr c2, s', kv') \<and>
     current_start_frame s' = 4 \<and> kv' \<noteq> None"
proof -
  let ?s = "fresh_state\<lparr>current_start_frame := 3, st_ys := Some 7\<rparr> :: int DreamZeroState"
  have "isl (fst (run_denoise_phase tiny_ops tiny_carrier ?s (Some []))) = False" by code_simp
  then obtain c2 s' kv' where r: "run_denoise_phase tiny_ops tiny_carrier ?s (Some []) = (Inr c2, s', kv')"
    by (metis isl_def sum.collapse prod.collapse obj_sumE)
  from denoise_advances_window [OF r] r show ?thesis by (auto simp: tiny_ops_def)
qed

end
