(* ===== verification/Stage_Transition.thy ===== *)
theory Stage_Transition
  imports Stage_Payload
begin

text \<open>
  How a payload moves between stages: the generic transition processor
  (\<^verbatim>\<open>model_executor/stage_input_processors/diffusion.py\<close>) on the orchestrator side, and the
  runner's wrapping and extraction of payloads
  (\<^verbatim>\<open>_intermediate_output\<close> and \<^verbatim>\<open>_extract_incoming_payload\<close> of
  \<^verbatim>\<open>diffusion/worker/diffusion_model_runner.py\<close>).

  A value in a \<^verbatim>\<open>custom_output\<close> or \<^verbatim>\<open>extra\<close> dict is a live \<open>StagePayload\<close> or any other Python value,
  in particular the plain dict msgpack leaves of a payload that crossed processes.  The parameter
  \<open>conv\<close> is what the \<^verbatim>\<open>dict\<close> constructor does on non-dicts.
\<close>

section \<open>What the processor sees\<close>

datatype 't carried = Live "'t StagePayload" | Plain "'t pyval"

datatype 't custom_output = No_Output | Output_Dict "(string, 't carried) dict" | Other_Output

text \<open>An upstream output: a payload itself, an object with a \<^verbatim>\<open>custom_output\<close> attribute, a mapping
  (its \<^verbatim>\<open>"custom_output"\<close> entry if present, and all its entries), or anything else.\<close>

datatype 't source_output =
    Source_Payload "'t StagePayload"
  | Source_Object "'t custom_output"
  | Source_Mapping "'t custom_output option" "(string, 't carried) dict"
  | Source_Other

definition STAGE_PAYLOAD_OUTPUT_KEY :: string where
  "STAGE_PAYLOAD_OUTPUT_KEY = ''__diffusion_stage_payload__''"

definition STAGE_PAYLOAD_PROMPT_KEY :: string where
  "STAGE_PAYLOAD_PROMPT_KEY = ''diffusion_stage_payload''"

definition unwrap_stage_payload ::
  "('t pyval \<Rightarrow> 't transport_error + 't items) \<Rightarrow> 't source_output \<Rightarrow>
   't transport_error + 't carried option" where
  "unwrap_stage_payload conv src =
     (case src of
        Source_Payload p \<Rightarrow> Inr (Some (Live p))
      | _ \<Rightarrow>
          (let custom = (case src of
                 Source_Object co \<Rightarrow> co
               | Source_Mapping (Some co) d \<Rightarrow> co
               | Source_Mapping None d \<Rightarrow> Output_Dict d
               | _ \<Rightarrow> No_Output) in
           case custom of
             Output_Dict d \<Rightarrow>
               (case dict_get d STAGE_PAYLOAD_OUTPUT_KEY of
                  None \<Rightarrow> Inr None
                | Some (Live p) \<Rightarrow> Inr (Some (Live p))
                | Some (Plain PNone) \<Rightarrow> Inr None
                | Some (Plain (PMap c kvs)) \<Rightarrow> rbind (from_dict conv kvs) (\<lambda>p. Inr (Some (Live p)))
                | Some v \<Rightarrow> Inr (Some v))
           | _ \<Rightarrow> Inr None))"

section \<open>The downstream prompt\<close>

text \<open>The original prompt: a dict, a named tuple or an object (its fields), a list, or other.\<close>

datatype 't prompt_arg = Prompt_Fields "(string, 't pyval) dict" | Prompt_List "'t prompt_arg list" | Prompt_Other

record 't diffusion_prompt =
  dp_fields :: "(string, 't pyval) dict"
  dp_extra :: "(string, 't carried) dict"

definition PASSTHROUGH_KEYS :: "string list" where
  "PASSTHROUGH_KEYS = [''seed'', ''num_inference_steps'', ''guidance_scale'', ''negative_prompt'',
     ''session_id'', ''height'', ''width'']"

definition prompt_fields :: "'t prompt_arg \<Rightarrow> (string, 't pyval) dict option" where
  "prompt_fields pr =
     (let pr1 = (case pr of Prompt_List [] \<Rightarrow> Prompt_Fields [] | Prompt_List (x # _) \<Rightarrow> x | _ \<Rightarrow> pr) in
      case pr1 of Prompt_Fields d \<Rightarrow> Some d | _ \<Rightarrow> None)"

definition passthrough_prompt_fields ::
  "'t prompt_arg \<Rightarrow> (string, 't pyval) dict \<Rightarrow> (string, 't pyval) dict" where
  "passthrough_prompt_fields pr target =
     (case prompt_fields pr of
        None \<Rightarrow> target
      | Some d \<Rightarrow>
          foldl (\<lambda>tgt key. case dict_get d key of
                   Some v \<Rightarrow> if key \<in> set (dict_keys tgt) then tgt else dict_set key v tgt
                 | None \<Rightarrow> tgt) target PASSTHROUGH_KEYS)"

text \<open>
  Validation problems and a missing payload give \<open>Inr None\<close> (the orchestrator routes a terminal
  error); only rehydrating a malformed dict raises.
\<close>

definition transition_fields :: "'t StagePayload \<Rightarrow> (string, 't pyval) dict" where
  "transition_fields p =
     (let scalars = (case map_items (scalar_fields p) of None \<Rightarrow> [] | Some d \<Rightarrow> d);
          base = [(''prompt'', PStr [])] in
      case dict_get scalars (PStr ''session_id'') of
        None \<Rightarrow> base
      | Some v \<Rightarrow> if v = PNone then base else dict_set ''session_id'' v base)"

definition diffusion_stage_transition ::
  "('t pyval \<Rightarrow> 't transport_error + 't items) \<Rightarrow> 't source_output list \<Rightarrow> 't prompt_arg \<Rightarrow>
   't transport_error + 't diffusion_prompt option" where
  "diffusion_stage_transition conv source_outputs pr =
     (case source_outputs of
        [] \<Rightarrow> Inr None
      | src # _ \<Rightarrow>
          rbind (unwrap_stage_payload conv src) (\<lambda>found.
          case found of
            Some (Live p) \<Rightarrow>
              (case validate p of
                 Some e \<Rightarrow> Inr None
               | None \<Rightarrow> Inr (Some \<lparr>dp_fields = passthrough_prompt_fields pr (transition_fields p),
                                      dp_extra = [(STAGE_PAYLOAD_PROMPT_KEY, Live p)]\<rparr>))
          | _ \<Rightarrow> Inr None))"

section \<open>The runner's side\<close>

definition intermediate_output :: "'t StagePayload \<Rightarrow> 't custom_output" where
  "intermediate_output p = Output_Dict [(STAGE_PAYLOAD_OUTPUT_KEY, Live p)]"

text \<open>\<open>extra\<close> is \<^verbatim>\<open>prompt["extra"]\<close> or \<^verbatim>\<open>prompt.extra\<close> when that is a dict.\<close>

definition extract_incoming_payload ::
  "('t pyval \<Rightarrow> 't transport_error + 't items) \<Rightarrow> string \<Rightarrow> (string, 't carried) dict option \<Rightarrow>
   't transport_error + 't StagePayload" where
  "extract_incoming_payload conv rid extra =
     rbind (case Option.bind extra (\<lambda>d. dict_get d STAGE_PAYLOAD_PROMPT_KEY) of
              None \<Rightarrow> Inl (No_Payload rid)
            | Some (Plain PNone) \<Rightarrow> Inl (No_Payload rid)
            | Some (Plain (PMap c kvs)) \<Rightarrow> from_dict conv kvs
            | Some (Plain v) \<Rightarrow> Inl (Not_A_Payload rid)
            | Some (Live p) \<Rightarrow> Inr p)
       (\<lambda>p. case validate p of Some e \<Rightarrow> Inl e | None \<Rightarrow> Inr p)"

section \<open>Transport between processes\<close>

text \<open>
  A value in a dict arrives as it is (in-process client) or, when it is a payload, as the plain
  dict of its fields (out-of-process client).
\<close>

inductive arrives_as ::
  "('t pyval \<Rightarrow> 't transport_error + 't items) \<Rightarrow> 't carried \<Rightarrow> 't carried \<Rightarrow> bool" for conv where
  in_process: "arrives_as conv v v"
| flattened: "to_dict conv p = Inr d \<Longrightarrow> arrives_as conv (Live p) (Plain (PMap DICT_CLS d))"

inductive_cases arrives_LiveE: "arrives_as conv (Live p) v"
inductive_simps arrives_Live_iff: "arrives_as conv (Live p) v"

lemma unwrap_arrived:
  assumes "arrives_as conv (Live p) v" "canonical p"
  shows "unwrap_stage_payload conv' (Source_Object (Output_Dict [(STAGE_PAYLOAD_OUTPUT_KEY, v)])) =
     Inr (Some (Live p))"
  using assms(1)
proof (rule arrives_LiveE)
  assume "v = Live p"
  then show ?thesis by (simp add: unwrap_stage_payload_def Let_def)
next
  fix d assume v: "v = Plain (PMap DICT_CLS d)" and d: "to_dict conv p = Inr d"
  have "from_dict conv' d = Inr p" using from_dict_to_dict [OF assms(2), of conv conv'] d by simp
  with v show ?thesis by (simp add: unwrap_stage_payload_def Let_def)
qed

lemma extract_arrived:
  assumes "arrives_as conv (Live p) v" "canonical p" "validate p = None"
  shows "extract_incoming_payload conv' rid (Some [(STAGE_PAYLOAD_PROMPT_KEY, v)]) = Inr p"
  using assms(1)
proof (rule arrives_LiveE)
  assume "v = Live p"
  with assms(3) show ?thesis by (simp add: extract_incoming_payload_def)
next
  fix d assume v: "v = Plain (PMap DICT_CLS d)" and d: "to_dict conv p = Inr d"
  have "from_dict conv' d = Inr p" using from_dict_to_dict [OF assms(2), of conv conv'] d by simp
  with v assms(3) show ?thesis by (simp add: extract_incoming_payload_def)
qed

lemma transition_live:
  assumes "unwrap_stage_payload conv src = Inr (Some (Live p))" "validate p = None"
  shows "\<exists>fields. diffusion_stage_transition conv (src # srcs) pr =
     Inr (Some \<lparr>dp_fields = fields, dp_extra = [(STAGE_PAYLOAD_PROMPT_KEY, Live p)]\<rparr>)"
  using assms by (simp add: diffusion_stage_transition_def Let_def)

section \<open>A stage that produces payloads\<close>

text \<open>
  The contract of \<^verbatim>\<open>pack_stage_state\<close>: what it returns is a valid envelope of the requested boundary
  whose fields are plain dicts.  Under it, whatever the transport, the next stage extracts
  exactly the payload the previous one packed.
\<close>

locale payload_producer =
  fixes pack :: "'st \<Rightarrow> StageBoundary \<Rightarrow> 't transport_error + 't StagePayload"
  assumes pack_valid: "pack st b = Inr p \<Longrightarrow> validate p = None"
    and pack_boundary: "pack st b = Inr p \<Longrightarrow> boundary p = PBoundary b"
    and pack_canonical: "pack st b = Inr p \<Longrightarrow> canonical p"
begin

lemma handed_over:
  assumes "pack st b = Inr p"
      and "arrives_as c1 (Live p) v1"
      and "diffusion_stage_transition c2 [Source_Object (Output_Dict [(STAGE_PAYLOAD_OUTPUT_KEY, v1)])] pr = Inr (Some dp)"
      and "dp_extra dp = [(STAGE_PAYLOAD_PROMPT_KEY, w)]"
      and "arrives_as c3 w v2"
  shows "extract_incoming_payload c4 rid (Some [(STAGE_PAYLOAD_PROMPT_KEY, v2)]) = Inr p \<and>
         expect_boundary p b = None"
proof -
  have c: "canonical p" "validate p = None" "boundary p = PBoundary b"
    using assms(1) pack_canonical pack_valid pack_boundary by auto
  obtain fields where "diffusion_stage_transition c2
      [Source_Object (Output_Dict [(STAGE_PAYLOAD_OUTPUT_KEY, v1)])] pr =
      Inr (Some \<lparr>dp_fields = fields, dp_extra = [(STAGE_PAYLOAD_PROMPT_KEY, Live p)]\<rparr>)"
    using transition_live [OF unwrap_arrived [OF assms(2) c(1), of c2] c(2), of "[]" pr] by blast
  with assms(3,4) have "w = Live p" by auto
  with extract_arrived [OF _ c(1,2)] assms(5) c(3) show ?thesis by (simp add: expect_boundary_def)
qed

lemma never_refused:
  assumes "pack st b = Inr p" and "arrives_as c1 (Live p) v1"
  shows "\<exists>dp. diffusion_stage_transition c2 [Source_Object (Output_Dict [(STAGE_PAYLOAD_OUTPUT_KEY, v1)])] pr
      = Inr (Some dp) \<and> dp_extra dp = [(STAGE_PAYLOAD_PROMPT_KEY, Live p)]"
  using transition_live [OF unwrap_arrived [OF assms(2) pack_canonical [OF assms(1)], of c2]
      pack_valid [OF assms(1)], of "[]" pr] by fastforce

end

section \<open>Facts about the prompt\<close>

lemma passthrough_fold:
  "dict_get (foldl (\<lambda>tgt key. case dict_get d key of
       Some v \<Rightarrow> if key \<in> set (dict_keys tgt) then tgt else dict_set key v tgt | None \<Rightarrow> tgt) tgt keys) k =
   (case dict_get tgt k of Some v \<Rightarrow> Some v | None \<Rightarrow> if k \<in> set keys then dict_get d k else None)"
proof (induction keys arbitrary: tgt)
  case Nil
  show ?case by (simp split: option.split)
next
  case (Cons key keys)
  show ?case
  proof (cases "dict_get d key")
    case None
    then have "dict_get d k = None" if "k = key" using that by simp
    with None show ?thesis by (auto simp: Cons.IH split: option.split)
  next
    case (Some v)
    show ?thesis
    proof (cases "key \<in> set (dict_keys tgt)")
      case True
      then have "dict_get tgt key \<noteq> None" by (simp add: map_of_eq_None_iff)
      then have "dict_get tgt k \<noteq> None" if "k = key" using that by simp
      with Some True show ?thesis by (auto simp: Cons.IH split: option.split)
    next
      case False
      then have "dict_get tgt key = None" by (simp add: map_of_eq_None_iff)
      with Some False show ?thesis by (auto simp: Cons.IH dict_get_set split: option.split)
    qed
  qed
qed

lemma passthrough_get:
  "dict_get (passthrough_prompt_fields pr tgt) k =
     (case dict_get tgt k of
        Some v \<Rightarrow> Some v
      | None \<Rightarrow> if k \<in> set PASSTHROUGH_KEYS then Option.bind (prompt_fields pr) (\<lambda>d. dict_get d k) else None)"
  by (simp add: passthrough_prompt_fields_def passthrough_fold split: option.split)

lemma transition_cases:
  assumes "diffusion_stage_transition conv srcs pr = Inr (Some dp)"
  shows "\<exists>p. validate p = None \<and>
     dp = \<lparr>dp_fields = passthrough_prompt_fields pr (transition_fields p),
           dp_extra = [(STAGE_PAYLOAD_PROMPT_KEY, Live p)]\<rparr>"
proof (cases srcs)
  case (Cons src rest)
  with assms obtain found where f: "unwrap_stage_payload conv src = Inr found"
      "(case found of Some (Live p) \<Rightarrow> (case validate p of Some e \<Rightarrow> Inr None
          | None \<Rightarrow> Inr (Some \<lparr>dp_fields = passthrough_prompt_fields pr (transition_fields p),
                               dp_extra = [(STAGE_PAYLOAD_PROMPT_KEY, Live p)]\<rparr>))
        | _ \<Rightarrow> Inr None) = (Inr (Some dp) :: 'a transport_error + 'a diffusion_prompt option)"
    by (auto simp: diffusion_stage_transition_def rbind_Inr_iff)
  then show ?thesis by (auto split: option.splits carried.splits)
qed (use assms in \<open>simp add: diffusion_stage_transition_def\<close>)

definition prompt_field :: "'t prompt_arg \<Rightarrow> string \<Rightarrow> 't pyval option" where
  "prompt_field pr k = Option.bind (prompt_fields pr) (\<lambda>d. dict_get d k)"

definition payload_session :: "'t StagePayload \<Rightarrow> 't pyval option" where
  "payload_session p =
     (case Option.bind (map_items (scalar_fields p)) (\<lambda>d. dict_get d (PStr ''session_id'')) of
        Some PNone \<Rightarrow> None | v \<Rightarrow> v)"

lemma transition_fields_eq:
  "transition_fields p = (''prompt'', PStr []) #
     (case payload_session p of None \<Rightarrow> [] | Some v \<Rightarrow> [(''session_id'', v)])"
  by (auto simp: transition_fields_def payload_session_def Let_def split: option.split pyval.split)

section \<open>Properties\<close>


abbreviation no_conv :: "int pyval \<Rightarrow> int transport_error + int items" where
  "no_conv \<equiv> \<lambda>_. Inl (Raised TypeError)"

definition sample_dict :: "int items" where
  "sample_dict = (case to_dict no_conv sample_payload of Inr d \<Rightarrow> d | Inl e \<Rightarrow> [])"

lemma sample_facts:
  "canonical sample_payload" "to_dict no_conv sample_payload = Inr sample_dict"
  "validate sample_payload = None"
  by (simp_all add: sample_payload_def canonical_def is_boundary_def sample_dict_def to_dict_def
      dict_copy_def validate_def is_str_def builtin_class_def version_ok_def check_dict_def is_tensor_def
      TENSOR_CLS_def STAGE_PAYLOAD_SCHEMA_VERSION_def validate_transport_scalar.simps
      looks_non_transportable_def py_startswith_def py_endswith_def py_lower_def py_lower_char_def
      PROCESS_LOCAL_NAMES_def Let_def)


text \<open>
  The transition processor only ever forwards validated payloads; in the prompt it builds the
  session id of the payload takes precedence over the request's own, and the other
  request-level knobs (seed, steps, guidance, negative prompt, size) are passed through.
\<close>

theorem transition_prompt_sound:
  assumes "diffusion_stage_transition conv srcs pr = Inr (Some dp)"
  shows "\<exists>p. validate p = None \<and> dp_extra dp = [(STAGE_PAYLOAD_PROMPT_KEY, Live p)] \<and>
     dict_get (dp_fields dp) ''prompt'' = Some (PStr []) \<and>
     dict_get (dp_fields dp) ''session_id'' =
       (case payload_session p of Some v \<Rightarrow> Some v | None \<Rightarrow> prompt_field pr ''session_id'') \<and>
     list_all (\<lambda>k. dict_get (dp_fields dp) k = prompt_field pr k)
       [''seed'', ''num_inference_steps'', ''guidance_scale'', ''negative_prompt'', ''height'', ''width'']"
proof -
  from transition_cases [OF assms] obtain p where p: "validate p = None"
      "dp = \<lparr>dp_fields = passthrough_prompt_fields pr (transition_fields p),
             dp_extra = [(STAGE_PAYLOAD_PROMPT_KEY, Live p)]\<rparr>" by blast
  then show ?thesis
    by (intro exI [of _ p])
      (simp add: passthrough_get transition_fields_eq PASSTHROUGH_KEYS_def prompt_field_def
        split: option.split)
qed

theorem transition_prompt_sound_witness:
  "\<exists>p dp. diffusion_stage_transition no_conv [Source_Payload sample_payload]
       (Prompt_Fields [(''seed'', PInt 7), (''session_id'', PStr ''s'')]) = Inr (Some dp) \<and>
     validate p = None \<and> dp_extra dp = [(STAGE_PAYLOAD_PROMPT_KEY, Live p)] \<and>
     dict_get (dp_fields dp) ''prompt'' = Some (PStr []) \<and>
     dict_get (dp_fields dp) ''session_id'' =
       (case payload_session p of Some v \<Rightarrow> Some v
        | None \<Rightarrow> prompt_field (Prompt_Fields [(''seed'', PInt 7), (''session_id'', PStr ''s'')]) ''session_id'') \<and>
     list_all (\<lambda>k. dict_get (dp_fields dp) k =
         prompt_field (Prompt_Fields [(''seed'', PInt 7), (''session_id'', PStr ''s'')]) k)
       [''seed'', ''num_inference_steps'', ''guidance_scale'', ''negative_prompt'', ''height'', ''width'']"
proof -
  let ?pr = "Prompt_Fields [(''seed'', PInt 7), (''session_id'', PStr ''s'')] :: int prompt_arg"
  obtain dp where d: "diffusion_stage_transition no_conv [Source_Payload sample_payload] ?pr = Inr (Some dp)"
    using transition_live [OF _ sample_facts(3), of no_conv "Source_Payload sample_payload" "[]" ?pr]
    by (auto simp: unwrap_stage_payload_def)
  from transition_prompt_sound [OF d] d show ?thesis by blast
qed

end
