(* ===== verification/Stage_Runner.thy ===== *)
theory Stage_Runner
  imports DreamZero Stage_Transition Stage_Roles
begin

text \<open>
  The runner's disaggregated execution (\<^verbatim>\<open>diffusion/worker/diffusion_model_runner.py\<close>): role dispatch
  in \<^verbatim>\<open>execute_model\<close>, the encode, denoise and decode stage paths with their state cache, and the
  normalisation of what a pipeline's \<^verbatim>\<open>forward\<close> returns.

  The pipeline is the record \<open>pipeline_atoms\<close> of its atoms over its own mutable state \<open>'p\<close>; the last
  sections instantiate it with DreamZero and compare the three stages with the monolithic
  \<^verbatim>\<open>forward\<close>.  Profiling, memory statistics, random generators and the forward context are left out.
\<close>

section \<open>Runner and pipeline\<close>

record ('t, 'st, 'p, 'out) pipeline_atoms =
  disaggregated_capable :: bool
  at_init_state :: "'st \<Rightarrow> 'st"
  at_check_inputs :: "'st \<Rightarrow> 't transport_error + 'st"
  at_encode :: "'st \<Rightarrow> 'p \<Rightarrow> ('t transport_error + 'st) \<times> 'p"
  at_prepare :: "'st \<Rightarrow> 'st"
  at_diffuse :: "'st \<Rightarrow> 'p \<Rightarrow> ('t transport_error + 'st) \<times> 'p"
  at_decode :: "'st \<Rightarrow> 'st"
  at_postprocess :: "'st \<Rightarrow> 't transport_error + 'out option"
  at_pack :: "'st \<Rightarrow> StageBoundary \<Rightarrow> 't transport_error + 't StagePayload"
  at_unpack :: "'t StagePayload \<Rightarrow> 'st \<Rightarrow> 't transport_error + 'st"

record ('st, 'p) runner =
  pipeline :: 'p
  state_cache :: "(string, 'st) dict"

text \<open>What a stage path reads of a request: its id, the state built from it, and \<^verbatim>\<open>prompt.extra\<close>.\<close>

record ('t, 'st) stage_request =
  sr_id :: string
  sr_state :: 'st
  sr_extra :: "(string, 't carried) dict option"

definition require_disaggregated ::
  "('t, 'st, 'p, 'out) pipeline_atoms \<Rightarrow> 't transport_error option" where
  "require_disaggregated A = (if disaggregated_capable A then None else Some (Raised ValueError))"

definition execute_encode_stage ::
  "('t, 'st, 'p, 'out) pipeline_atoms \<Rightarrow> ('t, 'st) stage_request \<Rightarrow> ('st, 'p) runner \<Rightarrow>
   ('t transport_error + 't custom_output) \<times> ('st, 'p) runner" where
  "execute_encode_stage A req r =
     (case require_disaggregated A of
        Some e \<Rightarrow> (Inl e, r)
      | None \<Rightarrow>
          (let (res, p) =
             (case at_check_inputs A (at_init_state A (sr_state req)) of
                Inl e \<Rightarrow> (Inl e, pipeline r)
              | Inr st \<Rightarrow>
                  (case at_encode A st (pipeline r) of
                     (Inl e, p) \<Rightarrow> (Inl e, p)
                   | (Inr st1, p) \<Rightarrow> (at_pack A (at_prepare A st1) ENCODE_TO_DIT, p)));
             r1 = r\<lparr>pipeline := p, state_cache := dict_del (sr_id req) (state_cache r)\<rparr> in
           (rbind res (\<lambda>payload. Inr (intermediate_output payload)), r1)))"

text \<open>Extraction, the boundary check and unpacking come before the state enters the cache.\<close>

definition restore_incoming ::
  "('t, 'st, 'p, 'out) pipeline_atoms \<Rightarrow> ('t pyval \<Rightarrow> 't transport_error + 't items) \<Rightarrow>
   ('t, 'st) stage_request \<Rightarrow> StageBoundary \<Rightarrow> 't transport_error + 'st" where
  "restore_incoming A conv req b =
     rbind (extract_incoming_payload conv (sr_id req) (sr_extra req)) (\<lambda>payload.
       case expect_boundary payload b of
         Some e \<Rightarrow> Inl e
       | None \<Rightarrow> at_unpack A payload (sr_state req))"

definition execute_denoise_stage ::
  "('t, 'st, 'p, 'out) pipeline_atoms \<Rightarrow> ('t pyval \<Rightarrow> 't transport_error + 't items) \<Rightarrow>
   ('t, 'st) stage_request \<Rightarrow> ('st, 'p) runner \<Rightarrow>
   ('t transport_error + 't custom_output) \<times> ('st, 'p) runner" where
  "execute_denoise_stage A conv req r =
     (case require_disaggregated A of
        Some e \<Rightarrow> (Inl e, r)
      | None \<Rightarrow>
          (case restore_incoming A conv req ENCODE_TO_DIT of
             Inl e \<Rightarrow> (Inl e, r)
           | Inr st \<Rightarrow>
               (let cached = dict_set (sr_id req) st (state_cache r);
                    (res, p) = (case at_diffuse A st (pipeline r) of
                        (Inl e, p) \<Rightarrow> (Inl e, p)
                      | (Inr st1, p) \<Rightarrow> (at_pack A st1 DIT_TO_DECODE, p));
                    r1 = r\<lparr>pipeline := p, state_cache := dict_del (sr_id req) cached\<rparr> in
                (rbind res (\<lambda>payload. Inr (intermediate_output payload)), r1))))"

definition execute_decode_stage ::
  "('t, 'st, 'p, 'out) pipeline_atoms \<Rightarrow> ('t pyval \<Rightarrow> 't transport_error + 't items) \<Rightarrow>
   ('t, 'st) stage_request \<Rightarrow> ('st, 'p) runner \<Rightarrow> ('t transport_error + 'out) \<times> ('st, 'p) runner" where
  "execute_decode_stage A conv req r =
     (case require_disaggregated A of
        Some e \<Rightarrow> (Inl e, r)
      | None \<Rightarrow>
          (case restore_incoming A conv req DIT_TO_DECODE of
             Inl e \<Rightarrow> (Inl e, r)
           | Inr st \<Rightarrow>
               (let cached = dict_set (sr_id req) st (state_cache r);
                    r1 = r\<lparr>state_cache := dict_del (sr_id req) cached\<rparr> in
                (rbind (at_postprocess A (at_decode A st)) (\<lambda>out.
                   case out of None \<Rightarrow> Inl (Raised RuntimeError) | Some x \<Rightarrow> Inr x), r1))))"

text \<open>\<^verbatim>\<open>execute_model\<close>: the monolithic path is the parameter \<open>whole_forward\<close>; the model-defined hook raises.\<close>

datatype ('t, 'out) stage_result = Intermediate "'t custom_output" | Final 'out

definition execute_model ::
  "('t, 'st, 'p, 'out) pipeline_atoms \<Rightarrow> ('t pyval \<Rightarrow> 't transport_error + 't items) \<Rightarrow>
   (('t, 'st) stage_request \<Rightarrow> ('st, 'p) runner \<Rightarrow> ('t transport_error + 'out) \<times> ('st, 'p) runner) \<Rightarrow>
   string option \<Rightarrow> ('t, 'st) stage_request \<Rightarrow> ('st, 'p) runner \<Rightarrow>
   ('t transport_error + ('t, 'out) stage_result) \<times> ('st, 'p) runner" where
  "execute_model A conv whole_forward role req r =
     (let path = resolve_execution_path role in
      if path = EXECUTION_PATH_ENCODE then
        (case execute_encode_stage A req r of (x, r1) \<Rightarrow> (rbind x (\<lambda>o1. Inr (Intermediate o1)), r1))
      else if path = EXECUTION_PATH_DENOISE then
        (case execute_denoise_stage A conv req r of (x, r1) \<Rightarrow> (rbind x (\<lambda>o1. Inr (Intermediate o1)), r1))
      else if path = EXECUTION_PATH_DECODE then
        (case execute_decode_stage A conv req r of (x, r1) \<Rightarrow> (rbind x (\<lambda>o1. Inr (Final o1)), r1))
      else if path = EXECUTION_PATH_MODEL_DEFINED then (Inl (Raised ValueError), r)
      else (case whole_forward req r of (x, r1) \<Rightarrow> (rbind x (\<lambda>o1. Inr (Final o1)), r1)))"

section \<open>Normalising pipeline outputs\<close>

datatype 'out raw_output = Single_Output 'out | Output_List "'out option list" | Other_Value

text \<open>A list item that is no \<^verbatim>\<open>DiffusionOutput\<close> is \<open>None\<close>; every failure is a \<^verbatim>\<open>RuntimeError\<close>.\<close>

definition normalize_pipeline_outputs :: "nat \<Rightarrow> bool \<Rightarrow> 'out raw_output \<Rightarrow> py_exc + 'out list" where
  "normalize_pipeline_outputs expected_count allow_single raw =
     (case raw of
        Single_Output x \<Rightarrow> if allow_single \<and> expected_count = 1 then Inr [x] else Inl RuntimeError
      | Other_Value \<Rightarrow> Inl RuntimeError
      | Output_List xs \<Rightarrow>
          if length xs \<noteq> expected_count then Inl RuntimeError
          else if None \<in> set xs then Inl RuntimeError
          else Inr (map the xs))"

section \<open>State cache\<close>

lemma dict_set_del_absent: "k \<notin> set (dict_keys d) \<Longrightarrow> dict_del k (dict_set k v d) = d"
  by (induction d) auto

lemmas path_names = EXECUTION_PATH_MONOLITHIC_def EXECUTION_PATH_ENCODE_def EXECUTION_PATH_DENOISE_def
  EXECUTION_PATH_DECODE_def EXECUTION_PATH_MODEL_DEFINED_def

lemma path_values: "resolve_execution_path role \<in> {EXECUTION_PATH_MONOLITHIC, EXECUTION_PATH_ENCODE,
    EXECUTION_PATH_DENOISE, EXECUTION_PATH_DECODE, EXECUTION_PATH_MODEL_DEFINED}"
  by (simp add: resolve_execution_path_def Let_def)

lemma stage_cache:
  assumes "sr_id req \<notin> set (dict_keys (state_cache r))"
  shows "state_cache (snd (execute_encode_stage A req r)) = state_cache r"
    and "state_cache (snd (execute_denoise_stage A conv req r)) = state_cache r"
    and "state_cache (snd (execute_decode_stage A conv req r)) = state_cache r"
  using dict_del_fresh [of "state_cache r" "sr_id req"] dict_set_del_absent [OF assms] assms
  by (auto simp: execute_encode_stage_def execute_denoise_stage_def execute_decode_stage_def Let_def
      split: option.splits prod.splits sum.splits)

section \<open>Three stages in a row\<close>

text \<open>
  The orchestrator's step from one stage to the next: the custom output arrives through \<open>hop\<close>, the
  transition processor builds the next prompt (\<open>None\<close> becomes a terminal error), and the
  prompt's \<^verbatim>\<open>extra\<close> travels through \<open>hop\<close> to the next worker.
\<close>

definition forward_output ::
  "('t pyval \<Rightarrow> 't transport_error + 't items) \<Rightarrow> ('t carried \<Rightarrow> 't carried) \<Rightarrow> 't prompt_arg \<Rightarrow>
   't custom_output \<Rightarrow> 't transport_error + (string, 't carried) dict" where
  "forward_output conv hop pr co =
     (let sent = (case co of Output_Dict d \<Rightarrow> Output_Dict (map (\<lambda>(k, v). (k, hop v)) d) | _ \<Rightarrow> co) in
      rbind (diffusion_stage_transition conv [Source_Object sent] pr) (\<lambda>x.
        case x of None \<Rightarrow> Inl (Raised RuntimeError)
        | Some dp \<Rightarrow> Inr (map (\<lambda>(k, v). (k, hop v)) (dp_extra dp))))"

definition run_three_stages ::
  "('t, 'st, 'p, 'out) pipeline_atoms \<Rightarrow> ('t pyval \<Rightarrow> 't transport_error + 't items) \<Rightarrow>
   ('t carried \<Rightarrow> 't carried) \<Rightarrow> 't prompt_arg \<Rightarrow> ('t, 'st) stage_request \<Rightarrow>
   ('st, 'p) runner \<Rightarrow> ('st, 'p) runner \<Rightarrow> ('st, 'p) runner \<Rightarrow>
   ('t transport_error + 'out) \<times> ('st, 'p) runner \<times> ('st, 'p) runner \<times> ('st, 'p) runner" where
  "run_three_stages A conv hop pr req re rd rc =
     (case execute_encode_stage A req re of
        (Inl e, re1) \<Rightarrow> (Inl e, re1, rd, rc)
      | (Inr co, re1) \<Rightarrow>
     (case forward_output conv hop pr co of
        Inl e \<Rightarrow> (Inl e, re1, rd, rc)
      | Inr extra \<Rightarrow>
     (case execute_denoise_stage A conv (req\<lparr>sr_extra := Some extra\<rparr>) rd of
        (Inl e, rd1) \<Rightarrow> (Inl e, re1, rd1, rc)
      | (Inr co1, rd1) \<Rightarrow>
     (case forward_output conv hop pr co1 of
        Inl e \<Rightarrow> (Inl e, re1, rd1, rc)
      | Inr extra1 \<Rightarrow>
     (case execute_decode_stage A conv (req\<lparr>sr_extra := Some extra1\<rparr>) rc of
        (res, rc1) \<Rightarrow> (res, re1, rd1, rc1))))))"

section \<open>The DreamZero pipeline as a stage pipeline\<close>

definition dreamzero_atoms ::
  "('t, 'o, 'kv, 's) dz_ops \<Rightarrow> ('t, 'd) torch_ops \<Rightarrow> 't py_conv \<Rightarrow>
   ('t, ('t, 'o) request_state, ('t, 'kv) dz_pipeline, 't dz_output) pipeline_atoms" where
  "dreamzero_atoms M T C =
     \<lparr>disaggregated_capable = True, at_init_state = init_state, at_check_inputs = check_inputs,
      at_encode = encode_atom M, at_prepare = prepare, at_diffuse = diffuse M,
      at_decode = decode_atom, at_postprocess = (\<lambda>st. rbind (postprocess M st) (\<lambda>out. Inr (Some out))),
      at_pack = pack_stage_state T, at_unpack = unpack_stage_state C (to_device M)\<rparr>"

lemma create_canonical:
  assumes "create T rid (PBoundary b) sc ts psc pts san True = Inr p"
  shows "validate p = None \<and> boundary p = PBoundary b \<and> canonical p"
  using assms
  by (auto simp: create_def Let_def rbind_Inr_iff canonical_def is_boundary_def split: option.splits)

lemma pack_create:
  assumes "pack_stage_state T st b = Inr p"
  shows "validate p = None \<and> boundary p = PBoundary b \<and> canonical p"
  using assms by (auto simp: pack_stage_state_def dest: create_canonical split: option.splits)

interpretation dz_payloads: payload_producer "pack_stage_state T" for T
  by unfold_locales (use pack_create in blast)+

lemma handoff:
  assumes p: "pack_stage_state T st b = Inr p" and hop: "\<And>v. arrives_as conv v (hop v)"
  shows "\<exists>x. forward_output conv hop pr (intermediate_output p) = Inr x \<and>
     extract_incoming_payload conv rid (Some x) = Inr p \<and> expect_boundary p b = None"
proof -
  obtain dp where dp: "diffusion_stage_transition conv
      [Source_Object (Output_Dict [(STAGE_PAYLOAD_OUTPUT_KEY, hop (Live p))])] pr = Inr (Some dp)"
      "dp_extra dp = [(STAGE_PAYLOAD_PROMPT_KEY, Live p)]"
    using dz_payloads.never_refused [OF p hop] by blast
  from dz_payloads.handed_over [OF p hop dp hop] dp show ?thesis
    by (simp add: forward_output_def intermediate_output_def)
qed

lemma restore_handoff:
  assumes "extract_incoming_payload conv (sr_id req) (Some x) = Inr p" "expect_boundary p b = None"
  shows "restore_incoming (dreamzero_atoms M T C) conv (req\<lparr>sr_extra := Some x\<rparr>) b =
     unpack_stage_state C (to_device M) p (sr_state req)"
  using assms by (simp add: restore_incoming_def dreamzero_atoms_def)

definition request_state_of :: "('t, 'o) dz_request \<Rightarrow> ('t, 'o) request_state" where
  "request_state_of rq = \<lparr>rs_request_id = rq_id rq, rs_robot_obs = rq_robot_obs rq,
     rs_session_id = rq_session_id rq, rs_reset = rq_reset rq, rs_carrier = None\<rparr>"

definition stage_request_of :: "('t, 'o) dz_request \<Rightarrow> ('t, ('t, 'o) request_state) stage_request" where
  "stage_request_of rq = \<lparr>sr_id = rq_id rq, sr_state = request_state_of rq, sr_extra = None\<rparr>"

text \<open>The workers agree with the monolithic worker about the session before the request.\<close>

definition workers_in_sync ::
  "string \<Rightarrow> ('t, 'kv) dz_pipeline \<Rightarrow> ('t, 'kv) dz_pipeline \<Rightarrow> ('t, 'kv) dz_pipeline \<Rightarrow> bool" where
  "workers_in_sync sid enc den whole \<longleftrightarrow>
     fst (acquire_state sid enc) = fst (acquire_state sid whole) \<and>
     negative_cache enc = negative_cache whole \<and>
     ar_kv enc = None \<and> ar_kv den = ar_kv whole \<and> ar_kv whole \<noteq> None"

lemma encode_stage_result:
  assumes enc: "run_encode_phase M obs sid (PBool b) s (negative_cache pe) (ar_kv pe) = (r, s1, neg, kv)"
      and acq: "fst (acquire_state sid pe) = s"
      and rq: "rq_robot_obs rq = Some obs" "rq_session_id rq = Some sid" "sid \<noteq> []"
              "rq_reset rq = PBool b" "rq_id rq \<noteq> []"
  shows "case r of
      Inl e \<Rightarrow> fst (execute_encode_stage (dreamzero_atoms M T C) (stage_request_of rq) (ru\<lparr>pipeline := pe\<rparr>))
                = Inl (Raised e)
    | Inr c \<Rightarrow>
         pack_stage_state T ((request_state_of rq)\<lparr>rs_carrier := Some c\<rparr>) ENCODE_TO_DIT
                = Inr (packed T (rq_id rq) ENCODE_TO_DIT c) \<and>
         fst (execute_encode_stage (dreamzero_atoms M T C) (stage_request_of rq) (ru\<lparr>pipeline := pe\<rparr>))
                = Inr (intermediate_output (packed T (rq_id rq) ENCODE_TO_DIT c))"
proof -
  obtain pe1 where a: "acquire_state sid pe = (s, pe1)" using acq by (metis fst_conv prod.collapse)
  then have pe1: "negative_cache pe1 = negative_cache pe" "ar_kv pe1 = ar_kv pe"
    by (auto simp: acquire_state_def split: prod.splits)
  let ?st = "request_state_of rq"
  have e: "encode_atom M ?st pe = (case r of
      Inl e \<Rightarrow> (Inl (Raised e), store_state sid s1 (pe1\<lparr>negative_cache := neg, ar_kv := kv\<rparr>))
    | Inr c \<Rightarrow> (Inr (?st\<lparr>rs_carrier := Some c\<rparr>), store_state sid s1 (pe1\<lparr>negative_cache := neg, ar_kv := kv\<rparr>)))"
    using rq a enc pe1
    by (simp add: encode_atom_def request_state_of_def encode_session_id_def split: sum.split)
  have pre: "at_check_inputs (dreamzero_atoms M T C) (at_init_state (dreamzero_atoms M T C) ?st) = Inr ?st"
    using rq by (simp add: dreamzero_atoms_def check_inputs_def init_state_def request_state_of_def)
  show ?thesis
  proof (cases r)
    case (Inl x)
    with e pre show ?thesis
      by (simp add: execute_encode_stage_def require_disaggregated_def stage_request_of_def dreamzero_atoms_def)
  next
    case (Inr c)
    have "transportable (c_reset_reason c)" "transportable (c_explicit_reset c)"
      using run_encode_facts [of M obs sid "PBool b" s "negative_cache pe" "ar_kv pe" c s1 neg kv] enc Inr
      by (auto simp: scalar_transportable)
    then have "pack_stage_state T (?st\<lparr>rs_carrier := Some c\<rparr>) ENCODE_TO_DIT = Inr (packed T (rq_id rq) ENCODE_TO_DIT c)"
      using pack_packed [of "?st\<lparr>rs_carrier := Some c\<rparr>" c T ENCODE_TO_DIT] rq
      by (simp add: request_state_of_def)
    moreover from this e pre Inr
    have "fst (execute_encode_stage (dreamzero_atoms M T C) (stage_request_of rq) (ru\<lparr>pipeline := pe\<rparr>))
        = Inr (intermediate_output (packed T (rq_id rq) ENCODE_TO_DIT c))"
      by (simp add: execute_encode_stage_def require_disaggregated_def stage_request_of_def
          dreamzero_atoms_def prepare_def)
    ultimately show ?thesis
      using Inr by simp
  qed
qed

lemma denoise_stage_result:
  assumes enc: "run_encode_phase M obs sid (PBool b) s neg (Some kv) = (Inr c, s1, neg1, kv1)"
      and den: "run_denoise_phase M c s1 kv1 = (r, s2, kv2)"
      and kv: "ar_kv (pipeline rd) = Some kv"
      and vp: "value_preserving (to_device M) T" and id: "rq_id rq \<noteq> []"
      and ex: "extract_incoming_payload conv (rq_id rq) (Some x) = Inr (packed T (rq_id rq) ENCODE_TO_DIT c)"
              "expect_boundary (packed T (rq_id rq) ENCODE_TO_DIT c) ENCODE_TO_DIT = None"
  shows "ar_kv (pipeline (snd (execute_denoise_stage (dreamzero_atoms M T C) conv
            ((stage_request_of rq)\<lparr>sr_extra := Some x\<rparr>) rd))) = kv2 \<and>
    (case r of
      Inl e \<Rightarrow> fst (execute_denoise_stage (dreamzero_atoms M T C) conv
                 ((stage_request_of rq)\<lparr>sr_extra := Some x\<rparr>) rd) = Inl (Raised e)
    | Inr c2 \<Rightarrow> pack_stage_state T ((request_state_of rq)\<lparr>rs_carrier := Some c2\<rparr>) DIT_TO_DECODE
                  = Inr (packed T (rq_id rq) DIT_TO_DECODE c2) \<and>
        fst (execute_denoise_stage (dreamzero_atoms M T C) conv
               ((stage_request_of rq)\<lparr>sr_extra := Some x\<rparr>) rd)
          = Inr (intermediate_output (packed T (rq_id rq) DIT_TO_DECODE c2)))"
proof -
  let ?st = "(request_state_of rq)\<lparr>rs_carrier := Some c\<rparr>"
  have f: "carrier_of_state c s1" "c_explicit_reset c = PBool b"
      "transportable (c_reset_reason c)" "transportable (c_explicit_reset c)"
    using run_encode_facts [OF enc] by (auto simp: scalar_transportable)
  have "restore_incoming (dreamzero_atoms M T C) conv ((stage_request_of rq)\<lparr>sr_extra := Some x\<rparr>) ENCODE_TO_DIT
      = unpack_stage_state C (to_device M) (packed T (rq_id rq) ENCODE_TO_DIT c) (request_state_of rq)"
    using restore_handoff [where req = "stage_request_of rq" and T = T and M = M and C = C, of conv] ex
    by (simp add: stage_request_of_def)
  also have "\<dots> = Inr ?st"
    using unpack_packed [OF vp id f(3,4), of C ENCODE_TO_DIT "request_state_of rq"]
      at_boundary_encode [OF f(1,2)] by simp
  finally have res: "restore_incoming (dreamzero_atoms M T C) conv
      ((stage_request_of rq)\<lparr>sr_extra := Some x\<rparr>) ENCODE_TO_DIT = Inr ?st" .
  have d: "fst (diffuse M ?st (pipeline rd)) = (case r of Inl e \<Rightarrow> Inl (Raised e)
        | Inr c2 \<Rightarrow> Inr (?st\<lparr>rs_carrier := Some c2\<rparr>))"
      "ar_kv (snd (diffuse M ?st (pipeline rd))) = kv2"
    using diffuse_matches [OF enc _ kv den, of ?st] by auto
  obtain dres pd where dp: "diffuse M ?st (pipeline rd) = (dres, pd)" by fastforce
  show ?thesis
  proof (cases r)
    case (Inl e)
    with res d dp show ?thesis
      by (simp add: execute_denoise_stage_def require_disaggregated_def dreamzero_atoms_def)
  next
    case (Inr c2)
    have c2: "c_reset_reason c2 = c_reset_reason c" "c_explicit_reset c2 = c_explicit_reset c"
      using denoise_tensors_only [of M c s1 kv1 c2 s2 kv2] den Inr by auto
    have pk: "pack_stage_state T ((request_state_of rq)\<lparr>rs_carrier := Some c2\<rparr>) DIT_TO_DECODE
        = Inr (packed T (rq_id rq) DIT_TO_DECODE c2)"
      using pack_packed [of "(request_state_of rq)\<lparr>rs_carrier := Some c2\<rparr>" c2 T DIT_TO_DECODE] id f c2
      by (simp add: request_state_of_def)
    with res d dp Inr show ?thesis
      by (simp add: execute_denoise_stage_def require_disaggregated_def dreamzero_atoms_def)
  qed
qed

lemma decode_stage_result:
  assumes vp: "value_preserving (to_device M) T" and id: "rq_id rq \<noteq> []"
      and tr: "transportable (c_reset_reason c)" "transportable (c_explicit_reset c)"
      and ex: "extract_incoming_payload conv (rq_id rq) (Some x) = Inr (packed T (rq_id rq) DIT_TO_DECODE c)"
              "expect_boundary (packed T (rq_id rq) DIT_TO_DECODE c) DIT_TO_DECODE = None"
  shows "fst (execute_decode_stage (dreamzero_atoms M T C) conv
            ((stage_request_of rq)\<lparr>sr_extra := Some x\<rparr>) rc) =
         (case run_decode_phase M c of Inl e \<Rightarrow> Inl (Raised e) | Inr out \<Rightarrow> Inr out)"
proof -
  have "restore_incoming (dreamzero_atoms M T C) conv ((stage_request_of rq)\<lparr>sr_extra := Some x\<rparr>) DIT_TO_DECODE
      = Inr ((request_state_of rq)\<lparr>rs_carrier := Some (at_boundary DIT_TO_DECODE c)\<rparr>)"
    using restore_handoff [where req = "stage_request_of rq" and T = T and M = M and C = C, of conv] ex
      unpack_packed [OF vp id tr, of C DIT_TO_DECODE "request_state_of rq"]
    by (simp add: stage_request_of_def)
  then show ?thesis
    by (simp add: execute_decode_stage_def require_disaggregated_def dreamzero_atoms_def postprocess_def
        decode_atom_def decode_at_boundary Let_def split: sum.split)
qed

lemma runner_same: "ru\<lparr>pipeline := pipeline ru\<rparr> = ru"
  by (cases ru) simp

lemma acquire_fields:
  "acquire_state sid p = (s, p1) \<Longrightarrow> negative_cache p1 = negative_cache p \<and> ar_kv p1 = ar_kv p"
  by (auto simp: acquire_state_def split: prod.splits)

lemma store_state_kv [simp]: "ar_kv (store_state sid s p) = ar_kv p"
  by (simp add: store_state_def)

lemma stages_equal_forward:
  assumes vp: "value_preserving (to_device M) T" and hop: "\<And>v. arrives_as conv v (hop v)"
      and rq: "rq_robot_obs rq = Some obs" "rq_session_id rq = Some sid" "sid \<noteq> []"
              "rq_reset rq = PBool b" "rq_id rq \<noteq> []"
      and sync: "workers_in_sync sid (pipeline re) (pipeline rd) whole"
      and run: "run_three_stages (dreamzero_atoms M T C) conv hop pr (stage_request_of rq) re rd rc
                  = (res, re1, rd1, rc1)"
      and fwd: "forward M rq whole = (out, whole1)"
  shows "res = (case out of Inl e \<Rightarrow> Inl (Raised e) | Inr y \<Rightarrow> Inr y) \<and>
         (case out of Inl e \<Rightarrow> True | Inr y \<Rightarrow> ar_kv (pipeline rd1) = ar_kv whole1)"
proof -
  let ?A = "dreamzero_atoms M T C" and ?req = "stage_request_of rq"
  obtain s w1 where aw: "acquire_state sid whole = (s, w1)" by fastforce
  have ae: "fst (acquire_state sid (pipeline re)) = s"
    using sync aw by (simp add: workers_in_sync_def)
  obtain kv where kv: "ar_kv whole = Some kv" "ar_kv (pipeline rd) = Some kv"
    using sync by (auto simp: workers_in_sync_def)
  have n: "negative_cache (pipeline re) = negative_cache whole" "ar_kv (pipeline re) = None"
    using sync by (simp_all add: workers_in_sync_def)
  obtain r s1 neg k0 where e0: "run_encode_phase M obs sid (PBool b) s (negative_cache whole) None
      = (r, s1, neg, k0)" by (metis prod_cases4)
  from run_encode_kv [OF e0, of "Some kv"] obtain kv1 where
    e1: "run_encode_phase M obs sid (PBool b) s (negative_cache whole) (Some kv) = (r, s1, neg, kv1)"
    by blast
  have enc: "case r of Inl e \<Rightarrow> fst (execute_encode_stage ?A ?req re) = Inl (Raised e)
    | Inr c \<Rightarrow> pack_stage_state T ((request_state_of rq)\<lparr>rs_carrier := Some c\<rparr>) ENCODE_TO_DIT
                = Inr (packed T (rq_id rq) ENCODE_TO_DIT c) \<and>
         fst (execute_encode_stage ?A ?req re) = Inr (intermediate_output (packed T (rq_id rq) ENCODE_TO_DIT c))"
    by (rule encode_stage_result [of M obs sid b s "pipeline re" r s1 neg k0 rq T C re, unfolded runner_same])
      (use e0 n ae rq in simp_all)
  obtain x1 ra where xe: "execute_encode_stage ?A ?req re = (x1, ra)" by fastforce
  show ?thesis
  proof (cases r)
    case (Inl e)
    then have "out = Inl e" using fwd rq aw e1 kv acquire_fields [OF aw]
      by (auto simp: forward_def session_key_def)
    with enc xe run Inl show ?thesis by (simp add: run_three_stages_def)
  next
    case (Inr c)
    let ?p = "packed T (rq_id rq) ENCODE_TO_DIT c"
    have x1: "x1 = Inr (intermediate_output ?p)" and pk: "pack_stage_state T
        ((request_state_of rq)\<lparr>rs_carrier := Some c\<rparr>) ENCODE_TO_DIT = Inr ?p"
      using enc xe Inr by auto
    from handoff [OF pk, of conv hop pr "rq_id rq", OF hop] obtain x where
      x: "forward_output conv hop pr (intermediate_output ?p) = Inr x"
        "extract_incoming_payload conv (rq_id rq) (Some x) = Inr ?p"
        "expect_boundary ?p ENCODE_TO_DIT = None" by blast
    obtain r2 s2 kv2 where den: "run_denoise_phase M c s1 kv1 = (r2, s2, kv2)" by (metis prod_cases3)
    note ds = denoise_stage_result [OF e1 [unfolded Inr] den kv(2) vp rq(5) x(2,3), of C]
    obtain x2 rb where xd: "execute_denoise_stage ?A conv (?req\<lparr>sr_extra := Some x\<rparr>) rd = (x2, rb)" by fastforce
    show ?thesis
    proof (cases r2)
      case (Inl e)
      then have "out = Inl e" using fwd rq aw e1 kv acquire_fields [OF aw] Inr den
        by (auto simp: forward_def session_key_def)
      with ds xe x1 x(1) xd run Inl show ?thesis by (simp add: run_three_stages_def)
    next
      case c2: (Inr c2)
      have fw: "out = run_decode_phase M c2" "ar_kv whole1 = kv2"
        using fwd rq aw e1 kv acquire_fields [OF aw] Inr den c2
        by (auto simp: forward_def session_key_def)
      let ?p2 = "packed T (rq_id rq) DIT_TO_DECODE c2"
      have x2: "x2 = Inr (intermediate_output ?p2)" "ar_kv (pipeline rb) = kv2"
        and pk2: "pack_stage_state T ((request_state_of rq)\<lparr>rs_carrier := Some c2\<rparr>) DIT_TO_DECODE = Inr ?p2"
        using ds xd c2 by auto
      from handoff [OF pk2, of conv hop pr "rq_id rq", OF hop] obtain y where
        y: "forward_output conv hop pr (intermediate_output ?p2) = Inr y"
          "extract_incoming_payload conv (rq_id rq) (Some y) = Inr ?p2"
          "expect_boundary ?p2 DIT_TO_DECODE = None" by blast
      have tr: "transportable (c_reset_reason c2)" "transportable (c_explicit_reset c2)"
        using denoise_tensors_only [of M c s1 kv1 c2 s2 kv2] den c2 run_encode_facts [OF e1 [unfolded Inr]]
        by (auto simp: scalar_transportable)
      note dc = decode_stage_result [OF vp rq(5) tr y(2,3), of C rc]
      obtain x3 rc' where xc: "execute_decode_stage ?A conv (?req\<lparr>sr_extra := Some y\<rparr>) rc = (x3, rc')" by fastforce
      from run xe x1 x(1) xd x2 y(1) xc have "res = x3" "rd1 = rb" by (simp_all add: run_three_stages_def)
      with dc xc fw x2(2) show ?thesis by (simp split: sum.split)
    qed
  qed
qed

section \<open>The window position on the encode worker\<close>

lemma set_evict: "set (evict n d) \<subseteq> set d"
  by (simp add: evict_lastn set_lastn)

lemma set_dict_set: "set (dict_set k v d) \<subseteq> insert (k, v) (set d)"
  by (induction d) auto

lemma set_dict_del: "set (dict_del k d) \<subseteq> set d"
  by (induction d) auto

lemma set_move_to_end: "set (move_to_end k d) \<subseteq> set d"
  using set_dict_del [of k d] by (auto simp: move_to_end_def dest: map_of_SomeD split: option.splits)

definition window_zero :: "('t, 'kv) dz_pipeline \<Rightarrow> bool" where
  "window_zero p \<longleftrightarrow> (\<forall>(k, s) \<in> set (dz_states p). current_start_frame s = 0)"

lemma window_zeroI: "(\<And>k s. (k, s) \<in> set (dz_states p) \<Longrightarrow> current_start_frame s = 0) \<Longrightarrow> window_zero p"
  by (auto simp: window_zero_def)

lemma window_zeroD: "window_zero p \<Longrightarrow> (k, s) \<in> set (dz_states p) \<Longrightarrow> current_start_frame s = 0"
  by (auto simp: window_zero_def)

lemma fresh_csf: "current_start_frame fresh_state = 0"
  by (simp add: fresh_state_def)

lemma acquire_window_zero:
  assumes "window_zero p" "acquire_state sid p = (s, p1)"
  shows "current_start_frame s = 0 \<and> window_zero p1"
proof (cases "dict_get (dz_states p) (session_key (Some sid))")
  case None
  then have s: "s = fresh_state" and p1: "dz_states p1 =
      evict MAX_DREAMZERO_SESSIONS (dict_set (session_key (Some sid)) fresh_state (dz_states p))"
    using assms(2) by (auto simp: acquire_state_def get_or_create_state_def Let_def)
  have "current_start_frame u = 0" if "(k, u) \<in> set (dz_states p1)" for k u
  proof -
    have "(k, u) \<in> insert (session_key (Some sid), fresh_state) (set (dz_states p))"
      using that set_evict [THEN subsetD] set_dict_set [THEN subsetD] unfolding p1 by fast
    then show ?thesis using fresh_csf window_zeroD [OF assms(1)] by auto
  qed
  with s show ?thesis by (auto simp: fresh_csf intro: window_zeroI)
next
  case (Some t)
  then have s: "s = t" and p1: "dz_states p1 = move_to_end (session_key (Some sid)) (dz_states p)"
    using assms(2) by (auto simp: acquire_state_def get_or_create_state_def Let_def)
  have "current_start_frame u = 0" if "(k, u) \<in> set (dz_states p1)" for k u
    using that set_move_to_end [THEN subsetD] window_zeroD [OF assms(1)] unfolding p1 by fast
  moreover have "current_start_frame t = 0"
    using Some window_zeroD [OF assms(1)] by (blast dest: map_of_SomeD)
  ultimately show ?thesis using s by (auto intro: window_zeroI)
qed

lemma store_window_zero:
  assumes "window_zero p" "current_start_frame s = 0"
  shows "window_zero (store_state sid s (p\<lparr>negative_cache := n, ar_kv := k\<rparr>))"
  using assms set_dict_set [of "session_key (Some sid)" s "dz_states p"]
  by (auto simp: store_state_def window_zero_def change_state_def split: option.splits)

lemma run_encode_csf:
  assumes "current_start_frame s = 0" "run_encode_phase M obs sid explicit s neg kv = (r, s1, n1, k1)"
  shows "current_start_frame s1 = 0 \<and> (case r of Inl e \<Rightarrow> True | Inr c \<Rightarrow> c_current_start_frame c = 0)"
proof -
  have a: "current_start_frame s2 = 0" if "apply_model_local_reset M reason s kv = (s2, k)" for reason s2 k
    using apply_reset_csf [OF that] assms(1) by auto
  have c: "current_start_frame (cache_prompt M tok t) = current_start_frame t" for tok t
    by (simp add: cache_prompt_def split: option.split)
  show ?thesis
    using assms
    by (auto simp: run_encode_phase_def Let_def carrier_of_state_def c
        dest!: finish_encode_facts accumulate_csf a split: sum.splits option.splits prod.splits)
qed

fun encode_requests ::
  "('t, 'o, 'kv, 's) dz_ops \<Rightarrow> ('t, 'o) request_state list \<Rightarrow> ('t, 'kv) dz_pipeline \<Rightarrow>
   ('t transport_error + ('t, 'o) request_state) list" where
  "encode_requests M [] p = []"
| "encode_requests M (st # sts) p =
     (case encode_atom M st p of (r, p1) \<Rightarrow> r # encode_requests M sts p1)"

definition carrier_at_zero :: "('t transport_error + ('t, 'o) request_state) \<Rightarrow> bool" where
  "carrier_at_zero r = (case r of Inl e \<Rightarrow> True
     | Inr st \<Rightarrow> (case rs_carrier st of None \<Rightarrow> False | Some c \<Rightarrow> c_current_start_frame c = 0))"

lemma encode_atom_window_zero:
  assumes "window_zero p"
  shows "carrier_at_zero (fst (encode_atom M st p)) \<and> window_zero (snd (encode_atom M st p))"
proof (cases "rs_robot_obs st")
  case None
  with assms show ?thesis by (simp add: encode_atom_def carrier_at_zero_def)
next
  case (Some obs)
  obtain s p1 where a: "acquire_state (encode_session_id st) p = (s, p1)" by fastforce
  obtain r s1 n k where e: "run_encode_phase M obs (encode_session_id st) (PBool (py_truthy (rs_reset st))) s
      (negative_cache p1) (ar_kv p1) = (r, s1, n, k)" by (metis prod_cases4)
  from acquire_window_zero [OF assms a] run_encode_csf [OF _ e] have
    z: "current_start_frame s1 = 0" "window_zero p1"
       "case r of Inl e \<Rightarrow> True | Inr c \<Rightarrow> c_current_start_frame c = 0" by auto
  with Some a e store_window_zero [OF z(2,1)] show ?thesis
    by (cases r) (auto simp: encode_atom_def carrier_at_zero_def)
qed

lemma encode_requests_window_zero:
  "window_zero p \<Longrightarrow> list_all carrier_at_zero (encode_requests M sts p)"
proof (induction sts arbitrary: p)
  case (Cons st sts)
  with encode_atom_window_zero [OF Cons.prems, of M st] show ?case by (auto split: prod.splits)
qed simp

section \<open>A concrete model\<close>

definition tiny_request :: "string \<Rightarrow> (int, int) dz_request" where
  "tiny_request rid = \<lparr>rq_id = rid, rq_robot_obs = Some 5, rq_session_id = Some ''s'', rq_reset = PBool False,
     rq_prompt = [], rq_steps = 1\<rparr>"

definition tiny_worker :: "int list option \<Rightarrow> ((int, int) request_state, (int, int list) dz_pipeline) runner" where
  "tiny_worker kv = \<lparr>pipeline = \<lparr>dz_states = [], negative_cache = None, ar_kv = kv\<rparr>, state_cache = []\<rparr>"

definition tiny_stages where
  "tiny_stages rid ws = (case ws of (re, rd, rc) \<Rightarrow>
     run_three_stages (dreamzero_atoms tiny_ops plain_torch native_conv) no_conv (\<lambda>v. v) Prompt_Other
       (stage_request_of (tiny_request rid)) re rd rc)"

definition tiny_first where
  "tiny_first = tiny_stages ''r1'' (tiny_worker None, tiny_worker (Some []), tiny_worker None)"

definition tiny_second where
  "tiny_second = tiny_stages ''r2'' (snd tiny_first)"

definition tiny_whole where
  "tiny_whole = forward tiny_ops (tiny_request ''r1'') (pipeline (tiny_worker (Some [])))"

definition tiny_whole2 where
  "tiny_whole2 = forward tiny_ops (tiny_request ''r2'') (snd tiny_whole)"

section \<open>Properties\<close>

text \<open>
  C1: Disaggregated execution equals monolithic execution.  When the encode and denoise workers agree
  with a monolithic worker about the session, running the encode, denoise and decode stages (with the
  payload packed, carried over both hops and unpacked) gives exactly the output, or exactly the
  exception, of the monolithic forward, and on success leaves the same attention KV state.
\<close>

theorem disaggregated_equals_monolithic:
  assumes "value_preserving (to_device M) T" and "\<And>v. arrives_as conv v (hop v)"
      and "rq_robot_obs rq = Some obs" "rq_session_id rq = Some sid" "sid \<noteq> []"
          "rq_reset rq = PBool b" "rq_id rq \<noteq> []"
      and "workers_in_sync sid (pipeline re) (pipeline rd) whole"
      and "run_three_stages (dreamzero_atoms M T C) conv hop pr (stage_request_of rq) re rd rc
             = (res, re1, rd1, rc1)"
      and "forward M rq whole = (out, whole1)"
  shows "res = (case out of Inl e \<Rightarrow> Inl (Raised e) | Inr y \<Rightarrow> Inr y) \<and>
         (case out of Inl e \<Rightarrow> True | Inr y \<Rightarrow> ar_kv (pipeline rd1) = ar_kv whole1)"
  by (rule stages_equal_forward) (fact assms)+

theorem disaggregated_equals_monolithic_witness:
  "fst (tiny_first) = Inr (Dz_Output 1 1)"
proof -
  have o: "rq_robot_obs (tiny_request ''r1'') = Some 5" "rq_session_id (tiny_request ''r1'') = Some ''s''"
    "''s'' \<noteq> []" "rq_reset (tiny_request ''r1'') = PBool False" "rq_id (tiny_request ''r1'') \<noteq> []"
    by (simp_all add: tiny_request_def)
  have sync: "workers_in_sync ''s'' (pipeline (tiny_worker None)) (pipeline (tiny_worker (Some [])))
      (pipeline (tiny_worker (Some [])))"
    by (simp add: workers_in_sync_def tiny_worker_def acquire_state_def get_or_create_state_def Let_def
        split: prod.split)
  have w: "fst tiny_whole = Inr (Dz_Output 1 1)" by code_simp
  have arr: "arrives_as no_conv v ((\<lambda>v. v) v)" for v :: "int carried" by (simp add: in_process)
  obtain res re1 rd1 rc1 where r: "run_three_stages (dreamzero_atoms tiny_ops plain_torch native_conv)
      no_conv (\<lambda>v. v) Prompt_Other (stage_request_of (tiny_request ''r1''))
      (tiny_worker None) (tiny_worker (Some [])) (tiny_worker None) = (res, re1, rd1, rc1)"
    by (metis prod_cases4)
  obtain out whole1 where f: "forward tiny_ops (tiny_request ''r1'') (pipeline (tiny_worker (Some []))) = (out, whole1)"
    by fastforce
  from disaggregated_equals_monolithic [OF value_preserving_tiny arr o sync r f] w f r show ?thesis
    by (simp add: tiny_first_def tiny_stages_def tiny_whole_def)
qed

text \<open>
  The window position never leaves the denoise worker.  An encode worker that starts with no
  session emits, for every sequence of requests, only carriers whose start frame is 0: what the denoise
  worker advances is never reported back.
\<close>

theorem encode_worker_window_stuck:
  "list_all carrier_at_zero (encode_requests M sts \<lparr>dz_states = [], negative_cache = n, ar_kv = k\<rparr>)"
  by (rule encode_requests_window_zero) (simp add: window_zero_def)


text \<open>
  A stage execution leaves no request state behind.  Whatever the stage role, and whether the stage
  succeeds or fails at any point, a request that was not cached before the call is not cached after it
  and every other cached state is untouched.
\<close>

theorem stage_cache_no_leak:
  assumes "resolve_execution_path role \<noteq> EXECUTION_PATH_MONOLITHIC"
      and "sr_id req \<notin> set (dict_keys (state_cache r))"
  shows "state_cache (snd (execute_model A conv whole_forward role req r)) = state_cache r"
  using assms(1) stage_cache [OF assms(2)] path_values [of role] by (auto simp: execute_model_def Let_def path_names case_prod_beta)

theorem stage_cache_no_leak_witness:
  "state_cache (snd (execute_model (dreamzero_atoms tiny_ops plain_torch native_conv) no_conv
     (\<lambda>req r. (Inl (Raised RuntimeError), r)) (Some DENOISE) (stage_request_of (tiny_request ''r1''))
     (tiny_worker (Some [])))) = []"
  using stage_cache_no_leak [of "Some DENOISE" "stage_request_of (tiny_request ''r1'')" "tiny_worker (Some [])"]
  by (simp add: tiny_worker_def path_names resolve_execution_path_def normalize_stage_role_def ENCODE_def DENOISE_def MONOLITHIC_def py_strip_def py_isspace_def Let_def)

end
