(* ===== verification/Diffusion_Scheduler.thy ===== *)
theory Diffusion_Scheduler
  imports Omni_Prelude
begin

text \<open>
  The diffusion schedulers (\<^verbatim>\<open>diffusion/sched/\<close>): request states and batch-compatibility keys of
  \<^verbatim>\<open>interface.py\<close>, the queues of \<^verbatim>\<open>base_scheduler.py\<close>, and what \<^verbatim>\<open>request_scheduler.py\<close> and
  \<^verbatim>\<open>step_scheduler.py\<close> add to them.  The subclass is the argument \<open>kind\<close>.

  A Python set of request ids is the list of its elements, without repetition; the values of sampling
  parameters are a type \<open>'v\<close> whose equality is Python's.  \<^verbatim>\<open>getattr\<close> on the sampling parameters is the
  field \<open>req_attr\<close>.
\<close>

section \<open>Requests and their status\<close>

datatype DiffusionRequestStatus =
    WAITING | RUNNING | PREEMPTED | FINISHED_COMPLETED | FINISHED_ABORTED | FINISHED_ERROR

primrec status_value :: "DiffusionRequestStatus \<Rightarrow> nat" where
  "status_value WAITING = 1"
| "status_value RUNNING = 2"
| "status_value PREEMPTED = 3"
| "status_value FINISHED_COMPLETED = 4"
| "status_value FINISHED_ABORTED = 5"
| "status_value FINISHED_ERROR = 6"

lemma status_value_inj: "status_value x = status_value y \<Longrightarrow> x = y"
  by (cases x; cases y) simp_all

instantiation DiffusionRequestStatus :: linorder
begin
definition less_eq_DiffusionRequestStatus :: "DiffusionRequestStatus \<Rightarrow> DiffusionRequestStatus \<Rightarrow> bool" where
  "less_eq_DiffusionRequestStatus x y \<longleftrightarrow> status_value x \<le> status_value y"
definition less_DiffusionRequestStatus :: "DiffusionRequestStatus \<Rightarrow> DiffusionRequestStatus \<Rightarrow> bool" where
  "less_DiffusionRequestStatus x y \<longleftrightarrow> status_value x < status_value y"
instance
  by standard (auto simp: less_eq_DiffusionRequestStatus_def less_DiffusionRequestStatus_def status_value_inj)
end

definition is_finished :: "DiffusionRequestStatus \<Rightarrow> bool" where
  "is_finished st = (st \<ge> FINISHED_COMPLETED)"

text \<open>A sequence-like value, as far as \<^verbatim>\<open>_sequence_length\<close> looks at it.\<close>

record seq_info =
  seq_ndim :: "int option"
  seq_shape :: "int list option"
  seq_len :: nat

record 'v OmniDiffusionRequest =
  req_id :: string
  req_attr :: "string \<Rightarrow> 'v"
  req_lora :: "int option"
  req_timesteps :: "seq_info option"
  req_sigmas :: "nat option"
  req_num_steps :: "py_exc + int"
  req_step_index :: "int option"
  req_kv_sender :: "'v option"

section \<open>Batch-compatibility keys\<close>

definition SAMPLING_PARAMS_KEY_FIELDS :: "string list" where
  "SAMPLING_PARAMS_KEY_FIELDS =
     [''height'', ''width'', ''num_frames'', ''resolution'', ''fps'', ''frame_rate'', ''boundary_ratio'',
      ''do_classifier_free_guidance'', ''guidance_scale'', ''guidance_scale_provided'',
      ''guidance_scale_2'', ''guidance_rescale'', ''true_cfg_scale'', ''cfg_normalize'',
      ''num_outputs_per_prompt'', ''lora_scale'']"

definition REQUEST_BATCH_SAMPLING_PARAMS_KEY_FIELDS :: "string list" where
  "REQUEST_BATCH_SAMPLING_PARAMS_KEY_FIELDS =
     [''height'', ''width'', ''num_frames'', ''resolution'', ''fps'', ''frame_rate'', ''boundary_ratio'',
      ''do_classifier_free_guidance'', ''guidance_scale'', ''guidance_scale_provided'',
      ''guidance_scale_2'', ''guidance_rescale'', ''true_cfg_scale'', ''cfg_normalize'', ''strength'',
      ''num_inference_steps'', ''sigmas'', ''max_sequence_length'', ''num_outputs_per_prompt'', ''eta'',
      ''decode_timestep'', ''decode_noise_scale'', ''output_type'', ''layers'', ''use_en_prompt'',
      ''lora_scale'']"

datatype 'v params_key =
    SamplingParamsKey "int option" "'v list"
  | RequestBatchSamplingParamsKey "int option" "'v list"

definition get_sampling_params_key :: "'v OmniDiffusionRequest \<Rightarrow> 'v params_key" where
  "get_sampling_params_key req =
     SamplingParamsKey (req_lora req) (map (req_attr req) SAMPLING_PARAMS_KEY_FIELDS)"

definition get_request_batch_sampling_params_key :: "'v OmniDiffusionRequest \<Rightarrow> 'v params_key" where
  "get_request_batch_sampling_params_key req =
     RequestBatchSamplingParamsKey (req_lora req)
       (map (req_attr req) REQUEST_BATCH_SAMPLING_PARAMS_KEY_FIELDS)"

datatype scheduler_kind = Request_Scheduler | Step_Scheduler

definition build_sampling_params_key ::
  "scheduler_kind \<Rightarrow> 'v OmniDiffusionRequest \<Rightarrow> 'v params_key option" where
  "build_sampling_params_key kind req = (case kind of
      Request_Scheduler \<Rightarrow> Some (get_request_batch_sampling_params_key req)
    | Step_Scheduler \<Rightarrow> Some (get_sampling_params_key req))"

section \<open>Scheduler state and outputs\<close>

record 'v DiffusionRequestState =
  drs_request_id :: string
  drs_req :: "'v OmniDiffusionRequest"
  drs_key :: "'v params_key option"
  drs_status :: DiffusionRequestStatus
  drs_error :: "string option"

record StepProgress =
  current_step :: int
  total_steps :: int

record 'v scheduler =
  request_states :: "(string, 'v DiffusionRequestState) dict"
  step_id :: nat
  waiting :: "string list"
  running :: "string list"
  running_key :: "'v params_key option"
  finished_ids :: "string list"
  max_num_running_reqs :: nat
  prefetch_enabled :: bool
  request_progress :: "(string, StepProgress) dict"

record 'v DiffusionSchedulerOutput =
  out_step_id :: nat
  scheduled_new_reqs :: "(string \<times> 'v OmniDiffusionRequest) list"
  scheduled_cached_reqs :: "string list"
  out_finished_req_ids :: "string list"
  out_num_running :: nat
  out_num_waiting :: nat
  kv_prefetch_jobs :: "(string \<times> 'v) option"

definition scheduled_request_ids :: "'v DiffusionSchedulerOutput \<Rightarrow> string list" where
  "scheduled_request_ids so = map fst (scheduled_new_reqs so) @ scheduled_cached_reqs so"

definition is_empty :: "'v DiffusionSchedulerOutput \<Rightarrow> bool" where
  "is_empty so = (length (scheduled_request_ids so) = 0)"

text \<open>A runner's output for one request; of the \<^verbatim>\<open>DiffusionOutput\<close> the payload is \<open>'o\<close>.\<close>

record 'o DiffusionOutput =
  do_output :: "'o option"
  do_error :: "string option"
  do_aborted :: bool
  do_abort_message :: "string option"

record 'o RunnerOutput =
  ro_request_id :: string
  ro_step_index :: "int option"
  ro_finished :: bool
  ro_result :: "'o DiffusionOutput option"

datatype 'o base_runner_output = Single_Runner_Output "'o RunnerOutput" | BatchRunnerOutput "'o RunnerOutput list"

text \<open>In a batch the index of an id is that of its last entry.\<close>

definition get_request_output :: "'o base_runner_output \<Rightarrow> string \<Rightarrow> 'o RunnerOutput option" where
  "get_request_output out rid = (case out of
      Single_Runner_Output ro \<Rightarrow> if ro_request_id ro = rid then Some ro else None
    | BatchRunnerOutput ros \<Rightarrow> List.find (\<lambda>ro. ro_request_id ro = rid) (rev ros))"

section \<open>Initialisation and admission\<close>

text \<open>\<open>max_seqs\<close> is what \<^verbatim>\<open>int(od_config.max_num_seqs)\<close> gives.\<close>

definition initialize_scheduler :: "py_exc + int \<Rightarrow> bool \<Rightarrow> 'v scheduler" where
  "initialize_scheduler max_seqs prefetch =
     \<lparr>request_states = [], step_id = 0, waiting = [], running = [], running_key = None, finished_ids = [],
      max_num_running_reqs = (case max_seqs of Inl e \<Rightarrow> 1 | Inr n \<Rightarrow> nat (max 1 n)),
      prefetch_enabled = prefetch, request_progress = []\<rparr>"

definition make_request_state ::
  "scheduler_kind \<Rightarrow> string \<Rightarrow> 'v OmniDiffusionRequest \<Rightarrow> 'v DiffusionRequestState" where
  "make_request_state kind rid req =
     \<lparr>drs_request_id = rid, drs_req = req, drs_key = build_sampling_params_key kind req,
      drs_status = WAITING, drs_error = None\<rparr>"

definition add_request_with_request_id ::
  "scheduler_kind \<Rightarrow> string \<Rightarrow> 'v OmniDiffusionRequest \<Rightarrow> 'v scheduler \<Rightarrow> (py_exc + string) \<times> 'v scheduler" where
  "add_request_with_request_id kind rid req s =
     (if rid \<in> set (dict_keys (request_states s)) then (Inl ValueError, s)
      else (Inr rid, s\<lparr>request_states := dict_set rid (make_request_state kind rid req) (request_states s),
                       waiting := waiting s @ [rid]\<rparr>))"

definition sequence_length :: "seq_info \<Rightarrow> py_exc + int" where
  "sequence_length v =
     (if seq_ndim v = Some 0 then Inr 1
      else case seq_shape v of
          Some [] \<Rightarrow> Inl IndexError
        | Some (n # ns) \<Rightarrow> Inr n
        | None \<Rightarrow> Inr (int (seq_len v)))"

definition get_total_steps :: "'v OmniDiffusionRequest \<Rightarrow> py_exc + int" where
  "get_total_steps req = (case req_timesteps req of
      Some ts \<Rightarrow> sequence_length ts
    | None \<Rightarrow> (case req_sigmas req of Some n \<Rightarrow> Inr (int n) | None \<Rightarrow> req_num_steps req))"

definition step_add_request ::
  "'v OmniDiffusionRequest \<Rightarrow> 'v scheduler \<Rightarrow> (py_exc + string) \<times> 'v scheduler" where
  "step_add_request req s =
     (case get_total_steps req of
        Inl e \<Rightarrow> (Inl e, s)
      | Inr tot \<Rightarrow>
          if tot \<le> 0 then (Inl ValueError, s)
          else
            (let current = (case req_step_index req of None \<Rightarrow> 0 | Some i \<Rightarrow> i) in
             if current < 0 \<or> current \<ge> tot then (Inl ValueError, s)
             else case add_request_with_request_id Step_Scheduler (req_id req)
                         (req\<lparr>req_step_index := Some current\<rparr>) s of
                 (Inl e, s1) \<Rightarrow> (Inl e, s1)
               | (Inr rid, s1) \<Rightarrow>
                   (Inr rid, s1\<lparr>request_progress := dict_set rid
                      \<lparr>current_step = current, total_steps = tot\<rparr> (request_progress s1)\<rparr>)))"

definition add_request ::
  "scheduler_kind \<Rightarrow> 'v OmniDiffusionRequest \<Rightarrow> 'v scheduler \<Rightarrow> (py_exc + string) \<times> 'v scheduler" where
  "add_request kind req s = (case kind of
      Request_Scheduler \<Rightarrow> add_request_with_request_id kind (req_id req) req s
    | Step_Scheduler \<Rightarrow> step_add_request req s)"

section \<open>Scheduling\<close>

definition current_sampling_params_key :: "'v scheduler \<Rightarrow> 'v params_key option" where
  "current_sampling_params_key s =
     (if running_key s \<noteq> None \<or> running s = [] then running_key s
      else case dict_get (request_states s) (hd (running s)) of
          None \<Rightarrow> None | Some st \<Rightarrow> drs_key st)"

text \<open>The key is cached in the scheduler as a side effect of asking for it.\<close>

definition can_schedule_waiting :: "'v DiffusionRequestState \<Rightarrow> 'v scheduler \<Rightarrow> bool \<times> 'v scheduler" where
  "can_schedule_waiting st s =
     (if running s = [] then (True, s)
      else (let key = current_sampling_params_key s in
            (key \<noteq> None \<and> key = drs_key st, s\<lparr>running_key := key\<rparr>)))"

definition start_request :: "string \<Rightarrow> 'v DiffusionRequestState \<Rightarrow> 'v scheduler \<Rightarrow> 'v scheduler" where
  "start_request rid st s =
     s\<lparr>running_key := (if running s = [] then drs_key st else running_key s),
       request_states := dict_set rid (st\<lparr>drs_status := RUNNING\<rparr>) (request_states s),
       running := running s @ [rid]\<rparr>"

text \<open>The \<^verbatim>\<open>while\<close> loop over the waiting queue, with the lists it fills.\<close>

fun schedule_waiting ::
  "string list \<Rightarrow> (string \<times> 'v OmniDiffusionRequest) list \<Rightarrow> string list \<Rightarrow> 'v scheduler \<Rightarrow>
   (string \<times> 'v OmniDiffusionRequest) list \<times> string list \<times> 'v scheduler" where
  "schedule_waiting [] new cached s = (new, cached, s\<lparr>waiting := []\<rparr>)"
| "schedule_waiting (rid # queue) new cached s =
     (if length (running s) \<ge> max_num_running_reqs s then (new, cached, s\<lparr>waiting := rid # queue\<rparr>)
      else case dict_get (request_states s) rid of
          None \<Rightarrow> schedule_waiting queue new cached s
        | Some st \<Rightarrow>
            (case can_schedule_waiting st s of
               (False, s1) \<Rightarrow> (new, cached, s1\<lparr>waiting := rid # queue\<rparr>)
             | (True, s1) \<Rightarrow>
                 if drs_status st = WAITING
                 then schedule_waiting queue (new @ [(drs_request_id st, drs_req st)]) cached (start_request rid st s1)
                 else schedule_waiting queue new (cached @ [rid]) (start_request rid st s1)))"

definition prefetch_jobs :: "'v scheduler \<Rightarrow> (string \<times> 'v) option" where
  "prefetch_jobs s =
     (if prefetch_enabled s \<and> waiting s \<noteq> [] then
        (case dict_get (request_states s) (hd (waiting s)) of
           None \<Rightarrow> None
         | Some nxt \<Rightarrow>
             if is_finished (drs_status nxt) then None
             else map_option (\<lambda>info. (drs_request_id nxt, info)) (req_kv_sender (drs_req nxt)))
      else None)"

definition schedule :: "'v scheduler \<Rightarrow> 'v DiffusionSchedulerOutput \<times> 'v scheduler" where
  "schedule s =
     (let old = filter (\<lambda>rid. dict_get (request_states s) rid \<noteq> None) (running s);
          (new, cached, s1) = schedule_waiting (waiting s) [] old s in
      (\<lparr>out_step_id = step_id s1, scheduled_new_reqs = new, scheduled_cached_reqs = cached,
        out_finished_req_ids = finished_ids s1, out_num_running = length (running s1),
        out_num_waiting = length (waiting s1), kv_prefetch_jobs = prefetch_jobs s1\<rparr>,
       s1\<lparr>step_id := step_id s1 + 1, finished_ids := []\<rparr>))"

definition has_requests :: "'v scheduler \<Rightarrow> bool" where
  "has_requests s = (waiting s \<noteq> [] \<or> running s \<noteq> [])"

section \<open>Finishing, preempting, popping\<close>

definition set_union :: "'a list \<Rightarrow> 'a list \<Rightarrow> 'a list" where
  "set_union xs ys = xs @ filter (\<lambda>y. y \<notin> set xs) ys"

definition unfinished_in :: "'v scheduler \<Rightarrow> string \<Rightarrow> bool" where
  "unfinished_in s rid = (case dict_get (request_states s) rid of
      None \<Rightarrow> False | Some st \<Rightarrow> \<not> is_finished (drs_status st))"

definition mark_finished ::
  "(string, DiffusionRequestStatus) dict \<Rightarrow> (string, string option) dict \<Rightarrow> string \<Rightarrow>
   (string, 'v DiffusionRequestState) dict \<Rightarrow> (string, 'v DiffusionRequestState) dict" where
  "mark_finished statuses errors rid d =
     (case (dict_get d rid, dict_get statuses rid) of
        (Some st, Some status) \<Rightarrow>
          dict_set rid (st\<lparr>drs_status := status,
            drs_error := (if status = FINISHED_ERROR
                          then (case dict_get errors rid of None \<Rightarrow> None | Some e \<Rightarrow> e) else None)\<rparr>) d
      | _ \<Rightarrow> d)"

text \<open>\<^verbatim>\<open>_finish_requests\<close>; without an \<^verbatim>\<open>errors\<close> argument every error is \<^verbatim>\<open>None\<close>.\<close>

definition finish_requests_internal ::
  "(string, DiffusionRequestStatus) dict \<Rightarrow> (string, string option) dict \<Rightarrow> 'v scheduler \<Rightarrow>
   (py_exc + string list) \<times> 'v scheduler" where
  "finish_requests_internal statuses errors s =
     (if statuses = [] then (Inr [], s)
      else if \<exists>(rid, status) \<in> set statuses. \<not> is_finished status then (Inl AssertionError, s)
      else
        (let finished = filter (unfinished_in s) (dict_keys statuses);
             running1 = filter (\<lambda>rid. rid \<notin> set finished) (running s) in
         (Inr finished,
          s\<lparr>running := running1,
            running_key := (if running1 = [] \<and> (\<exists>rid \<in> set finished. rid \<in> set (running s))
                            then None else running_key s),
            waiting := filter (\<lambda>rid. rid \<notin> set finished) (waiting s),
            request_states := fold (mark_finished statuses errors) finished (request_states s),
            finished_ids := set_union (finished_ids s) finished\<rparr>)))"

definition finish_requests ::
  "string list \<Rightarrow> DiffusionRequestStatus \<Rightarrow> 'v scheduler \<Rightarrow> (py_exc + unit) \<times> 'v scheduler" where
  "finish_requests rids status s =
     (if \<not> is_finished status then (Inl AssertionError, s)
      else case finish_requests_internal (fold (\<lambda>rid d. dict_set rid status d) rids []) [] s of
          (Inl e, s1) \<Rightarrow> (Inl e, s1) | (Inr ids, s1) \<Rightarrow> (Inr (), s1))"

definition preempt_request :: "string \<Rightarrow> 'v scheduler \<Rightarrow> bool \<times> 'v scheduler" where
  "preempt_request rid s =
     (case dict_get (request_states s) rid of
        None \<Rightarrow> (False, s)
      | Some st \<Rightarrow>
          if rid \<in> set (running s)
          then (let running1 = remove1 rid (running s) in
                (True, s\<lparr>running := running1, running_key := (if running1 = [] then None else running_key s),
                         waiting := rid # waiting s,
                         request_states := dict_set rid (st\<lparr>drs_status := PREEMPTED\<rparr>) (request_states s)\<rparr>))
          else (False, s))"

definition pop_request_state ::
  "string \<Rightarrow> 'v scheduler \<Rightarrow> 'v DiffusionRequestState option \<times> 'v scheduler" where
  "pop_request_state rid s =
     (dict_get (request_states s) rid,
      s\<lparr>request_progress := dict_del rid (request_progress s),
        request_states := dict_del rid (request_states s)\<rparr>)"

definition close_scheduler :: "'v scheduler \<Rightarrow> 'v scheduler" where
  "close_scheduler s = s\<lparr>request_states := [], waiting := [], running := [], running_key := None,
     finished_ids := [], request_progress := []\<rparr>"

section \<open>Updating from a runner's output\<close>

type_synonym terminals = "(string, DiffusionRequestStatus \<times> string option) dict"

definition request_verdict :: "'o RunnerOutput option \<Rightarrow> DiffusionRequestStatus \<times> string option" where
  "request_verdict ro =
     (case (case ro of None \<Rightarrow> None | Some r \<Rightarrow> ro_result r) of
        None \<Rightarrow> (FINISHED_ERROR, Some ''No output result'')
      | Some res \<Rightarrow>
          if do_aborted res then (FINISHED_ABORTED, None)
          else (case do_error res of
              Some (c # cs) \<Rightarrow> (FINISHED_ERROR, Some (c # cs))
            | _ \<Rightarrow> (FINISHED_COMPLETED, None)))"

fun request_terminals ::
  "'o base_runner_output \<Rightarrow> string list \<Rightarrow> 'v scheduler \<Rightarrow> terminals \<Rightarrow> terminals" where
  "request_terminals out [] s acc = acc"
| "request_terminals out (rid # rids) s acc =
     (if unfinished_in s rid
      then request_terminals out rids s (dict_set rid (request_verdict (get_request_output out rid)) acc)
      else request_terminals out rids s acc)"

text \<open>A step verdict is terminal, or the new step index of a request that goes on or completes.\<close>

datatype step_verdict = Step_Terminal DiffusionRequestStatus "string option" | Step_Advance int bool

definition step_verdict :: "'o RunnerOutput option \<Rightarrow> step_verdict" where
  "step_verdict ro =
     (case ro of
        None \<Rightarrow> Step_Terminal FINISHED_ERROR (Some ''No output for request'')
      | Some r \<Rightarrow>
          if (case ro_result r of None \<Rightarrow> False | Some res \<Rightarrow> do_aborted res)
          then Step_Terminal FINISHED_ABORTED None
          else (case (case ro_result r of None \<Rightarrow> None | Some res \<Rightarrow> do_error res) of
              Some e \<Rightarrow> Step_Terminal FINISHED_ERROR (Some e)
            | None \<Rightarrow>
                (case ro_step_index r of
                   None \<Rightarrow> Step_Terminal FINISHED_ERROR (Some ''Missing step_index in RunnerOutput'')
                 | Some i \<Rightarrow> Step_Advance i (ro_finished r))))"

definition advance_step :: "string \<Rightarrow> int \<Rightarrow> bool \<Rightarrow> 'v scheduler \<Rightarrow> 'v scheduler" where
  "advance_step rid i fin s =
     (case (dict_get (request_states s) rid, dict_get (request_progress s) rid) of
        (Some st, Some pg) \<Rightarrow>
          s\<lparr>request_progress := dict_set rid (pg\<lparr>current_step := i\<rparr>) (request_progress s),
            request_states := dict_set rid
              (st\<lparr>drs_req := (drs_req st)\<lparr>req_step_index := Some i\<rparr>,
                  drs_error := (if fin then drs_error st else None)\<rparr>) (request_states s)\<rparr>
      | _ \<Rightarrow> s)"

fun step_terminals ::
  "'o base_runner_output \<Rightarrow> string list \<Rightarrow> 'v scheduler \<Rightarrow> terminals \<Rightarrow> terminals \<times> 'v scheduler" where
  "step_terminals out [] s acc = (acc, s)"
| "step_terminals out (rid # rids) s acc =
     (if unfinished_in s rid \<and> dict_get (request_progress s) rid \<noteq> None
      then (case step_verdict (get_request_output out rid) of
              Step_Terminal status err \<Rightarrow> step_terminals out rids s (dict_set rid (status, err) acc)
            | Step_Advance i fin \<Rightarrow>
                step_terminals out rids (advance_step rid i fin s)
                  (if fin then dict_set rid (FINISHED_COMPLETED, None) acc else acc))
      else step_terminals out rids s acc)"

definition finalize_update_from_output ::
  "'v DiffusionSchedulerOutput \<Rightarrow> terminals \<Rightarrow> 'v scheduler \<Rightarrow> (py_exc + string list) \<times> 'v scheduler" where
  "finalize_update_from_output so terms s =
     (let hit = remdups (filter (\<lambda>rid. rid \<in> set (finished_ids s)) (scheduled_request_ids so)) in
      case finish_requests_internal (map (\<lambda>(rid, st, e). (rid, st)) terms) (map (\<lambda>(rid, st, e). (rid, e)) terms) s of
        (Inl e, s1) \<Rightarrow> (Inl e, s1)
      | (Inr ids, s1) \<Rightarrow> (Inr (set_union hit ids), s1))"

definition update_from_output ::
  "scheduler_kind \<Rightarrow> 'v DiffusionSchedulerOutput \<Rightarrow> 'o base_runner_output \<Rightarrow> 'v scheduler \<Rightarrow>
   (py_exc + string list) \<times> 'v scheduler" where
  "update_from_output kind so out s =
     (if scheduled_request_ids so = [] then (Inr [], s)
      else case kind of
          Request_Scheduler \<Rightarrow> finalize_update_from_output so (request_terminals out (scheduled_request_ids so) s []) s
        | Step_Scheduler \<Rightarrow>
            (case step_terminals out (scheduled_request_ids so) s [] of
               (terms, s1) \<Rightarrow> finalize_update_from_output so terms s1))"

section \<open>Phases of a request and the invariant\<close>

datatype phase = Absent | Queued | Active | Done

primrec status_phase :: "DiffusionRequestStatus \<Rightarrow> phase" where
  "status_phase WAITING = Queued"
| "status_phase RUNNING = Active"
| "status_phase PREEMPTED = Queued"
| "status_phase FINISHED_COMPLETED = Done"
| "status_phase FINISHED_ABORTED = Done"
| "status_phase FINISHED_ERROR = Done"

definition phase_of :: "'v scheduler \<Rightarrow> string \<Rightarrow> phase" where
  "phase_of s rid = (case dict_get (request_states s) rid of
      None \<Rightarrow> Absent | Some st \<Rightarrow> status_phase (drs_status st))"

definition state_ok ::
  "scheduler_kind \<Rightarrow> (string, StepProgress) dict \<Rightarrow> 'v params_key option \<Rightarrow> string \<Rightarrow>
   'v DiffusionRequestState \<Rightarrow> bool" where
  "state_ok kind pg rkey rid st \<longleftrightarrow> drs_request_id st = rid \<and>
     drs_key st = build_sampling_params_key kind (drs_req st) \<and>
     (kind = Step_Scheduler \<longrightarrow> dict_get pg rid \<noteq> None) \<and> (drs_status st = RUNNING \<longrightarrow> drs_key st = rkey)"

definition states_ok :: "scheduler_kind \<Rightarrow> 'v scheduler \<Rightarrow> bool" where
  "states_ok kind s \<longleftrightarrow> (\<forall>rid st. dict_get (request_states s) rid = Some st \<longrightarrow>
     state_ok kind (request_progress s) (running_key s) rid st)"

definition queues_ok :: "'v scheduler \<Rightarrow> bool" where
  "queues_ok s \<longleftrightarrow>
     distinct (waiting s) \<and> distinct (running s) \<and>
     set (waiting s) = {rid. phase_of s rid = Queued} \<and> set (running s) = {rid. phase_of s rid = Active} \<and>
     0 < max_num_running_reqs s \<and> length (running s) \<le> max_num_running_reqs s"

definition sched_ok :: "scheduler_kind \<Rightarrow> 'v scheduler \<Rightarrow> bool" where
  "sched_ok kind s \<longleftrightarrow> queues_ok s \<and> states_ok kind s"

lemma is_finished_phase: "is_finished st \<longleftrightarrow> status_phase st = Done"
  by (cases st) (simp_all add: is_finished_def less_eq_DiffusionRequestStatus_def)

lemma status_phase_iff:
  "status_phase st = Active \<longleftrightarrow> st = RUNNING"
  "status_phase st = Queued \<longleftrightarrow> st \<in> {WAITING, PREEMPTED}"
  "status_phase st \<noteq> Absent"
  by (cases st; simp)+

lemma phase_states_cong:
  "request_states s = request_states s' \<Longrightarrow> phase_of s = phase_of s'"
  by (auto simp: phase_of_def fun_eq_iff)

lemma phase_set_states:
  "phase_of (s\<lparr>request_states := dict_set rid st d\<rparr>) =
     (phase_of (s\<lparr>request_states := d\<rparr>))(rid := status_phase (drs_status st))"
  by (auto simp: phase_of_def fun_eq_iff dict_get_set)

lemma unfinished_phase: "unfinished_in s rid \<longleftrightarrow> phase_of s rid \<in> {Queued, Active}"
proof (cases "dict_get (request_states s) rid")
  case (Some st)
  then show ?thesis by (cases "drs_status st") (simp_all add: unfinished_in_def phase_of_def is_finished_phase)
qed (simp add: unfinished_in_def phase_of_def)

lemma states_ok_mono:
  assumes "states_ok kind s"
      and "\<And>rid st. dict_get (request_states s') rid = Some st \<Longrightarrow>
         dict_get (request_states s) rid = Some st \<or> state_ok kind (request_progress s') (running_key s') rid st"
      and "\<And>k. dict_get (request_progress s) k \<noteq> None \<Longrightarrow> dict_get (request_states s') k \<noteq> None \<Longrightarrow>
         dict_get (request_progress s') k \<noteq> None"
      and "running_key s' = running_key s \<or>
         (\<forall>rid st. dict_get (request_states s') rid = Some st \<and> drs_status st = RUNNING \<longrightarrow>
            drs_key st = running_key s')"
  shows "states_ok kind s'"
  unfolding states_ok_def
proof (intro allI impI)
  fix rid st assume g: "dict_get (request_states s') rid = Some st"
  from assms(2) [OF g] show "state_ok kind (request_progress s') (running_key s') rid st"
  proof
    assume "dict_get (request_states s) rid = Some st"
    then have "state_ok kind (request_progress s) (running_key s) rid st"
      using assms(1) by (simp add: states_ok_def)
    with g assms(3) [of rid] assms(4) show ?thesis by (auto simp: state_ok_def)
  qed
qed

lemma build_key_Some: "build_sampling_params_key kind req \<noteq> None"
  by (cases kind) (simp_all add: build_sampling_params_key_def)

lemma sched_ok_init: "sched_ok kind (initialize_scheduler n pf)"
  by (cases n) (auto simp: sched_ok_def queues_ok_def states_ok_def initialize_scheduler_def phase_of_def)

section \<open>Every operation preserves the invariant\<close>

lemma add_internal_ok:
  assumes "sched_ok kind s" "add_request_with_request_id kind rid req s = (Inr r, s')"
      and "kind = Step_Scheduler \<Longrightarrow> dict_get pg rid \<noteq> None"
      and "\<And>k. dict_get (request_progress s) k \<noteq> None \<Longrightarrow> dict_get pg k \<noteq> None"
  shows "sched_ok kind (s'\<lparr>request_progress := pg\<rparr>) \<and> r = rid \<and> phase_of s rid = Absent \<and>
     phase_of s' = (phase_of s)(rid := Queued) \<and> waiting s' = waiting s @ [rid] \<and> running s' = running s \<and>
     finished_ids s' = finished_ids s"
proof -
  have n: "rid \<notin> set (dict_keys (request_states s))" and r: "r = rid" and
    s': "s' = s\<lparr>request_states := dict_set rid (make_request_state kind rid req) (request_states s),
              waiting := waiting s @ [rid]\<rparr>"
    using assms(2) by (auto simp: add_request_with_request_id_def split: if_splits)
  have ph: "phase_of s' = (phase_of s)(rid := Queued)" and ab: "phase_of s rid = Absent"
    using n by (auto simp: s' phase_of_def fun_eq_iff dict_get_set make_request_state_def
        dict_get_None_iff [THEN iffD2])
  have ph': "phase_of (s'\<lparr>request_progress := pg\<rparr>) = phase_of s'"
    by (rule phase_states_cong) simp
  have "queues_ok (s'\<lparr>request_progress := pg\<rparr>)"
    using assms(1) ab unfolding sched_ok_def queues_ok_def ph' ph
    by (auto simp: s')
  moreover have "states_ok kind (s'\<lparr>request_progress := pg\<rparr>)"
    by (rule states_ok_mono [of kind s])
      (use assms(1,3,4) in \<open>auto simp: sched_ok_def s' dict_get_set state_ok_def make_request_state_def split: if_splits\<close>)
  ultimately have "sched_ok kind (s'\<lparr>request_progress := pg\<rparr>)" by (simp add: sched_ok_def)
  with r ph ab show ?thesis by (simp add: s')
qed

lemma add_request_ok:
  assumes "sched_ok kind s" "add_request kind req s = (Inr r, s')"
  shows "sched_ok kind s' \<and> r = req_id req \<and> phase_of s r = Absent \<and>
     phase_of s' = (phase_of s)(r := Queued) \<and> waiting s' = waiting s @ [r] \<and> running s' = running s \<and>
     finished_ids s' = finished_ids s"
proof (cases kind)
  case Request_Scheduler
  with assms add_internal_ok [OF assms(1), of "req_id req" req r s' "request_progress s'"] show ?thesis
    by (auto simp: add_request_def add_request_with_request_id_def split: if_splits)
next
  case Step_Scheduler
  let ?add = "\<lambda>c. add_request_with_request_id Step_Scheduler (req_id req) (req\<lparr>req_step_index := Some c\<rparr>) s"
  obtain c s1 n where a: "?add c = (Inr r, s1)" and
    s': "s' = s1\<lparr>request_progress := dict_set r \<lparr>current_step = c, total_steps = n\<rparr> (request_progress s1)\<rparr>"
    using assms(2) Step_Scheduler
    by (auto simp: add_request_def step_add_request_def Let_def split: sum.splits if_splits prod.splits)
  have p: "request_progress s1 = request_progress s" "r = req_id req"
    using a by (auto simp: add_request_with_request_id_def split: if_splits)
  have ph: "phase_of s' = phase_of s1" by (rule phase_states_cong) (simp add: s')
  from add_internal_ok [OF assms(1) [unfolded Step_Scheduler] a, of "request_progress s'"] p ph show ?thesis
    by (auto simp: s' dict_get_set Step_Scheduler split: if_splits)
qed

lemma add_request_fail:
  "add_request kind req s = (Inl e, s') \<Longrightarrow> s' = s"
  by (auto simp: add_request_def step_add_request_def add_request_with_request_id_def Let_def
      split: scheduler_kind.splits sum.splits if_splits prod.splits)

lemma sched_ok_get:
  assumes "sched_ok kind s" "dict_get (request_states s) rid = Some st"
  shows "drs_request_id st = rid" "drs_key st = build_sampling_params_key kind (drs_req st)"
    and "kind = Step_Scheduler \<Longrightarrow> dict_get (request_progress s) rid \<noteq> None"
    and "drs_status st = RUNNING \<Longrightarrow> drs_key st = running_key s"
proof -
  from assms have "state_ok kind (request_progress s) (running_key s) rid st"
    by (simp add: sched_ok_def states_ok_def)
  then show "drs_request_id st = rid" "drs_key st = build_sampling_params_key kind (drs_req st)"
    "kind = Step_Scheduler \<Longrightarrow> dict_get (request_progress s) rid \<noteq> None"
    "drs_status st = RUNNING \<Longrightarrow> drs_key st = running_key s"
    unfolding state_ok_def by blast+
qed

lemma sched_ok_queues:
  assumes "sched_ok kind s"
  shows "rid \<in> set (waiting s) \<longleftrightarrow> phase_of s rid = Queued"
    and "rid \<in> set (running s) \<longleftrightarrow> phase_of s rid = Active"
  using assms by (auto simp: sched_ok_def queues_ok_def)

lemma phase_get: "phase_of s rid \<noteq> Absent \<longleftrightarrow> (\<exists>st. dict_get (request_states s) rid = Some st)"
  by (auto simp: phase_of_def status_phase_iff split: option.splits)

lemma running_state:
  assumes "sched_ok kind s" "rid \<in> set (running s)"
  shows "\<exists>st. dict_get (request_states s) rid = Some st \<and> drs_status st = RUNNING \<and>
     drs_key st = running_key s \<and> running_key s \<noteq> None"
proof -
  have "phase_of s rid = Active" using sched_ok_queues [OF assms(1)] assms(2) by simp
  then obtain st where st: "dict_get (request_states s) rid = Some st" "drs_status st = RUNNING"
    by (auto simp: phase_of_def status_phase_iff split: option.splits)
  with sched_ok_get [OF assms(1) st(1)] build_key_Some [of kind "drs_req st"] show ?thesis by auto
qed

lemma can_schedule_exact:
  assumes "sched_ok kind (s\<lparr>waiting := w\<rparr>)"
  shows "can_schedule_waiting st s = (running s = [] \<or> running_key s = drs_key st, s)"
proof (cases "running s")
  case (Cons r rs)
  then have "r \<in> set (running (s\<lparr>waiting := w\<rparr>))" by simp
  from running_state [OF assms this] Cons show ?thesis
    by (auto simp: can_schedule_waiting_def current_sampling_params_key_def Let_def)
qed (simp add: can_schedule_waiting_def)

lemma start_request_ok:
  assumes ok: "sched_ok kind (s\<lparr>waiting := rid # q\<rparr>)" and cap: "length (running s) < max_num_running_reqs s"
      and st: "dict_get (request_states s) rid = Some st"
      and key: "running s = [] \<or> running_key s = drs_key st"
  shows "sched_ok kind ((start_request rid st s)\<lparr>waiting := q\<rparr>) \<and>
     phase_of (start_request rid st s) = (phase_of s)(rid := Active)"
proof -
  have ph0: "phase_of (s\<lparr>waiting := w\<rparr>) = phase_of s" for w by (rule phase_states_cong) simp
  have ph: "phase_of (start_request rid st s) = (phase_of s)(rid := Active)"
    using st by (auto simp: start_request_def phase_of_def fun_eq_iff dict_get_set)
  have ph1: "phase_of ((start_request rid st s)\<lparr>waiting := q\<rparr>) = (phase_of s)(rid := Active)"
    unfolding ph [symmetric] by (rule phase_states_cong) simp
  have q: "phase_of s rid = Queued" "rid \<notin> set q" "rid \<notin> set (running s)"
    using sched_ok_queues [OF ok, of rid] ok by (auto simp: ph0 sched_ok_def queues_ok_def)
  have "queues_ok ((start_request rid st s)\<lparr>waiting := q\<rparr>)"
    using ok cap q unfolding sched_ok_def queues_ok_def ph0 ph1
    by (auto simp: start_request_def)
  moreover have "states_ok kind ((start_request rid st s)\<lparr>waiting := q\<rparr>)"
  proof (rule states_ok_mono [of kind "s\<lparr>waiting := rid # q\<rparr>"])
    show "states_ok kind (s\<lparr>waiting := rid # q\<rparr>)" using ok by (simp add: sched_ok_def)
    have "running s = [] \<Longrightarrow> dict_get (request_states s) r = Some t \<Longrightarrow> drs_status t \<noteq> RUNNING" for r t
      using sched_ok_queues(2) [OF ok, of r] by (auto simp: ph0 phase_of_def)
    then show "running_key ((start_request rid st s)\<lparr>waiting := q\<rparr>) = running_key (s\<lparr>waiting := rid # q\<rparr>) \<or>
       (\<forall>r t. dict_get (request_states ((start_request rid st s)\<lparr>waiting := q\<rparr>)) r = Some t \<and>
          drs_status t = RUNNING \<longrightarrow> drs_key t = running_key ((start_request rid st s)\<lparr>waiting := q\<rparr>))"
      by (cases "running s = []") (auto simp: start_request_def dict_get_set)
  qed (use sched_ok_get [OF ok] st key in \<open>auto simp: start_request_def dict_get_set state_ok_def split: if_splits\<close>)
  ultimately show ?thesis using ph by (simp add: sched_ok_def)
qed

text \<open>What one scheduling round does: it starts a prefix of the waiting queue, in order.\<close>

lemma schedule_waiting_run:
  assumes "sched_ok kind (s\<lparr>waiting := q\<rparr>)" "schedule_waiting q new cached s = (new', cached', s')"
  shows "\<exists>adm. sched_ok kind s' \<and> q = adm @ waiting s' \<and> running s' = running s @ adm \<and>
     phase_of s' = (\<lambda>r. if r \<in> set adm then Active else phase_of s r) \<and>
     set (map fst new') \<union> set cached' = set (map fst new) \<union> set cached \<union> set adm \<and>
     finished_ids s' = finished_ids s \<and> max_num_running_reqs s' = max_num_running_reqs s \<and>
     (waiting s' = [] \<or> length (running s') \<ge> max_num_running_reqs s' \<or>
        (running s' \<noteq> [] \<and> (\<exists>st. dict_get (request_states s') (hd (waiting s')) = Some st \<and>
           drs_key st \<noteq> running_key s')))"
  using assms
proof (induction q new cached s rule: schedule_waiting.induct)
  case (1 new cached s)
  then show ?case by (auto intro: phase_states_cong)
next
  case (2 rid queue new cached s)
  have ph0: "phase_of (s\<lparr>waiting := w\<rparr>) = phase_of s" for w by (rule phase_states_cong) simp
  show ?case
  proof (cases "length (running s) \<ge> max_num_running_reqs s")
    case True
    with 2 ph0 show ?thesis by auto
  next
    case False
    have "phase_of s rid = Queued" using sched_ok_queues [OF 2(4), of rid] by (simp add: ph0)
    then obtain st where st: "dict_get (request_states s) rid = Some st"
      using phase_get [of s rid] by auto
    note cs = can_schedule_exact [OF 2(4), of st]
    show ?thesis
    proof (cases "running s = [] \<or> running_key s = drs_key st")
      case False' : False
      with 2 st cs False ph0 show ?thesis by auto
    next
      case True
      note so = start_request_ok [OF 2(4) _ st True]
      have cs': "(True, s) = can_schedule_waiting st s" using cs True by simp
      let ?s1 = "start_request rid st s"
      define n1 where "n1 = (if drs_status st = WAITING then new @ [(drs_request_id st, drs_req st)] else new)"
      define c1 where "c1 = (if drs_status st = WAITING then cached else cached @ [rid])"
      have run: "schedule_waiting queue n1 c1 ?s1 = (new', cached', s')"
        using 2(5) False st cs True by (auto simp: n1_def c1_def split: if_splits)
      have "\<exists>adm. sched_ok kind s' \<and> queue = adm @ waiting s' \<and> running s' = running ?s1 @ adm \<and>
         phase_of s' = (\<lambda>r. if r \<in> set adm then Active else phase_of ?s1 r) \<and>
         set (map fst new') \<union> set cached' = set (map fst n1) \<union> set c1 \<union> set adm \<and>
         finished_ids s' = finished_ids ?s1 \<and> max_num_running_reqs s' = max_num_running_reqs ?s1 \<and>
         (waiting s' = [] \<or> length (running s') \<ge> max_num_running_reqs s' \<or>
            (running s' \<noteq> [] \<and> (\<exists>st. dict_get (request_states s') (hd (waiting s')) = Some st \<and>
               drs_key st \<noteq> running_key s')))"
      proof (cases "drs_status st = WAITING")
        case w: True
        show ?thesis using 2(2) [OF False st cs' refl w] so False run w by (simp add: n1_def c1_def)
      next
        case w: False
        show ?thesis using 2(3) [OF False st cs' refl w] so False run w by (simp add: n1_def c1_def)
      qed
      then obtain adm where adm: "sched_ok kind s'" "queue = adm @ waiting s'" "running s' = running ?s1 @ adm"
         "phase_of s' = (\<lambda>r. if r \<in> set adm then Active else phase_of ?s1 r)"
         "set (map fst new') \<union> set cached' = set (map fst n1) \<union> set c1 \<union> set adm"
         "finished_ids s' = finished_ids ?s1" "max_num_running_reqs s' = max_num_running_reqs ?s1"
         "waiting s' = [] \<or> length (running s') \<ge> max_num_running_reqs s' \<or>
            (running s' \<noteq> [] \<and> (\<exists>st. dict_get (request_states s') (hd (waiting s')) = Some st \<and>
               drs_key st \<noteq> running_key s'))" by blast
      have id: "drs_request_id st = rid" using sched_ok_get(1) [OF 2(4), of rid st] st by simp
      show ?thesis
        by (rule exI [of _ "rid # adm"])
          (use adm so False id in \<open>auto simp: start_request_def n1_def c1_def fun_eq_iff\<close>)
    qed
  qed
qed

lemma schedule_run:
  assumes "sched_ok kind s" "schedule s = (so, s')"
  shows "\<exists>adm. sched_ok kind s' \<and> waiting s = adm @ waiting s' \<and> running s' = running s @ adm \<and>
     phase_of s' = (\<lambda>r. if r \<in> set adm then Active else phase_of s r) \<and>
     set (scheduled_request_ids so) = set (running s') \<and>
     out_finished_req_ids so = finished_ids s \<and> finished_ids s' = [] \<and>
     (waiting s' = [] \<or> length (running s') \<ge> max_num_running_reqs s' \<or>
        (running s' \<noteq> [] \<and> (\<exists>st. dict_get (request_states s') (hd (waiting s')) = Some st \<and>
           drs_key st \<noteq> running_key s')))"
proof -
  have live: "filter (\<lambda>rid. dict_get (request_states s) rid \<noteq> None) (running s) = running s"
    using running_state [OF assms(1)] by (fastforce intro: filter_True)
  obtain new cached s1 where run: "schedule_waiting (waiting s) [] (running s) s = (new, cached, s1)"
    by (metis prod_cases3)
  have ok: "sched_ok kind (s\<lparr>waiting := waiting s\<rparr>)" using assms(1) by simp
  from schedule_waiting_run [OF ok run] obtain adm where adm: "sched_ok kind s1"
     "waiting s = adm @ waiting s1" "running s1 = running s @ adm"
     "phase_of s1 = (\<lambda>r. if r \<in> set adm then Active else phase_of s r)"
     "set (map fst new) \<union> set cached = set (map fst ([] :: (string \<times> 'a OmniDiffusionRequest) list)) \<union> set (running s) \<union> set adm"
     "finished_ids s1 = finished_ids s" "max_num_running_reqs s1 = max_num_running_reqs s"
     "waiting s1 = [] \<or> length (running s1) \<ge> max_num_running_reqs s1 \<or>
        (running s1 \<noteq> [] \<and> (\<exists>st. dict_get (request_states s1) (hd (waiting s1)) = Some st \<and>
           drs_key st \<noteq> running_key s1))" by blast
  have s': "s' = s1\<lparr>step_id := step_id s1 + 1, finished_ids := []\<rparr>"
    and so: "scheduled_new_reqs so = new" "scheduled_cached_reqs so = cached" "out_finished_req_ids so = finished_ids s1"
    using assms(2) live run by (auto simp: schedule_def Let_def)
  have ph: "phase_of s' = phase_of s1" by (rule phase_states_cong) (simp add: s')
  have "sched_ok kind s'"
    using adm(1) ph by (simp add: sched_ok_def queues_ok_def states_ok_def s')
  then show ?thesis
    by (intro exI [of _ adm]) (use adm ph so in \<open>simp add: s' scheduled_request_ids_def\<close>)
qed

lemma idle_no_running:
  assumes "queues_ok s" "running s = []" "dict_get (request_states s) r = Some st"
  shows "drs_status st \<noteq> RUNNING"
proof
  assume "drs_status st = RUNNING"
  then have "phase_of s r = Active" using assms(3) by (simp add: phase_of_def)
  then show False using assms(1,2) by (auto simp: queues_ok_def)
qed

lemma fold_mark_get:
  "dict_get (fold (mark_finished statuses errors) ids d) r =
     (case dict_get d r of
        None \<Rightarrow> None
      | Some st \<Rightarrow>
          (case dict_get statuses r of
             None \<Rightarrow> Some st
           | Some status \<Rightarrow>
               if r \<in> set ids
               then Some (st\<lparr>drs_status := status,
                  drs_error := (if status = FINISHED_ERROR
                     then (case dict_get errors r of None \<Rightarrow> None | Some e \<Rightarrow> e) else None)\<rparr>)
               else Some st))"
proof (induction ids arbitrary: d)
  case (Cons i ids)
  show ?case
    by (simp add: Cons.IH) (auto simp: mark_finished_def dict_get_set split: option.splits)
qed (simp split: option.splits)

lemma finish_internal_run:
  assumes ok: "sched_ok kind s" and fin: "\<forall>p \<in> set statuses. is_finished (snd p)"
      and d: "dict_ok statuses"
  shows "\<exists>ids s'. finish_requests_internal statuses errors s = (Inr ids, s') \<and> sched_ok kind s' \<and>
     set ids = {rid \<in> set (dict_keys statuses). phase_of s rid \<in> {Queued, Active}} \<and> distinct ids \<and>
     phase_of s' = (\<lambda>r. if r \<in> set ids then Done else phase_of s r) \<and>
     waiting s' = filter (\<lambda>r. r \<notin> set ids) (waiting s) \<and> running s' = filter (\<lambda>r. r \<notin> set ids) (running s) \<and>
     finished_ids s' = set_union (finished_ids s) ids \<and> max_num_running_reqs s' = max_num_running_reqs s"
proof (cases "statuses = []")
  case True
  with ok show ?thesis by (simp add: finish_requests_internal_def set_union_def)
next
  case False
  let ?ids = "filter (unfinished_in s) (dict_keys statuses)"
  define s' where f: "s' = s\<lparr>running := filter (\<lambda>r. r \<notin> set ?ids) (running s),
      running_key := (if filter (\<lambda>r. r \<notin> set ?ids) (running s) = [] \<and> (\<exists>rid \<in> set ?ids. rid \<in> set (running s))
                      then None else running_key s),
      waiting := filter (\<lambda>r. r \<notin> set ?ids) (waiting s),
      request_states := fold (mark_finished statuses errors) ?ids (request_states s),
      finished_ids := set_union (finished_ids s) ?ids\<rparr>"
  have nf: "\<not> (\<exists>(rid, status) \<in> set statuses. \<not> is_finished status)" using fin by auto
  have s': "finish_requests_internal statuses errors s = (Inr ?ids, s')"
    unfolding finish_requests_internal_def f using False nf by (simp only: if_False Let_def)
  have get: "dict_get statuses r = Some st \<Longrightarrow> is_finished st" for r st
    using fin by (force dest: map_of_SomeD)
  have key: "r \<in> set (dict_keys statuses) \<longleftrightarrow> (\<exists>st. dict_get statuses r = Some st)" for r
    using dict_get_None_iff [of statuses r] by auto
  have ph: "phase_of s' = (\<lambda>r. if r \<in> set ?ids then Done else phase_of s r)"
  proof (rule ext)
    fix r
    show "phase_of s' r = (if r \<in> set ?ids then Done else phase_of s r)"
      using get [of r] key [of r]
      by (auto simp: f phase_of_def fold_mark_get unfinished_in_def is_finished_phase split: option.splits)
  qed
  have "queues_ok s'"
    using ok unfolding sched_ok_def queues_ok_def ph
    by (auto simp: f intro: le_trans [OF length_filter_le])
  moreover have "states_ok kind s'"
  proof (rule states_ok_mono [of kind s])
    fix r st assume g: "dict_get (request_states s') r = Some st"
    have fs: "is_finished status \<Longrightarrow> status \<noteq> RUNNING" for status
      by (auto simp: is_finished_phase)
    from g sched_ok_get [OF ok, of r] get [of r] fs show
      "dict_get (request_states s) r = Some st \<or> state_ok kind (request_progress s') (running_key s') r st"
      by (auto simp: f fold_mark_get state_ok_def split: option.splits if_splits)
  next
    show "running_key s' = running_key s \<or> (\<forall>r st. dict_get (request_states s') r = Some st \<and>
        drs_status st = RUNNING \<longrightarrow> drs_key st = running_key s')"
    proof (cases "running s' = []")
      case True
      have "drs_status st \<noteq> RUNNING" if "dict_get (request_states s') r = Some st" for r st
        using idle_no_running [OF \<open>queues_ok s'\<close> True that] .
      then show ?thesis by blast
    qed (use f in auto)
  qed (use ok f in \<open>auto simp: sched_ok_def\<close>)
  ultimately have "sched_ok kind s'" by (simp add: sched_ok_def)
  moreover have "set ?ids = {rid \<in> set (dict_keys statuses). phase_of s rid \<in> {Queued, Active}}"
    by (auto simp: unfinished_phase)
  moreover have "waiting s' = filter (\<lambda>r. r \<notin> set ?ids) (waiting s)"
    "running s' = filter (\<lambda>r. r \<notin> set ?ids) (running s)"
    "finished_ids s' = set_union (finished_ids s) ?ids" "max_num_running_reqs s' = max_num_running_reqs s"
    unfolding f by simp_all
  moreover have "distinct ?ids" using d by simp
  ultimately show ?thesis using s' ph by blast
qed

lemma finish_ids_dict:
  assumes "dict_ok d"
  shows "dict_ok (fold (\<lambda>rid d. dict_set rid status d) rids d)"
    and "set (dict_keys (fold (\<lambda>rid d. dict_set rid status d) rids d)) = set (dict_keys d) \<union> set rids"
  using assms by (induction rids arbitrary: d) (auto simp: dict_keyset_set)

lemma finish_ids_values:
  "p \<in> set (fold (\<lambda>rid d. dict_set rid status d) rids d) \<Longrightarrow> p \<in> set d \<or> snd p = status"
proof (induction rids arbitrary: d)
  case (Cons k rids)
  have u: "p \<in> set (dict_set k status d) \<Longrightarrow> p \<in> set d \<or> snd p = status"
    by (induction d) (auto split: if_splits)
  from Cons.IH [of "dict_set k status d"] Cons.prems u show ?case by auto
qed simp

lemma finish_requests_run:
  assumes "sched_ok kind s" "is_finished status"
  shows "\<exists>ids s'. finish_requests rids status s = (Inr (), s') \<and> sched_ok kind s' \<and>
     set ids = {rid \<in> set rids. phase_of s rid \<in> {Queued, Active}} \<and> distinct ids \<and>
     phase_of s' = (\<lambda>r. if r \<in> set ids then Done else phase_of s r) \<and>
     waiting s' = filter (\<lambda>r. r \<notin> set ids) (waiting s) \<and> running s' = filter (\<lambda>r. r \<notin> set ids) (running s) \<and>
     finished_ids s' = set_union (finished_ids s) ids"
proof -
  let ?d = "fold (\<lambda>rid d. dict_set rid status d) rids []"
  have d: "dict_ok ?d" "set (dict_keys ?d) = set rids" "\<forall>p \<in> set ?d. is_finished (snd p)"
    using finish_ids_dict [where d = "[]" and status = status and rids = rids]
      finish_ids_values [where d = "[]" and status = status and rids = rids] assms(2) by fastforce+
  from finish_internal_run [OF assms(1) d(3,1), where errors = "[]"] obtain ids s' where
    "finish_requests_internal ?d [] s = (Inr ids, s')" "sched_ok kind s'"
    "set ids = {rid \<in> set (dict_keys ?d). phase_of s rid \<in> {Queued, Active}}" "distinct ids"
    "phase_of s' = (\<lambda>r. if r \<in> set ids then Done else phase_of s r)"
    "waiting s' = filter (\<lambda>r. r \<notin> set ids) (waiting s)" "running s' = filter (\<lambda>r. r \<notin> set ids) (running s)"
    "finished_ids s' = set_union (finished_ids s) ids" by blast
  then show ?thesis
    using assms(2) d(2) by (intro exI [of _ ids] exI [of _ s']) (simp add: finish_requests_def)
qed

lemma preempt_run:
  assumes "sched_ok kind s" "preempt_request rid s = (b, s')"
  shows "sched_ok kind s' \<and> b = (phase_of s rid = Active) \<and>
     (if b then phase_of s' = (phase_of s)(rid := Queued) \<and> waiting s' = rid # waiting s \<and>
                running s' = remove1 rid (running s) \<and> finished_ids s' = finished_ids s
      else s' = s)"
proof (cases "phase_of s rid = Active")
  case False
  then have "(b, s') = (False, s)"
    using assms(2) sched_ok_queues(2) [OF assms(1), of rid]
    by (auto simp: preempt_request_def split: option.splits)
  with False assms(1) show ?thesis by simp
next
  case True
  then have mem: "rid \<in> set (running s)" using sched_ok_queues [OF assms(1)] by simp
  from running_state [OF assms(1) this] obtain st where st: "dict_get (request_states s) rid = Some st" by blast
  let ?run = "remove1 rid (running s)"
  have s': "b" "s' = s\<lparr>running := ?run, running_key := (if ?run = [] then None else running_key s),
      waiting := rid # waiting s, request_states := dict_set rid (st\<lparr>drs_status := PREEMPTED\<rparr>) (request_states s)\<rparr>"
    using assms(2) st mem by (auto simp: preempt_request_def Let_def)
  have ph: "phase_of s' = (phase_of s)(rid := Queued)"
    by (auto simp: s' phase_of_def fun_eq_iff dict_get_set)
  have q: "queues_ok s'"
    using assms(1) True mem unfolding sched_ok_def queues_ok_def ph
    by (auto simp: s' length_remove1)
  moreover have "states_ok kind s'"
  proof (rule states_ok_mono [of kind s])
    show "running_key s' = running_key s \<or> (\<forall>r st. dict_get (request_states s') r = Some st \<and>
        drs_status st = RUNNING \<longrightarrow> drs_key st = running_key s')"
    proof (cases "running s' = []")
      case True
      with idle_no_running [OF q True] show ?thesis by blast
    qed (use s' in auto)
  qed (use assms(1) sched_ok_get [OF assms(1) st] in \<open>auto simp: sched_ok_def s' dict_get_set state_ok_def split: if_splits\<close>)
  ultimately show ?thesis using True ph by (simp add: sched_ok_def s')
qed

lemma pop_run:
  assumes "sched_ok kind s" "phase_of s rid \<in> {Absent, Done}" "pop_request_state rid s = (r, s')"
  shows "sched_ok kind s' \<and> r = dict_get (request_states s) rid \<and> phase_of s' = (phase_of s)(rid := Absent) \<and>
     waiting s' = waiting s \<and> running s' = running s \<and> finished_ids s' = finished_ids s"
proof -
  have s': "r = dict_get (request_states s) rid" "s' = s\<lparr>request_progress := dict_del rid (request_progress s),
      request_states := dict_del rid (request_states s)\<rparr>"
    using assms(3) by (simp_all add: pop_request_state_def)
  have ph: "phase_of s' = (phase_of s)(rid := Absent)"
    by (auto simp: s' phase_of_def fun_eq_iff dict_get_del)
  have "queues_ok s'"
    using assms(1,2) unfolding sched_ok_def queues_ok_def ph by (auto simp: s')
  moreover have "states_ok kind s'"
    by (rule states_ok_mono [of kind s])
      (use assms(1) in \<open>auto simp: sched_ok_def s' dict_get_del split: if_splits\<close>)
  ultimately show ?thesis using s' ph by (simp add: sched_ok_def)
qed

lemma close_ok: "sched_ok kind s \<Longrightarrow> sched_ok kind (close_scheduler s)"
  by (auto simp: sched_ok_def queues_ok_def states_ok_def close_scheduler_def phase_of_def)

section \<open>Updates\<close>

text \<open>A terminal verdict is always a finished status.\<close>

definition terms_ok :: "terminals \<Rightarrow> bool" where
  "terms_ok ts \<longleftrightarrow> dict_ok ts \<and> (\<forall>p \<in> set ts. is_finished (fst (snd p)))"

lemma terms_ok_Nil [simp]: "terms_ok []"
  by (simp add: terms_ok_def)

lemma set_dict_set_sub: "p \<in> set (dict_set k v d) \<Longrightarrow> p \<in> set d \<or> p = (k, v)"
  by (induction d) (auto split: if_splits)

lemma terms_ok_set: "terms_ok ts \<Longrightarrow> is_finished (fst v) \<Longrightarrow> terms_ok (dict_set k v ts)"
  by (auto simp: terms_ok_def dest: set_dict_set_sub)

lemma terms_ok_statuses:
  assumes "terms_ok ts"
  shows "dict_ok (map (\<lambda>(rid, st, e). (rid, st)) ts)"
    and "\<forall>p \<in> set (map (\<lambda>(rid, st, e). (rid, st)) ts). is_finished (snd p)"
    and "dict_keys (map (\<lambda>(rid, st, e). (rid, st)) ts) = dict_keys ts"
proof -
  show k: "dict_keys (map (\<lambda>(rid, st, e). (rid, st)) ts) = dict_keys ts"
    by (simp add: case_prod_beta comp_def)
  show "dict_ok (map (\<lambda>(rid, st, e). (rid, st)) ts)"
    unfolding k using assms by (simp add: terms_ok_def)
  show "\<forall>p \<in> set (map (\<lambda>(rid, st, e). (rid, st)) ts). is_finished (snd p)"
    using assms by (auto simp: terms_ok_def)
qed

lemma request_verdict_finished: "is_finished (fst (request_verdict ro))"
  by (auto simp: request_verdict_def is_finished_phase split: option.split list.split)

lemma request_terminals_run:
  "terms_ok acc \<Longrightarrow> terms_ok (request_terminals out rids s acc) \<and>
     set (dict_keys (request_terminals out rids s acc)) =
     set (dict_keys acc) \<union> {rid \<in> set rids. unfinished_in s rid}"
proof (induction rids arbitrary: acc)
  case (Cons r rids)
  show ?case
  proof (cases "unfinished_in s r")
    case True
    have "terms_ok (dict_set r (request_verdict (get_request_output out r)) acc)"
      using Cons.prems by (intro terms_ok_set request_verdict_finished)
    from Cons.IH [OF this] True show ?thesis by (auto simp: dict_keyset_set)
  next
    case False
    with Cons.IH [OF Cons.prems] show ?thesis by auto
  qed
qed simp

lemma step_terminal_finished: "step_verdict ro = Step_Terminal st e \<Longrightarrow> is_finished st"
  by (auto simp: step_verdict_def is_finished_phase split: option.splits if_splits)

lemma advance_step_ok:
  assumes "sched_ok kind s"
  shows "sched_ok kind (advance_step rid i fin s) \<and> phase_of (advance_step rid i fin s) = phase_of s \<and>
     waiting (advance_step rid i fin s) = waiting s \<and> running (advance_step rid i fin s) = running s \<and>
     finished_ids (advance_step rid i fin s) = finished_ids s \<and>
     max_num_running_reqs (advance_step rid i fin s) = max_num_running_reqs s"
proof (cases "\<exists>st pg. dict_get (request_states s) rid = Some st \<and> dict_get (request_progress s) rid = Some pg")
  case False
  then have "advance_step rid i fin s = s"
    by (auto simp: advance_step_def split: option.splits)
  with assms show ?thesis by simp
next
  case True
  then obtain st pg where g: "dict_get (request_states s) rid = Some st"
     "dict_get (request_progress s) rid = Some pg" by blast
  let ?st = "st\<lparr>drs_req := (drs_req st)\<lparr>req_step_index := Some i\<rparr>, drs_error := (if fin then drs_error st else None)\<rparr>"
  let ?s = "advance_step rid i fin s"
  have s': "?s = s\<lparr>request_progress := dict_set rid (pg\<lparr>current_step := i\<rparr>) (request_progress s),
      request_states := dict_set rid ?st (request_states s)\<rparr>"
    using g by (simp add: advance_step_def)
  have ph: "phase_of ?s = phase_of s"
    using g by (auto simp: s' phase_of_def fun_eq_iff dict_get_set)
  have "queues_ok ?s"
    using assms unfolding sched_ok_def queues_ok_def ph by (simp add: s')
  moreover have "build_sampling_params_key kind (drs_req ?st) = build_sampling_params_key kind (drs_req st)"
    by (cases kind) (simp_all add: build_sampling_params_key_def get_sampling_params_key_def
        get_request_batch_sampling_params_key_def)
  then have so: "state_ok kind (request_progress ?s) (running_key ?s) rid ?st"
    using sched_ok_get [OF assms g(1)] by (simp add: s' state_ok_def dict_get_set)
  have "states_ok kind ?s"
  proof (rule states_ok_mono [of kind s])
    fix r t assume "dict_get (request_states ?s) r = Some t"
    then show "dict_get (request_states s) r = Some t \<or> state_ok kind (request_progress ?s) (running_key ?s) r t"
      using so by (cases "r = rid") (simp_all add: s' dict_get_set)
  qed (use assms in \<open>simp_all add: sched_ok_def s' dict_get_set\<close>)
  ultimately show ?thesis using ph by (simp add: sched_ok_def s')
qed

definition step_done :: "'o base_runner_output \<Rightarrow> string \<Rightarrow> bool" where
  "step_done out rid = (case step_verdict (get_request_output out rid) of
     Step_Terminal st e \<Rightarrow> True | Step_Advance i fin \<Rightarrow> fin)"

lemma step_terminals_run:
  assumes "sched_ok Step_Scheduler s" "terms_ok acc" "step_terminals out rids s acc = (ts, s')"
  shows "terms_ok ts \<and> sched_ok Step_Scheduler s' \<and> phase_of s' = phase_of s \<and> waiting s' = waiting s \<and>
     running s' = running s \<and> finished_ids s' = finished_ids s \<and>
     max_num_running_reqs s' = max_num_running_reqs s \<and>
     set (dict_keys ts) = set (dict_keys acc) \<union> {rid \<in> set rids. unfinished_in s rid \<and> step_done out rid}"
  using assms
proof (induction rids arbitrary: s acc)
  case (Cons r rids)
  show ?case
  proof (cases "unfinished_in s r")
    case False
    with Cons.IH [OF Cons.prems(1,2)] Cons.prems(3) show ?thesis by auto
  next
    case True
    then have "dict_get (request_progress s) r \<noteq> None"
      using sched_ok_get(3) [OF Cons.prems(1), of r] by (auto simp: unfinished_in_def split: option.splits)
    note go = True this
    show ?thesis
    proof (cases "step_verdict (get_request_output out r)")
      case v: (Step_Terminal st e)
      have "terms_ok (dict_set r (st, e) acc)"
        using terms_ok_set [OF Cons.prems(2)] step_terminal_finished [OF v] by simp
      from Cons.IH [OF Cons.prems(1) this] Cons.prems(3) go v show ?thesis
        by (auto simp: dict_keyset_set step_done_def)
    next
      case v: (Step_Advance i fin)
      note a = advance_step_ok [OF Cons.prems(1), of r i fin]
      have u: "unfinished_in (advance_step r i fin s) x = unfinished_in s x" for x
        using a by (simp add: unfinished_phase)
      have t: "terms_ok (if fin then dict_set r (FINISHED_COMPLETED, None) acc else acc)"
        using terms_ok_set [OF Cons.prems(2)] Cons.prems(2) by (simp add: is_finished_phase)
      from Cons.IH [OF conjunct1 [OF a] t] Cons.prems(3) go v a show ?thesis
        by (auto simp: dict_keyset_set step_done_def u split: if_splits)
    qed
  qed
qed simp

lemma set_set_union [simp]: "set (set_union xs ys) = set xs \<union> set ys"
  by (auto simp: set_union_def)

lemma finalize_run:
  assumes ok: "sched_ok kind s" and ts: "terms_ok ts"
  shows "\<exists>fin ids s'. finalize_update_from_output so ts s = (Inr fin, s') \<and> sched_ok kind s' \<and>
     set ids = {rid \<in> set (dict_keys ts). phase_of s rid \<in> {Queued, Active}} \<and> distinct ids \<and>
     phase_of s' = (\<lambda>r. if r \<in> set ids then Done else phase_of s r) \<and>
     waiting s' = filter (\<lambda>r. r \<notin> set ids) (waiting s) \<and> running s' = filter (\<lambda>r. r \<notin> set ids) (running s) \<and>
     finished_ids s' = set_union (finished_ids s) ids \<and>
     set fin = set ids \<union> (set (scheduled_request_ids so) \<inter> set (finished_ids s))"
proof -
  let ?sts = "map (\<lambda>(rid, st, e). (rid, st)) ts" and ?errs = "map (\<lambda>(rid, st, e). (rid, e)) ts"
  note k = terms_ok_statuses [OF ts]
  from finish_internal_run [OF ok k(2,1), where errors = ?errs] obtain ids s' where r:
    "finish_requests_internal ?sts ?errs s = (Inr ids, s')" "sched_ok kind s'"
    "set ids = {rid \<in> set (dict_keys ?sts). phase_of s rid \<in> {Queued, Active}}" "distinct ids"
    "phase_of s' = (\<lambda>r. if r \<in> set ids then Done else phase_of s r)"
    "waiting s' = filter (\<lambda>r. r \<notin> set ids) (waiting s)" "running s' = filter (\<lambda>r. r \<notin> set ids) (running s)"
    "finished_ids s' = set_union (finished_ids s) ids" by blast
  let ?hit = "remdups (filter (\<lambda>rid. rid \<in> set (finished_ids s)) (scheduled_request_ids so))"
  have "finalize_update_from_output so ts s = (Inr (set_union ?hit ids), s')"
    using r(1) by (simp add: finalize_update_from_output_def)
  moreover have "set (set_union ?hit ids) = set ids \<union> (set (scheduled_request_ids so) \<inter> set (finished_ids s))"
    by auto
  ultimately show ?thesis using r(2-8) unfolding k(3) by blast
qed

text \<open>The requests an update finishes: all scheduled live ones, or those whose step is the last.\<close>

definition completes :: "scheduler_kind \<Rightarrow> 'o base_runner_output \<Rightarrow> string \<Rightarrow> bool" where
  "completes kind out rid = (case kind of Request_Scheduler \<Rightarrow> True | Step_Scheduler \<Rightarrow> step_done out rid)"

lemma update_run:
  assumes ok: "sched_ok kind s"
  shows "\<exists>fin ids s'. update_from_output kind so out s = (Inr fin, s') \<and> sched_ok kind s' \<and>
     set ids = {rid \<in> set (scheduled_request_ids so). phase_of s rid \<in> {Queued, Active} \<and> completes kind out rid} \<and>
     distinct ids \<and> phase_of s' = (\<lambda>r. if r \<in> set ids then Done else phase_of s r) \<and>
     waiting s' = filter (\<lambda>r. r \<notin> set ids) (waiting s) \<and> running s' = filter (\<lambda>r. r \<notin> set ids) (running s) \<and>
     finished_ids s' = set_union (finished_ids s) ids \<and>
     set fin = set ids \<union> (set (scheduled_request_ids so) \<inter> set (finished_ids s))"
proof (cases "scheduled_request_ids so = []")
  case True
  with ok show ?thesis
    by (intro exI [of _ "[]"] exI [of _ s]) (simp add: update_from_output_def set_union_def)
next
  case ne: False
  show ?thesis
  proof (cases kind)
    case Request_Scheduler
    let ?ts = "request_terminals out (scheduled_request_ids so) s []"
    have ts: "terms_ok ?ts" "set (dict_keys ?ts) = {rid \<in> set (scheduled_request_ids so). unfinished_in s rid}"
      using request_terminals_run [of "[]" out "scheduled_request_ids so" s] by simp_all
    have "{rid \<in> set (dict_keys ?ts). phase_of s rid \<in> {Queued, Active}} =
        {rid \<in> set (scheduled_request_ids so). phase_of s rid \<in> {Queued, Active} \<and> completes kind out rid}"
      unfolding ts(2) by (auto simp: unfinished_phase completes_def Request_Scheduler)
    note e1 = this
    have e2: "update_from_output kind so out s = finalize_update_from_output so ?ts s"
      using ne Request_Scheduler by (simp add: update_from_output_def)
    show ?thesis unfolding e1 [symmetric] e2 by (rule finalize_run [OF ok ts(1)])
  next
    case Step_Scheduler
    obtain ts s1 where st: "step_terminals out (scheduled_request_ids so) s [] = (ts, s1)" by fastforce
    have r: "terms_ok ts" "sched_ok kind s1" "phase_of s1 = phase_of s" "waiting s1 = waiting s"
      "running s1 = running s" "finished_ids s1 = finished_ids s"
      "set (dict_keys ts) = {rid \<in> set (scheduled_request_ids so). unfinished_in s rid \<and> step_done out rid}"
      using step_terminals_run [OF ok [unfolded Step_Scheduler] terms_ok_Nil st] Step_Scheduler by simp_all
    have "{rid \<in> set (dict_keys ts). phase_of s1 rid \<in> {Queued, Active}} =
        {rid \<in> set (scheduled_request_ids so). phase_of s rid \<in> {Queued, Active} \<and> completes kind out rid}"
      unfolding r(7) by (auto simp: unfinished_phase completes_def Step_Scheduler r(3))
    note e1 = this
    have e2: "update_from_output kind so out s = finalize_update_from_output so ts s1"
      using ne Step_Scheduler st by (simp add: update_from_output_def)
    show ?thesis
      using finalize_run [OF r(2,1), of so]
      unfolding Step_Scheduler e1 [unfolded r(3) Step_Scheduler, symmetric] e2 [unfolded Step_Scheduler] r(3-6) .
  qed
qed

section \<open>The contract an engine relies on\<close>

text \<open>
  What \<^verbatim>\<open>SchedulerInterface\<close> promises its client: \<open>ph\<close> is the phase of a request, \<open>reports\<close> the ids
  finished since the last scheduling round.
\<close>

locale scheduler_contract =
  fixes ok :: "'s \<Rightarrow> bool"
    and ph :: "'s \<Rightarrow> string \<Rightarrow> phase"
    and reports :: "'s \<Rightarrow> string list"
    and add :: "'r \<Rightarrow> 's \<Rightarrow> (py_exc + string) \<times> 's"
    and sched :: "'s \<Rightarrow> 'so \<times> 's"
    and ids :: "'so \<Rightarrow> string list"
    and seen :: "'so \<Rightarrow> string list"
    and update :: "'so \<Rightarrow> 'out \<Rightarrow> 's \<Rightarrow> (py_exc + string list) \<times> 's"
    and fin :: "string list \<Rightarrow> 's \<Rightarrow> (py_exc + unit) \<times> 's"
    and pop :: "string \<Rightarrow> 's \<Rightarrow> 'st option \<times> 's"
  assumes add_law: "ok s \<Longrightarrow> add q s = (Inr i, s') \<Longrightarrow>
      ok s' \<and> ph s i = Absent \<and> ph s' = (ph s)(i := Queued) \<and> reports s' = reports s"
    and add_error: "add q s = (Inl e, s') \<Longrightarrow> s' = s"
    and sched_law: "ok s \<Longrightarrow> sched s = (so, s') \<Longrightarrow>
      ok s' \<and> seen so = reports s \<and> reports s' = [] \<and>
      set (ids so) = {r. ph s' r = Active} \<and> (\<forall>r. ph s' r = ph s r \<or> (ph s r = Queued \<and> ph s' r = Active))"
    and sched_progress: "ok s \<Longrightarrow> sched s = (so, s') \<Longrightarrow> ph s r \<in> {Queued, Active} \<Longrightarrow> ids so \<noteq> []"
    and update_law: "ok s \<Longrightarrow> \<exists>rep done s'. update so out s = (Inr rep, s') \<and> ok s' \<and>
      set done \<subseteq> {r \<in> set (ids so). ph s r \<in> {Queued, Active}} \<and>
      ph s' = (\<lambda>r. if r \<in> set done then Done else ph s r) \<and>
      set (reports s') = set (reports s) \<union> set done \<and>
      set rep = set done \<union> (set (ids so) \<inter> set (reports s))"
    and fin_law: "ok s \<Longrightarrow> \<exists>done s'. fin rs s = (Inr (), s') \<and> ok s' \<and>
      set done = {r \<in> set rs. ph s r \<in> {Queued, Active}} \<and>
      ph s' = (\<lambda>r. if r \<in> set done then Done else ph s r) \<and> set (reports s') = set (reports s) \<union> set done"
    and pop_law: "ok s \<Longrightarrow> ph s r \<in> {Absent, Done} \<Longrightarrow> pop r s = (st, s') \<Longrightarrow>
      ok s' \<and> ph s' = (ph s)(r := Absent) \<and> reports s' = reports s \<and> (st = None \<longleftrightarrow> ph s r = Absent)"
begin

text \<open>A request finished between scheduling and the update is reported by the update iff it was scheduled.\<close>

lemma report_window:
  assumes "ok s" "update so out s = (x, s')" "r \<in> set (reports s)" "ph s r \<notin> {Queued, Active}"
  shows "\<exists>rep. x = Inr rep \<and> (r \<in> set rep \<longleftrightarrow> r \<in> set (ids so))"
  using update_law [OF assms(1), of so out] assms(2-4) by auto

text \<open>Once a finished request is out of the reports it stays out.\<close>

lemma gone_add:
  "ok s \<Longrightarrow> ph s r = Done \<Longrightarrow> r \<notin> set (reports s) \<Longrightarrow> add q s = (x, s') \<Longrightarrow>
     ok s' \<and> ph s' r = Done \<and> r \<notin> set (reports s')"
  using add_law [of s q _ s'] add_error [of q s _ s'] by (cases x) fastforce+

lemma gone_sched:
  assumes "ok s" "ph s r = Done" "r \<notin> set (reports s)" "sched s = (so, s')"
  shows "ok s' \<and> ph s' r = Done \<and> r \<notin> set (reports s') \<and> r \<notin> set (seen so) \<and> r \<notin> set (ids so)"
proof -
  have l: "ok s'" "seen so = reports s" "reports s' = []" "set (ids so) = {r. ph s' r = Active}"
    "ph s' r = ph s r \<or> (ph s r = Queued \<and> ph s' r = Active)"
    using sched_law [OF assms(1,4)] by blast+
  with assms show ?thesis by auto
qed

lemma gone_fin:
  "ok s \<Longrightarrow> ph s r = Done \<Longrightarrow> r \<notin> set (reports s) \<Longrightarrow> fin rs s = (x, s') \<Longrightarrow>
     ok s' \<and> ph s' r = Done \<and> r \<notin> set (reports s')"
  using fin_law [of s rs] by auto

lemma gone_update:
  "ok s \<Longrightarrow> ph s r = Done \<Longrightarrow> r \<notin> set (reports s) \<Longrightarrow> update so out s = (x, s') \<Longrightarrow>
     ok s' \<and> ph s' r = Done \<and> r \<notin> set (reports s') \<and> (\<forall>rep. x = Inr rep \<longrightarrow> r \<notin> set rep)"
  using update_law [of s so out] by auto

end

lemma schedule_progress:
  assumes "sched_ok kind s" "schedule s = (so, s')" "waiting s \<noteq> [] \<or> running s \<noteq> []"
  shows "scheduled_request_ids so \<noteq> []"
proof
  assume e: "scheduled_request_ids so = []"
  from schedule_run [OF assms(1,2)] obtain adm where adm: "sched_ok kind s'" "waiting s = adm @ waiting s'"
    "running s' = running s @ adm" "set (scheduled_request_ids so) = set (running s')"
    "waiting s' = [] \<or> length (running s') \<ge> max_num_running_reqs s' \<or> running s' \<noteq> []" by blast
  from adm(4) e have "running s' = []" by simp
  with adm assms(3) show False by (auto simp: sched_ok_def queues_ok_def)
qed

interpretation schedulers: scheduler_contract "sched_ok kind" phase_of finished_ids "add_request kind"
  schedule scheduled_request_ids out_finished_req_ids "update_from_output kind"
  "\<lambda>rids. finish_requests rids FINISHED_ABORTED" pop_request_state for kind
proof unfold_locales
  fix s :: "'a scheduler" and r i s'
  assume "sched_ok kind s" "add_request kind r s = (Inr i, s')"
  from add_request_ok [OF this] show "sched_ok kind s' \<and> phase_of s i = Absent \<and>
     phase_of s' = (phase_of s)(i := Queued) \<and> finished_ids s' = finished_ids s" by blast
next
  fix s :: "'a scheduler" and r e s'
  assume "add_request kind r s = (Inl e, s')"
  then show "s' = s" by (rule add_request_fail)
next
  fix s :: "'a scheduler" and so s'
  assume "sched_ok kind s" "schedule s = (so, s')"
  from schedule_run [OF this] obtain adm where a: "sched_ok kind s'" "waiting s = adm @ waiting s'"
    "phase_of s' = (\<lambda>r. if r \<in> set adm then Active else phase_of s r)"
    "set (scheduled_request_ids so) = set (running s')" "out_finished_req_ids so = finished_ids s"
    "finished_ids s' = []" by blast
  have "phase_of s r = Queued" if "r \<in> set adm" for r
    using sched_ok_queues(1) [OF \<open>sched_ok kind s\<close>, of r] that a(2) by simp
  with a sched_ok_queues(2) [OF a(1)] show "sched_ok kind s' \<and> out_finished_req_ids so = finished_ids s \<and>
     finished_ids s' = [] \<and> set (scheduled_request_ids so) = {r. phase_of s' r = Active} \<and>
     (\<forall>r. phase_of s' r = phase_of s r \<or> (phase_of s r = Queued \<and> phase_of s' r = Active))" by auto
next
  fix s :: "'a scheduler" and so s' r
  assume a: "sched_ok kind s" "schedule s = (so, s')" "phase_of s r \<in> {Queued, Active}"
  then have "waiting s \<noteq> [] \<or> running s \<noteq> []"
    using sched_ok_queues [OF a(1), of r] by auto
  with schedule_progress [OF a(1,2)] show "scheduled_request_ids so \<noteq> []" .
next
  fix s :: "'a scheduler" and so and out :: "'b base_runner_output"
  assume "sched_ok kind s"
  from update_run [OF this, of so out] obtain rep ids s' where u:
    "update_from_output kind so out s = (Inr rep, s')" "sched_ok kind s'"
    "set ids = {rid \<in> set (scheduled_request_ids so). phase_of s rid \<in> {Queued, Active} \<and> completes kind out rid}"
    "phase_of s' = (\<lambda>r. if r \<in> set ids then Done else phase_of s r)"
    "finished_ids s' = set_union (finished_ids s) ids"
    "set rep = set ids \<union> (set (scheduled_request_ids so) \<inter> set (finished_ids s))" by blast
  show "\<exists>rep done s'. update_from_output kind so out s = (Inr rep, s') \<and>
      sched_ok kind s' \<and>
      set done \<subseteq> {r \<in> set (scheduled_request_ids so). phase_of s r \<in> {Queued, Active}} \<and>
      phase_of s' = (\<lambda>r. if r \<in> set done then Done else phase_of s r) \<and>
      set (finished_ids s') = set (finished_ids s) \<union> set done \<and>
      set rep = set done \<union> (set (scheduled_request_ids so) \<inter> set (finished_ids s))"
  proof (intro exI conjI)
    show "set ids \<subseteq> {r \<in> set (scheduled_request_ids so). phase_of s r \<in> {Queued, Active}}"
      unfolding u(3) by blast
    show "set (finished_ids s') = set (finished_ids s) \<union> set ids" unfolding u(5) by simp
  qed (fact u)+
next
  fix s :: "'a scheduler" and rs
  assume "sched_ok kind s"
  moreover have "is_finished FINISHED_ABORTED" by (simp add: is_finished_phase)
  ultimately obtain ids s' where u: "finish_requests rs FINISHED_ABORTED s = (Inr (), s')" "sched_ok kind s'"
    "set ids = {rid \<in> set rs. phase_of s rid \<in> {Queued, Active}}"
    "phase_of s' = (\<lambda>r. if r \<in> set ids then Done else phase_of s r)"
    "finished_ids s' = set_union (finished_ids s) ids"
    using finish_requests_run [of kind s FINISHED_ABORTED rs] by blast
  show "\<exists>done s'. finish_requests rs FINISHED_ABORTED s = (Inr (), s') \<and> sched_ok kind s' \<and>
      set done = {r \<in> set rs. phase_of s r \<in> {Queued, Active}} \<and>
      phase_of s' = (\<lambda>r. if r \<in> set done then Done else phase_of s r) \<and>
      set (finished_ids s') = set (finished_ids s) \<union> set done"
  proof (intro exI conjI)
    show "set (finished_ids s') = set (finished_ids s) \<union> set ids" unfolding u(5) by simp
  qed (fact u)+
next
  fix s :: "'a scheduler" and r st s'
  assume a: "sched_ok kind s" "phase_of s r \<in> {Absent, Done}" "pop_request_state r s = (st, s')"
  from pop_run [OF this] phase_get [of s r] show "sched_ok kind s' \<and> phase_of s' = (phase_of s)(r := Absent) \<and>
     finished_ids s' = finished_ids s \<and> (st = None \<longleftrightarrow> phase_of s r = Absent)" by auto
qed

section \<open>Reachable schedulers\<close>

text \<open>
  Every public operation in any order; a state is popped only once its request is finished, which is
  what the engine does.
\<close>

inductive reachable :: "scheduler_kind \<Rightarrow> 'v scheduler \<Rightarrow> bool" for kind where
  init: "reachable kind (initialize_scheduler n prefetch)"
| add: "reachable kind s \<Longrightarrow> reachable kind (snd (add_request kind req s))"
| round: "reachable kind s \<Longrightarrow> reachable kind (snd (schedule s))"
| upd: "reachable kind s \<Longrightarrow> reachable kind (snd (update_from_output kind so (out :: 'v base_runner_output) s))"
| fin: "reachable kind s \<Longrightarrow> reachable kind (snd (finish_requests rids status s))"
| preempt: "reachable kind s \<Longrightarrow> reachable kind (snd (preempt_request rid s))"
| pop: "reachable kind s \<Longrightarrow> phase_of s rid \<in> {Absent, Done} \<Longrightarrow>
     reachable kind (snd (pop_request_state rid s))"
| close: "reachable kind s \<Longrightarrow> reachable kind (close_scheduler s)"

lemma reachable_ok: "reachable kind s \<Longrightarrow> sched_ok kind s"
proof (induction rule: reachable.induct)
  case (add s req)
  then show ?case
    by (cases "add_request kind req s"; cases "fst (add_request kind req s)")
      (auto dest: add_request_ok add_request_fail)
next
  case (round s)
  then show ?case using schedule_run [of kind s] by (cases "schedule s") auto
next
  case (upd s so out)
  then show ?case using update_run [of kind s so out] by auto
next
  case (fin s rids status)
  then show ?case
    using finish_requests_run [of kind s status rids] by (cases "is_finished status") (auto simp: finish_requests_def)
next
  case (preempt s rid)
  then show ?case using preempt_run [of kind s rid] by (cases "preempt_request rid s") auto
next
  case (pop s rid)
  then show ?case using pop_run [of kind s rid] by (cases "pop_request_state rid s") auto
qed (simp_all add: sched_ok_init close_ok)

section \<open>The status a request ends with\<close>

definition status_of :: "'v scheduler \<Rightarrow> string \<Rightarrow> DiffusionRequestStatus option" where
  "status_of s rid = map_option drs_status (dict_get (request_states s) rid)"

definition final_status :: "scheduler_kind \<Rightarrow> 'o base_runner_output \<Rightarrow> string \<Rightarrow> DiffusionRequestStatus" where
  "final_status kind out rid = (case kind of
      Request_Scheduler \<Rightarrow> fst (request_verdict (get_request_output out rid))
    | Step_Scheduler \<Rightarrow> (case step_verdict (get_request_output out rid) of
        Step_Terminal st e \<Rightarrow> st | Step_Advance i fin \<Rightarrow> FINISHED_COMPLETED))"

lemma request_terminals_get:
  "dict_get (request_terminals out rids s acc) r =
     (if r \<in> set rids \<and> unfinished_in s r then Some (request_verdict (get_request_output out r))
      else dict_get acc r)"
  by (induction rids arbitrary: acc) (auto simp: dict_get_set)

lemma advance_step_status: "status_of (advance_step r i fin s) = status_of s"
  by (auto simp: status_of_def advance_step_def fun_eq_iff dict_get_set split: option.splits)

lemma step_terminals_get:
  assumes "sched_ok Step_Scheduler s" "step_terminals out rids s acc = (ts, s')"
  shows "status_of s' = status_of s \<and> (dict_get ts r = dict_get acc r \<or>
     (\<exists>e. dict_get ts r = Some (final_status Step_Scheduler out r, e) \<and>
        r \<in> set rids \<and> unfinished_in s r \<and> step_done out r))"
  using assms
proof (induction rids arbitrary: s acc)
  case (Cons k rids)
  show ?case
  proof (cases "unfinished_in s k \<and> dict_get (request_progress s) k \<noteq> None")
    case False
    with Cons.prems(2) have run: "step_terminals out rids s acc = (ts, s')" by auto
    from Cons.IH [OF Cons.prems(1) run] show ?thesis by auto
  next
    case go: True
    show ?thesis
    proof (cases "step_verdict (get_request_output out k)")
      case v: (Step_Terminal st e)
      with go Cons.prems(2) have run: "step_terminals out rids s (dict_set k (st, e) acc) = (ts, s')" by simp
      from Cons.IH [OF Cons.prems(1) run] go v show ?thesis
        by (auto simp: dict_get_set final_status_def step_done_def split: if_splits)
    next
      case v: (Step_Advance i fin)
      let ?s = "advance_step k i fin s"
      let ?acc = "if fin then dict_set k (FINISHED_COMPLETED, None) acc else acc"
      note a = advance_step_ok [OF Cons.prems(1), of k i fin]
      have u: "unfinished_in ?s r = unfinished_in s r" using a by (simp add: unfinished_phase)
      from go v Cons.prems(2) have run: "step_terminals out rids ?s ?acc = (ts, s')" by simp
      from Cons.IH [OF conjunct1 [OF a] run] go v u show ?thesis
        by (auto simp: dict_get_set final_status_def step_done_def advance_step_status split: if_splits)
    qed
  qed
qed simp

lemma finish_internal_status:
  assumes "finish_requests_internal statuses errors s = (Inr ids, s')"
  shows "status_of s' r = (if r \<in> set ids then dict_get statuses r else status_of s r)"
proof (cases "statuses = []")
  case True
  with assms show ?thesis by (auto simp: finish_requests_internal_def)
next
  case False
  then have i: "ids = filter (unfinished_in s) (dict_keys statuses)"
    and st: "request_states s' = fold (mark_finished statuses errors) ids (request_states s)"
    using assms by (auto simp: finish_requests_internal_def Let_def split: if_splits)
  have "dict_get statuses r \<noteq> None" "dict_get (request_states s) r \<noteq> None" if "r \<in> set ids"
    using that dict_get_None_iff [of statuses r] by (auto simp: i unfinished_in_def split: option.splits)
  then show ?thesis
    unfolding status_of_def st fold_mark_get by (auto split: option.splits)
qed

lemma statuses_get: "dict_get (map (\<lambda>(rid, st, e). (rid, st)) ts) r = map_option fst (dict_get ts r)"
  by (induction ts) auto

lemma update_status:
  assumes ok: "sched_ok kind s" and up: "update_from_output kind so out s = (Inr rep, s')"
  shows "status_of s' r =
     (if r \<in> set (scheduled_request_ids so) \<and> phase_of s r \<in> {Queued, Active} \<and> completes kind out r
      then Some (final_status kind out r) else status_of s r)"
proof -
  let ?C = "r \<in> set (scheduled_request_ids so) \<and> phase_of s r \<in> {Queued, Active} \<and> completes kind out r"
  have fin: "status_of s' r = (if ?C then Some (final_status kind out r) else status_of s r)"
    if f: "finalize_update_from_output so ts s1 = (Inr rep, s')" and ok1: "sched_ok kind s1" and t: "terms_ok ts"
      and st: "status_of s1 = status_of s" and ph: "phase_of s1 = phase_of s"
      and k: "r \<in> set (dict_keys ts) \<and> phase_of s r \<in> {Queued, Active} \<longleftrightarrow> ?C"
      and v: "r \<in> set (dict_keys ts) \<Longrightarrow> map_option fst (dict_get ts r) = Some (final_status kind out r)"
    for ts s1
  proof -
    obtain ids where i: "finish_requests_internal (map (\<lambda>(rid, st, e). (rid, st)) ts)
        (map (\<lambda>(rid, st, e). (rid, e)) ts) s1 = (Inr ids, s')"
      using f by (auto simp: finalize_update_from_output_def Let_def split: prod.splits sum.splits)
    note tk = terms_ok_statuses [OF t]
    from finish_internal_run [OF ok1 tk(2,1), where errors = "map (\<lambda>(rid, st, e). (rid, e)) ts"]
    obtain ids' t where i': "finish_requests_internal (map (\<lambda>(rid, st, e). (rid, st)) ts)
        (map (\<lambda>(rid, st, e). (rid, e)) ts) s1 = (Inr ids', t)"
      "set ids' = {rid \<in> set (dict_keys ts). phase_of s rid \<in> {Queued, Active}}"
      unfolding tk(3) ph by blast
    have "set ids = {rid \<in> set (dict_keys ts). phase_of s rid \<in> {Queued, Active}}"
      using i i' by simp
    with finish_internal_status [OF i, of r] k v st show ?thesis
      by (auto simp: statuses_get)
  qed
  show ?thesis
  proof (cases "scheduled_request_ids so = []")
    case True
    with up show ?thesis by (simp add: update_from_output_def)
  next
    case ne: False
    show ?thesis
    proof (cases kind)
      case Request_Scheduler
      let ?ts = "request_terminals out (scheduled_request_ids so) s []"
      have ts: "terms_ok ?ts" "set (dict_keys ?ts) = {rid \<in> set (scheduled_request_ids so). unfinished_in s rid}"
        using request_terminals_run [of "[]" out "scheduled_request_ids so" s] by simp_all
      show ?thesis
        by (rule fin [of ?ts s])
          (use up ne Request_Scheduler ok ts in \<open>auto simp: update_from_output_def completes_def unfinished_phase
             request_terminals_get final_status_def\<close>)
    next
      case Step_Scheduler
      obtain ts s1 where st: "step_terminals out (scheduled_request_ids so) s [] = (ts, s1)" by fastforce
      note ok' = ok [unfolded Step_Scheduler]
      have r: "terms_ok ts" "sched_ok kind s1" "phase_of s1 = phase_of s"
        "set (dict_keys ts) = {rid \<in> set (scheduled_request_ids so). unfinished_in s rid \<and> step_done out rid}"
        using step_terminals_run [OF ok' terms_ok_Nil st] Step_Scheduler by simp_all
      have g: "status_of s1 = status_of s" "dict_get ts r = None \<or>
          (\<exists>e. dict_get ts r = Some (final_status Step_Scheduler out r, e))"
        using step_terminals_get [OF ok' st, of r] by auto
      show ?thesis
      proof (rule fin [of ts s1])
        show "finalize_update_from_output so ts s1 = (Inr rep, s')"
          using up ne Step_Scheduler st by (simp add: update_from_output_def)
        show "r \<in> set (dict_keys ts) \<and> phase_of s r \<in> {Queued, Active} \<longleftrightarrow> ?C"
          unfolding r(4) by (auto simp: unfinished_phase completes_def Step_Scheduler)
        assume "r \<in> set (dict_keys ts)"
        with g(2) dict_get_None_iff [of ts r] show "map_option fst (dict_get ts r) = Some (final_status kind out r)"
          by (auto simp: Step_Scheduler)
      qed (use r g in simp_all)
    qed
  qed
qed

lemma finish_status:
  assumes "sched_ok kind s"
  shows "status_of (snd (finish_requests [rid] FINISHED_ABORTED s)) r =
     (if r = rid \<and> phase_of s r \<in> {Queued, Active} then Some FINISHED_ABORTED else status_of s r)"
proof -
  have f: "is_finished FINISHED_ABORTED" by (simp add: is_finished_phase)
  let ?d = "[(rid, FINISHED_ABORTED)]"
  from finish_internal_run [OF assms, of ?d "[]"] obtain ids s' where
    i: "finish_requests_internal ?d [] s = (Inr ids, s')"
       "set ids = {k \<in> set (dict_keys ?d). phase_of s k \<in> {Queued, Active}}"
    using f by auto
  with finish_internal_status [OF i(1), of r] f show ?thesis
    by (auto simp: finish_requests_def)
qed

section \<open>Rounds\<close>

text \<open>One round of a serial engine: schedule, execute, update.\<close>

definition round_step ::
  "scheduler_kind \<Rightarrow> ('v DiffusionSchedulerOutput \<Rightarrow> 'o base_runner_output) \<Rightarrow> 'v scheduler \<Rightarrow> 'v scheduler" where
  "round_step kind run s = (case schedule s of (so, s1) \<Rightarrow> snd (update_from_output kind so (run so) s1))"

definition load :: "'v scheduler \<Rightarrow> nat" where
  "load s = length (waiting s) + length (running s)"

lemma request_round:
  assumes "sched_ok Request_Scheduler s"
  shows "sched_ok Request_Scheduler (round_step Request_Scheduler run s) \<and>
     running (round_step Request_Scheduler run s) = [] \<and>
     (has_requests s \<longrightarrow> load (round_step Request_Scheduler run s) < load s)"
proof -
  obtain so s1 where sc: "schedule s = (so, s1)" by fastforce
  from schedule_run [OF assms sc] obtain adm where a: "sched_ok Request_Scheduler s1" "waiting s = adm @ waiting s1"
    "running s1 = running s @ adm" "set (scheduled_request_ids so) = set (running s1)" by blast
  from update_run [OF a(1), of so "run so"] obtain fin ids s' where u:
    "update_from_output Request_Scheduler so (run so) s1 = (Inr fin, s')" "sched_ok Request_Scheduler s'"
    "set ids = {rid \<in> set (scheduled_request_ids so). phase_of s1 rid \<in> {Queued, Active} \<and>
        completes Request_Scheduler (run so) rid}"
    "waiting s' = filter (\<lambda>r. r \<notin> set ids) (waiting s1)" "running s' = filter (\<lambda>r. r \<notin> set ids) (running s1)"
    by blast
  have "set (running s1) \<subseteq> set ids"
    using sched_ok_queues(2) [OF a(1)] a(4) by (auto simp: u(3) completes_def)
  then have run: "running s' = []" using u(5) by (auto simp: filter_empty_conv)
  have "load s' < load s" if h: "has_requests s"
  proof -
    have "running s1 \<noteq> []" using schedule_progress [OF assms sc] h a(4) by (auto simp: has_requests_def)
    then have "0 < length (running s) + length adm" using a(3) by auto
    moreover have "length (waiting s') \<le> length (waiting s1)" by (simp add: u(4))
    ultimately show ?thesis unfolding load_def a(2) run by (cases "running s"; cases adm) simp_all
  qed
  with u run sc show ?thesis by (simp add: round_step_def)
qed

lemma rounds_drain:
  assumes "sched_ok Request_Scheduler s" "load s \<le> n"
  shows "\<not> has_requests ((round_step Request_Scheduler run ^^ n) s)"
  using assms
proof (induction n arbitrary: s)
  case 0
  then show ?case by (simp add: load_def has_requests_def)
next
  case (Suc n)
  note r = request_round [OF Suc.prems(1), of run]
  have "load (round_step Request_Scheduler run s) \<le> n"
  proof (cases "has_requests s")
    case False
    then have "waiting s = []" "running s = []" by (auto simp: has_requests_def)
    obtain so s1 where sc: "schedule s = (so, s1)" by fastforce
    from schedule_run [OF Suc.prems(1) sc] \<open>waiting s = []\<close> \<open>running s = []\<close> have s1: "waiting s1 = []" "running s1 = []"
      "sched_ok Request_Scheduler s1" by auto
    from update_run [OF s1(3), of so "run so"] s1(1,2) sc have "load (round_step Request_Scheduler run s) = 0"
      by (auto simp: round_step_def load_def)
    then show ?thesis by simp
  qed (use r Suc.prems(2) in linarith)
  with r Suc.IH show ?case by (simp add: funpow_swap1)
qed

section \<open>Properties\<close>

definition tiny_diffusion_request :: "string \<Rightarrow> int \<Rightarrow> int OmniDiffusionRequest" where
  "tiny_diffusion_request rid h = \<lparr>req_id = rid, req_attr = (\<lambda>name. if name = ''height'' then h else 0),
     req_lora = None, req_timesteps = None, req_sigmas = None, req_num_steps = Inr 4,
     req_step_index = None, req_kv_sender = None\<rparr>"

definition tiny_scheduler :: "scheduler_kind \<Rightarrow> int scheduler" where
  "tiny_scheduler kind = snd (schedule
     (snd (add_request kind (tiny_diffusion_request ''c'' 9)
     (snd (add_request kind (tiny_diffusion_request ''b'' 8)
     (snd (add_request kind (tiny_diffusion_request ''a'' 8)
        (initialize_scheduler (Inr 3) False))))))))"

lemma tiny_reachable: "reachable kind (tiny_scheduler kind)"
  unfolding tiny_scheduler_def by (intro reachable.intros)

lemma tiny_running: "running (tiny_scheduler Request_Scheduler) = [''a'', ''b'']"
  "waiting (tiny_scheduler Request_Scheduler) = [''c'']"
  by code_simp+

text \<open>
  C4: The queues of a scheduler are sound in every reachable state: no request stands in a queue
  twice or in both queues, at most the configured number runs, every request in a queue has a state,
  and a request whose state is not finished stands in a queue (no request is ever lost).
\<close>

theorem scheduler_queues_sound:
  assumes "reachable kind s"
  shows "distinct (waiting s @ running s) \<and> length (running s) \<le> max_num_running_reqs s \<and>
     (\<forall>rid. rid \<in> set (waiting s @ running s) \<longleftrightarrow>
        (\<exists>st. dict_get (request_states s) rid = Some st \<and> \<not> is_finished (drs_status st)))"
proof -
  note ok = reachable_ok [OF assms]
  have q: "rid \<in> set (waiting s @ running s) \<longleftrightarrow> unfinished_in s rid" for rid
    using sched_ok_queues [OF ok, of rid] by (auto simp: unfinished_phase)
  have "set (waiting s) \<inter> set (running s) = {}"
    using sched_ok_queues [OF ok] by auto
  with ok q show ?thesis
    by (simp add: sched_ok_def queues_ok_def) (auto simp: unfinished_in_def split: option.splits)
qed

theorem scheduler_queues_sound_witness:
  "distinct (waiting (tiny_scheduler Request_Scheduler) @ running (tiny_scheduler Request_Scheduler)) \<and>
   set (waiting (tiny_scheduler Request_Scheduler) @ running (tiny_scheduler Request_Scheduler)) = {''a'', ''b'', ''c''}"
  using scheduler_queues_sound [OF tiny_reachable [of Request_Scheduler]] by (simp add: tiny_running insert_commute)

text \<open>
  C9: A running batch is homogeneous.  In every reachable state any two running requests agree on
  their LoRA adapter and on every sampling parameter that the batch-compatibility key of the scheduler
  lists.
\<close>

theorem running_batch_homogeneous:
  assumes "reachable kind s" "r1 \<in> set (running s)" "r2 \<in> set (running s)"
      and "dict_get (request_states s) r1 = Some st1" "dict_get (request_states s) r2 = Some st2"
  shows "req_lora (drs_req st1) = req_lora (drs_req st2) \<and>
     (\<forall>name \<in> set (case kind of Request_Scheduler \<Rightarrow> REQUEST_BATCH_SAMPLING_PARAMS_KEY_FIELDS
                               | Step_Scheduler \<Rightarrow> SAMPLING_PARAMS_KEY_FIELDS).
        req_attr (drs_req st1) name = req_attr (drs_req st2) name)"
proof -
  note ok = reachable_ok [OF assms(1)]
  have "drs_key st1 = drs_key st2"
    using running_state [OF ok assms(2)] running_state [OF ok assms(3)] assms(4,5) by auto
  then have "build_sampling_params_key kind (drs_req st1) = build_sampling_params_key kind (drs_req st2)"
    using sched_ok_get(2) [OF ok assms(4)] sched_ok_get(2) [OF ok assms(5)] by simp
  then show ?thesis
    by (cases kind) (auto simp: build_sampling_params_key_def get_sampling_params_key_def
        get_request_batch_sampling_params_key_def map_eq_conv)
qed

theorem running_batch_homogeneous_witness:
  "\<exists>st1 st2. dict_get (request_states (tiny_scheduler Request_Scheduler)) ''a'' = Some st1 \<and>
     dict_get (request_states (tiny_scheduler Request_Scheduler)) ''b'' = Some st2 \<and>
     req_attr (drs_req st1) ''height'' = req_attr (drs_req st2) ''height''"
proof -
  have "dict_get (request_states (tiny_scheduler Request_Scheduler)) ''a'' \<noteq> None \<and>
     dict_get (request_states (tiny_scheduler Request_Scheduler)) ''b'' \<noteq> None"
    using running_state [OF reachable_ok [OF tiny_reachable [of Request_Scheduler]]] by (auto simp: tiny_running)
  then obtain st1 st2 where st: "dict_get (request_states (tiny_scheduler Request_Scheduler)) ''a'' = Some st1"
     "dict_get (request_states (tiny_scheduler Request_Scheduler)) ''b'' = Some st2" by auto
  from running_batch_homogeneous [OF tiny_reachable _ _ st] st show ?thesis
    by (simp add: tiny_running REQUEST_BATCH_SAMPLING_PARAMS_KEY_FIELDS_def)
qed

text \<open>
  Admission is first come, first served.  A scheduling round moves a prefix of the waiting queue, in
  order, to the end of the running queue and schedules exactly the requests that then run; it stops only
  because nothing waits, the capacity is reached, or the first waiting request is not compatible with
  the running batch.
\<close>

theorem schedule_is_fifo:
  assumes "reachable kind s" "schedule s = (so, s')"
  shows "\<exists>adm. waiting s = adm @ waiting s' \<and> running s' = running s @ adm \<and>
     set (scheduled_request_ids so) = set (running s') \<and>
     (waiting s' = [] \<or> length (running s') \<ge> max_num_running_reqs s' \<or>
        (running s' \<noteq> [] \<and> (\<exists>st. dict_get (request_states s') (hd (waiting s')) = Some st \<and>
           drs_key st \<noteq> running_key s')))"
  using schedule_run [OF reachable_ok [OF assms(1)] assms(2)] by blast

theorem schedule_is_fifo_witness:
  "\<exists>adm. waiting (tiny_scheduler Request_Scheduler) = adm @ waiting (snd (schedule (tiny_scheduler Request_Scheduler))) \<and>
     running (snd (schedule (tiny_scheduler Request_Scheduler))) = [''a'', ''b''] @ adm"
proof -
  obtain so s' where s: "schedule (tiny_scheduler Request_Scheduler) = (so, s')" by fastforce
  from schedule_is_fifo [OF tiny_reachable s] s show ?thesis by (auto simp: tiny_running)
qed

text \<open>
  A scheduler with requests never stalls.  In every reachable state with a waiting or running
  request the next scheduling round schedules at least one request.
\<close>

theorem scheduler_never_stalls:
  assumes "reachable kind s" "has_requests s"
  shows "\<not> is_empty (fst (schedule s))"
  using schedule_progress [OF reachable_ok [OF assms(1)]] assms(2)
  by (cases "schedule s") (auto simp: is_empty_def has_requests_def)

theorem scheduler_never_stalls_witness:
  "\<not> is_empty (fst (schedule (tiny_scheduler Step_Scheduler)))"
proof (rule scheduler_never_stalls [OF tiny_reachable])
  show "has_requests (tiny_scheduler Step_Scheduler)" by code_simp
qed

text \<open>
  C37: A request-mode engine drains.  Whatever the runner returns in each round, after as many rounds of
  schedule and update as there are requests in the queues, no request waits or runs.
\<close>

theorem request_rounds_drain:
  assumes "reachable Request_Scheduler s"
  shows "\<not> has_requests ((round_step Request_Scheduler run ^^ (length (waiting s) + length (running s))) s)"
  by (rule rounds_drain [OF reachable_ok [OF assms]]) (simp add: load_def)

theorem request_rounds_drain_witness:
  "\<not> has_requests ((round_step Request_Scheduler (\<lambda>so. BatchRunnerOutput ([] :: int RunnerOutput list)) ^^ 3)
      (tiny_scheduler Request_Scheduler))"
  using request_rounds_drain [OF tiny_reachable, of "\<lambda>so. BatchRunnerOutput ([] :: int RunnerOutput list)"]
  by (simp add: tiny_running numeral_3_eq_3)

text \<open>
  The two schedulers judge a runner result differently in one case.  For a result that is present
  the request scheduler fails the request exactly when the step scheduler does, except for an error
  that is the empty string (an exception without a message), which the request scheduler records as a
  completed request.
\<close>

theorem empty_error_counts_as_success:
  assumes "ro_result ro = Some res" "\<not> do_aborted res"
  shows "(fst (request_verdict (Some ro)) = FINISHED_ERROR \<longleftrightarrow>
           (\<exists>e. step_verdict (Some ro) = Step_Terminal FINISHED_ERROR (Some e) \<and> do_error res = Some e \<and> e \<noteq> [])) \<and>
     (do_error res = Some [] \<longrightarrow> request_verdict (Some ro) = (FINISHED_COMPLETED, None) \<and>
        step_verdict (Some ro) = Step_Terminal FINISHED_ERROR (Some []))"
  using assms by (auto simp: request_verdict_def step_verdict_def split: option.split list.split)

theorem empty_error_counts_as_success_witness:
  "request_verdict (Some \<lparr>ro_request_id = ''a'', ro_step_index = None, ro_finished = True,
      ro_result = Some \<lparr>do_output = None :: int option, do_error = Some [], do_aborted = False,
        do_abort_message = None\<rparr>\<rparr>) = (FINISHED_COMPLETED, None)"
  by (rule empty_error_counts_as_success
      [of "\<lparr>ro_request_id = ''a'', ro_step_index = None, ro_finished = True,
         ro_result = Some \<lparr>do_output = None :: int option, do_error = Some [], do_aborted = False,
           do_abort_message = None\<rparr>\<rparr>" "\<lparr>do_output = None, do_error = Some [], do_aborted = False,
           do_abort_message = None\<rparr>", THEN conjunct2, THEN mp, THEN conjunct1]) simp_all

end
