(* ===== verification/Diffusion_Engine.thy ===== *)
theory Diffusion_Engine
  imports Diffusion_Scheduler
begin

text \<open>
  The diffusion engine around a scheduler (\<^verbatim>\<open>diffusion/diffusion_engine.py\<close>): adding and aborting
  requests from client threads, the busy loop, and the resolution of the futures clients wait on.  The
  engine is the one without streaming output.

  The loop body is split at the call of the executor, during which client threads run: \<open>loop_begin\<close> ends
  with the scheduler output in flight, \<open>loop_end\<close> takes what the executor returned or raised.  A future
  is a number; \<open>resolved\<close> holds the results set so far.  The RPC queue, the admission wait and the
  condition variable change none of this state and are left out.
\<close>

section \<open>State\<close>

record ('v, 'o) diffusion_engine =
  eng_sched :: "'v scheduler"
  out_queue :: "(string, nat) dict"
  next_future :: nat
  resolved :: "(nat, 'o DiffusionOutput) dict"
  abort_queue :: "string list"
  in_flight :: "'v DiffusionSchedulerOutput option"
  eng_closed :: bool

definition make_engine :: "py_exc + int \<Rightarrow> bool \<Rightarrow> ('v, 'o) diffusion_engine" where
  "make_engine max_seqs prefetch =
     \<lparr>eng_sched = initialize_scheduler max_seqs prefetch, out_queue = [], next_future = 0, resolved = [],
      abort_queue = [], in_flight = None, eng_closed = False\<rparr>"

section \<open>Client calls\<close>

definition engine_add_request ::
  "scheduler_kind \<Rightarrow> 'v OmniDiffusionRequest \<Rightarrow> ('v, 'o) diffusion_engine \<Rightarrow>
   (py_exc + string) \<times> ('v, 'o) diffusion_engine" where
  "engine_add_request kind req e =
     (if eng_closed e then (Inl RuntimeError, e)
      else (let fut = next_future e; e1 = e\<lparr>next_future := fut + 1\<rparr> in
            case add_request kind req (eng_sched e) of
              (Inl x, s) \<Rightarrow> (Inl x, e1\<lparr>eng_sched := s\<rparr>)
            | (Inr rid, s) \<Rightarrow> (Inr rid, e1\<lparr>eng_sched := s, out_queue := dict_set rid fut (out_queue e)\<rparr>)))"

definition engine_abort :: "string list \<Rightarrow> ('v, 'o) diffusion_engine \<Rightarrow> ('v, 'o) diffusion_engine" where
  "engine_abort rids e = (if eng_closed e then e else e\<lparr>abort_queue := abort_queue e @ rids\<rparr>)"

section \<open>Finishing requests\<close>

text \<open>\<^verbatim>\<open>dict.fromkeys\<close>: first occurrences in order.\<close>

definition from_keys :: "'a list \<Rightarrow> 'a list" where
  "from_keys xs = rev (remdups (rev xs))"

definition abort_requests :: "string list \<Rightarrow> 'v scheduler \<Rightarrow> 'v scheduler" where
  "abort_requests rids s =
     fold (\<lambda>rid s. if dict_get (request_states s) rid \<noteq> None
                   then snd (finish_requests [rid] FINISHED_ABORTED s) else s) (from_keys rids) s"

definition process_aborts_queue :: "('v, 'o) diffusion_engine \<Rightarrow> ('v, 'o) diffusion_engine" where
  "process_aborts_queue e =
     (if abort_queue e = [] then e
      else e\<lparr>abort_queue := [], eng_sched := abort_requests (abort_queue e) (eng_sched e)\<rparr>)"

definition aborted_output :: "string \<Rightarrow> 'o DiffusionOutput" where
  "aborted_output rid = \<lparr>do_output = None, do_error = None, do_aborted = True,
     do_abort_message = Some (''Request '' @ rid @ '' aborted.'')\<rparr>"

definition final_output ::
  "string \<Rightarrow> DiffusionRequestStatus \<Rightarrow> 'o RunnerOutput option \<Rightarrow> string \<Rightarrow> 'o DiffusionOutput" where
  "final_output rid status ro missing =
     (let result = (case ro of None \<Rightarrow> None | Some r \<Rightarrow> ro_result r) in
      if status = FINISHED_ABORTED
      then (case result of
              Some res \<Rightarrow> if do_aborted res then res else aborted_output rid
            | None \<Rightarrow> aborted_output rid)
      else (case result of
              Some res \<Rightarrow> res
            | None \<Rightarrow> \<lparr>do_output = None, do_error = Some missing, do_aborted = False, do_abort_message = None\<rparr>))"

definition finalize_finished_request ::
  "string \<Rightarrow> 'o RunnerOutput option \<Rightarrow> string \<Rightarrow> 'v scheduler \<Rightarrow> (py_exc + 'o DiffusionOutput) \<times> 'v scheduler" where
  "finalize_finished_request rid ro missing s =
     (case pop_request_state rid s of
        (None, s1) \<Rightarrow> (Inl RuntimeError, s1)
      | (Some st, s1) \<Rightarrow> (Inr (final_output rid (drs_status st) ro missing), s1))"

definition complete_future ::
  "nat \<Rightarrow> 'o DiffusionOutput \<Rightarrow> ('v, 'o) diffusion_engine \<Rightarrow> ('v, 'o) diffusion_engine" where
  "complete_future fut out e =
     (if fut \<in> set (dict_keys (resolved e)) then e else e\<lparr>resolved := dict_set fut out (resolved e)\<rparr>)"

definition MISSING_RESULT :: string where
  "MISSING_RESULT = ''Diffusion execution finished without a final output''"

fun handle_finished_requests ::
  "string list \<Rightarrow> 'o base_runner_output option \<Rightarrow> ('v, 'o) diffusion_engine \<Rightarrow>
   (py_exc + unit) \<times> ('v, 'o) diffusion_engine" where
  "handle_finished_requests [] out e = (Inr (), e)"
| "handle_finished_requests (rid # rids) out e =
     (case dict_get (out_queue e) rid of
        None \<Rightarrow> handle_finished_requests rids out e
      | Some fut \<Rightarrow>
          (let ro = (case out of None \<Rightarrow> None | Some runner_output \<Rightarrow> get_request_output runner_output rid);
               e1 = e\<lparr>out_queue := dict_del rid (out_queue e)\<rparr> in
           case finalize_finished_request rid ro MISSING_RESULT (eng_sched e1) of
             (Inl x, s) \<Rightarrow> (Inl x, e1\<lparr>eng_sched := s\<rparr>)
           | (Inr res, s) \<Rightarrow>
               handle_finished_requests rids out (complete_future fut res (e1\<lparr>eng_sched := s\<rparr>))))"

section \<open>The busy loop\<close>

definition loop_begin ::
  "('v, 'o) diffusion_engine \<Rightarrow> (py_exc + unit) \<times> ('v, 'o) diffusion_engine" where
  "loop_begin e =
     (let e1 = process_aborts_queue e in
      if \<not> has_requests (eng_sched e1) then (Inr (), e1)
      else (case schedule (eng_sched e1) of
        (so, s) \<Rightarrow>
          if is_empty so
          then handle_finished_requests (out_finished_req_ids so) None (e1\<lparr>eng_sched := s\<rparr>)
          else (Inr (), e1\<lparr>eng_sched := s, in_flight := Some so\<rparr>)))"

text \<open>An exception of the executor fails every scheduled request; \<open>str\<close> is \<^verbatim>\<open>str(exc)\<close>.\<close>

definition failed_output ::
  "(py_exc \<Rightarrow> string) \<Rightarrow> 'v DiffusionSchedulerOutput \<Rightarrow> py_exc \<Rightarrow> 'o base_runner_output" where
  "failed_output str so x = BatchRunnerOutput
     (map (\<lambda>rid. \<lparr>ro_request_id = rid, ro_step_index = None, ro_finished = True,
        ro_result = Some \<lparr>do_output = None, do_error = Some (str x), do_aborted = False,
                          do_abort_message = None\<rparr>\<rparr>) (scheduled_request_ids so))"

definition loop_end ::
  "(py_exc \<Rightarrow> string) \<Rightarrow> scheduler_kind \<Rightarrow> py_exc + 'o base_runner_output \<Rightarrow> ('v, 'o) diffusion_engine \<Rightarrow>
   (py_exc + unit) \<times> ('v, 'o) diffusion_engine" where
  "loop_end str kind res e =
     (case in_flight e of
        None \<Rightarrow> (Inr (), e)
      | Some so \<Rightarrow>
          (let out = (case res of Inl x \<Rightarrow> failed_output str so x | Inr out \<Rightarrow> out);
               e1 = process_aborts_queue (e\<lparr>in_flight := None\<rparr>) in
           case update_from_output kind so out (eng_sched e1) of
             (Inl x, s) \<Rightarrow> (Inl x, e1\<lparr>eng_sched := s\<rparr>)
           | (Inr finished, s) \<Rightarrow> handle_finished_requests finished (Some out) (e1\<lparr>eng_sched := s\<rparr>)))"

definition closed_output :: "'o DiffusionOutput" where
  "closed_output = \<lparr>do_output = None, do_error = Some ''DiffusionEngine is closed.'', do_aborted = False,
     do_abort_message = None\<rparr>"

text \<open>\<^verbatim>\<open>close\<close>, with the loop thread joined.\<close>

definition engine_close :: "('v, 'o) diffusion_engine \<Rightarrow> ('v, 'o) diffusion_engine" where
  "engine_close e =
     (if eng_closed e then e
      else (let e1 = fold (\<lambda>fut. complete_future fut closed_output) (dict_values (out_queue e)) e in
            e1\<lparr>eng_closed := True, out_queue := [], in_flight := None, eng_sched := close_scheduler (eng_sched e)\<rparr>))"

text \<open>The events of an engine, in any order; the loop runs one iteration at a time.\<close>

datatype ('v, 'o) engine_event =
    Client_Add "'v OmniDiffusionRequest"
  | Client_Abort "string list"
  | Loop_Begin
  | Loop_End "py_exc + 'o base_runner_output"

definition engine_step ::
  "(py_exc \<Rightarrow> string) \<Rightarrow> scheduler_kind \<Rightarrow> ('v, 'o) engine_event \<Rightarrow> ('v, 'o) diffusion_engine \<Rightarrow>
   (py_exc + unit) \<times> ('v, 'o) diffusion_engine" where
  "engine_step str kind ev e = (case ev of
      Client_Add req \<Rightarrow> (Inr (), snd (engine_add_request kind req e))
    | Client_Abort rids \<Rightarrow> (Inr (), engine_abort rids e)
    | Loop_Begin \<Rightarrow> if in_flight e = None \<and> \<not> eng_closed e then loop_begin e else (Inr (), e)
    | Loop_End res \<Rightarrow> loop_end str kind res e)"

fun engine_run ::
  "(py_exc \<Rightarrow> string) \<Rightarrow> scheduler_kind \<Rightarrow> ('v, 'o) engine_event list \<Rightarrow> ('v, 'o) diffusion_engine \<Rightarrow>
   (py_exc + unit) \<times> ('v, 'o) diffusion_engine" where
  "engine_run str kind [] e = (Inr (), e)"
| "engine_run str kind (ev # evs) e =
     (case engine_step str kind ev e of
        (Inl x, e1) \<Rightarrow> (Inl x, e1)
      | (Inr u, e1) \<Rightarrow> engine_run str kind evs e1)"

section \<open>Invariant\<close>

abbreviation eng_phase :: "('v, 'o) diffusion_engine \<Rightarrow> string \<Rightarrow> phase" where
  "eng_phase e \<equiv> phase_of (eng_sched e)"

definition futures_ok :: "('v, 'o) diffusion_engine \<Rightarrow> bool" where
  "futures_ok e \<longleftrightarrow>
     (\<forall>rid fut. dict_get (out_queue e) rid = Some fut \<longrightarrow>
        fut < next_future e \<and> dict_get (resolved e) fut = None \<and>
        (\<forall>rid'. dict_get (out_queue e) rid' = Some fut \<longrightarrow> rid' = rid)) \<and>
     (\<forall>fut. dict_get (resolved e) fut \<noteq> None \<longrightarrow> fut < next_future e)"

definition engine_ok :: "scheduler_kind \<Rightarrow> ('v, 'o) diffusion_engine \<Rightarrow> bool" where
  "engine_ok kind e \<longleftrightarrow> sched_ok kind (eng_sched e) \<and> futures_ok e \<and>
     (\<forall>rid. dict_get (out_queue e) rid \<noteq> None \<longrightarrow> eng_phase e rid \<noteq> Absent) \<and>
     (\<forall>rid. eng_phase e rid \<in> {Queued, Active} \<longrightarrow> dict_get (out_queue e) rid \<noteq> None) \<and>
     (\<forall>so. in_flight e = Some so \<longrightarrow> set (scheduled_request_ids so) = {rid. eng_phase e rid = Active} \<and>
        finished_ids (eng_sched e) = [])"

lemma engine_ok_init: "engine_ok kind (make_engine n p)"
  using sched_ok_init [of kind n p]
  by (cases n) (simp_all add: engine_ok_def futures_ok_def make_engine_def initialize_scheduler_def phase_of_def)

lemma engine_add_ok:
  assumes "engine_ok kind e"
  shows "engine_ok kind (snd (engine_add_request kind req e)) \<and>
     in_flight (snd (engine_add_request kind req e)) = in_flight e \<and>
     resolved (snd (engine_add_request kind req e)) = resolved e"
proof (cases "eng_closed e")
  case True
  with assms show ?thesis by (simp add: engine_add_request_def)
next
  case False
  obtain x s where add: "add_request kind req (eng_sched e) = (x, s)" by fastforce
  have ok: "sched_ok kind (eng_sched e)" using assms by (simp add: engine_ok_def)
  show ?thesis
  proof (cases x)
    case (Inl err)
    then have "s = eng_sched e" using schedulers.add_error add by simp
    with assms False add Inl show ?thesis
      by (auto simp: engine_add_request_def engine_ok_def futures_ok_def less_Suc_eq)
  next
    case (Inr rid)
    with schedulers.add_law [OF ok] add have a: "sched_ok kind s" "phase_of (eng_sched e) rid = Absent"
      "phase_of s = (phase_of (eng_sched e))(rid := Queued)" "finished_ids s = finished_ids (eng_sched e)"
      by blast+
    have new: "dict_get (resolved e) (next_future e) = None"
       "dict_get (out_queue e) r \<noteq> Some (next_future e)" for r
      using assms by (auto simp: engine_ok_def futures_ok_def)
    show ?thesis
      using assms False add Inr a new
      by (simp add: engine_add_request_def engine_ok_def futures_ok_def dict_get_set Let_def)
        (fastforce simp: less_Suc_eq)
  qed
qed

section \<open>Aborts\<close>

lemma set_from_keys [simp]: "set (from_keys xs) = set xs"
  by (simp add: from_keys_def)

lemma abort_one:
  assumes "sched_ok kind s" "s' = (if dict_get (request_states s) rid \<noteq> None
       then snd (finish_requests [rid] FINISHED_ABORTED s) else s)"
  shows "sched_ok kind s' \<and>
     phase_of s' = (\<lambda>r. if r = rid \<and> phase_of s r \<in> {Queued, Active} then Done else phase_of s r) \<and>
     status_of s' = (\<lambda>r. if r = rid \<and> phase_of s r \<in> {Queued, Active} then Some FINISHED_ABORTED else status_of s r) \<and>
     set (finished_ids s') = set (finished_ids s) \<union> {r. r = rid \<and> phase_of s r \<in> {Queued, Active}}"
proof (cases "dict_get (request_states s) rid")
  case None
  then have "phase_of s rid = Absent" by (simp add: phase_of_def)
  with assms None show ?thesis by (auto simp: fun_eq_iff)
next
  case (Some st)
  from schedulers.fin_law [OF assms(1), of "[rid]"] obtain d s1 where
    f: "finish_requests [rid] FINISHED_ABORTED s = (Inr (), s1)" "sched_ok kind s1"
       "set d = {r \<in> set [rid]. phase_of s r \<in> {Queued, Active}}"
       "phase_of s1 = (\<lambda>r. if r \<in> set d then Done else phase_of s r)"
       "set (finished_ids s1) = set (finished_ids s) \<union> set d" by blast
  moreover have "s' = s1" using assms(2) Some f(1) by simp
  ultimately show ?thesis
    using finish_status [OF assms(1), of rid] by (auto simp: fun_eq_iff)
qed

lemma abort_fold:
  assumes "sched_ok kind s" and "s' = fold (\<lambda>rid s. if dict_get (request_states s) rid \<noteq> None
       then snd (finish_requests [rid] FINISHED_ABORTED s) else s) rids s"
  shows "sched_ok kind s' \<and>
     phase_of s' = (\<lambda>r. if r \<in> set rids \<and> phase_of s r \<in> {Queued, Active} then Done else phase_of s r) \<and>
     status_of s' = (\<lambda>r. if r \<in> set rids \<and> phase_of s r \<in> {Queued, Active} then Some FINISHED_ABORTED else status_of s r) \<and>
     set (finished_ids s') = set (finished_ids s) \<union> {r \<in> set rids. phase_of s r \<in> {Queued, Active}}"
  using assms
proof (induction rids arbitrary: s)
  case (Cons k rids)
  define s1 where "s1 = (if dict_get (request_states s) k \<noteq> None
     then snd (finish_requests [k] FINISHED_ABORTED s) else s)"
  note o = abort_one [OF Cons.prems(1) s1_def]
  have "s' = fold (\<lambda>rid s. if dict_get (request_states s) rid \<noteq> None
       then snd (finish_requests [rid] FINISHED_ABORTED s) else s) rids s1"
    using Cons.prems(2) by (simp add: s1_def)
  from Cons.IH [OF conjunct1 [OF o] this] o show ?case
    by (auto simp: fun_eq_iff)
qed auto

lemma process_aborts:
  assumes "sched_ok kind (eng_sched e)"
  shows "sched_ok kind (eng_sched (process_aborts_queue e))"
    and "eng_phase (process_aborts_queue e) r =
       (if r \<in> set (abort_queue e) \<and> eng_phase e r \<in> {Queued, Active} then Done else eng_phase e r)"
    and "status_of (eng_sched (process_aborts_queue e)) r =
       (if r \<in> set (abort_queue e) \<and> eng_phase e r \<in> {Queued, Active} then Some FINISHED_ABORTED
        else status_of (eng_sched e) r)"
    and "set (finished_ids (eng_sched (process_aborts_queue e))) =
       set (finished_ids (eng_sched e)) \<union> {r \<in> set (abort_queue e). eng_phase e r \<in> {Queued, Active}}"
  using abort_fold [OF assms refl, of "from_keys (abort_queue e)"] assms
  by (auto simp: process_aborts_queue_def abort_requests_def)

lemma process_aborts_frame [simp]:
  "out_queue (process_aborts_queue e) = out_queue e" "resolved (process_aborts_queue e) = resolved e"
  "next_future (process_aborts_queue e) = next_future e" "in_flight (process_aborts_queue e) = in_flight e"
  "eng_closed (process_aborts_queue e) = eng_closed e" "abort_queue (process_aborts_queue e) = []"
  by (simp_all add: process_aborts_queue_def)

section \<open>Handling finished requests\<close>

lemma status_Some_phase: "status_of s r = None \<longleftrightarrow> phase_of s r = Absent"
  by (auto simp: status_of_def phase_of_def status_phase_iff split: option.split)

lemma pop_status:
  "status_of (snd (pop_request_state k s)) r = (if r = k then None else status_of s r)"
  by (simp add: pop_request_state_def status_of_def dict_get_del)

definition expected ::
  "'o base_runner_output option \<Rightarrow> 'v scheduler \<Rightarrow> string \<Rightarrow> 'o DiffusionOutput" where
  "expected out s rid = final_output rid (the (status_of s rid))
     (case out of None \<Rightarrow> None | Some ro \<Rightarrow> get_request_output ro rid) MISSING_RESULT"

lemma handle_run:
  assumes "sched_ok kind (eng_sched e)" "futures_ok e"
      and "\<And>r. r \<in> set rids \<Longrightarrow> dict_get (out_queue e) r \<noteq> None \<Longrightarrow> eng_phase e r = Done"
  shows "\<exists>e'. handle_finished_requests rids out e = (Inr (), e') \<and> sched_ok kind (eng_sched e') \<and> futures_ok e' \<and>
     (\<forall>r. dict_get (out_queue e') r = (if r \<in> set rids then None else dict_get (out_queue e) r)) \<and>
     (\<forall>r. status_of (eng_sched e') r =
        (if r \<in> set rids \<and> dict_get (out_queue e) r \<noteq> None then None else status_of (eng_sched e) r)) \<and>
     (\<forall>r. eng_phase e' r =
        (if r \<in> set rids \<and> dict_get (out_queue e) r \<noteq> None then Absent else eng_phase e r)) \<and>
     (\<forall>f. (\<forall>r \<in> set rids. dict_get (out_queue e) r \<noteq> Some f) \<longrightarrow> dict_get (resolved e') f = dict_get (resolved e) f) \<and>
     (\<forall>r \<in> set rids. \<forall>f. dict_get (out_queue e) r = Some f \<longrightarrow>
        dict_get (resolved e') f = Some (expected out (eng_sched e) r)) \<and>
     finished_ids (eng_sched e') = finished_ids (eng_sched e) \<and> in_flight e' = in_flight e \<and>
     eng_closed e' = eng_closed e \<and> abort_queue e' = abort_queue e \<and> next_future e' = next_future e"
  using assms
proof (induction rids arbitrary: e)
  case Nil
  then show ?case by simp
next
  case (Cons k rids)
  show ?case
  proof (cases "dict_get (out_queue e) k")
    case None
    from Cons.IH [OF Cons.prems(1,2)] Cons.prems(3) obtain e' where
      "handle_finished_requests rids out e = (Inr (), e') \<and> sched_ok kind (eng_sched e') \<and> futures_ok e' \<and>
       (\<forall>r. dict_get (out_queue e') r = (if r \<in> set rids then None else dict_get (out_queue e) r)) \<and>
       (\<forall>r. status_of (eng_sched e') r =
          (if r \<in> set rids \<and> dict_get (out_queue e) r \<noteq> None then None else status_of (eng_sched e) r)) \<and>
       (\<forall>r. eng_phase e' r =
          (if r \<in> set rids \<and> dict_get (out_queue e) r \<noteq> None then Absent else eng_phase e r)) \<and>
       (\<forall>f. (\<forall>r \<in> set rids. dict_get (out_queue e) r \<noteq> Some f) \<longrightarrow> dict_get (resolved e') f = dict_get (resolved e) f) \<and>
       (\<forall>r \<in> set rids. \<forall>f. dict_get (out_queue e) r = Some f \<longrightarrow>
          dict_get (resolved e') f = Some (expected out (eng_sched e) r)) \<and>
       finished_ids (eng_sched e') = finished_ids (eng_sched e) \<and> in_flight e' = in_flight e \<and>
       eng_closed e' = eng_closed e \<and> abort_queue e' = abort_queue e \<and> next_future e' = next_future e" by auto
    with None show ?thesis by (intro exI [of _ e']) auto
  next
    case (Some fut)
    have ph: "eng_phase e k = Done" using Cons.prems(3) [of k] Some by simp
    obtain st s1 where pop: "pop_request_state k (eng_sched e) = (Some st, s1)"
      and st: "status_of (eng_sched e) k = Some (drs_status st)"
      using ph by (auto simp: pop_request_state_def phase_of_def status_of_def split: option.splits)
    have pr: "sched_ok kind s1" "phase_of s1 = (phase_of (eng_sched e))(k := Absent)"
      "finished_ids s1 = finished_ids (eng_sched e)"
      using pop_run [OF Cons.prems(1) _ pop] ph by auto
    have ps: "status_of s1 r = (if r = k then None else status_of (eng_sched e) r)" for r
      using pop_status [of k "eng_sched e" r] pop by simp
    define res where "res = expected out (eng_sched e) k"
    define e2 where "e2 = e\<lparr>out_queue := dict_del k (out_queue e), eng_sched := s1, resolved := dict_set fut res (resolved e)\<rparr>"
    have unres: "dict_get (resolved e) fut = None" and lt: "fut < next_future e" and
      inj: "dict_get (out_queue e) r = Some fut \<Longrightarrow> r = k" for r
      using Cons.prems(2) Some by (auto simp: futures_ok_def)
    have run: "handle_finished_requests (k # rids) out e = handle_finished_requests rids out e2"
    proof -
      have "finalize_finished_request k (case out of None \<Rightarrow> None | Some ro \<Rightarrow> get_request_output ro k)
          MISSING_RESULT (eng_sched e) = (Inr res, s1)"
        using pop st by (simp add: finalize_finished_request_def res_def expected_def)
      moreover have "complete_future fut res (e\<lparr>out_queue := dict_del k (out_queue e), eng_sched := s1\<rparr>) = e2"
        using unres by (simp add: complete_future_def e2_def dict_get_None_iff)
      ultimately show ?thesis using Some by (simp add: Let_def)
    qed
    have f2: "futures_ok e2"
      using Cons.prems(2) lt inj by (auto simp: futures_ok_def e2_def dict_get_set dict_get_del split: if_splits)
    have d2: "eng_phase e2 r = Done" if "r \<in> set rids" "dict_get (out_queue e2) r \<noteq> None" for r
      using Cons.prems(3) [of r] that pr(2) by (auto simp: e2_def dict_get_del split: if_splits)
    have "sched_ok kind (eng_sched e2)" using pr by (simp add: e2_def)
    from Cons.IH [OF this f2 d2] obtain e' where e':
      "handle_finished_requests rids out e2 = (Inr (), e')" "sched_ok kind (eng_sched e')" "futures_ok e'"
      "\<And>r. dict_get (out_queue e') r = (if r \<in> set rids then None else dict_get (out_queue e2) r)"
      "\<And>r. status_of (eng_sched e') r =
          (if r \<in> set rids \<and> dict_get (out_queue e2) r \<noteq> None then None else status_of (eng_sched e2) r)"
      "\<And>r. eng_phase e' r =
          (if r \<in> set rids \<and> dict_get (out_queue e2) r \<noteq> None then Absent else eng_phase e2 r)"
      "\<And>f. (\<forall>r \<in> set rids. dict_get (out_queue e2) r \<noteq> Some f) \<Longrightarrow> dict_get (resolved e') f = dict_get (resolved e2) f"
      "\<And>r f. r \<in> set rids \<Longrightarrow> dict_get (out_queue e2) r = Some f \<Longrightarrow>
          dict_get (resolved e') f = Some (expected out (eng_sched e2) r)"
      "finished_ids (eng_sched e') = finished_ids (eng_sched e2)" "in_flight e' = in_flight e2"
      "eng_closed e' = eng_closed e2" "abort_queue e' = abort_queue e2" "next_future e' = next_future e2" by blast
    have oq: "dict_get (out_queue e2) r = (if r = k then None else dict_get (out_queue e) r)" for r
      by (simp add: e2_def dict_get_del)
    have ex: "expected out (eng_sched e2) r = expected out (eng_sched e) r" if "r \<noteq> k" for r
      using that ps by (simp add: expected_def e2_def)
    show ?thesis
    proof (intro exI [of _ e'] conjI allI ballI impI)
      fix f assume "\<forall>r \<in> set (k # rids). dict_get (out_queue e) r \<noteq> Some f"
      with e'(7) [of f] Some show "dict_get (resolved e') f = dict_get (resolved e) f"
        by (auto simp: oq e2_def dict_get_set dict_get_del)
    next
      fix r f assume a: "r \<in> set (k # rids)" "dict_get (out_queue e) r = Some f"
      show "dict_get (resolved e') f = Some (expected out (eng_sched e) r)"
      proof (cases "r = k")
        case True
        have "\<forall>r \<in> set rids. dict_get (out_queue e2) r \<noteq> Some fut" using inj by (auto simp: oq)
        from e'(7) [OF this] a True Some show ?thesis by (simp add: e2_def dict_get_set res_def)
      next
        case False
        with a e'(8) [of r f] ex show ?thesis by (simp add: oq)
      qed
    qed (use e' run oq ps pr Some in \<open>auto simp: e2_def\<close>)
  qed
qed

section \<open>Loop iterations\<close>

lemma futures_ok_cong:
  "futures_ok e \<Longrightarrow> out_queue e' = out_queue e \<Longrightarrow> resolved e' = resolved e \<Longrightarrow>
     next_future e' = next_future e \<Longrightarrow> futures_ok e'"
  by (simp add: futures_ok_def)

text \<open>The branch for an empty scheduling round is never taken: a round with requests is never empty.\<close>

lemma loop_begin_run:
  assumes ok: "engine_ok kind e" and idle: "in_flight e = None"
  shows "\<exists>e'. loop_begin e = (Inr (), e') \<and> engine_ok kind e' \<and> out_queue e' = out_queue e \<and>
     resolved e' = resolved e \<and> eng_closed e' = eng_closed e \<and>
     (\<forall>r. eng_phase (process_aborts_queue e) r = Done \<longrightarrow> eng_phase e' r = Done)"
proof -
  let ?e = "process_aborts_queue e"
  have sok: "sched_ok kind (eng_sched e)" using ok by (simp add: engine_ok_def)
  note pa = process_aborts [OF sok]
  have eok: "engine_ok kind ?e"
    using ok pa(1,2) futures_ok_cong [of e ?e] idle by (auto simp: engine_ok_def)
  show ?thesis
  proof (cases "has_requests (eng_sched ?e)")
    case False
    with eok show ?thesis by (simp add: loop_begin_def Let_def)
  next
    case True
    obtain so s where sc: "schedule (eng_sched ?e) = (so, s)" by fastforce
    note sl = schedulers.sched_law [OF pa(1) sc]
    have ne: "\<not> is_empty so"
      using schedule_progress [OF pa(1) sc] True by (auto simp: is_empty_def has_requests_def)
    let ?e' = "?e\<lparr>eng_sched := s, in_flight := Some so\<rparr>"
    have "loop_begin e = (Inr (), ?e')"
      using True sc ne by (simp add: loop_begin_def Let_def)
    moreover have "engine_ok kind ?e'"
      unfolding engine_ok_def
    proof (intro conjI allI impI)
      fix r assume "dict_get (out_queue ?e') r \<noteq> None"
      then have "eng_phase ?e r \<noteq> Absent" using eok by (simp add: engine_ok_def)
      moreover have "phase_of s r = eng_phase ?e r \<or> eng_phase ?e r = Queued \<and> phase_of s r = Active"
        using sl by blast
      ultimately show "eng_phase ?e' r \<noteq> Absent" by auto
    next
      fix r assume "eng_phase ?e' r \<in> {Queued, Active}"
      moreover have "phase_of s r = eng_phase ?e r \<or> eng_phase ?e r = Queued \<and> phase_of s r = Active"
        using sl by blast
      ultimately have "eng_phase ?e r \<in> {Queued, Active}" by auto
      moreover have "eng_phase ?e r \<in> {Queued, Active} \<longrightarrow> dict_get (out_queue ?e) r \<noteq> None"
        using eok unfolding engine_ok_def by blast
      ultimately show "dict_get (out_queue ?e') r \<noteq> None" by simp
    qed (use sl eok in \<open>auto simp: engine_ok_def intro: futures_ok_cong [of ?e]\<close>)
    moreover have "eng_phase ?e' r = Done" if "eng_phase ?e r = Done" for r
      using spec [OF conjunct2 [OF conjunct2 [OF conjunct2 [OF conjunct2 [OF sl]]]], of r] that by auto
    ultimately show ?thesis by simp
  qed
qed

text \<open>What the loop delivers for a request that the update reports.\<close>

definition delivered ::
  "scheduler_kind \<Rightarrow> 'o base_runner_output \<Rightarrow> string list \<Rightarrow> string \<Rightarrow> 'o DiffusionOutput" where
  "delivered kind out aborts rid =
     final_output rid (if rid \<in> set aborts then FINISHED_ABORTED else final_status kind out rid)
       (get_request_output out rid) MISSING_RESULT"

definition runner_answer ::
  "(py_exc \<Rightarrow> string) \<Rightarrow> 'v DiffusionSchedulerOutput \<Rightarrow> py_exc + 'o base_runner_output \<Rightarrow> 'o base_runner_output" where
  "runner_answer str so res = (case res of Inl x \<Rightarrow> failed_output str so x | Inr out \<Rightarrow> out)"

text \<open>What a client should get: the runner's result, unless the request was aborted and the result does not say so.\<close>

definition answer :: "string \<Rightarrow> bool \<Rightarrow> 'o DiffusionOutput option \<Rightarrow> 'o DiffusionOutput" where
  "answer rid aborted result =
     (case result of
        Some res \<Rightarrow> if aborted \<and> \<not> do_aborted res
          then \<lparr>do_output = None, do_error = None, do_aborted = True,
                do_abort_message = Some (''Request '' @ rid @ '' aborted.'')\<rparr> else res
      | None \<Rightarrow> if aborted
          then \<lparr>do_output = None, do_error = None, do_aborted = True,
                do_abort_message = Some (''Request '' @ rid @ '' aborted.'')\<rparr>
          else \<lparr>do_output = None, do_error = Some ''Diffusion execution finished without a final output'',
                do_aborted = False, do_abort_message = None\<rparr>)"

lemma final_status_aborted:
  "final_status kind out rid = FINISHED_ABORTED \<longleftrightarrow>
     (\<exists>res. Option.bind (get_request_output out rid) ro_result = Some res \<and> do_aborted res)"
  by (cases kind) (auto simp: final_status_def request_verdict_def step_verdict_def
      split: option.splits if_splits step_verdict.splits list.splits)

lemma delivered_answer:
  "delivered kind out aborts rid =
     answer rid (rid \<in> set aborts) (Option.bind (get_request_output out rid) ro_result)"
  using final_status_aborted [of kind out rid]
  by (auto simp: delivered_def answer_def final_output_def aborted_output_def MISSING_RESULT_def Let_def
      split: option.splits)

lemma loop_end_run:
  fixes str :: "py_exc \<Rightarrow> string" and res :: "py_exc + 'o base_runner_output" and e :: "('v, 'o) diffusion_engine"
  assumes ok: "engine_ok kind e" and so: "in_flight e = Some so"
  defines "out \<equiv> runner_answer str so res"
  shows "\<exists>e'. loop_end str kind res e = (Inr (), e') \<and> engine_ok kind e' \<and> in_flight e' = None \<and>
     eng_closed e' = eng_closed e \<and>
     (\<forall>r. r \<notin> set (scheduled_request_ids so) \<longrightarrow> dict_get (out_queue e') r = dict_get (out_queue e) r \<and>
        eng_phase e' r = (if r \<in> set (abort_queue e) \<and> eng_phase e r = Queued then Done else eng_phase e r)) \<and>
     (\<forall>r \<in> set (scheduled_request_ids so). \<forall>f. dict_get (out_queue e) r = Some f \<longrightarrow>
        (if r \<in> set (abort_queue e) \<or> completes kind out r
         then dict_get (resolved e') f = Some (delivered kind out (abort_queue e) r) \<and>
              dict_get (out_queue e') r = None \<and> eng_phase e' r = Absent
         else dict_get (resolved e') f = None \<and> dict_get (out_queue e') r = Some f \<and> eng_phase e' r = Active)) \<and>
     (\<forall>f. (\<forall>r \<in> set (scheduled_request_ids so). dict_get (out_queue e) r \<noteq> Some f) \<longrightarrow>
        dict_get (resolved e') f = dict_get (resolved e) f)"
proof -
  let ?S = "scheduled_request_ids so"
  let ?e = "process_aborts_queue (e\<lparr>in_flight := None\<rparr>)"
  have sok: "sched_ok kind (eng_sched (e\<lparr>in_flight := None\<rparr>))" using ok by (simp add: engine_ok_def)
  note pa = process_aborts [OF sok, simplified]
  have act: "r \<in> set ?S \<longleftrightarrow> eng_phase e r = Active" for r
    using ok so by (auto simp: engine_ok_def)
  have rep0: "finished_ids (eng_sched e) = []" using ok so by (simp add: engine_ok_def)
  from update_run [OF pa(1), of so out] obtain rep ids s where u:
    "update_from_output kind so out (eng_sched ?e) = (Inr rep, s)" "sched_ok kind s"
    "set ids = {r \<in> set ?S. eng_phase ?e r \<in> {Queued, Active} \<and> completes kind out r}"
    "phase_of s = (\<lambda>r. if r \<in> set ids then Done else eng_phase ?e r)"
    "set rep = set ids \<union> (set ?S \<inter> set (finished_ids (eng_sched ?e)))" by blast
  let ?e2 = "?e\<lparr>eng_sched := s\<rparr>"
  have rep: "r \<in> set rep \<longleftrightarrow> r \<in> set ?S \<and> (r \<in> set (abort_queue e) \<or> completes kind out r)" for r
    using act [of r] by (auto simp: u(3,5) pa rep0)
  have ph2: "phase_of s r = (if r \<in> set rep then Done
       else if r \<in> set (abort_queue e) \<and> eng_phase e r = Queued then Done else eng_phase e r)" for r
    using act [of r] by (auto simp: u(4) rep u(3) pa)
  have st2: "status_of s r = Some (if r \<in> set (abort_queue e) then FINISHED_ABORTED else final_status kind out r)"
    if "r \<in> set rep" for r
    using update_status [OF pa(1) u(1), of r] that act [of r] by (auto simp: rep pa)
  have fut: "futures_ok ?e2" using ok futures_ok_cong [of e ?e2] by (simp add: engine_ok_def)
  have "eng_phase ?e2 r = Done" if "r \<in> set rep" for r using that by (simp add: ph2)
  with handle_run [of kind ?e2 rep "Some out"] u(2) fut obtain e' where h:
    "handle_finished_requests rep (Some out) ?e2 = (Inr (), e')" "sched_ok kind (eng_sched e')" "futures_ok e'"
    "\<And>r. dict_get (out_queue e') r = (if r \<in> set rep then None else dict_get (out_queue e) r)"
    "\<And>r. eng_phase e' r = (if r \<in> set rep \<and> dict_get (out_queue e) r \<noteq> None then Absent else phase_of s r)"
    "\<And>f. (\<forall>r \<in> set rep. dict_get (out_queue e) r \<noteq> Some f) \<Longrightarrow> dict_get (resolved e') f = dict_get (resolved e) f"
    "\<And>r f. r \<in> set rep \<Longrightarrow> dict_get (out_queue e) r = Some f \<Longrightarrow>
        dict_get (resolved e') f = Some (expected (Some out) s r)"
    "in_flight e' = None" "eng_closed e' = eng_closed e" by auto
  have run: "loop_end str kind res e = (Inr (), e')"
    using so u(1) h(1) by (simp add: loop_end_def out_def runner_answer_def Let_def)
  have oq: "eng_phase e r \<in> {Queued, Active} \<Longrightarrow> dict_get (out_queue e) r \<noteq> None"
     "dict_get (out_queue e) r \<noteq> None \<Longrightarrow> eng_phase e r \<noteq> Absent" for r
    using ok by (auto simp: engine_ok_def)
  have "engine_ok kind e'"
    unfolding engine_ok_def
  proof (intro conjI allI impI)
    fix r assume "dict_get (out_queue e') r \<noteq> None"
    then show "eng_phase e' r \<noteq> Absent" using oq(2) [of r] by (auto simp: h ph2 split: if_splits)
  next
    fix r assume "eng_phase e' r \<in> {Queued, Active}"
    then show "dict_get (out_queue e') r \<noteq> None"
      using oq(1) [of r] by (auto simp: h(4,5) ph2 split: if_splits)
  qed (use h in simp_all)
  moreover have "dict_get (out_queue e') r = dict_get (out_queue e) r \<and>
      eng_phase e' r = (if r \<in> set (abort_queue e) \<and> eng_phase e r = Queued then Done else eng_phase e r)"
    if "r \<notin> set ?S" for r using that by (simp add: h(4,5) ph2 rep)
  moreover have "if r \<in> set (abort_queue e) \<or> completes kind out r
       then dict_get (resolved e') f = Some (delivered kind out (abort_queue e) r) \<and>
            dict_get (out_queue e') r = None \<and> eng_phase e' r = Absent
       else dict_get (resolved e') f = None \<and> dict_get (out_queue e') r = Some f \<and> eng_phase e' r = Active"
    if r: "r \<in> set ?S" "dict_get (out_queue e) r = Some f" for r f
  proof (cases "r \<in> set rep")
    case True
    with r h(7) [OF True r(2)] st2 [OF True] show ?thesis
      by (simp add: rep h(4,5) expected_def delivered_def)
  next
    case False
    have "\<forall>q \<in> set rep. dict_get (out_queue e) q \<noteq> Some f"
      using False r(2) ok by (auto simp: engine_ok_def futures_ok_def)
    moreover have "dict_get (resolved e) f = None" using r(2) ok by (auto simp: engine_ok_def futures_ok_def)
    ultimately show ?thesis using False r act [of r] h(6) [of f] by (auto simp: rep h(4,5) ph2)
  qed
  moreover have "dict_get (resolved e') f = dict_get (resolved e) f"
    if "\<forall>r \<in> set ?S. dict_get (out_queue e) r \<noteq> Some f" for f
    using that by (intro h(6)) (auto simp: rep)
  ultimately show ?thesis using run h(8,9) by blast
qed

section \<open>Runs\<close>

lemma engine_step_ok:
  assumes "engine_ok kind e"
  shows "\<exists>e'. engine_step str kind ev e = (Inr (), e') \<and> engine_ok kind e'"
proof (cases ev)
  case (Client_Add req)
  with engine_add_ok [OF assms, of req] show ?thesis by (simp add: engine_step_def)
next
  case (Client_Abort rids)
  have "engine_ok kind (engine_abort rids e)"
    using assms by (simp add: engine_abort_def engine_ok_def futures_ok_def)
  with Client_Abort show ?thesis by (simp add: engine_step_def)
next
  case Loop_Begin
  with assms loop_begin_run [OF assms] show ?thesis
    by (cases "in_flight e = None \<and> \<not> eng_closed e") (auto simp: engine_step_def)
next
  case (Loop_End res)
  show ?thesis
  proof (cases "in_flight e")
    case None
    with assms Loop_End show ?thesis by (simp add: engine_step_def loop_end_def)
  next
    case (Some so)
    from loop_end_run [OF assms Some, of str res] Loop_End show ?thesis
      by (auto simp: engine_step_def)
  qed
qed

lemma engine_run_ok:
  "engine_ok kind e \<Longrightarrow> \<exists>e'. engine_run str kind evs e = (Inr (), e') \<and> engine_ok kind e'"
proof (induction evs arbitrary: e)
  case (Cons ev evs)
  with engine_step_ok [OF Cons.prems, of str ev] show ?case by fastforce
qed simp

section \<open>Stranded requests\<close>

text \<open>Finished, still awaited, and out of every report the loop will look at.\<close>

definition stranded :: "string \<Rightarrow> nat \<Rightarrow> ('v, 'o) diffusion_engine \<Rightarrow> bool" where
  "stranded w h e \<longleftrightarrow> dict_get (out_queue e) w = Some h \<and> eng_phase e w = Done"

lemma add_keeps_stranded:
  assumes "engine_ok kind e" "stranded w h e"
  shows "stranded w h (snd (engine_add_request kind req e))"
proof (cases "eng_closed e")
  case True
  with assms show ?thesis by (simp add: engine_add_request_def)
next
  case False
  have ok: "sched_ok kind (eng_sched e)" using assms by (simp add: engine_ok_def)
  obtain x s where add: "add_request kind req (eng_sched e) = (x, s)" by fastforce
  show ?thesis
  proof (cases x)
    case (Inl err)
    then have "s = eng_sched e" using schedulers.add_error add by simp
    with assms add Inl False show ?thesis by (simp add: engine_add_request_def stranded_def)
  next
    case (Inr rid)
    with schedulers.add_law [OF ok] add have a: "phase_of (eng_sched e) rid = Absent"
      "phase_of s = (phase_of (eng_sched e))(rid := Queued)" by blast+
    with assms have "rid \<noteq> w" by (auto simp: stranded_def)
    with assms a add Inr False show ?thesis
      by (simp add: engine_add_request_def stranded_def dict_get_set Let_def)
  qed
qed

lemma step_keeps_stranded:
  assumes ok: "engine_ok kind e" and st: "stranded w h e"
      and run: "engine_step str kind ev e = (x, e')"
  shows "stranded w h e'"
proof (cases ev)
  case (Client_Add req)
  with add_keeps_stranded [OF ok st, of req] run show ?thesis by (auto simp: engine_step_def)
next
  case (Client_Abort rids)
  with st run show ?thesis by (auto simp: engine_step_def engine_abort_def stranded_def)
next
  case Loop_Begin
  show ?thesis
  proof (cases "in_flight e = None \<and> \<not> eng_closed e")
    case False
    with Loop_Begin run st show ?thesis by (auto simp: engine_step_def)
  next
    case True
    have "sched_ok kind (eng_sched e)" using ok by (simp add: engine_ok_def)
    from process_aborts(2) [OF this, of w] st have "eng_phase (process_aborts_queue e) w = Done"
      by (simp add: stranded_def)
    with loop_begin_run [OF ok] True Loop_Begin run st show ?thesis
      by (auto simp: engine_step_def stranded_def)
  qed
next
  case (Loop_End res)
  show ?thesis
  proof (cases "in_flight e")
    case None
    with Loop_End run st show ?thesis by (simp add: engine_step_def loop_end_def)
  next
    case (Some so)
    then have "w \<notin> set (scheduled_request_ids so)"
      using ok st by (auto simp: engine_ok_def stranded_def)
    with loop_end_run [OF ok Some, of str res] Loop_End run st show ?thesis
      by (auto simp: engine_step_def stranded_def)
  qed
qed

lemma run_keeps_stranded:
  "engine_ok kind e \<Longrightarrow> stranded w h e \<Longrightarrow> engine_run str kind evs e = (x, e') \<Longrightarrow>
     engine_ok kind e' \<and> stranded w h e'"
proof (induction evs arbitrary: e)
  case (Cons ev evs)
  from engine_step_ok [OF Cons.prems(1), of str ev] obtain e1 where
    e1: "engine_step str kind ev e = (Inr (), e1)" "engine_ok kind e1" by blast
  from Cons.IH [OF e1(2) step_keeps_stranded [OF Cons.prems(1,2) e1(1)]] Cons.prems(3) e1(1) show ?case by simp
qed simp

lemma stranded_unresolved:
  assumes "engine_ok kind e" "stranded w h e" "req_id req = w"
  shows "dict_get (resolved e) h = None \<and> (\<exists>x. fst (engine_add_request kind req e) = Inl x)"
proof -
  have ok: "sched_ok kind (eng_sched e)" using assms by (simp add: engine_ok_def)
  obtain x s where add: "add_request kind req (eng_sched e) = (x, s)" by fastforce
  have "\<exists>y. x = Inl y"
  proof (cases x)
    case (Inr rid)
    with add add_request_ok [OF ok] assms(2,3) show ?thesis by (auto simp: stranded_def)
  qed simp
  then show ?thesis
    using assms add by (auto simp: engine_add_request_def engine_ok_def futures_ok_def stranded_def Let_def)
qed

lemma close_resolved:
  "dict_get (resolved (fold (\<lambda>fut. complete_future fut out) fs e)) f =
     (case dict_get (resolved e) f of
        Some res \<Rightarrow> Some res | None \<Rightarrow> if f \<in> set fs then Some out else None)"
proof (induction fs arbitrary: e)
  case (Cons k fs)
  show ?case
    by (simp add: Cons.IH) (auto simp: complete_future_def dict_get_set dict_get_None_iff dest: dict_get_Some_key split: option.split)
qed (simp split: option.split)

section \<open>A concrete engine\<close>

definition tiny_events :: "(int, int) engine_event list" where
  "tiny_events = [Client_Add (tiny_diffusion_request ''a'' 8), Loop_Begin]"

definition tiny_busy :: "(int, int) diffusion_engine" where
  "tiny_busy = snd (engine_run (\<lambda>x. ''boom'') Request_Scheduler tiny_events (make_engine (Inr 1) False))"

definition tiny_idle :: "(int, int) diffusion_engine" where
  "tiny_idle = snd (engine_run (\<lambda>x. ''boom'') Request_Scheduler (take 1 tiny_events) (make_engine (Inr 1) False))"

section \<open>Properties\<close>

lemma busy_loop_total: "fst (engine_run str kind evs (make_engine n prefetch)) = Inr ()"
  using engine_run_ok [OF engine_ok_init, of str kind evs n prefetch] by auto

text \<open>
  The busy loop never dies and never takes its branch for an empty round.  From a new engine,
  whatever clients add and abort and whatever the executor returns or raises, every event succeeds:
  finishing a request never finds its state gone.
\<close>

theorem busy_loop_never_raises:
  "fst (engine_run str kind evs (make_engine n prefetch)) = Inr ()"
  by (rule busy_loop_total)

text \<open>
  C3: Every scheduled request is answered correctly and exactly once.  After an iteration of the loop,
  the future of a scheduled request that the runner's answer completes, or that was aborted meanwhile,
  holds that request's final output, and the request is gone from the engine; a scheduled request that
  goes on is unresolved and still active; no other future changes.
\<close>

theorem loop_answers_scheduled:
  assumes "engine_run str kind evs (make_engine n prefetch) = (Inr (), e)" "in_flight e = Some so"
      and "engine_step str kind (Loop_End res) e = (x, e')"
  shows "(\<forall>r \<in> set (scheduled_request_ids so). \<exists>f. dict_get (out_queue e) r = Some f \<and>
        (if r \<in> set (abort_queue e) \<or> completes kind (runner_answer str so res) r
         then dict_get (resolved e') f = Some (answer r (r \<in> set (abort_queue e))
                (Option.bind (get_request_output (runner_answer str so res) r) ro_result)) \<and>
              dict_get (out_queue e') r = None \<and> dict_get (request_states (eng_sched e')) r = None
         else dict_get (resolved e') f = None \<and> dict_get (out_queue e') r = Some f \<and>
              r \<in> set (running (eng_sched e')))) \<and>
     (\<forall>f. (\<forall>r \<in> set (scheduled_request_ids so). dict_get (out_queue e) r \<noteq> Some f) \<longrightarrow>
        dict_get (resolved e') f = dict_get (resolved e) f)"
proof -
  have ok: "engine_ok kind e"
    using engine_run_ok [OF engine_ok_init, of str kind evs n prefetch] assms(1) by auto
  from loop_end_run [OF ok assms(2), of str res] assms(3) have l: "engine_ok kind e'"
    "\<And>r f. r \<in> set (scheduled_request_ids so) \<Longrightarrow> dict_get (out_queue e) r = Some f \<Longrightarrow>
        (if r \<in> set (abort_queue e) \<or> completes kind (runner_answer str so res) r
         then dict_get (resolved e') f = Some (answer r (r \<in> set (abort_queue e))
                (Option.bind (get_request_output (runner_answer str so res) r) ro_result)) \<and>
              dict_get (out_queue e') r = None \<and> eng_phase e' r = Absent
         else dict_get (resolved e') f = None \<and> dict_get (out_queue e') r = Some f \<and> eng_phase e' r = Active)"
    "\<forall>f. (\<forall>r \<in> set (scheduled_request_ids so). dict_get (out_queue e) r \<noteq> Some f) \<longrightarrow>
        dict_get (resolved e') f = dict_get (resolved e) f"
    by (auto simp: engine_step_def delivered_answer)
  have fut: "\<exists>f. dict_get (out_queue e) r = Some f" if "r \<in> set (scheduled_request_ids so)" for r
    using ok assms(2) that by (auto simp: engine_ok_def)
  have ab: "eng_phase e' r = Absent \<Longrightarrow> dict_get (request_states (eng_sched e')) r = None" for r
    using phase_get [of "eng_sched e'" r] by auto
  have ac: "eng_phase e' r = Active \<Longrightarrow> r \<in> set (running (eng_sched e'))" for r
    using sched_ok_queues(2) [of kind "eng_sched e'" r] l(1) by (simp add: engine_ok_def)
  show ?thesis
  proof (intro conjI ballI)
    fix r assume r: "r \<in> set (scheduled_request_ids so)"
    with fut obtain f where f: "dict_get (out_queue e) r = Some f" by blast
    with l(2) [OF r f] ab ac show "\<exists>f. dict_get (out_queue e) r = Some f \<and>
        (if r \<in> set (abort_queue e) \<or> completes kind (runner_answer str so res) r
         then dict_get (resolved e') f = Some (answer r (r \<in> set (abort_queue e))
                (Option.bind (get_request_output (runner_answer str so res) r) ro_result)) \<and>
              dict_get (out_queue e') r = None \<and> dict_get (request_states (eng_sched e')) r = None
         else dict_get (resolved e') f = None \<and> dict_get (out_queue e') r = Some f \<and>
              r \<in> set (running (eng_sched e')))"
      by (intro exI [of _ f]) auto
  qed (rule l(3))
qed

theorem loop_answers_scheduled_witness:
  "dict_get (resolved (snd (engine_step (\<lambda>x. ''boom'') Request_Scheduler (Loop_End (Inl RuntimeError)) tiny_busy))) 0 =
     Some \<lparr>do_output = None, do_error = Some ''boom'', do_aborted = False, do_abort_message = None\<rparr>"
proof -
  obtain so where so: "in_flight tiny_busy = Some so" "scheduled_request_ids so = [''a'']"
  proof -
    have "in_flight tiny_busy \<noteq> None \<and> map_option scheduled_request_ids (in_flight tiny_busy) = Some [''a'']"
      by code_simp
    then show ?thesis using that by (cases "in_flight tiny_busy") auto
  qed
  have run: "engine_run (\<lambda>x. ''boom'') Request_Scheduler tiny_events (make_engine (Inr 1) False) = (Inr (), tiny_busy)"
    using busy_loop_total [of "\<lambda>x. ''boom''" Request_Scheduler tiny_events "Inr 1" False]
    by (simp add: tiny_busy_def prod_eq_iff)
  obtain x e' where st: "engine_step (\<lambda>x. ''boom'') Request_Scheduler (Loop_End (Inl RuntimeError)) tiny_busy = (x, e')"
    by fastforce
  have q: "dict_get (out_queue tiny_busy) ''a'' = Some 0" "abort_queue tiny_busy = []" by code_simp+
  from loop_answers_scheduled [OF run so(1) st] so(2) q st show ?thesis
    by (simp add: completes_def runner_answer_def failed_output_def answer_def
        get_request_output_def final_status_def request_verdict_def)
qed

text \<open>
  C27: The client of an aborted waiting request waits forever.  If a request is waiting when the loop
  processes its abort, its future is never resolved, whatever happens afterwards until the engine is
  closed, and its id cannot be used again.
\<close>

theorem aborted_waiting_request_hangs:
  assumes "engine_run str kind evs0 (make_engine n prefetch) = (Inr (), e)" "in_flight e = None"
      and "w \<in> set (waiting (eng_sched e))" "dict_get (out_queue e) w = Some h"
      and "engine_run str kind (Client_Abort [w] # Loop_Begin # evs) e = (x, e')" "\<not> eng_closed e"
      and "req_id req = w"
  shows "dict_get (resolved e') h = None \<and> (\<exists>err. fst (engine_add_request kind req e') = Inl err)"
proof -
  have ok: "engine_ok kind e"
    using engine_run_ok [OF engine_ok_init, of str kind evs0 n prefetch] assms(1) by auto
  let ?e = "engine_abort [w] e"
  have ea: "?e = e\<lparr>abort_queue := abort_queue e @ [w]\<rparr>" using assms(6) by (simp add: engine_abort_def)
  have ok1: "engine_ok kind ?e" using ok by (simp add: ea engine_ok_def futures_ok_def)
  have idle: "in_flight ?e = None" using assms(2) by (simp add: ea)
  have sok: "sched_ok kind (eng_sched ?e)" using ok1 by (simp add: engine_ok_def)
  have "eng_phase ?e w = Queued"
    using sched_ok_queues(1) [of kind "eng_sched e" w] ok assms(3) by (simp add: ea engine_ok_def)
  with process_aborts(2) [OF sok, of w] have ph: "eng_phase (process_aborts_queue ?e) w = Done"
    by (simp add: ea)
  from loop_begin_run [OF ok1 idle] ph obtain e1 where e1: "loop_begin ?e = (Inr (), e1)" "engine_ok kind e1"
    "stranded w h e1" using assms(4) by (auto simp: stranded_def ea)
  have "engine_run str kind evs e1 = (x, e')"
    using assms(2,5,6) e1(1) idle by (simp add: engine_step_def ea)
  from run_keeps_stranded [OF e1(2,3) this] stranded_unresolved [of kind e' w h req] assms(7)
  show ?thesis by blast
qed

theorem aborted_waiting_request_hangs_witness:
  "dict_get (resolved (snd (engine_run (\<lambda>x. ''boom'') Request_Scheduler
      (Client_Abort [''a''] # Loop_Begin # [Client_Add (tiny_diffusion_request ''b'' 8), Loop_Begin]) tiny_idle))) 0 = None"
proof -
  have run: "engine_run (\<lambda>x. ''boom'') Request_Scheduler (take 1 tiny_events) (make_engine (Inr 1) False) =
      (Inr (), tiny_idle)"
    using busy_loop_total [of "\<lambda>x. ''boom''" Request_Scheduler "take 1 tiny_events" "Inr 1" False]
    by (simp add: tiny_idle_def prod_eq_iff)
  have q: "in_flight tiny_idle = None" "''a'' \<in> set (waiting (eng_sched tiny_idle))"
    "dict_get (out_queue tiny_idle) ''a'' = Some 0" "\<not> eng_closed tiny_idle" by code_simp+
  obtain x e' where st: "engine_run (\<lambda>x. ''boom'') Request_Scheduler (Client_Abort [''a''] # Loop_Begin #
      [Client_Add (tiny_diffusion_request ''b'' 8), Loop_Begin]) tiny_idle = (x, e')" by fastforce
  have "req_id (tiny_diffusion_request ''a'' 8) = ''a''" by (simp add: tiny_diffusion_request_def)
  from aborted_waiting_request_hangs [OF run q(1-3) st q(4) this] st show ?thesis by simp
qed

text \<open>
  Closing the engine answers everyone.  Every future that is pending when the engine is closed is
  resolved with the closed error, results already delivered stay, and later requests are refused.
\<close>

theorem close_answers_everyone:
  assumes "\<not> eng_closed e"
  shows "dict_get (resolved (engine_close e)) f =
       (case dict_get (resolved e) f of
          Some res \<Rightarrow> Some res
        | None \<Rightarrow> if f \<in> set (dict_values (out_queue e)) then Some closed_output else None) \<and>
     fst (engine_add_request kind req (engine_close e)) = Inl RuntimeError"
  using assms close_resolved [of closed_output "dict_values (out_queue e)" e f]
  by (simp add: engine_close_def engine_add_request_def Let_def)

theorem close_answers_everyone_witness:
  "dict_get (resolved (engine_close tiny_busy)) 0 = Some closed_output"
proof -
  have "\<not> eng_closed tiny_busy" "dict_get (resolved tiny_busy) 0 = None" "0 \<in> set (dict_values (out_queue tiny_busy))"
    by code_simp+
  with close_answers_everyone [of tiny_busy 0] show ?thesis by simp
qed

end
