(* ===== verification/Memory_Pool.thy ===== *)
theory Memory_Pool
  imports Omni_Prelude "HOL-Library.Product_Lexorder"
begin

text \<open>
  The buffer pool of the connectors (\<^verbatim>\<open>distributed/omni_connectors/utils/memory_pool.py\<close>): the
  first-fit allocator with its coalescing free list, and the managed buffers that return their block on
  release.  Offsets and sizes are Python integers; a free block is a pair of start and length, and the
  list is sorted by the lexicographic order of pairs, as Python sorts tuples.
\<close>

section \<open>The allocator\<close>

record BufferAllocator =
  total_size :: int
  alignment :: int
  free_blocks :: "(int \<times> int) list"

definition make_allocator :: "int \<Rightarrow> int \<Rightarrow> BufferAllocator" where
  "make_allocator sz align = \<lparr>total_size = sz, alignment = align, free_blocks = [(0, sz)]\<rparr>"

definition align_up :: "int \<Rightarrow> int \<Rightarrow> int" where
  "align_up align n = (n + align - 1) div align * align"

text \<open>The scan for the first block that is large enough.\<close>

fun first_fit :: "int \<Rightarrow> (int \<times> int) list \<Rightarrow> (int \<times> (int \<times> int) list) option" where
  "first_fit n [] = None"
| "first_fit n ((start, sz) # bs) =
     (if sz \<ge> n
      then Some (start, if sz - n > 0 then (start + n, sz - n) # bs else bs)
      else map_option (\<lambda>(r, bs'). (r, (start, sz) # bs')) (first_fit n bs))"

definition alloc :: "int \<Rightarrow> BufferAllocator \<Rightarrow> (py_exc + int) \<times> BufferAllocator" where
  "alloc sz A =
     (if alignment A = 0 then (Inl ZeroDivisionError, A)
      else case first_fit (align_up (alignment A) sz) (free_blocks A) of
          None \<Rightarrow> (Inl MemoryError, A)
        | Some (start, bs) \<Rightarrow> (Inr start, A\<lparr>free_blocks := bs\<rparr>))"

datatype free_verdict = Not_Free | Double_Free | Corruption

text \<open>The checks of \<^verbatim>\<open>free\<close>, block by block; the first two both ignore the call.\<close>

fun free_check :: "int \<Rightarrow> int \<Rightarrow> (int \<times> int) list \<Rightarrow> free_verdict" where
  "free_check off n [] = Not_Free"
| "free_check off n ((start, sz) # bs) =
     (if off = start \<and> n = sz then Double_Free
      else if off \<ge> start \<and> off + n \<le> start + sz then Double_Free
      else if \<not> (off + n \<le> start \<or> start + sz \<le> off) then Corruption
      else free_check off n bs)"

text \<open>The \<^verbatim>\<open>while\<close> loop that joins neighbours; the blocks before index \<^verbatim>\<open>i\<close> are the finished prefix.\<close>

fun coalesce :: "(int \<times> int) list \<Rightarrow> (int \<times> int) list" where
  "coalesce ((s, l) # (t, m) # bs) =
     (if s + l = t then coalesce ((s, l + m) # bs) else (s, l) # coalesce ((t, m) # bs))"
| "coalesce bs = bs"

definition free :: "int \<Rightarrow> int \<Rightarrow> BufferAllocator \<Rightarrow> (py_exc + unit) \<times> BufferAllocator" where
  "free off sz A =
     (if alignment A = 0 then (Inl ZeroDivisionError, A)
      else (let n = align_up (alignment A) sz in
        case free_check off n (free_blocks A) of
          Double_Free \<Rightarrow> (Inr (), A)
        | Corruption \<Rightarrow> (Inl RuntimeError, A)
        | Not_Free \<Rightarrow> (Inr (), A\<lparr>free_blocks := coalesce (sort (free_blocks A @ [(off, n)]))\<rparr>)))"

section \<open>Managed buffers\<close>

record ManagedBuffer =
  buf_offset :: int
  buf_size :: int
  buf_released :: bool

definition release :: "ManagedBuffer \<Rightarrow> BufferAllocator \<Rightarrow> (py_exc + ManagedBuffer) \<times> BufferAllocator" where
  "release b A =
     (if buf_released b then (Inr b, A)
      else case free (buf_offset b) (buf_size b) A of
          (Inl e, A1) \<Rightarrow> (Inl e, A1)
        | (Inr u, A1) \<Rightarrow> (Inr (b\<lparr>buf_released := True\<rparr>), A1))"

text \<open>The checks of \<^verbatim>\<open>as_tensor\<close>; the view itself is torch's.\<close>

definition as_tensor_check :: "nat \<Rightarrow> int list \<Rightarrow> ManagedBuffer \<Rightarrow> py_exc option" where
  "as_tensor_check itemsize shape b =
     (if \<exists>d \<in> set shape. d < 0 then Some ValueError
      else if int itemsize * prod_list shape \<noteq> buf_size b then Some ValueError
      else if itemsize = 0 then Some ZeroDivisionError
      else if buf_offset b mod int itemsize \<noteq> 0 then Some RuntimeError
      else None)"

section \<open>Blocks as sets of bytes\<close>

abbreviation block_bytes :: "int \<times> int \<Rightarrow> int set" where
  "block_bytes b \<equiv> {fst b..<fst b + snd b}"

definition bytes_of :: "(int \<times> int) list \<Rightarrow> int set" where
  "bytes_of bs = (\<Union>b \<in> set bs. block_bytes b)"

text \<open>Non-empty blocks in ascending order; under \<open>gap\<close> neighbours do not even touch.\<close>

definition before :: "bool \<Rightarrow> int \<times> int \<Rightarrow> int \<times> int \<Rightarrow> bool" where
  "before gap a b = (if gap then fst a + snd a < fst b else fst a + snd a \<le> fst b)"

definition separated :: "bool \<Rightarrow> (int \<times> int) list \<Rightarrow> bool" where
  "separated gap bs \<longleftrightarrow> (\<forall>b \<in> set bs. 0 < snd b) \<and> sorted_wrt (before gap) bs"

lemma bytes_of_simps [simp]:
  "bytes_of [] = {}" "bytes_of (b # bs) = block_bytes b \<union> bytes_of bs"
  "bytes_of (xs @ ys) = bytes_of xs \<union> bytes_of ys"
  by (auto simp: bytes_of_def)

lemma before_le: "before g a b \<Longrightarrow> fst a + snd a \<le> fst b"
  by (simp add: before_def split: if_splits)

lemma before_trans_start: "before g a b \<Longrightarrow> fst b \<le> fst c \<Longrightarrow> before g a c"
  by (simp add: before_def split: if_splits)

lemma before_shift: "before g (s, l) c \<Longrightarrow> before g (s + n, l - n) c"
  by (auto simp: before_def split: if_splits)

lemma separated_Nil [simp]: "separated g []"
  by (simp add: separated_def)

lemma separated_Cons [simp]:
  "separated g (b # bs) \<longleftrightarrow> 0 < snd b \<and> (\<forall>c \<in> set bs. before g b c) \<and> separated g bs"
  by (auto simp: separated_def)

lemma separated_weaken: "separated g bs \<Longrightarrow> separated False bs"
  by (induction bs) (auto simp: before_def split: if_splits)

lemma separated_after:
  assumes "separated g (b # bs)" "x \<in> bytes_of bs"
  shows "fst b + snd b \<le> x"
proof -
  from assms(2) obtain c where c: "c \<in> set bs" "x \<in> block_bytes c" by (auto simp: bytes_of_def)
  then have "fst b + snd b \<le> fst c" using assms(1) before_le [of g b c] by auto
  with c show ?thesis by auto
qed

lemma separated_append:
  "separated g (xs @ ys) \<longleftrightarrow> separated g xs \<and> separated g ys \<and> (\<forall>a \<in> set xs. \<forall>b \<in> set ys. before g a b)"
  by (auto simp: separated_def sorted_wrt_append)

section \<open>Allocation\<close>

lemma align_up_ge: "0 < align \<Longrightarrow> n \<le> align_up align n"
  by (simp add: align_up_def) (smt (verit) minus_mod_eq_div_mult pos_mod_bound)

lemma align_up_dvd: "align dvd align_up align n"
  by (simp add: align_up_def)

lemma align_up_less: "0 < align \<Longrightarrow> align_up align n < n + align"
  by (simp add: align_up_def) (smt (verit) minus_mod_eq_div_mult pos_mod_sign)

lemma align_up_pos: "0 < align \<Longrightarrow> 0 < n \<Longrightarrow> 0 < align_up align n"
  using align_up_ge [of align n] by linarith

lemma align_up_mult: "0 < align \<Longrightarrow> align_up align (k * align) = k * align"
proof -
  assume "0 < align"
  then have "(k * align + (align - 1)) div align = k" by (simp add: div_pos_pos_trivial)
  then show ?thesis by (simp add: align_up_def add_diff_eq)
qed

lemma first_fit_run:
  assumes "separated g bs" "0 < n" "first_fit n bs = Some (r, bs')"
  shows "separated g bs' \<and> {r..<r + n} \<union> bytes_of bs' = bytes_of bs \<and> {r..<r + n} \<inter> bytes_of bs' = {} \<and>
     r \<in> fst ` set bs \<and> fst ` set bs' \<subseteq> fst ` set bs \<union> {r + n} \<and>
     (\<forall>b \<in> set bs'. \<exists>a \<in> set bs. fst a \<le> fst b)"
  using assms
proof (induction bs arbitrary: bs')
  case (Cons b bs)
  obtain s l where b: "b = (s, l)" by fastforce
  have tail: "x \<in> bytes_of bs \<Longrightarrow> s + l \<le> x" for x
    using separated_after [OF Cons.prems(1)] b by simp
  show ?case
  proof (cases "l \<ge> n")
    case True
    show ?thesis
    proof (cases "l - n > 0")
      case g: True
      with True Cons.prems(3) b have e: "r = s" "bs' = (s + n, l - n) # bs" by auto
      have "\<forall>c \<in> set bs. before g (s + n, l - n) c"
        using Cons.prems(1) b before_shift by auto
      moreover have "{s..<s + n} \<union> ({s + n..<s + l} \<union> bytes_of bs) = {s..<s + l} \<union> bytes_of bs"
        using Cons.prems(2) True by auto
      moreover have "{s..<s + n} \<inter> bytes_of bs = {}" using tail True by force
      ultimately show ?thesis using Cons.prems(1,2) b e g by auto
    next
      case False
      with True Cons.prems(3) b have e: "r = s" "bs' = bs" "l = n" by auto
      moreover have "{s..<s + n} \<inter> bytes_of bs = {}" using tail e(3) by force
      ultimately show ?thesis using Cons.prems(1) b by auto
    qed
  next
    case False
    with Cons.prems(3) b obtain bs1 where f: "first_fit n bs = Some (r, bs1)" and bs': "bs' = (s, l) # bs1"
      by auto
    have sep: "separated g bs" and bef: "\<And>c. c \<in> set bs \<Longrightarrow> before g (s, l) c"
      using Cons.prems(1) b by auto
    note i = Cons.IH [OF sep Cons.prems(2) f]
    have after: "before g (s, l) c" if "c \<in> set bs1" for c
    proof -
      from i that obtain a where "a \<in> set bs" "fst a \<le> fst c" by blast
      with bef before_trans_start show ?thesis by blast
    qed
    have sub: "bytes_of bs1 \<subseteq> bytes_of bs" "r \<in> bytes_of bs" using i Cons.prems(2) by auto
    have "x \<notin> {s..<s + l}" if "x \<in> bytes_of bs1" for x using tail [of x] sub(1) that by auto
    moreover have "s + l \<le> r" using tail sub(2) by blast
    ultimately have "{r..<r + n} \<inter> bytes_of ((s, l) # bs1) = {}" using i by auto
    moreover have "{r..<r + n} \<union> bytes_of ((s, l) # bs1) = bytes_of ((s, l) # bs)"
    proof -
      have "{r..<r + n} \<union> bytes_of bs1 = bytes_of bs" using i by blast
      then show ?thesis unfolding bytes_of_simps by blast
    qed
    ultimately show ?thesis using i after Cons.prems(1) b bs' by auto
  qed
qed simp

section \<open>Freeing\<close>

lemma separated_join:
  assumes "separated False ((s, l) # (t, m) # bs)" "s + l = t"
  shows "separated False ((s, l + m) # bs)"
  using assms by (auto simp: before_def)

lemma coalesce_starts: "separated False bs \<Longrightarrow> c \<in> set (coalesce bs) \<Longrightarrow> bs \<noteq> [] \<and> fst (hd bs) \<le> fst c"
proof (induction bs rule: coalesce.induct)
  case (1 s l t m bs)
  show ?case
  proof (cases "s + l = t")
    case True
    with 1(1) [OF True separated_join [OF 1(3) True]] 1(4) show ?thesis by simp
  next
    case False
    with 1(2) [OF False] 1(3,4) show ?thesis by (auto simp: before_def)
  qed
qed auto

lemma coalesce_run:
  "separated False bs \<Longrightarrow> separated True (coalesce bs) \<and> bytes_of (coalesce bs) = bytes_of bs \<and>
     fst ` set (coalesce bs) \<subseteq> fst ` set bs"
proof (induction bs rule: coalesce.induct)
  case (1 s l t m bs)
  show ?case
  proof (cases "s + l = t")
    case True
    from 1(1) [OF True separated_join [OF 1(3) True]] have i: "separated True (coalesce ((s, l + m) # bs))"
      "bytes_of (coalesce ((s, l + m) # bs)) = bytes_of ((s, l + m) # bs)"
      "fst ` set (coalesce ((s, l + m) # bs)) \<subseteq> fst ` set ((s, l + m) # bs)" by blast+
    have "{s..<s + (l + m)} = {s..<s + l} \<union> {t..<t + m}" using True 1(3) by auto
    with i True show ?thesis by auto
  next
    case False
    have sep: "separated False ((t, m) # bs)" using 1(3) by simp
    have lt: "s + l < t" using 1(3) False by (simp add: before_def)
    have "before True (s, l) c" if "c \<in> set (coalesce ((t, m) # bs))" for c
      using coalesce_starts [OF sep that] lt by (simp add: before_def)
    with 1(2) [OF False sep] 1(3) False show ?thesis by auto
  qed
qed (auto simp: before_def)

definition apart :: "int \<times> int \<Rightarrow> int \<times> int \<Rightarrow> bool" where
  "apart a b \<longleftrightarrow> fst a + snd a \<le> fst b \<or> fst b + snd b \<le> fst a"

lemma apart_bytes: "apart a b \<Longrightarrow> block_bytes a \<inter> block_bytes b = {}"
  by (auto simp: apart_def)

lemma bytes_apart:
  assumes "0 < snd a" "0 < snd b" "block_bytes a \<inter> block_bytes b = {}"
  shows "apart a b"
proof (rule ccontr)
  assume "\<not> apart a b"
  then have "max (fst a) (fst b) \<in> block_bytes a \<inter> block_bytes b"
    using assms(1,2) by (auto simp: apart_def)
  with assms(3) show False by blast
qed

lemma sorted_apart_separated:
  assumes "sorted xs" "distinct xs" "\<forall>a \<in> set xs. 0 < snd a"
      and "\<And>a b. a \<in> set xs \<Longrightarrow> b \<in> set xs \<Longrightarrow> a \<noteq> b \<Longrightarrow> apart a b"
  shows "separated False xs"
  using assms
proof (induction xs)
  case (Cons a xs)
  have "before False a c" if c: "c \<in> set xs" for c
  proof -
    have "fst a \<le> fst c" using Cons.prems(1) c by (auto simp: less_eq_prod_def)
    moreover have "apart a c" using Cons.prems(2) Cons.prems(4) [of a c] c by auto
    moreover have "0 < snd c" using Cons.prems(3) c by auto
    ultimately show ?thesis by (auto simp: before_def apart_def)
  qed
  with Cons show ?case by simp
qed simp

lemma separated_apart:
  assumes "separated g bs" "a \<in> set bs" "b \<in> set bs" "a \<noteq> b"
  shows "apart a b"
  using assms
proof (induction bs)
  case (Cons c bs)
  have "apart c d \<and> apart d c" if "d \<in> set bs" for d
    using Cons.prems(1) that before_le [of g c d] by (simp add: apart_def)
  moreover have "a = c \<or> a \<in> set bs" "b = c \<or> b \<in> set bs" "separated g bs" using Cons.prems by auto
  ultimately show ?case using Cons.IH Cons.prems(4) by blast
qed simp

lemma separated_distinct: "separated g bs \<Longrightarrow> distinct bs"
  by (induction bs) (auto simp: before_def split: if_splits)

lemma block_in_bytes: "b \<in> set bs \<Longrightarrow> block_bytes b \<subseteq> bytes_of bs"
  by (auto simp: bytes_of_def)

lemma insert_block:
  assumes "separated True bs" "0 < n" "{off..<off + n} \<inter> bytes_of bs = {}"
  shows "separated True (coalesce (sort (bs @ [(off, n)]))) \<and>
     bytes_of (coalesce (sort (bs @ [(off, n)]))) = {off..<off + n} \<union> bytes_of bs \<and>
     fst ` set (coalesce (sort (bs @ [(off, n)]))) \<subseteq> insert off (fst ` set bs)"
proof -
  let ?xs = "sort (bs @ [(off, n)])"
  have pos: "0 < snd b" if "b \<in> set bs" for b using assms(1) that by (auto simp: separated_def)
  have new: "apart b (off, n)" if b: "b \<in> set bs" for b
  proof (rule bytes_apart [OF pos [OF b]])
    show "block_bytes b \<inter> block_bytes (off, n) = {}"
      unfolding fst_conv snd_conv using assms(3) block_in_bytes [OF b] by blast
  qed (use assms(2) in simp)
  have sym: "apart a b \<Longrightarrow> apart b a" for a b by (auto simp: apart_def)
  have "(off, n) \<notin> set bs" using new [of "(off, n)"] assms(2) by (auto simp: apart_def)
  then have d: "distinct ?xs" using separated_distinct [OF assms(1)] by simp
  have s: "set ?xs = insert (off, n) (set bs)" by simp
  have "separated False ?xs"
  proof (rule sorted_apart_separated [OF _ d])
    show "\<forall>a \<in> set ?xs. 0 < snd a" unfolding s using pos assms(2) by auto
    show "apart a b" if "a \<in> set ?xs" "b \<in> set ?xs" "a \<noteq> b" for a b
      using that new sym separated_apart [OF assms(1)] unfolding s by blast
  qed simp
  note cr = coalesce_run [OF this]
  have "bytes_of ?xs = {off..<off + n} \<union> bytes_of bs" unfolding bytes_of_def s by simp
  with cr s show ?thesis by auto
qed

lemma free_check_exact:
  assumes "separated True bs" "0 < n"
  shows "free_check off n bs =
     (if {off..<off + n} \<inter> bytes_of bs = {} then Not_Free
      else if {off..<off + n} \<subseteq> bytes_of bs then Double_Free else Corruption)"
  using assms(1)
proof (induction bs)
  case Nil
  then show ?case by simp
next
  case (Cons b bs)
  obtain s l where b: "b = (s, l)" by fastforce
  have tail: "x \<in> bytes_of bs \<Longrightarrow> s + l < x" for x
  proof -
    assume "x \<in> bytes_of bs"
    then obtain c where c: "c \<in> set bs" "x \<in> block_bytes c" by (auto simp: bytes_of_def)
    then have "before True (s, l) c" using Cons.prems b by simp
    with c show "s + l < x" by (auto simp: before_def)
  qed
  consider (inside) "s \<le> off" "off + n \<le> s + l" | (apart) "off + n \<le> s \<or> s + l \<le> off"
    | (across) "\<not> (s \<le> off \<and> off + n \<le> s + l)" "\<not> (off + n \<le> s \<or> s + l \<le> off)" by blast
  then show ?case
  proof cases
    case inside
    then have sub: "{off..<off + n} \<subseteq> {s..<s + l}" by auto
    have "off \<in> {off..<off + n}" using assms(2) by simp
    with sub have "off \<in> {off..<off + n} \<inter> bytes_of (b # bs)" using b by auto
    moreover have "{off..<off + n} \<subseteq> bytes_of (b # bs)" using sub b by auto
    ultimately have "\<not> {off..<off + n} \<inter> bytes_of (b # bs) = {}" "{off..<off + n} \<subseteq> bytes_of (b # bs)" by blast+
    then show ?thesis using inside b by (simp only: free_check.simps if_False if_True simp_thms) simp
  next
    case apart
    then have e: "x \<in> {off..<off + n} \<Longrightarrow> x \<notin> {s..<s + l}" for x by auto
    have "{off..<off + n} \<inter> bytes_of (b # bs) = {off..<off + n} \<inter> bytes_of bs"
      "{off..<off + n} \<subseteq> bytes_of (b # bs) \<longleftrightarrow> {off..<off + n} \<subseteq> bytes_of bs"
      unfolding b bytes_of_simps fst_conv snd_conv using e by blast+
    moreover have "\<not> (s \<le> off \<and> off + n \<le> s + l)" "\<not> (off = s \<and> n = l)" using apart assms(2) Cons.prems b by auto
    then have "free_check off n (b # bs) = free_check off n bs" using apart b by auto
    moreover have "separated True bs" using Cons.prems by simp
    ultimately show ?thesis using Cons.IH by simp
  next
    case across
    let ?x = "if off < s then off else s + l"
    have l: "0 < l" using Cons.prems b by simp
    have x: "?x \<in> {off..<off + n}" using across assms(2) by auto
    have "?x \<notin> {s..<s + l}" by auto
    moreover have "?x \<notin> bytes_of bs" using tail [of ?x] l by (auto split: if_splits)
    ultimately have "?x \<notin> bytes_of (b # bs)" using b by simp
    with x have c1: "\<not> {off..<off + n} \<subseteq> bytes_of (b # bs)" by blast
    have "max off s \<in> {off..<off + n}" "max off s \<in> {s..<s + l}" using across l assms(2) by auto
    then have c2: "{off..<off + n} \<inter> bytes_of (b # bs) \<noteq> {}"
      unfolding b bytes_of_simps fst_conv snd_conv by blast
    have "free_check off n (b # bs) = Corruption" using across b by auto
    then show ?thesis by (simp only: c1 c2 if_False)
  qed
qed

lemma free_check_double:
  "free_check off n bs = Double_Free \<Longrightarrow> \<exists>b \<in> set bs. fst b \<le> off \<and> off + n \<le> fst b + snd b"
  by (induction off n bs rule: free_check.induct) (auto split: if_splits)

text \<open>A free list whose blocks do not touch holds every free run inside one block.\<close>

lemma run_in_block:
  assumes "separated True bs" "0 < n" "{off..<off + n} \<subseteq> bytes_of bs"
  shows "\<exists>b \<in> set bs. fst b \<le> off \<and> off + n \<le> fst b + snd b"
proof (rule free_check_double)
  have "off \<in> {off..<off + n}" using assms(2) by simp
  with assms(3) have "{off..<off + n} \<inter> bytes_of bs \<noteq> {}" by blast
  with assms show "free_check off n bs = Double_Free" by (simp only: free_check_exact if_False if_True simp_thms)
qed

lemma first_fit_None: "first_fit n bs = None \<longleftrightarrow> (\<forall>b \<in> set bs. snd b < n)"
  by (induction n bs rule: first_fit.induct) auto

lemma full_block:
  assumes "separated True bs" "0 < n" "bytes_of bs = {0..<n}"
  shows "bs = [(0, n)]"
proof -
  obtain b where b: "b \<in> set bs" "fst b \<le> 0" "n \<le> fst b + snd b"
    using run_in_block [OF assms(1,2), of 0] assms(3) by auto
  have inside: "0 \<le> fst c \<and> fst c < n \<and> fst c + snd c \<le> n" if c: "c \<in> set bs" for c
  proof -
    have pos: "0 < snd c" using assms(1) c by (auto simp: separated_def)
    then have "fst c \<in> {0..<n}" "fst c + snd c - 1 \<in> {0..<n}"
      using block_in_bytes [OF c] assms(3) by auto
    then show ?thesis by auto
  qed
  from inside [OF b(1)] b have "b = (0, n)" by (cases b) simp
  moreover have "c = b" if c: "c \<in> set bs" for c
  proof (rule ccontr)
    assume "c \<noteq> b"
    then have "apart c b" using separated_apart [OF assms(1) c b(1)] by blast
    moreover have "0 < snd c" using assms(1) c by (auto simp: separated_def)
    ultimately show False using inside [OF c] \<open>b = (0, n)\<close> by (auto simp: apart_def)
  qed
  ultimately have s: "set bs = {(0, n)}" using b(1) by blast
  have "length bs = 1" using distinct_card [OF separated_distinct [OF assms(1)]] unfolding s by simp
  then obtain x where "bs = [x]" by (auto simp: length_Suc_conv)
  with s show ?thesis by simp
qed

section \<open>The pool: one allocator and the buffers handed out\<close>

record Pool =
  p_allocator :: BufferAllocator
  p_buffers :: "ManagedBuffer list"

datatype pool_op = Alloc int | Release nat

text \<open>
  The connectors wrap the block of every successful \<^verbatim>\<open>alloc\<close> in a managed buffer and release it by
  \<^verbatim>\<open>release\<close>, \<^verbatim>\<open>__exit__\<close> or \<^verbatim>\<open>__del__\<close>, so a buffer may be released more than once.
\<close>

definition pool_alloc :: "int \<Rightarrow> Pool \<Rightarrow> (py_exc + ManagedBuffer) \<times> Pool" where
  "pool_alloc n P =
     (case alloc n (p_allocator P) of
        (Inl e, A) \<Rightarrow> (Inl e, P\<lparr>p_allocator := A\<rparr>)
      | (Inr off, A) \<Rightarrow>
          (let b = \<lparr>buf_offset = off, buf_size = n, buf_released = False\<rparr>
           in (Inr b, P\<lparr>p_allocator := A, p_buffers := p_buffers P @ [b]\<rparr>)))"

definition pool_release :: "nat \<Rightarrow> Pool \<Rightarrow> (py_exc + unit) \<times> Pool" where
  "pool_release i P =
     (if i < length (p_buffers P)
      then case release (p_buffers P ! i) (p_allocator P) of
          (Inl e, A) \<Rightarrow> (Inl e, P\<lparr>p_allocator := A\<rparr>)
        | (Inr b, A) \<Rightarrow> (Inr (), P\<lparr>p_allocator := A, p_buffers := (p_buffers P)[i := b]\<rparr>)
      else (Inr (), P))"

fun pool_step :: "pool_op \<Rightarrow> Pool \<Rightarrow> (py_exc + unit) \<times> Pool" where
  "pool_step (Alloc n) P = (case pool_alloc n P of (r, P') \<Rightarrow> (map_sum id (\<lambda>_. ()) r, P'))"
| "pool_step (Release i) P = pool_release i P"

definition make_pool :: "int \<Rightarrow> int \<Rightarrow> Pool" where
  "make_pool sz align = \<lparr>p_allocator = make_allocator sz align, p_buffers = []\<rparr>"

definition pool_run :: "pool_op list \<Rightarrow> Pool \<Rightarrow> Pool" where
  "pool_run ops P = fold (\<lambda>op Q. snd (pool_step op Q)) ops P"

fun positive_op :: "pool_op \<Rightarrow> bool" where
  "positive_op (Alloc n) = (0 < n)"
| "positive_op (Release i) = True"

definition live_blocks :: "int \<Rightarrow> ManagedBuffer list \<Rightarrow> (int \<times> int) list" where
  "live_blocks align bs =
     map (\<lambda>b. (buf_offset b, align_up align (buf_size b))) (List.filter (\<lambda>b. \<not> buf_released b) bs)"

definition tiles :: "int \<Rightarrow> int \<Rightarrow> (int \<times> int) list \<Rightarrow> (int \<times> int) list \<Rightarrow> bool" where
  "tiles align n F L \<longleftrightarrow>
     separated True F \<and> (\<forall>b \<in> set L. 0 < snd b) \<and> sorted_wrt apart L \<and>
     bytes_of F \<union> bytes_of L = {0..<n} \<and> bytes_of F \<inter> bytes_of L = {} \<and>
     (\<forall>b \<in> set F \<union> set L. align dvd fst b)"

definition pool_inv :: "int \<Rightarrow> int \<Rightarrow> Pool \<Rightarrow> bool" where
  "pool_inv n align P \<longleftrightarrow>
     alignment (p_allocator P) = align \<and> total_size (p_allocator P) = n \<and>
     (\<forall>b \<in> set (p_buffers P). \<not> buf_released b \<longrightarrow> 0 < buf_size b) \<and>
     tiles align n (free_blocks (p_allocator P)) (live_blocks align (p_buffers P))"

lemma live_blocks_simps [simp]:
  "live_blocks align [] = []"
  "live_blocks align (xs @ ys) = live_blocks align xs @ live_blocks align ys"
  "live_blocks align (b # bs) =
     (if buf_released b then [] else [(buf_offset b, align_up align (buf_size b))]) @ live_blocks align bs"
  by (auto simp: live_blocks_def)

lemma tiles_make: "0 < n \<Longrightarrow> tiles align n [(0, n)] []"
  by (simp add: tiles_def)

lemma starts_dvd:
  assumes "fst ` set F' \<subseteq> insert x (fst ` set F)" "\<forall>b \<in> set F. align dvd fst b" "align dvd x"
  shows "\<forall>b \<in> set F'. align dvd fst b"
proof
  fix b assume "b \<in> set F'"
  then have "fst b \<in> insert x (fst ` set F)" using assms(1) by blast
  with assms(2,3) show "align dvd fst b" by auto
qed

lemma tiles_alloc:
  assumes "tiles align n F L" "0 < m" "align dvd m" "first_fit m F = Some (r, F')"
  shows "tiles align n F' (L @ [(r, m)])"
proof -
  have sep: "separated True F" using assms(1) by (simp add: tiles_def)
  note ff = first_fit_run [OF sep assms(2,4)]
  have cover: "{r..<r + m} \<union> bytes_of F' = bytes_of F" and off: "{r..<r + m} \<inter> bytes_of F' = {}" using ff by blast+
  have L: "bytes_of F \<union> bytes_of L = {0..<n}" "bytes_of F \<inter> bytes_of L = {}" using assms(1) by (simp_all add: tiles_def)
  have "apart b (r, m)" if b: "b \<in> set L" for b
  proof (rule bytes_apart)
    show "0 < snd b" using assms(1) b by (simp add: tiles_def)
    show "0 < snd (r, m)" using assms(2) by simp
    show "block_bytes b \<inter> block_bytes (r, m) = {}"
      unfolding fst_conv snd_conv using block_in_bytes [OF b] cover L(2) by blast
  qed
  moreover have "bytes_of F' \<union> bytes_of (L @ [(r, m)]) = {0..<n}" "bytes_of F' \<inter> bytes_of (L @ [(r, m)]) = {}"
    unfolding bytes_of_simps fst_conv snd_conv using cover off L by blast+
  moreover have r: "align dvd r" using ff assms(1) by (auto simp: tiles_def)
  moreover have "\<forall>b \<in> set F'. align dvd fst b"
  proof (rule starts_dvd [where F = F and x = "r + m"])
    show "fst ` set F' \<subseteq> insert (r + m) (fst ` set F)" using ff by simp
    show "\<forall>b \<in> set F. align dvd fst b" using assms(1) by (simp add: tiles_def)
  qed (use r assms(3) in simp)
  ultimately show ?thesis
    using ff assms(1,2) unfolding tiles_def by (simp add: sorted_wrt_append ball_Un)
qed

lemma tiles_free:
  assumes "tiles align n F (L1 @ (off, m) # L2)"
  shows "free_check off m F = Not_Free \<and> tiles align n (coalesce (sort (F @ [(off, m)]))) (L1 @ L2)"
proof -
  let ?F = "coalesce (sort (F @ [(off, m)]))"
  have sep: "separated True F" and m: "0 < m" using assms by (auto simp: tiles_def)
  have all: "bytes_of F \<union> ({off..<off + m} \<union> bytes_of (L1 @ L2)) = {0..<n}"
    and "bytes_of F \<inter> ({off..<off + m} \<union> bytes_of (L1 @ L2)) = {}"
    using assms unfolding tiles_def by (auto simp: Un_left_commute)
  then have dis: "{off..<off + m} \<inter> bytes_of F = {}" and dis2: "bytes_of F \<inter> bytes_of (L1 @ L2) = {}" by blast+
  note ins = insert_block [OF sep m dis]
  have "apart (off, m) b \<or> apart b (off, m)" if "b \<in> set (L1 @ L2)" for b
    using assms that by (auto simp: tiles_def sorted_wrt_append)
  then have "block_bytes b \<inter> {off..<off + m} = {}" if "b \<in> set (L1 @ L2)" for b
    using apart_bytes [of b "(off, m)"] apart_bytes [of "(off, m)" b] that unfolding fst_conv snd_conv by blast
  then have "{off..<off + m} \<inter> bytes_of (L1 @ L2) = {}" unfolding bytes_of_def by blast
  with ins dis2 all have "bytes_of ?F \<union> bytes_of (L1 @ L2) = {0..<n}" "bytes_of ?F \<inter> bytes_of (L1 @ L2) = {}"
    by blast+
  moreover have "\<forall>b \<in> set ?F. align dvd fst b"
  proof (rule starts_dvd [where F = F and x = off])
    show "fst ` set ?F \<subseteq> insert off (fst ` set F)" using ins by simp
  qed (use assms in \<open>simp_all add: tiles_def\<close>)
  moreover have "free_check off m F = Not_Free" using free_check_exact [OF sep m] dis by (simp only: if_True simp_thms)
  ultimately show ?thesis using ins assms unfolding tiles_def by (simp add: sorted_wrt_append ball_Un)
qed

lemma pool_alloc_inv:
  assumes "pool_inv n align P" "0 < align" "0 < m"
  shows "pool_inv n align (snd (pool_alloc m P))"
proof (cases "first_fit (align_up align m) (free_blocks (p_allocator P))")
  case None
  with assms show ?thesis by (simp add: pool_alloc_def alloc_def pool_inv_def)
next
  case (Some rF)
  obtain r F where rF: "rF = (r, F)" by fastforce
  from assms(1) have "tiles align n (free_blocks (p_allocator P)) (live_blocks align (p_buffers P))"
    by (simp add: pool_inv_def)
  from tiles_alloc [OF this align_up_pos [OF assms(2,3)] align_up_dvd Some [unfolded rF]]
  show ?thesis using Some rF assms by (auto simp: pool_alloc_def alloc_def pool_inv_def Let_def)
qed

lemma release_inv:
  assumes "pool_inv n align P" "0 < align" "i < length (p_buffers P)"
  shows "pool_inv n align (snd (pool_release i P)) \<and> fst (pool_release i P) = Inr ()"
proof -
  define b where "b = p_buffers P ! i"
  define xs where "xs = take i (p_buffers P)"
  define ys where "ys = drop (Suc i) (p_buffers P)"
  have split: "p_buffers P = xs @ b # ys" and len: "length xs = i"
    using assms(3) id_take_nth_drop by (auto simp: b_def xs_def ys_def)
  show ?thesis
  proof (cases "buf_released b")
    case True
    with assms split len show ?thesis
      by (auto simp: pool_release_def release_def pool_inv_def nth_append list_update_append)
  next
    case False
    let ?F = "free_blocks (p_allocator P)"
    have "tiles align n ?F (live_blocks align xs @ (buf_offset b, align_up align (buf_size b)) # live_blocks align ys)"
      using assms(1) False by (simp add: pool_inv_def split)
    note t = tiles_free [OF this]
    have "pool_release i P =
      (Inr (), P\<lparr>p_allocator := p_allocator P
         \<lparr>free_blocks := coalesce (sort (?F @ [(buf_offset b, align_up align (buf_size b))]))\<rparr>,
         p_buffers := xs @ b\<lparr>buf_released := True\<rparr> # ys\<rparr>)"
      using False assms t by (simp add: pool_release_def release_def free_def pool_inv_def split len nth_append
          list_update_append)
    with t assms(1) show ?thesis by (simp add: pool_inv_def split)
  qed
qed

lemma pool_step_inv:
  assumes "pool_inv n align P" "0 < align" "positive_op op"
  shows "pool_inv n align (snd (pool_step op P))"
proof (cases op)
  case (Alloc m)
  with pool_alloc_inv [OF assms(1,2)] assms(3) show ?thesis by (simp add: case_prod_unfold)
next
  case (Release i)
  with release_inv [OF assms(1,2)] assms(1) show ?thesis by (cases "i < length (p_buffers P)") (simp_all add: pool_release_def)
qed

lemma pool_run_inv:
  "pool_inv n align P \<Longrightarrow> 0 < align \<Longrightarrow> list_all positive_op ops \<Longrightarrow> pool_inv n align (pool_run ops P)"
  by (induction ops arbitrary: P) (simp_all add: pool_run_def pool_step_inv)

lemma make_pool_inv: "0 < n \<Longrightarrow> pool_inv n align (make_pool n align)"
  by (simp add: pool_inv_def make_pool_def make_allocator_def tiles_make)

lemma reached_inv:
  "0 < n \<Longrightarrow> 0 < align \<Longrightarrow> list_all positive_op ops \<Longrightarrow> pool_inv n align (pool_run ops (make_pool n align))"
  by (rule pool_run_inv [OF make_pool_inv])

lemma live_block_member:
  "b \<in> set bs \<Longrightarrow> \<not> buf_released b \<Longrightarrow> (buf_offset b, align_up align (buf_size b)) \<in> set (live_blocks align bs)"
  by (auto simp: live_blocks_def)

lemma live_apart:
  assumes "sorted_wrt apart (live_blocks align bs)" "i < j" "j < length bs"
      "\<not> buf_released (bs ! i)" "\<not> buf_released (bs ! j)"
  shows "apart (buf_offset (bs ! i), align_up align (buf_size (bs ! i)))
     (buf_offset (bs ! j), align_up align (buf_size (bs ! j)))"
proof -
  have "bs = take j bs @ bs ! j # drop (Suc j) bs" using assms(3) by (rule id_take_nth_drop)
  then have "live_blocks align bs = live_blocks align (take j bs) @
      (buf_offset (bs ! j), align_up align (buf_size (bs ! j))) # live_blocks align (drop (Suc j) bs)"
    using assms(5) by (metis append_Cons append_Nil live_blocks_simps(2,3))
  moreover have "bs ! i \<in> set (take j bs)" using assms(2,3) by (auto simp: in_set_conv_nth)
  ultimately show ?thesis
    using assms(1) live_block_member [OF _ assms(4), of "take j bs" align] by (auto simp: sorted_wrt_append)
qed

section \<open>What the pool promises\<close>

text \<open>
  C35: Safety of the pool.  After any sequence of allocations of at least one byte and releases
  (repeated ones included), two buffers that are not released occupy disjoint ranges, every such buffer
  lies inside the pool and starts at a multiple of the alignment, and no release ever raises.
\<close>

theorem pool_buffers_disjoint:
  assumes "0 < n" "0 < align" "list_all positive_op ops"
  defines "P \<equiv> pool_run ops (make_pool n align)"
  defines "bs \<equiv> p_buffers P"
  shows "(\<forall>i < length bs. \<not> buf_released (bs ! i) \<longrightarrow>
        0 \<le> buf_offset (bs ! i) \<and> buf_offset (bs ! i) + buf_size (bs ! i) \<le> n \<and> align dvd buf_offset (bs ! i)) \<and>
     (\<forall>i < length bs. \<forall>j < i. \<not> buf_released (bs ! i) \<longrightarrow> \<not> buf_released (bs ! j) \<longrightarrow>
        buf_offset (bs ! i) + buf_size (bs ! i) \<le> buf_offset (bs ! j) \<or>
        buf_offset (bs ! j) + buf_size (bs ! j) \<le> buf_offset (bs ! i)) \<and>
     (\<forall>i. fst (pool_release i P) = Inr ())"
proof (intro conjI allI impI)
  have inv: "pool_inv n align P" unfolding P_def by (rule reached_inv [OF assms(1-3)])
  then have t: "tiles align n (free_blocks (p_allocator P)) (live_blocks align bs)"
    by (simp add: pool_inv_def bs_def)
  fix i
  show "fst (pool_release i P) = Inr ()"
    using release_inv [OF inv assms(2)] by (cases "i < length bs") (simp_all add: pool_release_def bs_def)
  assume i: "i < length bs" "\<not> buf_released (bs ! i)"
  let ?b = "bs ! i"
  have ge: "buf_size c \<le> align_up align (buf_size c)" for c using assms(2) by (rule align_up_ge)
  have mem: "(buf_offset ?b, align_up align (buf_size ?b)) \<in> set (live_blocks align bs)"
    using live_block_member [OF _ i(2)] i(1) by simp
  have "0 < align_up align (buf_size ?b)" using t mem by (auto simp: tiles_def)
  moreover have "block_bytes (buf_offset ?b, align_up align (buf_size ?b)) \<subseteq> {0..<n}"
    using block_in_bytes [OF mem] t unfolding tiles_def by blast
  ultimately show "0 \<le> buf_offset ?b" "buf_offset ?b + buf_size ?b \<le> n"
    using ge [of ?b] by auto
  have "\<forall>b \<in> set (live_blocks align bs). align dvd fst b" using t by (simp add: tiles_def)
  from bspec [OF this mem] show "align dvd buf_offset ?b" by simp
  fix j assume j: "j < i" "\<not> buf_released (bs ! j)"
  have "apart (buf_offset (bs ! j), align_up align (buf_size (bs ! j))) (buf_offset ?b, align_up align (buf_size ?b))"
    using live_apart [OF _ j(1) i(1) j(2) i(2)] t by (simp add: tiles_def)
  then show "buf_offset ?b + buf_size ?b \<le> buf_offset (bs ! j) \<or>
      buf_offset (bs ! j) + buf_size (bs ! j) \<le> buf_offset ?b"
    using ge [of ?b] ge [of "bs ! j"] by (auto simp: apart_def)
qed

theorem pool_buffers_disjoint_witness:
  "fst (pool_release 1 (pool_run [Alloc 5000, Alloc 1, Release 0, Alloc 4096] (make_pool 16384 4096))) = Inr ()"
  using pool_buffers_disjoint [of 16384 4096 "[Alloc 5000, Alloc 1, Release 0, Alloc 4096]"] by simp

text \<open>A view of a live buffer never trips over its offset when the item size divides the alignment.\<close>

lemma as_tensor_aligned:
  assumes "0 < n" "0 < align" "list_all positive_op ops" "b \<in> set (p_buffers (pool_run ops (make_pool n align)))"
      and "\<not> buf_released b" "0 < k" "int k dvd align"
  shows "as_tensor_check k shape b =
     (if (\<forall>d \<in> set shape. 0 \<le> d) \<and> int k * prod_list shape = buf_size b then None else Some ValueError)"
proof -
  have "(buf_offset b, align_up align (buf_size b)) \<in> set (live_blocks align (p_buffers (pool_run ops (make_pool n align))))"
    by (rule live_block_member [OF assms(4,5)])
  moreover have "\<forall>c \<in> set (live_blocks align (p_buffers (pool_run ops (make_pool n align)))). align dvd fst c"
    using reached_inv [OF assms(1-3)] by (simp add: pool_inv_def tiles_def)
  ultimately have "align dvd buf_offset b" by (metis fst_conv)
  with assms(7) have "buf_offset b mod int k = 0" by (meson dvd_trans mod_0_imp_dvd dvd_imp_mod_0)
  then show ?thesis using assms(6) by (auto simp: as_tensor_check_def not_le)
qed

text \<open>
  C36: Nothing is lost to fragmentation for ever.  Whatever was allocated and released before, once every
  buffer is released the free list is again the single block of the whole pool.
\<close>

theorem pool_drains:
  assumes "0 < n" "0 < align" "list_all positive_op ops"
      and "\<forall>b \<in> set (p_buffers (pool_run ops (make_pool n align))). buf_released b"
  shows "free_blocks (p_allocator (pool_run ops (make_pool n align))) = [(0, n)]"
proof (rule full_block [OF _ assms(1)])
  let ?P = "pool_run ops (make_pool n align)"
  have "live_blocks align (p_buffers ?P) = []" using assms(4) by (auto simp: live_blocks_def)
  then have "tiles align n (free_blocks (p_allocator ?P)) []"
    using reached_inv [OF assms(1-3)] by (simp add: pool_inv_def)
  then show "separated True (free_blocks (p_allocator ?P))" "bytes_of (free_blocks (p_allocator ?P)) = {0..<n}"
    by (simp_all add: tiles_def)
qed

theorem pool_drains_witness:
  "free_blocks (p_allocator (pool_run [Alloc 5000, Alloc 1, Alloc 9, Release 1, Release 0, Release 2]
     (make_pool 16384 4096))) = [(0, 16384)]"
  by (rule pool_drains) (simp_all, code_simp)

text \<open>
  The allocator refuses exactly when it must.  An allocation in a reachable state raises
  \<^verbatim>\<open>MemoryError\<close> if and only if no run of free bytes of the rounded-up length exists anywhere in
  the pool; otherwise it succeeds, rounding up by less than one alignment unit.
\<close>

theorem alloc_refuses_exactly:
  assumes "0 < n" "0 < align" "list_all positive_op ops" "0 < m"
  defines "A \<equiv> p_allocator (pool_run ops (make_pool n align))"
  shows "(fst (alloc m A) = Inl MemoryError \<longleftrightarrow>
        (\<nexists>s. {s..<s + align_up align m} \<subseteq> bytes_of (free_blocks A))) \<and>
     (fst (alloc m A) = Inl MemoryError \<or> (\<exists>s. fst (alloc m A) = Inr s)) \<and>
     m \<le> align_up align m \<and> align_up align m < m + align"
proof -
  let ?F = "free_blocks A" and ?m = "align_up align m"
  have inv: "alignment A = align" "separated True ?F"
    using reached_inv [OF assms(1-3)] by (simp_all add: A_def pool_inv_def tiles_def)
  have pos: "0 < ?m" using align_up_pos assms(2,4) by blast
  have "(\<exists>s. {s..<s + ?m} \<subseteq> bytes_of ?F) \<longleftrightarrow> (\<exists>b \<in> set ?F. ?m \<le> snd b)"
  proof
    assume "\<exists>s. {s..<s + ?m} \<subseteq> bytes_of ?F"
    then obtain s where "{s..<s + ?m} \<subseteq> bytes_of ?F" by blast
    from run_in_block [OF inv(2) pos this] show "\<exists>b \<in> set ?F. ?m \<le> snd b" by force
  next
    assume "\<exists>b \<in> set ?F. ?m \<le> snd b"
    then obtain b where b: "b \<in> set ?F" "?m \<le> snd b" by blast
    then have "{fst b..<fst b + ?m} \<subseteq> block_bytes b" by auto
    with block_in_bytes [OF b(1)] show "\<exists>s. {s..<s + ?m} \<subseteq> bytes_of ?F" by blast
  qed
  then have "(first_fit ?m ?F = None) = (\<nexists>s. {s..<s + ?m} \<subseteq> bytes_of ?F)"
    unfolding first_fit_None by (auto simp: not_less)
  then show ?thesis
    using inv(1) assms(2) align_up_ge [OF assms(2)] align_up_less [OF assms(2)]
    by (auto simp: alloc_def split: option.splits prod.splits)
qed

theorem alloc_refuses_exactly_witness:
  "fst (alloc 4097 (p_allocator (pool_run [Alloc 4096, Alloc 4096, Release 0] (make_pool 12288 4096)))) =
     Inl MemoryError \<longleftrightarrow>
   (\<nexists>s. {s..<s + align_up 4096 4097} \<subseteq>
      bytes_of (free_blocks (p_allocator (pool_run [Alloc 4096, Alloc 4096, Release 0] (make_pool 12288 4096)))))"
  using alloc_refuses_exactly [where n = 12288 and align = 4096 and ops = "[Alloc 4096, Alloc 4096, Release 0]" and m = 4097]
  by simp

text \<open>
  Empty buffers break the pool.  Allocating zero bytes succeeds and hands out an offset that
  another buffer will own; releasing the empty buffer leaves an empty free block in the middle of that
  buffer, and the release of the live buffer then raises the \<^verbatim>\<open>RuntimeError\<close> of memory corruption
  and never returns its bytes.  This happens in every pool of at least two alignment units.
\<close>

theorem empty_buffer_corrupts:
  assumes "0 < align" "2 * align \<le> n"
  shows "fst (pool_release 2 (pool_run [Alloc align, Alloc 0, Release 0, Alloc (2 * align), Release 1]
      (make_pool n align))) = Inl RuntimeError"
proof -
  have up: "align_up align align = align" "align_up align 0 = 0" "align_up align (2 * align) = 2 * align"
    using align_up_mult [OF assms(1), of 1] align_up_mult [OF assms(1), of 0] align_up_mult [OF assms(1), of 2]
    by simp_all
  note run = pool_run_def make_pool_def make_allocator_def pool_alloc_def alloc_def up Let_def
    pool_release_def release_def free_def insort_key.simps less_eq_prod_def
  show ?thesis
  proof (cases "n = 2 * align")
    case True
    show ?thesis unfolding True using assms(1) by (simp add: run)
  next
    case False
    then show ?thesis using assms by (simp add: run)
  qed
qed

theorem empty_buffer_corrupts_witness:
  "fst (pool_release 2 (pool_run [Alloc 4096, Alloc 0, Release 0, Alloc 8192, Release 1] (make_pool 16384 4096))) =
     Inl RuntimeError"
  using empty_buffer_corrupts [of 4096 16384] by simp

end
