(* ===== verification/Replica_Coordinator.thy ===== *)
theory Replica_Coordinator
  imports Omni_Prelude
begin

text \<open>
  The replica registry (\<^verbatim>\<open>distributed/omni_coordinator/\<close>): the events of the stage clients, the
  coordinator's handlers for them, the heartbeat timeouts, the coalesced broadcasts of its periodic
  thread, and the client of the hub that caches the last published list.

  Times are exact rational seconds.  The receiving and the periodic thread interleave at the locks of
  the code: one event is handled under \<^verbatim>\<open>_lock\<close>; one turn of the periodic loop takes its snapshot and
  sends it in one step and clears the pending flag in another, as the code does outside the lock.
\<close>

section \<open>Messages\<close>

datatype ReplicaStatus = UP | DOWN | ERROR

text \<open>
  An event after \<^verbatim>\<open>_parse_replica_event\<close>: the status is always a member of the enumeration (anything
  else is dropped by the parser), the queue length may be absent.
\<close>

record ReplicaEvent =
  ev_input_addr :: string
  ev_output_addr :: string
  ev_stage_id :: int
  ev_event_type :: string
  ev_status :: ReplicaStatus
  ev_queue_length :: "int option"

record ReplicaInfo =
  ri_input_addr :: string
  ri_output_addr :: string
  ri_stage_id :: int
  ri_status :: ReplicaStatus
  ri_queue_length :: "int option"
  ri_last_heartbeat :: rat
  ri_registered_at :: rat

type_synonym registry = "(string, ReplicaInfo) dict"

section \<open>The registry\<close>

definition get_active_replicas :: "registry \<Rightarrow> ReplicaInfo list" where
  "get_active_replicas d = List.filter (\<lambda>r. ri_status r = UP) (dict_values d)"

definition add_new_replica_locked :: "rat \<Rightarrow> ReplicaEvent \<Rightarrow> registry \<Rightarrow> py_exc + registry" where
  "add_new_replica_locked now ev d =
     (if ev_input_addr ev = [] then Inl KeyError
      else if ev_stage_id ev < 0 then Inl KeyError
      else Inr (dict_set (ev_input_addr ev)
        \<lparr>ri_input_addr = ev_input_addr ev, ri_output_addr = ev_output_addr ev, ri_stage_id = ev_stage_id ev,
         ri_status = ev_status ev, ri_queue_length = ev_queue_length ev,
         ri_last_heartbeat = now, ri_registered_at = now\<rparr> d))"

definition update_replica_info_locked :: "ReplicaEvent \<Rightarrow> registry \<Rightarrow> py_exc + registry" where
  "update_replica_info_locked ev d =
     (case dict_get d (ev_input_addr ev) of
        None \<Rightarrow> Inl KeyError
      | Some info \<Rightarrow>
          (let info1 = info\<lparr>ri_status := ev_status ev\<rparr>;
               info2 = (if ev_queue_length ev \<noteq> None then info1\<lparr>ri_queue_length := ev_queue_length ev\<rparr> else info1)
           in Inr (dict_set (ev_input_addr ev) info2 d)))"

definition remove_replica_locked :: "ReplicaEvent \<Rightarrow> registry \<Rightarrow> registry" where
  "remove_replica_locked ev d =
     (case dict_get d (ev_input_addr ev) of
        None \<Rightarrow> d
      | Some info \<Rightarrow> dict_set (ev_input_addr ev) (info\<lparr>ri_status := DOWN\<rparr>) d)"

text \<open>The heartbeat check: marks, then deletes what was already down for ten minutes.\<close>

definition timed_out :: "rat \<Rightarrow> rat \<Rightarrow> ReplicaInfo \<Rightarrow> bool" where
  "timed_out timeout now r \<longleftrightarrow> ri_status r = UP \<and> now - ri_last_heartbeat r > timeout"

definition gc_ttl :: rat where "gc_ttl = 600"

definition collectable :: "rat \<Rightarrow> ReplicaInfo \<Rightarrow> bool" where
  "collectable now r \<longleftrightarrow> ri_status r \<in> {DOWN, ERROR} \<and> now - ri_last_heartbeat r > gc_ttl"

definition check_heartbeat_timeouts :: "rat \<Rightarrow> rat \<Rightarrow> registry \<Rightarrow> bool \<times> registry" where
  "check_heartbeat_timeouts timeout now d =
     (list_ex (timed_out timeout now) (dict_values d),
      map (\<lambda>(a, r). (a, if timed_out timeout now r then r\<lparr>ri_status := ERROR\<rparr> else r))
        (List.filter (\<lambda>(a, r). \<not> collectable now r) d))"

section \<open>The coordinator\<close>

datatype loop_phase = Loop_Top | Sent

record Coordinator =
  co_timeout :: rat
  co_replicas :: registry
  co_pending :: bool
  co_last_check :: rat
  co_phase :: loop_phase
  co_published :: "ReplicaInfo list list"   \<comment> \<open>every list sent, the latest first\<close>

definition make_coordinator :: "rat \<Rightarrow> Coordinator" where
  "make_coordinator timeout = \<lparr>co_timeout = timeout, co_replicas = [], co_pending = False, co_last_check = 0,
     co_phase = Loop_Top, co_published = []\<rparr>"

definition schedule_broadcast :: "Coordinator \<Rightarrow> Coordinator" where
  "schedule_broadcast C = C\<lparr>co_pending := True\<rparr>"

text \<open>The public operations, which let the exceptions of the registry through.\<close>

definition add_new_replica :: "rat \<Rightarrow> ReplicaEvent \<Rightarrow> Coordinator \<Rightarrow> (py_exc + unit) \<times> Coordinator" where
  "add_new_replica now ev C =
     (case add_new_replica_locked now ev (co_replicas C) of
        Inl e \<Rightarrow> (Inl e, C)
      | Inr d \<Rightarrow> (Inr (), schedule_broadcast (C\<lparr>co_replicas := d\<rparr>)))"

definition update_replica_info :: "ReplicaEvent \<Rightarrow> Coordinator \<Rightarrow> (py_exc + unit) \<times> Coordinator" where
  "update_replica_info ev C =
     (case update_replica_info_locked ev (co_replicas C) of
        Inl e \<Rightarrow> (Inl e, C)
      | Inr d \<Rightarrow> (Inr (), schedule_broadcast (C\<lparr>co_replicas := d\<rparr>)))"

definition remove_replica :: "ReplicaEvent \<Rightarrow> Coordinator \<Rightarrow> Coordinator" where
  "remove_replica ev C = schedule_broadcast (C\<lparr>co_replicas := remove_replica_locked ev (co_replicas C)\<rparr>)"

text \<open>\<^verbatim>\<open>_handle_event\<close>; the exceptions it catches leave the state as it was.\<close>

definition handle_heartbeat :: "rat \<Rightarrow> ReplicaEvent \<Rightarrow> Coordinator \<Rightarrow> Coordinator" where
  "handle_heartbeat now ev C =
     (case dict_get (co_replicas C) (ev_input_addr ev) of
        None \<Rightarrow> C
      | Some info \<Rightarrow>
          (let info1 = info\<lparr>ri_last_heartbeat := now\<rparr>;
               queue_changed = (ev_queue_length ev \<noteq> None \<and> ri_queue_length info1 \<noteq> ev_queue_length ev);
               info2 = (if queue_changed then info1\<lparr>ri_queue_length := ev_queue_length ev\<rparr> else info1);
               promote = (ri_status info2 = ERROR);
               info3 = (if promote then info2\<lparr>ri_status := UP\<rparr> else info2);
               C1 = C\<lparr>co_replicas := dict_set (ev_input_addr ev) info3 (co_replicas C)\<rparr>
           in if promote \<or> queue_changed then schedule_broadcast C1 else C1))"

definition handle_event :: "rat \<Rightarrow> ReplicaEvent \<Rightarrow> Coordinator \<Rightarrow> Coordinator" where
  "handle_event now ev C =
     (if ev_event_type ev = ''heartbeat'' then handle_heartbeat now ev C
      else case (if dict_get (co_replicas C) (ev_input_addr ev) = None
                 then add_new_replica_locked now ev (co_replicas C)
                 else if ev_status ev = DOWN then Inr (remove_replica_locked ev (co_replicas C))
                 else update_replica_info_locked ev (co_replicas C)) of
          Inl e \<Rightarrow> C
        | Inr d \<Rightarrow> schedule_broadcast (C\<lparr>co_replicas := d\<rparr>))"

text \<open>
  One turn of \<^verbatim>\<open>_periodic_loop\<close> up to the send (whose success \<^verbatim>\<open>zmq\<close> decides), and the clearing of the
  pending flag after a successful send.
\<close>

definition heartbeat_interval :: "rat \<Rightarrow> rat" where
  "heartbeat_interval timeout = max 1 (min (timeout / 2) 5)"

definition heartbeat_due :: "rat \<Rightarrow> Coordinator \<Rightarrow> bool" where
  "heartbeat_due now C \<longleftrightarrow> now - co_last_check C \<ge> heartbeat_interval (co_timeout C)"

definition check_heartbeats :: "rat \<Rightarrow> Coordinator \<Rightarrow> Coordinator" where
  "check_heartbeats now C =
     (if heartbeat_due now C
      then case check_heartbeat_timeouts (co_timeout C) now (co_replicas C) of
          (t, d) \<Rightarrow>
            (let C1 = C\<lparr>co_replicas := d\<rparr>; C2 = (if t then schedule_broadcast C1 else C1)
             in (schedule_broadcast C2)\<lparr>co_last_check := now\<rparr>)
      else C)"

definition publish_replica_list_update :: "bool \<Rightarrow> Coordinator \<Rightarrow> bool \<times> Coordinator" where
  "publish_replica_list_update ok C =
     (if ok then (True, C\<lparr>co_published := get_active_replicas (co_replicas C) # co_published C\<rparr>) else (False, C))"

definition periodic_send :: "rat \<Rightarrow> bool \<Rightarrow> Coordinator \<Rightarrow> Coordinator" where
  "periodic_send now ok C =
     (let C1 = check_heartbeats now C
      in if \<not> co_pending C1 then C1
         else case publish_replica_list_update ok C1 of
             (sent, C2) \<Rightarrow> if sent then C2\<lparr>co_phase := Sent\<rparr> else C2)"

definition periodic_clear :: "Coordinator \<Rightarrow> Coordinator" where
  "periodic_clear C = C\<lparr>co_pending := False, co_phase := Loop_Top\<rparr>"

datatype coord_event = Recv rat ReplicaEvent | Turn rat bool | Clear

text \<open>The two threads as a step function; a turn starts only when the last one is over.\<close>

fun coord_step :: "coord_event \<Rightarrow> Coordinator \<Rightarrow> Coordinator" where
  "coord_step (Recv now ev) C = handle_event now ev C"
| "coord_step (Turn now ok) C = (if co_phase C = Loop_Top then periodic_send now ok C else C)"
| "coord_step Clear C = (if co_phase C = Sent then periodic_clear C else C)"

definition coord_run :: "coord_event list \<Rightarrow> Coordinator \<Rightarrow> Coordinator" where
  "coord_run es C = fold coord_step es C"

section \<open>The hub client\<close>

text \<open>
  Decoding a published list: every queue length goes through \<^verbatim>\<open>int(...)\<close>, so one missing value
  makes the whole message invalid and the cache keeps its old list.
\<close>

definition decode_replica_list :: "ReplicaInfo list \<Rightarrow> py_exc + ReplicaInfo list" where
  "decode_replica_list rs = (if list_ex (\<lambda>r. ri_queue_length r = None) rs then Inl TypeError else Inr rs)"

record Hub =
  hub_list :: "ReplicaInfo list option"

definition hub_receive :: "ReplicaInfo list \<Rightarrow> Hub \<Rightarrow> Hub" where
  "hub_receive rs H = (case decode_replica_list rs of Inl e \<Rightarrow> H | Inr rs' \<Rightarrow> H\<lparr>hub_list := Some rs'\<rparr>)"

definition get_replica_list :: "Hub \<Rightarrow> ReplicaInfo list" where
  "get_replica_list H = (case hub_list H of None \<Rightarrow> [] | Some rs \<Rightarrow> rs)"

definition get_replicas_for_stage :: "int \<Rightarrow> Hub \<Rightarrow> ReplicaInfo list" where
  "get_replicas_for_stage stage_id H = List.filter (\<lambda>r. ri_stage_id r = stage_id) (get_replica_list H)"

section \<open>Facts about the registry\<close>

definition registry_ok :: "registry \<Rightarrow> bool" where
  "registry_ok d \<longleftrightarrow> dict_ok d \<and>
     (\<forall>(a, r) \<in> set d. ri_input_addr r = a \<and> a \<noteq> [] \<and> 0 \<le> ri_stage_id r)"

lemma registry_ok_set:
  assumes "registry_ok d" "ri_input_addr r = a" "a \<noteq> []" "0 \<le> ri_stage_id r"
  shows "registry_ok (dict_set a r d)"
proof -
  have "(b, x) \<in> set (dict_set a r d) \<Longrightarrow> (b, x) = (a, r) \<or> (b, x) \<in> set d" for b x
    by (induction d) (auto split: if_splits)
  with assms show ?thesis by (fastforce simp: registry_ok_def)
qed

lemma registry_ok_get: "registry_ok d \<Longrightarrow> dict_get d a = Some r \<Longrightarrow> ri_input_addr r = a \<and> a \<noteq> [] \<and> 0 \<le> ri_stage_id r"
  by (auto simp: registry_ok_def dest!: map_of_SomeD)

lemma add_locked_Inr:
  "add_new_replica_locked now ev d = Inr d' \<Longrightarrow>
     d' = dict_set (ev_input_addr ev)
        \<lparr>ri_input_addr = ev_input_addr ev, ri_output_addr = ev_output_addr ev, ri_stage_id = ev_stage_id ev,
         ri_status = ev_status ev, ri_queue_length = ev_queue_length ev,
         ri_last_heartbeat = now, ri_registered_at = now\<rparr> d \<and> ev_input_addr ev \<noteq> [] \<and> 0 \<le> ev_stage_id ev"
  by (simp add: add_new_replica_locked_def split: if_splits)

lemma registry_ok_add: "registry_ok d \<Longrightarrow> add_new_replica_locked now ev d = Inr d' \<Longrightarrow> registry_ok d'"
  by (auto dest!: add_locked_Inr intro!: registry_ok_set)

lemma registry_ok_update: "registry_ok d \<Longrightarrow> update_replica_info_locked ev d = Inr d' \<Longrightarrow> registry_ok d'"
  by (auto simp: update_replica_info_locked_def Let_def split: option.splits
      dest: registry_ok_get intro!: registry_ok_set)

lemma registry_ok_remove: "registry_ok d \<Longrightarrow> registry_ok (remove_replica_locked ev d)"
  by (auto simp: remove_replica_locked_def split: option.splits dest: registry_ok_get intro!: registry_ok_set)

lemma checked_keys:
  "map fst (map (\<lambda>(a, r). (a, f a r)) xs) = map fst xs"
  by (induction xs) auto

lemma dict_ok_filter: "dict_ok d \<Longrightarrow> dict_ok (List.filter P d)"
  by (induction d) auto

lemma registry_ok_check: "registry_ok d \<Longrightarrow> registry_ok (snd (check_heartbeat_timeouts timeout now d))"
  unfolding registry_ok_def check_heartbeat_timeouts_def snd_conv checked_keys
  by (auto intro: dict_ok_filter)

lemma registry_ok_event: "registry_ok (co_replicas C) \<Longrightarrow> registry_ok (co_replicas (handle_event now ev C))"
  by (auto simp: handle_event_def handle_heartbeat_def schedule_broadcast_def Let_def
      split: option.splits sum.splits dest: registry_ok_get
      intro: registry_ok_add registry_ok_update registry_ok_remove intro!: registry_ok_set)

lemma active_up: "r \<in> set (get_active_replicas d) \<Longrightarrow> ri_status r = UP"
  by (simp add: get_active_replicas_def)

lemma values_addr: "registry_ok d \<Longrightarrow> map ri_input_addr (dict_values d) = dict_keys d"
  by (auto simp: registry_ok_def)

lemma active_distinct: "registry_ok d \<Longrightarrow> distinct (map ri_input_addr (get_active_replicas d))"
  using values_addr [of d] unfolding get_active_replicas_def
  by (metis distinct_map_filter registry_ok_def)

lemma active_iff:
  assumes "registry_ok d"
  shows "r \<in> set (get_active_replicas d) \<longleftrightarrow> dict_get d (ri_input_addr r) = Some r \<and> ri_status r = UP"
proof
  assume "r \<in> set (get_active_replicas d)"
  then obtain a where "(a, r) \<in> set d" "ri_status r = UP" by (auto simp: get_active_replicas_def)
  with assms show "dict_get d (ri_input_addr r) = Some r \<and> ri_status r = UP"
    by (auto simp: registry_ok_def)
next
  assume "dict_get d (ri_input_addr r) = Some r \<and> ri_status r = UP"
  then show "r \<in> set (get_active_replicas d)"
    by (force simp: get_active_replicas_def dest: map_of_SomeD)
qed

section \<open>What a subscriber can see\<close>

text \<open>The published fields a hub routes by; heartbeat times are left out.\<close>

definition view :: "ReplicaInfo list \<Rightarrow> (string \<times> string \<times> int \<times> int option) list" where
  "view rs = map (\<lambda>r. (ri_input_addr r, ri_output_addr r, ri_stage_id r, ri_queue_length r)) rs"

definition current :: "Coordinator \<Rightarrow> bool" where
  "current C \<longleftrightarrow> view (get_active_replicas (co_replicas C)) =
     (case co_published C of [] \<Rightarrow> [] | rs # _ \<Rightarrow> view rs)"

definition coord_inv :: "Coordinator \<Rightarrow> bool" where
  "coord_inv C \<longleftrightarrow> registry_ok (co_replicas C) \<and> (co_phase C = Sent \<longrightarrow> co_pending C \<and> co_published C \<noteq> []) \<and>
     (\<forall>rs \<in> set (co_published C). (\<forall>r \<in> set rs. ri_status r = UP) \<and> distinct (map ri_input_addr rs))"

lemma coord_inv_make: "coord_inv (make_coordinator t)"
  by (simp add: coord_inv_def make_coordinator_def registry_ok_def)

lemma handle_event_frame:
  "co_published (handle_event now ev C) = co_published C \<and> co_phase (handle_event now ev C) = co_phase C \<and>
   co_timeout (handle_event now ev C) = co_timeout C \<and> co_last_check (handle_event now ev C) = co_last_check C \<and>
   (co_pending C \<longrightarrow> co_pending (handle_event now ev C))"
  by (auto simp: handle_event_def handle_heartbeat_def schedule_broadcast_def Let_def split: option.splits sum.splits)

lemma check_heartbeats_frame:
  "co_published (check_heartbeats now C) = co_published C \<and> co_phase (check_heartbeats now C) = co_phase C \<and>
   co_timeout (check_heartbeats now C) = co_timeout C \<and>
   (co_pending C \<or> heartbeat_due now C \<longrightarrow> co_pending (check_heartbeats now C))"
  by (auto simp: check_heartbeats_def schedule_broadcast_def Let_def split: prod.splits)

lemma registry_ok_heartbeats:
  "registry_ok (co_replicas C) \<Longrightarrow> registry_ok (co_replicas (check_heartbeats now C))"
  using registry_ok_check [of "co_replicas C" "co_timeout C" now]
  by (auto simp: check_heartbeats_def schedule_broadcast_def Let_def split: prod.splits)

lemma coord_step_inv: "coord_inv C \<Longrightarrow> coord_inv (coord_step e C)"
proof (cases e)
  case (Recv now ev)
  assume "coord_inv C"
  with Recv show ?thesis
    using handle_event_frame [of now ev C] registry_ok_event [of C now ev] by (simp add: coord_inv_def)
next
  case (Turn now ok)
  assume "coord_inv C"
  with Turn show ?thesis
    using check_heartbeats_frame [of now C] registry_ok_heartbeats [of C now]
    by (auto simp: coord_inv_def periodic_send_def publish_replica_list_update_def Let_def
        dest: active_up intro: active_distinct)
next
  case Clear
  assume "coord_inv C"
  with Clear show ?thesis by (simp add: coord_inv_def periodic_clear_def)
qed

lemma coord_run_inv: "coord_inv C \<Longrightarrow> coord_inv (coord_run es C)"
  by (induction es arbitrary: C) (simp_all add: coord_run_def coord_step_inv)

lemma view_active_set:
  assumes "dict_get d a = Some r" "ri_status r' = ri_status r" "view [r'] = view [r]"
  shows "view (get_active_replicas (dict_set a r' d)) = view (get_active_replicas d)"
  using assms by (induction d) (auto simp: get_active_replicas_def view_def)

lemma quiet_event:
  assumes "\<not> co_pending (handle_event now ev C)"
  shows "\<not> co_pending C \<and>
     view (get_active_replicas (co_replicas (handle_event now ev C))) = view (get_active_replicas (co_replicas C))"
proof -
  have p: "\<not> co_pending C" using assms handle_event_frame [of now ev C] by blast
  show ?thesis
  proof (cases "ev_event_type ev = ''heartbeat'' \<and> dict_get (co_replicas C) (ev_input_addr ev) \<noteq> None")
    case True
    then obtain r where r: "dict_get (co_replicas C) (ev_input_addr ev) = Some r" by blast
    have "co_replicas (handle_event now ev C) =
        dict_set (ev_input_addr ev) (r\<lparr>ri_last_heartbeat := now\<rparr>) (co_replicas C)"
      using assms True r by (auto simp: handle_event_def handle_heartbeat_def schedule_broadcast_def Let_def split: if_splits)
    then show ?thesis using p view_active_set [OF r, of "r\<lparr>ri_last_heartbeat := now\<rparr>"] by (simp add: view_def)
  next
    case False
    with assms p show ?thesis
      by (auto simp: handle_event_def handle_heartbeat_def schedule_broadcast_def split: sum.splits if_splits)
  qed
qed

text \<open>A run is calm when no event arrives between a successful send and the clearing of its flag.\<close>

fun calm :: "coord_event list \<Rightarrow> Coordinator \<Rightarrow> bool" where
  "calm [] C = True"
| "calm (e # es) C = ((case e of Recv now ev \<Rightarrow> co_phase C = Loop_Top | _ \<Rightarrow> True) \<and> calm es (coord_step e C))"

definition fresh :: "Coordinator \<Rightarrow> bool" where
  "fresh C \<longleftrightarrow> (co_phase C = Sent \<or> \<not> co_pending C \<longrightarrow> current C)"

lemma fresh_step:
  assumes "fresh C" "case e of Recv now ev \<Rightarrow> co_phase C = Loop_Top | _ \<Rightarrow> True"
  shows "fresh (coord_step e C)"
proof (cases e)
  case (Recv now ev)
  show ?thesis unfolding fresh_def
  proof
    assume *: "co_phase (coord_step e C) = Sent \<or> \<not> co_pending (coord_step e C)"
    then have np: "\<not> co_pending (handle_event now ev C)"
      using assms(2) Recv handle_event_frame [of now ev C] by auto
    with quiet_event [OF np] assms(1) Recv handle_event_frame [of now ev C] show "current (coord_step e C)"
      by (simp add: fresh_def current_def)
  qed
next
  case (Turn now ok)
  then show ?thesis
    using assms(1) check_heartbeats_frame [of now C]
    by (auto simp: fresh_def current_def periodic_send_def publish_replica_list_update_def check_heartbeats_def
        schedule_broadcast_def Let_def split: prod.splits if_splits)
next
  case Clear
  with assms(1) show ?thesis by (auto simp: fresh_def current_def periodic_clear_def)
qed

lemma fresh_run: "fresh C \<Longrightarrow> calm es C \<Longrightarrow> fresh (coord_run es C)"
  by (induction es arbitrary: C) (simp_all add: coord_run_def fresh_step)

lemma fresh_make: "fresh (make_coordinator t)"
  by (simp add: fresh_def current_def make_coordinator_def get_active_replicas_def view_def)

section \<open>What the broadcasts promise\<close>


definition sample_event :: "string \<Rightarrow> ReplicaStatus \<Rightarrow> ReplicaEvent" where
  "sample_event ty st = \<lparr>ev_input_addr = ''a'', ev_output_addr = ''b'', ev_stage_id = 1, ev_event_type = ty,
     ev_status = st, ev_queue_length = Some 3\<rparr>"

lemmas sample_run = coord_run_def handle_event_def handle_heartbeat_def sample_event_def make_coordinator_def
  add_new_replica_locked_def update_replica_info_locked_def schedule_broadcast_def periodic_send_def
  check_heartbeats_def heartbeat_due_def heartbeat_interval_def publish_replica_list_update_def
  get_active_replicas_def Let_def


section \<open>The lost update and the heartbeat clock\<close>

lemma checked_get:
  assumes "dict_ok d" "dict_get (snd (check_heartbeat_timeouts timeout now d)) a = Some r'"
  shows "\<exists>r. dict_get d a = Some r \<and> r' = (if timed_out timeout now r then r\<lparr>ri_status := ERROR\<rparr> else r)"
proof -
  from assms(2) have "(a, r') \<in> set (snd (check_heartbeat_timeouts timeout now d))" by (rule map_of_SomeD)
  then obtain r where "(a, r) \<in> set d" "r' = (if timed_out timeout now r then r\<lparr>ri_status := ERROR\<rparr> else r)"
    by (auto simp: check_heartbeat_timeouts_def)
  with assms(1) show ?thesis by auto
qed

lemma turn_registry:
  assumes "co_phase C = Loop_Top"
  shows "co_replicas (coord_step (Turn now ok) C) =
     (if heartbeat_due now C then snd (check_heartbeat_timeouts (co_timeout C) now (co_replicas C)) else co_replicas C)"
  using assms by (auto simp: periodic_send_def check_heartbeats_def publish_replica_list_update_def
      schedule_broadcast_def Let_def split: prod.splits)

lemma due_turn_publishes:
  assumes "co_phase C = Loop_Top" "heartbeat_due now C"
  shows "co_published (coord_step (Turn now True) C) =
     get_active_replicas (snd (check_heartbeat_timeouts (co_timeout C) now (co_replicas C))) # co_published C"
  using assms by (auto simp: periodic_send_def check_heartbeats_def publish_replica_list_update_def
      schedule_broadcast_def Let_def split: prod.splits)

lemma removed_get:
  "dict_get (remove_replica_locked ev d) a = Some r \<Longrightarrow> ev_input_addr ev = a \<Longrightarrow> ri_status r = DOWN"
  by (auto simp: remove_replica_locked_def dict_simps split: option.splits)

text \<open>Turns before the next heartbeat check is due, counted from the last check.\<close>

fun early :: "rat \<Rightarrow> rat \<Rightarrow> coord_event \<Rightarrow> bool" where
  "early since ival (Turn now ok) = (now - since < ival)"
| "early since ival e = True"

lemma idle_run:
  assumes "co_phase C = Loop_Top" "\<not> co_pending C"
      and "\<forall>e \<in> set es. early (co_last_check C) (heartbeat_interval (co_timeout C)) e \<and> (\<forall>n ev. e \<noteq> Recv n ev)"
  shows "coord_run es C = C"
  using assms(3)
proof (induction es)
  case (Cons e es)
  have "coord_step e C = C"
    using Cons.prems assms(1,2)
    by (cases e) (auto simp: periodic_send_def check_heartbeats_def heartbeat_due_def)
  with Cons show ?case by (simp add: coord_run_def)
qed (simp add: coord_run_def)

text \<open>
  The lost update.  When the DOWN event of a replica in the last published list arrives after
  the send and before the pending flag is cleared, the flag is cleared with it: the replica is no
  longer active, nothing is pending, and every later turn before the next heartbeat check publishes
  nothing, so subscribers keep routing to it.  The turn in which the check is due ends this: it
  publishes a list without the replica.
\<close>

theorem lost_update_window:
  fixes t :: rat
  assumes "coord_inv C" "co_phase C = Sent" "dict_get (co_replicas C) a \<noteq> None"
      and "ev_event_type ev \<noteq> ''heartbeat''" "ev_input_addr ev = a" "ev_status ev = DOWN"
      and "\<forall>e \<in> set es. early (co_last_check C) (heartbeat_interval (co_timeout C)) e \<and> (\<forall>n v. e \<noteq> Recv n v)"
      and "now - co_last_check C \<ge> heartbeat_interval (co_timeout C)"
  defines "D \<equiv> coord_run (Recv t ev # Clear # es) C"
  shows "a \<notin> ri_input_addr ` set (get_active_replicas (co_replicas D)) \<and> \<not> co_pending D \<and>
     co_published D = co_published C \<and>
     (\<exists>rs. co_published (coord_step (Turn now True) D) = rs # co_published C \<and> a \<notin> ri_input_addr ` set rs)"
proof -
  define E where "E = periodic_clear (handle_event t ev C)"
  have reps: "co_replicas E = remove_replica_locked ev (co_replicas C)"
    using assms(3-6) by (auto simp: E_def handle_event_def periodic_clear_def schedule_broadcast_def)
  have E: "co_phase E = Loop_Top" "\<not> co_pending E" "co_last_check E = co_last_check C" "co_timeout E = co_timeout C"
    "co_published E = co_published C"
    using handle_event_frame [of t ev C] by (simp_all add: E_def periodic_clear_def)
  have "D = coord_run es E"
    using assms(2) handle_event_frame [of t ev C] by (simp add: D_def E_def coord_run_def)
  also have "\<dots> = E" using idle_run [OF E(1,2)] assms(7) E(3,4) by simp
  finally have D: "D = E" .
  have ok: "registry_ok (co_replicas E)" using assms(1) registry_ok_remove by (simp add: reps coord_inv_def)
  have down: "ri_status r = DOWN" if "dict_get (co_replicas E) a = Some r" for r
    using that removed_get assms(5) unfolding reps by blast
  then have "a \<notin> ri_input_addr ` set (get_active_replicas (co_replicas E))" using active_iff [OF ok] by auto
  moreover
  let ?chk = "snd (check_heartbeat_timeouts (co_timeout E) now (co_replicas E))"
  have "ri_status r \<noteq> UP" if r: "dict_get ?chk a = Some r" for r
    using checked_get [OF _ r] ok down by (auto simp: registry_ok_def split: if_splits)
  then have "a \<notin> ri_input_addr ` set (get_active_replicas ?chk)" using active_iff [OF registry_ok_check [OF ok]] by auto
  moreover have "heartbeat_due now E" using assms(8) E by (simp add: heartbeat_due_def)
  ultimately show ?thesis using due_turn_publishes [OF E(1)] E D by auto
qed

lemma kept_event:
  assumes "dict_get (co_replicas D) a = Some r" "ev_event_type ev \<noteq> ''heartbeat'' \<or> ev_input_addr ev \<noteq> a"
  shows "\<exists>r'. dict_get (co_replicas (handle_event now ev D)) a = Some r' \<and> ri_last_heartbeat r' = ri_last_heartbeat r"
  using assms
  by (auto simp: handle_event_def handle_heartbeat_def update_replica_info_locked_def remove_replica_locked_def
      schedule_broadcast_def Let_def dict_simps split: option.splits sum.splits dest!: add_locked_Inr)

lemma kept_step:
  assumes "dict_get (co_replicas D) a = Some r'" "ri_last_heartbeat r' = beat"
      and "early (co_last_check D) (heartbeat_interval (co_timeout D)) e"
      and "\<forall>n ev. e = Recv n ev \<longrightarrow> ev_event_type ev \<noteq> ''heartbeat'' \<or> ev_input_addr ev \<noteq> a"
  shows "co_last_check (coord_step e D) = co_last_check D \<and> co_timeout (coord_step e D) = co_timeout D \<and>
     (\<exists>r'. dict_get (co_replicas (coord_step e D)) a = Some r' \<and> ri_last_heartbeat r' = beat)"
proof (cases e)
  case (Recv now ev)
  with kept_event [OF assms(1), of ev now] assms(2,4) handle_event_frame [of now ev D] show ?thesis by auto
next
  case (Turn now ok)
  then have "\<not> heartbeat_due now D" using assms(3) by (simp add: heartbeat_due_def)
  with Turn assms(1,2) show ?thesis
    by (auto simp: periodic_send_def check_heartbeats_def publish_replica_list_update_def)
next
  case Clear
  with assms(1,2) show ?thesis by (simp add: periodic_clear_def)
qed

text \<open>
  Updates do not keep a replica alive.  Only heartbeats (and the registration) restart the
  timeout: whatever other events arrive, and however many updates the replica itself sends, the first
  check more than the timeout after its last heartbeat takes it off the UP list.
\<close>

theorem updates_do_not_keep_alive:
  assumes "coord_inv C" "dict_get (co_replicas C) a = Some r" "co_phase (coord_run es C) = Loop_Top"
      and "\<forall>e \<in> set es. early (co_last_check C) (heartbeat_interval (co_timeout C)) e \<and>
        (\<forall>n ev. e = Recv n ev \<longrightarrow> ev_event_type ev \<noteq> ''heartbeat'' \<or> ev_input_addr ev \<noteq> a)"
      and "now - co_last_check C \<ge> heartbeat_interval (co_timeout C)" "now - ri_last_heartbeat r > co_timeout C"
  shows "a \<notin> ri_input_addr ` set (get_active_replicas (co_replicas (coord_step (Turn now ok) (coord_run es C))))"
proof -
  define K where "K = (\<lambda>D. coord_inv D \<and> co_last_check D = co_last_check C \<and> co_timeout D = co_timeout C \<and>
    (\<exists>r'. dict_get (co_replicas D) a = Some r' \<and> ri_last_heartbeat r' = ri_last_heartbeat r))"
  have step: "K (coord_step e D)" if K: "K D" and e: "e \<in> set es" for e D
    using kept_step [where D = D and a = a and beat = "ri_last_heartbeat r" and e = e] K e assms(4) coord_step_inv [of D e] unfolding K_def by auto
  have "K (coord_run es' C)" if "set es' \<subseteq> set es" for es'
    using that
  proof (induction es' rule: rev_induct)
    case Nil
    then show ?case using assms(1,2) by (simp add: K_def coord_run_def)
  next
    case (snoc e es')
    then show ?case using step by (simp add: coord_run_def)
  qed
  from this [OF subset_refl] have "K (coord_run es C)" .
  then obtain r' where ok: "registry_ok (co_replicas (coord_run es C))"
    and r': "dict_get (co_replicas (coord_run es C)) a = Some r'" "ri_last_heartbeat r' = ri_last_heartbeat r"
    and due: "heartbeat_due now (coord_run es C)" and t: "co_timeout (coord_run es C) = co_timeout C"
    using assms(5) by (auto simp: K_def coord_inv_def heartbeat_due_def)
  let ?chk = "snd (check_heartbeat_timeouts (co_timeout C) now (co_replicas (coord_run es C)))"
  have "ri_status q \<noteq> UP" if q: "dict_get ?chk a = Some q" for q
    using checked_get [OF _ q] ok r' assms(6) by (auto simp: registry_ok_def timed_out_def split: if_splits)
  then have "a \<notin> ri_input_addr ` set (get_active_replicas ?chk)" using active_iff [OF registry_ok_check [OF ok]] by auto
  then show ?thesis using turn_registry [OF assms(3)] due t by simp
qed

definition sample_sent :: Coordinator where
  "sample_sent = coord_run [Recv 1 (sample_event ''update'' UP), Turn 1 True] (make_coordinator 30)"

theorem lost_update_window_witness:
  "\<exists>rs. co_published (coord_step (Turn 5 True)
       (coord_run [Recv 1 (sample_event ''update'' DOWN), Clear, Turn 2 True] sample_sent)) =
     rs # co_published sample_sent \<and> ''a'' \<notin> ri_input_addr ` set rs"
proof -
  have "coord_inv sample_sent" unfolding sample_sent_def by (rule coord_run_inv [OF coord_inv_make])
  then show ?thesis
    by (rule lost_update_window [where a = "''a''" and ev = "sample_event ''update'' DOWN", THEN conjunct2, THEN conjunct2,
          THEN conjunct2]) (simp_all add: sample_sent_def sample_run)
qed

theorem updates_do_not_keep_alive_witness:
  "''a'' \<notin> ri_input_addr ` set (get_active_replicas (co_replicas (coord_step (Turn 5 True)
     (coord_run [Recv 2 (sample_event ''update'' UP), Recv 4 (sample_event ''update'' UP)]
       (coord_run [Recv 1 (sample_event ''update'' UP)] (make_coordinator 3))))))"
proof (rule updates_do_not_keep_alive)
  show "coord_inv (coord_run [Recv 1 (sample_event ''update'' UP)] (make_coordinator 3))"
    by (rule coord_run_inv [OF coord_inv_make])
qed (simp_all add: sample_run, simp)

end
