(* ===== verification/Load_Balancer.thy ===== *)
theory Load_Balancer
  imports Replica_Coordinator
begin

text \<open>
  The load balancing policies (\<^verbatim>\<open>distributed/omni_coordinator/load_balancer.py\<close>) and the contract the
  stage pools rely on.  The choices of Python's \<^verbatim>\<open>random\<close> module are an argument: the draw \<open>r\<close>
  stands for whatever the generator delivers, reduced to the range that was asked for, so every
  outcome of the range is some draw and every draw is an outcome of the range.
\<close>

section \<open>The policies\<close>

definition randrange :: "nat \<Rightarrow> nat \<Rightarrow> nat" where
  "randrange r n = r mod n"

definition random_choice :: "nat \<Rightarrow> 'a list \<Rightarrow> 'a" where
  "random_choice r xs = xs ! randrange r (length xs)"

definition random_select :: "nat \<Rightarrow> ReplicaInfo list \<Rightarrow> unit \<Rightarrow> (py_exc + nat) \<times> unit" where
  "random_select r rs b = (if rs = [] then (Inl ValueError, b) else (Inr (randrange r (length rs)), b))"

text \<open>The state of the round-robin policy is its next index.\<close>

definition round_robin_select :: "nat \<Rightarrow> ReplicaInfo list \<Rightarrow> int \<Rightarrow> (py_exc + nat) \<times> int" where
  "round_robin_select r rs next_index =
     (if rs = [] then (Inl ValueError, next_index)
      else (let n = int (length rs); idx = next_index mod n
            in (Inr (nat idx), (next_index + 1) mod n)))"

text \<open>\<^verbatim>\<open>any(q < 0 for q in queue_lengths)\<close>, which raises at a missing length before it sees the rest.\<close>

fun any_negative :: "int option list \<Rightarrow> py_exc + bool" where
  "any_negative [] = Inr False"
| "any_negative (None # qs) = Inl TypeError"
| "any_negative (Some q # qs) = (if q < 0 then Inr True else any_negative qs)"

definition least_queue_select :: "nat \<Rightarrow> ReplicaInfo list \<Rightarrow> unit \<Rightarrow> (py_exc + nat) \<times> unit" where
  "least_queue_select r rs b =
     (if rs = [] then (Inl ValueError, b)
      else (let queue_lengths = map ri_queue_length rs
            in case any_negative queue_lengths of
                Inl e \<Rightarrow> (Inl e, b)
              | Inr True \<Rightarrow> (Inl ValueError, b)
              | Inr False \<Rightarrow>
                  (let qs = map the queue_lengths; min_q = Min (set qs);
                       candidates = List.filter (\<lambda>i. qs ! i = min_q) [0..<length qs]
                   in (Inr (random_choice r candidates), b))))"

fun select_many :: "(nat \<Rightarrow> ReplicaInfo list \<Rightarrow> 'b \<Rightarrow> (py_exc + nat) \<times> 'b) \<Rightarrow> nat list \<Rightarrow>
    ReplicaInfo list \<Rightarrow> 'b \<Rightarrow> (py_exc + nat) list \<times> 'b" where
  "select_many sel [] rs b = ([], b)"
| "select_many sel (r # draws) rs b =
     (case sel r rs b of (x, b1) \<Rightarrow> (case select_many sel draws rs b1 of (xs, b2) \<Rightarrow> (x # xs, b2)))"

section \<open>The contract of a balancer\<close>

text \<open>
  What the pools rely on: an index of the list that was passed, an error for an empty list, and no
  error for a list the policy can handle (\<open>fits\<close>).
\<close>

locale load_balancer =
  fixes select :: "nat \<Rightarrow> ReplicaInfo list \<Rightarrow> 'b \<Rightarrow> (py_exc + nat) \<times> 'b"
    and fits :: "ReplicaInfo list \<Rightarrow> bool"
  assumes select_range: "select r rs b = (Inr i, b') \<Longrightarrow> i < length rs"
      and select_fits: "rs \<noteq> [] \<Longrightarrow> fits rs \<Longrightarrow> \<exists>i b'. select r rs b = (Inr i, b')"
      and select_empty: "fst (select r [] b) = Inl ValueError"

lemma rotated_upt: "map (\<lambda>k. (i + k) mod n) [0..<n] = rotate i [0..<n]"
  by (rule nth_equalityI) (auto simp: nth_rotate)

text \<open>A policy that takes the replicas in turn, as long as the list stays the same.\<close>

locale rotating_balancer = load_balancer select "\<lambda>rs. True"
  for select :: "nat \<Rightarrow> ReplicaInfo list \<Rightarrow> 'b \<Rightarrow> (py_exc + nat) \<times> 'b" +
  assumes rotates: "select r rs b = (Inr i, b') \<Longrightarrow> fst (select r' rs b') = Inr (Suc i mod length rs)"
begin

lemma rotation:
  assumes "select r rs b = (Inr i, b')"
  shows "fst (select_many select draws rs b') = map (\<lambda>k. Inr ((i + Suc k) mod length rs)) [0..<length draws]"
  using assms
proof (induction draws arbitrary: r i b b')
  case (Cons d ds)
  define j where "j = Suc i mod length rs"
  obtain b'' where n: "select d rs b' = (Inr j, b'')"
    using rotates [OF Cons.prems, of d] by (cases "select d rs b'") (auto simp: j_def)
  have "(j + Suc k) mod length rs = (i + Suc (Suc k)) mod length rs" for k
    unfolding j_def by (metis add_Suc_shift mod_add_left_eq)
  then show ?case using Cons.IH [OF n] n by (simp add: upt_conv_Cons map_Suc_upt [symmetric] j_def case_prod_unfold comp_def
        del: upt_Suc map_Suc_upt)
qed simp

text \<open>Any as many consecutive selections as there are replicas take each replica once.\<close>

lemma takes_turns:
  assumes "rs \<noteq> []" "length draws = length rs"
  shows "distinct (fst (select_many select draws rs b)) \<and>
     set (fst (select_many select draws rs b)) = Inr ` {..<length rs}"
proof -
  let ?n = "length rs"
  obtain d ds where ds: "draws = d # ds" using assms by (cases draws) auto
  obtain i b1 where s: "select d rs b = (Inr i, b1)" using select_fits [OF assms(1)] by blast
  have i: "i < ?n" using select_range [OF s] .
  have "fst (select_many select draws rs b) = map (\<lambda>k. Inr ((i + k) mod ?n)) [0..<?n]" (is "?l = ?r")
  proof -
    have "?n = Suc (length ds)" using assms(2) ds by simp
    then have "?r = Inr i # map (\<lambda>k. Inr ((i + Suc k) mod ?n)) [0..<length ds]"
      using i by (simp add: upt_conv_Cons map_Suc_upt [symmetric] del: upt_Suc map_Suc_upt)
    with rotation [OF s, of ds] s ds show ?thesis by (simp add: case_prod_unfold)
  qed
  also have "\<dots> = map Inr (rotate i [0..<?n])" using rotated_upt [of i ?n] by (metis (no_types, lifting) comp_apply map_cong map_map)
  finally show ?thesis by (simp add: distinct_map lessThan_atLeast0)
qed

end

section \<open>The policies keep it\<close>

definition nonneg_queues :: "ReplicaInfo list \<Rightarrow> bool" where
  "nonneg_queues rs = list_all (\<lambda>r. case ri_queue_length r of None \<Rightarrow> False | Some q \<Rightarrow> 0 \<le> q) rs"

lemma any_negative_False:
  "any_negative (map ri_queue_length rs) = Inr False \<longleftrightarrow> nonneg_queues rs"
  by (induction rs) (auto simp: nonneg_queues_def split: option.splits)

lemma any_negative_cases:
  "\<not> nonneg_queues rs \<Longrightarrow> any_negative (map ri_queue_length rs) = Inr True \<or> any_negative (map ri_queue_length rs) = Inl TypeError"
  by (induction rs) (auto simp: nonneg_queues_def split: option.splits)

lemma random_choice_mem: "xs \<noteq> [] \<Longrightarrow> random_choice r xs \<in> set xs"
  by (simp add: random_choice_def randrange_def)

lemma least_queue_choice:
  assumes "rs \<noteq> []" "nonneg_queues rs"
  obtains i where "least_queue_select r rs b = (Inr i, b)" "i < length rs"
    "\<forall>j < length rs. the (ri_queue_length (rs ! i)) \<le> the (ri_queue_length (rs ! j))"
proof -
  define qs where "qs = map (the \<circ> ri_queue_length) rs"
  define cs where "cs = List.filter (\<lambda>i. qs ! i = Min (set qs)) [0..<length qs]"
  have "Min (set qs) \<in> set qs" using assms(1) by (intro Min_in) (auto simp: qs_def)
  then have "cs \<noteq> []" unfolding cs_def filter_empty_conv by (metis atLeastLessThan_iff in_set_conv_nth le0 set_upt)
  then have c: "random_choice r cs \<in> set cs" by (rule random_choice_mem)
  then have i: "random_choice r cs < length rs" "qs ! random_choice r cs = Min (set qs)"
    by (auto simp: cs_def qs_def)
  have "qs ! random_choice r cs \<le> qs ! j" if "j < length rs" for j
    unfolding i(2) using that by (intro Min_le) (auto simp: qs_def)
  moreover have "any_negative (map ri_queue_length rs) = Inr False" using assms(2) any_negative_False by blast
  then have "least_queue_select r rs b = (Inr (random_choice r cs), b)"
    using assms(1) by (simp add: least_queue_select_def cs_def qs_def Let_def)
  ultimately show thesis using that i(1) by (auto simp: qs_def)
qed

lemma least_queue_Inr: "least_queue_select r rs b = (Inr i, b') \<Longrightarrow> rs \<noteq> [] \<and> nonneg_queues rs"
  by (auto simp: least_queue_select_def Let_def any_negative_False split: if_splits sum.splits bool.splits)

interpretation random: load_balancer random_select "\<lambda>rs. True"
  by unfold_locales (auto simp: random_select_def randrange_def split: if_splits)

interpretation round_robin: rotating_balancer round_robin_select
proof unfold_locales
  fix r r' rs b i and b' :: int
  assume "round_robin_select r rs b = (Inr i, b')"
  then have "rs \<noteq> []" "i = nat (b mod int (length rs))" "b' = (b + 1) mod int (length rs)"
    by (auto simp: round_robin_select_def Let_def split: if_splits)
  moreover from this have "int i = b mod int (length rs)" by simp
  then have "(b + 1) mod int (length rs) = int (Suc i mod length rs)"
    by (metis add.commute mod_add_right_eq of_nat_Suc zmod_int)
  ultimately show "fst (round_robin_select r' rs b') = Inr (Suc i mod length rs)"
    by (simp add: round_robin_select_def Let_def)
qed (auto simp: round_robin_select_def Let_def nat_less_iff split: if_splits)

interpretation least_queue: load_balancer least_queue_select nonneg_queues
proof unfold_locales
  fix r rs i and b b' :: unit
  assume s: "least_queue_select r rs b = (Inr i, b')"
  with least_queue_Inr [OF s] least_queue_choice [of rs r b] show "i < length rs" by (metis Inr_inject Pair_inject)
next
  fix rs r and b :: unit
  assume "rs \<noteq> []" "nonneg_queues rs"
  then show "\<exists>i b'. least_queue_select r rs b = (Inr i, b')" by (metis least_queue_choice)
qed (simp add: least_queue_select_def)

text \<open>A balancer as the pools hold it: any of the three classes behind the abstract \<^verbatim>\<open>select\<close>.\<close>

datatype LoadBalancer = RandomBalancer | RoundRobinBalancer int | LeastQueueLengthBalancer

fun balance :: "nat \<Rightarrow> ReplicaInfo list \<Rightarrow> LoadBalancer \<Rightarrow> (py_exc + nat) \<times> LoadBalancer" where
  "balance r rs RandomBalancer = (fst (random_select r rs ()), RandomBalancer)"
| "balance r rs (RoundRobinBalancer k) = map_prod id RoundRobinBalancer (round_robin_select r rs k)"
| "balance r rs LeastQueueLengthBalancer = (fst (least_queue_select r rs ()), LeastQueueLengthBalancer)"

interpretation policy: load_balancer balance nonneg_queues
proof unfold_locales
  fix r rs b i b'
  assume s: "balance r rs b = (Inr i, b')"
  then show "i < length rs"
    by (cases b) (auto intro: random.select_range round_robin.select_range least_queue.select_range
        simp: prod_eq_iff map_prod_def split: prod.splits)
next
  fix r rs b
  assume "rs \<noteq> []" "nonneg_queues rs"
  then show "\<exists>i b'. balance r rs b = (Inr i, b')"
    using random.select_fits [of rs r "()"] least_queue.select_fits [of rs r "()"]
      round_robin.select_fits [of rs r] by (cases b) (fastforce simp: prod_eq_iff)+
next
  fix r b
  show "fst (balance r [] b) = Inl ValueError"
    by (cases b) (simp_all add: random_select_def round_robin_select_def least_queue_select_def)
qed

section \<open>What the policies promise\<close>

text \<open>
  The policies choose well.  On a non-empty list the random policy always returns a valid index;
  any as many consecutive round-robin selections as there are replicas take every replica exactly
  once, whatever the start index; the least-queue policy returns a replica whose queue no other
  undercuts, and raises exactly when some queue length is missing or negative.
\<close>

theorem policies_choose_well:
  assumes "rs \<noteq> []" "length draws = length rs"
  shows "(\<exists>i < length rs. random_select r rs u = (Inr i, u)) \<and>
     distinct (fst (select_many round_robin_select draws rs start)) \<and>
     set (fst (select_many round_robin_select draws rs start)) = Inr ` {..<length rs} \<and>
     (if nonneg_queues rs
      then \<exists>i < length rs. least_queue_select r rs u = (Inr i, u) \<and>
        (\<forall>j < length rs. the (ri_queue_length (rs ! i)) \<le> the (ri_queue_length (rs ! j)))
      else fst (least_queue_select r rs u) \<in> {Inl ValueError, Inl TypeError})"
proof -
  have "\<exists>i < length rs. random_select r rs u = (Inr i, u)"
    using assms(1) by (simp add: random_select_def randrange_def)
  moreover have "\<exists>i < length rs. least_queue_select r rs u = (Inr i, u) \<and>
      (\<forall>j < length rs. the (ri_queue_length (rs ! i)) \<le> the (ri_queue_length (rs ! j)))" if "nonneg_queues rs"
    using least_queue_choice [OF assms(1) that, of r u] by metis
  moreover have "fst (least_queue_select r rs u) \<in> {Inl ValueError, Inl TypeError}" if "\<not> nonneg_queues rs"
    using any_negative_cases [OF that] assms(1) by (auto simp: least_queue_select_def Let_def)
  ultimately show ?thesis using round_robin.takes_turns [OF assms] by simp
qed

definition sample_replica :: "int \<Rightarrow> ReplicaInfo" where
  "sample_replica q = \<lparr>ri_input_addr = ''a'', ri_output_addr = ''b'', ri_stage_id = 0, ri_status = UP,
     ri_queue_length = Some q, ri_last_heartbeat = 0, ri_registered_at = 0\<rparr>"

theorem policies_choose_well_witness:
  "set (fst (select_many round_robin_select [0, 0, 0] (map sample_replica [2, 0, 5]) (- 4))) = Inr ` {..<3}"
proof -
  have "set (fst (select_many round_robin_select [0, 0, 0] (map sample_replica [2, 0, 5]) (- 4))) =
      Inr ` {..<length (map sample_replica [2, 0, 5])}"
    by (rule policies_choose_well [THEN conjunct2, THEN conjunct2, THEN conjunct1]) simp_all
  also have "length (map sample_replica [2, 0, 5]) = 3" by simp
  finally show ?thesis .
qed

end
