(* ===== verification/Stage_Pool.thy ===== *)
theory Stage_Pool
  imports Load_Balancer
begin

text \<open>
  The routing half of \<^verbatim>\<open>engine/stage_pool.py\<close> and the membership controller
  (\<^verbatim>\<open>engine/membership_controller.py\<close>): the client slots of one stage, the affinity of requests to
  replicas, the distributed pick over the hub's list through a load balancer, the round-robin path
  without a hub, and the watcher that detaches replicas that vanish from the list.

  The hub is shared and changes between calls, so the operations take its current state; the
  balancer's \<^verbatim>\<open>select\<close> is an argument, as \<^verbatim>\<open>_lb\<close> is any balancer.  The waiting loop of \<^verbatim>\<open>pick\<close> is
  split at its \<^verbatim>\<open>await\<close>: other tasks may change pool and hub between two polls.
\<close>

section \<open>State\<close>

text \<open>The addresses a client advertises; \<open>None\<close> for an attribute that is missing or no string.\<close>

record StageClient =
  cl_handle :: nat
  cl_request_address :: "string option"
  cl_input_address :: "string option"

definition client_input_addr :: "StageClient \<Rightarrow> string option" where
  "client_input_addr c =
     (case cl_request_address c of
        Some (x # xs) \<Rightarrow> Some (x # xs)
      | _ \<Rightarrow> (case cl_input_address c of Some (x # xs) \<Rightarrow> Some (x # xs) | _ \<Rightarrow> None))"

record 'b StagePool =
  sp_stage_id :: int
  sp_clients :: "StageClient option list"
  sp_next_replica_id :: nat
  sp_request_bindings :: "(string, nat) dict"
  sp_addr_to_replica_id :: "(string, nat) dict"
  sp_lb :: "'b option"
  sp_affinity :: "(string, string) dict"

definition index_addrs :: "StageClient list \<Rightarrow> (string, nat) dict" where
  "index_addrs cs = fold (\<lambda>(i, c) d. case client_input_addr c of None \<Rightarrow> d | Some a \<Rightarrow> dict_set a i d)
     (zip [0..<length cs] cs) []"

definition make_pool_state :: "int \<Rightarrow> StageClient list \<Rightarrow> 'b StagePool" where
  "make_pool_state sid cs = \<lparr>sp_stage_id = sid, sp_clients = map Some cs, sp_next_replica_id = 0,
     sp_request_bindings = [], sp_addr_to_replica_id = index_addrs cs, sp_lb = None, sp_affinity = []\<rparr>"

definition attach_load_balancer :: "'b option \<Rightarrow> 'b StagePool \<Rightarrow> 'b StagePool" where
  "attach_load_balancer lb P = P\<lparr>sp_lb := lb\<rparr>"

definition live_replica_ids :: "'b StagePool \<Rightarrow> nat list" where
  "live_replica_ids P = List.filter (\<lambda>i. sp_clients P ! i \<noteq> None) [0..<length (sp_clients P)]"

section \<open>Membership of the pool\<close>

definition add_client :: "string \<Rightarrow> StageClient \<Rightarrow> 'b StagePool \<Rightarrow> (py_exc + nat) \<times> 'b StagePool" where
  "add_client addr c P =
     (if addr = [] then (Inl ValueError, P)
      else case dict_get (sp_addr_to_replica_id P) addr of
          Some i \<Rightarrow> (Inr i, P\<lparr>sp_clients := (sp_clients P)[i := Some c]\<rparr>)
        | None \<Rightarrow>
            (let i = length (sp_clients P)
             in (Inr i, P\<lparr>sp_clients := sp_clients P @ [Some c],
                    sp_addr_to_replica_id := dict_set addr i (sp_addr_to_replica_id P)\<rparr>)))"

definition remove_client :: "string \<Rightarrow> 'b StagePool \<Rightarrow> StageClient option \<times> 'b StagePool" where
  "remove_client addr P =
     (case dict_get (sp_addr_to_replica_id P) addr of
        None \<Rightarrow> (None, P)
      | Some i \<Rightarrow>
          (sp_clients P ! i,
           P\<lparr>sp_addr_to_replica_id := dict_del addr (sp_addr_to_replica_id P),
             sp_clients := (sp_clients P)[i := None]\<rparr>))"

definition get_client_by_addr :: "string \<Rightarrow> 'b StagePool \<Rightarrow> StageClient option" where
  "get_client_by_addr addr P =
     (case dict_get (sp_addr_to_replica_id P) addr of None \<Rightarrow> None | Some i \<Rightarrow> sp_clients P ! i)"

section \<open>Bindings\<close>

definition bind_affinity :: "string \<Rightarrow> string \<Rightarrow> 'b StagePool \<Rightarrow> 'b StagePool" where
  "bind_affinity rid addr P = P\<lparr>sp_affinity := dict_set rid addr (sp_affinity P)\<rparr>"

definition drop_affinity :: "string \<Rightarrow> 'b StagePool \<Rightarrow> 'b StagePool" where
  "drop_affinity rid P = P\<lparr>sp_affinity := dict_del rid (sp_affinity P)\<rparr>"

definition release_binding :: "string \<Rightarrow> 'b StagePool \<Rightarrow> 'b StagePool" where
  "release_binding rid P = P\<lparr>sp_request_bindings := dict_del rid (sp_request_bindings P),
     sp_affinity := dict_del rid (sp_affinity P)\<rparr>"

definition release_request :: "string \<Rightarrow> 'b StagePool \<Rightarrow> 'b StagePool" where
  "release_request rid P = release_binding rid (drop_affinity rid P)"

definition release_bindings :: "string list \<Rightarrow> 'b StagePool \<Rightarrow> 'b StagePool" where
  "release_bindings rids P = fold release_binding rids P"

definition invalidate_addr :: "string \<Rightarrow> 'b StagePool \<Rightarrow> string list \<times> 'b StagePool" where
  "invalidate_addr addr P =
     (let affected = map fst (List.filter (\<lambda>(rid, a). a = addr) (sp_affinity P))
      in (affected, fold drop_affinity affected P))"

definition get_bound_replica_id :: "string \<Rightarrow> 'b StagePool \<Rightarrow> nat option" where
  "get_bound_replica_id rid P =
     (case dict_get (sp_request_bindings P) rid of
        Some i \<Rightarrow> Some i
      | None \<Rightarrow>
          (case dict_get (sp_affinity P) rid of
             None \<Rightarrow> None
           | Some addr \<Rightarrow> dict_get (sp_addr_to_replica_id P) addr))"

definition get_bound_client :: "string \<Rightarrow> 'b StagePool \<Rightarrow> StageClient option" where
  "get_bound_client rid P = (case get_bound_replica_id rid P of None \<Rightarrow> None | Some i \<Rightarrow> sp_clients P ! i)"

text \<open>The live replica a request is bound to, as the round-robin path and the aborts test it.\<close>

definition live_binding :: "string \<Rightarrow> 'b StagePool \<Rightarrow> nat option" where
  "live_binding rid P =
     (case get_bound_replica_id rid P of
        None \<Rightarrow> None
      | Some i \<Rightarrow> if sp_clients P ! i \<noteq> None then Some i else None)"

section \<open>Picking without a hub\<close>

definition select_replica_id ::
  "string \<Rightarrow> string option \<Rightarrow> 'b StagePool \<Rightarrow> (py_exc + nat) \<times> 'b StagePool" where
  "select_replica_id rid parent P =
     (case live_binding rid P of
        Some i \<Rightarrow> (Inr i, P)
      | None \<Rightarrow>
          (case (case parent of None \<Rightarrow> None | Some p \<Rightarrow> live_binding p P) of
             Some i \<Rightarrow> (Inr i, P\<lparr>sp_request_bindings := dict_set rid i (sp_request_bindings P)\<rparr>)
           | None \<Rightarrow>
               (let live = live_replica_ids P
                in if live = [] then (Inl RuntimeError, P)
                   else if length live = 1
                   then (Inr (live ! 0), P\<lparr>sp_request_bindings := dict_set rid (live ! 0) (sp_request_bindings P)\<rparr>)
                   else (let start = sp_next_replica_id P mod length live; chosen = live ! start
                         in (Inr chosen, P\<lparr>sp_next_replica_id := (sp_next_replica_id P + 1) mod length live,
                               sp_request_bindings := dict_set rid chosen (sp_request_bindings P)\<rparr>)))))"

section \<open>Picking over the hub\<close>

definition collect_serviceable_replicas :: "Hub \<Rightarrow> 'b StagePool \<Rightarrow> (ReplicaInfo \<times> nat) list" where
  "collect_serviceable_replicas H P =
     concat (map (\<lambda>rep.
       if ri_status rep \<noteq> UP then []
       else case dict_get (sp_addr_to_replica_id P) (ri_input_addr rep) of
           None \<Rightarrow> []
         | Some i \<Rightarrow> if sp_clients P ! i = None then [] else [(rep, i)])
       (get_replicas_for_stage (sp_stage_id P) H))"

definition serviceable_replica_id_for_addr :: "Hub \<Rightarrow> string \<Rightarrow> 'b StagePool \<Rightarrow> nat option" where
  "serviceable_replica_id_for_addr H addr P =
     (case dict_get (sp_addr_to_replica_id P) addr of
        None \<Rightarrow> None
      | Some i \<Rightarrow>
          if sp_clients P ! i = None then None
          else if list_ex (\<lambda>rep. ri_input_addr rep = addr \<and> ri_status rep = UP)
              (get_replicas_for_stage (sp_stage_id P) H)
          then Some i else None)"

text \<open>The sticky and the inherited route, tried before a fresh pick.\<close>

definition inherited_route :: "Hub \<Rightarrow> string \<Rightarrow> string option \<Rightarrow> 'b StagePool \<Rightarrow> nat option \<times> 'b StagePool" where
  "inherited_route H rid parent P =
     (case parent of
        None \<Rightarrow> (None, P)
      | Some p \<Rightarrow>
          (case dict_get (sp_affinity P) p of
             None \<Rightarrow> (None, P)
           | Some addr \<Rightarrow>
               (case serviceable_replica_id_for_addr H addr P of
                  None \<Rightarrow> (None, P)
                | Some i \<Rightarrow> (Some i, bind_affinity rid addr P))))"

definition sticky_route :: "Hub \<Rightarrow> string \<Rightarrow> string option \<Rightarrow> 'b StagePool \<Rightarrow> nat option \<times> 'b StagePool" where
  "sticky_route H rid parent P =
     (case dict_get (sp_affinity P) rid of
        Some addr \<Rightarrow>
          (case serviceable_replica_id_for_addr H addr P of
             Some i \<Rightarrow> (Some i, P)
           | None \<Rightarrow> inherited_route H rid parent (drop_affinity rid P))
      | None \<Rightarrow> inherited_route H rid parent P)"

type_synonym 'b selector = "nat \<Rightarrow> ReplicaInfo list \<Rightarrow> 'b \<Rightarrow> (py_exc + nat) \<times> 'b"

text \<open>One look at the hub: no candidate, an exception of the balancer, or a replica that is now bound.\<close>

definition fresh_pick ::
  "'b selector \<Rightarrow> nat \<Rightarrow> Hub \<Rightarrow> string \<Rightarrow> 'b \<Rightarrow> 'b StagePool \<Rightarrow> (py_exc + nat) option \<times> 'b StagePool" where
  "fresh_pick sel r H rid lb P =
     (let candidates = collect_serviceable_replicas H P
      in if candidates = [] then (None, P)
         else case sel r (map fst candidates) lb of
             (Inl e, lb') \<Rightarrow> (Some (Inl e), P\<lparr>sp_lb := Some lb'\<rparr>)
           | (Inr k, lb') \<Rightarrow>
               (case candidates ! k of
                  (rep, i) \<Rightarrow> (Some (Inr i), bind_affinity rid (ri_input_addr rep) (P\<lparr>sp_lb := Some lb'\<rparr>))))"

datatype pick_outcome = Picked nat | Waiting | Raised py_exc

text \<open>One poll of the waiting loop; \<open>late\<close> tells whether the deadline has passed.\<close>

definition pick_poll ::
  "'b selector \<Rightarrow> nat \<Rightarrow> Hub \<Rightarrow> bool \<Rightarrow> string \<Rightarrow> 'b \<Rightarrow> 'b StagePool \<Rightarrow> pick_outcome \<times> 'b StagePool" where
  "pick_poll sel r H late rid lb P =
     (case fresh_pick sel r H rid lb P of
        (Some (Inr i), P') \<Rightarrow> (Picked i, P')
      | (Some (Inl e), P') \<Rightarrow> (Raised e, P')
      | (None, P') \<Rightarrow> (if late then Raised RuntimeError else Waiting, P'))"

definition pick ::
  "'b selector \<Rightarrow> nat \<Rightarrow> Hub option \<Rightarrow> bool \<Rightarrow> string \<Rightarrow> string option \<Rightarrow> 'b StagePool \<Rightarrow>
     pick_outcome \<times> 'b StagePool" where
  "pick sel r hub late rid parent P =
     (case (hub, sp_lb P) of
        (Some H, Some lb) \<Rightarrow>
          (case sticky_route H rid parent P of
             (Some i, P') \<Rightarrow> (Picked i, P')
           | (None, P') \<Rightarrow> pick_poll sel r H late rid lb P')
      | _ \<Rightarrow>
          (case select_replica_id rid parent P of
             (Inl e, P') \<Rightarrow> (Raised e, P')
           | (Inr i, P') \<Rightarrow> (Picked i, P')))"

definition preselect_replica_id ::
  "'b selector \<Rightarrow> nat \<Rightarrow> Hub option \<Rightarrow> string \<Rightarrow> string option \<Rightarrow> 'b StagePool \<Rightarrow>
     (py_exc + nat option) \<times> 'b StagePool" where
  "preselect_replica_id sel r hub rid parent P =
     (case (hub, sp_lb P) of
        (Some H, Some lb) \<Rightarrow>
          (case sticky_route H rid parent P of
             (Some i, P') \<Rightarrow> (Inr (Some i), P')
           | (None, P') \<Rightarrow>
               (case fresh_pick sel r H rid lb P' of
                  (None, P'') \<Rightarrow> (Inr None, P'')
                | (Some (Inl e), P'') \<Rightarrow> (Inl e, P'')
                | (Some (Inr i), P'') \<Rightarrow> (Inr (Some i), P'')))
      | _ \<Rightarrow>
          (case select_replica_id rid parent P of
             (Inl e, P') \<Rightarrow> (Inl e, P')
           | (Inr i, P') \<Rightarrow> (Inr (Some i), P')))"

text \<open>The aborts of a pool, grouped by the replica that gets them.\<close>

fun group_add :: "nat \<Rightarrow> string \<Rightarrow> (nat, string list) dict \<Rightarrow> (nat, string list) dict" where
  "group_add i rid d = dict_set i ((case dict_get d i of None \<Rightarrow> [] | Some rids \<Rightarrow> rids) @ [rid]) d"

definition abort_routes :: "string list \<Rightarrow> 'b StagePool \<Rightarrow> (nat, string list) dict" where
  "abort_routes rids P =
     fold (\<lambda>rid d. case live_binding rid P of None \<Rightarrow> d | Some i \<Rightarrow> group_add i rid d) rids []"

section \<open>The membership controller\<close>

record 'b Membership =
  mc_pools :: "'b StagePool list"
  mc_last_up :: "(int \<times> string) list"
  mc_errors :: "(string \<times> int) list"   \<comment> \<open>the messages \<^verbatim>\<open>stage replica disappeared\<close>, request and stage\<close>
  mc_shut_down :: "StageClient list"

definition pool_for_stage_id :: "int \<Rightarrow> 'b Membership \<Rightarrow> 'b StagePool option" where
  "pool_for_stage_id sid M =
     (if 0 \<le> sid \<and> sid < int (length (mc_pools M)) then Some (mc_pools M ! nat sid) else None)"

definition set_pool :: "int \<Rightarrow> 'b StagePool \<Rightarrow> 'b Membership \<Rightarrow> 'b Membership" where
  "set_pool sid P M = M\<lparr>mc_pools := (mc_pools M)[nat sid := P]\<rparr>"

definition detach_replica :: "int \<Rightarrow> string \<Rightarrow> 'b Membership \<Rightarrow> 'b Membership" where
  "detach_replica sid addr M =
     (case pool_for_stage_id sid M of
        None \<Rightarrow> M
      | Some P \<Rightarrow>
          (case remove_client addr P of
             (None, P') \<Rightarrow> set_pool sid P' M
           | (Some c, P') \<Rightarrow> (set_pool sid P' M)\<lparr>mc_shut_down := mc_shut_down M @ [c]\<rparr>))"

text \<open>The cleanup of the affected requests is a callback of the orchestrator and not part of the model.\<close>

definition handle_unregister :: "int \<Rightarrow> string \<Rightarrow> 'b Membership \<Rightarrow> 'b Membership" where
  "handle_unregister sid addr M =
     (case pool_for_stage_id sid M of
        None \<Rightarrow> M
      | Some P \<Rightarrow>
          (case invalidate_addr addr P of
             (affected, P') \<Rightarrow>
               (let M' = detach_replica sid addr (set_pool sid P' M)
                in M'\<lparr>mc_errors := mc_errors M' @ map (\<lambda>rid. (rid, sid)) affected\<rparr>)))"

definition do_register :: "int \<Rightarrow> StageClient \<Rightarrow> 'b Membership \<Rightarrow> (py_exc + unit) \<times> 'b Membership" where
  "do_register sid c M =
     (case pool_for_stage_id sid M of
        None \<Rightarrow> (Inr (), M)
      | Some P \<Rightarrow>
          (case client_input_addr c of
             None \<Rightarrow> (Inl RuntimeError, M)
           | Some addr \<Rightarrow>
               (case add_client addr c P of
                  (Inl e, P') \<Rightarrow> (Inl e, set_pool sid P' M)
                | (Inr i, P') \<Rightarrow> (Inr (), set_pool sid P' M))))"

text \<open>One round of \<^verbatim>\<open>_watch_replica_list\<close>; the spawned tasks run before the next round.\<close>

definition watch_replica_list :: "Hub \<Rightarrow> 'b Membership \<Rightarrow> 'b Membership" where
  "watch_replica_list H M =
     (let cur = remdups (map (\<lambda>r. (ri_stage_id r, ri_input_addr r))
            (List.filter (\<lambda>r. ri_status r = UP) (get_replica_list H)));
          gone = List.filter (\<lambda>k. k \<notin> set cur) (mc_last_up M)
      in (fold (\<lambda>(sid, addr). handle_unregister sid addr) gone M)\<lparr>mc_last_up := cur\<rparr>)"

section \<open>Soundness of the pool\<close>

definition pool_ok :: "'b StagePool \<Rightarrow> bool" where
  "pool_ok P \<longleftrightarrow>
     (\<forall>a i. dict_get (sp_addr_to_replica_id P) a = Some i \<longrightarrow> i < length (sp_clients P) \<and> sp_clients P ! i \<noteq> None) \<and>
     (\<forall>a b i. dict_get (sp_addr_to_replica_id P) a = Some i \<longrightarrow> dict_get (sp_addr_to_replica_id P) b = Some i \<longrightarrow> a = b) \<and>
     (\<forall>rid i. dict_get (sp_request_bindings P) rid = Some i \<longrightarrow> i < length (sp_clients P))"

lemma pool_ok_addr: "pool_ok P \<Longrightarrow> dict_get (sp_addr_to_replica_id P) a = Some i \<Longrightarrow>
     i < length (sp_clients P) \<and> sp_clients P ! i \<noteq> None"
  by (simp add: pool_ok_def)

lemma pool_ok_add: "pool_ok P \<Longrightarrow> pool_ok (snd (add_client addr c P))"
  by (auto simp: pool_ok_def add_client_def Let_def dict_simps nth_append nth_list_update less_Suc_eq
      split: option.splits if_splits)

lemma pool_ok_remove: "pool_ok P \<Longrightarrow> pool_ok (snd (remove_client addr P))"
  by (auto simp: pool_ok_def remove_client_def dict_simps nth_list_update split: option.splits)

lemma pool_ok_lb [simp]: "pool_ok (P\<lparr>sp_lb := b\<rparr>) = pool_ok P"
  by (simp add: pool_ok_def)

lemma pool_ok_affinity [simp]: "pool_ok (P\<lparr>sp_affinity := b\<rparr>) = pool_ok P"
  by (simp add: pool_ok_def)

lemma pool_ok_bind [simp]: "pool_ok (bind_affinity rid a P) = pool_ok P" "pool_ok (drop_affinity rid P) = pool_ok P"
  by (simp_all add: bind_affinity_def drop_affinity_def)

lemma pool_ok_release: "pool_ok P \<Longrightarrow> pool_ok (release_binding rid P)"
  by (auto simp: pool_ok_def release_binding_def dict_simps)

lemma drop_all_affinity:
  "fold drop_affinity rids P = P\<lparr>sp_affinity := fold dict_del rids (sp_affinity P)\<rparr>"
  by (induction rids arbitrary: P) (simp_all add: drop_affinity_def)

lemma live_ids: "i \<in> set (live_replica_ids P) \<longleftrightarrow> i < length (sp_clients P) \<and> sp_clients P ! i \<noteq> None"
  by (auto simp: live_replica_ids_def)

lemma live_binding_sound: "pool_ok P \<Longrightarrow> live_binding rid P = Some i \<Longrightarrow> i < length (sp_clients P) \<and> sp_clients P ! i \<noteq> None"
  by (auto simp: live_binding_def get_bound_replica_id_def pool_ok_def split: option.splits if_splits)

lemma select_live:
  assumes "pool_ok P" "select_replica_id rid parent P = (Inr i, P')"
  shows "i \<in> set (live_replica_ids P) \<and> pool_ok P' \<and> sp_clients P' = sp_clients P \<and> live_binding rid P' = Some i"
proof -
  have live: "xs \<noteq> [] \<Longrightarrow> xs ! (k mod length xs) \<in> set xs" for k and xs :: "nat list" by simp
  show ?thesis
  proof (cases "live_binding rid P")
    case (Some j)
    with assms live_binding_sound [OF assms(1) Some] show ?thesis
      by (simp add: select_replica_id_def live_ids)
  next
    case None
    have j: "i \<in> set (live_replica_ids P)" "sp_clients P' = sp_clients P"
      "sp_addr_to_replica_id P' = sp_addr_to_replica_id P"
      "sp_request_bindings P' = dict_set rid i (sp_request_bindings P)"
      using assms None live [of "live_replica_ids P" 0] live [of "live_replica_ids P" "sp_next_replica_id P"]
        live_binding_sound [OF assms(1)]
      by (auto simp: select_replica_id_def Let_def live_ids split: option.splits if_splits)
    with assms(1) show ?thesis
      by (auto simp: live_ids pool_ok_def dict_simps live_binding_def get_bound_replica_id_def)
  qed
qed

lemma collect_sound:
  "(rep, i) \<in> set (collect_serviceable_replicas H P) \<longleftrightarrow>
     rep \<in> set (get_replicas_for_stage (sp_stage_id P) H) \<and> ri_status rep = UP \<and>
     dict_get (sp_addr_to_replica_id P) (ri_input_addr rep) = Some i \<and> sp_clients P ! i \<noteq> None"
  by (force simp: collect_serviceable_replicas_def split: option.splits if_splits)

lemma serviceable_iff:
  "serviceable_replica_id_for_addr H a P = Some i \<longleftrightarrow>
     (\<exists>rep. (rep, i) \<in> set (collect_serviceable_replicas H P) \<and> ri_input_addr rep = a)"
  unfolding collect_sound
  by (auto simp: serviceable_replica_id_for_addr_def list_ex_iff split: option.splits if_splits)

lemma collect_frame [simp]:
  "collect_serviceable_replicas H (P\<lparr>sp_lb := b\<rparr>) = collect_serviceable_replicas H P"
  "collect_serviceable_replicas H (bind_affinity rid a P) = collect_serviceable_replicas H P"
  "collect_serviceable_replicas H (drop_affinity rid P) = collect_serviceable_replicas H P"
  by (simp_all add: collect_serviceable_replicas_def bind_affinity_def drop_affinity_def cong: if_cong option.case_cong)

lemma serviceable_frame [simp]:
  "serviceable_replica_id_for_addr H a (P\<lparr>sp_lb := b\<rparr>) = serviceable_replica_id_for_addr H a P"
  "serviceable_replica_id_for_addr H a (bind_affinity rid x P) = serviceable_replica_id_for_addr H a P"
  "serviceable_replica_id_for_addr H a (drop_affinity rid P) = serviceable_replica_id_for_addr H a P"
  by (simp_all add: serviceable_replica_id_for_addr_def bind_affinity_def drop_affinity_def
      cong: if_cong option.case_cong)

lemma affinity_frame [simp]:
  "sp_affinity (bind_affinity rid a P) = dict_set rid a (sp_affinity P)"
  "sp_affinity (drop_affinity rid P) = dict_del rid (sp_affinity P)"
  "sp_lb (bind_affinity rid a P) = sp_lb P" "sp_lb (drop_affinity rid P) = sp_lb P"
  by (simp_all add: bind_affinity_def drop_affinity_def)

text \<open>What a route leaves behind: the request is bound to the address of a serviceable replica.\<close>

definition routed :: "Hub \<Rightarrow> string \<Rightarrow> nat \<Rightarrow> 'b StagePool \<Rightarrow> bool" where
  "routed H rid i P \<longleftrightarrow> (\<exists>rep. dict_get (sp_affinity P) rid = Some (ri_input_addr rep) \<and>
     (rep, i) \<in> set (collect_serviceable_replicas H P))"

lemma routed_serviceable:
  "routed H rid i P \<longleftrightarrow> (\<exists>a. dict_get (sp_affinity P) rid = Some a \<and> serviceable_replica_id_for_addr H a P = Some i)"
  unfolding routed_def serviceable_iff by blast

lemma routed_sticky: "routed H rid i P \<Longrightarrow> sticky_route H rid parent P = (Some i, P)"
  by (auto simp: routed_serviceable sticky_route_def)

lemma inherited_routed:
  assumes "inherited_route H rid parent P = (Some i, P')"
  shows "routed H rid i P' \<and> sp_lb P' = sp_lb P"
proof -
  from assms obtain a where "serviceable_replica_id_for_addr H a P = Some i" "P' = bind_affinity rid a P"
    by (simp add: inherited_route_def split: option.split_asm)
  then show ?thesis by (simp add: routed_serviceable dict_simps)
qed

lemma sticky_routed: "sticky_route H rid parent P = (Some i, P') \<Longrightarrow> routed H rid i P' \<and> sp_lb P' = sp_lb P"
  by (auto simp: sticky_route_def routed_serviceable split: option.splits dest: inherited_routed)

lemma sticky_None:
  "sticky_route H rid parent P = (None, P') \<Longrightarrow>
     collect_serviceable_replicas H P' = collect_serviceable_replicas H P \<and> sp_lb P' = sp_lb P"
  by (auto simp: sticky_route_def inherited_route_def split: option.splits)

lemma sticky_Some_candidates:
  "sticky_route H rid parent P = (Some i, P') \<Longrightarrow> collect_serviceable_replicas H P \<noteq> []"
  by (auto simp: sticky_route_def inherited_route_def serviceable_iff split: option.splits)

lemma companion_route:
  assumes "routed H rid i P" "dict_get (sp_affinity P) c = None"
  shows "fst (sticky_route H c (Some rid) P) = Some i"
proof -
  from assms(1) obtain rep where rep: "dict_get (sp_affinity P) rid = Some (ri_input_addr rep)"
    "(rep, i) \<in> set (collect_serviceable_replicas H P)" by (auto simp: routed_def)
  then have "serviceable_replica_id_for_addr H (ri_input_addr rep) P = Some i" using serviceable_iff by blast
  with rep(1) assms(2) show ?thesis by (simp add: sticky_route_def inherited_route_def)
qed

context load_balancer
begin

lemma fresh_routed:
  assumes "fresh_pick select r H rid lb P = (Some (Inr i), P')"
  shows "routed H rid i P' \<and> sp_lb P' \<noteq> None"
proof -
  let ?cs = "collect_serviceable_replicas H P"
  from assms obtain k lb' where k: "select r (map fst ?cs) lb = (Inr k, lb')" and ne: "?cs \<noteq> []"
    and P': "P' = bind_affinity rid (ri_input_addr (fst (?cs ! k))) (P\<lparr>sp_lb := Some lb'\<rparr>)" "i = snd (?cs ! k)"
    by (auto simp: fresh_pick_def Let_def split: if_splits sum.splits prod.splits)
  have "k < length ?cs" using select_range [OF k] by simp
  then have "(fst (?cs ! k), i) \<in> set ?cs" using P'(2) by (metis nth_mem prod.collapse)
  with P'(1) show ?thesis by (auto simp: routed_def dict_simps)
qed

lemma pick_routed:
  assumes "pick select r (Some H) late rid parent P = (Picked i, P')" "sp_lb P \<noteq> None"
  shows "routed H rid i P' \<and> sp_lb P' \<noteq> None"
  using assms
  by (auto simp: pick_def pick_poll_def split: prod.splits option.splits sum.splits if_splits
      dest: sticky_routed fresh_routed)

lemma pick_repeats:
  assumes "routed H rid i P" "sp_lb P \<noteq> None"
  shows "pick select r (Some H) late rid parent P = (Picked i, P)"
  using assms(2) routed_sticky [OF assms(1), of parent] by (auto simp: pick_def)

lemma pick_outcome:
  assumes "sp_lb P = Some lb" "fits (map fst (collect_serviceable_replicas H P))"
  shows "(collect_serviceable_replicas H P \<noteq> [] \<longrightarrow> (\<exists>i. fst (pick select r (Some H) late rid parent P) = Picked i)) \<and>
     (collect_serviceable_replicas H P = [] \<longrightarrow>
       fst (pick select r (Some H) late rid parent P) = (if late then Raised RuntimeError else Waiting))"
proof (cases "sticky_route H rid parent P")
  case (Pair route P')
  show ?thesis
  proof (cases route)
    case None
    have c: "collect_serviceable_replicas H P' = collect_serviceable_replicas H P" "sp_lb P' = Some lb"
      using sticky_None [of H rid parent P P'] Pair None assms(1) by auto
    show ?thesis
    proof (cases "collect_serviceable_replicas H P = []")
      case True
      with Pair None c assms(1) show ?thesis by (simp add: pick_def pick_poll_def fresh_pick_def)
    next
      case False
      with select_fits [OF _ assms(2), of r lb] obtain i b'
        where "select r (map fst (collect_serviceable_replicas H P)) lb = (Inr i, b')" by auto
      with Pair None c assms(1) False show ?thesis
        by (simp add: pick_def pick_poll_def fresh_pick_def case_prod_unfold Let_def)
    qed
  next
    case (Some i)
    with Pair assms(1) sticky_Some_candidates [of H rid parent P i P'] show ?thesis by (simp add: pick_def)
  qed
qed

end

lemma sticky_pool_ok: "pool_ok P \<Longrightarrow> sticky_route H rid parent P = (x, P') \<Longrightarrow> pool_ok P'"
  by (auto simp: sticky_route_def inherited_route_def split: option.splits)

lemma fresh_pool_ok: "pool_ok P \<Longrightarrow> fresh_pick sel r H rid lb P = (x, P') \<Longrightarrow> pool_ok P'"
  by (auto simp: fresh_pick_def Let_def split: if_splits sum.splits prod.splits)

lemma pick_pool_ok:
  "pool_ok P \<Longrightarrow> sp_lb P \<noteq> None \<Longrightarrow> pick sel r (Some H) late rid parent P = (x, P') \<Longrightarrow> pool_ok P'"
  by (auto simp: pick_def pick_poll_def split: prod.splits option.splits sum.splits if_splits
      dest: sticky_pool_ok fresh_pool_ok)

lemma index_addrs_get:
  "dict_get (fold (\<lambda>(i, c) d. case client_input_addr c of None \<Rightarrow> d | Some a \<Rightarrow> dict_set a i d) l d) a = Some i \<Longrightarrow>
     dict_get d a = Some i \<or> (\<exists>c. (i, c) \<in> set l \<and> client_input_addr c = Some a)"
  by (induction l arbitrary: d) (force simp: dict_simps split: option.splits if_splits)+

lemma make_pool_ok: "pool_ok (make_pool_state sid cs)"
proof -
  have g: "i < length cs \<and> client_input_addr (cs ! i) = Some a" if "dict_get (index_addrs cs) a = Some i" for a i
    using index_addrs_get [OF that [unfolded index_addrs_def]] by (auto simp: in_set_zip)
  then have "a = b" if "dict_get (index_addrs cs) a = Some i" "dict_get (index_addrs cs) b = Some i" for a b i
    using that by (metis option.inject)
  with g show ?thesis by (simp add: pool_ok_def make_pool_state_def)
qed

section \<open>Detaching\<close>

lemma drop_affinities_get:
  "dict_get (fold dict_del xs d) k = (if k \<in> set xs then None else dict_get d k)"
  by (induction xs arbitrary: d) (auto simp: dict_simps)

lemma fold_dict_del_ok: "dict_ok d \<Longrightarrow> dict_ok (fold dict_del xs d)"
  by (induction xs arbitrary: d) auto

lemma invalidated:
  assumes "dict_ok (sp_affinity P)"
  shows "set (fst (invalidate_addr a P)) = {rid. dict_get (sp_affinity P) rid = Some a} \<and>
     (\<forall>rid. dict_get (sp_affinity (snd (invalidate_addr a P))) rid =
        (if dict_get (sp_affinity P) rid = Some a then None else dict_get (sp_affinity P) rid)) \<and>
     dict_ok (sp_affinity (snd (invalidate_addr a P))) \<and>
     sp_addr_to_replica_id (snd (invalidate_addr a P)) = sp_addr_to_replica_id P \<and>
     sp_clients (snd (invalidate_addr a P)) = sp_clients P"
proof -
  define xs where "xs = map fst (List.filter (\<lambda>(rid, x). x = a) (sp_affinity P))"
  have e: "invalidate_addr a P = (xs, P\<lparr>sp_affinity := fold dict_del xs (sp_affinity P)\<rparr>)"
    by (simp add: invalidate_addr_def drop_all_affinity xs_def Let_def)
  have s: "set xs = {rid. dict_get (sp_affinity P) rid = Some a}" using assms unfolding xs_def by force
  show ?thesis
    unfolding e by (simp add: s drop_affinities_get fold_dict_del_ok [OF assms])
qed

text \<open>The pool after an unregister: the address is gone from the index and from every affinity.\<close>

definition unregistered :: "string \<Rightarrow> 'b StagePool \<Rightarrow> 'b StagePool" where
  "unregistered a P = snd (remove_client a (snd (invalidate_addr a P)))"

lemma unregistered_pool:
  assumes "dict_ok (sp_affinity P)"
  shows "dict_get (sp_addr_to_replica_id (unregistered a P)) b = (if b = a then None else dict_get (sp_addr_to_replica_id P) b) \<and>
     dict_get (sp_affinity (unregistered a P)) rid =
       (if dict_get (sp_affinity P) rid = Some a then None else dict_get (sp_affinity P) rid) \<and>
     dict_ok (sp_affinity (unregistered a P))"
  using invalidated [OF assms, of a]
  by (auto simp: unregistered_def remove_client_def dict_simps split: option.splits)

lemma pool_for_stage_set:
  "pool_for_stage_id sid M = Some P \<Longrightarrow>
     pool_for_stage_id k (set_pool sid Q M) = (if k = sid then Some Q else pool_for_stage_id k M)"
  by (auto simp: pool_for_stage_id_def set_pool_def nth_list_update split: if_splits)

lemma membership_frame [simp]:
  "mc_errors (set_pool sid X N) = mc_errors N" "mc_last_up (set_pool sid X N) = mc_last_up N"
  "pool_for_stage_id j (N\<lparr>mc_shut_down := cs\<rparr>) = pool_for_stage_id j N"
  "pool_for_stage_id j (N\<lparr>mc_errors := es\<rparr>) = pool_for_stage_id j N"
  "pool_for_stage_id j (N\<lparr>mc_last_up := ks\<rparr>) = pool_for_stage_id j N"
  by (simp_all add: set_pool_def pool_for_stage_id_def)

lemma unregister_effect:
  assumes "pool_for_stage_id sid M = Some P"
  shows "pool_for_stage_id k (handle_unregister sid a M) =
      (if k = sid then Some (unregistered a P) else pool_for_stage_id k M) \<and>
     mc_errors (handle_unregister sid a M) = mc_errors M @ map (\<lambda>rid. (rid, sid)) (fst (invalidate_addr a P)) \<and>
     mc_last_up (handle_unregister sid a M) = mc_last_up M"
proof -
  obtain xs Q where Q: "invalidate_addr a P = (xs, Q)" by fastforce
  have p: "pool_for_stage_id j (set_pool sid Q M) = (if j = sid then Some Q else pool_for_stage_id j M)" for j
    by (rule pool_for_stage_set [OF assms])
  obtain c R where R: "remove_client a Q = (c, R)" by fastforce
  have q: "pool_for_stage_id j (set_pool sid R (set_pool sid Q M)) = (if j = sid then Some R else pool_for_stage_id j M)" for j
    using pool_for_stage_set [of sid "set_pool sid Q M" Q j R] p by simp
  have u: "unregistered a P = R" by (simp add: unregistered_def Q R)
  show ?thesis
    using assms Q R p q u
    by (auto simp: handle_unregister_def detach_replica_def Let_def split: option.splits)
qed

lemma unregister_no_pool: "pool_for_stage_id sid M = None \<Longrightarrow> handle_unregister sid a M = M"
  by (simp add: handle_unregister_def)

definition pools_ok :: "'b Membership \<Rightarrow> bool" where
  "pools_ok M \<longleftrightarrow> (\<forall>k P. pool_for_stage_id k M = Some P \<longrightarrow> dict_ok (sp_affinity P))"

definition detached :: "int \<Rightarrow> string \<Rightarrow> 'b Membership \<Rightarrow> bool" where
  "detached sid a M \<longleftrightarrow> (\<exists>P. pool_for_stage_id sid M = Some P \<and> dict_get (sp_addr_to_replica_id P) a = None \<and>
     (\<forall>rid. dict_get (sp_affinity P) rid \<noteq> Some a))"

definition bound_to :: "int \<Rightarrow> string \<Rightarrow> string \<Rightarrow> 'b Membership \<Rightarrow> bool" where
  "bound_to sid a rid M \<longleftrightarrow> (\<exists>P. pool_for_stage_id sid M = Some P \<and> dict_get (sp_affinity P) rid = Some a)"

lemma unregister_keeps:
  assumes "pools_ok M"
  shows "pools_ok (handle_unregister k b M)"
    and "detached sid a M \<Longrightarrow> detached sid a (handle_unregister k b M)"
    and "bound_to sid a rid M \<Longrightarrow> (k, b) \<noteq> (sid, a) \<Longrightarrow> bound_to sid a rid (handle_unregister k b M)"
    and "pool_for_stage_id sid M \<noteq> None \<Longrightarrow> pool_for_stage_id sid (handle_unregister k b M) \<noteq> None"
    and "set (mc_errors M) \<subseteq> set (mc_errors (handle_unregister k b M))"
proof -
  have "pools_ok (handle_unregister k b M) \<and>
    (detached sid a M \<longrightarrow> detached sid a (handle_unregister k b M)) \<and>
    (bound_to sid a rid M \<longrightarrow> (k, b) \<noteq> (sid, a) \<longrightarrow> bound_to sid a rid (handle_unregister k b M)) \<and>
    (pool_for_stage_id sid M \<noteq> None \<longrightarrow> pool_for_stage_id sid (handle_unregister k b M) \<noteq> None) \<and>
    set (mc_errors M) \<subseteq> set (mc_errors (handle_unregister k b M))"
  proof (cases "pool_for_stage_id k M")
    case None
    then show ?thesis using assms by (simp add: unregister_no_pool)
  next
    case (Some P)
    then have "dict_ok (sp_affinity P)" using assms by (auto simp: pools_ok_def)
    note u = unregistered_pool [OF this] and e = unregister_effect [OF Some]
    show ?thesis using assms Some by (auto simp: pools_ok_def detached_def bound_to_def e u)
  qed
  then show "pools_ok (handle_unregister k b M)"
    "detached sid a M \<Longrightarrow> detached sid a (handle_unregister k b M)"
    "bound_to sid a rid M \<Longrightarrow> (k, b) \<noteq> (sid, a) \<Longrightarrow> bound_to sid a rid (handle_unregister k b M)"
    "pool_for_stage_id sid M \<noteq> None \<Longrightarrow> pool_for_stage_id sid (handle_unregister k b M) \<noteq> None"
    "set (mc_errors M) \<subseteq> set (mc_errors (handle_unregister k b M))" by blast+
qed

lemma unregister_detaches:
  assumes "pools_ok M" "pool_for_stage_id sid M \<noteq> None"
  shows "detached sid a (handle_unregister sid a M) \<and>
     (bound_to sid a rid M \<longrightarrow> (rid, sid) \<in> set (mc_errors (handle_unregister sid a M)))"
proof -
  from assms(2) obtain P where P: "pool_for_stage_id sid M = Some P" by blast
  then have ok: "dict_ok (sp_affinity P)" using assms(1) by (auto simp: pools_ok_def)
  show ?thesis
    using unregistered_pool [OF ok] unregister_effect [OF P] invalidated [OF ok, of a] P
    by (auto simp: detached_def bound_to_def)
qed

lemma unregister_all:
  fixes ks :: "(int \<times> string) list"
  assumes "pools_ok M" "pool_for_stage_id sid M \<noteq> None"
  defines "N \<equiv> fold (\<lambda>(k, b). handle_unregister k b) ks M"
  shows "pools_ok N \<and> (detached sid a M \<or> (sid, a) \<in> set ks \<longrightarrow> detached sid a N) \<and>
     (bound_to sid a rid M \<and> (sid, a) \<in> set ks \<longrightarrow> (rid, sid) \<in> set (mc_errors N)) \<and>
     set (mc_errors M) \<subseteq> set (mc_errors N)"
  using assms(1,2) unfolding N_def
proof (induction ks arbitrary: M)
  case (Cons kb ks)
  obtain k b where kb: "kb = (k, b)" by fastforce
  note keep = unregister_keeps [OF Cons.prems(1), where k = k and b = b]
  note i = Cons.IH [OF keep(1) keep(4) [OF Cons.prems(2)]]
  show ?case
  proof (cases "kb = (sid, a)")
    case True
    with i kb unregister_detaches [OF Cons.prems, of a rid] keep(5) show ?thesis by auto
  next
    case False
    with i kb keep(2) [of sid a] keep(5) keep(3) [of sid a rid] show ?thesis by auto
  qed
qed simp

definition up_keys :: "Hub \<Rightarrow> (int \<times> string) set" where
  "up_keys H = (\<lambda>r. (ri_stage_id r, ri_input_addr r)) ` {r \<in> set (get_replica_list H). ri_status r = UP}"

lemma watch_detaches:
  fixes M :: "'b Membership"
  assumes "pools_ok M" "pool_for_stage_id sid M \<noteq> None"
  shows "pools_ok (watch_replica_list H M) \<and> mc_last_up (watch_replica_list H M) = remdups (map (\<lambda>r. (ri_stage_id r, ri_input_addr r))
        (List.filter (\<lambda>r. ri_status r = UP) (get_replica_list H))) \<and>
     (detached sid a M \<or> (sid, a) \<in> set (mc_last_up M) - up_keys H \<longrightarrow> detached sid a (watch_replica_list H M)) \<and>
     (bound_to sid a rid M \<and> (sid, a) \<in> set (mc_last_up M) - up_keys H \<longrightarrow>
        (rid, sid) \<in> set (mc_errors (watch_replica_list H M)))"
proof -
  define cur where "cur = remdups (map (\<lambda>r. (ri_stage_id r, ri_input_addr r))
    (List.filter (\<lambda>r. ri_status r = UP) (get_replica_list H)))"
  define gone where "gone = List.filter (\<lambda>k. k \<notin> set cur) (mc_last_up M)"
  have "set cur = up_keys H" by (auto simp: cur_def up_keys_def)
  then have g: "(sid, a) \<in> set gone \<longleftrightarrow> (sid, a) \<in> set (mc_last_up M) - up_keys H" by (simp add: gone_def)
  have w: "watch_replica_list H M = (fold (\<lambda>(k, b). handle_unregister k b) gone M)\<lparr>mc_last_up := cur\<rparr>"
    by (simp add: watch_replica_list_def cur_def gone_def Let_def)
  have f: "pools_ok (N\<lparr>mc_last_up := ks\<rparr>) = pools_ok N" "detached sid a (N\<lparr>mc_last_up := ks\<rparr>) = detached sid a N" for N :: "'b Membership" and ks
    by (simp_all add: pools_ok_def detached_def)
  show ?thesis
    using unregister_all [OF assms, of gone a rid] by (auto simp: w f g cur_def)
qed

lemma watch_again:
  assumes "pools_ok M" "detached sid a M"
  shows "pools_ok (fold watch_replica_list Hs M) \<and> detached sid a (fold watch_replica_list Hs M) \<and>
     set (mc_errors M) \<subseteq> set (mc_errors (fold watch_replica_list Hs M))"
  using assms
proof (induction Hs arbitrary: M)
  case (Cons H Hs)
  have p: "pool_for_stage_id sid M \<noteq> None" using Cons.prems(2) by (auto simp: detached_def)
  have "set (mc_errors M) \<subseteq> set (mc_errors (watch_replica_list H M))"
    using unregister_all [OF Cons.prems(1) p] by (simp add: watch_replica_list_def Let_def)
  with watch_detaches [OF Cons.prems(1) p, of H a] Cons show ?case by fastforce
qed simp

lemma client_input_addr_nonempty: "client_input_addr c = Some a \<Longrightarrow> a \<noteq> []"
  by (auto simp: client_input_addr_def split: option.splits list.splits)

lemma register_reattaches:
  assumes "pool_for_stage_id sid M = Some P" "dict_get (sp_addr_to_replica_id P) a = None" "client_input_addr c = Some a"
  shows "\<exists>Q. do_register sid c M = (Inr (), set_pool sid Q M) \<and> pool_for_stage_id sid (set_pool sid Q M) = Some Q \<and>
     dict_get (sp_addr_to_replica_id Q) a = Some (length (sp_clients P)) \<and> sp_clients Q = sp_clients P @ [Some c]"
proof -
  let ?Q = "P\<lparr>sp_clients := sp_clients P @ [Some c],
    sp_addr_to_replica_id := dict_set a (length (sp_clients P)) (sp_addr_to_replica_id P)\<rparr>"
  have "do_register sid c M = (Inr (), set_pool sid ?Q M)"
    using assms client_input_addr_nonempty [OF assms(3)] by (simp add: do_register_def add_client_def Let_def)
  moreover have "pool_for_stage_id sid (set_pool sid ?Q M) = Some ?Q" by (simp add: pool_for_stage_set [OF assms(1)])
  ultimately show ?thesis by (intro exI [of _ ?Q]) (simp add: dict_simps)
qed

lemma detached_unserviceable:
  "dict_get (sp_addr_to_replica_id P) a = None \<Longrightarrow> (rep, i) \<in> set (collect_serviceable_replicas H P) \<Longrightarrow> ri_input_addr rep \<noteq> a"
  by (auto simp: collect_sound)

section \<open>What the routing promises\<close>

text \<open>
  C5: Picks are sound and sticky.  Whatever the policy and its draws, a distributed pick that
  answers has chosen an attached client slot whose replica the hub lists as UP for this stage, and
  it binds the request to that replica's address: until the hub or the pool changes, every later pick
  of the request gives the same replica and changes nothing, and a companion without a binding of its
  own that names the request as its parent gets the same replica.
\<close>

theorem pick_sound_and_sticky:
  assumes "pool_ok P" "sp_lb P \<noteq> None" "pick balance r (Some H) late rid parent P = (Picked i, P')"
  shows "(\<exists>rep \<in> set (get_replicas_for_stage (sp_stage_id P') H).
        ri_status rep = UP \<and> dict_get (sp_addr_to_replica_id P') (ri_input_addr rep) = Some i \<and>
        dict_get (sp_affinity P') rid = Some (ri_input_addr rep)) \<and>
     i < length (sp_clients P') \<and> sp_clients P' ! i \<noteq> None \<and>
     (\<forall>r' late' parent'. pick balance r' (Some H) late' rid parent' P' = (Picked i, P')) \<and>
     (\<forall>c r' late'. dict_get (sp_affinity P') c = None \<longrightarrow>
        fst (pick balance r' (Some H) late' c (Some rid) P') = Picked i)"
proof -
  have rt: "routed H rid i P'" and lb: "sp_lb P' \<noteq> None"
    using policy.pick_routed [OF assms(3,2)] by blast+
  have ok: "pool_ok P'" by (rule pick_pool_ok [OF assms(1,2,3)])
  have "fst (pick balance r' (Some H) late' c (Some rid) P') = Picked i" if "dict_get (sp_affinity P') c = None" for c r' late'
    using companion_route [OF rt that] lb by (auto simp: pick_def split: prod.splits)
  with rt ok policy.pick_repeats [OF rt lb] show ?thesis
    by (auto simp: routed_def collect_sound dest: pool_ok_addr)
qed

text \<open>
  A pick answers exactly when it can.  With an attached hub and a balancer the policies can
  handle, a poll picks a replica if some replica the hub lists as UP for the stage has an attached
  client; otherwise it waits, and raises \<^verbatim>\<open>RuntimeError\<close> once its deadline has passed.
\<close>

theorem pick_answers_exactly:
  assumes "sp_lb P = Some lb" "nonneg_queues (map fst (collect_serviceable_replicas H P))"
  shows "if \<exists>rep \<in> set (get_replicas_for_stage (sp_stage_id P) H). ri_status rep = UP \<and>
          get_client_by_addr (ri_input_addr rep) P \<noteq> None
     then \<exists>i. fst (pick balance r (Some H) late rid parent P) = Picked i
     else fst (pick balance r (Some H) late rid parent P) = (if late then Raised RuntimeError else Waiting)"
proof -
  have "(\<exists>rep \<in> set (get_replicas_for_stage (sp_stage_id P) H). ri_status rep = UP \<and>
      get_client_by_addr (ri_input_addr rep) P \<noteq> None) \<longleftrightarrow> (\<exists>rep i. (rep, i) \<in> set (collect_serviceable_replicas H P))"
    by (force simp: collect_sound get_client_by_addr_def split: option.splits)
  also have "\<dots> \<longleftrightarrow> collect_serviceable_replicas H P \<noteq> []" by (cases "collect_serviceable_replicas H P") auto
  finally show ?thesis using policy.pick_outcome [OF assms, of r late rid parent] by (simp split: if_splits)
qed

text \<open>
  A lapse of the heartbeat detaches for good.  Once a replica the watcher knew as UP is missing
  from one list it sees, its client is dropped and every request bound to it gets an error.  From then
  on no list that lists the replica as UP again makes it serviceable, however many rounds the watcher
  runs; only the registration of a new client with this address does.
\<close>

theorem lapsed_replica_stays_detached:
  assumes "pools_ok M" "pool_for_stage_id sid M = Some P" "(sid, a) \<in> set (mc_last_up M)" "(sid, a) \<notin> up_keys H"
  shows "\<exists>Q. pool_for_stage_id sid (fold watch_replica_list Hs (watch_replica_list H M)) = Some Q \<and>
     (\<forall>H'. a \<notin> (\<lambda>(rep, i). ri_input_addr rep) ` set (collect_serviceable_replicas H' Q)) \<and>
     (\<forall>rid. dict_get (sp_affinity P) rid = Some a \<longrightarrow>
        (rid, sid) \<in> set (mc_errors (fold watch_replica_list Hs (watch_replica_list H M)))) \<and>
     (\<forall>c. client_input_addr c = Some a \<longrightarrow>
        (\<exists>Q'. do_register sid c (fold watch_replica_list Hs (watch_replica_list H M)) =
            (Inr (), set_pool sid Q' (fold watch_replica_list Hs (watch_replica_list H M))) \<and>
          get_client_by_addr a Q' = Some c))"
proof -
  let ?W = "watch_replica_list H M"
  let ?N = "fold watch_replica_list Hs ?W"
  have p: "pool_for_stage_id sid M \<noteq> None" using assms(2) by simp
  note w = watch_detaches [OF assms(1) p, where H = H and a = a]
  have W: "pools_ok ?W" "detached sid a ?W" using w assms(3,4) by blast+
  note n = watch_again [OF W, of Hs]
  then obtain Q where Q: "pool_for_stage_id sid ?N = Some Q" "dict_get (sp_addr_to_replica_id Q) a = None"
    by (auto simp: detached_def)
  have "(rid, sid) \<in> set (mc_errors ?N)" if "dict_get (sp_affinity P) rid = Some a" for rid
    using w [of rid] n that assms(2-4) by (auto simp: bound_to_def)
  moreover have "\<exists>Q'. do_register sid c ?N = (Inr (), set_pool sid Q' ?N) \<and> get_client_by_addr a Q' = Some c"
    if "client_input_addr c = Some a" for c
    using register_reattaches [OF Q that] by (auto simp: get_client_by_addr_def)
  ultimately show ?thesis using Q(1) detached_unserviceable [OF Q(2)] by fastforce
qed

section \<open>Concrete runs\<close>

definition sample_client :: StageClient where
  "sample_client = \<lparr>cl_handle = 0, cl_request_address = Some ''a'', cl_input_address = None\<rparr>"

definition sample_pool :: "LoadBalancer StagePool" where
  "sample_pool = attach_load_balancer (Some (RoundRobinBalancer 0)) (make_pool_state 1 [sample_client])"

definition sample_coordinator :: "coord_event list \<Rightarrow> Coordinator" where
  "sample_coordinator es =
     coord_run ([Recv 1 (sample_event ''update'' UP), Turn 1 True, Clear] @ es) (make_coordinator 30)"

definition sample_hub :: "coord_event list \<Rightarrow> Hub" where
  "sample_hub es = hub_receive (hd (co_published (sample_coordinator es))) \<lparr>hub_list = None\<rparr>"

definition sample_membership :: "LoadBalancer Membership" where
  "sample_membership = \<lparr>mc_pools = [make_pool_state 0 [], bind_affinity ''r'' ''a'' sample_pool],
     mc_last_up = [(1, ''a'')], mc_errors = [], mc_shut_down = []\<rparr>"

lemma sample_up: "hub_list (sample_hub []) = Some [\<lparr>ri_input_addr = ''a'', ri_output_addr = ''b'', ri_stage_id = 1,
    ri_status = UP, ri_queue_length = Some 3, ri_last_heartbeat = 1, ri_registered_at = 1\<rparr>]"
  by (simp add: sample_hub_def sample_coordinator_def hub_receive_def decode_replica_list_def sample_run periodic_clear_def)

lemma sample_lapse: "hub_list (sample_hub [Turn 40 True, Clear]) = Some []"
  by (simp add: sample_hub_def sample_coordinator_def hub_receive_def decode_replica_list_def sample_run periodic_clear_def
      check_heartbeat_timeouts_def timed_out_def collectable_def gc_ttl_def)

lemma sample_recovered: "hub_list (sample_hub [Turn 40 True, Clear, Recv 41 (sample_event ''heartbeat'' UP), Turn 41 True]) =
    Some [\<lparr>ri_input_addr = ''a'', ri_output_addr = ''b'', ri_stage_id = 1,
    ri_status = UP, ri_queue_length = Some 3, ri_last_heartbeat = 41, ri_registered_at = 1\<rparr>]"
  by (simp add: sample_hub_def sample_coordinator_def hub_receive_def decode_replica_list_def sample_run periodic_clear_def
      check_heartbeat_timeouts_def timed_out_def collectable_def gc_ttl_def)

lemmas sample_pools = sample_pool_def make_pool_state_def attach_load_balancer_def index_addrs_def client_input_addr_def
  sample_client_def get_replicas_for_stage_def get_replica_list_def collect_serviceable_replicas_def
  bind_affinity_def drop_affinity_def

lemma sample_pool_ok: "pool_ok sample_pool"
  unfolding sample_pool_def attach_load_balancer_def using make_pool_ok by simp

theorem pick_sound_and_sticky_witness:
  "fst (pick balance 7 (Some (sample_hub [])) False ''r'' None
     (snd (pick balance 0 (Some (sample_hub [])) False ''r'' None sample_pool))) = Picked 0"
proof -
  have "fst (pick balance 0 (Some (sample_hub [])) False ''r'' None sample_pool) = Picked 0"
    by (simp add: pick_def pick_poll_def fresh_pick_def sticky_route_def inherited_route_def sample_pools sample_up
        round_robin_select_def)
  then have p: "pick balance 0 (Some (sample_hub [])) False ''r'' None sample_pool =
      (Picked 0, snd (pick balance 0 (Some (sample_hub [])) False ''r'' None sample_pool))"
    by (metis prod.collapse)
  have "sp_lb sample_pool \<noteq> None" by (simp add: sample_pools)
  from pick_sound_and_sticky [OF sample_pool_ok this p] show ?thesis by simp
qed

theorem pick_answers_exactly_witness:
  "\<exists>i. fst (pick balance 0 (Some (sample_hub [])) False ''r'' None sample_pool) = Picked i"
proof -
  have "sp_lb sample_pool = Some (RoundRobinBalancer 0)"
    and "nonneg_queues (map fst (collect_serviceable_replicas (sample_hub []) sample_pool))"
    and c: "\<exists>rep \<in> set (get_replicas_for_stage (sp_stage_id sample_pool) (sample_hub [])). ri_status rep = UP \<and>
        get_client_by_addr (ri_input_addr rep) sample_pool \<noteq> None"
    by (simp_all add: sample_pools sample_up nonneg_queues_def get_client_by_addr_def)
  from pick_answers_exactly [OF this(1,2), of 0 False "''r''" None] c show ?thesis by presburger
qed

text \<open>The lapse end to end: registration, a missed heartbeat, the recovery, and what the head makes of it.\<close>

theorem lapsed_replica_stays_detached_witness:
  "\<exists>Q. pool_for_stage_id 1 (watch_replica_list (sample_hub [Turn 40 True, Clear, Recv 41 (sample_event ''heartbeat'' UP), Turn 41 True])
       (watch_replica_list (sample_hub [Turn 40 True, Clear]) sample_membership)) = Some Q \<and>
     ''a'' \<notin> (\<lambda>(rep, i). ri_input_addr rep) ` set (collect_serviceable_replicas
       (sample_hub [Turn 40 True, Clear, Recv 41 (sample_event ''heartbeat'' UP), Turn 41 True]) Q)"
proof -
  have "pools_ok sample_membership"
    by (auto simp: pools_ok_def sample_membership_def sample_pools pool_for_stage_id_def nth_Cons split: if_splits nat.splits)
  moreover have "pool_for_stage_id 1 sample_membership = Some (bind_affinity ''r'' ''a'' sample_pool)"
    by (simp add: pool_for_stage_id_def sample_membership_def)
  moreover have "(1, ''a'') \<in> set (mc_last_up sample_membership)" by (simp add: sample_membership_def)
  moreover have "(1, ''a'') \<notin> up_keys (sample_hub [Turn 40 True, Clear])"
    by (simp add: up_keys_def get_replica_list_def sample_lapse)
  ultimately show ?thesis
    using lapsed_replica_stays_detached [where H = "sample_hub [Turn 40 True, Clear]" and
        Hs = "[sample_hub [Turn 40 True, Clear, Recv 41 (sample_event ''heartbeat'' UP), Turn 41 True]]"]
    by fastforce
qed

end
