(* ===== verification/Input_Coordinator.thy ===== *)
theory Input_Coordinator
  imports Omni_Prelude "HOL-Library.Multiset"
begin

text \<open>
  The scheduling side of stage input transfer (\<^verbatim>\<open>core/sched/omni_scheduling_coordinator.py\<close>): requests
  whose next chunk or whole input has not arrived are parked outside the scheduler's queues for one
  scheduling cycle and returned afterwards.

  A request is a shared mutable object, so the queues hold request ids and the objects live in a store.
  The waiting queue is a class of vLLM and not part of the repository: its operations are the record
  \<open>queue_ops\<close>, and what the coordinator relies on is \<open>queue_laws\<close>.  The running queue is a Python list.
\<close>

section \<open>Requests and queues\<close>

text \<open>The states the coordinator distinguishes; \<open>RS_OTHER\<close> stands for the remaining ones of vLLM.\<close>

datatype request_status = RS_WAITING | RS_RUNNING | RS_WAITING_FOR_CHUNK | RS_WAITING_FOR_INPUT | RS_OTHER nat

record Request =
  rq_status :: request_status
  rq_external_req_id :: "string option"
  rq_prompt_token_ids :: "int list"
  rq_num_prompt_tokens :: int
  rq_all_token_ids :: "int list"
  rq_output_token_ids :: "int list"
  rq_num_computed_tokens :: int
  rq_left_context_size :: "int option"   \<comment> \<open>the only entry of \<^verbatim>\<open>_omni_initial_model_buffer\<close>\<close>

type_synonym store = "string \<Rightarrow> Request"

definition set_status :: "string \<Rightarrow> request_status \<Rightarrow> store \<Rightarrow> store" where
  "set_status rid s st = st(rid := (st rid)\<lparr>rq_status := s\<rparr>)"

record 'q queue_ops =
  q_items :: "'q \<Rightarrow> string list"
  q_add :: "string \<Rightarrow> 'q \<Rightarrow> 'q"
  q_prepend :: "string \<Rightarrow> 'q \<Rightarrow> 'q"
  q_remove :: "string \<Rightarrow> 'q \<Rightarrow> 'q"
  q_remove_all :: "string list \<Rightarrow> 'q \<Rightarrow> 'q"

text \<open>Every operation adds or removes the requests it is given and nothing else; no order is assumed.\<close>

definition queue_laws :: "'q queue_ops \<Rightarrow> bool" where
  "queue_laws Q \<longleftrightarrow>
     (\<forall>r q. mset (q_items Q (q_add Q r q)) = add_mset r (mset (q_items Q q))) \<and>
     (\<forall>r q. mset (q_items Q (q_prepend Q r q)) = add_mset r (mset (q_items Q q))) \<and>
     (\<forall>r q. mset (q_items Q (q_remove Q r q)) = mset (q_items Q q) - {#r#}) \<and>
     (\<forall>rs q. mset (q_items Q (q_remove_all Q rs q)) = filter_mset (\<lambda>r. r \<notin> set rs) (mset (q_items Q q)))"

definition running_ops :: "string list queue_ops" where
  "running_ops = \<lparr>q_items = (\<lambda>q. q), q_add = (\<lambda>r q. q @ [r]), q_prepend = (\<lambda>r q. r # q),
     q_remove = remove1, q_remove_all = (\<lambda>rs q. List.filter (\<lambda>r. r \<notin> set rs) q)\<rparr>"

section \<open>The coordinator\<close>

record SchedulingCoordinator =
  sc_stage_id :: int
  sc_max_num_seqs :: nat
  sc_async_chunk :: bool
  sc_finished_requests :: "string set"
  sc_ready_chunks :: "string set"
  sc_input_received :: "string set"
  sc_chunk_waiting :: "string list"
  sc_chunk_running :: "string list"
  sc_pending_chunk_registrations :: "string list"
  sc_waiting_for_input :: "string list"
  sc_pending_input_registrations :: "(string \<times> string option) list"
  sc_waiting_since :: "(string, rat) dict"

definition make_scheduling_coordinator :: "nat \<Rightarrow> int \<Rightarrow> bool \<Rightarrow> SchedulingCoordinator" where
  "make_scheduling_coordinator n sid async =
     \<lparr>sc_stage_id = sid, sc_max_num_seqs = n, sc_async_chunk = async, sc_finished_requests = {},
      sc_ready_chunks = {}, sc_input_received = {}, sc_chunk_waiting = [], sc_chunk_running = [],
      sc_pending_chunk_registrations = [], sc_waiting_for_input = [], sc_pending_input_registrations = [],
      sc_waiting_since = []\<rparr>"

definition since_setdefault :: "rat \<Rightarrow> string \<Rightarrow> (string, rat) dict \<Rightarrow> (string, rat) dict" where
  "since_setdefault now rid d = (if dict_get d rid = None then dict_set rid now d else d)"

section \<open>Chunks\<close>

text \<open>One request of the snapshot that \<^verbatim>\<open>_process_chunk_queue\<close> walks over; \<open>parked\<close> is the deque it fills.\<close>

definition process_chunk_request ::
  "'q queue_ops \<Rightarrow> request_status \<Rightarrow> string set \<Rightarrow> rat \<Rightarrow> string \<Rightarrow>
     SchedulingCoordinator \<times> store \<times> 'q \<times> string list \<Rightarrow> SchedulingCoordinator \<times> store \<times> 'q \<times> string list" where
  "process_chunk_request Q target ready now rid = (\<lambda>(c, st, q, parked).
     if rq_status (st rid) \<noteq> RS_WAITING_FOR_CHUNK then
       (if rid \<in> sc_ready_chunks c then (c, st, q, parked)
        else if rid \<in> sc_finished_requests c then (c, st, q, parked)
        else if rq_status (st rid) = RS_WAITING_FOR_INPUT then (c, st, q, parked)
        else if rid \<in> ready then (c\<lparr>sc_ready_chunks := insert rid (sc_ready_chunks c)\<rparr>, st, q, parked)
        else (c\<lparr>sc_pending_chunk_registrations := sc_pending_chunk_registrations c @ [rid],
                sc_waiting_since := since_setdefault now rid (sc_waiting_since c)\<rparr>,
              set_status rid RS_WAITING_FOR_CHUNK st, q_remove Q rid q, parked @ [rid]))
     else if rid \<in> ready then
       (c\<lparr>sc_ready_chunks := insert rid (sc_ready_chunks c),
          sc_waiting_since := dict_del rid (sc_waiting_since c)\<rparr>,
        set_status rid target st, q, parked)
     else (c, st, q_remove Q rid q, parked @ [rid]))"

definition process_chunk_queue ::
  "'q queue_ops \<Rightarrow> request_status \<Rightarrow> string set \<Rightarrow> rat \<Rightarrow>
     SchedulingCoordinator \<times> store \<times> 'q \<times> string list \<Rightarrow> SchedulingCoordinator \<times> store \<times> 'q \<times> string list" where
  "process_chunk_queue Q target ready now = (\<lambda>(c, st, q, parked).
     fold (process_chunk_request Q target ready now) (q_items Q q) (c, st, q, parked))"

text \<open>The loop that takes requests off the end of the running list while it is over capacity.\<close>

function trim_running ::
  "'q queue_ops \<Rightarrow> nat \<Rightarrow> store \<Rightarrow> 'q \<Rightarrow> string list \<Rightarrow> store \<times> 'q \<times> string list" where
  "trim_running Q n st wq running =
     (if length running > n
      then trim_running Q n (set_status (last running) RS_WAITING st) (q_prepend Q (last running) wq) (butlast running)
      else (st, wq, running))"
  by pat_completeness auto
termination
  by (relation "measure (\<lambda>(Q, n, st, wq, running). length running)") auto

declare trim_running.simps [simp del]

definition process_pending_chunks ::
  "'q queue_ops \<Rightarrow> string set \<Rightarrow> string set \<Rightarrow> rat \<Rightarrow> SchedulingCoordinator \<times> store \<times> 'q \<times> string list \<Rightarrow>
     SchedulingCoordinator \<times> store \<times> 'q \<times> string list" where
  "process_pending_chunks Q ready fin now = (\<lambda>(c, st, wq, running).
     if sc_stage_id c = 0 \<or> \<not> sc_async_chunk c then (c, st, wq, running)
     else (let terminal = ready \<inter> fin;
               c1 = c\<lparr>sc_finished_requests := sc_finished_requests c \<union> (fin - terminal),
                      sc_pending_chunk_registrations := []\<rparr>
           in case process_chunk_queue Q RS_WAITING ready now (c1, st, wq, sc_chunk_waiting c1) of
             (c2, st2, wq2, parked2) \<Rightarrow>
               (case process_chunk_queue running_ops RS_RUNNING ready now
                    (c2\<lparr>sc_chunk_waiting := parked2\<rparr>, st2, running, sc_chunk_running c2) of
                  (c3, st3, running3, parked3) \<Rightarrow>
                    (let c4 = c3\<lparr>sc_chunk_running := parked3,
                                 sc_finished_requests := sc_finished_requests c3 \<union> terminal\<rparr>
                     in case trim_running Q (sc_max_num_seqs c4) st3 wq2 running3 of
                       (st4, wq4, running4) \<Rightarrow> (c4, st4, wq4, running4)))))"

section \<open>Whole inputs\<close>

text \<open>Returning the parked requests whose input has arrived to the waiting queue.\<close>

definition release_input ::
  "'q queue_ops \<Rightarrow> string set \<Rightarrow> string \<Rightarrow> SchedulingCoordinator \<times> store \<times> 'q \<Rightarrow> SchedulingCoordinator \<times> store \<times> 'q" where
  "release_input Q recv rid = (\<lambda>(c, st, q).
     if rid \<in> recv
     then (c\<lparr>sc_waiting_since := dict_del rid (sc_waiting_since c)\<rparr>, set_status rid RS_WAITING st, q_add Q rid q)
     else (c\<lparr>sc_waiting_for_input := sc_waiting_for_input c @ [rid]\<rparr>, st, q))"

text \<open>One request of the snapshot of the waiting queue; the ids to remove are collected.\<close>

definition gate_input ::
  "string set \<Rightarrow> rat \<Rightarrow> string \<Rightarrow> SchedulingCoordinator \<times> store \<times> string list \<Rightarrow>
     SchedulingCoordinator \<times> store \<times> string list" where
  "gate_input recv now rid = (\<lambda>(c, st, gone).
     let parked = c\<lparr>sc_waiting_for_input := sc_waiting_for_input c @ [rid],
           sc_pending_input_registrations := sc_pending_input_registrations c @ [(rid, rq_external_req_id (st rid))]\<rparr>
     in if rq_status (st rid) = RS_WAITING then
          (if rid \<in> sc_input_received c then (c, st, gone)
           else if rid \<in> sc_ready_chunks c then (c, st, gone)
           else if rid \<in> sc_finished_requests c then (c, st, gone)
           else (parked\<lparr>sc_waiting_since := since_setdefault now rid (sc_waiting_since c)\<rparr>,
                 set_status rid RS_WAITING_FOR_INPUT st, gone @ [rid]))
        else if rq_status (st rid) = RS_WAITING_FOR_INPUT then
          (if rid \<in> recv
           then (c\<lparr>sc_waiting_since := dict_del rid (sc_waiting_since c)\<rparr>, set_status rid RS_WAITING st, gone)
           else (parked, st, gone @ [rid]))
        else (c, st, gone))"

definition process_pending_full_payload_inputs ::
  "'q queue_ops \<Rightarrow> string set \<Rightarrow> rat \<Rightarrow> SchedulingCoordinator \<times> store \<times> 'q \<Rightarrow> SchedulingCoordinator \<times> store \<times> 'q" where
  "process_pending_full_payload_inputs Q recv now = (\<lambda>(c, st, wq).
     if sc_stage_id c = 0 then (c, st, wq)
     else (let c1 = c\<lparr>sc_input_received := sc_input_received c \<union> recv,
                 sc_finished_requests := (if \<not> sc_async_chunk c then sc_finished_requests c \<union> recv
                                          else sc_finished_requests c),
                 sc_pending_input_registrations := [], sc_waiting_for_input := []\<rparr>
           in case fold (release_input Q recv) (sc_waiting_for_input c) (c1, st, wq) of
             (c2, st2, wq2) \<Rightarrow>
               (if sc_async_chunk c then (c2, st2, wq2)
                else case fold (gate_input recv now) (q_items Q wq2) (c2, st2, []) of
                  (c3, st3, gone) \<Rightarrow> (c3, st3, if gone = [] then wq2 else q_remove_all Q gone wq2))))"

section \<open>The rest of a cycle\<close>

definition restore_queues ::
  "'q queue_ops \<Rightarrow> SchedulingCoordinator \<times> 'q \<times> string list \<Rightarrow> SchedulingCoordinator \<times> 'q \<times> string list" where
  "restore_queues Q = (\<lambda>(c, wq, running).
     (c\<lparr>sc_chunk_waiting := [], sc_chunk_running := [], sc_waiting_for_input := []\<rparr>,
      fold (q_add Q) (sc_waiting_for_input c) (fold (q_add Q) (sc_chunk_waiting c) wq),
      running @ sc_chunk_running c))"

definition free_finished_request :: "string \<Rightarrow> SchedulingCoordinator \<Rightarrow> SchedulingCoordinator" where
  "free_finished_request rid c = c\<lparr>sc_input_received := sc_input_received c - {rid},
     sc_finished_requests := sc_finished_requests c - {rid}, sc_ready_chunks := sc_ready_chunks c - {rid},
     sc_waiting_since := dict_del rid (sc_waiting_since c)\<rparr>"

definition collect_timed_out_request_ids ::
  "rat \<Rightarrow> rat \<Rightarrow> SchedulingCoordinator \<Rightarrow> string set \<times> SchedulingCoordinator" where
  "collect_timed_out_request_ids timeout now c =
     (if timeout \<le> 0 then ({}, c)
      else (let late = {rid \<in> set (dict_keys (sc_waiting_since c)). now - the (dict_get (sc_waiting_since c) rid) > timeout};
                keep = List.filter (\<lambda>rid. rid \<notin> late)
            in if late = {} then ({}, c)
               else (late, c\<lparr>sc_chunk_waiting := keep (sc_chunk_waiting c), sc_chunk_running := keep (sc_chunk_running c),
                       sc_waiting_for_input := keep (sc_waiting_for_input c),
                       sc_waiting_since := List.filter (\<lambda>(rid, t). rid \<notin> late) (sc_waiting_since c)\<rparr>)))"

text \<open>The ids of the new and of the cached requests of a materialised scheduler output.\<close>

definition postprocess_scheduler_output ::
  "string list \<Rightarrow> string list \<Rightarrow> SchedulingCoordinator \<Rightarrow> SchedulingCoordinator" where
  "postprocess_scheduler_output new cached c =
     c\<lparr>sc_ready_chunks := sc_ready_chunks c - set new - set cached\<rparr>"

section \<open>Queues and parking\<close>

lemma running_laws: "queue_laws running_ops"
  by (auto simp: queue_laws_def running_ops_def)

lemma running_items: "q_items running_ops q = q"
  by (simp add: running_ops_def)

lemma law_add: "queue_laws Q \<Longrightarrow> mset (q_items Q (q_add Q r q)) = add_mset r (mset (q_items Q q))"
  and law_prepend: "queue_laws Q \<Longrightarrow> mset (q_items Q (q_prepend Q r q)) = add_mset r (mset (q_items Q q))"
  and law_remove: "queue_laws Q \<Longrightarrow> mset (q_items Q (q_remove Q r q)) = mset (q_items Q q) - {#r#}"
  and law_remove_all: "queue_laws Q \<Longrightarrow>
    mset (q_items Q (q_remove_all Q rs q)) = filter_mset (\<lambda>r. r \<notin> set rs) (mset (q_items Q q))"
  by (simp_all add: queue_laws_def)

lemma fold_add: "queue_laws Q \<Longrightarrow> mset (q_items Q (fold (q_add Q) rs q)) = mset rs + mset (q_items Q q)"
  by (induction rs arbitrary: q) (simp_all add: law_add)

text \<open>When a request stays in its queue: a chunk is ready or no longer needed, or it waits for an input.\<close>

definition stays :: "SchedulingCoordinator \<Rightarrow> store \<Rightarrow> string set \<Rightarrow> string \<Rightarrow> bool" where
  "stays c st ready rid \<longleftrightarrow>
     rid \<in> ready \<or> rq_status (st rid) \<noteq> RS_WAITING_FOR_CHUNK \<and>
       (rid \<in> sc_ready_chunks c \<or> rid \<in> sc_finished_requests c \<or> rq_status (st rid) = RS_WAITING_FOR_INPUT)"

definition next_status :: "request_status \<Rightarrow> SchedulingCoordinator \<Rightarrow> store \<Rightarrow> string set \<Rightarrow> string \<Rightarrow> request_status" where
  "next_status target c st ready rid =
     (if \<not> stays c st ready rid then RS_WAITING_FOR_CHUNK
      else if rq_status (st rid) = RS_WAITING_FOR_CHUNK then target else rq_status (st rid))"

text \<open>What the queue passes leave alone.\<close>

definition same_frame :: "SchedulingCoordinator \<Rightarrow> SchedulingCoordinator \<Rightarrow> bool" where
  "same_frame c c' \<longleftrightarrow> sc_stage_id c' = sc_stage_id c \<and> sc_max_num_seqs c' = sc_max_num_seqs c \<and>
     sc_async_chunk c' = sc_async_chunk c \<and> sc_finished_requests c' = sc_finished_requests c \<and>
     sc_input_received c' = sc_input_received c \<and> sc_chunk_waiting c' = sc_chunk_waiting c \<and>
     sc_chunk_running c' = sc_chunk_running c \<and> sc_waiting_for_input c' = sc_waiting_for_input c"

lemma same_frame_trans: "same_frame a b \<Longrightarrow> same_frame b c \<Longrightarrow> same_frame a c"
  by (simp add: same_frame_def)

lemma chunk_request_step:
  assumes "process_chunk_request Q target ready now rid (c, st, q, parked) = (c', st', q', parked')"
  shows "same_frame c c' \<and> q' = (if stays c st ready rid then q else q_remove Q rid q) \<and>
     parked' = parked @ (if stays c st ready rid then [] else [rid]) \<and>
     rq_status (st' rid) = next_status target c st ready rid \<and>
     (\<forall>x. x \<noteq> rid \<longrightarrow> st' x = st x \<and> (x \<in> sc_ready_chunks c' \<longleftrightarrow> x \<in> sc_ready_chunks c))"
  using assms
  by (auto simp: process_chunk_request_def stays_def next_status_def same_frame_def set_status_def split: if_splits)

lemma stays_cong:
  "sc_finished_requests c' = sc_finished_requests c \<Longrightarrow> st' x = st x \<Longrightarrow> (x \<in> sc_ready_chunks c' \<longleftrightarrow> x \<in> sc_ready_chunks c) \<Longrightarrow>
     stays c' st' ready x = stays c st ready x \<and> next_status t c' st' ready x = next_status t c st ready x"
  by (simp add: stays_def next_status_def)

lemma chunk_queue_run:
  assumes "distinct rs"
      and "fold (process_chunk_request Q target ready now) rs (c, st, q, parked) = (c', st', q', parked')"
  shows "same_frame c c' \<and> parked' = parked @ List.filter (\<lambda>r. \<not> stays c st ready r) rs \<and>
     q' = fold (q_remove Q) (List.filter (\<lambda>r. \<not> stays c st ready r) rs) q \<and>
     (\<forall>x \<in> set rs. rq_status (st' x) = next_status target c st ready x) \<and>
     (\<forall>x. x \<notin> set rs \<longrightarrow> st' x = st x \<and> (x \<in> sc_ready_chunks c' \<longleftrightarrow> x \<in> sc_ready_chunks c))"
  using assms
proof (induction rs arbitrary: c st q parked)
  case (Cons r rs)
  obtain c1 st1 q1 p1 where one: "process_chunk_request Q target ready now r (c, st, q, parked) = (c1, st1, q1, p1)"
    by (metis prod_cases4)
  note s = chunk_request_step [OF one]
  have i: "same_frame c1 c' \<and> parked' = p1 @ List.filter (\<lambda>r. \<not> stays c1 st1 ready r) rs \<and>
     q' = fold (q_remove Q) (List.filter (\<lambda>r. \<not> stays c1 st1 ready r) rs) q1 \<and>
     (\<forall>x \<in> set rs. rq_status (st' x) = next_status target c1 st1 ready x) \<and>
     (\<forall>x. x \<notin> set rs \<longrightarrow> st' x = st1 x \<and> (x \<in> sc_ready_chunks c' \<longleftrightarrow> x \<in> sc_ready_chunks c1))"
    using Cons.IH Cons.prems one by simp
  have e: "stays c1 st1 ready x = stays c st ready x \<and> next_status target c1 st1 ready x = next_status target c st ready x"
    if "x \<in> set rs" for x
    using s Cons.prems(1) that by (intro stays_cong) (auto simp: same_frame_def)
  then have f: "List.filter (\<lambda>r. \<not> stays c1 st1 ready r) rs = List.filter (\<lambda>r. \<not> stays c st ready r) rs"
    by (intro filter_cong) auto
  have r: "rq_status (st' r) = next_status target c st ready r" using s i Cons.prems(1) by simp
  with s i f e same_frame_trans [of c c1 c'] show ?case by auto
qed (simp add: same_frame_def)

lemma mset_filter_diff: "mset xs - mset (List.filter (\<lambda>x. \<not> P x) xs) = mset (List.filter P xs)"
  by (metis add_diff_cancel_right' mset_filter multiset_partition)

lemma fold_remove: "queue_laws Q \<Longrightarrow> mset (q_items Q (fold (q_remove Q) rs q)) = mset (q_items Q q) - mset rs"
  by (induction rs arbitrary: q) (simp_all add: law_remove)

lemma fold_remove1: "distinct q \<Longrightarrow> fold remove1 rs q = List.filter (\<lambda>x. x \<notin> set rs) q"
  by (induction rs arbitrary: q) (auto simp: distinct_remove1_removeAll removeAll_filter_not_eq intro!: filter_cong)

lemma trim_run:
  assumes "queue_laws Q" "trim_running Q n st wq running = (st', wq', running')"
  shows "running' = take n running \<and> mset (q_items Q wq') = mset (q_items Q wq) + mset (drop n running) \<and>
     (\<forall>x. rq_status (st' x) = (if x \<in> set (drop n running) then RS_WAITING else rq_status (st x)))"
  using assms(2)
proof (induction "length running" arbitrary: running st wq)
  case 0
  then show ?case by (simp add: trim_running.simps)
next
  case (Suc k)
  show ?case
  proof (cases "length running > n")
    case True
    define xs where "xs = butlast running"
    define x where "x = last running"
    have r: "running = xs @ [x]" using Suc.hyps(2) by (simp add: xs_def x_def) (metis append_butlast_last_id length_0_conv nat.distinct(1))
    have "trim_running Q n (set_status x RS_WAITING st) (q_prepend Q x wq) xs = (st', wq', running')"
      using Suc.prems True by (subst (asm) trim_running.simps) (simp add: xs_def x_def)
    from Suc.hyps(1) [OF _ this] Suc.hyps(2) r True show ?thesis
      by (auto simp: law_prepend [OF assms(1)] set_status_def)
  next
    case False
    with Suc.prems show ?thesis by (subst (asm) trim_running.simps) simp
  qed
qed

text \<open>The coordinator as the queue passes see it.\<close>

definition announced :: "string set \<Rightarrow> string set \<Rightarrow> SchedulingCoordinator \<Rightarrow> SchedulingCoordinator" where
  "announced ready fin c = c\<lparr>sc_finished_requests := sc_finished_requests c \<union> (fin - ready)\<rparr>"

lemma pending_chunks_run:
  assumes "queue_laws Q" "distinct (q_items Q wq @ running)" "sc_stage_id c \<noteq> 0" "sc_async_chunk c"
      and "sc_chunk_waiting c = []" "sc_chunk_running c = []"
      and "process_pending_chunks Q ready fin now (c, st, wq, running) = (c', st', wq', running')"
  defines "S \<equiv> stays (announced ready fin c) st ready"
  shows "running' = take (sc_max_num_seqs c) (List.filter S running) \<and>
     mset (q_items Q wq') = mset (List.filter S (q_items Q wq)) + mset (drop (sc_max_num_seqs c) (List.filter S running)) \<and>
     sc_chunk_waiting c' = List.filter (\<lambda>r. \<not> S r) (q_items Q wq) \<and>
     sc_chunk_running c' = List.filter (\<lambda>r. \<not> S r) running \<and>
     sc_waiting_for_input c' = sc_waiting_for_input c \<and> sc_finished_requests c' = sc_finished_requests c \<union> fin \<and>
     (\<forall>x \<in> set (q_items Q wq). rq_status (st' x) = next_status RS_WAITING (announced ready fin c) st ready x) \<and>
     (\<forall>x \<in> set running. rq_status (st' x) = (if x \<in> set (drop (sc_max_num_seqs c) (List.filter S running)) then RS_WAITING
        else next_status RS_RUNNING (announced ready fin c) st ready x))"
proof -
  define c1 where "c1 = c\<lparr>sc_finished_requests := sc_finished_requests c \<union> (fin - (ready \<inter> fin)),
    sc_pending_chunk_registrations := []\<rparr>"
  have S1: "stays c1 st ready = S" "next_status t c1 st ready = next_status t (announced ready fin c) st ready" for t
    by (auto simp: S_def stays_def next_status_def announced_def c1_def fun_eq_iff)
  have c1: "sc_chunk_waiting c1 = []" "sc_chunk_running c1 = []" "sc_max_num_seqs c1 = sc_max_num_seqs c"
    "sc_waiting_for_input c1 = sc_waiting_for_input c" "sc_finished_requests c1 = sc_finished_requests c \<union> (fin - ready)"
    using assms(5,6) by (auto simp: c1_def)
  obtain c2 st2 wq2 p2 where w: "fold (process_chunk_request Q RS_WAITING ready now) (q_items Q wq) (c1, st, wq, []) = (c2, st2, wq2, p2)"
    by (metis prod_cases4)
  have dw: "distinct (q_items Q wq)" and dr: "distinct running" and dis: "set (q_items Q wq) \<inter> set running = {}"
    using assms(2) by simp_all
  note W = chunk_queue_run [OF dw w, unfolded S1 append_Nil]
  define c2' where "c2' = c2\<lparr>sc_chunk_waiting := p2\<rparr>"
  have sr: "stays c2' st2 ready x = S x \<and> next_status t c2' st2 ready x = next_status t (announced ready fin c) st ready x"
    if "x \<in> set running" for x t
    unfolding S1 [symmetric] using W that dis by (intro stays_cong) (auto simp: same_frame_def c2'_def)
  obtain c3 st3 run3 p3 where r: "fold (process_chunk_request running_ops RS_RUNNING ready now) running (c2', st2, running, []) = (c3, st3, run3, p3)"
    by (metis prod_cases4)
  have f: "List.filter (\<lambda>r. \<not> stays c2' st2 ready r) running = List.filter (\<lambda>r. \<not> S r) running"
    using sr by (intro filter_cong) auto
  note R = chunk_queue_run [OF dr r, unfolded f append_Nil]
  have run3: "run3 = List.filter S running"
    using R fold_remove1 [OF dr] by (auto simp: running_ops_def intro!: filter_cong)
  have wq2: "mset (q_items Q wq2) = mset (List.filter S (q_items Q wq))"
    using W fold_remove [OF assms(1)] mset_filter_diff by metis
  obtain st4 wq4 run4 where t: "trim_running Q (sc_max_num_seqs c3) st3 wq2 run3 = (st4, wq4, run4)"
    by (metis prod_cases3)
  note T = trim_run [OF assms(1) t, unfolded run3]
  have n: "sc_max_num_seqs c3 = sc_max_num_seqs c" using W R c1 by (simp add: same_frame_def c2'_def)
  have c2: "sc_chunk_running c2 = []" using W c1(2) by (simp add: same_frame_def)
  have "process_pending_chunks Q ready fin now (c, st, wq, running) =
      (c3\<lparr>sc_chunk_running := p3, sc_finished_requests := sc_finished_requests c3 \<union> (ready \<inter> fin)\<rparr>, st4, wq4, run4)"
    using assms(3-6) w r [unfolded c2'_def] t c2
    by (simp add: process_pending_chunks_def process_chunk_queue_def Let_def c1_def [symmetric] running_items)
  with assms(7) have res: "c' = c3\<lparr>sc_chunk_running := p3, sc_finished_requests := sc_finished_requests c3 \<union> (ready \<inter> fin)\<rparr>"
    "st' = st4" "wq' = wq4" "running' = run4" by simp_all
  have x: "rq_status (st3 x) = next_status RS_WAITING (announced ready fin c) st ready x" if "x \<in> set (q_items Q wq)" for x
    using W R that dis by (auto simp: disjoint_iff)
  have y: "rq_status (st3 x) = next_status RS_RUNNING (announced ready fin c) st ready x" if "x \<in> set running" for x
    using R sr that by simp
  have d: "x \<notin> set (drop k (List.filter S running))" if "x \<in> set (q_items Q wq)" for x k
    using that dis in_set_dropD [of x k "List.filter S running"] by auto
  have cs: "sc_chunk_waiting c' = List.filter (\<lambda>r. \<not> S r) (q_items Q wq)"
    "sc_chunk_running c' = List.filter (\<lambda>r. \<not> S r) running"
    "sc_waiting_for_input c' = sc_waiting_for_input c" "sc_finished_requests c' = sc_finished_requests c \<union> fin"
    using W R c1 by (auto simp: res same_frame_def c2'_def)
  show ?thesis
    unfolding cs unfolding res using T wq2 x y d by (simp add: n)
qed

text \<open>The requests the whole-input gate parks.\<close>

definition gated :: "SchedulingCoordinator \<Rightarrow> store \<Rightarrow> string set \<Rightarrow> string \<Rightarrow> bool" where
  "gated c st recv rid \<longleftrightarrow>
     rq_status (st rid) = RS_WAITING \<and>
       rid \<notin> sc_input_received c \<union> sc_ready_chunks c \<union> sc_finished_requests c \<or>
     rq_status (st rid) = RS_WAITING_FOR_INPUT \<and> rid \<notin> recv"

definition gated_status :: "SchedulingCoordinator \<Rightarrow> store \<Rightarrow> string set \<Rightarrow> string \<Rightarrow> request_status" where
  "gated_status c st recv rid =
     (if gated c st recv rid then RS_WAITING_FOR_INPUT
      else if rq_status (st rid) = RS_WAITING_FOR_INPUT then RS_WAITING else rq_status (st rid))"

definition same_gate :: "SchedulingCoordinator \<Rightarrow> SchedulingCoordinator \<Rightarrow> bool" where
  "same_gate c c' \<longleftrightarrow> sc_input_received c' = sc_input_received c \<and> sc_ready_chunks c' = sc_ready_chunks c \<and>
     sc_finished_requests c' = sc_finished_requests c \<and> sc_chunk_waiting c' = sc_chunk_waiting c \<and>
     sc_chunk_running c' = sc_chunk_running c"

lemma gate_step:
  assumes "gate_input recv now rid (c, st, gone) = (c', st', gone')"
  shows "same_gate c c' \<and> gone' = gone @ (if gated c st recv rid then [rid] else []) \<and>
     sc_waiting_for_input c' = sc_waiting_for_input c @ (if gated c st recv rid then [rid] else []) \<and>
     map fst (sc_pending_input_registrations c') =
       map fst (sc_pending_input_registrations c) @ (if gated c st recv rid then [rid] else []) \<and>
     rq_status (st' rid) = gated_status c st recv rid \<and> (\<forall>x. x \<noteq> rid \<longrightarrow> st' x = st x)"
  using assms
  by (auto simp: gate_input_def gated_def gated_status_def same_gate_def set_status_def Let_def split: if_splits)

lemma gate_run:
  assumes "distinct rs" "fold (gate_input recv now) rs (c, st, gone) = (c', st', gone')"
  shows "same_gate c c' \<and> gone' = gone @ List.filter (gated c st recv) rs \<and>
     sc_waiting_for_input c' = sc_waiting_for_input c @ List.filter (gated c st recv) rs \<and>
     map fst (sc_pending_input_registrations c') =
       map fst (sc_pending_input_registrations c) @ List.filter (gated c st recv) rs \<and>
     (\<forall>x \<in> set rs. rq_status (st' x) = gated_status c st recv x) \<and> (\<forall>x. x \<notin> set rs \<longrightarrow> st' x = st x)"
  using assms
proof (induction rs arbitrary: c st gone)
  case (Cons r rs)
  obtain c1 st1 g1 where one: "gate_input recv now r (c, st, gone) = (c1, st1, g1)" by (metis prod_cases3)
  note s = gate_step [OF one]
  have i: "same_gate c1 c' \<and> gone' = g1 @ List.filter (gated c1 st1 recv) rs \<and>
     sc_waiting_for_input c' = sc_waiting_for_input c1 @ List.filter (gated c1 st1 recv) rs \<and>
     map fst (sc_pending_input_registrations c') =
       map fst (sc_pending_input_registrations c1) @ List.filter (gated c1 st1 recv) rs \<and>
     (\<forall>x \<in> set rs. rq_status (st' x) = gated_status c1 st1 recv x) \<and> (\<forall>x. x \<notin> set rs \<longrightarrow> st' x = st1 x)"
    using Cons.IH Cons.prems one by simp
  have e: "gated c1 st1 recv x = gated c st recv x \<and> gated_status c1 st1 recv x = gated_status c st recv x"
    if "x \<in> set rs" for x
    using s Cons.prems(1) that by (auto simp: gated_def gated_status_def same_gate_def)
  then have f: "List.filter (gated c1 st1 recv) rs = List.filter (gated c st recv) rs" by (intro filter_cong) auto
  have "rq_status (st' r) = gated_status c st recv r" using s i Cons.prems(1) by simp
  moreover have "same_gate c c'" using s i by (simp add: same_gate_def)
  ultimately show ?case using s i f e by auto
qed (simp add: same_gate_def)

section \<open>What a cycle promises\<close>

text \<open>
  C16: The chunk gate is exact and loses nothing.  Whatever the waiting queue's policy, a cycle of an
  asynchronous stage parks exactly the requests that need a chunk: those without one ready now or
  before, not finished receiving and not waiting for an input, plus those already waiting for a chunk
  that did not arrive.  Parked requests wait for a chunk, the running list respects its capacity, and
  after the queues are restored the two of them hold exactly the requests they held before.
\<close>

theorem chunk_cycle_exact:
  assumes "queue_laws Q" "distinct (q_items Q wq @ running)" "sc_stage_id c \<noteq> 0" "sc_async_chunk c"
      and "sc_chunk_waiting c = []" "sc_chunk_running c = []" "sc_waiting_for_input c = []"
      and "process_pending_chunks Q ready fin now (c, st, wq, running) = (c', st', wq', running')"
      and "restore_queues Q (c', wq', running') = (c'', wq'', running'')"
  shows "(\<forall>r \<in> set (q_items Q wq @ running).
        r \<in> set (sc_chunk_waiting c' @ sc_chunk_running c') \<longleftrightarrow>
          r \<notin> ready \<and> (rq_status (st r) = RS_WAITING_FOR_CHUNK \<or>
            r \<notin> sc_ready_chunks c \<union> sc_finished_requests c \<union> fin \<and> rq_status (st r) \<noteq> RS_WAITING_FOR_INPUT)) \<and>
     (\<forall>r \<in> set (sc_chunk_waiting c' @ sc_chunk_running c'). rq_status (st' r) = RS_WAITING_FOR_CHUNK) \<and>
     length running' \<le> sc_max_num_seqs c \<and>
     mset (q_items Q wq'') + mset running'' = mset (q_items Q wq) + mset running \<and>
     sc_chunk_waiting c'' = [] \<and> sc_chunk_running c'' = [] \<and> sc_waiting_for_input c'' = []"
proof -
  let ?c = "announced ready fin c"
  let ?S = "stays ?c st ready"
  let ?n = "sc_max_num_seqs c"
  note p = pending_chunks_run [OF assms(1-6,8)]
  have parked: "r \<in> set (sc_chunk_waiting c' @ sc_chunk_running c') \<longleftrightarrow> \<not> ?S r" if "r \<in> set (q_items Q wq @ running)" for r
    using p that by auto
  moreover have "\<not> ?S r \<longleftrightarrow> r \<notin> ready \<and> (rq_status (st r) = RS_WAITING_FOR_CHUNK \<or>
      r \<notin> sc_ready_chunks c \<union> sc_finished_requests c \<union> fin \<and> rq_status (st r) \<noteq> RS_WAITING_FOR_INPUT)" for r
    by (auto simp: stays_def announced_def)
  moreover have "rq_status (st' r) = RS_WAITING_FOR_CHUNK" if "r \<in> set (sc_chunk_waiting c' @ sc_chunk_running c')" for r
    using p that in_set_dropD [of r ?n "List.filter ?S running"] by (auto simp: next_status_def)
  moreover have "mset (q_items Q wq'') + mset running'' = mset (q_items Q wq) + mset running"
  proof -
    have "mset (q_items Q wq'') + mset running'' =
        (mset (q_items Q wq') + mset (sc_chunk_waiting c')) + (mset running' + mset (sc_chunk_running c'))"
      using assms(9) p assms(7) by (auto simp: restore_queues_def fold_add [OF assms(1)])
    also have "\<dots> = mset (List.filter ?S (q_items Q wq)) + mset (drop ?n (List.filter ?S running)) +
        mset (List.filter (\<lambda>r. \<not> ?S r) (q_items Q wq)) +
        (mset (take ?n (List.filter ?S running)) + mset (List.filter (\<lambda>r. \<not> ?S r) running))" using p by simp
    also have "\<dots> = (mset (List.filter ?S (q_items Q wq)) + mset (List.filter (\<lambda>r. \<not> ?S r) (q_items Q wq))) +
        ((mset (take ?n (List.filter ?S running)) + mset (drop ?n (List.filter ?S running))) +
         mset (List.filter (\<lambda>r. \<not> ?S r) running))" by (simp only: ac_simps)
    also have "mset (take ?n (List.filter ?S running)) + mset (drop ?n (List.filter ?S running)) = mset (List.filter ?S running)"
      by (metis append_take_drop_id mset_append)
    finally show ?thesis by (metis mset_filter multiset_partition)
  qed
  ultimately show ?thesis using p assms(9) by (auto simp: restore_queues_def)
qed

text \<open>
  The input gate is exact and loses nothing.  In a cycle of a stage that needs whole inputs, a
  request of the waiting queue is parked exactly when it is waiting and its input has not been
  received (now or before) nor is it otherwise marked ready or finished, or when it already waits for
  an input that has not arrived now.  Exactly the parked requests are registered for reception, those
  whose input arrived are waiting again, and after the restore the waiting queue holds exactly the
  requests it held before.
\<close>

theorem input_cycle_exact:
  assumes "queue_laws Q" "distinct (q_items Q wq)" "sc_stage_id c \<noteq> 0" "\<not> sc_async_chunk c"
      and "sc_chunk_waiting c = []" "sc_chunk_running c = []" "sc_waiting_for_input c = []"
      and "process_pending_full_payload_inputs Q recv now (c, st, wq) = (c', st', wq')"
      and "restore_queues Q (c', wq', running) = (c'', wq'', running'')"
  shows "(\<forall>r \<in> set (q_items Q wq). r \<in> set (sc_waiting_for_input c') \<longleftrightarrow>
        r \<notin> recv \<and> (rq_status (st r) = RS_WAITING_FOR_INPUT \<or> rq_status (st r) = RS_WAITING \<and>
          r \<notin> sc_input_received c \<union> sc_ready_chunks c \<union> sc_finished_requests c)) \<and>
     map fst (sc_pending_input_registrations c') = sc_waiting_for_input c' \<and>
     (\<forall>r \<in> set (q_items Q wq) \<inter> recv. rq_status (st r) = RS_WAITING_FOR_INPUT \<longrightarrow> rq_status (st' r) = RS_WAITING) \<and>
     mset (q_items Q wq'') = mset (q_items Q wq) \<and> running'' = running \<and> sc_waiting_for_input c'' = []"
proof -
  define c1 where "c1 = c\<lparr>sc_input_received := sc_input_received c \<union> recv,
    sc_finished_requests := sc_finished_requests c \<union> recv, sc_pending_input_registrations := [], sc_waiting_for_input := []\<rparr>"
  let ?g = "gated c1 st recv"
  obtain c2 st2 gone where f: "fold (gate_input recv now) (q_items Q wq) (c1, st, []) = (c2, st2, gone)" by (metis prod_cases3)
  note g = gate_run [OF assms(2) f]
  have res: "c' = c2" "st' = st2" "wq' = (if gone = [] then wq else q_remove_all Q gone wq)"
    using assms(3,4,7,8) f by (simp_all add: process_pending_full_payload_inputs_def Let_def c1_def [symmetric])
  have c1: "sc_waiting_for_input c1 = []" "sc_pending_input_registrations c1 = []" "sc_chunk_waiting c1 = []" "sc_chunk_running c1 = []"
    using assms(5,6) by (simp_all add: c1_def)
  have w: "sc_waiting_for_input c' = List.filter ?g (q_items Q wq)" "gone = List.filter ?g (q_items Q wq)"
    using g c1 by (simp_all add: res)
  have "filter_mset (\<lambda>r. r \<notin> set gone) (mset (q_items Q wq)) = filter_mset (\<lambda>r. \<not> ?g r) (mset (q_items Q wq))"
    by (intro filter_mset_cong) (auto simp: w)
  then have "mset (q_items Q wq') = filter_mset (\<lambda>r. \<not> ?g r) (mset (q_items Q wq))"
    using law_remove_all [OF assms(1)] by (auto simp: res)
  then have "mset (q_items Q wq'') = mset (q_items Q wq)"
    using assms(9) g c1 w by (auto simp: restore_queues_def fold_add [OF assms(1)] res same_gate_def)
  moreover have "?g r \<longleftrightarrow> r \<notin> recv \<and> (rq_status (st r) = RS_WAITING_FOR_INPUT \<or> rq_status (st r) = RS_WAITING \<and>
      r \<notin> sc_input_received c \<union> sc_ready_chunks c \<union> sc_finished_requests c)" for r
    by (auto simp: gated_def c1_def)
  ultimately show ?thesis using g c1 w assms(9) by (auto simp: restore_queues_def res same_gate_def gated_status_def)
qed

definition sample_store :: store where
  "sample_store = (\<lambda>_. \<lparr>rq_status = RS_WAITING, rq_external_req_id = None, rq_prompt_token_ids = [],
     rq_num_prompt_tokens = 0, rq_all_token_ids = [], rq_output_token_ids = [], rq_num_computed_tokens = 0,
     rq_left_context_size = None\<rparr>)"

definition sample_chunks :: "SchedulingCoordinator \<times> store \<times> string list \<times> string list" where
  "sample_chunks = process_pending_chunks running_ops {''b'', ''d''} {} 5
     (make_scheduling_coordinator 1 1 True, sample_store, [''a''], [''b'', ''d''])"

theorem chunk_cycle_exact_witness:
  "''a'' \<in> set (sc_chunk_waiting (fst sample_chunks) @ sc_chunk_running (fst sample_chunks)) \<and>
   length (snd (snd (snd sample_chunks))) \<le> 1"
proof -
  obtain c' st' wq' running' where p: "sample_chunks = (c', st', wq', running')" by (metis prod_cases4)
  obtain c'' wq'' running'' where r: "restore_queues running_ops (c', wq', running') = (c'', wq'', running'')"
    by (metis prod_cases3)
  have "\<forall>r \<in> set (q_items running_ops [''a''] @ [''b'', ''d'']). r \<in> set (sc_chunk_waiting c' @ sc_chunk_running c') \<longleftrightarrow>
      r \<notin> {''b'', ''d''} \<and> (rq_status (sample_store r) = RS_WAITING_FOR_CHUNK \<or>
        r \<notin> sc_ready_chunks (make_scheduling_coordinator 1 1 True) \<union>
          sc_finished_requests (make_scheduling_coordinator 1 1 True) \<union> {} \<and>
        rq_status (sample_store r) \<noteq> RS_WAITING_FOR_INPUT)"
    and "length running' \<le> sc_max_num_seqs (make_scheduling_coordinator 1 1 True)"
    using chunk_cycle_exact [OF running_laws _ _ _ _ _ _ p [unfolded sample_chunks_def] r]
    by (simp_all add: running_items make_scheduling_coordinator_def)
  then show ?thesis by (simp add: p running_items make_scheduling_coordinator_def sample_store_def)
qed

theorem input_cycle_exact_witness:
  "sc_waiting_for_input (fst (process_pending_full_payload_inputs running_ops {''b''} 5
     (make_scheduling_coordinator 1 1 False, sample_store, [''a'', ''b'']))) \<noteq> []"
proof -
  let ?c = "make_scheduling_coordinator 1 1 False"
  obtain c' st' wq' where p: "process_pending_full_payload_inputs running_ops {''b''} 5 (?c, sample_store, [''a'', ''b'']) =
      (c', st', wq')" by (metis prod_cases3)
  obtain c'' wq'' running'' where r: "restore_queues running_ops (c', wq', []) = (c'', wq'', running'')"
    by (metis prod_cases3)
  have "''a'' \<in> set (sc_waiting_for_input c') \<longleftrightarrow> ''a'' \<notin> {''b''} \<and>
      (rq_status (sample_store ''a'') = RS_WAITING_FOR_INPUT \<or> rq_status (sample_store ''a'') = RS_WAITING \<and>
        ''a'' \<notin> sc_input_received ?c \<union> sc_ready_chunks ?c \<union> sc_finished_requests ?c)"
    using input_cycle_exact [OF running_laws _ _ _ _ _ _ p r]
    by (simp add: running_items make_scheduling_coordinator_def)
  then have "''a'' \<in> set (sc_waiting_for_input c')" by (simp add: make_scheduling_coordinator_def sample_store_def)
  then show ?thesis unfolding p by auto
qed

end
