(* ===== verification/Cfg_Companions.thy ===== *)
theory Cfg_Companions
  imports Omni_Prelude "HOL-Library.Multiset"
begin

text \<open>
  Classifier-free guidance companions (\<^verbatim>\<open>engine/cfg_companion_tracker.py\<close>) and the gate of the
  orchestrator that uses them (\<^verbatim>\<open>engine/orchestrator.py\<close>): a parent request that finishes its stage is
  held back until all its companions have finished, and is then forwarded with their outputs.

  Of the orchestrator the model has the decision to defer or forward and the flush of a deferred
  parent; that the next stage was already submitted is read off the record of what was forwarded.
\<close>

section \<open>The tracker\<close>

record 'o Tracker =
  ct_companion_map :: "(string, (string, string) dict) dict"
  ct_companion_ids :: "string set"
  ct_companion_to_parent :: "(string, string) dict"
  ct_done :: "(string, string set) dict"
  ct_pending_parents :: "(string, 'o \<times> int) dict"
  ct_companion_outputs :: "(string, 'o) dict"

definition empty_tracker :: "'o Tracker" where
  "empty_tracker = \<lparr>ct_companion_map = [], ct_companion_ids = {}, ct_companion_to_parent = [], ct_done = [],
     ct_pending_parents = [], ct_companion_outputs = []\<rparr>"

definition is_companion :: "string \<Rightarrow> 'o Tracker \<Rightarrow> bool" where
  "is_companion rid T \<longleftrightarrow> rid \<in> ct_companion_ids T"

definition get_parent_id :: "string \<Rightarrow> 'o Tracker \<Rightarrow> string option" where
  "get_parent_id rid T = dict_get (ct_companion_to_parent T) rid"

definition has_companions :: "string \<Rightarrow> 'o Tracker \<Rightarrow> bool" where
  "has_companions p T \<longleftrightarrow> dict_get (ct_companion_map T) p \<noteq> None"

definition get_companion_request_ids :: "string \<Rightarrow> 'o Tracker \<Rightarrow> (string, string) dict" where
  "get_companion_request_ids p T = (case dict_get (ct_companion_map T) p of None \<Rightarrow> [] | Some roles \<Rightarrow> roles)"

definition all_companions_done :: "string \<Rightarrow> 'o Tracker \<Rightarrow> bool" where
  "all_companions_done p T =
     (let done_set = (case dict_get (ct_done T) p of None \<Rightarrow> {} | Some s \<Rightarrow> s)
      in list_all (\<lambda>cid. cid \<in> done_set) (dict_values (get_companion_request_ids p T)))"

definition dict_setdefault :: "'k \<Rightarrow> 'v \<Rightarrow> ('k, 'v) dict \<Rightarrow> ('k, 'v) dict" where
  "dict_setdefault k v d = (if dict_get d k = None then dict_set k v d else d)"

definition register_parent :: "string \<Rightarrow> 'o Tracker \<Rightarrow> 'o Tracker" where
  "register_parent p T = T\<lparr>ct_companion_map := dict_setdefault p [] (ct_companion_map T),
     ct_done := dict_setdefault p {} (ct_done T)\<rparr>"

definition register_companion :: "string \<Rightarrow> string \<Rightarrow> string \<Rightarrow> 'o Tracker \<Rightarrow> 'o Tracker" where
  "register_companion p role cid T =
     (let T1 = register_parent p T
      in T1\<lparr>ct_companion_map := dict_set p (dict_set role cid (get_companion_request_ids p T1)) (ct_companion_map T1),
            ct_companion_ids := insert cid (ct_companion_ids T1),
            ct_companion_to_parent := dict_set cid p (ct_companion_to_parent T1)\<rparr>)"

definition set_companion_output :: "string \<Rightarrow> 'o \<Rightarrow> 'o Tracker \<Rightarrow> 'o Tracker" where
  "set_companion_output cid out T = T\<lparr>ct_companion_outputs := dict_set cid out (ct_companion_outputs T)\<rparr>"

fun pop_outputs :: "string list \<Rightarrow> (string, 'o) dict \<Rightarrow> 'o list \<times> (string, 'o) dict" where
  "pop_outputs [] d = ([], d)"
| "pop_outputs (cid # cids) d =
     (case pop_outputs cids (dict_del cid d) of
        (outs, d') \<Rightarrow> (case dict_get d cid of None \<Rightarrow> outs | Some out \<Rightarrow> out # outs, d'))"

definition pop_companion_outputs :: "string \<Rightarrow> 'o Tracker \<Rightarrow> 'o list \<times> 'o Tracker" where
  "pop_companion_outputs p T =
     (case pop_outputs (dict_values (get_companion_request_ids p T)) (ct_companion_outputs T) of
        (outs, d) \<Rightarrow> (outs, T\<lparr>ct_companion_outputs := d\<rparr>))"

definition on_companion_completed :: "string \<Rightarrow> 'o Tracker \<Rightarrow> (py_exc + string option) \<times> 'o Tracker" where
  "on_companion_completed cid T =
     (case dict_get (ct_companion_to_parent T) cid of
        None \<Rightarrow> (Inr None, T)
      | Some p \<Rightarrow>
          (case dict_get (ct_done T) p of
             None \<Rightarrow> (Inl AssertionError, T)
           | Some s \<Rightarrow>
               if cid \<in> s then (Inr None, T)
               else (let T1 = T\<lparr>ct_done := dict_set p (insert cid s) (ct_done T)\<rparr>
                     in (Inr (if dict_get (ct_pending_parents T1) p \<noteq> None \<and> all_companions_done p T1 then Some p else None),
                         T1))))"

definition defer_parent :: "string \<Rightarrow> 'o \<Rightarrow> int \<Rightarrow> 'o Tracker \<Rightarrow> 'o Tracker" where
  "defer_parent p out sid T = T\<lparr>ct_pending_parents := dict_set p (out, sid) (ct_pending_parents T)\<rparr>"

definition pop_pending_parent :: "string \<Rightarrow> 'o Tracker \<Rightarrow> ('o \<times> int) option \<times> 'o Tracker" where
  "pop_pending_parent p T =
     (dict_get (ct_pending_parents T) p, T\<lparr>ct_pending_parents := dict_del p (ct_pending_parents T)\<rparr>)"

definition drop_companion :: "string \<Rightarrow> 'o Tracker \<Rightarrow> 'o Tracker" where
  "drop_companion cid T = T\<lparr>ct_companion_ids := ct_companion_ids T - {cid},
     ct_companion_to_parent := dict_del cid (ct_companion_to_parent T),
     ct_companion_outputs := dict_del cid (ct_companion_outputs T)\<rparr>"

definition cleanup_parent :: "string \<Rightarrow> 'o Tracker \<Rightarrow> string list \<times> 'o Tracker" where
  "cleanup_parent p T =
     (let cids = dict_values (get_companion_request_ids p T);
          T1 = fold drop_companion cids (T\<lparr>ct_companion_map := dict_del p (ct_companion_map T)\<rparr>)
      in (cids, T1\<lparr>ct_done := dict_del p (ct_done T1), ct_pending_parents := dict_del p (ct_pending_parents T1)\<rparr>))"

text \<open>The parents to clean up are a Python set, whose order is the argument \<open>ps\<close>.\<close>

definition abort_targets :: "string list \<Rightarrow> 'o Tracker \<Rightarrow> string set" where
  "abort_targets rids T = {r \<in> set rids. r \<notin> ct_companion_ids T}"

definition abort_step :: "string \<Rightarrow> string list \<times> 'o Tracker \<Rightarrow> string list \<times> 'o Tracker" where
  "abort_step p = (\<lambda>(all, T). case cleanup_parent p T of
     (cids, T') \<Rightarrow> (fold (\<lambda>cid acc. if cid \<in> set acc then acc else acc @ [cid]) cids all, T'))"

definition abort_parents :: "string list \<Rightarrow> string list \<Rightarrow> 'o Tracker \<Rightarrow> string list \<times> 'o Tracker" where
  "abort_parents ps rids T = fold abort_step ps (rids, T)"

section \<open>The gate of the orchestrator\<close>

record 'o Gate =
  g_tracker :: "'o Tracker"
  g_forwarded :: "(string \<times> 'o \<times> 'o list) list"   \<comment> \<open>parent, its output, the companions' outputs\<close>

definition next_stage_submitted :: "string \<Rightarrow> 'o Gate \<Rightarrow> bool" where
  "next_stage_submitted p G \<longleftrightarrow> p \<in> fst ` set (g_forwarded G)"

definition forward_to_next_stage :: "string \<Rightarrow> 'o \<Rightarrow> 'o Gate \<Rightarrow> 'o Gate" where
  "forward_to_next_stage p out G =
     (case pop_companion_outputs p (g_tracker G) of
        (outs, T) \<Rightarrow> \<lparr>g_tracker = T, g_forwarded = g_forwarded G @ [(p, out, outs)]\<rparr>)"

definition handle_cfg_companion_ready :: "string \<Rightarrow> 'o Gate \<Rightarrow> (py_exc + unit) \<times> 'o Gate" where
  "handle_cfg_companion_ready cid G =
     (case on_companion_completed cid (g_tracker G) of
        (Inl e, T) \<Rightarrow> (Inl e, G\<lparr>g_tracker := T\<rparr>)
      | (Inr None, T) \<Rightarrow> (Inr (), G\<lparr>g_tracker := T\<rparr>)
      | (Inr (Some p), T) \<Rightarrow>
          (case pop_pending_parent p T of
             (None, T') \<Rightarrow> (Inr (), G\<lparr>g_tracker := T'\<rparr>)
           | (Some (out, sid), T') \<Rightarrow>
               if next_stage_submitted p G then (Inr (), G\<lparr>g_tracker := T'\<rparr>)
               else (Inr (), forward_to_next_stage p out (G\<lparr>g_tracker := T'\<rparr>))))"

text \<open>
  A finished output of a stage before the last, without streaming and without asynchronous chunks,
  where the next stage is a diffusion stage.
\<close>

definition route_parent :: "string \<Rightarrow> 'o \<Rightarrow> int \<Rightarrow> 'o Gate \<Rightarrow> 'o Gate" where
  "route_parent rid out sid G =
     (if next_stage_submitted rid G then G
      else if has_companions rid (g_tracker G) \<and> \<not> all_companions_done rid (g_tracker G)
      then G\<lparr>g_tracker := defer_parent rid out sid (g_tracker G)\<rparr>
      else forward_to_next_stage rid out G)"

definition route_finished :: "string \<Rightarrow> 'o \<Rightarrow> int \<Rightarrow> 'o Gate \<Rightarrow> (py_exc + unit) \<times> 'o Gate" where
  "route_finished rid out sid G =
     (if is_companion rid (g_tracker G)
      then handle_cfg_companion_ready rid (G\<lparr>g_tracker := set_companion_output rid out (g_tracker G)\<rparr>)
      else (Inr (), route_parent rid out sid G))"

definition route_all :: "(string \<times> 'o) list \<Rightarrow> int \<Rightarrow> 'o Gate \<Rightarrow> 'o Gate" where
  "route_all es sid G = fold (\<lambda>(rid, out) H. snd (route_finished rid out sid H)) es G"

section \<open>One parent and its companions\<close>

lemma pop_outputs_run:
  "distinct cids \<Longrightarrow> (\<And>c. c \<in> set cids \<Longrightarrow> dict_get d c = Some (f c)) \<Longrightarrow> fst (pop_outputs cids d) = map f cids"
proof (induction cids arbitrary: d)
  case (Cons c cids)
  have "fst (pop_outputs cids (dict_del c d)) = map f cids"
    using Cons.prems by (intro Cons.IH) (auto simp: dict_simps)
  then show ?case using Cons.prems(2) [of c] by (simp add: case_prod_unfold)
qed simp

text \<open>The parent with its companions in role order, as registration leaves them.\<close>

definition tracks :: "string \<Rightarrow> string list \<Rightarrow> 'o Tracker \<Rightarrow> bool" where
  "tracks p cids T \<longleftrightarrow> has_companions p T \<and> dict_values (get_companion_request_ids p T) = cids \<and> distinct cids \<and>
     p \<notin> ct_companion_ids T \<and> (\<forall>c \<in> set cids. c \<in> ct_companion_ids T \<and> dict_get (ct_companion_to_parent T) c = Some p)"

text \<open>The state after the outputs \<open>es\<close> of this group, while not all of them have come.\<close>

definition holding :: "string \<Rightarrow> string list \<Rightarrow> int \<Rightarrow> (string \<times> 'o) list \<Rightarrow> 'o Gate \<Rightarrow> bool" where
  "holding p cids sid es G \<longleftrightarrow> tracks p cids (g_tracker G) \<and>
     dict_get (ct_done (g_tracker G)) p = Some (set cids \<inter> fst ` set es) \<and>
     (\<forall>c \<in> set cids. dict_get (ct_companion_outputs (g_tracker G)) c = map_of es c) \<and>
     dict_get (ct_pending_parents (g_tracker G)) p = map_option (\<lambda>out. (out, sid)) (map_of es p) \<and>
     \<not> next_stage_submitted p G"

lemma tracks_frame [simp]:
  "tracks p cids (T\<lparr>ct_done := a\<rparr>) = tracks p cids T"
  "tracks p cids (T\<lparr>ct_pending_parents := b\<rparr>) = tracks p cids T"
  "tracks p cids (T\<lparr>ct_companion_outputs := c\<rparr>) = tracks p cids T"
  by (simp_all add: tracks_def has_companions_def get_companion_request_ids_def)

lemma tracked_done:
  "tracks p cids T \<Longrightarrow> dict_get (ct_done T) p = Some s \<Longrightarrow> all_companions_done p T \<longleftrightarrow> set cids \<subseteq> s"
  by (auto simp: all_companions_done_def tracks_def list_all_iff)

lemma map_of_snoc: "c \<notin> fst ` set es \<Longrightarrow> map_of (es @ [(c, out)]) x = (if x = c then Some out else map_of es x)"
  by (induction es) auto

lemma forward_holding:
  assumes "tracks p cids (g_tracker G)" "\<forall>c \<in> set cids. dict_get (ct_companion_outputs (g_tracker G)) c = Some (f c)"
  shows "g_forwarded (forward_to_next_stage p out G) = g_forwarded G @ [(p, out, map f cids)]"
  using assms pop_outputs_run [of cids "ct_companion_outputs (g_tracker G)" f]
  by (auto simp: forward_to_next_stage_def pop_companion_outputs_def tracks_def split: prod.splits)

lemma group_step:
  assumes h: "holding p cids sid es G" and new: "rid \<notin> fst ` set es" and mem: "rid = p \<or> rid \<in> set cids"
  shows "if insert p (set cids) \<subseteq> insert rid (fst ` set es)
     then g_forwarded (snd (route_finished rid out sid G)) =
       g_forwarded G @ [(p, the (map_of (es @ [(rid, out)]) p), map (\<lambda>c. the (map_of (es @ [(rid, out)]) c)) cids)]
     else holding p cids sid (es @ [(rid, out)]) (snd (route_finished rid out sid G)) \<and>
       g_forwarded (snd (route_finished rid out sid G)) = g_forwarded G"
proof -
  let ?T = "g_tracker G" and ?es = "es @ [(rid, out)]"
  have t: "tracks p cids ?T" and d: "dict_get (ct_done ?T) p = Some (set cids \<inter> fst ` set es)"
    and o1: "\<forall>c \<in> set cids. dict_get (ct_companion_outputs ?T) c = map_of es c"
    and pend: "dict_get (ct_pending_parents ?T) p = map_option (\<lambda>out. (out, sid)) (map_of es p)"
    and sub: "\<not> next_stage_submitted p G" using h by (simp_all add: holding_def)
  have pc: "p \<notin> set cids" using t by (auto simp: tracks_def)
  have known: "map_of ?es c = Some (the (map_of ?es c))" if "insert p (set cids) \<subseteq> insert rid (fst ` set es)" "c \<in> insert p (set cids)" for c
    using that by (cases "map_of ?es c") (auto simp: map_of_eq_None_iff map_add_def split: option.splits)
  consider (parent) "rid = p" | (companion) "rid \<in> set cids" "rid \<noteq> p" using mem pc by blast
  then show ?thesis
  proof cases
    case parent
    have nc: "\<not> is_companion rid ?T" using t parent by (simp add: tracks_def is_companion_def)
    have all: "all_companions_done rid ?T \<longleftrightarrow> set cids \<subseteq> fst ` set es" using tracked_done [OF t d] parent by auto
    have hc: "has_companions rid ?T" using t parent by (simp add: tracks_def)
    show ?thesis
    proof (cases "set cids \<subseteq> fst ` set es")
      case True
      then have c: "insert p (set cids) \<subseteq> insert rid (fst ` set es)" using parent by auto
      have "\<forall>c \<in> set cids. dict_get (ct_companion_outputs ?T) c = Some (the (map_of ?es c))"
        using o1 known [OF c] map_of_snoc [OF new, of out] parent pc by (metis insert_iff)
      from forward_holding [OF t this, of out] show ?thesis
        using True c nc all hc sub parent map_of_snoc [OF new, of out] by (simp add: route_finished_def route_parent_def)
    next
      case False
      then have "\<not> insert p (set cids) \<subseteq> insert rid (fst ` set es)" using parent pc by auto
      moreover have "holding p cids sid ?es (G\<lparr>g_tracker := defer_parent rid out sid ?T\<rparr>)"
        using t d o1 sub parent pc map_of_snoc [OF new, of out]
        by (auto simp: holding_def defer_parent_def dict_simps next_stage_submitted_def)
      ultimately show ?thesis using False nc all hc sub parent by (simp add: route_finished_def route_parent_def)
    qed
  next
    case companion
    define T1 where "T1 = set_companion_output rid out ?T"
    define s where "s = set cids \<inter> fst ` set es"
    define T2 where "T2 = T1\<lparr>ct_done := dict_set p (insert rid s) (ct_done T1)\<rparr>"
    have ic: "is_companion rid ?T" "dict_get (ct_companion_to_parent T1) rid = Some p" "rid \<notin> s"
      "dict_get (ct_done T1) p = Some s"
      using t companion(1) new d by (simp_all add: tracks_def is_companion_def T1_def set_companion_output_def s_def)
    have t2: "tracks p cids T2" and d2: "dict_get (ct_done T2) p = Some (insert rid s)"
      and p2: "dict_get (ct_pending_parents T2) p = map_option (\<lambda>out. (out, sid)) (map_of es p)"
      using t pend by (simp_all add: T2_def T1_def set_companion_output_def dict_simps)
    have o2: "\<forall>c \<in> set cids. dict_get (ct_companion_outputs T2) c = map_of ?es c"
      using o1 map_of_snoc [OF new, of out] by (simp add: T2_def T1_def set_companion_output_def dict_simps)
    have s2: "insert rid s = set cids \<inter> fst ` set ?es" using companion(1) by (auto simp: s_def)
    have all: "all_companions_done p T2 \<longleftrightarrow> set cids \<subseteq> insert rid (fst ` set es)"
      using tracked_done [OF t2 d2] by (auto simp: s_def)
    have occ: "on_companion_completed rid T1 =
        (Inr (if map_of es p \<noteq> None \<and> set cids \<subseteq> insert rid (fst ` set es) then Some p else None), T2)"
      using ic all p2 by (simp add: on_companion_completed_def Let_def T2_def [symmetric])
    have complete: "insert p (set cids) \<subseteq> insert rid (fst ` set es) \<longleftrightarrow>
        map_of es p \<noteq> None \<and> set cids \<subseteq> insert rid (fst ` set es)"
      using companion(2) by (auto simp: map_of_eq_None_iff)
    have r: "route_finished rid out sid G = handle_cfg_companion_ready rid (G\<lparr>g_tracker := T1\<rparr>)"
      using ic(1) by (simp add: route_finished_def T1_def)
    show ?thesis
    proof (cases "insert p (set cids) \<subseteq> insert rid (fst ` set es)")
      case True
      then obtain po where po: "map_of es p = Some po" using complete by blast
      let ?H = "G\<lparr>g_tracker := T2\<lparr>ct_pending_parents := dict_del p (ct_pending_parents T2)\<rparr>\<rparr>"
      have "route_finished rid out sid G = (Inr (), forward_to_next_stage p po ?H)"
        using True occ complete po p2 sub
        by (simp add: r handle_cfg_companion_ready_def pop_pending_parent_def next_stage_submitted_def)
      moreover have "g_forwarded (forward_to_next_stage p po ?H) =
          g_forwarded ?H @ [(p, po, map (\<lambda>c. the (map_of ?es c)) cids)]"
        using t2 o2 known [OF True] by (intro forward_holding) auto
      ultimately show ?thesis using True po map_of_snoc [OF new, of out] companion(2) by simp
    next
      case False
      then have "\<not> (map_of es p \<noteq> None \<and> set cids \<subseteq> insert rid (fst ` set es))" using complete by blast
      with occ have "on_companion_completed rid T1 = (Inr None, T2)" by (simp only: if_False)
      then have "snd (route_finished rid out sid G) = G\<lparr>g_tracker := T2\<rparr>"
        by (simp add: r handle_cfg_companion_ready_def)
      moreover have "holding p cids sid ?es (G\<lparr>g_tracker := T2\<rparr>)"
        using t2 d2 o2 p2 s2 sub companion(2) map_of_snoc [OF new, of out] by (simp add: holding_def next_stage_submitted_def)
      ultimately show ?thesis using False by simp
    qed
  qed
qed

lemma group_prefix:
  assumes "holding p cids sid [] G" "distinct (map fst es)" "fst ` set es \<subseteq> insert p (set cids)"
      and "\<not> insert p (set cids) \<subseteq> fst ` set es"
  shows "holding p cids sid es (route_all es sid G) \<and> g_forwarded (route_all es sid G) = g_forwarded G"
  using assms(2-4)
proof (induction es rule: rev_induct)
  case Nil
  then show ?case using assms(1) by (simp add: route_all_def)
next
  case (snoc e es)
  obtain rid out where e: "e = (rid, out)" by fastforce
  have i: "holding p cids sid es (route_all es sid G) \<and> g_forwarded (route_all es sid G) = g_forwarded G"
    using snoc by (intro snoc.IH) (auto simp: e)
  have "rid \<notin> fst ` set es" "rid = p \<or> rid \<in> set cids" "\<not> insert p (set cids) \<subseteq> insert rid (fst ` set es)"
    using snoc.prems by (auto simp: e)
  with group_step [of p cids sid es "route_all es sid G" rid out] i
  have "holding p cids sid (es @ [(rid, out)]) (snd (route_finished rid out sid (route_all es sid G))) \<and>
      g_forwarded (snd (route_finished rid out sid (route_all es sid G))) = g_forwarded G" by simp
  then show ?case by (simp add: route_all_def e)
qed

section \<open>What the gate promises\<close>

text \<open>
  C10: A guided request moves on exactly once, with everything it needs, in any order.  Let a parent
  and its companions be registered and none of them finished.  However their finished outputs
  interleave, nothing is forwarded before the last of them, and with the last one the parent is
  forwarded exactly once, with its own output and the outputs of all companions in the order their
  roles were registered.
\<close>

theorem companions_forward_once:
  assumes "holding p cids sid [] G" "mset (map fst es) = mset (p # cids)"
  shows "g_forwarded (route_all es sid G) =
       g_forwarded G @ [(p, the (map_of es p), map (\<lambda>c. the (map_of es c)) cids)] \<and>
     (\<forall>n < length es. g_forwarded (route_all (take n es) sid G) = g_forwarded G)"
proof -
  have t: "tracks p cids (g_tracker G)" using assms(1) by (simp add: holding_def)
  then have dc: "distinct (p # cids)" by (auto simp: tracks_def)
  then have d: "distinct (map fst es)" by (metis assms(2) mset_eq_imp_distinct_iff)
  have st: "fst ` set es = insert p (set cids)" using mset_eq_setD [OF assms(2)] by simp
  have early: "holding p cids sid (take n es) (route_all (take n es) sid G) \<and>
      g_forwarded (route_all (take n es) sid G) = g_forwarded G" if n: "n < length es" for n
  proof (rule group_prefix [OF assms(1)])
    show "distinct (map fst (take n es))" using d by (simp add: take_map [symmetric])
    show "fst ` set (take n es) \<subseteq> insert p (set cids)" using st set_take_subset [of n es] by blast
    have "fst (es ! n) \<notin> set (take n (map fst es))"
      using n distinct_take [of "map fst es" "Suc n"] d by (simp add: take_Suc_conv_app_nth take_map)
    moreover have "fst (es ! n) \<in> insert p (set cids)" using n st by (metis imageI nth_mem)
    ultimately show "\<not> insert p (set cids) \<subseteq> fst ` set (take n es)" by (auto simp: take_map)
  qed
  have ne: "es \<noteq> []" using assms(2) by auto
  obtain fs rid out where es: "es = fs @ [(rid, out)]" using ne by (metis rev_exhaust surj_pair)
  have all: "insert p (set cids) \<subseteq> insert rid (fst ` set fs)" and mem: "rid = p \<or> rid \<in> set cids"
    using st by (auto simp: es)
  have new: "rid \<notin> fst ` set fs" using d by (simp add: es)
  have "holding p cids sid fs (route_all fs sid G) \<and> g_forwarded (route_all fs sid G) = g_forwarded G"
    using early [of "length fs"] by (simp add: es)
  with group_step [OF _ new mem, of sid "route_all fs sid G" out] all
  have "g_forwarded (snd (route_finished rid out sid (route_all fs sid G))) =
      g_forwarded G @ [(p, the (map_of es p), map (\<lambda>c. the (map_of es c)) cids)]"
    unfolding es by simp
  moreover have "route_all es sid G = snd (route_finished rid out sid (route_all fs sid G))"
    by (simp add: route_all_def es)
  ultimately show ?thesis using early by simp
qed

definition sample_gate :: "nat Gate" where
  "sample_gate = \<lparr>g_tracker = register_companion ''p'' ''uncond'' ''c1'' (register_companion ''p'' ''image'' ''c0'' empty_tracker),
     g_forwarded = []\<rparr>"

theorem companions_forward_once_witness:
  "g_forwarded (route_all [(''c1'', 1), (''p'', 7), (''c0'', 2)] 0 sample_gate) = [(''p'', 7, [2, 1])]"
proof -
  have "holding ''p'' [''c0'', ''c1''] 0 [] sample_gate"
    by (simp add: holding_def sample_gate_def tracks_def register_companion_def register_parent_def empty_tracker_def
        dict_setdefault_def has_companions_def get_companion_request_ids_def next_stage_submitted_def Let_def)
  then show ?thesis
    using companions_forward_once [of "''p''" "[''c0'', ''c1'']" 0 sample_gate "[(''c1'', 1), (''p'', 7), (''c0'', 2)]"]
    by (simp add: sample_gate_def)
qed

end
