(* ===== verification/Payload_Keys.thy ===== *)
theory Payload_Keys
  imports Py_Int
begin

text \<open>
  The payloads between language stages (\<^verbatim>\<open>data_entry_keys.py\<close>): the typed struct becomes a
  dictionary, its nested categories become dotted keys, each value becomes an entry of the wire form, and
  the receiver goes the way back.

  Values the code only passes on are atoms of an arbitrary type.  The keys of a Python dict are strings
  or integers here, which is what the payloads use.
\<close>

section \<open>Payloads\<close>

datatype pkey = KS string | KI int

datatype 'v pv = Atom 'v | PDict "(pkey \<times> 'v pv) list"

type_synonym 'v payload = "(string \<times> 'v pv) list"

definition key_text :: "pkey \<Rightarrow> string" where
  "key_text k = (case k of KS s \<Rightarrow> s | KI i \<Rightarrow> str_int i)"

definition NESTED_KEYS :: "string set" where
  "NESTED_KEYS = {''hidden_states'', ''embed'', ''ids'', ''codes'', ''meta''}"

definition layer_prefix :: string where "layer_prefix = ''layer_''"

text \<open>The flat entries of one sub-entry and of one entry, in the order they are stored.\<close>

definition flatten_sub :: "string \<Rightarrow> pkey \<times> 'v pv \<Rightarrow> (string \<times> 'v pv) list" where
  "flatten_sub key = (\<lambda>(q, v).
     case (q = KS ''layers'' \<and> key = ''hidden_states'', v) of
       (True, PDict ls) \<Rightarrow> map (\<lambda>(i, t). (''hidden_states.layer_'' @ key_text i, t)) ls
     | _ \<Rightarrow> [(key @ ''.'' @ key_text q, v)])"

definition flatten_entry :: "string \<times> 'v pv \<Rightarrow> (string \<times> 'v pv) list" where
  "flatten_entry = (\<lambda>(key, v).
     case (key \<in> NESTED_KEYS, v) of
       (True, PDict d) \<Rightarrow> concat (map (flatten_sub key) d)
     | _ \<Rightarrow> [(key, v)])"

definition flatten_payload :: "'v payload \<Rightarrow> 'v payload" where
  "flatten_payload p = fold (\<lambda>(k, v) flat. dict_set k v flat) (concat (map flatten_entry p)) []"

text \<open>\<^verbatim>\<open>key.split('.', 1)\<close> for a key with a dot.\<close>

fun split_dot :: "string \<Rightarrow> string \<times> string" where
  "split_dot [] = ([], [])"
| "split_dot (c # cs) = (if c = CHR ''.'' then ([], cs) else (case split_dot cs of (a, b) \<Rightarrow> (c # a, b)))"

text \<open>
  Storing into the dict found under a key.  A foreign object in its place does not support it; the
  exception is modelled as \<^verbatim>\<open>TypeError\<close>.
\<close>

definition store_layer :: "string \<Rightarrow> 'v pv \<Rightarrow> 'v pv \<Rightarrow> py_exc + 'v pv" where
  "store_layer q v sub =
     (case sub of
        Atom a \<Rightarrow> Inl TypeError
      | PDict d \<Rightarrow>
          (case (case map_of d (KS ''layers'') of None \<Rightarrow> PDict [] | Some l \<Rightarrow> l) of
             Atom a \<Rightarrow> rbind (py_int (drop (length layer_prefix) q)) (\<lambda>i. Inl TypeError)
           | PDict ls \<Rightarrow>
               rbind (py_int (drop (length layer_prefix) q))
                 (\<lambda>i. Inr (PDict (dict_set (KS ''layers'') (PDict (dict_set (KI i) v ls)) d)))))"

definition store_sub :: "string \<Rightarrow> 'v pv \<Rightarrow> 'v pv \<Rightarrow> py_exc + 'v pv" where
  "store_sub q v sub = (case sub of Atom a \<Rightarrow> Inl TypeError | PDict d \<Rightarrow> Inr (PDict (dict_set (KS q) v d)))"

definition unflatten_entry :: "string \<times> 'v pv \<Rightarrow> 'v payload \<Rightarrow> py_exc + 'v payload" where
  "unflatten_entry = (\<lambda>(key, v) res.
     if CHR ''.'' \<in> set key
     then (case split_dot key of
         (ty, q) \<Rightarrow>
           (let sub = (case map_of res ty of None \<Rightarrow> PDict [] | Some s \<Rightarrow> s)
            in rbind (if ty = ''hidden_states'' \<and> py_startswith q layer_prefix then store_layer q v sub
                      else store_sub q v sub)
                 (\<lambda>sub'. Inr (dict_set ty sub' res))))
     else Inr (dict_set key v res))"

fun unflatten_all :: "'v payload \<Rightarrow> 'v payload \<Rightarrow> py_exc + 'v payload" where
  "unflatten_all [] res = Inr res"
| "unflatten_all (e # es) res = rbind (unflatten_entry e res) (unflatten_all es)"

definition unflatten_payload :: "'v payload \<Rightarrow> py_exc + 'v payload" where
  "unflatten_payload flat = unflatten_all flat []"

section \<open>Payloads that survive\<close>

definition is_layer :: "string \<Rightarrow> bool" where
  "is_layer q = py_startswith q layer_prefix"

definition wf_sub :: "string \<Rightarrow> pkey \<times> 'v pv \<Rightarrow> bool" where
  "wf_sub key e = (case e of
     (KI i, v) \<Rightarrow> False
   | (KS q, v) \<Rightarrow> key = ''hidden_states'' \<longrightarrow> \<not> is_layer q \<and>
       (case (q = ''layers'', v) of
          (True, PDict ls) \<Rightarrow> ls \<noteq> [] \<and> distinct (map fst ls) \<and> list_all (\<lambda>(k, t). case k of KI i \<Rightarrow> True | KS s \<Rightarrow> False) ls
        | _ \<Rightarrow> True))"

definition wf_entry :: "string \<times> 'v pv \<Rightarrow> bool" where
  "wf_entry e = (case e of (key, v) \<Rightarrow> CHR ''.'' \<notin> set key \<and>
     (case (key \<in> NESTED_KEYS, v) of
        (True, PDict d) \<Rightarrow> d \<noteq> [] \<and> distinct (map fst d) \<and> list_all (wf_sub key) d
      | _ \<Rightarrow> True))"

definition wf_payload :: "'v payload \<Rightarrow> bool" where
  "wf_payload p \<longleftrightarrow> distinct (map fst p) \<and> list_all wf_entry p"

lemma split_dot_key: "CHR ''.'' \<notin> set key \<Longrightarrow> split_dot (key @ CHR ''.'' # q) = (key, q)"
  by (induction key) auto

lemma layer_drop: "is_layer (''layer_'' @ x) \<and> drop (length layer_prefix) (''layer_'' @ x) = x"
  by (simp add: is_layer_def py_startswith_def layer_prefix_def)

lemma set_last: "map_of res k = None \<Longrightarrow> dict_set k x (res @ [(k, y)]) = res @ [(k, x)]"
  by (induction res) (auto split: if_splits)

lemma map_of_last: "map_of res k = None \<Longrightarrow> ([k \<mapsto> y] ++ map_of res) k = Some y"
  by (simp add: map_add_def)

text \<open>Storing under a key that is not there yet is storing into an empty dict at the end.\<close>

lemma unflatten_fresh:
  assumes "CHR ''.'' \<notin> set key" "map_of res key = None"
  shows "unflatten_entry (key @ CHR ''.'' # q, v) res = unflatten_entry (key @ CHR ''.'' # q, v) (res @ [(key, PDict [])])"
  using assms by (auto simp: unflatten_entry_def split_dot_key map_of_last set_last dict_set_fresh Let_def)

lemma unflatten_plain:
  assumes "CHR ''.'' \<notin> set key" "map_of res key = None" "key = ''hidden_states'' \<longrightarrow> \<not> is_layer q" "map_of d (KS q) = None"
  shows "unflatten_entry (key @ CHR ''.'' # q, v) (res @ [(key, PDict d)]) = Inr (res @ [(key, PDict (d @ [(KS q, v)]))])"
  using assms
  by (auto simp: unflatten_entry_def split_dot_key map_of_last set_last dict_set_fresh store_sub_def is_layer_def Let_def)

lemma unflatten_layer:
  assumes "map_of res ''hidden_states'' = None" "map_of d (KS ''layers'') = None" "map_of ls (KI i) = None"
  shows "unflatten_entry (''hidden_states.layer_'' @ str_int i, v) (res @ [(''hidden_states'', PDict (d @ [(KS ''layers'', PDict ls)]))]) =
      Inr (res @ [(''hidden_states'', PDict (d @ [(KS ''layers'', PDict (ls @ [(KI i, v)]))]))])"
    and "unflatten_entry (''hidden_states.layer_'' @ str_int i, v) (res @ [(''hidden_states'', PDict d)]) =
      Inr (res @ [(''hidden_states'', PDict (d @ [(KS ''layers'', PDict [(KI i, v)])]))])"
proof -
  show "unflatten_entry (''hidden_states.layer_'' @ str_int i, v) (res @ [(''hidden_states'', PDict (d @ [(KS ''layers'', PDict ls)]))]) =
      Inr (res @ [(''hidden_states'', PDict (d @ [(KS ''layers'', PDict (ls @ [(KI i, v)]))]))])"
    using assms
    by (simp add: unflatten_entry_def map_of_last set_last dict_set_fresh store_layer_def py_int_str Let_def
        layer_prefix_def py_startswith_def)
  show "unflatten_entry (''hidden_states.layer_'' @ str_int i, v) (res @ [(''hidden_states'', PDict d)]) =
      Inr (res @ [(''hidden_states'', PDict (d @ [(KS ''layers'', PDict [(KI i, v)])]))])"
    using assms
    by (simp add: unflatten_entry_def map_of_last set_last dict_set_fresh store_layer_def py_int_str Let_def
        layer_prefix_def py_startswith_def)
qed

lemma unflatten_all_append: "unflatten_all (xs @ ys) res = rbind (unflatten_all xs res) (unflatten_all ys)"
proof (induction xs arbitrary: res)
  case (Cons x xs)
  then show ?case by (cases "unflatten_entry x res") simp_all
qed simp

lemma layers_run:
  assumes "map_of res ''hidden_states'' = None" "map_of d (KS ''layers'') = None"
      and "list_all (\<lambda>(k, t). case k of KI i \<Rightarrow> True | KS s \<Rightarrow> False) ls" "distinct (map fst (ks @ ls))"
  shows "unflatten_all (map (\<lambda>(i, t). (''hidden_states.layer_'' @ key_text i, t)) ls)
       (res @ [(''hidden_states'', PDict (d @ [(KS ''layers'', PDict ks)]))]) =
     Inr (res @ [(''hidden_states'', PDict (d @ [(KS ''layers'', PDict (ks @ ls))]))])"
  using assms(3,4)
proof (induction ls arbitrary: ks)
  case (Cons l ls)
  obtain i t where l: "l = (KI i, t)" using Cons.prems(1) by (cases l) (auto split: pkey.splits)
  have "map_of ks (KI i) = None" using Cons.prems(2) l by (auto simp: map_of_eq_None_iff)
  with unflatten_layer(1) [OF assms(1,2), of ks i t] Cons.IH [of "ks @ [l]"] Cons.prems l show ?case
    by (simp add: key_text_def del: append.simps(2))
qed simp

lemma sub_run:
  assumes "wf_sub key e" "CHR ''.'' \<notin> set key" "map_of res key = None" "map_of d (fst e) = None"
  shows "unflatten_all (flatten_sub key e) (res @ [(key, PDict d)]) = Inr (res @ [(key, PDict (d @ [e]))])"
proof -
  obtain q v where e: "e = (KS q, v)" using assms(1) by (cases e) (auto simp: wf_sub_def split: pkey.splits)
  show ?thesis
  proof (cases "\<exists>ls. q = ''layers'' \<and> key = ''hidden_states'' \<and> v = PDict ls")
    case True
    then obtain ls where q: "q = ''layers''" "key = ''hidden_states''" "v = PDict ls" by blast
    then have ls: "ls \<noteq> []" "distinct (map fst ls)" "list_all (\<lambda>(k, t). case k of KI i \<Rightarrow> True | KS s \<Rightarrow> False) ls"
      using assms(1) e by (simp_all add: wf_sub_def)
    then obtain i t ls' where l: "ls = (KI i, t) # ls'" by (cases ls) (auto split: pkey.splits)
    have none: "map_of res ''hidden_states'' = None" "map_of d (KS ''layers'') = None" using assms(3,4) e q by simp_all
    have "unflatten_all (map (\<lambda>(i, t). (''hidden_states.layer_'' @ key_text i, t)) ls') (res @ [(key, PDict (d @ [(KS q, PDict [(KI i, t)])]))]) =
        Inr (res @ [(key, PDict (d @ [(KS q, PDict ([(KI i, t)] @ ls'))]))])"
      unfolding q(1,2) using ls l by (intro layers_run [OF none]) auto
    with unflatten_layer(2) [OF none, of "[]" i t] show ?thesis
      using e q l by (simp add: flatten_sub_def key_text_def del: append.simps(2))
  next
    case False
    then have "flatten_sub key e = [(key @ CHR ''.'' # q, v)]" by (auto simp: flatten_sub_def e key_text_def split: pv.splits bool.splits)
    moreover have "key = ''hidden_states'' \<longrightarrow> \<not> is_layer q" using assms(1) e by (auto simp: wf_sub_def)
    ultimately show ?thesis using unflatten_plain [OF assms(2,3)] assms(4) e by simp
  qed
qed

lemma subs_run:
  assumes "CHR ''.'' \<notin> set key" "map_of res key = None" "list_all (wf_sub key) es" "distinct (map fst (d @ es))"
  shows "unflatten_all (concat (map (flatten_sub key) es)) (res @ [(key, PDict d)]) = Inr (res @ [(key, PDict (d @ es))])"
  using assms(3,4)
proof (induction es arbitrary: d)
  case (Cons e es)
  have "map_of d (fst e) = None" using Cons.prems(2) by (auto simp: map_of_eq_None_iff)
  with sub_run [of key e res d] assms(1,2) Cons.IH [of "d @ [e]"] Cons.prems show ?case
    by (simp add: unflatten_all_append)
qed simp

lemma flat_head:
  assumes "wf_sub key e"
  shows "\<exists>q v rest. flatten_sub key e = (key @ CHR ''.'' # q, v) # rest"
proof -
  obtain q v where e: "e = (KS q, v)" using assms by (cases e) (auto simp: wf_sub_def split: pkey.splits)
  show ?thesis
  proof (cases "\<exists>ls. q = ''layers'' \<and> key = ''hidden_states'' \<and> v = PDict ls")
    case True
    then obtain l ls where l: "q = ''layers''" "key = ''hidden_states''" "v = PDict (l # ls)"
      using assms e by (auto simp: wf_sub_def neq_Nil_conv)
    then have "flatten_sub key e = (key @ CHR ''.'' # (''layer_'' @ key_text (fst l)), snd l) #
        map (\<lambda>(i, t). (''hidden_states.layer_'' @ key_text i, t)) ls"
      by (simp add: flatten_sub_def e case_prod_unfold)
    then show ?thesis by blast
  next
    case False
    then have "flatten_sub key e = [(key @ CHR ''.'' # q, v)]" by (auto simp: flatten_sub_def e key_text_def split: pv.splits bool.splits)
    then show ?thesis by blast
  qed
qed

lemma entry_run:
  assumes "wf_entry e" "map_of res (fst e) = None"
  shows "unflatten_all (flatten_entry e) res = Inr (res @ [e])"
proof -
  obtain key v where e: "e = (key, v)" by fastforce
  have dot: "CHR ''.'' \<notin> set key" using assms(1) e by (simp add: wf_entry_def)
  show ?thesis
  proof (cases "\<exists>d. key \<in> NESTED_KEYS \<and> v = PDict d")
    case True
    then obtain d where d: "key \<in> NESTED_KEYS" "v = PDict d" by blast
    then have w: "d \<noteq> []" "distinct (map fst d)" "list_all (wf_sub key) d" using assms(1) e by (simp_all add: wf_entry_def)
    then obtain x xs where x: "d = x # xs" by (cases d) auto
    obtain q u rest where h: "flatten_sub key x = (key @ CHR ''.'' # q, u) # rest" using flat_head [of key x] w x by auto
    have n: "map_of res key = None" using assms(2) e by simp
    have "unflatten_all (flatten_entry e) res = unflatten_all (concat (map (flatten_sub key) d)) (res @ [(key, PDict [])])"
      using d e x h unflatten_fresh [OF dot n, of q u] by (simp add: flatten_entry_def)
    with subs_run [OF dot n, of d "[]"] w d e show ?thesis by simp
  next
    case False
    then have "flatten_entry e = [(key, v)]" by (auto simp: flatten_entry_def e split: pv.splits bool.splits)
    then show ?thesis using dot assms(2) e by (simp add: unflatten_entry_def dict_set_fresh)
  qed
qed

lemma payload_run:
  "list_all wf_entry p \<Longrightarrow> distinct (map fst (res @ p)) \<Longrightarrow> unflatten_all (concat (map flatten_entry p)) res = Inr (res @ p)"
proof (induction p arbitrary: res)
  case (Cons e p)
  have "map_of res (fst e) = None" using Cons.prems(2) by (auto simp: map_of_eq_None_iff)
  with entry_run [of e res] Cons.IH [of "res @ [e]"] Cons.prems show ?case by (simp add: unflatten_all_append)
qed simp

section \<open>Flat keys are distinct\<close>

lemma distinct_concat_owner:
  assumes "\<And>e. e \<in> set es \<Longrightarrow> distinct (map fst (f e)) \<and> (\<forall>k \<in> fst ` set (f e). owner k = h e)" "distinct (map h es)"
  shows "distinct (map fst (concat (map f es)))"
  using assms
proof (induction es)
  case (Cons e es)
  have "fst ` set (f e) \<inter> fst ` set (concat (map f es)) = {}"
  proof (rule ccontr)
    assume "\<not> ?thesis"
    then obtain k x where k: "k \<in> fst ` set (f e)" "x \<in> set es" "k \<in> fst ` set (f x)" by auto
    then have "h e = h x" using Cons.prems(1) [of e] Cons.prems(1) [of x] by (metis list.set_intros)
    with k(2) Cons.prems(2) show False by auto
  qed
  with Cons show ?case by (simp add: image_Un image_UN)
qed simp

lemma fold_fresh:
  "distinct (map fst (flat @ es)) \<Longrightarrow> fold (\<lambda>(k, v) flat. dict_set k v flat) es flat = flat @ es"
proof (induction es arbitrary: flat)
  case (Cons e es)
  obtain k v where e: "e = (k, v)" by fastforce
  have "map_of flat k = None" using Cons.prems e by (auto simp: map_of_eq_None_iff)
  with Cons.IH [of "flat @ [e]"] Cons.prems e show ?case by (simp add: dict_set_fresh)
qed simp

text \<open>The sub-key a flat key came from.\<close>

definition sub_owner :: "string \<Rightarrow> string \<Rightarrow> string" where
  "sub_owner key k = (let q = drop (Suc (length key)) k in if key = ''hidden_states'' \<and> is_layer q then ''layers'' else q)"

lemma flatten_sub_keys:
  assumes "wf_sub key e"
  shows "distinct (map fst (flatten_sub key e)) \<and>
    (\<forall>k \<in> fst ` set (flatten_sub key e). sub_owner key k = key_text (fst e) \<and> (\<exists>q. k = key @ CHR ''.'' # q))"
proof -
  obtain q v where e: "e = (KS q, v)" using assms by (cases e) (auto simp: wf_sub_def split: pkey.splits)
  show ?thesis
  proof (cases "\<exists>ls. q = ''layers'' \<and> key = ''hidden_states'' \<and> v = PDict ls")
    case True
    then obtain ls where l: "q = ''layers''" "key = ''hidden_states''" "v = PDict ls" by blast
    then have w: "distinct (map fst ls)" "list_all (\<lambda>(k, t). case k of KI i \<Rightarrow> True | KS s \<Rightarrow> False) ls"
      using assms e by (simp_all add: wf_sub_def)
    have inj: "inj_on key_text (fst ` set ls)"
    proof (rule inj_onI)
      fix x y assume "x \<in> fst ` set ls" "y \<in> fst ` set ls" and eq: "key_text x = key_text y"
      then obtain i j where "x = KI i" "y = KI j" using w(2) by (fastforce simp: list_all_iff split: pkey.splits)
      with eq show "x = y" by (simp add: key_text_def str_int_inject)
    qed
    have "map fst (flatten_sub key e) = map (\<lambda>k. ''hidden_states.layer_'' @ key_text k) (map fst ls)"
      using l e by (simp add: flatten_sub_def case_prod_unfold)
    moreover have "distinct (map (\<lambda>k. ''hidden_states.layer_'' @ key_text k) (map fst ls))"
      using w(1) inj by (simp add: distinct_map inj_on_def)
    moreover have "sub_owner ''hidden_states'' (''hidden_states.layer_'' @ key_text k) = ''layers''" for k
      by (simp add: sub_owner_def Let_def is_layer_def py_startswith_def layer_prefix_def)
    moreover have "fst ` set (flatten_sub key e) = (\<lambda>k. ''hidden_states.layer_'' @ key_text k) ` fst ` set ls"
      using l e by (simp add: flatten_sub_def case_prod_unfold image_image)
    moreover have "''hidden_states.layer_'' @ x = ''hidden_states'' @ CHR ''.'' # (''layer_'' @ x)" for x by simp
    moreover have "key_text (fst e) = ''layers''" using l e by (simp add: key_text_def)
    ultimately show ?thesis unfolding l(2) by (simp only: ball_simps) blast
  next
    case False
    then have f: "flatten_sub key e = [(key @ CHR ''.'' # q, v)]" by (auto simp: flatten_sub_def e key_text_def split: pv.splits bool.splits)
    have "key = ''hidden_states'' \<longrightarrow> \<not> is_layer q" using assms e by (auto simp: wf_sub_def)
    then show ?thesis by (auto simp: f [unfolded e] e sub_owner_def key_text_def)
  qed
qed

lemma flatten_entry_keys:
  assumes "wf_entry e"
  shows "distinct (map fst (flatten_entry e)) \<and> (\<forall>k \<in> fst ` set (flatten_entry e). fst (split_dot k) = fst e)"
proof -
  obtain key v where e: "e = (key, v)" by fastforce
  have dot: "CHR ''.'' \<notin> set key" using assms e by (simp add: wf_entry_def)
  show ?thesis
  proof (cases "\<exists>d. key \<in> NESTED_KEYS \<and> v = PDict d")
    case True
    then obtain d where d: "key \<in> NESTED_KEYS" "v = PDict d" by blast
    then have w: "distinct (map fst d)" "list_all (wf_sub key) d" using assms e by (simp_all add: wf_entry_def)
    have "\<exists>q. fst x = KS q" if "x \<in> set d" for x
    proof -
      have "wf_sub key x" using w(2) that by (simp add: list_all_iff)
      then show ?thesis by (cases x) (auto simp: wf_sub_def split: pkey.splits)
    qed
    then have "\<forall>k \<in> fst ` set d. \<exists>q. k = KS q" by blast
    then have "inj_on key_text (fst ` set d)" by (intro inj_onI) (metis key_text_def pkey.simps(5))
    then have di: "distinct (map (\<lambda>x. key_text (fst x)) d)" using w(1) by (simp add: distinct_map inj_on_def)
    have "distinct (map fst (concat (map (flatten_sub key) d)))"
      using w(2) by (intro distinct_concat_owner [where owner = "sub_owner key", OF _ di]) (auto simp: list_all_iff dest!: flatten_sub_keys)
    moreover have "fst (split_dot k) = key" if k: "k \<in> fst ` set (concat (map (flatten_sub key) d))" for k
    proof -
      obtain x where "x \<in> set d" "k \<in> fst ` set (flatten_sub key x)"
        using k unfolding set_concat set_map by blast
      then obtain q where "k = key @ CHR ''.'' # q" using w(2) flatten_sub_keys [of key x] by (auto simp: list_all_iff)
      then show ?thesis by (simp add: split_dot_key dot)
    qed
    ultimately show ?thesis using d e by (simp add: flatten_entry_def)
  next
    case False
    then have f: "flatten_entry e = [(key, v)]" by (auto simp: flatten_entry_def e split: pv.splits bool.splits)
    have "split_dot key = (key, [])" using dot by (induction key) auto
    with f e show ?thesis by simp
  qed
qed

lemma flatten_wf:
  assumes "wf_payload p"
  shows "flatten_payload p = concat (map flatten_entry p)"
proof -
  have "distinct (map fst (concat (map flatten_entry p)))"
    using assms by (intro distinct_concat_owner [where owner = "\<lambda>k. fst (split_dot k)" and h = fst])
      (auto simp: wf_payload_def list_all_iff dest!: flatten_entry_keys)
  then show ?thesis using fold_fresh [of "[]"] by (simp add: flatten_payload_def)
qed

lemma keys_roundtrip:
  assumes "wf_payload p"
  shows "unflatten_payload (flatten_payload p) = Inr p"
  using payload_run [of p "[]"] assms by (simp add: flatten_wf unflatten_payload_def wf_payload_def)

lemma flatten_distinct:
  assumes "wf_payload p"
  shows "dict_ok (flatten_payload p)"
  unfolding flatten_wf [OF assms]
  using assms by (intro distinct_concat_owner [where owner = "\<lambda>k. fst (split_dot k)" and h = fst])
    (auto simp: wf_payload_def list_all_iff dest!: flatten_entry_keys)

text \<open>
  What the flat form does not carry: an empty category disappears, and an empty dict of layers
  disappears with it.
\<close>

lemma empty_category_lost:
  assumes "key \<in> NESTED_KEYS"
  shows "unflatten_payload (flatten_payload [(key, PDict [])]) = Inr []"
  using assms by (simp add: flatten_payload_def flatten_entry_def unflatten_payload_def)

text \<open>A hidden-state key that starts like a layer but has no number cannot be read back.\<close>

lemma layer_like_key_raises:
  "unflatten_payload (flatten_payload [(''hidden_states'', PDict [(KS ''layer_norm'', Atom (7 :: nat))])]) = Inl ValueError"
  by code_simp

section \<open>The wire form\<close>

text \<open>
  The leaves of a payload as the serialiser tells them apart: tensors, lists, \<^verbatim>\<open>None\<close> and everything
  else.  What torch and numpy do to a tensor (\<^verbatim>\<open>t.detach().to('cpu').contiguous().numpy().tobytes()\<close>,
  its shape, \<^verbatim>\<open>str(t.dtype)\<close>, \<^verbatim>\<open>frombuffer\<close> with \<^verbatim>\<open>reshape\<close>) is the record \<open>tensor_wire\<close>.
\<close>

datatype ('t, 'o) leaf = LTensor 't | LList 'o | LNone | LScalar 'o

type_synonym ('t, 'o) omni_payload = "(('t, 'o) leaf) payload"

record ('t, 'b) tensor_wire =
  tobytes :: "'t \<Rightarrow> py_exc + 'b"
  shape_of :: "'t \<Rightarrow> int list"
  dtype_str :: "'t \<Rightarrow> string"
  frombuffer :: "'b \<Rightarrow> string \<Rightarrow> int list option \<Rightarrow> py_exc + 't"

record ('t, 'o, 'b) wire_entry =
  we_tensor_data :: "'b option"
  we_tensor_shape :: "int list option"
  we_tensor_dtype :: "string option"
  we_list_data :: "'o option"
  we_scalar_data :: "('t, 'o) leaf pv option"

type_synonym ('t, 'o, 'b) wire_payload = "(string, ('t, 'o, 'b) wire_entry) dict"

definition no_entry :: "('t, 'o, 'b) wire_entry" where
  "no_entry = \<lparr>we_tensor_data = None, we_tensor_shape = None, we_tensor_dtype = None, we_list_data = None, we_scalar_data = None\<rparr>"

definition DTYPE_TO_NAME :: "(string, string) dict" where
  "DTYPE_TO_NAME =
     [(''torch.float32'', ''float32''), (''torch.float16'', ''float16''), (''torch.bfloat16'', ''bfloat16''),
      (''torch.float64'', ''float64''), (''torch.int64'', ''int64''), (''torch.int32'', ''int32''),
      (''torch.int16'', ''int16''), (''torch.int8'', ''int8''), (''torch.uint8'', ''uint8''), (''torch.bool'', ''bool'')]"

text \<open>\<^verbatim>\<open>s.replace(p, '')\<close> for a non-empty \<open>p\<close>.\<close>

function remove_all :: "string \<Rightarrow> string \<Rightarrow> string" where
  "remove_all p [] = []"
| "remove_all p (c # cs) = (if p \<noteq> [] \<and> py_startswith (c # cs) p then remove_all p (drop (length p) (c # cs)) else c # remove_all p cs)"
  by pat_completeness auto
termination by (relation "measure (\<lambda>(p, s). length s)") auto

definition dtype_to_name :: "string \<Rightarrow> string" where
  "dtype_to_name d = (case dict_get DTYPE_TO_NAME d of Some n \<Rightarrow> n | None \<Rightarrow> remove_all ''torch.'' d)"

definition serialize_tensor :: "('t, 'b) tensor_wire \<Rightarrow> 't \<Rightarrow> py_exc + ('t, 'o, 'b) wire_entry" where
  "serialize_tensor W t = rbind (tobytes W t) (\<lambda>b.
     Inr (no_entry\<lparr>we_tensor_data := Some b, we_tensor_shape := Some (shape_of W t),
                   we_tensor_dtype := Some (dtype_to_name (dtype_str W t))\<rparr>))"

text \<open>Only called on an entry that has tensor data.\<close>

definition deserialize_tensor :: "('t, 'b) tensor_wire \<Rightarrow> 'b \<Rightarrow> ('t, 'o, 'b) wire_entry \<Rightarrow> py_exc + 't" where
  "deserialize_tensor W b e =
     frombuffer W b (case we_tensor_dtype e of None \<Rightarrow> ''float32'' | Some d \<Rightarrow> if d = [] then ''float32'' else d) (we_tensor_shape e)"

text \<open>The entry a value becomes; no entry for \<^verbatim>\<open>None\<close>.  A dict that was not flattened is a scalar.\<close>

definition serialize_value :: "('t, 'b) tensor_wire \<Rightarrow> ('t, 'o) leaf pv \<Rightarrow> py_exc + ('t, 'o, 'b) wire_entry option" where
  "serialize_value W v =
     (case v of
        Atom (LTensor t) \<Rightarrow> rbind (serialize_tensor W t) (\<lambda>e. Inr (Some e))
      | Atom (LList l) \<Rightarrow> Inr (Some (no_entry\<lparr>we_list_data := Some l\<rparr>))
      | Atom LNone \<Rightarrow> Inr None
      | _ \<Rightarrow> Inr (Some (no_entry\<lparr>we_scalar_data := Some v\<rparr>)))"

fun serialize_entries :: "('t, 'b) tensor_wire \<Rightarrow> ('t, 'o) omni_payload \<Rightarrow> ('t, 'o, 'b) wire_payload
    \<Rightarrow> py_exc + ('t, 'o, 'b) wire_payload" where
  "serialize_entries W [] entries = Inr entries"
| "serialize_entries W ((key, v) # flat) entries =
     rbind (serialize_value W v) (\<lambda>e.
       serialize_entries W flat (case e of None \<Rightarrow> entries | Some x \<Rightarrow> dict_set key x entries))"

definition serialize_payload :: "('t, 'b) tensor_wire \<Rightarrow> ('t, 'o) omni_payload \<Rightarrow> py_exc + ('t, 'o, 'b) wire_payload option" where
  "serialize_payload W p =
     rbind (serialize_entries W (flatten_payload p) []) (\<lambda>entries. Inr (if entries = [] then None else Some entries))"

definition deserialize_entry :: "('t, 'b) tensor_wire \<Rightarrow> ('t, 'o, 'b) wire_entry \<Rightarrow> py_exc + ('t, 'o) leaf pv option" where
  "deserialize_entry W e =
     (case we_tensor_data e of
        Some b \<Rightarrow> rbind (deserialize_tensor W b e) (\<lambda>t. Inr (Some (Atom (LTensor t))))
      | None \<Rightarrow>
          (case we_list_data e of
             Some l \<Rightarrow> Inr (Some (Atom (LList l)))
           | None \<Rightarrow> Inr (we_scalar_data e)))"

fun deserialize_entries :: "('t, 'b) tensor_wire \<Rightarrow> ('t, 'o, 'b) wire_payload \<Rightarrow> ('t, 'o) omni_payload
    \<Rightarrow> py_exc + ('t, 'o) omni_payload" where
  "deserialize_entries W [] flat = Inr flat"
| "deserialize_entries W ((key, e) # es) flat =
     rbind (deserialize_entry W e) (\<lambda>v.
       deserialize_entries W es (case v of None \<Rightarrow> flat | Some x \<Rightarrow> dict_set key x flat))"

definition deserialize_payload :: "('t, 'b) tensor_wire \<Rightarrow> ('t, 'o, 'b) wire_payload \<Rightarrow> py_exc + ('t, 'o) omni_payload" where
  "deserialize_payload W w = rbind (deserialize_entries W w []) unflatten_payload"

text \<open>The wrappers of \<^verbatim>\<open>engine/serialization.py\<close>: an argument is \<^verbatim>\<open>None\<close>, a dict or already serialised.\<close>

datatype ('t, 'o, 'b) info = INone | IDict "('t, 'o) omni_payload" | IWire "('t, 'o, 'b) wire_payload"

definition info_wire :: "('t, 'o, 'b) wire_payload option \<Rightarrow> ('t, 'o, 'b) info" where
  "info_wire w = (case w of None \<Rightarrow> INone | Some x \<Rightarrow> IWire x)"

definition serialize_additional_information :: "('t, 'b) tensor_wire \<Rightarrow> ('t, 'o, 'b) info \<Rightarrow> py_exc + ('t, 'o, 'b) wire_payload option" where
  "serialize_additional_information W raw =
     (case raw of INone \<Rightarrow> Inr None | IWire w \<Rightarrow> Inr (Some w) | IDict p \<Rightarrow> serialize_payload W p)"

definition deserialize_additional_information :: "('t, 'b) tensor_wire \<Rightarrow> ('t, 'o, 'b) info \<Rightarrow> py_exc + ('t, 'o) omni_payload" where
  "deserialize_additional_information W p =
     (case p of INone \<Rightarrow> Inr [] | IDict d \<Rightarrow> Inr d | IWire w \<Rightarrow> deserialize_payload W w)"

section \<open>Across the wire\<close>

text \<open>
  The table of dtype names only says what removing the prefix would give.
\<close>

lemma dtype_table_redundant:
  "list_all (\<lambda>(d, n). remove_all ''torch.'' d = n) DTYPE_TO_NAME"
  by code_simp

definition carried :: "('t, 'b) tensor_wire \<Rightarrow> ('t, 'o) leaf pv \<Rightarrow> bool" where
  "carried W v =
     (case v of
        Atom (LTensor t) \<Rightarrow>
          (case tobytes W t of
             Inl e \<Rightarrow> False
           | Inr b \<Rightarrow> dtype_to_name (dtype_str W t) \<noteq> [] \<and>
               (case frombuffer W b (dtype_to_name (dtype_str W t)) (Some (shape_of W t)) of Inl e \<Rightarrow> False | Inr u \<Rightarrow> u = t))
      | Atom LNone \<Rightarrow> False
      | _ \<Rightarrow> True)"

lemma carried_value:
  assumes "carried W v"
  shows "\<exists>e. serialize_value W v = Inr (Some e) \<and> deserialize_entry W e = Inr (Some v)"
proof (cases v)
  case (Atom a)
  show ?thesis
  proof (cases a)
    case (LTensor t)
    with Atom assms obtain b where b: "tobytes W t = Inr b" "dtype_to_name (dtype_str W t) \<noteq> []"
        "frombuffer W b (dtype_to_name (dtype_str W t)) (Some (shape_of W t)) = Inr t"
      by (auto simp: carried_def split: sum.splits)
    then show ?thesis unfolding Atom LTensor
      by (simp add: serialize_value_def serialize_tensor_def deserialize_entry_def deserialize_tensor_def)
  qed (use Atom assms in \<open>auto simp: carried_def serialize_value_def deserialize_entry_def no_entry_def\<close>)
qed (auto simp: serialize_value_def deserialize_entry_def no_entry_def)

lemma entries_carried:
  assumes "list_all (\<lambda>(k, v). carried W v) flat" "distinct (map fst flat)"
  shows "\<exists>es. dict_keys es = dict_keys flat \<and>
    (\<forall>acc. distinct (map fst acc @ map fst flat) \<longrightarrow> serialize_entries W flat acc = Inr (acc @ es)) \<and>
    (\<forall>acc. distinct (map fst acc @ map fst flat) \<longrightarrow> deserialize_entries W es acc = Inr (acc @ flat))"
  using assms
proof (induction flat)
  case (Cons x flat)
  obtain k v where x: "x = (k, v)" by fastforce
  with Cons obtain es where es: "dict_keys es = dict_keys flat"
      "\<And>acc. distinct (map fst acc @ map fst flat) \<Longrightarrow> serialize_entries W flat acc = Inr (acc @ es)"
      "\<And>acc. distinct (map fst acc @ map fst flat) \<Longrightarrow> deserialize_entries W es acc = Inr (acc @ flat)" by auto
  obtain e where e: "serialize_value W v = Inr (Some e)" "deserialize_entry W e = Inr (Some v)"
    using Cons.prems x carried_value [of W v] by auto
  have fresh: "dict_set k y acc = acc @ [(k, y)]" if "distinct (map fst acc @ map fst (x # flat))" for y and acc :: "(string \<times> 'z) list"
    using that x by (intro dict_set_fresh) (auto simp: map_of_eq_None_iff)
  have "serialize_entries W (x # flat) acc = Inr (acc @ (k, e) # es)" if "distinct (map fst acc @ map fst (x # flat))" for acc
    using that fresh [OF that] es(2) [of "acc @ [(k, e)]"] x e by simp
  moreover have "deserialize_entries W ((k, e) # es) acc = Inr (acc @ x # flat)" if "distinct (map fst acc @ map fst (x # flat))" for acc
    using that fresh [OF that] es(3) [of "acc @ [(k, v)]"] x e by simp
  ultimately show ?case using es(1) x by (intro exI [of _ "(k, e) # es"]) simp
qed (simp add: exI [of _ "[]"])


lemma wire_run:
  assumes "wf_payload p" "list_all (\<lambda>(k, v). carried W v) (flatten_payload p)"
  shows "rbind (serialize_additional_information W (IDict p))
           (\<lambda>w. deserialize_additional_information W (info_wire w)) = Inr p"
proof -
  obtain es where es: "dict_keys es = dict_keys (flatten_payload p)"
      "serialize_entries W (flatten_payload p) [] = Inr es" "deserialize_entries W es [] = Inr (flatten_payload p)"
    using entries_carried [OF assms(2) flatten_distinct [OF assms(1)]] flatten_distinct [OF assms(1)] by force
  have rt: "unflatten_payload (flatten_payload p) = Inr p" by (rule keys_roundtrip [OF assms(1)])
  have "p = []" if "es = []"
  proof -
    have "flatten_payload p = []" using es(1) that by simp
    then show ?thesis using rt by (simp add: unflatten_payload_def)
  qed
  then show ?thesis
    using es rt by (cases es) (simp_all add: serialize_additional_information_def serialize_payload_def
        info_wire_def deserialize_additional_information_def deserialize_payload_def)
qed

text \<open>
  C11: A payload reaches the next engine exactly as it was built: if its top-level keys have no dot,
  its nested categories are non-empty dicts with string keys, its hidden-state layers a non-empty dict
  with integer keys (and no other hidden-state key looks like a layer), none of its values is
  \<^verbatim>\<open>None\<close> and its tensors survive their byte form, then deserialising what serialising gives returns the
  same entries in the same order, layer numbers being integers again.
\<close>

theorem payload_wire_roundtrip:
  assumes "wf_payload p" "list_all (\<lambda>(k, v). carried W v) (flatten_payload p)"
  shows "rbind (serialize_additional_information W (IDict p))
           (\<lambda>w. deserialize_additional_information W (info_wire w)) = Inr p"
  by (rule wire_run [OF assms])

definition sample_wire :: "(int list, int list) tensor_wire" where
  "sample_wire = \<lparr>tobytes = Inr, shape_of = (\<lambda>t. [int (length t)]), dtype_str = (\<lambda>t. ''torch.int64''),
     frombuffer = (\<lambda>b d sh. if sh = Some [int (length b)] then Inr b else Inl ValueError)\<rparr>"

definition sample_payload :: "(int list, nat) omni_payload" where
  "sample_payload =
     [(''hidden_states'', PDict [(KS ''output'', Atom (LTensor [1, 2])),
         (KS ''layers'', PDict [(KI 24, Atom (LTensor [3])), (KI 0, Atom (LTensor []))])]),
      (''generated_len'', Atom (LScalar 4)), (''ids'', PDict [(KS ''all'', Atom (LList 5))])]"

lemma payload_wire_roundtrip_witness:
  "dict_keys (flatten_payload sample_payload) =
     [''hidden_states.output'', ''hidden_states.layer_24'', ''hidden_states.layer_0'', ''generated_len'', ''ids.all''] \<and>
   rbind (serialize_additional_information sample_wire (IDict sample_payload))
     (\<lambda>w. deserialize_additional_information sample_wire (info_wire w)) = Inr sample_payload"
proof
  show "dict_keys (flatten_payload sample_payload) =
     [''hidden_states.output'', ''hidden_states.layer_24'', ''hidden_states.layer_0'', ''generated_len'', ''ids.all'']"
    by code_simp
  have "wf_payload sample_payload" by code_simp
  moreover have "list_all (\<lambda>(k, v). carried sample_wire v) (flatten_payload sample_payload)" by code_simp
  ultimately show "rbind (serialize_additional_information sample_wire (IDict sample_payload))
     (\<lambda>w. deserialize_additional_information sample_wire (info_wire w)) = Inr sample_payload"
    by (rule payload_wire_roundtrip)
qed

section \<open>The typed form\<close>

text \<open>
  The struct classes by the names of their fields, in order, and a struct as its fields with their
  values: \<^verbatim>\<open>None\<close>, a plain value, or a nested struct.
\<close>

definition HiddenStatesStruct_fields :: "string list" where
  "HiddenStatesStruct_fields =
     [''output'', ''output_shape'', ''trailing_text'', ''last'', ''layers'']"

definition EmbeddingsStruct_fields :: "string list" where
  "EmbeddingsStruct_fields =
     [''prefill'', ''prefill_shape'', ''decode'', ''decode_token_start'', ''decode_token_end'',
      ''cached_decode'', ''tts_bos'', ''tts_eos'', ''tts_pad'', ''tts_pad_projected'',
      ''voice'', ''speech_feat'', ''speech_token'', ''speech_token_len'', ''embedding'',
      ''thinker_reply'']"

definition IdsStruct_fields :: "string list" where
  "IdsStruct_fields =
     [''all'', ''prompt'', ''output'', ''speech_token'', ''prior_image'']"

definition CodesStruct_fields :: "string list" where
  "CodesStruct_fields =
     [''audio'', ''ref'']"

definition MetaStruct_fields :: "string list" where
  "MetaStruct_fields =
     [''finished'', ''is_segment_finished'', ''stream_finished'', ''req_id'', ''left_context_size'',
      ''right_holdback_size'', ''override_keys'', ''num_processed_tokens'', ''next_stage_prompt_len'', ''ar_width'',
      ''eol_token_id'', ''visual_token_start_id'', ''visual_token_end_id'', ''gen_token_mask'', ''omni_task'',
      ''height'', ''width'', ''decode_flag'', ''codec_streaming'', ''ref_code_len'',
      ''ref_context_size'', ''ref_context_request_id'', ''ref_context_included'', ''talker_prefill_offset'', ''codec_chunk_frames'',
      ''codec_left_context_frames'', ''code_flat_numel'', ''omni_final_stage_id'']"

definition OmniPayloadStruct_fields :: "string list" where
  "OmniPayloadStruct_fields =
     [''hidden'', ''hidden_states'', ''embed'', ''ids'', ''codes'',
      ''meta'', ''latent'', ''generated_len'', ''model_outputs'', ''mtp_inputs'',
      ''speaker'', ''language'', ''request_id'', ''past_key_values'', ''kv_metadata'']"

definition NESTED_STRUCTS :: "(string, string list) dict" where
  "NESTED_STRUCTS =
     [(''hidden_states'', HiddenStatesStruct_fields),
      (''embed'', EmbeddingsStruct_fields),
      (''ids'', IdsStruct_fields),
      (''codes'', CodesStruct_fields),
      (''meta'', MetaStruct_fields)]"

datatype 'v field = FNone | FPlain "'v pv" | FStruct "(string, 'v pv option) dict"

type_synonym 'v omni_struct = "(string, 'v field) dict"

definition sub_dict :: "(string, 'v pv option) dict \<Rightarrow> (pkey \<times> 'v pv) list" where
  "sub_dict st = fold (\<lambda>(sk, sv) sub. case sv of None \<Rightarrow> sub | Some v \<Rightarrow> dict_set (KS sk) v sub) st []"

definition to_dict_field :: "string \<times> 'v field \<Rightarrow> 'v payload \<Rightarrow> 'v payload" where
  "to_dict_field = (\<lambda>(name, x) out.
     case x of
       FNone \<Rightarrow> out
     | FStruct st \<Rightarrow> (let sub = sub_dict st in if sub \<noteq> [] then dict_set name (PDict sub) out else out)
     | FPlain v \<Rightarrow> dict_set name v out)"

definition to_dict :: "'v omni_struct \<Rightarrow> 'v payload" where
  "to_dict s = fold to_dict_field s []"

text \<open>
  What the classes promise of a struct: its fields, in order; the nested categories are structs of
  their class or absent, the other fields are not structs, and layers are a dict with integer keys.
\<close>

definition layers_typed :: "string \<times> 'v pv option \<Rightarrow> bool" where
  "layers_typed = (\<lambda>(name, x). case (name = ''layers'', x) of
      (True, Some (PDict ls)) \<Rightarrow> distinct (map fst ls) \<and> list_all (\<lambda>(k, t). case k of KI i \<Rightarrow> True | KS s \<Rightarrow> False) ls
    | (True, Some (Atom a)) \<Rightarrow> False
    | _ \<Rightarrow> True)"

definition field_typed :: "string \<times> 'v field \<Rightarrow> bool" where
  "field_typed = (\<lambda>(name, x).
     case (dict_get NESTED_STRUCTS name, x) of
       (_, FNone) \<Rightarrow> True
     | (Some fs, FStruct st) \<Rightarrow> dict_keys st = fs \<and> list_all layers_typed st
     | (None, FPlain v) \<Rightarrow> True
     | _ \<Rightarrow> False)"

definition struct_typed :: "'v omni_struct \<Rightarrow> bool" where
  "struct_typed s \<longleftrightarrow> dict_keys s = OmniPayloadStruct_fields \<and> list_all field_typed s"

definition layers_filled :: "'v omni_struct \<Rightarrow> bool" where
  "layers_filled s =
     (case dict_get s ''hidden_states'' of
        Some (FStruct st) \<Rightarrow> dict_get st ''layers'' \<noteq> Some (Some (PDict []))
      | _ \<Rightarrow> True)"

section \<open>Typed payloads survive\<close>

lemma fold_put:
  assumes "distinct (map fst acc @ map fst (List.map_filter g xs))"
  shows "fold (\<lambda>x out. case g x of None \<Rightarrow> out | Some (k, v) \<Rightarrow> dict_set k v out) xs acc = acc @ List.map_filter g xs"
  using assms
proof (induction xs arbitrary: acc)
  case (Cons x xs)
  show ?case
  proof (cases "g x")
    case None
    with Cons show ?thesis by (simp add: map_filter_simps)
  next
    case (Some y)
    obtain k v where y: "y = (k, v)" by fastforce
    have "map_of acc k = None" using Cons.prems Some y by (auto simp: map_filter_simps map_of_eq_None_iff)
    then show ?thesis using Cons.IH [of "acc @ [(k, v)]"] Cons.prems Some y
      by (simp add: map_filter_simps dict_set_fresh)
  qed
qed (simp add: map_filter_simps)

lemma set_map_filter: "set (List.map_filter g xs) = {y. \<exists>x \<in> set xs. g x = Some y}"
  by (force simp: List.map_filter_def)

lemma map_filter_distinct:
  assumes "distinct (map fst xs)" "\<And>x k v. g x = Some (k, v) \<Longrightarrow> k = h (fst x)" "inj h"
  shows "distinct (map fst (List.map_filter g xs))"
  using assms(1)
proof (induction xs)
  case (Cons x xs)
  have "h (fst x) \<notin> fst ` set (List.map_filter g xs)"
  proof
    assume "h (fst x) \<in> fst ` set (List.map_filter g xs)"
    then obtain z k v where "z \<in> set xs" "g z = Some (k, v)" "h (fst x) = k" by (auto simp: set_map_filter)
    then have "fst z = fst x" using assms(2,3) by (metis injD)
    with \<open>z \<in> set xs\<close> have "fst x \<in> set (map fst xs)" by (metis image_eqI set_map)
    with Cons.prems show False by simp
  qed
  then have "fst y \<notin> fst ` set (List.map_filter g xs)" if "g x = Some y" for y
    using that assms(2) [of x "fst y" "snd y"] by simp
  with Cons show ?case by (simp add: map_filter_simps split: option.splits)
qed (simp add: map_filter_simps)

definition sub_entry :: "string \<times> 'v pv option \<Rightarrow> (pkey \<times> 'v pv) option" where
  "sub_entry = (\<lambda>(sk, sv). map_option (Pair (KS sk)) sv)"

lemma sub_step:
  "(\<lambda>(sk, sv) sub. case sv of None \<Rightarrow> sub | Some v \<Rightarrow> dict_set (KS sk) v sub) =
   (\<lambda>x out. case sub_entry x of None \<Rightarrow> out | Some (k, v) \<Rightarrow> dict_set k v out)"
  by (auto simp: sub_entry_def fun_eq_iff split: option.splits)

lemma sub_dict_eq: "distinct (map fst st) \<Longrightarrow> sub_dict st = List.map_filter sub_entry st"
proof -
  assume d: "distinct (map fst st)"
  have "distinct (map fst (List.map_filter sub_entry st))"
    by (rule map_filter_distinct [OF d, where h = KS]) (auto simp: sub_entry_def inj_def)
  then show ?thesis using fold_put [of "[]" sub_entry st] by (simp add: sub_dict_def sub_step)
qed

definition field_entry :: "string \<times> 'v field \<Rightarrow> (string \<times> 'v pv) option" where
  "field_entry = (\<lambda>(name, x).
     case x of FNone \<Rightarrow> None | FPlain v \<Rightarrow> Some (name, v) | FStruct st \<Rightarrow> if sub_dict st = [] then None else Some (name, PDict (sub_dict st)))"

lemma to_dict_step: "to_dict_field = (\<lambda>x out. case field_entry x of None \<Rightarrow> out | Some (k, v) \<Rightarrow> dict_set k v out)"
  by (auto simp: field_entry_def to_dict_field_def fun_eq_iff Let_def split: field.splits)

lemma to_dict_eq: "distinct (map fst s) \<Longrightarrow> to_dict s = List.map_filter field_entry s"
proof -
  assume d: "distinct (map fst s)"
  have "distinct (map fst (List.map_filter field_entry s))"
    by (rule map_filter_distinct [OF d, where h = "\<lambda>x. x"]) (auto simp: field_entry_def split: field.splits if_splits)
  then show ?thesis using fold_put [of "[]" field_entry s] by (simp add: to_dict_def to_dict_step)
qed

lemma schema_fields:
  "distinct OmniPayloadStruct_fields" "list_all (\<lambda>f. CHR ''.'' \<notin> set f) OmniPayloadStruct_fields"
  "list_all (\<lambda>(k, fs). distinct fs) NESTED_STRUCTS" "list_all (\<lambda>f. \<not> is_layer f) HiddenStatesStruct_fields"
  "dict_get NESTED_STRUCTS ''hidden_states'' = Some HiddenStatesStruct_fields"
  by code_simp+

lemma nested_iff: "key \<in> NESTED_KEYS \<longleftrightarrow> dict_get NESTED_STRUCTS key \<noteq> None"
  by (auto simp: NESTED_KEYS_def NESTED_STRUCTS_def)

lemma img_fst: "(a, b) \<in> set xs \<Longrightarrow> a \<in> set (map fst xs)"
  by force

lemma sub_dict_wf:
  assumes st: "dict_get NESTED_STRUCTS key = Some (dict_keys st)" "list_all layers_typed st"
      and filled: "key = ''hidden_states'' \<Longrightarrow> dict_get st ''layers'' \<noteq> Some (Some (PDict []))"
  shows "distinct (map fst (sub_dict st)) \<and> list_all (wf_sub key) (sub_dict st)"
proof -
  have d: "distinct (map fst st)" using st(1) schema_fields(3) map_of_SomeD [of NESTED_STRUCTS key "dict_keys st"]
    by (fastforce simp: list_all_iff)
  have "distinct (map fst (List.map_filter sub_entry st))"
    by (rule map_filter_distinct [OF d, where h = KS]) (auto simp: sub_entry_def inj_def)
  moreover have "wf_sub key (KS q, v)" if m: "(q, Some v) \<in> set st" for q v
  proof (cases "key = ''hidden_states''")
    case True
    then have "dict_keys st = HiddenStatesStruct_fields" using st(1) schema_fields(5) by simp
    then have "q \<in> set HiddenStatesStruct_fields" using img_fst [OF m] by simp
    then have "\<not> is_layer q" using schema_fields(4) by (simp add: list_all_iff)
    moreover have "v \<noteq> PDict []" if "q = ''layers''" using filled [OF True] m d that by (auto simp: map_of_eq_Some_iff)
    moreover have "layers_typed (q, Some v)" using st(2) m by (auto simp: list_all_iff)
    ultimately show ?thesis by (auto simp: wf_sub_def layers_typed_def split: pv.splits bool.splits)
  qed (simp add: wf_sub_def)
  ultimately show ?thesis
    by (auto simp: sub_dict_eq [OF d] list_all_iff set_map_filter sub_entry_def)
qed

lemma to_dict_wf:
  assumes "struct_typed s" "layers_filled s"
  shows "wf_payload (to_dict s)"
proof -
  have keys: "dict_keys s = OmniPayloadStruct_fields" and ft: "list_all field_typed s"
    using assms(1) by (simp_all add: struct_typed_def)
  then have d: "distinct (map fst s)" using schema_fields(1) by simp
  have d': "distinct (map fst (List.map_filter field_entry s))"
    by (rule map_filter_distinct [OF d, where h = "\<lambda>x. x"]) (auto simp: field_entry_def split: field.splits if_splits)
  have we: "wf_entry (key, v)" if m: "(key, x) \<in> set s" and e: "field_entry (key, x) = Some (key, v)" for key x v
  proof -
    have "key \<in> set OmniPayloadStruct_fields" using img_fst [OF m] keys by simp
    then have dot: "CHR ''.'' \<notin> set key" using schema_fields(2) by (simp add: list_all_iff)
    have typed: "field_typed (key, x)" using ft m by (auto simp: list_all_iff)
    show ?thesis
    proof (cases x)
      case (FStruct st)
      with e have v: "v = PDict (sub_dict st)" "sub_dict st \<noteq> []" by (auto simp: field_entry_def split: if_splits)
      have n: "dict_get NESTED_STRUCTS key = Some (dict_keys st)" "list_all layers_typed st"
        using typed FStruct by (auto simp: field_typed_def split: option.splits)
      have "dict_get s key = Some (FStruct st)" using m d FStruct by simp
      then have "dict_get st ''layers'' \<noteq> Some (Some (PDict []))" if "key = ''hidden_states''"
        using assms(2) that by (simp add: layers_filled_def)
      from sub_dict_wf [OF n this] v dot show ?thesis by (simp add: wf_entry_def split: bool.splits)
    next
      case (FPlain u)
      with typed have "key \<notin> NESTED_KEYS" by (auto simp: field_typed_def nested_iff split: option.splits)
      with dot show ?thesis by (simp add: wf_entry_def)
    qed (use e in \<open>simp add: field_entry_def\<close>)
  qed
  have "wf_entry y" if y: "y \<in> set (List.map_filter field_entry s)" for y
  proof -
    obtain key x where m: "(key, x) \<in> set s" and e: "field_entry (key, x) = Some y" using y by (auto simp: set_map_filter)
    obtain k v where kv: "y = (k, v)" by fastforce
    with e have "k = key" by (auto simp: field_entry_def split: field.splits if_splits)
    with we [OF m] e kv show ?thesis by simp
  qed
  with d' show ?thesis unfolding wf_payload_def to_dict_eq [OF d] list_all_iff by blast
qed

text \<open>
  C38: The dictionary form of a typed payload only has the fields of the schema, each at most once, and
  it crosses the wire: when a struct has the fields and kinds of its classes, its layers are not an
  empty dict, and the values it sends are carried (none is \<^verbatim>\<open>None\<close>, tensors survive their byte
  form), then the receiver gets exactly the dictionary that was sent.
\<close>

theorem typed_payload_crosses_wire:
  assumes "struct_typed s" "layers_filled s" "list_all (\<lambda>(k, v). carried W v) (flatten_payload (to_dict s))"
  shows "distinct (dict_keys (to_dict s)) \<and> set (dict_keys (to_dict s)) \<subseteq> set OmniPayloadStruct_fields \<and>
    (\<exists>w. serialize_payload W (to_dict s) = Inr w \<and>
         deserialize_additional_information W (info_wire w) = Inr (to_dict s))"
proof -
  note wf = to_dict_wf [OF assms(1,2)]
  have keys: "dict_keys s = OmniPayloadStruct_fields" using assms(1) by (simp add: struct_typed_def)
  then have d: "distinct (map fst s)" using schema_fields(1) by simp
  have "k \<in> set OmniPayloadStruct_fields" if kv: "(k, v) \<in> set (List.map_filter field_entry s)" for k v
  proof -
    obtain key x where "(key, x) \<in> set s" "field_entry (key, x) = Some (k, v)" using kv by (auto simp: set_map_filter)
    moreover from this have "k = key" by (auto simp: field_entry_def split: field.splits if_splits)
    ultimately show ?thesis using img_fst [of key x s] keys by simp
  qed
  then have "set (dict_keys (to_dict s)) \<subseteq> set OmniPayloadStruct_fields" unfolding to_dict_eq [OF d] by auto
  moreover have "\<exists>w. serialize_payload W (to_dict s) = Inr w \<and>
         deserialize_additional_information W (info_wire w) = Inr (to_dict s)"
    using wire_run [OF wf assms(3)]
    by (auto simp: serialize_additional_information_def rbind_Inr_iff)
  ultimately show ?thesis using wf by (simp add: wf_payload_def)
qed

definition sample_struct :: "(int list, nat) leaf omni_struct" where
  "sample_struct = map (\<lambda>f. (f,
     if f = ''hidden_states'' then FStruct (map (\<lambda>g. (g,
         if g = ''output'' then Some (Atom (LTensor [1, 2]))
         else if g = ''layers'' then Some (PDict [(KI 24, Atom (LTensor [3])), (KI 0, Atom (LTensor []))]) else None))
         HiddenStatesStruct_fields)
     else if f = ''ids'' then FStruct (map (\<lambda>g. (g, None)) IdsStruct_fields)
     else if f = ''generated_len'' then FPlain (Atom (LScalar 4)) else FNone)) OmniPayloadStruct_fields"

lemma typed_payload_crosses_wire_witness:
  "dict_keys (to_dict sample_struct) = [''hidden_states'', ''generated_len''] \<and>
   (\<exists>w. serialize_payload sample_wire (to_dict sample_struct) = Inr w \<and>
        deserialize_additional_information sample_wire (info_wire w) = Inr (to_dict sample_struct))"
proof
  show "dict_keys (to_dict sample_struct) = [''hidden_states'', ''generated_len'']" by code_simp
  have "struct_typed sample_struct" by code_simp
  moreover have "layers_filled sample_struct" by code_simp
  moreover have "list_all (\<lambda>(k, v). carried sample_wire v) (flatten_payload (to_dict sample_struct))" by code_simp
  ultimately show "\<exists>w. serialize_payload sample_wire (to_dict sample_struct) = Inr w \<and>
        deserialize_additional_information sample_wire (info_wire w) = Inr (to_dict sample_struct)"
    using typed_payload_crosses_wire by blast
qed

end
