(* ===== verification/Paged_Cache.thy ===== *)
theory Paged_Cache
  imports Py_Int
begin

text \<open>
  The paged key-value cache of the AR-Diffusion engine
  (\<^verbatim>\<open>experimental/ar_diffusion/kv_cache/\<close>: \<^verbatim>\<open>paged.py\<close>, \<^verbatim>\<open>manager.py\<close>): slot mappings, eviction by
  chunks, the sizing of the pool and the cache object with its requests.

  The block manager is vLLM's and not part of the repository: it is a record \<open>manager\<close> of operations on
  an arbitrary state.  What the code relies on is \<open>manager_laws\<close>.  A tensor of integers is the list of
  its elements; a pool is the list of its rows, one per slot.  A row is of an arbitrary type.
\<close>

section \<open>Tensors as lists\<close>

definition arange :: "int \<Rightarrow> int \<Rightarrow> int list" where
  "arange a b = map (\<lambda>i. a + int i) [0..<nat (b - a)]"

text \<open>Where an index of torch points: negative ones count from the end.\<close>

definition torch_index :: "nat \<Rightarrow> int \<Rightarrow> py_exc + nat" where
  "torch_index n i =
     (if 0 \<le> i \<and> i < int n then Inr (nat i) else if - int n \<le> i \<and> i < 0 then Inr (nat (int n + i)) else Inl IndexError)"

fun torch_indices :: "nat \<Rightarrow> int list \<Rightarrow> py_exc + nat list" where
  "torch_indices n [] = Inr []"
| "torch_indices n (i # js) =
     rbind (torch_index n i) (\<lambda>k. rbind (torch_indices n js) (\<lambda>ks. Inr (k # ks)))"

text \<open>\<^verbatim>\<open>xs[index]\<close> and \<^verbatim>\<open>xs[index] = ys\<close> for an index tensor; a single row is broadcast.\<close>

definition get_rows :: "'a list \<Rightarrow> int list \<Rightarrow> py_exc + 'a list" where
  "get_rows xs idx = rbind (torch_indices (length xs) idx) (\<lambda>ks. Inr (map ((!) xs) ks))"

definition put_rows :: "'a list \<Rightarrow> int list \<Rightarrow> 'a list \<Rightarrow> py_exc + 'a list" where
  "put_rows xs idx ys =
     (let rows = (if length ys = 1 then replicate (length idx) (hd ys) else ys)
      in if length rows \<noteq> length idx then Inl RuntimeError
         else rbind (torch_indices (length xs) idx)
           (\<lambda>ks. Inr (fold (\<lambda>(k, y) zs. zs[k := y]) (zip ks rows) xs)))"

section \<open>Slot mapping\<close>

definition compute_slot_mapping :: "int list \<Rightarrow> int list \<Rightarrow> int \<Rightarrow> py_exc + int list" where
  "compute_slot_mapping block_ids positions bs =
     (if bs \<le> 0 then Inl ValueError
      else rbind (get_rows block_ids (map (\<lambda>p. p div bs) positions))
        (\<lambda>blocks. Inr (map2 (\<lambda>b p. b * bs + p mod bs) blocks positions)))"

definition chunk_slot_mapping :: "int list \<Rightarrow> int \<Rightarrow> int \<Rightarrow> int \<Rightarrow> py_exc + int list" where
  "chunk_slot_mapping block_ids n chunk_size bs = compute_slot_mapping block_ids (arange n (n + chunk_size)) bs"

definition resident_block_ids :: "int list \<Rightarrow> int \<Rightarrow> int list" where
  "resident_block_ids block_ids null_id = filter (\<lambda>b. b \<noteq> null_id) block_ids"

text \<open>The write of a chunk: batch index 0 of the new rows goes to the slots.\<close>

definition pool_write_chunk :: "'a list \<Rightarrow> 'a list \<Rightarrow> 'a list list \<Rightarrow> 'a list list \<Rightarrow> int list \<Rightarrow> py_exc + 'a list \<times> 'a list" where
  "pool_write_chunk k_pool v_pool new_k new_v slots =
     (case new_k of
        [] \<Rightarrow> Inl IndexError
      | ks # _ \<Rightarrow> rbind (put_rows k_pool slots ks) (\<lambda>k_pool1.
          (case new_v of
             [] \<Rightarrow> Inl IndexError
           | vs # _ \<Rightarrow> rbind (put_rows v_pool slots vs) (\<lambda>v_pool1. Inr (k_pool1, v_pool1)))))"

section \<open>Eviction by chunks\<close>

definition py_floordiv :: "int \<Rightarrow> int \<Rightarrow> py_exc + int" where
  "py_floordiv a b = (if b = 0 then Inl ZeroDivisionError else Inr (a div b))"

definition chunk_window_skipped_tokens :: "int \<Rightarrow> int \<Rightarrow> int \<Rightarrow> int \<Rightarrow> bool \<Rightarrow> py_exc + int" where
  "chunk_window_skipped_tokens n chunk_size sliding_window sink_chunks reset_at_boundary =
     (let sink = sink_chunks * chunk_size
      in if reset_at_boundary
         then rbind (py_floordiv n chunk_size) (\<lambda>q. Inr (max 0 (q * chunk_size - sink)))
         else (let skipped = max 0 (n - sliding_window - sink)
               in rbind (py_floordiv skipped chunk_size) (\<lambda>q. Inr (q * chunk_size))))"

record chunk_window_spec =
  sp_block_size :: int
  sp_sliding_window :: int
  sp_chunk_size :: int
  sp_window_chunks :: int
  sp_sink_chunks :: int
  sp_reset_at_boundary :: bool

text \<open>The check of \<^verbatim>\<open>__post_init__\<close>.\<close>

definition ChunkWindowSpec :: "chunk_window_spec \<Rightarrow> py_exc + chunk_window_spec" where
  "ChunkWindowSpec s = (if sp_sliding_window s \<noteq> sp_window_chunks s * sp_chunk_size s then Inl ValueError else Inr s)"

definition get_num_skipped_tokens :: "chunk_window_spec \<Rightarrow> int \<Rightarrow> py_exc + int" where
  "get_num_skipped_tokens s n =
     chunk_window_skipped_tokens n (sp_chunk_size s) (sp_sliding_window s) (sp_sink_chunks s) (sp_reset_at_boundary s)"

section \<open>Requests\<close>

record adapter =
  request_id :: string
  ad_chunk_size :: int
  ad_prefill :: int
  completed_chunks :: int

definition new_adapter :: "string \<Rightarrow> int \<Rightarrow> int \<Rightarrow> adapter" where
  "new_adapter rid chunk_size prefill =
     \<lparr>request_id = rid, ad_chunk_size = chunk_size, ad_prefill = prefill, completed_chunks = 0\<rparr>"

definition num_computed_tokens :: "adapter \<Rightarrow> int" where
  "num_computed_tokens a = ad_prefill a + completed_chunks a * ad_chunk_size a"

definition num_tokens :: "adapter \<Rightarrow> int" where
  "num_tokens a = ad_prefill a + (completed_chunks a + 1) * ad_chunk_size a"

definition num_prompt_tokens :: "adapter \<Rightarrow> int" where
  "num_prompt_tokens a = ad_prefill a"

definition on_chunk_committed :: "adapter \<Rightarrow> adapter" where
  "on_chunk_committed a = a\<lparr>completed_chunks := completed_chunks a + 1\<rparr>"

section \<open>The cache\<close>

text \<open>
  vLLM's manager: \<open>mg_allocate\<close> tells whether blocks were returned (\<^verbatim>\<open>not None\<close>), \<open>mg_block_ids\<close> is the
  block table of a request (of the only group), \<open>mg_null\<close> the id of its null block.
\<close>

record 'm manager =
  mg_allocate :: "adapter \<Rightarrow> int \<Rightarrow> 'm \<Rightarrow> bool \<times> 'm"
  mg_block_ids :: "string \<Rightarrow> 'm \<Rightarrow> int list"
  mg_free :: "adapter \<Rightarrow> 'm \<Rightarrow> 'm"
  mg_null :: int

text \<open>
  A cross-attention pool is a list over the layers; each layer holds the keys and values of both
  branches, \<open>None\<close> before the first write.  The adapters are shared with the session states that hold
  them, so the table of the cache keeps their ids only.  \<open>kv_current\<close> tells whether the module's registry
  points to this cache (a worker process has one).
\<close>

type_synonym 't cross_pool = "(bool \<Rightarrow> ('t \<times> 't) option) list"

record ('m, 't) kv_cache =
  kv_spec :: chunk_window_spec
  kv_num_layers :: int
  kv_local_branches :: int
  kv_managed_num_blocks :: int
  kv_scratch_per_branch :: int
  kv_cross_attn_length :: int
  kv_mgr :: 'm
  kv_adapters :: "(string, unit) dict"
  kv_cross :: "'t cross_pool"
  kv_cross_img :: "'t cross_pool"
  kv_pools :: "('t list \<times> 't list) list"
  kv_current :: bool

definition kv_block_size :: "('m, 't) kv_cache \<Rightarrow> int" where
  "kv_block_size K = sp_block_size (kv_spec K)"

definition begin_request :: "string \<Rightarrow> int \<Rightarrow> ('m, 't) kv_cache \<Rightarrow> adapter \<times> ('m, 't) kv_cache" where
  "begin_request rid prefill K =
     (new_adapter rid (sp_chunk_size (kv_spec K)) prefill, K\<lparr>kv_adapters := dict_set rid () (kv_adapters K)\<rparr>)"

definition end_request :: "'m manager \<Rightarrow> adapter \<Rightarrow> ('m, 't) kv_cache \<Rightarrow> ('m, 't) kv_cache" where
  "end_request M a K = K\<lparr>kv_mgr := mg_free M a (kv_mgr K), kv_adapters := dict_del (request_id a) (kv_adapters K)\<rparr>"

definition block_table :: "'m manager \<Rightarrow> adapter \<Rightarrow> ('m, 't) kv_cache \<Rightarrow> int list" where
  "block_table M a K = mg_block_ids M (request_id a) (kv_mgr K)"

definition window_block_ids :: "'m manager \<Rightarrow> adapter \<Rightarrow> ('m, 't) kv_cache \<Rightarrow> int list" where
  "window_block_ids M a K = resident_block_ids (block_table M a K) (mg_null M)"

definition allocate_chunk :: "'m manager \<Rightarrow> adapter \<Rightarrow> ('m, 't) kv_cache \<Rightarrow> (py_exc + int list) \<times> ('m, 't) kv_cache" where
  "allocate_chunk M a K =
     (case mg_allocate M a (sp_chunk_size (kv_spec K)) (kv_mgr K) of (granted, m) \<Rightarrow>
        (let K1 = K\<lparr>kv_mgr := m\<rparr> in (if granted then Inr (block_table M a K1) else Inl RuntimeError, K1)))"

definition allocate_token_slots ::
  "'m manager \<Rightarrow> adapter \<Rightarrow> int \<Rightarrow> ('m, 't) kv_cache \<Rightarrow> (py_exc + int list) \<times> ('m, 't) kv_cache" where
  "allocate_token_slots M a n K =
     (if n \<le> 0 then (Inl ValueError, K)
      else case mg_allocate M a n (kv_mgr K) of (granted, m) \<Rightarrow>
        (let K1 = K\<lparr>kv_mgr := m\<rparr> in (if granted then Inr (block_table M a K1) else Inl RuntimeError, K1)))"

definition chunk_write_slots :: "'m manager \<Rightarrow> adapter \<Rightarrow> ('m, 't) kv_cache \<Rightarrow> py_exc + int list" where
  "chunk_write_slots M a K =
     chunk_slot_mapping (block_table M a K) (num_computed_tokens a) (sp_chunk_size (kv_spec K)) (kv_block_size K)"

definition scratch_block_ids :: "bool \<Rightarrow> int \<Rightarrow> int \<Rightarrow> ('m, 't) kv_cache \<Rightarrow> py_exc + int list" where
  "scratch_block_ids is_negative start count K =
     (if count < 0 \<or> start < 0 then Inl ValueError
      else if start + count > kv_scratch_per_branch K then Inl RuntimeError
      else let branch_offset = (if is_negative \<and> kv_local_branches K = 2 then kv_scratch_per_branch K else 0);
               base = kv_managed_num_blocks K + branch_offset + start
           in Inr (arange base (base + count)))"

definition commit_chunk :: "adapter \<Rightarrow> adapter" where
  "commit_chunk a = on_chunk_committed a"

definition write_chunk_kv ::
  "'m manager \<Rightarrow> nat \<Rightarrow> 't list list \<Rightarrow> 't list list \<Rightarrow> adapter \<Rightarrow> ('m, 't) kv_cache \<Rightarrow> py_exc + ('m, 't) kv_cache" where
  "write_chunk_kv M layer new_k new_v a K =
     rbind (chunk_write_slots M a K) (\<lambda>slots.
       if length (kv_pools K) \<le> layer then Inl IndexError
       else (case kv_pools K ! layer of (k_pool, v_pool) \<Rightarrow>
         rbind (pool_write_chunk k_pool v_pool new_k new_v slots)
           (\<lambda>p. Inr (K\<lparr>kv_pools := (kv_pools K)[layer := p]\<rparr>))))"

text \<open>Cross-attention: one slot per layer and branch, whoever writes it.\<close>

definition write_cross_kv ::
  "nat \<Rightarrow> bool \<Rightarrow> ('t \<times> 't) option \<Rightarrow> ('t \<times> 't) option \<Rightarrow> ('m, 't) kv_cache \<Rightarrow> py_exc + ('m, 't) kv_cache" where
  "write_cross_kv layer is_negative text_kv img_kv K =
     rbind (case text_kv of
          None \<Rightarrow> Inr (kv_cross K)
        | Some kv \<Rightarrow> if length (kv_cross K) \<le> layer then Inl IndexError
                     else Inr ((kv_cross K)[layer := (kv_cross K ! layer)(is_negative := Some kv)]))
       (\<lambda>cross. rbind
          (if img_kv \<noteq> None \<and> kv_cross_img K \<noteq> []
           then if length (kv_cross_img K) \<le> layer then Inl IndexError
                else Inr ((kv_cross_img K)[layer := (kv_cross_img K ! layer)(is_negative := img_kv)])
           else Inr (kv_cross_img K))
          (\<lambda>img. Inr (K\<lparr>kv_cross := cross, kv_cross_img := img\<rparr>)))"

text \<open>The dictionary of one layer; \<open>cc_img\<close> is absent without an image pool.\<close>

record 't cross_cache =
  cc_text :: "('t \<times> 't) option"
  cc_img :: "('t \<times> 't) option option"

definition read_cross_kv :: "nat \<Rightarrow> bool \<Rightarrow> ('m, 't) kv_cache \<Rightarrow> py_exc + 't cross_cache" where
  "read_cross_kv layer is_negative K =
     (if length (kv_cross K) \<le> layer then Inl IndexError
      else if kv_cross_img K = [] then Inr \<lparr>cc_text = (kv_cross K ! layer) is_negative, cc_img = None\<rparr>
      else if length (kv_cross_img K) \<le> layer then Inl IndexError
      else Inr \<lparr>cc_text = (kv_cross K ! layer) is_negative, cc_img = Some ((kv_cross_img K ! layer) is_negative)\<rparr>)"

section \<open>Building the cache\<close>

definition compute_num_blocks :: "(int \<Rightarrow> rat \<Rightarrow> int) \<Rightarrow> int \<Rightarrow> rat \<Rightarrow> int \<Rightarrow> py_exc + int" where
  "compute_num_blocks scale available fraction page =
     (if page \<le> 0 then Inl ValueError
      else if \<not> (0 < fraction \<and> fraction \<le> 1) then Inl ValueError
      else Inr (max 0 (scale available fraction div page)))"

text \<open>\<^verbatim>\<open>ARDiffusionKVConfig\<close>; the fraction is the float's value.\<close>

record kv_config =
  cf_enable :: bool
  cf_chunk_size :: int
  cf_window_chunks :: "int option"
  cf_sink_chunks :: int
  cf_reset_at_boundary :: bool
  cf_gpu_memory_fraction :: rat
  cf_warmup_cudagraph :: bool
  cf_warmup_capture_reset :: bool

definition default_config :: kv_config where
  "default_config = \<lparr>cf_enable = False, cf_chunk_size = 0, cf_window_chunks = None, cf_sink_chunks = 0,
     cf_reset_at_boundary = False, cf_gpu_memory_fraction = 1 / 10,
     cf_warmup_cudagraph = True, cf_warmup_capture_reset = False\<rparr>"

definition config_sliding_window :: "kv_config \<Rightarrow> int option" where
  "config_sliding_window C = map_option (\<lambda>w. w * cf_chunk_size C) (cf_window_chunks C)"

record kv_geometry =
  ge_num_layers :: int
  ge_num_kv_heads :: int
  ge_head_size :: int
  ge_itemsize :: int
  ge_block_size :: int
  ge_max_model_len :: int
  ge_available_bytes :: int
  ge_cross_attn_length :: int
  ge_cross_attn_img_length :: int
  ge_device :: bool
  ge_local_branches :: int
  ge_num_frame_per_block :: int

definition cross_pool_bytes :: "kv_geometry \<Rightarrow> int \<Rightarrow> int" where
  "cross_pool_bytes G len = 2 * 2 * len * ge_num_kv_heads G * ge_head_size G * ge_itemsize G * ge_num_layers G"

definition cross_total_bytes :: "kv_geometry \<Rightarrow> int" where
  "cross_total_bytes G =
     (if ge_device G \<and> ge_cross_attn_length G > 0
      then cross_pool_bytes G (ge_cross_attn_length G)
         + (if ge_cross_attn_img_length G > 0 then cross_pool_bytes G (ge_cross_attn_img_length G) else 0)
      else 0)"

definition min_blocks :: "int \<Rightarrow> int \<Rightarrow> int \<Rightarrow> int" where
  "min_blocks local_branches window_chunks num_frame_per_block = local_branches * (window_chunks + num_frame_per_block) + 2"

text \<open>
  What the constructor takes from outside: the float product \<^verbatim>\<open>int(bytes * fraction)\<close>, vLLM's page size
  of a spec, its manager for a spec, a number of blocks and a maximal length, the environment variable
  and what freshly allocated memory holds.
\<close>

record ('m, 't) kv_world =
  wo_scale :: "int \<Rightarrow> rat \<Rightarrow> int"
  wo_page_size :: "chunk_window_spec \<Rightarrow> int"
  wo_build :: "chunk_window_spec \<Rightarrow> int \<Rightarrow> int \<Rightarrow> 'm"
  wo_scratch_env :: "string option"
  wo_junk :: 't

definition spec_of :: "kv_config \<Rightarrow> kv_geometry \<Rightarrow> int \<Rightarrow> chunk_window_spec" where
  "spec_of C G w = \<lparr>sp_block_size = ge_block_size G, sp_sliding_window = w * cf_chunk_size C,
     sp_chunk_size = cf_chunk_size C, sp_window_chunks = w, sp_sink_chunks = cf_sink_chunks C,
     sp_reset_at_boundary = cf_reset_at_boundary C\<rparr>"

definition new_cross_pool :: "kv_geometry \<Rightarrow> bool \<Rightarrow> 't cross_pool" where
  "new_cross_pool G used = (if used then replicate (nat (ge_num_layers G)) (\<lambda>_. None) else [])"

definition new_kv_pools :: "('m, 't) kv_world \<Rightarrow> kv_geometry \<Rightarrow> int \<Rightarrow> ('t list \<times> 't list) list" where
  "new_kv_pools W G num_blocks =
     (let rows = replicate (nat (num_blocks * ge_block_size G)) (wo_junk W)
      in if ge_device G then replicate (nat (ge_num_layers G)) (rows, rows) else [])"

definition new_kv_cache :: "('m, 't) kv_world \<Rightarrow> kv_config \<Rightarrow> kv_geometry \<Rightarrow> py_exc + ('m, 't) kv_cache" where
  "new_kv_cache W C G =
     (if \<not> cf_enable C then Inl ValueError
      else case cf_window_chunks C of
        None \<Rightarrow> Inl ValueError
      | Some w \<Rightarrow>
          if cf_chunk_size C \<le> 0 then Inl ValueError
          else if ge_local_branches G \<noteq> 1 \<and> ge_local_branches G \<noteq> 2 then Inl ValueError
          else
            (let nfpb = max 1 (ge_num_frame_per_block G);
                 has_cross = ge_device G \<and> ge_cross_attn_length G > 0
             in rbind (ChunkWindowSpec (spec_of C G w)) (\<lambda>spec.
                rbind (compute_num_blocks (wo_scale W) (max 0 (ge_available_bytes G - cross_total_bytes G))
                         (cf_gpu_memory_fraction C) (wo_page_size W spec * ge_num_layers G)) (\<lambda>n.
                let floor_blocks = min_blocks (ge_local_branches G) w nfpb;
                    managed = (if n < floor_blocks then floor_blocks else n)
                in rbind (case wo_scratch_env W of None \<Rightarrow> Inr 4 | Some s \<Rightarrow> py_int s) (\<lambda>scratch.
                   if scratch \<le> 0 then Inl ValueError
                   else Inr \<lparr>kv_spec = spec, kv_num_layers = ge_num_layers G, kv_local_branches = ge_local_branches G,
                     kv_managed_num_blocks = managed, kv_scratch_per_branch = scratch,
                     kv_cross_attn_length = ge_cross_attn_length G,
                     kv_mgr = wo_build W spec managed (ge_max_model_len G), kv_adapters = [],
                     kv_cross = new_cross_pool G has_cross,
                     kv_cross_img = new_cross_pool G (has_cross \<and> ge_cross_attn_img_length G > 0),
                     kv_pools = new_kv_pools W G (managed + ge_local_branches G * scratch), kv_current = False\<rparr>)))))"

section \<open>What the code relies on of the manager\<close>

definition ceil_div :: "int \<Rightarrow> int \<Rightarrow> int" where
  "ceil_div a b = (a + b - 1) div b"

definition skipped_blocks :: "chunk_window_spec \<Rightarrow> adapter \<Rightarrow> nat" where
  "skipped_blocks s a =
     (case get_num_skipped_tokens s (num_computed_tokens a) of Inl e \<Rightarrow> 0 | Inr k \<Rightarrow> nat (k div sp_block_size s))"

text \<open>Leading blocks are given back and replaced by the null block.\<close>

definition evict_blocks :: "int \<Rightarrow> nat \<Rightarrow> int list \<Rightarrow> int list" where
  "evict_blocks null_id k tab = replicate (min k (length tab)) null_id @ drop k tab"

definition tables_disjoint :: "'m manager \<Rightarrow> int \<Rightarrow> 'm \<Rightarrow> bool" where
  "tables_disjoint M N m \<longleftrightarrow>
     (\<forall>r. let bs = resident_block_ids (mg_block_ids M r m) (mg_null M) in
        distinct bs \<and> set bs \<subseteq> {0..<N} \<and>
        (\<forall>q. q \<noteq> r \<longrightarrow> set bs \<inter> set (resident_block_ids (mg_block_ids M q m) (mg_null M)) = {}))"

definition owned_by_others :: "'m manager \<Rightarrow> string \<Rightarrow> 'm \<Rightarrow> int set" where
  "owned_by_others M r m = (\<Union>q \<in> - {r}. set (resident_block_ids (mg_block_ids M q m) (mg_null M)))"

text \<open>
  Of \<open>N\<close> blocks one is the null block.  Allocation first gives back the blocks the spec lets it skip; it
  extends the table by the blocks the tokens need, none of them in use, and it grants them at least when
  \<open>slack\<close> more are free.  Freeing a request empties its table.
\<close>

definition allocation_law :: "'m manager \<Rightarrow> chunk_window_spec \<Rightarrow> int \<Rightarrow> int \<Rightarrow> ('m \<Rightarrow> bool) \<Rightarrow> adapter \<Rightarrow> int \<Rightarrow> 'm \<Rightarrow> bool" where
  "allocation_law M s N slack ok a n m =
     (let r = request_id a; tab = mg_block_ids M r m;
          kept = evict_blocks (mg_null M) (skipped_blocks s a) tab;
          fresh = ceil_div (num_computed_tokens a + n) (sp_block_size s) - int (length tab);
          used = owned_by_others M r m \<union> set (resident_block_ids kept (mg_null M))
      in case mg_allocate M a n m of (granted, m1) \<Rightarrow>
         ok m1 \<and> (\<forall>q. q \<noteq> r \<longrightarrow> mg_block_ids M q m1 = mg_block_ids M q m) \<and>
         (if granted then \<exists>new. length new = nat fresh \<and> mg_null M \<notin> set new \<and> mg_block_ids M r m1 = kept @ new
          else mg_block_ids M r m1 \<in> {tab, kept}) \<and>
         (fresh + slack \<le> N - 1 - int (card used) \<longrightarrow> granted))"

definition manager_laws :: "'m manager \<Rightarrow> chunk_window_spec \<Rightarrow> int \<Rightarrow> int \<Rightarrow> ('m \<Rightarrow> bool) \<Rightarrow> bool" where
  "manager_laws M s N slack ok \<longleftrightarrow>
     (\<forall>m. ok m \<longrightarrow> tables_disjoint M N m) \<and>
     (\<forall>a n m. ok m \<longrightarrow> 0 < n \<longrightarrow> allocation_law M s N slack ok a n m) \<and>
     (\<forall>a m. ok m \<longrightarrow> ok (mg_free M a m) \<and> mg_block_ids M (request_id a) (mg_free M a m) = [] \<and>
        (\<forall>q. q \<noteq> request_id a \<longrightarrow> mg_block_ids M q (mg_free M a m) = mg_block_ids M q m))"

section \<open>Rows of a pool\<close>

definition in_range :: "nat \<Rightarrow> int list \<Rightarrow> bool" where
  "in_range n idx = list_all (\<lambda>i. 0 \<le> i \<and> i < int n) idx"

lemma torch_indices_ok: "in_range n idx \<Longrightarrow> torch_indices n idx = Inr (map nat idx)"
  by (induction idx) (auto simp: in_range_def torch_index_def)

lemma get_rows_ok: "in_range (length xs) idx \<Longrightarrow> get_rows xs idx = Inr (map (\<lambda>i. xs ! nat i) idx)"
  by (simp add: get_rows_def torch_indices_ok)

definition put_at :: "(nat \<times> 'a) list \<Rightarrow> 'a list \<Rightarrow> 'a list" where
  "put_at kys xs = fold (\<lambda>(k, y) zs. zs[k := y]) kys xs"

lemma put_at_simps [simp]: "put_at [] xs = xs" "put_at ((k, y) # kys) xs = put_at kys (xs[k := y])"
  by (simp_all add: put_at_def)

lemma put_at_length [simp]: "length (put_at kys xs) = length xs"
  by (induction kys arbitrary: xs) auto

lemma put_at_other: "i \<notin> fst ` set kys \<Longrightarrow> put_at kys xs ! i = xs ! i"
  by (induction kys arbitrary: xs) auto

lemma put_at_same:
  "distinct (map fst kys) \<Longrightarrow> (k, y) \<in> set kys \<Longrightarrow> k < length xs \<Longrightarrow> put_at kys xs ! k = y"
proof (induction kys arbitrary: xs)
  case (Cons p kys)
  then show ?case by (cases p) (auto simp: put_at_other image_iff)
qed simp

lemma put_rows_ok:
  assumes "in_range (length xs) idx" "length ys = length idx"
  shows "put_rows xs idx ys = Inr (put_at (zip (map nat idx) ys) xs)"
proof -
  have "(if length ys = 1 then replicate (length idx) (hd ys) else ys) = ys"
    using assms(2) by (cases ys) auto
  then show ?thesis using assms by (simp add: put_rows_def Let_def torch_indices_ok put_at_def)
qed

lemma nat_distinct: "distinct idx \<Longrightarrow> in_range n idx \<Longrightarrow> distinct (map nat idx)"
  by (auto simp: distinct_map in_range_def list_all_iff intro!: inj_onI) (metis eq_nat_nat_iff)

text \<open>Reading after a write, at the same and at other places.\<close>

lemma read_written:
  assumes "in_range (length xs) idx" "length ys = length idx" "distinct idx"
  shows "map (\<lambda>i. put_at (zip (map nat idx) ys) xs ! nat i) idx = ys"
proof (rule nth_equalityI)
  fix i assume "i < length (map (\<lambda>i. put_at (zip (map nat idx) ys) xs ! nat i) idx)"
  then have i: "i < length idx" by simp
  have "(nat (idx ! i), ys ! i) \<in> set (zip (map nat idx) ys)"
    using i assms(2) by (auto simp: set_zip intro!: exI [of _ i])
  moreover have "nat (idx ! i) < length xs" using i assms(1) by (auto simp: in_range_def list_all_length nat_less_iff)
  moreover have "distinct (map fst (zip (map nat idx) ys))" using nat_distinct [OF assms(3,1)] assms(2) by simp
  ultimately show "map (\<lambda>i. put_at (zip (map nat idx) ys) xs ! nat i) idx ! i = ys ! i"
    using i put_at_same by simp
qed (use assms in simp)

lemma read_elsewhere:
  assumes "in_range (length xs) idx" "in_range n other" "set idx \<inter> set other = {}" "length ys = length idx"
  shows "map (\<lambda>i. put_at (zip (map nat idx) ys) xs ! nat i) other = map (\<lambda>i. xs ! nat i) other"
proof (rule map_cong [OF refl])
  fix i assume i: "i \<in> set other"
  have "nat i \<notin> nat ` set idx"
  proof
    assume "nat i \<in> nat ` set idx"
    then obtain j where "j \<in> set idx" "nat i = nat j" by auto
    moreover have "0 \<le> i" "0 \<le> j" using i \<open>j \<in> set idx\<close> assms(1,2) by (auto simp: in_range_def list_all_iff)
    ultimately have "i \<in> set idx" by (simp add: eq_nat_nat_iff)
    with i assms(3) show False by auto
  qed
  moreover have "fst ` set (zip (map nat idx) ys) = nat ` set idx" using assms(4) by (metis length_map map_fst_zip set_map)
  ultimately show "put_at (zip (map nat idx) ys) xs ! nat i = xs ! nat i" by (simp add: put_at_other)
qed

section \<open>The slots of blocks\<close>

definition block_slots :: "nat \<Rightarrow> int \<Rightarrow> int list" where
  "block_slots B b = map (\<lambda>j. b * int B + int j) [0..<B]"

definition slots_of :: "nat \<Rightarrow> int list \<Rightarrow> int list" where
  "slots_of B tab = concat (map (block_slots B) tab)"

lemma slots_of_simps [simp]:
  "slots_of B [] = []" "slots_of B (b # tab) = block_slots B b @ slots_of B tab"
  "slots_of B (xs @ ys) = slots_of B xs @ slots_of B ys"
  by (simp_all add: slots_of_def)

lemma length_block_slots [simp]: "length (block_slots B b) = B"
  by (simp add: block_slots_def)

lemma length_slots_of [simp]: "length (slots_of B tab) = B * length tab"
  by (induction tab) (simp_all add: algebra_simps)

lemma slots_of_nth:
  assumes "i < B * length tab"
  shows "slots_of B tab ! i = tab ! (i div B) * int B + int (i mod B)"
  using assms
proof (induction tab arbitrary: i)
  case (Cons b tab)
  show ?case
  proof (cases "i < B")
    case True
    then show ?thesis by (simp add: nth_append block_slots_def)
  next
    case False
    then have B: "0 < B" using Cons.prems by (cases B) auto
    have "i div B = Suc ((i - B) div B)" using False B by (simp add: div_if not_less)
    moreover have "i mod B = (i - B) mod B" using False by (simp add: le_mod_geq)
    moreover have "i - B < B * length tab" using Cons.prems False by simp
    ultimately show ?thesis using False Cons.IH [of "i - B"] by (simp add: nth_append)
  qed
qed simp

lemma in_slots:
  assumes "x \<in> set (slots_of B tab)"
  shows "\<exists>b \<in> set tab. b * int B \<le> x \<and> x < (b + 1) * int B"
  using assms by (induction tab) (auto simp: block_slots_def algebra_simps)

lemma slots_disjoint:
  assumes "set xs \<inter> set ys = {}"
  shows "set (slots_of B xs) \<inter> set (slots_of B ys) = {}"
proof (rule ccontr)
  assume "\<not> ?thesis"
  then obtain x where "x \<in> set (slots_of B xs)" "x \<in> set (slots_of B ys)" by auto
  then obtain b c where bc: "b \<in> set xs" "c \<in> set ys" "b * int B \<le> x" "x < (b + 1) * int B" "c * int B \<le> x" "x < (c + 1) * int B"
    using in_slots by meson
  then have "b * int B < (c + 1) * int B" "c * int B < (b + 1) * int B" by linarith+
  then have "b < c + 1" "c < b + 1" by (auto simp: mult_less_cancel_right)
  then have "b = c" by simp
  with bc assms show False by auto
qed

lemma slots_distinct: "distinct tab \<Longrightarrow> distinct (slots_of B tab)"
proof (induction tab)
  case (Cons b tab)
  have "distinct (block_slots B b)" by (auto simp: block_slots_def distinct_map inj_on_def)
  moreover have "set (block_slots B b) \<inter> set (slots_of B tab) = {}"
    using slots_disjoint [of "[b]" tab B] Cons.prems by simp
  ultimately show ?case using Cons by simp
qed simp

lemma slots_in_range:
  assumes "\<forall>b \<in> set tab. 0 \<le> b \<and> b < N" "N * int B \<le> int n"
  shows "in_range n (slots_of B tab)"
  unfolding in_range_def list_all_iff
proof
  fix x assume "x \<in> set (slots_of B tab)"
  then obtain b where b: "b \<in> set tab" "b * int B \<le> x" "x < (b + 1) * int B" using in_slots by meson
  have "0 \<le> b * int B" "(b + 1) * int B \<le> N * int B" using assms(1) b(1) by (auto intro!: mult_right_mono)
  with b assms(2) show "0 \<le> x \<and> x < int n" by linarith
qed

text \<open>Mapping consecutive positions reads the slots of the table in order.\<close>

lemma slot_mapping_exact:
  assumes "0 < B" "p + len \<le> B * length tab"
  shows "compute_slot_mapping tab (arange (int p) (int p + int len)) (int B) = Inr (take len (drop p (slots_of B tab)))"
proof -
  let ?pos = "arange (int p) (int p + int len)"
  have pos: "?pos = map (\<lambda>i. int (p + i)) [0..<len]" by (simp add: arange_def)
  have d: "(p + i) div B < length tab" if "i < len" for i
  proof -
    have "p + i < B * length tab" using that assms(2) by simp
    then show ?thesis by (metis assms(1) div_less_iff_less_mult mult.commute)
  qed
  have "in_range (length tab) (map (\<lambda>p. p div int B) ?pos)"
    unfolding pos using d by (auto simp: in_range_def list_all_iff simp flip: of_nat_add zdiv_int)
  then have "compute_slot_mapping tab ?pos (int B) =
      Inr (map2 (\<lambda>b p. b * int B + p mod int B) (map (\<lambda>i. tab ! nat i) (map (\<lambda>p. p div int B) ?pos)) ?pos)"
    using assms(1) by (simp add: compute_slot_mapping_def get_rows_ok)
  also have "map2 (\<lambda>b p. b * int B + p mod int B) (map (\<lambda>i. tab ! nat i) (map (\<lambda>p. p div int B) ?pos)) ?pos =
      take len (drop p (slots_of B tab))"
  proof (rule nth_equalityI)
    fix i assume "i < length (map2 (\<lambda>b p. b * int B + p mod int B) (map (\<lambda>i. tab ! nat i) (map (\<lambda>p. p div int B) ?pos)) ?pos)"
    then have i: "i < len" by (simp add: pos)
    have q: "?pos ! i = int (p + i)" using i by (simp add: pos)
    have "nat (int (p + i) div int B) = (p + i) div B" "int (p + i) mod int B = int ((p + i) mod B)"
      by (metis nat_int zdiv_int, metis zmod_int)
    then show "map2 (\<lambda>b p. b * int B + p mod int B) (map (\<lambda>i. tab ! nat i) (map (\<lambda>p. p div int B) ?pos)) ?pos ! i =
        take len (drop p (slots_of B tab)) ! i"
      using i q assms(2) slots_of_nth [of "p + i" B tab] by (simp add: pos)
  qed (use assms(2) in \<open>simp add: pos\<close>)
  finally show ?thesis .
qed

section \<open>Eviction of a sliding window\<close>

lemma chunk_multiple:
  assumes "0 < (cs :: int)" "0 \<le> m"
  shows "0 \<le> m div cs * cs" "m div cs * cs \<le> m" "m < m div cs * cs + cs"
proof -
  have "m = m div cs * cs + m mod cs" by simp
  moreover have "0 \<le> m mod cs" "m mod cs < cs" using assms(1) by simp_all
  ultimately show "m div cs * cs \<le> m" "m < m div cs * cs + cs" by linarith+
  show "0 \<le> m div cs * cs" using assms by (simp add: pos_imp_zdiv_nonneg_iff)
qed

text \<open>
  What is skipped is whole chunks.  A sliding window keeps at least the window and the sink, and
  less than one chunk more once it skips anything; the reset drops all complete chunks but the sink.
\<close>

lemma skip_bounds:
  assumes "0 < cs" "0 \<le> w" "0 \<le> sink" "0 \<le> n"
  shows "\<exists>k. chunk_window_skipped_tokens n cs (w * cs) sink reset_at_boundary = Inr k \<and> cs dvd k \<and> 0 \<le> k \<and> k \<le> n \<and>
    (if reset_at_boundary then k = max 0 ((n div cs - sink) * cs)
     else min n ((w + sink) * cs) \<le> n - k \<and> (0 < k \<longrightarrow> n - k < (w + sink) * cs + cs))"
proof (cases reset_at_boundary)
  case True
  have "(n div cs) * cs \<le> n" using chunk_multiple [OF assms(1,4)] by simp
  moreover have "(n div cs) * cs - sink * cs = (n div cs - sink) * cs" by (simp add: algebra_simps)
  moreover have "0 \<le> sink * cs" using assms by simp
  moreover have "cs dvd max 0 ((n div cs - sink) * cs)" by (simp add: max_def)
  ultimately show ?thesis using True assms(1,4) by (simp add: chunk_window_skipped_tokens_def py_floordiv_def)
next
  case False
  define m where "m = max 0 (n - w * cs - sink * cs)"
  have k: "chunk_window_skipped_tokens n cs (w * cs) sink reset_at_boundary = Inr (m div cs * cs)"
    using False assms(1) by (simp add: chunk_window_skipped_tokens_def py_floordiv_def m_def)
  have "(w + sink) * cs = w * cs + sink * cs" by (simp add: algebra_simps)
  moreover have "0 \<le> w * cs" "0 \<le> sink * cs" using assms by simp_all
  moreover have "m = 0 \<and> n - w * cs - sink * cs \<le> 0 \<or> m = n - w * cs - sink * cs \<and> 0 \<le> m" by (auto simp: m_def)
  ultimately show ?thesis using False k chunk_multiple [of cs m] assms(1,4) by (simp add: min_def) linarith
qed

definition sliding_spec :: "chunk_window_spec \<Rightarrow> bool" where
  "sliding_spec s \<longleftrightarrow> 0 < sp_chunk_size s \<and> sp_block_size s = sp_chunk_size s \<and> \<not> sp_reset_at_boundary s \<and>
     0 < sp_window_chunks s \<and> 0 \<le> sp_sink_chunks s \<and> sp_sliding_window s = sp_window_chunks s * sp_chunk_size s"

definition whole_chunks :: "chunk_window_spec \<Rightarrow> adapter \<Rightarrow> bool" where
  "whole_chunks s a \<longleftrightarrow> ad_prefill a = 0 \<and> ad_chunk_size a = sp_chunk_size s \<and> 0 \<le> completed_chunks a"

lemma skipped_sliding:
  assumes "sliding_spec s" "whole_chunks s a"
  shows "skipped_blocks s a = nat (completed_chunks a - sp_window_chunks s - sp_sink_chunks s)"
proof -
  let ?c = "sp_chunk_size s" and ?d = "completed_chunks a - sp_window_chunks s - sp_sink_chunks s"
  have c: "0 < ?c" using assms(1) by (simp add: sliding_spec_def)
  have "completed_chunks a * ?c - sp_window_chunks s * ?c - sp_sink_chunks s * ?c = ?d * ?c" by (simp add: algebra_simps)
  moreover have "max 0 (?d * ?c) = max 0 ?d * ?c" using c by (auto simp: max_def mult_less_0_iff zero_le_mult_iff)
  ultimately show ?thesis using assms c
    by (simp add: skipped_blocks_def get_num_skipped_tokens_def chunk_window_skipped_tokens_def Let_def
        py_floordiv_def sliding_spec_def whole_chunks_def num_computed_tokens_def)
qed

lemma evict_table:
  assumes "null_id \<notin> set live"
  shows "evict_blocks null_id k (replicate e null_id @ live) =
    replicate (max e (min k (e + length live))) null_id @ drop (k - e) live"
proof (cases "k \<le> e")
  case True
  then have "replicate k null_id @ replicate (e - k) null_id = replicate e null_id" by (simp add: replicate_add [symmetric])
  with True show ?thesis by (simp add: evict_blocks_def min_def max_def)
qed (auto simp: evict_blocks_def min_def max_def)

lemma ceil_div_exact: "0 < b \<Longrightarrow> ceil_div (q * b) b = q"
proof -
  assume b: "0 < b"
  have "(q * b + (b - 1)) div b = q + (b - 1) div b" using b by simp
  moreover have "(b - 1) div b = 0" using b by simp
  ultimately show ?thesis by (simp add: ceil_div_def algebra_simps)
qed

section \<open>A manager that satisfies the laws\<close>

text \<open>
  A small manager: tables in a dictionary, block 0 the null block, the lowest free blocks granted first.
\<close>

definition table_in :: "string \<Rightarrow> (string, int list) dict \<Rightarrow> int list" where
  "table_in r m = (case dict_get m r of None \<Rightarrow> [] | Some t \<Rightarrow> t)"

definition unused_blocks :: "int \<Rightarrow> string \<Rightarrow> int list \<Rightarrow> (string, int list) dict \<Rightarrow> int list" where
  "unused_blocks N r kept m =
     filter (\<lambda>b. b \<notin> set kept \<and> list_all (\<lambda>(q, t). q = r \<or> b \<notin> set t) m) (arange 1 N)"

definition lowest_first :: "chunk_window_spec \<Rightarrow> int \<Rightarrow> (string, int list) dict manager" where
  "lowest_first s N = \<lparr>
     mg_allocate = (\<lambda>a n m.
        let r = request_id a; tab = table_in r m; kept = evict_blocks 0 (skipped_blocks s a) tab;
            fresh = ceil_div (num_computed_tokens a + n) (sp_block_size s) - int (length tab);
            unused = unused_blocks N r kept m
        in if fresh \<le> int (length unused) then (True, dict_set r (kept @ take (nat fresh) unused) m)
           else (False, dict_set r kept m)),
     mg_block_ids = table_in,
     mg_free = (\<lambda>a m. dict_del (request_id a) m),
     mg_null = 0\<rparr>"

definition lowest_ok :: "chunk_window_spec \<Rightarrow> int \<Rightarrow> (string, int list) dict \<Rightarrow> bool" where
  "lowest_ok s N m \<longleftrightarrow> dict_ok m \<and> tables_disjoint (lowest_first s N) N m"

lemma table_in_set: "table_in q (dict_set r t m) = (if q = r then t else table_in q m)"
  by (simp add: table_in_def dict_get_set)

lemma table_in_del: "table_in q (dict_del r m) = (if q = r then [] else table_in q m)"
  by (simp add: table_in_def dict_get_del)

lemma distinct_arange: "distinct (arange a b)"
  by (auto simp: arange_def distinct_map inj_on_def)

lemma set_arange: "set (arange a b) = {a..<b}"
proof -
  have "x \<in> (\<lambda>i. a + int i) ` {0..<nat (b - a)}" if "x \<in> {a..<b}" for x
    using that by (intro image_eqI [of _ _ "nat (x - a)"]) auto
  then show ?thesis by (auto simp: arange_def)
qed

lemma unused_set:
  assumes "dict_ok m"
  shows "set (unused_blocks N r kept m) = {1..<N} - set kept - (\<Union>q \<in> - {r}. set (table_in q m))"
proof -
  have "list_all (\<lambda>(q, t). q = r \<or> b \<notin> set t) m \<longleftrightarrow> b \<notin> (\<Union>q \<in> - {r}. set (table_in q m))" for b
  proof
    assume l: "list_all (\<lambda>(q, t). q = r \<or> b \<notin> set t) m"
    show "b \<notin> (\<Union>q \<in> - {r}. set (table_in q m))"
    proof
      assume "b \<in> (\<Union>q \<in> - {r}. set (table_in q m))"
      then obtain q where q: "q \<noteq> r" "b \<in> set (table_in q m)" by blast
      then obtain t where "dict_get m q = Some t" "b \<in> set t" by (cases "dict_get m q") (auto simp: table_in_def)
      with l q(1) map_of_SomeD show False by (fastforce simp: list_all_iff)
    qed
  next
    assume n: "b \<notin> (\<Union>q \<in> - {r}. set (table_in q m))"
    show "list_all (\<lambda>(q, t). q = r \<or> b \<notin> set t) m"
      unfolding list_all_iff
    proof (intro ballI, clarify)
      fix q t assume "(q, t) \<in> set m" "b \<in> set t" "q \<noteq> r"
      then have "table_in q m = t" using assms by (simp add: table_in_def)
      with n \<open>b \<in> set t\<close> \<open>q \<noteq> r\<close> show False by auto
    qed
  qed
  then show ?thesis by (auto simp: unused_blocks_def set_arange)
qed

lemma resident_evict: "resident_block_ids (evict_blocks null_id k tab) null_id = resident_block_ids (drop k tab) null_id"
  by (simp add: resident_block_ids_def evict_blocks_def)

lemma resident_append: "resident_block_ids (xs @ ys) null_id = resident_block_ids xs null_id @ resident_block_ids ys null_id"
  by (simp add: resident_block_ids_def)

lemma resident_set: "set (resident_block_ids xs null_id) = set xs - {null_id}"
  by (auto simp: resident_block_ids_def)

lemma resident_drop_subset: "set (resident_block_ids (drop k tab) null_id) \<subseteq> set (resident_block_ids tab null_id)"
  by (auto simp: resident_set dest: in_set_dropD)

lemma resident_drop_distinct: "distinct (resident_block_ids tab null_id) \<Longrightarrow> distinct (resident_block_ids (drop k tab) null_id)"
proof -
  assume "distinct (resident_block_ids tab null_id)"
  then have "distinct (resident_block_ids (take k tab @ drop k tab) null_id)" by simp
  then show ?thesis unfolding resident_append by simp
qed

lemma disjoint_tableD:
  assumes "tables_disjoint M N m"
  shows "distinct (resident_block_ids (mg_block_ids M r m) (mg_null M))"
    and "set (resident_block_ids (mg_block_ids M r m) (mg_null M)) \<subseteq> {0..<N}"
    and "set (resident_block_ids (mg_block_ids M r m) (mg_null M)) \<inter> owned_by_others M r m = {}"
  using assms unfolding tables_disjoint_def owned_by_others_def Let_def by blast+

text \<open>Changing one table keeps the tables disjoint when its blocks are new or were its own.\<close>

lemma disjoint_change:
  assumes "tables_disjoint M N m" "\<And>q. q \<noteq> r \<Longrightarrow> mg_block_ids M q m1 = mg_block_ids M q m"
      and "distinct (resident_block_ids (mg_block_ids M r m1) (mg_null M))"
          "set (resident_block_ids (mg_block_ids M r m1) (mg_null M)) \<subseteq> {0..<N} - owned_by_others M r m"
  shows "tables_disjoint M N m1"
  unfolding tables_disjoint_def Let_def
proof (intro allI conjI impI)
  fix x
  show "distinct (resident_block_ids (mg_block_ids M x m1) (mg_null M))"
    "set (resident_block_ids (mg_block_ids M x m1) (mg_null M)) \<subseteq> {0..<N}"
    using assms disjoint_tableD(1,2) [OF assms(1), of x] by (cases "x = r"; auto)+
  fix q assume qx: "q \<noteq> x"
  have own: "set (resident_block_ids (mg_block_ids M y m) (mg_null M)) \<subseteq> owned_by_others M r m" if "y \<noteq> r" for y
    using that by (auto simp: owned_by_others_def)
  have old: "set (resident_block_ids (mg_block_ids M x m) (mg_null M)) \<inter> set (resident_block_ids (mg_block_ids M q m) (mg_null M)) = {}"
    using assms(1) qx by (auto simp: tables_disjoint_def Let_def)
  show "set (resident_block_ids (mg_block_ids M x m1) (mg_null M)) \<inter> set (resident_block_ids (mg_block_ids M q m1) (mg_null M)) = {}"
  proof (cases "x = r")
    case True
    with assms(2) [of q] assms(4) own [of q] qx show ?thesis by auto
  next
    case False
    with assms(2) [of x] assms(2) [of q] assms(4) own [of x] old show ?thesis by (cases "q = r") auto
  qed
qed

lemma lowest_allocation:
  assumes N: "1 \<le> N" and ok: "lowest_ok s N m" and n: "0 < n"
  shows "allocation_law (lowest_first s N) s N 0 (lowest_ok s N) a n m"
proof -
  let ?M = "lowest_first s N" and ?r = "request_id a"
  define tab where "tab = table_in ?r m"
  define kept where "kept = evict_blocks 0 (skipped_blocks s a) tab"
  define fresh where "fresh = ceil_div (num_computed_tokens a + n) (sp_block_size s) - int (length tab)"
  define unused where "unused = unused_blocks N ?r kept m"
  have M: "mg_null ?M = 0" "mg_block_ids ?M = table_in" by (simp_all add: lowest_first_def)
  have d: "dict_ok m" "tables_disjoint ?M N m" using ok by (simp_all add: lowest_ok_def)
  note D = disjoint_tableD [OF d(2), of ?r, unfolded M tab_def [symmetric]]
  have kd: "distinct (resident_block_ids kept 0)" "set (resident_block_ids kept 0) \<subseteq> set (resident_block_ids tab 0)"
    unfolding kept_def resident_evict by (rule resident_drop_distinct [OF D(1)], rule resident_drop_subset)
  have us: "set unused = {1..<N} - set kept - (\<Union>q \<in> - {?r}. set (table_in q m))"
    unfolding unused_def by (rule unused_set [OF d(1)])
  have ud: "distinct unused" by (simp add: unused_def unused_blocks_def distinct_arange)
  have own: "owned_by_others ?M ?r m = (\<Union>q \<in> - {?r}. set (table_in q m)) - {0}"
    by (auto simp: owned_by_others_def M resident_set)
  have own_le: "owned_by_others ?M ?r m \<subseteq> {1..<N}"
    using disjoint_tableD(2) [OF d(2)] by (fastforce simp: owned_by_others_def M resident_set)
  define used where "used = owned_by_others ?M ?r m \<union> set (resident_block_ids kept 0)"
  have used_le: "used \<subseteq> {1..<N}" using own_le kd(2) D(2) by (auto simp: used_def resident_set)
  have "set unused = {1..<N} - used" using us by (auto simp: used_def own resident_set)
  then have len: "int (length unused) = N - 1 - int (card used)"
    using used_le N distinct_card [OF ud] card_mono [OF _ used_le] by (simp add: card_Diff_subset finite_subset)
  have keep_ok: "lowest_ok s N (dict_set ?r kept m)"
    unfolding lowest_ok_def
    by (rule conjI [OF dict_ok_set [OF d(1)] disjoint_change [OF d(2), where r = ?r]])
      (use kd D in \<open>auto simp: M table_in_set\<close>)
  have grant_ok: "lowest_ok s N (dict_set ?r (kept @ take k unused) m)" for k
  proof -
    have tk: "set (take k unused) \<subseteq> set unused" "distinct (take k unused)" using ud by (auto dest: in_set_takeD)
    have "distinct (resident_block_ids (kept @ take k unused) 0)"
      using kd(1) tk us by (auto simp: resident_append resident_block_ids_def)
    moreover have "set (resident_block_ids (kept @ take k unused) 0) \<subseteq> {0..<N} - owned_by_others ?M ?r m"
      using kd(2) D(2,3) tk(1) us by (auto simp: resident_append own resident_set)
    ultimately show ?thesis
      unfolding lowest_ok_def
      by (intro conjI [OF dict_ok_set [OF d(1)] disjoint_change [OF d(2), where r = ?r]]) (auto simp: M table_in_set)
  qed
  have alloc: "mg_allocate ?M a n m = (if fresh \<le> int (length unused) then (True, dict_set ?r (kept @ take (nat fresh) unused) m)
      else (False, dict_set ?r kept m))"
    by (simp add: lowest_first_def Let_def tab_def kept_def fresh_def unused_def)
  have new: "length (take (nat fresh) unused) = nat fresh \<and> 0 \<notin> set (take (nat fresh) unused)" if "fresh \<le> int (length unused)"
    using that us by (auto dest: in_set_takeD)
  show ?thesis
    unfolding allocation_law_def Let_def M tab_def [symmetric] kept_def [symmetric] fresh_def [symmetric] used_def [symmetric]
    using alloc grant_ok keep_ok new len by (auto simp: table_in_set intro!: exI [of _ "take (nat fresh) unused"])
qed

lemma lowest_laws:
  assumes "1 \<le> N"
  shows "manager_laws (lowest_first s N) s N 0 (lowest_ok s N)"
proof -
  have free: "lowest_ok s N (mg_free (lowest_first s N) a m)" if "lowest_ok s N m" for a m
    unfolding lowest_ok_def
    by (rule conjI, use that in \<open>simp add: lowest_ok_def lowest_first_def\<close>,
        rule disjoint_change [where r = "request_id a" and m = m])
      (use that in \<open>auto simp: lowest_ok_def lowest_first_def table_in_del resident_block_ids_def\<close>)
  show ?thesis
    unfolding manager_laws_def
    using free lowest_allocation [OF assms] by (auto simp: lowest_ok_def) (auto simp: lowest_first_def table_in_del)
qed

lemma lowest_empty: "lowest_ok s N []"
  by (simp add: lowest_ok_def tables_disjoint_def lowest_first_def table_in_def resident_block_ids_def)

section \<open>Allocation in a sliding window\<close>

text \<open>
  The table of a request between two chunks: the evicted blocks, then the live ones; nothing is in flight.
\<close>

definition branch_table :: "'m manager \<Rightarrow> chunk_window_spec \<Rightarrow> adapter \<Rightarrow> 'm \<Rightarrow> nat \<Rightarrow> int list \<Rightarrow> bool" where
  "branch_table M s a m e live \<longleftrightarrow>
     whole_chunks s a \<and> mg_block_ids M (request_id a) m = replicate e (mg_null M) @ live \<and> mg_null M \<notin> set live \<and>
     int (e + length live) = completed_chunks a \<and>
     int e \<le> max 0 (completed_chunks a - sp_window_chunks s - sp_sink_chunks s)"

lemma resident_live: "null_id \<notin> set xs \<Longrightarrow> resident_block_ids (replicate k null_id @ xs) null_id = xs"
  by (auto simp: resident_block_ids_def intro!: filter_True)

lemma branch_window:
  assumes "branch_table M s a m e live"
  shows "resident_block_ids (mg_block_ids M (request_id a) m) (mg_null M) = live"
  using assms by (simp add: branch_table_def resident_live)

lemma alloc_rule:
  assumes "manager_laws M s N slack ok" "ok m" "0 < n"
  shows "allocation_law M s N slack ok a n m" "tables_disjoint M N m"
  using assms unfolding manager_laws_def by blast+

lemma window_allocation:
  assumes laws: "manager_laws M s N slack ok" "ok m" and s: "sliding_spec s"
      and b: "branch_table M s a m e live" and c: "0 < c"
      and alloc: "mg_allocate M a (int c * sp_chunk_size s) m = (granted, m1)"
  defines "skip \<equiv> nat (completed_chunks a - sp_window_chunks s - sp_sink_chunks s)"
  defines "kept \<equiv> drop (skip - e) live"
  shows "ok m1" "\<And>q. q \<noteq> request_id a \<Longrightarrow> mg_block_ids M q m1 = mg_block_ids M q m"
    and "granted \<Longrightarrow> \<exists>new. length new = c \<and> mg_null M \<notin> set new \<and>
      mg_block_ids M (request_id a) m1 = replicate skip (mg_null M) @ kept @ new"
    and "int c + int (card (owned_by_others M (request_id a) m)) + int (length kept) + slack \<le> N - 1 \<Longrightarrow> granted"
    and "int (skip + length kept) = completed_chunks a" "e \<le> skip"
proof -
  have cs: "0 < sp_chunk_size s" "sp_block_size s = sp_chunk_size s" using s by (simp_all add: sliding_spec_def)
  have n: "0 < int c * sp_chunk_size s" using c cs by simp
  have w: "whole_chunks s a" using b by (simp add: branch_table_def)
  have tab: "mg_block_ids M (request_id a) m = replicate e (mg_null M) @ live" "mg_null M \<notin> set live"
      "int (e + length live) = completed_chunks a" "int e \<le> max 0 (completed_chunks a - sp_window_chunks s - sp_sink_chunks s)"
    using b by (simp_all add: branch_table_def)
  show es: "e \<le> skip" using tab(4) by (simp add: skip_def max_def split: if_splits)
  have ws: "0 < sp_window_chunks s" "0 \<le> sp_sink_chunks s" "0 \<le> completed_chunks a"
    using s w by (simp_all add: sliding_spec_def whole_chunks_def)
  then have sl: "skip \<le> e + length live" using tab(3) by (simp add: skip_def)
  with es tab(3) show "int (skip + length kept) = completed_chunks a" by (simp add: kept_def)
  have sk: "skipped_blocks s a = skip" unfolding skip_def by (rule skipped_sliding [OF s w])
  have kept: "evict_blocks (mg_null M) (skipped_blocks s a) (mg_block_ids M (request_id a) m) = replicate skip (mg_null M) @ kept"
    unfolding sk tab(1) evict_table [OF tab(2)] kept_def using es sl by (simp add: max_def min_def)
  have "num_computed_tokens a + int c * sp_chunk_size s = (completed_chunks a + int c) * sp_chunk_size s"
    using w by (simp add: num_computed_tokens_def whole_chunks_def algebra_simps)
  then have fresh: "ceil_div (num_computed_tokens a + int c * sp_chunk_size s) (sp_block_size s)
      - int (length (mg_block_ids M (request_id a) m)) = int c"
    using ceil_div_exact [OF cs(1)] cs(2) tab(1,3) by simp
  have nk: "mg_null M \<notin> set kept" using tab(2) by (auto simp: kept_def dest: in_set_dropD)
  have res: "resident_block_ids (replicate skip (mg_null M) @ kept) (mg_null M) = kept"
    using nk by (rule resident_live)
  have law: "ok m1 \<and> (\<forall>q. q \<noteq> request_id a \<longrightarrow> mg_block_ids M q m1 = mg_block_ids M q m) \<and>
      (if granted then \<exists>new. length new = c \<and> mg_null M \<notin> set new \<and>
          mg_block_ids M (request_id a) m1 = (replicate skip (mg_null M) @ kept) @ new
       else mg_block_ids M (request_id a) m1 \<in> {mg_block_ids M (request_id a) m, replicate skip (mg_null M) @ kept}) \<and>
      (int c + slack \<le> N - 1 - int (card (owned_by_others M (request_id a) m \<union> set kept)) \<longrightarrow> granted)"
    using alloc_rule(1) [OF laws n, of a]
    unfolding allocation_law_def Let_def kept fresh res alloc nat_int prod.case .
  then show "ok m1" "\<And>q. q \<noteq> request_id a \<Longrightarrow> mg_block_ids M q m1 = mg_block_ids M q m" by blast+
  show "\<exists>new. length new = c \<and> mg_null M \<notin> set new \<and>
      mg_block_ids M (request_id a) m1 = replicate skip (mg_null M) @ kept @ new" if granted
    using law that by simp
  have "card (owned_by_others M (request_id a) m \<union> set kept) \<le> card (owned_by_others M (request_id a) m) + length kept"
    by (meson add_left_mono card_Un_le card_length le_trans)
  then show "granted" if "int c + int (card (owned_by_others M (request_id a) m)) + int (length kept) + slack \<le> N - 1"
    using law that by linarith
qed

lemma commit_branch:
  assumes s: "sliding_spec s" and w: "whole_chunks s a" and null: "mg_null M \<notin> set kept" "mg_null M \<notin> set new"
      and tab: "mg_block_ids M (request_id a) m1 = replicate skip (mg_null M) @ kept @ new"
      and len: "int (skip + length kept) = completed_chunks a"
      and skip: "skip = nat (completed_chunks a - sp_window_chunks s - sp_sink_chunks s)"
  shows "branch_table M s ((on_chunk_committed ^^ length new) a) m1 skip (kept @ new)"
proof -
  have it: "(on_chunk_committed ^^ k) a = a\<lparr>completed_chunks := completed_chunks a + int k\<rparr>" for k
    by (induction k) (simp_all add: on_chunk_committed_def)
  have "0 < sp_window_chunks s" "0 \<le> sp_sink_chunks s" "0 \<le> completed_chunks a"
    using s w by (simp_all add: sliding_spec_def whole_chunks_def)
  then show ?thesis using w null tab len skip by (auto simp: branch_table_def it whole_chunks_def)
qed

end
