(* ===== verification/Paged_Attention.thy ===== *)
theory Paged_Attention
  imports Paged_Cache Lru_Cache
begin

text \<open>
  The forward context of the paged self-attention
  (\<^verbatim>\<open>experimental/ar_diffusion/kv_cache/paged_attention.py\<close>): where one forward of one branch writes its keys
  and values, the block table the kernel reads, and the write-and-attend operation of a layer.

  A context holds its request's adapter; here the adapter is an argument.  The softmax and the two
  matrix products of attention are the parameter \<open>attend\<close> over the rows of query, keys and values; the
  flash kernel is taken to read the same rows as the reference implementation.
\<close>

section \<open>The context\<close>

record forward_ctx =
  fc_is_negative :: bool
  fc_history :: "int list"
  fc_seq_len :: int
  fc_commit_current :: bool
  fc_max_video_tokens :: int
  fc_video_blocks :: "int list"
  fc_video_slots :: "int list option"
  fc_action_blocks :: "int list"
  fc_action_slots :: "int list option"
  fc_query_len :: int
  fc_kv_len :: int
  fc_allocated_video :: bool
  fc_committed :: bool
  fc_action_len :: int
  fc_block_table :: "int list"
  fc_query_start_loc :: "int list"
  fc_seq_lens :: "int list"
  fc_max_query_len :: int
  fc_max_seq_len :: int
  fc_prepared :: bool

definition new_context :: "bool \<Rightarrow> int list \<Rightarrow> int \<Rightarrow> bool \<Rightarrow> int \<Rightarrow> forward_ctx" where
  "new_context is_negative history seq_len commit_current max_video_tokens =
     \<lparr>fc_is_negative = is_negative, fc_history = history, fc_seq_len = seq_len, fc_commit_current = commit_current,
      fc_max_video_tokens = max_video_tokens, fc_video_blocks = [], fc_video_slots = None, fc_action_blocks = [],
      fc_action_slots = None, fc_query_len = 0, fc_kv_len = 0, fc_allocated_video = False, fc_committed = False,
      fc_action_len = 0, fc_block_table = [], fc_query_start_loc = [], fc_seq_lens = [], fc_max_query_len = 0,
      fc_max_seq_len = 0, fc_prepared = False\<rparr>"

text \<open>A method: its result or exception with the context and the cache it leaves.\<close>

type_synonym ('r, 'm, 't) act = "(py_exc + 'r) \<times> forward_ctx \<times> ('m, 't) kv_cache"

definition act_bind :: "('a, 'm, 't) act \<Rightarrow> ('a \<Rightarrow> forward_ctx \<Rightarrow> ('m, 't) kv_cache \<Rightarrow> ('b, 'm, 't) act) \<Rightarrow> ('b, 'm, 't) act" where
  "act_bind x f = (case x of (Inl e, c, K) \<Rightarrow> (Inl e, c, K) | (Inr r, c, K) \<Rightarrow> f r c K)"

definition num_current_video_blocks :: "forward_ctx \<Rightarrow> ('m, 't) kv_cache \<Rightarrow> py_exc + int" where
  "num_current_video_blocks c K =
     (let bs = kv_block_size K
      in if bs = 0 then Inl ZeroDivisionError
         else if fc_seq_len c mod bs \<noteq> 0 then Inl AssertionError
         else Inr (fc_seq_len c div bs))"

definition ensure_video_slots :: "'m manager \<Rightarrow> adapter \<Rightarrow> forward_ctx \<Rightarrow> ('m, 't) kv_cache \<Rightarrow> (unit, 'm, 't) act" where
  "ensure_video_slots M a c K =
     (if fc_allocated_video c then (Inr (), c, K)
      else case num_current_video_blocks c K of
        Inl e \<Rightarrow> (Inl e, c, K)
      | Inr n_blocks \<Rightarrow>
          (let bs = kv_block_size K;
               finish = (\<lambda>slots c1 K1.
                 (case slots of
                    Inl e \<Rightarrow> (Inl e, c1, K1)
                  | Inr sl \<Rightarrow> (Inr (), c1\<lparr>fc_video_slots := Some sl, fc_allocated_video := True\<rparr>, K1)))
           in if fc_commit_current c
              then let start = num_computed_tokens a
                   in case allocate_token_slots M a (fc_seq_len c) K of
                        (Inl e, K1) \<Rightarrow> (Inl e, c, K1)
                      | (Inr _, K1) \<Rightarrow>
                          let tab = block_table M a K1
                          in finish (compute_slot_mapping tab (arange start (start + fc_seq_len c)) bs)
                               (c\<lparr>fc_video_blocks := take (nat n_blocks) (drop (nat (start div bs)) tab)\<rparr>) K1
              else case scratch_block_ids (fc_is_negative c) 0 n_blocks K of
                     Inl e \<Rightarrow> (Inl e, c, K)
                   | Inr blocks \<Rightarrow>
                       finish (compute_slot_mapping blocks (arange 0 (fc_seq_len c)) bs) (c\<lparr>fc_video_blocks := blocks\<rparr>) K))"

definition ensure_action_slots ::
  "'m manager \<Rightarrow> adapter \<Rightarrow> int \<Rightarrow> forward_ctx \<Rightarrow> ('m, 't) kv_cache \<Rightarrow> (unit, 'm, 't) act" where
  "ensure_action_slots M a action_len c K =
     (if action_len \<le> 0
      then (Inr (), c\<lparr>fc_action_blocks := [], fc_action_slots := Some [], fc_action_len := 0\<rparr>, K)
      else act_bind (ensure_video_slots M a c K) (\<lambda>_ c K.
        if fc_action_slots c \<noteq> None \<and> fc_action_len c = action_len then (Inr (), c, K)
        else let bs = kv_block_size K;
                 action_blocks = (action_len + bs - 1) div bs;
                 scratch_offset = (if fc_commit_current c then 0 else int (length (fc_video_blocks c)))
             in case scratch_block_ids (fc_is_negative c) scratch_offset action_blocks K of
                  Inl e \<Rightarrow> (Inl e, c, K)
                | Inr blocks \<Rightarrow>
                    let c1 = c\<lparr>fc_action_blocks := blocks\<rparr>
                    in case compute_slot_mapping blocks (arange 0 action_len) bs of
                         Inl e \<Rightarrow> (Inl e, c1, K)
                       | Inr sl \<Rightarrow> (Inr (), c1\<lparr>fc_action_slots := Some sl, fc_action_len := action_len\<rparr>, K)))"

text \<open>\<^verbatim>\<open>xs[-k:]\<close>; with \<open>k\<close> zero the code takes the empty list instead.\<close>

definition last_blocks :: "int \<Rightarrow> int list \<Rightarrow> int list" where
  "last_blocks k xs = (if k = 0 then [] else if k > 0 then lastn (nat k) xs else drop (nat (- k)) xs)"

definition video_block_table ::
  "'m manager \<Rightarrow> adapter \<Rightarrow> forward_ctx \<Rightarrow> ('m, 't) kv_cache \<Rightarrow> (int list \<times> int, 'm, 't) act" where
  "video_block_table M a c K =
     act_bind (ensure_video_slots M a c K) (\<lambda>_ c K.
       let bs = kv_block_size K; all_blocks = fc_history c @ fc_video_blocks c
       in if fc_max_video_tokens c mod bs \<noteq> 0 then (Inl AssertionError, c, K)
          else (Inr (last_blocks (fc_max_video_tokens c div bs) all_blocks,
                     min (int (length all_blocks) * bs) (fc_max_video_tokens c)), c, K))"

record table_meta =
  tm_block_table :: "int list"
  tm_query_start_loc :: "int list"
  tm_seq_lens :: "int list"
  tm_max_query_len :: int
  tm_max_seq_len :: int

definition build_block_table ::
  "'m manager \<Rightarrow> adapter \<Rightarrow> int \<Rightarrow> int \<Rightarrow> forward_ctx \<Rightarrow> ('m, 't) kv_cache \<Rightarrow> (table_meta, 'm, 't) act" where
  "build_block_table M a action_len query_len c K =
     act_bind (video_block_table M a c K) (\<lambda>(video_blocks, video_len) c K.
     act_bind (ensure_action_slots M a action_len c K) (\<lambda>_ c K.
       let bs = kv_block_size K;
           block_ids = video_blocks @ (if action_len > 0 then fc_action_blocks c else [])
       in if block_ids = [] then (Inl RuntimeError, c, K)
          else let capacity = max 1 ((action_len + bs - 1) div bs);
                   width = max (fc_max_video_tokens c div bs + capacity) (int (length block_ids));
                   padded = block_ids @ replicate (nat (width - int (length block_ids))) 0;
                   kv_len = video_len + action_len
               in (Inr \<lparr>tm_block_table = padded, tm_query_start_loc = [0, query_len], tm_seq_lens = [kv_len],
                        tm_max_query_len = query_len, tm_max_seq_len = fc_max_video_tokens c + capacity * bs\<rparr>,
                   c\<lparr>fc_query_len := query_len, fc_kv_len := kv_len\<rparr>, K)))"

definition prepare_ctx :: "'m manager \<Rightarrow> adapter \<Rightarrow> int \<Rightarrow> int \<Rightarrow> forward_ctx \<Rightarrow> ('m, 't) kv_cache \<Rightarrow> (unit, 'm, 't) act" where
  "prepare_ctx M a action_len query_len c K =
     (if fc_prepared c then (Inr (), c, K)
      else act_bind (ensure_video_slots M a c K) (\<lambda>_ c K.
        act_bind (build_block_table M a action_len query_len c K) (\<lambda>tm c K.
          (Inr (),
           c\<lparr>fc_block_table := tm_block_table tm, fc_query_start_loc := tm_query_start_loc tm, fc_seq_lens := tm_seq_lens tm,
             fc_max_query_len := tm_max_query_len tm, fc_max_seq_len := tm_max_seq_len tm,
             fc_action_slots := (case fc_action_slots c of None \<Rightarrow> Some [] | Some sl \<Rightarrow> Some sl),
             fc_prepared := True\<rparr>,
           K\<lparr>kv_current := True\<rparr>))))"

record layer_inputs =
  li_layer_idx :: nat
  li_seq_len :: int
  li_video_slots :: "int list"
  li_action_slots :: "int list"
  li_block_table :: "int list"
  li_query_start_loc :: "int list"
  li_seq_lens :: "int list"
  li_max_query_len :: int
  li_max_seq_len :: int

text \<open>After \<^verbatim>\<open>prepare\<close> both slot mappings are present.\<close>

definition to_layer_inputs :: "nat \<Rightarrow> forward_ctx \<Rightarrow> py_exc + layer_inputs" where
  "to_layer_inputs layer c =
     (if \<not> fc_prepared c then Inl RuntimeError
      else Inr \<lparr>li_layer_idx = layer, li_seq_len = fc_seq_len c, li_video_slots = (case fc_video_slots c of None \<Rightarrow> [] | Some sl \<Rightarrow> sl),
        li_action_slots = (case fc_action_slots c of None \<Rightarrow> [] | Some sl \<Rightarrow> sl), li_block_table = fc_block_table c,
        li_query_start_loc = fc_query_start_loc c, li_seq_lens = fc_seq_lens c,
        li_max_query_len = fc_max_query_len c, li_max_seq_len = fc_max_seq_len c\<rparr>)"

definition mark_committed :: "forward_ctx \<Rightarrow> forward_ctx" where
  "mark_committed c = c\<lparr>fc_committed := True\<rparr>"

section \<open>Write and attend\<close>

text \<open>
  The rows the kernel reads for one sequence: position \<open>p\<close> is row \<open>p mod bs\<close> of block \<open>table[p div bs]\<close>.
  The pool's paged and flat forms share their memory.
\<close>

definition paged_rows :: "'t list \<Rightarrow> int list \<Rightarrow> int \<Rightarrow> int \<Rightarrow> py_exc + 't list" where
  "paged_rows pool tab kv_len bs = rbind (compute_slot_mapping tab (arange 0 kv_len) bs) (get_rows pool)"

definition reference_paged_attention ::
  "('t list \<Rightarrow> 't list \<Rightarrow> 't list \<Rightarrow> 't list) \<Rightarrow> 't list \<Rightarrow> 't list \<times> 't list \<Rightarrow> layer_inputs \<Rightarrow> int \<Rightarrow> py_exc + 't list" where
  "reference_paged_attention attend query pools li bs =
     (case (li_query_start_loc li, li_seq_lens li) of
        ([q_start, q_end], [kv_len]) \<Rightarrow>
          rbind (paged_rows (fst pools) (li_block_table li) kv_len bs) (\<lambda>ks.
          rbind (paged_rows (snd pools) (li_block_table li) kv_len bs) (\<lambda>vs.
            Inr (attend (take (nat (q_end - q_start)) (drop (nat q_start) query)) ks vs)))
      | _ \<Rightarrow> Inl IndexError)"

definition put_layer :: "'t list \<times> 't list \<Rightarrow> int list \<Rightarrow> 't list \<times> 't list \<Rightarrow> py_exc + 't list \<times> 't list" where
  "put_layer pools slots rows =
     rbind (put_rows (fst pools) slots (fst rows)) (\<lambda>k. rbind (put_rows (snd pools) slots (snd rows)) (\<lambda>v. Inr (k, v)))"

definition paged_write_attn ::
  "('t list \<Rightarrow> 't list \<Rightarrow> 't list \<Rightarrow> 't list) \<Rightarrow> 't list \<Rightarrow> 't list \<times> 't list \<Rightarrow> ('t list \<times> 't list) option \<Rightarrow>
   layer_inputs \<Rightarrow> ('m, 't) kv_cache \<Rightarrow> py_exc + 't list \<times> ('m, 't) kv_cache" where
  "paged_write_attn attend query cur action li K =
     (if \<not> kv_current K then Inl RuntimeError
      else if length (kv_pools K) \<le> li_layer_idx li then Inl IndexError
      else
        rbind (put_layer (kv_pools K ! li_layer_idx li) (li_video_slots li) cur) (\<lambda>p1.
        rbind (case action of
             None \<Rightarrow> Inr p1
           | Some rows \<Rightarrow> if fst rows = [] then Inr p1 else put_layer p1 (li_action_slots li) rows) (\<lambda>p2.
        rbind (reference_paged_attention attend query p2 li (kv_block_size K)) (\<lambda>out.
          Inr (out, K\<lparr>kv_pools := (kv_pools K)[li_layer_idx li := p2]\<rparr>)))))"

section \<open>Where a forward writes\<close>

definition total_blocks :: "('m, 't) kv_cache \<Rightarrow> int" where
  "total_blocks K = kv_managed_num_blocks K + kv_local_branches K * kv_scratch_per_branch K"

definition cache_shape :: "nat \<Rightarrow> ('m, 't) kv_cache \<Rightarrow> bool" where
  "cache_shape B K \<longleftrightarrow> 0 < B \<and> kv_block_size K = int B \<and> 0 \<le> kv_managed_num_blocks K \<and>
     0 \<le> kv_scratch_per_branch K \<and> (kv_local_branches K = 1 \<or> kv_local_branches K = 2) \<and>
     list_all (\<lambda>(k, v). total_blocks K * int B \<le> int (length k) \<and> total_blocks K * int B \<le> int (length v)) (kv_pools K)"

lemma act_bind_simps [simp]:
  "act_bind (Inl e, c, K) f = (Inl e, c, K)" "act_bind (Inr r, c, K) f = f r c K"
  by (simp_all add: act_bind_def)

definition scratch_base :: "('m, 't) kv_cache \<Rightarrow> bool \<Rightarrow> int" where
  "scratch_base K is_negative =
     kv_managed_num_blocks K + (if is_negative \<and> kv_local_branches K = 2 then kv_scratch_per_branch K else 0)"

lemma scratch_blocks:
  assumes "cache_shape B K" "scratch_block_ids neg start count K = Inr blocks"
  shows "blocks = arange (scratch_base K neg + start) (scratch_base K neg + start + count)" "0 \<le> start" "0 \<le> count"
    "kv_managed_num_blocks K \<le> scratch_base K neg + start" "scratch_base K neg + start + count \<le> total_blocks K"
    "length blocks = nat count"
proof -
  have b: "blocks = arange (scratch_base K neg + start) (scratch_base K neg + start + count)"
    and c: "0 \<le> start" "0 \<le> count" "start + count \<le> kv_scratch_per_branch K"
    using assms(2) by (auto simp: scratch_block_ids_def scratch_base_def Let_def add.assoc split: if_splits)
  show "blocks = arange (scratch_base K neg + start) (scratch_base K neg + start + count)" "0 \<le> start" "0 \<le> count"
    using b c by auto
  show "length blocks = nat count" using b by (simp add: arange_def)
  show "kv_managed_num_blocks K \<le> scratch_base K neg + start" "scratch_base K neg + start + count \<le> total_blocks K"
    using assms(1) c by (auto simp: scratch_base_def total_blocks_def cache_shape_def)
qed

definition set_video :: "nat \<Rightarrow> int list \<Rightarrow> forward_ctx \<Rightarrow> forward_ctx" where
  "set_video B blocks c = c\<lparr>fc_video_blocks := blocks, fc_video_slots := Some (slots_of B blocks), fc_allocated_video := True\<rparr>"

lemma whole_mapping: "0 < B \<Longrightarrow> compute_slot_mapping blocks (arange 0 (int (B * length blocks))) (int B) = Inr (slots_of B blocks)"
  using slot_mapping_exact [of B 0 "B * length blocks" blocks] by simp

text \<open>A forward that is not committed writes to the scratch blocks of its branch.\<close>

lemma scratch_video:
  assumes shape: "cache_shape B K" and c: "fc_seq_len c = int (n * B)" "\<not> fc_commit_current c" "\<not> fc_allocated_video c"
      and run: "ensure_video_slots M a c K = (Inr (), c1, K1)"
  shows "K1 = K" "c1 = set_video B (arange (scratch_base K (fc_is_negative c)) (scratch_base K (fc_is_negative c) + int n)) c"
    "scratch_base K (fc_is_negative c) + int n \<le> total_blocks K"
proof -
  have B: "0 < B" "kv_block_size K = int B" using shape by (simp_all add: cache_shape_def)
  have nb: "num_current_video_blocks c K = Inr (int n)" using B c(1) by (simp add: num_current_video_blocks_def)
  obtain blocks where s: "scratch_block_ids (fc_is_negative c) 0 (int n) K = Inr blocks"
    using run nb c by (auto simp: ensure_video_slots_def Let_def split: sum.splits)
  note S = scratch_blocks [OF shape s]
  have "fc_seq_len c = int (B * length blocks)" using S(6) c(1) by (simp add: mult.commute)
  then have "compute_slot_mapping blocks (arange 0 (fc_seq_len c)) (int B) = Inr (slots_of B blocks)"
    using whole_mapping [OF B(1), of blocks] by simp
  then have "K1 = K \<and> c1 = set_video B blocks c"
    using run nb c s B(2) by (simp add: ensure_video_slots_def set_video_def)
  with S show "K1 = K" "c1 = set_video B (arange (scratch_base K (fc_is_negative c)) (scratch_base K (fc_is_negative c) + int n)) c"
    "scratch_base K (fc_is_negative c) + int n \<le> total_blocks K" by simp_all
qed

text \<open>A forward that is committed writes to the new blocks of its table.\<close>

lemma commit_granted:
  assumes shape: "cache_shape B K" and laws: "manager_laws M (kv_spec K) N slack ok" "ok (kv_mgr K)" and s: "sliding_spec (kv_spec K)"
      and b: "branch_table M (kv_spec K) a (kv_mgr K) e live" and n: "0 < n"
      and c: "fc_seq_len c = int (n * B)" "fc_commit_current c" "\<not> fc_allocated_video c"
      and al: "mg_allocate M a (int n * sp_chunk_size (kv_spec K)) (kv_mgr K) = (True, m1)"
  defines "skip \<equiv> nat (completed_chunks a - sp_window_chunks (kv_spec K) - sp_sink_chunks (kv_spec K))"
  shows "\<exists>new. ensure_video_slots M a c K = (Inr (), set_video B new c, K\<lparr>kv_mgr := m1\<rparr>) \<and> length new = n \<and>
    mg_block_ids M (request_id a) m1 = replicate skip (mg_null M) @ drop (skip - e) live @ new \<and> mg_null M \<notin> set new"
proof -
  let ?sp = "kv_spec K"
  define kept where "kept = drop (skip - e) live"
  have B: "0 < B" "kv_block_size K = int B" "sp_chunk_size ?sp = int B"
    using shape s by (simp_all add: cache_shape_def sliding_spec_def kv_block_size_def)
  have nb: "num_current_video_blocks c K = Inr (int n)" using B c(1) by (simp add: num_current_video_blocks_def)
  have seq: "fc_seq_len c = int n * sp_chunk_size ?sp" "\<not> fc_seq_len c \<le> 0" using B c(1) n by (simp_all add: mult_le_0_iff)
  note W = window_allocation [OF laws s b n al, folded skip_def, folded kept_def]
  obtain new where new: "length new = n" "mg_null M \<notin> set new"
      "mg_block_ids M (request_id a) m1 = replicate skip (mg_null M) @ kept @ new" using W(3) by blast
  let ?tab = "replicate skip (mg_null M) @ kept @ new"
  have start: "num_computed_tokens a = int (B * (skip + length kept))"
    using b B(3) by (simp add: num_computed_tokens_def branch_table_def whole_chunks_def W(5) [symmetric])
  have "compute_slot_mapping ?tab (arange (num_computed_tokens a) (num_computed_tokens a + fc_seq_len c)) (int B) =
      Inr (take (n * B) (drop (B * (skip + length kept)) (slots_of B ?tab)))"
    unfolding start c(1) using slot_mapping_exact [OF B(1), of "B * (skip + length kept)" "n * B" ?tab] new(1)
    by (simp add: algebra_simps)
  also have "take (n * B) (drop (B * (skip + length kept)) (slots_of B ?tab)) = slots_of B new"
    using new(1) by (simp add: algebra_simps)
  finally have sl: "compute_slot_mapping ?tab (arange (num_computed_tokens a) (num_computed_tokens a + fc_seq_len c)) (int B) =
      Inr (slots_of B new)" .
  have "num_computed_tokens a div int B = int (skip + length kept)" unfolding start using B(1) by simp
  then have cut: "take (nat (int n)) (drop (nat (num_computed_tokens a div int B)) ?tab) = new" using new(1) by simp
  have alloc: "allocate_token_slots M a (fc_seq_len c) K = (Inr ?tab, K\<lparr>kv_mgr := m1\<rparr>)"
    unfolding allocate_token_slots_def using seq al new(3) by (simp add: block_table_def)
  have "ensure_video_slots M a c K = (Inr (), set_video B new c, K\<lparr>kv_mgr := m1\<rparr>)"
    unfolding ensure_video_slots_def Let_def B(2) nb alloc
    using c(2,3) sl cut new(3) by (simp add: block_table_def set_video_def)
  with new show ?thesis unfolding kept_def [symmetric] by auto
qed

lemma commit_video:
  assumes shape: "cache_shape B K" and laws: "manager_laws M (kv_spec K) N slack ok" "ok (kv_mgr K)" and s: "sliding_spec (kv_spec K)"
      and b: "branch_table M (kv_spec K) a (kv_mgr K) e live" and n: "0 < n"
      and c: "fc_seq_len c = int (n * B)" "fc_commit_current c" "\<not> fc_allocated_video c"
      and run: "ensure_video_slots M a c K = (Inr (), c1, K1)"
  shows "\<exists>new m1. K1 = K\<lparr>kv_mgr := m1\<rparr> \<and> c1 = set_video B new c \<and> length new = n \<and>
    mg_allocate M a (int n * sp_chunk_size (kv_spec K)) (kv_mgr K) = (True, m1) \<and>
    mg_block_ids M (request_id a) m1 =
      replicate (nat (completed_chunks a - sp_window_chunks (kv_spec K) - sp_sink_chunks (kv_spec K))) (mg_null M) @
      drop (nat (completed_chunks a - sp_window_chunks (kv_spec K) - sp_sink_chunks (kv_spec K)) - e) live @ new \<and>
    mg_null M \<notin> set new"
proof -
  have B: "0 < B" "kv_block_size K = int B" "sp_chunk_size (kv_spec K) = int B"
    using shape s by (simp_all add: cache_shape_def sliding_spec_def kv_block_size_def)
  have nb: "num_current_video_blocks c K = Inr (int n)" using B c(1) by (simp add: num_current_video_blocks_def)
  have seq: "fc_seq_len c = int n * sp_chunk_size (kv_spec K)" "\<not> fc_seq_len c \<le> 0" using B c(1) n by (simp_all add: mult_le_0_iff)
  obtain granted m1 where al: "mg_allocate M a (int n * sp_chunk_size (kv_spec K)) (kv_mgr K) = (granted, m1)" by fastforce
  have g: granted
    using run nb c seq al by (auto simp: ensure_video_slots_def allocate_token_slots_def Let_def split: if_splits)
  with al have al1: "mg_allocate M a (int n * sp_chunk_size (kv_spec K)) (kv_mgr K) = (True, m1)" by simp
  from commit_granted [OF shape laws s b n c al1] run al1 show ?thesis by fastforce
qed

section \<open>What a forward reads\<close>

lemma lastn_append: "lastn n (xs @ ys) = lastn (n - length ys) xs @ lastn n ys"
  by (cases "length ys \<le> n") (simp_all add: lastn_def)

lemma slots_of_lastn: "slots_of B (lastn w tab) = lastn (B * w) (slots_of B tab)"
proof -
  have "slots_of B (drop k tab) = drop (B * k) (slots_of B tab)" for k
  proof (induction k arbitrary: tab)
    case (Suc k)
    show ?case by (cases tab) (simp_all add: Suc add.commute [of B])
  qed simp
  from this [of "length tab - w"] show ?thesis by (simp add: lastn_def right_diff_distrib')
qed

definition rows_at :: "'t list \<Rightarrow> int list \<Rightarrow> 't list" where
  "rows_at pool slots = map (\<lambda>i. pool ! nat i) slots"

lemma rows_at_simps [simp]:
  "rows_at pool [] = []" "rows_at pool (xs @ ys) = rows_at pool xs @ rows_at pool ys" "length (rows_at pool xs) = length xs"
  by (simp_all add: rows_at_def)

lemma rows_at_lastn: "rows_at pool (lastn n xs) = lastn n (rows_at pool xs)"
  by (simp add: rows_at_def map_lastn)

lemma in_range_simps [simp]:
  "in_range n []" "in_range n (xs @ ys) \<longleftrightarrow> in_range n xs \<and> in_range n ys"
  by (simp_all add: in_range_def)

lemma in_range_sub: "in_range n xs \<Longrightarrow> set ys \<subseteq> set xs \<Longrightarrow> in_range n ys"
  by (auto simp: in_range_def list_all_iff)

definition written :: "int list \<Rightarrow> 't list \<Rightarrow> 't list \<Rightarrow> 't list" where
  "written slots rows pool = put_at (zip (map nat slots) rows) pool"

lemma length_written [simp]: "length (written slots rows pool) = length pool"
  by (simp add: written_def)

lemma rows_written:
  "in_range (length pool) slots \<Longrightarrow> length rows = length slots \<Longrightarrow> distinct slots \<Longrightarrow> rows_at (written slots rows pool) slots = rows"
  using read_written [of pool slots rows] by (simp add: rows_at_def written_def)

lemma rows_elsewhere:
  "in_range (length pool) slots \<Longrightarrow> in_range n other \<Longrightarrow> set slots \<inter> set other = {} \<Longrightarrow> length rows = length slots \<Longrightarrow>
   rows_at (written slots rows pool) other = rows_at pool other"
  using read_elsewhere [of pool slots n other rows] by (simp add: rows_at_def written_def)

text \<open>
  The blocks a forward touches: the live ones of its request, the current ones, and the scratch
  blocks of its action tokens.  What is read of the live ones is not overwritten.
\<close>

definition separate :: "nat \<Rightarrow> int \<Rightarrow> nat \<Rightarrow> int list \<Rightarrow> int list \<Rightarrow> int list \<Rightarrow> bool" where
  "separate B N W live cur act \<longleftrightarrow>
     distinct cur \<and> distinct act \<and> (\<forall>b \<in> set live \<union> set cur \<union> set act. 0 \<le> b \<and> b < N) \<and>
     set (lastn (W - length cur) live) \<inter> set cur = {} \<and>
     (set live \<union> set cur) \<inter> set act = {}"

lemma window_rows:
  assumes sep: "separate B N W live cur act" and pool: "N * int B \<le> int (length p)"
      and k: "length k = B * length cur" and ka: "len \<le> B * length act" "length ka = len"
  defines "acts \<equiv> take len (slots_of B act)"
  defines "p2 \<equiv> written acts ka (written (slots_of B cur) k p)"
  shows "rows_at p2 (slots_of B (lastn W (live @ cur))) = lastn (B * W) (rows_at p (slots_of B live) @ k)"
    and "rows_at p2 acts = ka"
proof -
  let ?n = "length p" and ?old = "slots_of B (lastn (W - length cur) live)"
  have d: "distinct (slots_of B cur)" "distinct (slots_of B act)" using sep by (auto simp: separate_def slots_distinct)
  have r: "in_range ?n (slots_of B live)" "in_range ?n (slots_of B cur)" "in_range ?n (slots_of B act)"
    using sep pool by (auto simp: separate_def intro!: slots_in_range [where N = N])
  have as: "set acts \<subseteq> set (slots_of B act)" "distinct acts" using d(2) by (auto simp: acts_def dest: in_set_takeD)
  have ar: "in_range ?n acts" by (rule in_range_sub [OF r(3) as(1)])
  have lastn_sub: "set (lastn w live) \<subseteq> set live" for w by (rule set_lastn)
  have or: "in_range ?n ?old"
    using r(1) by (rule in_range_sub) (auto simp: slots_of_def dest: subsetD [OF lastn_sub])
  have la: "length ka = length acts" using ka by (simp add: acts_def)
  have disj: "set (slots_of B cur) \<inter> set ?old = {}" "set (slots_of B act) \<inter> set ?old = {}"
      "set (slots_of B act) \<inter> set (slots_of B cur) = {}"
    using sep lastn_sub [of "W - length cur"] by (auto simp: separate_def intro!: slots_disjoint)
  have cur: "rows_at p2 (slots_of B cur) = k"
    using rows_elsewhere [of "written (slots_of B cur) k p" acts ?n "slots_of B cur" ka] rows_written [of p "slots_of B cur" k]
      ar r(2) la k d(1) as(1) disj(3) by (auto simp: p2_def)
  have old: "rows_at p2 ?old = rows_at p ?old"
    using rows_elsewhere [of "written (slots_of B cur) k p" acts ?n ?old ka] rows_elsewhere [of p "slots_of B cur" ?n ?old k]
      ar r(2) or la k as(1) disj by (auto simp: p2_def)
  have "rows_at p2 (slots_of B (lastn W (live @ cur))) = rows_at p2 ?old @ lastn (B * W) (rows_at p2 (slots_of B cur))"
    by (simp add: lastn_append slots_of_lastn rows_at_lastn)
  also have "\<dots> = rows_at p ?old @ lastn (B * W) k" by (simp only: cur old)
  also have "\<dots> = lastn (B * W) (rows_at p (slots_of B live) @ k)"
    by (simp add: slots_of_lastn rows_at_lastn lastn_append k right_diff_distrib')
  finally show "rows_at p2 (slots_of B (lastn W (live @ cur))) = lastn (B * W) (rows_at p (slots_of B live) @ k)" .
  show "rows_at p2 acts = ka" using rows_written [of "written (slots_of B cur) k p" acts ka] ar la as(2) by (simp add: p2_def)
qed

lemma paged_rows_exact:
  assumes "0 < B" "len \<le> B * length act" "in_range (length pool) (slots_of B vis)" "in_range (length pool) (slots_of B act)"
  shows "paged_rows pool (vis @ act @ pad) (int (B * length vis + len)) (int B) =
    Inr (rows_at pool (slots_of B vis) @ rows_at pool (take len (slots_of B act)))"
proof -
  have "B * length vis + len \<le> B * length (vis @ act @ pad)" using assms(2) by (simp add: algebra_simps)
  then have "compute_slot_mapping (vis @ act @ pad) (arange 0 (int (B * length vis + len))) (int B) =
      Inr (slots_of B vis @ take len (slots_of B act))"
    using slot_mapping_exact [OF assms(1), of 0 "B * length vis + len" "vis @ act @ pad"] assms(2) by simp
  moreover have "in_range (length pool) (take len (slots_of B act))"
    by (rule in_range_sub [OF assms(4)]) (auto dest: in_set_takeD)
  ultimately show ?thesis using assms(3) by (simp add: paged_rows_def get_rows_ok rows_at_def)
qed

section \<open>The prepared context\<close>

lemma ceil_cover: "0 < b \<Longrightarrow> int len \<le> ((int len + int b - 1) div int b) * int b"
proof -
  assume b: "0 < b"
  have "int len + int b - 1 = ((int len + int b - 1) div int b) * int b + (int len + int b - 1) mod int b" by simp
  moreover have "(int len + int b - 1) mod int b < int b" using b by simp
  ultimately show ?thesis by linarith
qed

definition action_blocks_ok :: "nat \<Rightarrow> ('m, 't) kv_cache \<Rightarrow> int \<Rightarrow> nat \<Rightarrow> int list \<Rightarrow> bool" where
  "action_blocks_ok B K from_block len act \<longleftrightarrow>
     len \<le> B * length act \<and> (len = 0 \<longrightarrow> act = []) \<and> distinct act \<and> set act \<subseteq> {from_block..<total_blocks K}"

lemma action_slots_exact:
  assumes shape: "cache_shape B K" and c: "fc_allocated_video c" "fc_action_slots c = None"
      and run: "ensure_action_slots M a (int len) c K = (Inr (), c1, K1)"
  defines "off \<equiv> (if fc_commit_current c then 0 else int (length (fc_video_blocks c)))"
  shows "K1 = K" "\<exists>act. c1 = c\<lparr>fc_action_blocks := act, fc_action_slots := Some (take len (slots_of B act)), fc_action_len := int len\<rparr> \<and>
    action_blocks_ok B K (scratch_base K (fc_is_negative c) + off) len act"
proof -
  have B: "0 < B" "kv_block_size K = int B" using shape by (simp_all add: cache_shape_def)
  have "K1 = K \<and> (\<exists>act. c1 = c\<lparr>fc_action_blocks := act, fc_action_slots := Some (take len (slots_of B act)), fc_action_len := int len\<rparr> \<and>
    action_blocks_ok B K (scratch_base K (fc_is_negative c) + off) len act)"
  proof (cases "len = 0")
    case True
    with run show ?thesis by (auto simp: ensure_action_slots_def action_blocks_ok_def intro!: exI [of _ "[]"])
  next
    case False
    let ?count = "(int len + int B - 1) div int B"
    have ev: "ensure_video_slots M a c K = (Inr (), c, K)" using c by (simp add: ensure_video_slots_def)
    obtain act where s: "scratch_block_ids (fc_is_negative c) off ?count K = Inr act"
      using run ev False c(2) B(2) by (auto simp: ensure_action_slots_def Let_def off_def split: sum.splits)
    note S = scratch_blocks [OF shape s]
    have "int len \<le> int (B * length act)" using ceil_cover [OF B(1), of len] S(3,6) by (simp add: mult.commute)
    then have le: "len \<le> B * length act" by linarith
    then have "compute_slot_mapping act (arange 0 (int len)) (int B) = Inr (take len (slots_of B act))"
      using slot_mapping_exact [OF B(1), of 0 len act] by simp
    then have "K1 = K \<and> c1 = c\<lparr>fc_action_blocks := act, fc_action_slots := Some (take len (slots_of B act)), fc_action_len := int len\<rparr>"
      using run ev False c(2) B(2) s by (simp add: ensure_action_slots_def off_def)
    moreover have "action_blocks_ok B K (scratch_base K (fc_is_negative c) + off) len act"
      using le False S(5) by (auto simp: action_blocks_ok_def S(1) distinct_arange set_arange)
    ultimately show ?thesis by blast
  qed
  then show "K1 = K" "\<exists>act. c1 = c\<lparr>fc_action_blocks := act, fc_action_slots := Some (take len (slots_of B act)), fc_action_len := int len\<rparr> \<and>
    action_blocks_ok B K (scratch_base K (fc_is_negative c) + off) len act" by auto
qed

lemma video_table_exact:
  assumes shape: "cache_shape B K"
      and c: "fc_allocated_video c" "fc_video_blocks c = cur" "fc_max_video_tokens c = int (W * B)" and W: "0 < W" "0 < length cur"
  shows "video_block_table M a c K = (Inr (lastn W (fc_history c @ cur), int (B * length (lastn W (fc_history c @ cur)))), c, K)"
    "lastn W (fc_history c @ cur) \<noteq> []"
proof -
  have B: "0 < B" "kv_block_size K = int B" using shape by (simp_all add: cache_shape_def)
  let ?vis = "lastn W (fc_history c @ cur)"
  have ev: "ensure_video_slots M a c K = (Inr (), c, K)" using c by (simp add: ensure_video_slots_def)
  have vis: "last_blocks (int (W * B) div int B) (fc_history c @ cur) = ?vis" using W B(1) by (simp add: last_blocks_def)
  have "0 < length ?vis" using W unfolding length_lastn by simp
  then show "?vis \<noteq> []" by (rule length_greater_0_conv [THEN iffD1])
  have "min (int (length (fc_history c @ cur)) * int B) (int (W * B)) = int (min (length (fc_history c @ cur)) W * B)"
    unfolding of_nat_mult of_nat_min using B(1) by (simp add: min_mult_distrib_right)
  also have "\<dots> = int (B * length ?vis)" unfolding length_lastn by (simp only: mult.commute min.commute)
  finally have len: "min (int (length (fc_history c @ cur)) * int B) (int (W * B)) = int (B * length ?vis)" .
  show "video_block_table M a c K = (Inr (?vis, int (B * length ?vis)), c, K)"
    unfolding video_block_table_def ev act_bind_simps Let_def B(2) c(2,3) vis len using B(1) by simp
qed

text \<open>Once the video blocks are there, preparing succeeds when the action blocks can be had.\<close>

lemma prepare_finish:
  assumes shape: "cache_shape B K"
      and c: "fc_allocated_video c" "fc_action_slots c = None" "\<not> fc_prepared c" "fc_video_blocks c = cur" "fc_video_slots c = Some (slots_of B cur)"
             "fc_max_video_tokens c = int (W * B)" and W: "0 < W" "0 < length cur"
      and ea: "ensure_action_slots M a (int len) c K = (Inr (), c2, K2)"
  defines "off \<equiv> (if fc_commit_current c then 0 else int (length cur))"
  shows "\<exists>c1 act pad mq ms. prepare_ctx M a (int len) ql c K = (Inr (), c1, K\<lparr>kv_current := True\<rparr>) \<and>
      fc_commit_current c1 = fc_commit_current c \<and> fc_allocated_video c1 \<and> fc_seq_len c1 = fc_seq_len c \<and>
      action_blocks_ok B K (scratch_base K (fc_is_negative c) + off) len act \<and>
      (\<forall>layer. to_layer_inputs layer c1 = Inr \<lparr>li_layer_idx = layer, li_seq_len = fc_seq_len c, li_video_slots = slots_of B cur,
        li_action_slots = take len (slots_of B act), li_block_table = lastn W (fc_history c @ cur) @ act @ pad,
        li_query_start_loc = [0, ql], li_seq_lens = [int (B * length (lastn W (fc_history c @ cur)) + len)],
        li_max_query_len = mq, li_max_seq_len = ms\<rparr>)"
proof -
  let ?vis = "lastn W (fc_history c @ cur)"
  have ev: "ensure_video_slots M a c K = (Inr (), c, K)" using c by (simp add: ensure_video_slots_def)
  note T = video_table_exact(1) [OF shape c(1,4,6) W, of M a] video_table_exact(2) [OF shape c(1,4,6) W]
  note A = action_slots_exact [OF shape c(1,2) ea, unfolded c(4), folded off_def]
  obtain act where act: "c2 = c\<lparr>fc_action_blocks := act, fc_action_slots := Some (take len (slots_of B act)), fc_action_len := int len\<rparr>"
      "action_blocks_ok B K (scratch_base K (fc_is_negative c) + off) len act" using A(2) by blast
  have ids: "?vis @ (if int len > 0 then fc_action_blocks c2 else []) = ?vis @ act"
    using act by (auto simp: action_blocks_ok_def)
  obtain tm c3 where bb: "build_block_table M a (int len) ql c K = (Inr tm, c3, K)"
      "\<exists>pad. tm_block_table tm = (?vis @ act) @ pad" "tm_query_start_loc tm = [0, ql]"
      "tm_seq_lens tm = [int (B * length ?vis) + int len]" "fc_action_slots c3 = Some (take len (slots_of B act))"
      "fc_video_slots c3 = Some (slots_of B cur)" "fc_seq_len c3 = fc_seq_len c"
      "fc_commit_current c3 = fc_commit_current c" "fc_allocated_video c3"
    unfolding build_block_table_def T(1) act_bind_simps prod.case ea A(1) Let_def ids
    using T(2) c(1,5) act(1) by auto
  then obtain pad where pad: "tm_block_table tm = ?vis @ act @ pad" by auto
  have p: "prepare_ctx M a (int len) ql c K = (Inr (),
      c3\<lparr>fc_block_table := tm_block_table tm, fc_query_start_loc := tm_query_start_loc tm, fc_seq_lens := tm_seq_lens tm,
         fc_max_query_len := tm_max_query_len tm, fc_max_seq_len := tm_max_seq_len tm,
         fc_action_slots := Some (take len (slots_of B act)), fc_prepared := True\<rparr>, K\<lparr>kv_current := True\<rparr>)"
    unfolding prepare_ctx_def using c(3) ev bb by simp
  show ?thesis
    by (intro exI conjI, rule p) (use act(2) pad bb in \<open>auto simp: to_layer_inputs_def\<close>)
qed

lemma prepared:
  assumes shape: "cache_shape B K"
      and c: "fc_allocated_video c" "fc_action_slots c = None" "\<not> fc_prepared c" "fc_video_blocks c = cur" "fc_video_slots c = Some (slots_of B cur)"
             "fc_max_video_tokens c = int (W * B)" and W: "0 < W" "0 < length cur"
      and run: "prepare_ctx M a (int len) ql c K = (Inr (), c1, K1)"
  defines "off \<equiv> (if fc_commit_current c then 0 else int (length cur))"
  shows "K1 = K\<lparr>kv_current := True\<rparr> \<and> (\<exists>act pad mq ms. action_blocks_ok B K (scratch_base K (fc_is_negative c) + off) len act \<and>
      (\<forall>layer. to_layer_inputs layer c1 = Inr \<lparr>li_layer_idx = layer, li_seq_len = fc_seq_len c, li_video_slots = slots_of B cur,
        li_action_slots = take len (slots_of B act), li_block_table = lastn W (fc_history c @ cur) @ act @ pad,
        li_query_start_loc = [0, ql], li_seq_lens = [int (B * length (lastn W (fc_history c @ cur)) + len)],
        li_max_query_len = mq, li_max_seq_len = ms\<rparr>))"
proof -
  have ev: "ensure_video_slots M a c K = (Inr (), c, K)" using c by (simp add: ensure_video_slots_def)
  note T = video_table_exact(1) [OF shape c(1,4,6) W, of M a] video_table_exact(2) [OF shape c(1,4,6) W]
  obtain r c2 K2 where ea: "ensure_action_slots M a (int len) c K = (r, c2, K2)" by (cases "ensure_action_slots M a (int len) c K") auto
  have r: "r = Inr ()"
  proof (cases r)
    case (Inl e)
    with run ev T ea show ?thesis unfolding prepare_ctx_def build_block_table_def by (simp add: c(3))
  qed simp
  from prepare_finish [OF shape c W ea [unfolded r], of ql, folded off_def] run show ?thesis by fastforce
qed

section \<open>Paged attention is attention over the window\<close>

definition act_rows :: "('t list \<times> 't list) option \<Rightarrow> 't list \<times> 't list" where
  "act_rows action = (case action of None \<Rightarrow> ([], []) | Some rows \<Rightarrow> rows)"

text \<open>The reference: a contiguous cache holding the history, truncated to the window, and the action rows.\<close>

definition contiguous_attention ::
  "('t list \<Rightarrow> 't list \<Rightarrow> 't list \<Rightarrow> 't list) \<Rightarrow> nat \<Rightarrow> 't list \<Rightarrow> 't list \<times> 't list \<Rightarrow> 't list \<times> 't list \<Rightarrow> 't list \<times> 't list \<Rightarrow> 't list" where
  "contiguous_attention attend window query history cur action =
     attend query (lastn window (fst history @ fst cur) @ fst action) (lastn window (snd history @ snd cur) @ snd action)"

lemma put_layer_ok:
  "in_range (length k) slots \<Longrightarrow> in_range (length v) slots \<Longrightarrow> length kr = length slots \<Longrightarrow> length vr = length slots \<Longrightarrow>
   put_layer (k, v) slots (kr, vr) = Inr (written slots kr k, written slots vr v)"
  by (simp add: put_layer_def put_rows_ok written_def)

lemma write_attend:
  assumes shape: "cache_shape B K" and cur_on: "kv_current K" and layer: "layer < length (kv_pools K)" "kv_pools K ! layer = (kp, vp)"
      and sep: "separate B (total_blocks K) W live cur act" and len: "len \<le> B * length act"
      and rows: "length k = B * length cur" "length v = B * length cur"
        "length (fst (act_rows action)) = len" "length (snd (act_rows action)) = len"
      and li: "li_layer_idx li = layer" "li_video_slots li = slots_of B cur" "li_action_slots li = take len (slots_of B act)"
        "li_block_table li = lastn W (live @ cur) @ act @ pad" "li_query_start_loc li = [0, ql]"
        "li_seq_lens li = [int (B * length (lastn W (live @ cur)) + len)]"
  shows "\<exists>K1. paged_write_attn attend query (k, v) action li K =
    Inr (contiguous_attention attend (B * W) (take (nat ql) query) (rows_at kp (slots_of B live), rows_at vp (slots_of B live)) (k, v)
          (act_rows action), K1)"
proof -
  have B: "0 < B" "kv_block_size K = int B" using shape by (simp_all add: cache_shape_def)
  obtain ka va where a: "act_rows action = (ka, va)" by fastforce
  have la: "length ka = len" "length va = len" using rows(3,4) a by simp_all
  have pl: "total_blocks K * int B \<le> int (length kp)" "total_blocks K * int B \<le> int (length vp)"
    using shape layer nth_mem [OF layer(1)] by (auto simp: cache_shape_def list_all_iff)
  let ?acts = "take len (slots_of B act)" and ?vis = "lastn W (live @ cur)"
  define k1 v1 where "k1 = written (slots_of B cur) k kp" and "v1 = written (slots_of B cur) v vp"
  define k2 v2 where "k2 = written ?acts ka k1" and "v2 = written ?acts va v1"
  have blocks: "\<forall>b \<in> set live \<union> set cur \<union> set act. 0 \<le> b \<and> b < total_blocks K" using sep by (simp add: separate_def)
  have rng: "in_range n (slots_of B bs)" if "set bs \<subseteq> set live \<union> set cur \<union> set act" "total_blocks K * int B \<le> int n" for n bs
    using that blocks by (intro slots_in_range) auto
  have lk: "length k2 = length kp" "length v2 = length vp" "length k1 = length kp" "length v1 = length vp"
    by (simp_all add: k1_def v1_def k2_def v2_def)
  have act_rng: "in_range n ?acts" if "total_blocks K * int B \<le> int n" for n
    by (rule in_range_sub [OF rng [of act n]]) (use that in \<open>auto dest: in_set_takeD\<close>)
  have first: "put_layer (kp, vp) (slots_of B cur) (k, v) = Inr (k1, v1)"
    unfolding k1_def v1_def by (rule put_layer_ok) (use rng [of cur] pl rows in auto)
  have second: "(case action of None \<Rightarrow> Inr (k1, v1)
       | Some r \<Rightarrow> if fst r = [] then Inr (k1, v1) else put_layer (k1, v1) ?acts r) = Inr (k2, v2)"
  proof (cases "ka = []")
    case True
    then have "va = []" using la by auto
    with True show ?thesis using a by (auto simp: k2_def v2_def act_rows_def written_def split: option.splits)
  next
    case False
    then have "action = Some (ka, va)" using a by (auto simp: act_rows_def split: option.splits)
    moreover have "put_layer (k1, v1) ?acts (ka, va) = Inr (k2, v2)"
      unfolding k2_def v2_def by (rule put_layer_ok) (use act_rng pl lk la len in auto)
    ultimately show ?thesis using False by simp
  qed
  have sub: "set ?vis \<subseteq> set live \<union> set cur \<union> set act" using set_lastn [of W "live @ cur"] by auto
  have read: "paged_rows p (?vis @ act @ pad) (int (B * length ?vis + len)) (int B) =
      Inr (rows_at p (slots_of B ?vis) @ rows_at p ?acts)" if "total_blocks K * int B \<le> int (length p)" for p
    using that rng [OF sub] rng [of act] by (intro paged_rows_exact [OF B(1) len]) auto
  note wk = window_rows [OF sep pl(1) rows(1) len la(1), folded k1_def, folded k2_def]
  note wv = window_rows [OF sep pl(2) rows(2) len la(2), folded v1_def, folded v2_def]
  have att: "reference_paged_attention attend query (k2, v2) li (int B) =
      Inr (attend (take (nat ql) query) (lastn (B * W) (rows_at kp (slots_of B live) @ k) @ ka)
             (lastn (B * W) (rows_at vp (slots_of B live) @ v) @ va))"
    using read [of k2] read [of v2] pl wk wv lk
    by (simp add: reference_paged_attention_def li)
  show ?thesis
    unfolding paged_write_attn_def li layer(2) first second B(2)
    using cur_on layer(1) att by (simp add: contiguous_attention_def a second)
qed

lemma window_separate:
  assumes shape: "cache_shape B K" and laws: "manager_laws M (kv_spec K) (kv_managed_num_blocks K) slack ok" "ok (kv_mgr K)"
      and s: "sliding_spec (kv_spec K)" and b: "branch_table M (kv_spec K) a (kv_mgr K) e live"
      and c: "fc_seq_len c = int (n * B)" "\<not> fc_allocated_video c" and n: "0 < n"
      and run: "ensure_video_slots M a c K = (Inr (), c1, K1)"
  shows "\<exists>cur m1. K1 = K\<lparr>kv_mgr := m1\<rparr> \<and> c1 = set_video B cur c \<and> length cur = n \<and>
    (\<forall>act len. action_blocks_ok B K (scratch_base K (fc_is_negative c) + (if fc_commit_current c then 0 else int n)) len act \<longrightarrow>
       separate B (total_blocks K) (nat (sp_window_chunks (kv_spec K))) live cur act)"
proof -
  let ?W = "nat (sp_window_chunks (kv_spec K))" and ?N = "kv_managed_num_blocks K"
  note D = disjoint_tableD [OF alloc_rule(2) [OF laws, of 1], of "request_id a", unfolded branch_window [OF b], simplified]
  have base: "?N \<le> scratch_base K (fc_is_negative c)" "?N \<le> total_blocks K" "0 \<le> ?N"
    using shape by (auto simp: scratch_base_def total_blocks_def cache_shape_def)
  have lastn_sub: "set (lastn w live) \<subseteq> set live" for w by (rule set_lastn)
  show ?thesis
  proof (cases "fc_commit_current c")
    case False
    note S = scratch_video [OF shape c(1) False c(2) run]
    let ?cur = "arange (scratch_base K (fc_is_negative c)) (scratch_base K (fc_is_negative c) + int n)"
    have "separate B (total_blocks K) ?W live ?cur act"
      if "action_blocks_ok B K (scratch_base K (fc_is_negative c) + int n) len act" for act len
      using that D base S(3) subsetD [OF lastn_sub]
      by (fastforce simp: separate_def action_blocks_ok_def set_arange distinct_arange)
    moreover have "length ?cur = n" by (simp add: arange_def)
    ultimately show ?thesis using S(1,2) False by (intro exI [of _ ?cur] exI [of _ "kv_mgr K"]) simp
  next
    case True
    let ?skip = "nat (completed_chunks a - sp_window_chunks (kv_spec K) - sp_sink_chunks (kv_spec K))"
    obtain new m1 where new: "K1 = K\<lparr>kv_mgr := m1\<rparr>" "c1 = set_video B new c" "length new = n"
        "mg_allocate M a (int n * sp_chunk_size (kv_spec K)) (kv_mgr K) = (True, m1)"
        "mg_block_ids M (request_id a) m1 = replicate ?skip (mg_null M) @ drop (?skip - e) live @ new" "mg_null M \<notin> set new"
      using commit_video [OF shape laws s b n c(1) True c(2) run] by blast
    note A = window_allocation [OF laws s b n new(4)]
    note D1 = disjoint_tableD(1,2) [OF alloc_rule(2) [OF laws(1) A(1), of 1], of "request_id a"]
    have nl: "mg_null M \<notin> set live" using b by (simp add: branch_table_def)
    then have "mg_null M \<notin> set (drop (?skip - e) live)" by (auto dest: in_set_dropD)
    then have res: "resident_block_ids (mg_block_ids M (request_id a) m1) (mg_null M) = drop (?skip - e) live @ new"
      unfolding new(5) by (intro resident_live) (use new(6) in simp)
    have ws: "0 < sp_window_chunks (kv_spec K)" "0 \<le> sp_sink_chunks (kv_spec K)" using s by (simp_all add: sliding_spec_def)
    have cl: "int (e + length live) = completed_chunks a" "int e \<le> max 0 (completed_chunks a - sp_window_chunks (kv_spec K) - sp_sink_chunks (kv_spec K))"
      using b by (simp_all add: branch_table_def)
    have "?skip - e \<le> length live - (?W - length new)" using ws cl by linarith
    then have sub: "set (lastn (?W - length new) live) \<subseteq> set (drop (?skip - e) live)"
      unfolding lastn_def by (rule set_drop_subset_set_drop)
    have "distinct (drop (?skip - e) live @ new)" "set (drop (?skip - e) live @ new) \<subseteq> {0..<?N}"
      using D1 unfolding res by simp_all
    then have "separate B (total_blocks K) ?W live new act"
      if "action_blocks_ok B K (scratch_base K (fc_is_negative c)) len act" for act len
      using that D base sub by (fastforce simp: separate_def action_blocks_ok_def)
    then show ?thesis using new(1,2,3) True by (intro exI [of _ new] exI [of _ m1]) simp
  qed
qed


text \<open>
  A branch with three finished chunks of two tokens under a window of two: chunk 0 is evicted, the
  next chunk is committed with one action row, and chunk 1 leaves the window.
\<close>

definition sample_spec :: chunk_window_spec where
  "sample_spec = \<lparr>sp_block_size = 2, sp_sliding_window = 4, sp_chunk_size = 2, sp_window_chunks = 2,
     sp_sink_chunks = 0, sp_reset_at_boundary = False\<rparr>"

definition sample_adapter :: adapter where
  "sample_adapter = \<lparr>request_id = ''r'', ad_chunk_size = 2, ad_prefill = 0, completed_chunks = 3\<rparr>"

definition sample_cache :: "((string, int list) dict, nat) kv_cache" where
  "sample_cache = \<lparr>kv_spec = sample_spec, kv_num_layers = 1, kv_local_branches = 1, kv_managed_num_blocks = 6,
     kv_scratch_per_branch = 2, kv_cross_attn_length = 0, kv_mgr = [(''r'', [0, 2, 3])], kv_adapters = [(''r'', ())],
     kv_cross = [], kv_cross_img = [], kv_pools = [([0..<16], [100..<116])], kv_current = False\<rparr>"

definition sample_prepared :: "(unit, (string, int list) dict, nat) act" where
  "sample_prepared = prepare_ctx (lowest_first sample_spec 6) sample_adapter 1 3
     (new_context False (window_block_ids (lowest_first sample_spec 6) sample_adapter sample_cache) 2 True 4) sample_cache"

lemma lowest_single:
  assumes "distinct (resident_block_ids tab 0)" "set (resident_block_ids tab 0) \<subseteq> {0..<N}"
  shows "lowest_ok s N [(r, tab)]"
proof -
  have "tables_disjoint (lowest_first s N) N []" using lowest_empty by (simp add: lowest_ok_def)
  then have "tables_disjoint (lowest_first s N) N [(r, tab)]"
    by (rule disjoint_change [where r = r])
      (use assms in \<open>auto simp: lowest_first_def table_in_def owned_by_others_def resident_block_ids_def\<close>)
  then show ?thesis by (simp add: lowest_ok_def)
qed


end
