(* ===== verification/AR_Session.thy ===== *)
theory AR_Session
  imports Paged_Attention DreamZero_State
begin

text \<open>
  The sessions of the AR-Diffusion engine: the bridge between a rollout and the paged cache
  (\<^verbatim>\<open>experimental/ar_diffusion/kv_cache/state.py\<close>), its cross-attention caches, and the table of
  sessions of the runner (\<^verbatim>\<open>experimental/ar_diffusion/runner.py\<close>).

  A branch is \<open>False\<close> for the conditional and \<open>True\<close> for the unconditional pass.  Contexts are shared
  objects: the one a session waits to commit is the one the layers prepared.
\<close>

section \<open>The session state\<close>

record kv_state =
  ks_pos :: adapter
  ks_neg :: adapter
  ks_num_layers :: int
  ks_committed :: "bool \<Rightarrow> int"
  ks_pending :: "bool \<Rightarrow> forward_ctx option"
  ks_cross_text :: "bool \<Rightarrow> bool"
  ks_cross_img :: "bool \<Rightarrow> bool"

definition new_kv_state :: "adapter \<Rightarrow> adapter \<Rightarrow> int \<Rightarrow> kv_state" where
  "new_kv_state pos neg layers = \<lparr>ks_pos = pos, ks_neg = neg, ks_num_layers = layers, ks_committed = (\<lambda>_. 0),
     ks_pending = (\<lambda>_. None), ks_cross_text = (\<lambda>_. False), ks_cross_img = (\<lambda>_. False)\<rparr>"

definition branch_adapter :: "bool \<Rightarrow> kv_state \<Rightarrow> adapter" where
  "branch_adapter is_negative S = (if is_negative then ks_neg S else ks_pos S)"

definition set_adapter :: "bool \<Rightarrow> adapter \<Rightarrow> kv_state \<Rightarrow> kv_state" where
  "set_adapter is_negative a S = (if is_negative then S\<lparr>ks_neg := a\<rparr> else S\<lparr>ks_pos := a\<rparr>)"

definition set_pending :: "bool \<Rightarrow> forward_ctx option \<Rightarrow> kv_state \<Rightarrow> kv_state" where
  "set_pending is_negative c S = S\<lparr>ks_pending := (ks_pending S)(is_negative := c)\<rparr>"

text \<open>The layer contexts are the indices of the layers; they share the pending context.\<close>

definition prepare_paged_context ::
  "'m manager \<Rightarrow> bool \<Rightarrow> int \<Rightarrow> bool \<Rightarrow> kv_state \<Rightarrow> ('m, 't) kv_cache \<Rightarrow> (py_exc + int list) \<times> kv_state" where
  "prepare_paged_context M is_negative seq_len commit_current S K =
     (let cs = sp_chunk_size (kv_spec K);
          blocked = (case ks_pending S is_negative of None \<Rightarrow> False
            | Some p \<Rightarrow> fc_commit_current p \<and> fc_allocated_video p \<and> \<not> fc_committed p)
      in if cs = 0 then (Inl ZeroDivisionError, S)
         else if seq_len mod cs \<noteq> 0 then (Inl AssertionError, S)
         else if blocked then (Inl RuntimeError, S)
         else (Inr (arange 0 (ks_num_layers S)),
               set_pending is_negative
                 (Some (new_context is_negative (window_block_ids M (branch_adapter is_negative S) K) seq_len commit_current
                          (sp_sliding_window (kv_spec K)))) S))"

definition get_kv_caches ::
  "'m manager \<Rightarrow> bool \<Rightarrow> int option \<Rightarrow> bool \<Rightarrow> kv_state \<Rightarrow> ('m, 't) kv_cache \<Rightarrow> (py_exc + int list) \<times> kv_state" where
  "get_kv_caches M is_negative seq_len commit_current S K =
     (case seq_len of None \<Rightarrow> (Inl ValueError, S)
      | Some n \<Rightarrow> prepare_paged_context M is_negative n commit_current S K)"

definition commit_paged_context :: "bool \<Rightarrow> kv_state \<Rightarrow> ('m, 't) kv_cache \<Rightarrow> kv_state" where
  "commit_paged_context is_negative S K =
     (case ks_pending S is_negative of
        None \<Rightarrow> S
      | Some c \<Rightarrow>
          let S1 = (if fc_commit_current c \<and> fc_allocated_video c
                    then (set_adapter is_negative
                           ((on_chunk_committed ^^ nat (fc_seq_len c div sp_chunk_size (kv_spec K))) (branch_adapter is_negative S)) S)
                         \<lparr>ks_committed := (ks_committed S)(is_negative := ks_committed S is_negative + fc_seq_len c)\<rparr>
                    else S)
          in set_pending is_negative None S1)"

definition close_state :: "'m manager \<Rightarrow> kv_state \<Rightarrow> ('m, 't) kv_cache \<Rightarrow> kv_state \<times> ('m, 't) kv_cache" where
  "close_state M S K = (S\<lparr>ks_pending := (\<lambda>_. None)\<rparr>, end_request M (ks_neg S) (end_request M (ks_pos S) K))"

definition reset_state :: "'m manager \<Rightarrow> bool \<Rightarrow> kv_state \<Rightarrow> ('m, 't) kv_cache \<Rightarrow> kv_state \<times> ('m, 't) kv_cache" where
  "reset_state M keep_cross_text S K =
     (let pos_id = request_id (ks_pos S); neg_id = request_id (ks_neg S);
          (S1, K1) = close_state M S K;
          (pos, K2) = begin_request pos_id 0 K1;
          (neg, K3) = begin_request neg_id 0 K2
      in (S1\<lparr>ks_pos := pos, ks_neg := neg, ks_committed := (\<lambda>_. 0), ks_pending := (\<lambda>_. None),
             ks_cross_text := (if keep_cross_text then ks_cross_text S1 else (\<lambda>_. False)),
             ks_cross_img := (\<lambda>_. False)\<rparr>, K3))"

section \<open>A forward of one branch\<close>

text \<open>
  The transformer prepares the pending context once, outside the compiled blocks; after the forward
  the pipeline commits the branch when it writes the cache.
\<close>

definition prepare_pending ::
  "'m manager \<Rightarrow> bool \<Rightarrow> int \<Rightarrow> int \<Rightarrow> kv_state \<Rightarrow> ('m, 't) kv_cache \<Rightarrow> (py_exc + unit) \<times> kv_state \<times> ('m, 't) kv_cache" where
  "prepare_pending M is_negative action_len query_len S K =
     (case ks_pending S is_negative of
        None \<Rightarrow> (Inr (), S, K)
      | Some c \<Rightarrow>
          (case prepare_ctx M (branch_adapter is_negative S) action_len query_len c K of
             (r, c1, K1) \<Rightarrow> (r, set_pending is_negative (Some c1) S, K1)))"

definition start_forward ::
  "'m manager \<Rightarrow> bool \<Rightarrow> int \<Rightarrow> bool \<Rightarrow> int \<Rightarrow> int \<Rightarrow> kv_state \<Rightarrow> ('m, 't) kv_cache \<Rightarrow>
   (py_exc + unit) \<times> kv_state \<times> ('m, 't) kv_cache" where
  "start_forward M is_negative seq_len update action_len query_len S K =
     (case get_kv_caches M is_negative (Some seq_len) update S K of
        (Inl e, S1) \<Rightarrow> (Inl e, S1, K)
      | (Inr layers, S1) \<Rightarrow> (if layers = [] then (Inr (), S1, K) else prepare_pending M is_negative action_len query_len S1 K))"

text \<open>\<open>failure\<close> is what the layers raise after the context is prepared, if they do.\<close>

definition forward_branch ::
  "'m manager \<Rightarrow> bool \<Rightarrow> int \<Rightarrow> bool \<Rightarrow> int \<Rightarrow> int \<Rightarrow> py_exc option \<Rightarrow> kv_state \<Rightarrow> ('m, 't) kv_cache \<Rightarrow>
   (py_exc + unit) \<times> kv_state \<times> ('m, 't) kv_cache" where
  "forward_branch M is_negative seq_len update action_len query_len failure S K =
     (case start_forward M is_negative seq_len update action_len query_len S K of
        (Inl e, S1, K1) \<Rightarrow> (Inl e, S1, K1)
      | (Inr _, S1, K1) \<Rightarrow>
          (case failure of
             Some e \<Rightarrow> (Inl e, S1, K1)
           | None \<Rightarrow> (Inr (), if update then commit_paged_context is_negative S1 K1 else S1, K1)))"

section \<open>Cross-attention\<close>

definition get_cross_kv_caches :: "bool \<Rightarrow> kv_state \<Rightarrow> ('m, 't) kv_cache \<Rightarrow> py_exc + 't cross_cache list" where
  "get_cross_kv_caches is_negative S K =
     (let img_ok = (kv_cross_img K = [] \<or> ks_cross_img S is_negative)
      in if \<not> (ks_cross_text S is_negative \<and> img_ok \<and> kv_cross_attn_length K > 0) then Inl RuntimeError
         else foldr (\<lambda>i r. rbind (read_cross_kv (nat i) is_negative K) (\<lambda>x. rbind r (\<lambda>xs. Inr (x # xs))))
                (arange 0 (ks_num_layers S)) (Inr []))"

text \<open>
  \<^verbatim>\<open>_kv_populate_cross\<close> of the pipeline: \<open>text_kv i\<close> and \<open>img_kv i\<close> are what layer \<open>i\<close> projects from the
  embedded text and image.
\<close>

fun write_layers ::
  "nat list \<Rightarrow> bool \<Rightarrow> (nat \<Rightarrow> 't \<times> 't) option \<Rightarrow> (nat \<Rightarrow> 't \<times> 't) option \<Rightarrow> ('m, 't) kv_cache \<Rightarrow> (py_exc + unit) \<times> ('m, 't) kv_cache" where
  "write_layers [] is_negative text_kv img_kv K = (Inr (), K)"
| "write_layers (i # js) is_negative text_kv img_kv K =
     (case write_cross_kv i is_negative (map_option (\<lambda>f. f i) text_kv) (map_option (\<lambda>f. f i) img_kv) K of
        Inl e \<Rightarrow> (Inl e, K)
      | Inr K1 \<Rightarrow> write_layers js is_negative text_kv img_kv K1)"

definition kv_populate_cross ::
  "bool \<Rightarrow> nat \<Rightarrow> (nat \<Rightarrow> 't \<times> 't) \<Rightarrow> (nat \<Rightarrow> 't \<times> 't) option \<Rightarrow> bool \<Rightarrow> kv_state \<Rightarrow> ('m, 't) kv_cache \<Rightarrow>
   (py_exc + unit) \<times> kv_state \<times> ('m, 't) kv_cache" where
  "kv_populate_cross i2v num_blocks text_kv img_kv is_negative S K =
     (let need_text = (\<not> ks_cross_text S is_negative);
          need_img = (img_kv \<noteq> None \<and> i2v \<and> \<not> ks_cross_img S is_negative)
      in if \<not> need_text \<and> \<not> need_img then (Inr (), S, K)
         else (case write_layers [0..<num_blocks] is_negative (if need_text then Some text_kv else None)
                      (if need_img then img_kv else None) K of
                 (Inl e, K1) \<Rightarrow> (Inl e, S, K1)
               | (Inr _, K1) \<Rightarrow>
                   (Inr (),
                    S\<lparr>ks_cross_text := (if need_text then (ks_cross_text S)(is_negative := True) else ks_cross_text S),
                      ks_cross_img := (if need_img then (ks_cross_img S)(is_negative := True) else ks_cross_img S)\<rparr>, K1)))"

section \<open>The sessions of the runner\<close>

text \<open>\<open>ar_model\<close> is the table of model-local states of the pipeline, of which the runner only drops entries.\<close>

record ('m, 't, 'd) ar_runner =
  ar_states :: "(string, kv_state) dict"
  ar_cache :: "('m, 't) kv_cache"
  ar_model :: "(string, 'd) dict"

definition pos_id :: "string \<Rightarrow> string" where
  "pos_id sid = ''bde__'' @ sid"

definition neg_id :: "string \<Rightarrow> string" where
  "neg_id sid = ''bde__'' @ sid @ ''__neg''"

text \<open>Closing the evicted states, oldest first.\<close>

definition close_all :: "'m manager \<Rightarrow> (string, kv_state) dict \<Rightarrow> ('m, 't) kv_cache \<Rightarrow> ('m, 't) kv_cache" where
  "close_all M dead K = fold (\<lambda>(sid, S) K. snd (close_state M S K)) dead K"

definition attach_session :: "'m manager \<Rightarrow> string \<Rightarrow> ('m, 't, 'd) ar_runner \<Rightarrow> ('m, 't, 'd) ar_runner" where
  "attach_session M sid R =
     (case dict_get (ar_states R) sid of
        None \<Rightarrow>
          (let (pos, K1) = begin_request (pos_id sid) 0 (ar_cache R);
               (neg, K2) = begin_request (neg_id sid) 0 K1;
               states = dict_set sid (new_kv_state pos neg (kv_num_layers K2)) (ar_states R)
           in R\<lparr>ar_states := move_to_end sid (evict MAX_DREAMZERO_SESSIONS states),
                ar_cache := close_all M (evicted MAX_DREAMZERO_SESSIONS states) K2\<rparr>)
      | Some S \<Rightarrow> R\<lparr>ar_states := move_to_end sid (ar_states R)\<rparr>)"

text \<open>
  \<open>body\<close> is the execution of the base class with the session attached; it works on the session's state,
  the cache and the model-local states.  A failure tears the session down.
\<close>

type_synonym ('o, 'm, 't, 'd) forward_body =
  "kv_state \<times> ('m, 't) kv_cache \<times> (string, 'd) dict \<Rightarrow> (py_exc + 'o) \<times> kv_state \<times> ('m, 't) kv_cache \<times> (string, 'd) dict"

definition execute_ar ::
  "'m manager \<Rightarrow> string \<Rightarrow> ('o, 'm, 't, 'd) forward_body \<Rightarrow> ('m, 't, 'd) ar_runner \<Rightarrow> (py_exc + 'o) \<times> ('m, 't, 'd) ar_runner" where
  "execute_ar M sid body R =
     (let R1 = attach_session M sid R
      in case dict_get (ar_states R1) sid of
           None \<Rightarrow> (Inl KeyError, R1)
         | Some S \<Rightarrow>
             (case body (S, ar_cache R1, ar_model R1) of
                (Inr out, S1, K1, model) \<Rightarrow>
                  (Inr out, R1\<lparr>ar_states := dict_set sid S1 (ar_states R1), ar_cache := K1, ar_model := model\<rparr>)
              | (Inl e, S1, K1, model) \<Rightarrow>
                  (Inl e, R1\<lparr>ar_states := dict_del sid (ar_states R1), ar_cache := snd (close_state M S1 K1),
                             ar_model := dict_del sid model\<rparr>)))"

section \<open>The calls of a rollout\<close>

text \<open>
  What a pipeline does with its session during one request, as a sequence of calls that stops at the
  first exception; \<open>Crash\<close> is an exception from anywhere else.
\<close>

datatype 't kv_call =
    Forward bool int bool int int "py_exc option"
  | ResetWindow bool
  | Populate bool "nat \<Rightarrow> 't \<times> 't" "(nat \<Rightarrow> 't \<times> 't) option"
  | Crash py_exc

definition run_call ::
  "'m manager \<Rightarrow> bool \<Rightarrow> nat \<Rightarrow> 't kv_call \<Rightarrow> kv_state \<Rightarrow> ('m, 't) kv_cache \<Rightarrow> (py_exc + unit) \<times> kv_state \<times> ('m, 't) kv_cache" where
  "run_call M i2v num_blocks call S K =
     (case call of
        Forward is_negative seq_len update action_len query_len failure \<Rightarrow>
          forward_branch M is_negative seq_len update action_len query_len failure S K
      | ResetWindow keep \<Rightarrow> (Inr (), reset_state M keep S K)
      | Populate is_negative text_kv img_kv \<Rightarrow> kv_populate_cross i2v num_blocks text_kv img_kv is_negative S K
      | Crash e \<Rightarrow> (Inl e, S, K))"

fun run_calls ::
  "'m manager \<Rightarrow> bool \<Rightarrow> nat \<Rightarrow> 't kv_call list \<Rightarrow> kv_state \<Rightarrow> ('m, 't) kv_cache \<Rightarrow> (py_exc + unit) \<times> kv_state \<times> ('m, 't) kv_cache" where
  "run_calls M i2v num_blocks [] S K = (Inr (), S, K)"
| "run_calls M i2v num_blocks (x # xs) S K =
     (case run_call M i2v num_blocks x S K of
        (Inl e, S1, K1) \<Rightarrow> (Inl e, S1, K1)
      | (Inr _, S1, K1) \<Rightarrow> run_calls M i2v num_blocks xs S1 K1)"

definition calls_body :: "'m manager \<Rightarrow> bool \<Rightarrow> nat \<Rightarrow> 't kv_call list \<Rightarrow> (unit, 'm, 't, 'd) forward_body" where
  "calls_body M i2v num_blocks calls = (\<lambda>(S, K, model).
     case run_calls M i2v num_blocks calls S K of (r, S1, K1) \<Rightarrow> (r, S1, K1, model))"

fun run_requests ::
  "'m manager \<Rightarrow> bool \<Rightarrow> nat \<Rightarrow> (string \<times> 't kv_call list) list \<Rightarrow> ('m, 't, 'd) ar_runner \<Rightarrow> ('m, 't, 'd) ar_runner" where
  "run_requests M i2v num_blocks [] R = R"
| "run_requests M i2v num_blocks ((sid, calls) # reqs) R =
     run_requests M i2v num_blocks reqs (snd (execute_ar M sid (calls_body M i2v num_blocks calls) R))"

text \<open>
  Sound sessions: at most 64, each with its own request ids, and no block is held by a request that is
  not one of theirs.
\<close>

definition sessions_sound :: "'m manager \<Rightarrow> ('m \<Rightarrow> bool) \<Rightarrow> ('m, 't, 'd) ar_runner \<Rightarrow> bool" where
  "sessions_sound M ok R \<longleftrightarrow> ok (kv_mgr (ar_cache R)) \<and> dict_ok (ar_states R) \<and>
     length (ar_states R) \<le> MAX_DREAMZERO_SESSIONS \<and>
     (\<forall>sid S. dict_get (ar_states R) sid = Some S \<longrightarrow>
        request_id (ks_pos S) = pos_id sid \<and> request_id (ks_neg S) = neg_id sid) \<and>
     (\<forall>q. mg_block_ids M q (kv_mgr (ar_cache R)) \<noteq> [] \<longrightarrow>
        (\<exists>sid \<in> set (dict_keys (ar_states R)). q = pos_id sid \<or> q = neg_id sid))"

section \<open>What a rollout touches\<close>

text \<open>The manager keeps its invariant and the tables of other requests.\<close>

definition static ::
  "('m, 't) kv_cache \<Rightarrow> chunk_window_spec \<times> int \<times> int \<times> int \<times> int \<times> nat \<times> nat \<times> ('t list \<times> 't list) list" where
  "static K = (kv_spec K, kv_num_layers K, kv_local_branches K, kv_managed_num_blocks K, kv_scratch_per_branch K,
     length (kv_cross K), length (kv_cross_img K), kv_pools K)"

lemma static_simps [simp]:
  "static (K\<lparr>kv_mgr := m\<rparr>) = static K" "static (K\<lparr>kv_current := b\<rparr>) = static K" "static (K\<lparr>kv_adapters := d\<rparr>) = static K"
  by (simp_all add: static_def)

lemma static_spec: "static K1 = static K \<Longrightarrow> kv_spec K1 = kv_spec K"
  by (simp add: static_def)

definition touches :: "'m manager \<Rightarrow> ('m \<Rightarrow> bool) \<Rightarrow> string set \<Rightarrow> ('m, 't) kv_cache \<Rightarrow> ('m, 't) kv_cache \<Rightarrow> bool" where
  "touches M ok ids K K1 \<longleftrightarrow> static K1 = static K \<and>
     (ok (kv_mgr K) \<longrightarrow>
        ok (kv_mgr K1) \<and> (\<forall>q. q \<notin> ids \<longrightarrow> mg_block_ids M q (kv_mgr K1) = mg_block_ids M q (kv_mgr K)))"

lemma touches_refl [simp]: "touches M ok ids K K"
  by (simp add: touches_def)

lemma touches_trans: "touches M ok ids K K1 \<Longrightarrow> touches M ok ids K1 K2 \<Longrightarrow> touches M ok ids K K2"
  by (simp add: touches_def)

lemma touches_mono: "touches M ok ids K K1 \<Longrightarrow> ids \<subseteq> ids1 \<Longrightarrow> touches M ok ids1 K K1"
  by (auto simp: touches_def)

lemma touches_same: "kv_mgr K1 = kv_mgr K \<Longrightarrow> static K1 = static K \<Longrightarrow> touches M ok ids K K1"
  by (simp add: touches_def)

lemma touches_flag [simp]: "touches M ok ids K (K\<lparr>kv_current := b\<rparr>)"
  by (simp add: touches_same)

definition same_ids :: "kv_state \<Rightarrow> kv_state \<Rightarrow> bool" where
  "same_ids S S1 \<longleftrightarrow> request_id (ks_pos S1) = request_id (ks_pos S) \<and> request_id (ks_neg S1) = request_id (ks_neg S)"

definition ids_of :: "kv_state \<Rightarrow> string set" where
  "ids_of S = {request_id (ks_pos S), request_id (ks_neg S)}"

lemma same_ids_refl [simp]: "same_ids S S"
  by (simp add: same_ids_def)

lemma same_ids_trans: "same_ids S S1 \<Longrightarrow> same_ids S1 S2 \<Longrightarrow> same_ids S S2"
  by (simp add: same_ids_def)

lemma ids_of_same: "same_ids S S1 \<Longrightarrow> ids_of S1 = ids_of S"
  by (simp add: same_ids_def ids_of_def)

lemma same_ids_pending [simp]: "same_ids S (set_pending neg c S1) \<longleftrightarrow> same_ids S S1"
  by (simp add: same_ids_def set_pending_def)

lemma branch_id_in: "request_id (branch_adapter neg S) \<in> ids_of S"
  by (simp add: branch_adapter_def ids_of_def)

lemma committed_id [simp]: "request_id ((on_chunk_committed ^^ k) a) = request_id a"
  by (induction k) (simp_all add: on_chunk_committed_def)

lemma commit_ids: "same_ids S (commit_paged_context neg S K)"
  by (auto simp: commit_paged_context_def Let_def same_ids_def set_pending_def set_adapter_def branch_adapter_def split: option.splits)

lemma get_caches_ids: "same_ids S (snd (get_kv_caches M neg n up S K))"
  by (auto simp: get_kv_caches_def prepare_paged_context_def Let_def split: option.splits)

lemma write_cross_mgr: "write_cross_kv i neg a b K = Inr K1 \<Longrightarrow> kv_mgr K1 = kv_mgr K \<and> static K1 = static K"
  by (auto simp: write_cross_kv_def rbind_Inr_iff static_def split: option.splits if_splits)

lemma write_layers_mgr:
  "kv_mgr (snd (write_layers js neg tk ik K)) = kv_mgr K \<and> static (snd (write_layers js neg tk ik K)) = static K"
proof (induction js arbitrary: K)
  case (Cons j js)
  show ?case
  proof (cases "write_cross_kv j neg (map_option (\<lambda>f. f j) tk) (map_option (\<lambda>f. f j) ik) K")
    case (Inr K1)
    with Cons [of K1] write_cross_mgr [OF Inr] show ?thesis by simp
  qed simp
qed simp

lemma attach_keys_subset: "set (dict_keys (ar_states (attach_session M sid R))) \<subseteq> insert sid (set (dict_keys (ar_states R)))"
proof (cases "dict_get (ar_states R) sid")
  case None
  let ?live = "\<lambda>v. evict MAX_DREAMZERO_SESSIONS (dict_set sid v (ar_states R))"
  have "set (dict_keys (move_to_end sid d)) \<subseteq> set (dict_keys d)" for d :: "(string, kv_state) dict"
    by (cases "dict_get d sid") (auto simp: move_to_end_def dict_keys_del dict_get_Some_key simp del: set_map dest: dict_get_Some_key)
  moreover have "set (dict_keys (?live v)) \<subseteq> insert sid (set (dict_keys (ar_states R)))" for v
    using set_lastn [of MAX_DREAMZERO_SESSIONS "dict_keys (dict_set sid v (ar_states R))"]
    by (auto simp: evict_lastn map_lastn dict_keys_set split: if_splits simp del: set_map)
  ultimately show ?thesis
    using None by (fastforce simp: attach_session_def Let_def split: prod.splits simp del: set_map)
next
  case (Some S)
  then show ?thesis using dict_get_Some_key [OF Some] by (auto simp: attach_session_def move_to_end_keys simp del: set_map)
qed

lemma execute_keys:
  assumes "execute_ar M sid body R = (r, R1)"
  shows "set (dict_keys (ar_states R1)) \<subseteq> insert sid (set (dict_keys (ar_states R)))"
  using assms attach_keys_subset [of M sid R]
  by (auto simp: execute_ar_def Let_def dict_keys_set dict_keys_del split: option.splits sum.splits prod.splits if_splits simp del: set_map)

text \<open>
  The client's view of the block manager: it satisfies its laws for the spec of the cache.  The spec of a
  running cache never changes.
\<close>

locale block_manager =
  fixes M :: "'m manager" and s :: chunk_window_spec and N slack :: int and ok :: "'m \<Rightarrow> bool"
  assumes laws: "manager_laws M s N slack ok"
begin

lemma allocate_touches:
  "kv_spec K = s \<Longrightarrow> touches M ok {request_id a} K (snd (allocate_token_slots M a n K))"
  using alloc_rule(1) [OF laws, of "kv_mgr K" n a]
  by (auto simp: touches_def allocate_token_slots_def allocation_law_def Let_def split: prod.splits)

lemma end_touches: "touches M ok {request_id a} K (end_request M a K)"
  using laws by (auto simp: touches_def end_request_def manager_laws_def)

lemma end_empties: "ok (kv_mgr K) \<Longrightarrow> mg_block_ids M (request_id a) (kv_mgr (end_request M a K)) = []"
  using laws by (auto simp: end_request_def manager_laws_def)

lemma bind_touches:
  assumes "touches M ok ids K (snd (snd x))"
      and "\<And>r c K1. kv_spec K1 = kv_spec K \<Longrightarrow> touches M ok ids K1 (snd (snd (f r c K1)))"
  shows "touches M ok ids K (snd (snd (act_bind x f)))"
proof -
  obtain r c K1 where x: "x = (r, c, K1)" by (cases x) auto
  then have "kv_spec K1 = kv_spec K" using assms(1) by (auto simp: touches_def intro: static_spec)
  with assms show ?thesis by (cases r) (auto simp: x act_bind_def intro: touches_trans)
qed

lemma video_touches: "kv_spec K = s \<Longrightarrow> touches M ok {request_id a} K (snd (snd (ensure_video_slots M a c K)))"
  using allocate_touches [of K a "fc_seq_len c"]
  by (auto simp: ensure_video_slots_def Let_def split: sum.splits prod.splits)

lemma action_touches: "kv_spec K = s \<Longrightarrow> touches M ok {request_id a} K (snd (snd (ensure_action_slots M a n c K)))"
  unfolding ensure_action_slots_def
  by (cases "n \<le> 0") (auto simp: Let_def video_touches split: sum.splits intro!: bind_touches)

lemma table_touches: "kv_spec K = s \<Longrightarrow> touches M ok {request_id a} K (snd (snd (video_block_table M a c K)))"
  unfolding video_block_table_def by (rule bind_touches) (auto simp: Let_def video_touches)

lemma build_touches: "kv_spec K = s \<Longrightarrow> touches M ok {request_id a} K (snd (snd (build_block_table M a n q c K)))"
  unfolding build_block_table_def
  by (rule bind_touches, rule table_touches, simp, simp only: split_beta, rule bind_touches, rule action_touches)
    (auto simp: Let_def)

lemma prepare_touches: "kv_spec K = s \<Longrightarrow> touches M ok {request_id a} K (snd (snd (prepare_ctx M a n q c K)))"
  unfolding prepare_ctx_def
  by (cases "fc_prepared c")
    (auto intro!: bind_touches simp: video_touches build_touches)

lemma forward_touches:
  assumes "kv_spec K = s" "forward_branch M neg n up al ql fl S K = (r, S1, K1)"
  shows "touches M ok (ids_of S) K K1 \<and> same_ids S S1"
proof -
  obtain g S2 where g: "get_kv_caches M neg (Some n) up S K = (g, S2)" by fastforce
  have s2: "same_ids S S2" using get_caches_ids [of S M neg "Some n" up K] g by simp
  have id: "request_id (branch_adapter neg S2) \<in> ids_of S" using branch_id_in [of neg S2] ids_of_same [OF s2] by simp
  have p: "touches M ok (ids_of S) K K2 \<and> same_ids S S3" if pp: "prepare_pending M neg al ql S2 K = (q, S3, K2)" for q S3 K2
  proof (cases "ks_pending S2 neg")
    case (Some c)
    obtain c1 where c1: "prepare_ctx M (branch_adapter neg S2) al ql c K = (q, c1, K2)" "S3 = set_pending neg (Some c1) S2"
      using pp Some by (auto simp: prepare_pending_def split: prod.splits)
    show ?thesis using prepare_touches [OF assms(1), of "branch_adapter neg S2" al ql c] c1 s2 id
      by (auto intro: touches_mono)
  qed (use pp s2 in \<open>simp add: prepare_pending_def\<close>)
  have cm: "same_ids S (commit_paged_context neg S3 K2)" if "same_ids S S3" for S3 K2
    using same_ids_trans [OF that commit_ids] .
  show ?thesis
    using assms(2) g s2 p cm by (auto simp: forward_branch_def start_forward_def split: sum.splits prod.splits if_splits option.splits)
qed

lemma close_touches:
  assumes "close_state M S K = (S1, K1)"
  shows "touches M ok (ids_of S) K K1 \<and> same_ids S S1 \<and>
    (ok (kv_mgr K) \<longrightarrow> (\<forall>q \<in> ids_of S. mg_block_ids M q (kv_mgr K1) = []))"
proof -
  have K1: "K1 = end_request M (ks_neg S) (end_request M (ks_pos S) K)" "S1 = S\<lparr>ks_pending := (\<lambda>_. None)\<rparr>"
    using assms by (simp_all add: close_state_def)
  note t1 = end_touches [of "ks_pos S" K] and t2 = end_touches [of "ks_neg S" "end_request M (ks_pos S) K"]
  have "touches M ok (ids_of S) K K1" unfolding K1
    by (rule touches_trans [OF touches_mono [OF t1] touches_mono [OF t2]]) (auto simp: ids_of_def)
  moreover have "mg_block_ids M q (kv_mgr K1) = []" if "ok (kv_mgr K)" "q \<in> ids_of S" for q
    using t1 t2 end_empties [OF that(1), of "ks_pos S"] end_empties [of "end_request M (ks_pos S) K" "ks_neg S"] that K1(1)
    by (cases "q = request_id (ks_neg S)") (auto simp: touches_def ids_of_def)
  ultimately show ?thesis using K1(2) by (simp add: same_ids_def)
qed

lemma reset_touches:
  assumes "reset_state M keep S K = (S1, K1)"
  shows "touches M ok (ids_of S) K K1 \<and> same_ids S S1"
proof -
  obtain S2 K2 where c: "close_state M S K = (S2, K2)" by fastforce
  have "kv_mgr K1 = kv_mgr K2 \<and> static K1 = static K2 \<and> same_ids S S1"
    using assms c by (auto simp: reset_state_def Let_def begin_request_def new_adapter_def same_ids_def)
  with close_touches [OF c] show ?thesis by (simp add: touches_def)
qed

lemma populate_touches:
  assumes "kv_populate_cross i2v nb tk ik neg S K = (r, S1, K1)"
  shows "touches M ok (ids_of S) K K1 \<and> same_ids S S1"
  using assms write_layers_mgr [of "[0..<nb]" neg _ _ K]
  by (auto simp: kv_populate_cross_def Let_def same_ids_def split: if_splits sum.splits prod.splits intro!: touches_same)
    (metis snd_conv)+

lemma call_touches:
  assumes "kv_spec K = s" "run_call M i2v nb x S K = (r, S1, K1)"
  shows "touches M ok (ids_of S) K K1 \<and> same_ids S S1"
proof (cases x)
  case (ResetWindow keep)
  with assms show ?thesis using reset_touches [of keep S K S1 K1] by (simp add: run_call_def)
next
  case (Forward neg n up al ql fl)
  with assms(2) have "forward_branch M neg n up al ql fl S K = (r, S1, K1)" by (simp add: run_call_def)
  then show ?thesis by (rule forward_touches [OF assms(1)])
next
  case (Populate neg tk ik)
  with assms(2) have "kv_populate_cross i2v nb tk ik neg S K = (r, S1, K1)" by (simp add: run_call_def)
  then show ?thesis by (rule populate_touches)
qed (use assms in \<open>simp add: run_call_def\<close>)

lemma calls_touches:
  assumes "kv_spec K = s" "run_calls M i2v nb xs S K = (r, S1, K1)"
  shows "touches M ok (ids_of S) K K1 \<and> same_ids S S1"
  using assms
proof (induction xs arbitrary: S K)
  case (Cons x xs)
  obtain g S2 K2 where g: "run_call M i2v nb x S K = (g, S2, K2)" by (cases "run_call M i2v nb x S K") auto
  note t = call_touches [OF Cons.prems(1) g]
  show ?case
  proof (cases g)
    case (Inl e)
    with g t Cons.prems show ?thesis by simp
  next
    case (Inr u)
    have "kv_spec K2 = s" using t Cons.prems(1) by (auto simp: touches_def dest: static_spec)
    with Cons.IH [of K2 S2] Cons.prems(2) g Inr have "touches M ok (ids_of S2) K2 K1 \<and> same_ids S2 S1" by simp
    with t ids_of_same [of S S2] show ?thesis by (auto intro: touches_trans same_ids_trans)
  qed
qed simp

lemma close_all_touches:
  "touches M ok (\<Union>(sid, S) \<in> set dead. ids_of S) K (close_all M dead K) \<and>
   (ok (kv_mgr K) \<longrightarrow> (\<forall>(sid, S) \<in> set dead. \<forall>q \<in> ids_of S. mg_block_ids M q (kv_mgr (close_all M dead K)) = []))"
proof (induction dead arbitrary: K)
  case (Cons x dead)
  obtain sid S where x: "x = (sid, S)" by fastforce
  obtain S1 K1 where c: "close_state M S K = (S1, K1)" by fastforce
  note t1 = close_touches [OF c] and t2 = Cons [of K1]
  have e: "close_all M (x # dead) K = close_all M dead K1" using c by (simp add: close_all_def x)
  have u: "(\<Union>(sid, S) \<in> set (x # dead). ids_of S) = ids_of S \<union> (\<Union>(sid, S) \<in> set dead. ids_of S)" by (auto simp: x)
  have "touches M ok (\<Union>(sid, S) \<in> set (x # dead). ids_of S) K (close_all M (x # dead) K)"
    unfolding e u by (rule touches_trans [OF touches_mono touches_mono]) (use t1 t2 in auto)
  moreover have "mg_block_ids M q (kv_mgr (close_all M dead K1)) = []"
    if ok: "ok (kv_mgr K)" and d: "(sid', S') \<in> set (x # dead)" "q \<in> ids_of S'" for sid' S' q
  proof (cases "q \<in> (\<Union>(sid, S) \<in> set dead. ids_of S)")
    case True
    then obtain sid2 S2 where "(sid2, S2) \<in> set dead" "q \<in> ids_of S2" by auto
    with t1 t2 ok show ?thesis by (auto simp: touches_def)
  next
    case False
    then have "q \<in> ids_of S" using d x by auto
    with False t1 t2 ok show ?thesis by (auto simp: touches_def)
  qed
  ultimately show ?case unfolding e by blast
qed (simp add: close_all_def)

lemma attach_sound:
  assumes "sessions_sound M ok R"
  shows "sessions_sound M ok (attach_session M sid R) \<and> sid \<in> set (dict_keys (ar_states (attach_session M sid R))) \<and>
    static (ar_cache (attach_session M sid R)) = static (ar_cache R)"
proof (cases "dict_get (ar_states R) sid")
  case (Some S)
  have m: "ar_states (attach_session M sid R) = move_to_end sid (ar_states R)" "ar_cache (attach_session M sid R) = ar_cache R"
    using Some by (simp_all add: attach_session_def)
  have k: "sid \<in> set (dict_keys (ar_states R))" using Some by (rule dict_get_Some_key)
  show ?thesis
    using assms k unfolding sessions_sound_def m
    by (auto simp: move_to_end_ok move_to_end_length move_to_end_get move_to_end_keys distinct_removeAll simp del: set_map)
next
  case None
  obtain pos K1 where p: "begin_request (pos_id sid) 0 (ar_cache R) = (pos, K1)" by fastforce
  obtain neg K2 where n: "begin_request (neg_id sid) 0 K1 = (neg, K2)" by fastforce
  have K2: "kv_mgr K2 = kv_mgr (ar_cache R)" "static K2 = static (ar_cache R)" "request_id pos = pos_id sid" "request_id neg = neg_id sid"
    using p n by (auto simp: begin_request_def new_adapter_def)
  define new where "new = new_kv_state pos neg (kv_num_layers K2)"
  define states where "states = dict_set sid new (ar_states R)"
  define dead live where "dead = evicted MAX_DREAMZERO_SESSIONS states" and "live = evict MAX_DREAMZERO_SESSIONS states"
  have R1: "attach_session M sid R = R\<lparr>ar_states := move_to_end sid live, ar_cache := close_all M dead K2\<rparr>"
    by (simp add: attach_session_def None p n states_def dead_def live_def new_def Let_def)
  have d: "dict_ok states" "dict_keys states = dict_keys (ar_states R) @ [sid]"
    using assms None dict_set_keys_fresh [of sid "ar_states R" new]
    by (auto simp: sessions_sound_def states_def map_of_eq_None_iff)
  have split: "dead @ live = states" by (simp add: dead_def live_def evicted_evict)
  have live: "live = lastn MAX_DREAMZERO_SESSIONS states" by (simp add: live_def evict_lastn)
  have lk: "dict_ok live" "length live \<le> MAX_DREAMZERO_SESSIONS" "sid \<in> set (dict_keys live)"
    using d unfolding live by (auto simp: map_lastn distinct_lastn length_lastn MAX_DREAMZERO_SESSIONS_def last_in_lastn)
  have ids: "ids_of T = {pos_id t, neg_id t}" if "(t, T) \<in> set states" for t T
  proof -
    have "dict_get states t = Some T" using that d(1) by simp
    then have "t = sid \<and> T = new \<or> dict_get (ar_states R) t = Some T" by (auto simp: states_def dict_get_set split: if_splits)
    then show ?thesis using assms K2(3,4) by (auto simp: sessions_sound_def ids_of_def new_def new_kv_state_def)
  qed
  note C = close_all_touches [of dead K2]
  have okR: "ok (kv_mgr K2)" using assms K2 by (simp add: sessions_sound_def)
  have left: "\<exists>t \<in> set (dict_keys live). q = pos_id t \<or> q = neg_id t" if ne: "mg_block_ids M q (kv_mgr (close_all M dead K2)) \<noteq> []" for q
  proof -
    have nd: "q \<notin> (\<Union>(sid, S) \<in> set dead. ids_of S)" using C okR ne by fastforce
    then have "mg_block_ids M q (kv_mgr (ar_cache R)) \<noteq> []" using C okR ne K2(1) by (simp add: touches_def)
    then obtain t where t: "t \<in> set (dict_keys (ar_states R))" "q = pos_id t \<or> q = neg_id t"
      using assms unfolding sessions_sound_def by blast
    then have "t \<in> set (dict_keys states)" using d(2) by simp
    then obtain T where T: "(t, T) \<in> set states" by auto
    with nd t(2) ids [OF T] have "(t, T) \<notin> set dead" by auto
    with T split have "(t, T) \<in> set live" by auto
    then show ?thesis using t(2) by force
  qed
  have idl: "request_id (ks_pos T) = pos_id t \<and> request_id (ks_neg T) = neg_id t" if "dict_get live t = Some T" for t T
  proof -
    have "(t, T) \<in> set states" using map_of_SomeD [OF that] split by auto
    with d(1) have "dict_get states t = Some T" by simp
    then have "t = sid \<and> T = new \<or> dict_get (ar_states R) t = Some T" by (auto simp: states_def dict_get_set split: if_splits)
    then show ?thesis using assms K2(3,4) by (auto simp: sessions_sound_def new_def new_kv_state_def)
  qed
  have "ok (kv_mgr (close_all M dead K2)) \<and> static (close_all M dead K2) = static (ar_cache R)"
    using C okR K2(2) by (simp add: touches_def)
  moreover have "set (dict_keys (move_to_end sid live)) = set (dict_keys live)" unfolding move_to_end_keys [OF lk(3)] using lk(3) by auto
  ultimately show ?thesis
    using lk left idl unfolding R1
    by (simp add: sessions_sound_def move_to_end_ok move_to_end_length move_to_end_get del: set_map)
qed

text \<open>Tearing a session down leaves the others as they are.\<close>

lemma teardown_sound:
  assumes A: "sessions_sound M ok A" and K: "ok (kv_mgr K)" "static K = static (ar_cache A)"
      and other: "\<And>q. q \<noteq> pos_id sid \<Longrightarrow> q \<noteq> neg_id sid \<Longrightarrow> mg_block_ids M q (kv_mgr K) = mg_block_ids M q (kv_mgr (ar_cache A))"
      and S: "ids_of S = {pos_id sid, neg_id sid}" and c: "close_state M S K = (S1, K1)"
  shows "sessions_sound M ok (A\<lparr>ar_states := dict_del sid (ar_states A), ar_cache := K1, ar_model := model\<rparr>) \<and> static K1 = static (ar_cache A) \<and>
    mg_block_ids M (pos_id sid) (kv_mgr K1) = [] \<and> mg_block_ids M (neg_id sid) (kv_mgr K1) = []"
proof -
  have K1: "ok (kv_mgr K1)" "static K1 = static (ar_cache A)" "mg_block_ids M (pos_id sid) (kv_mgr K1) = []" "mg_block_ids M (neg_id sid) (kv_mgr K1) = []"
      "\<And>q. q \<noteq> pos_id sid \<Longrightarrow> q \<noteq> neg_id sid \<Longrightarrow> mg_block_ids M q (kv_mgr K1) = mg_block_ids M q (kv_mgr (ar_cache A))"
    using close_touches [OF c] K S other by (auto simp: touches_def)
  have "\<exists>t \<in> set (dict_keys (ar_states A)) - {sid}. q = pos_id t \<or> q = neg_id t" if ne: "mg_block_ids M q (kv_mgr K1) \<noteq> []" for q
  proof -
    have q: "q \<noteq> pos_id sid" "q \<noteq> neg_id sid" using ne K1(3,4) by auto
    with K1(5) ne A obtain t where "t \<in> set (dict_keys (ar_states A))" "q = pos_id t \<or> q = neg_id t"
      unfolding sessions_sound_def by metis
    with q show ?thesis by auto
  qed
  moreover have "set (dict_keys (dict_del sid (ar_states A))) = set (dict_keys (ar_states A)) - {sid}" by (simp add: dict_keys_del)
  moreover have "length (dict_del sid (ar_states A)) \<le> length (ar_states A)" by (rule length_delete_le)
  ultimately show ?thesis
    using A K1(1-4) unfolding sessions_sound_def by (auto simp: dict_get_del split: if_splits)
qed

lemma execute_sound:
  assumes R: "sessions_sound M ok R" and spec: "kv_spec (ar_cache R) = s"
      and run: "execute_ar M sid (calls_body M i2v nb calls) R = (r, R1)"
  shows "sessions_sound M ok R1 \<and> static (ar_cache R1) = static (ar_cache R) \<and>
    (case r of Inr out \<Rightarrow> sid \<in> set (dict_keys (ar_states R1))
     | Inl e \<Rightarrow> sid \<notin> set (dict_keys (ar_states R1)) \<and> sid \<notin> set (dict_keys (ar_model R1)) \<and>
         mg_block_ids M (pos_id sid) (kv_mgr (ar_cache R1)) = [] \<and> mg_block_ids M (neg_id sid) (kv_mgr (ar_cache R1)) = [])"
proof -
  define A where "A = attach_session M sid R"
  have A: "sessions_sound M ok A" "sid \<in> set (dict_keys (ar_states A))" "static (ar_cache A) = static (ar_cache R)"
    using attach_sound [OF R, of sid] by (simp_all add: A_def)
  then obtain S where S: "dict_get (ar_states A) sid = Some S" by (metis dict_get_None_iff not_None_eq)
  have ids: "ids_of S = {pos_id sid, neg_id sid}" using A(1) S by (auto simp: sessions_sound_def ids_of_def)
  obtain g S1 K1 where g: "run_calls M i2v nb calls S (ar_cache A) = (g, S1, K1)" by (cases "run_calls M i2v nb calls S (ar_cache A)") auto
  note t = calls_touches [OF static_spec [OF A(3), unfolded spec] g]
  have okA: "ok (kv_mgr (ar_cache A))" using A(1) by (simp add: sessions_sound_def)
  have K1: "ok (kv_mgr K1)" "static K1 = static (ar_cache A)"
      "\<And>q. q \<noteq> pos_id sid \<Longrightarrow> q \<noteq> neg_id sid \<Longrightarrow> mg_block_ids M q (kv_mgr K1) = mg_block_ids M q (kv_mgr (ar_cache A))"
    using t okA A(3) ids by (auto simp: touches_def)
  have s1: "request_id (ks_pos S1) = pos_id sid" "request_id (ks_neg S1) = neg_id sid"
    using t A(1) S by (auto simp: same_ids_def sessions_sound_def)
  have owner: "\<exists>t \<in> set (dict_keys (ar_states A)). q = pos_id t \<or> q = neg_id t" if "mg_block_ids M q (kv_mgr (ar_cache A)) \<noteq> []" for q
    using A(1) that unfolding sessions_sound_def by blast
  have e: "execute_ar M sid (calls_body M i2v nb calls) R =
      (case g of Inr out \<Rightarrow> (Inr out, A\<lparr>ar_states := dict_set sid S1 (ar_states A), ar_cache := K1\<rparr>)
       | Inl x \<Rightarrow> (Inl x, A\<lparr>ar_states := dict_del sid (ar_states A), ar_cache := snd (close_state M S1 K1),
                             ar_model := dict_del sid (ar_model A)\<rparr>))"
    using S g by (simp add: execute_ar_def A_def [symmetric] calls_body_def split: sum.splits)
  show ?thesis
  proof (cases g)
    case (Inr out)
    have R1: "r = Inr out" "ar_states R1 = dict_set sid S1 (ar_states A)" "ar_cache R1 = K1" using run e Inr by auto
    have "dict_keys (ar_states R1) = dict_keys (ar_states A)" using A(2) unfolding R1 by (simp add: dict_keys_set)
    then have "length (ar_states R1) = length (ar_states A)" by (metis length_map)
    moreover have "\<exists>t \<in> set (dict_keys (ar_states A)). q = pos_id t \<or> q = neg_id t" if "mg_block_ids M q (kv_mgr K1) \<noteq> []" for q
      using K1(3) [of q] owner [of q] A(2) that by (cases "q = pos_id sid \<or> q = neg_id sid") auto
    ultimately show ?thesis
      using A K1 s1 \<open>dict_keys (ar_states R1) = dict_keys (ar_states A)\<close> R1(1,3)
      unfolding sessions_sound_def by (auto simp: R1(2) dict_get_set simp del: set_map)
  next
    case (Inl x)
    obtain S2 K2 where c: "close_state M S1 K1 = (S2, K2)" by fastforce
    have i1: "ids_of S1 = {pos_id sid, neg_id sid}" using s1 by (simp add: ids_of_def)
    have R1: "r = Inl x" "R1 = A\<lparr>ar_states := dict_del sid (ar_states A), ar_cache := K2, ar_model := dict_del sid (ar_model A)\<rparr>"
      using run e Inl c by auto
    show ?thesis
      using teardown_sound [OF A(1) K1 i1 c, of "dict_del sid (ar_model A)"] unfolding R1 by (simp add: dict_keys_del A(3))
  qed
qed

lemma requests_sound:
  assumes "sessions_sound M ok R" "kv_spec (ar_cache R) = s"
  shows "sessions_sound M ok (run_requests M i2v nb reqs R) \<and> static (ar_cache (run_requests M i2v nb reqs R)) = static (ar_cache R)"
  using assms
proof (induction reqs arbitrary: R)
  case (Cons x reqs)
  obtain sid calls where x: "x = (sid, calls)" by fastforce
  obtain r R1 where "execute_ar M sid (calls_body M i2v nb calls) R = (r, R1)" by fastforce
  with execute_sound [OF Cons.prems this] Cons.IH [of R1] Cons.prems(2) static_spec [of "ar_cache R1" "ar_cache R"]
  show ?case by (simp add: x)
qed simp

end

end
