(* ===== verification/AR_Setup.thy ===== *)
theory AR_Setup
  imports AR_Session Stage_Roles
begin

text \<open>
  How the AR-Diffusion runner gets its cache (\<^verbatim>\<open>experimental/ar_diffusion/runner.py\<close>): the geometry it reads
  off the loaded transformer, the pool it allocates, the warm-up rollout at load time, and which stages
  run with a session at all.

  What the loaded model and the deployment look like are the records \<open>transformer\<close> and \<open>od_config\<close>; the
  free memory, the number of CFG ranks and what one warm-up request does with its session are arguments.
\<close>

section \<open>Geometry\<close>

text \<open>
  \<open>tf_blocks\<close> has of each block the head count of its self-attention, if it has one of its own, and its
  maximal attention size.
\<close>

record transformer =
  tf_num_layers :: int
  tf_num_heads :: int
  tf_dim :: int
  tf_num_frame_per_block :: int
  tf_frame_seqlen :: "int option"
  tf_text_len :: "int option"
  tf_i2v :: bool
  tf_blocks :: "(int option \<times> int) list"

record od_config =
  od_max_num_seqs :: "int option"
  od_itemsize :: int
  od_image_resolution :: "int list option"
  od_enforce_eager :: bool

definition image_resolution :: "od_config \<Rightarrow> int list" where
  "image_resolution cfg = (case od_image_resolution cfg of None \<Rightarrow> [180, 320] | Some res \<Rightarrow> res)"

definition infer_frame_seqlen :: "od_config \<Rightarrow> py_exc + int" where
  "infer_frame_seqlen cfg =
     (case image_resolution cfg of
        h # w # _ \<Rightarrow> Inr ((h div 8) * (w div 8) div 4)
      | _ \<Rightarrow> Inl IndexError)"

text \<open>\<^verbatim>\<open>x or default\<close> for an integer that may be missing.\<close>

definition int_or :: "int option \<Rightarrow> int \<Rightarrow> int" where
  "int_or x d = (case x of None \<Rightarrow> d | Some n \<Rightarrow> if n = 0 then d else n)"

definition build_kv_cache :: "('m, 't) kv_world \<Rightarrow> kv_config \<Rightarrow> kv_geometry \<Rightarrow> py_exc + ('m, 't) kv_cache option" where
  "build_kv_cache W C G = (if \<not> cf_enable C then Inr None else rbind (new_kv_cache W C G) (\<lambda>K. Inr (Some K)))"

text \<open>\<open>cfg_world\<close> is \<open>None\<close> when asking for the number of CFG ranks raises.\<close>

definition preallocate_kv_cache ::
  "('m, 't) kv_world \<Rightarrow> od_config \<Rightarrow> int option \<Rightarrow> transformer \<Rightarrow> int \<Rightarrow> kv_config \<Rightarrow>
   py_exc + kv_config \<times> ('m, 't) kv_cache option" where
  "preallocate_kv_cache W cfg cfg_world T free_bytes C =
     (if int_or (od_max_num_seqs cfg) 1 > 1 then Inl ValueError
      else case tf_blocks T of
        [] \<Rightarrow> Inl IndexError
      | (tp_num_heads, max_attention_size) # _ \<Rightarrow>
          rbind (py_floordiv (tf_dim T) (tf_num_heads T)) (\<lambda>head_size.
          rbind (infer_frame_seqlen cfg) (\<lambda>inferred.
          let frame_seqlen = int_or (tf_frame_seqlen T) inferred
          in rbind (case cf_window_chunks C of
                 Some w \<Rightarrow> if w = 0 then py_floordiv max_attention_size frame_seqlen else Inr w
               | None \<Rightarrow> py_floordiv max_attention_size frame_seqlen) (\<lambda>window_chunks.
             let C1 = C\<lparr>cf_chunk_size := frame_seqlen, cf_window_chunks := Some window_chunks\<rparr>
             in rbind (build_kv_cache W C1
                  \<lparr>ge_num_layers = tf_num_layers T,
                   ge_num_kv_heads = (case tp_num_heads of None \<Rightarrow> tf_num_heads T | Some n \<Rightarrow> n),
                   ge_head_size = head_size, ge_itemsize = od_itemsize cfg, ge_block_size = frame_seqlen,
                   ge_max_model_len = 2 ^ 20, ge_available_bytes = free_bytes,
                   ge_cross_attn_length = (case tf_text_len T of None \<Rightarrow> 0 | Some n \<Rightarrow> n),
                   ge_cross_attn_img_length = (if tf_i2v T then 257 else 0), ge_device = True,
                   ge_local_branches = (if (case cfg_world of None \<Rightarrow> 1 | Some n \<Rightarrow> n) \<ge> 2 then 1 else 2),
                   ge_num_frame_per_block = tf_num_frame_per_block T\<rparr>)
                (\<lambda>K. Inr (C1, K))))))"

section \<open>Which stages have a session\<close>

text \<open>
  \<open>base\<close> is the execution of the base class; encode and decode workers, and a worker without a pool, use it
  as it is.
\<close>

definition ar_execute_model ::
  "'m manager \<Rightarrow> bool \<Rightarrow> string option \<Rightarrow> string \<Rightarrow>
   ((string, 'd) dict \<Rightarrow> (py_exc + 'o) \<times> (string, 'd) dict) \<Rightarrow> ('o, 'm, 't, 'd) forward_body \<Rightarrow>
   ('m, 't, 'd) ar_runner \<Rightarrow> (py_exc + 'o) \<times> ('m, 't, 'd) ar_runner" where
  "ar_execute_model M has_cache stage_name sid base body R =
     (let role = normalize_stage_role stage_name;
          plain = (case base (ar_model R) of (r, model) \<Rightarrow> (r, R\<lparr>ar_model := model\<rparr>))
      in if \<not> has_cache then plain
         else if role = ENCODE \<or> role = DECODE then plain
         else execute_ar M sid body R)"

section \<open>Warm-up\<close>

definition WARMUP_SID :: string where
  "WARMUP_SID = ''__ardiffusion_warmup__''"

text \<open>\<^verbatim>\<open>1 + ceil(max(0, w - 1) / nfpb)\<close>, one more to capture a reset.\<close>

definition warmup_forwards :: "int \<Rightarrow> int \<Rightarrow> bool \<Rightarrow> py_exc + nat" where
  "warmup_forwards window_chunks nfpb capture_reset =
     (if nfpb = 0 then Inl ZeroDivisionError
      else Inr (nat (1 + - (- max 0 (window_chunks - 1) div nfpb) + (if capture_reset then 1 else 0))))"

text \<open>
  The loop of synthetic requests; \<open>calls i\<close> is what request \<open>i\<close> does with its session.  An exception ends the
  loop, as does a full window.
\<close>

fun warmup_rounds ::
  "'m manager \<Rightarrow> bool \<Rightarrow> nat \<Rightarrow> (nat \<Rightarrow> 't kv_call list) \<Rightarrow> int \<Rightarrow> bool \<Rightarrow> nat list \<Rightarrow> ('m, 't, 'd) ar_runner \<Rightarrow> ('m, 't, 'd) ar_runner" where
  "warmup_rounds M i2v num_blocks calls window_chunks capture_reset [] R = R"
| "warmup_rounds M i2v num_blocks calls window_chunks capture_reset (i # js) R =
     (case execute_ar M WARMUP_SID (calls_body M i2v num_blocks (calls i)) R of
        (Inl e, R1) \<Rightarrow> R1
      | (Inr _, R1) \<Rightarrow>
          (let full = (case dict_get (ar_states R1) WARMUP_SID of
                 None \<Rightarrow> False
               | Some S \<Rightarrow> int (length (window_block_ids M (ks_pos S) (ar_cache R1))) \<ge> window_chunks)
           in if \<not> capture_reset \<and> full then R1
              else warmup_rounds M i2v num_blocks calls window_chunks capture_reset js R1))"

text \<open>The \<^verbatim>\<open>finally\<close> block.\<close>

definition drop_session :: "'m manager \<Rightarrow> string \<Rightarrow> ('m, 't, 'd) ar_runner \<Rightarrow> ('m, 't, 'd) ar_runner" where
  "drop_session M sid R =
     R\<lparr>ar_states := dict_del sid (ar_states R),
       ar_cache := (case dict_get (ar_states R) sid of None \<Rightarrow> ar_cache R | Some S \<Rightarrow> snd (close_state M S (ar_cache R))),
       ar_model := dict_del sid (ar_model R)\<rparr>"

definition warmup_ar_rollout ::
  "'m manager \<Rightarrow> bool \<Rightarrow> nat \<Rightarrow> (nat \<Rightarrow> 't kv_call list) \<Rightarrow> int option \<Rightarrow> int \<Rightarrow> od_config \<Rightarrow> bool \<Rightarrow> ('m, 't, 'd) ar_runner \<Rightarrow>
   py_exc + ('m, 't, 'd) ar_runner" where
  "warmup_ar_rollout M i2v num_blocks calls window_chunks nfpb cfg capture_reset R =
     (let w = int_or window_chunks 0
      in if w \<le> 0 then Inr R
         else rbind (warmup_forwards w nfpb capture_reset) (\<lambda>n.
           case image_resolution cfg of
             _ # _ # _ \<Rightarrow> Inr (drop_session M WARMUP_SID (warmup_rounds M i2v num_blocks calls w capture_reset [0..<n] R))
           | _ \<Rightarrow> Inl IndexError))"

text \<open>\<^verbatim>\<open>load_model\<close> after the base class has loaded the pipeline.\<close>

definition finish_load ::
  "('m, 't) kv_world \<Rightarrow> 'm manager \<Rightarrow> od_config \<Rightarrow> int option \<Rightarrow> transformer option \<Rightarrow> int \<Rightarrow> (nat \<Rightarrow> 't kv_call list) \<Rightarrow>
   kv_config \<Rightarrow> py_exc + kv_config \<times> (('m, 't, 'd) ar_runner) option" where
  "finish_load W M cfg cfg_world pipeline free_bytes calls C =
     (case pipeline of
        None \<Rightarrow> Inr (C, None)
      | Some T \<Rightarrow>
          if \<not> cf_enable C then Inr (C, None)
          else rbind (preallocate_kv_cache W cfg cfg_world T free_bytes C) (\<lambda>(C1, cache).
            case cache of
              None \<Rightarrow> Inr (C1, None)
            | Some K \<Rightarrow>
                let R = \<lparr>ar_states = [], ar_cache = K, ar_model = []\<rparr>
                in if \<not> od_enforce_eager cfg \<and> cf_warmup_cudagraph C1
                   then rbind (warmup_ar_rollout M (tf_i2v T) (length (tf_blocks T)) calls (cf_window_chunks C1)
                          (tf_num_frame_per_block T) cfg (cf_warmup_capture_reset C1) R) (\<lambda>R1. Inr (C1, Some R1))
                   else Inr (C1, Some R)))"

section \<open>What load time leaves\<close>

text \<open>A cache that load time built has one chunk per block, all layers and a branch count that fits the ranks.\<close>

lemma preallocated:
  assumes "preallocate_kv_cache W cfg cfg_world T free_bytes C = Inr (C1, Some K)"
  obtains G w where "new_kv_cache W C1 G = Inr K" "cf_window_chunks C1 = Some w" "ge_block_size G = cf_chunk_size C1"
    "ge_num_layers G = tf_num_layers T" "ge_num_frame_per_block G = tf_num_frame_per_block T"
    "ge_local_branches G = (if (case cfg_world of None \<Rightarrow> 1 | Some n \<Rightarrow> n) \<ge> 2 then 1 else 2)"
    "cf_sink_chunks C1 = cf_sink_chunks C" "cf_reset_at_boundary C1 = cf_reset_at_boundary C"
proof -
  obtain tp max_att rest where b: "tf_blocks T = (tp, max_att) # rest" "\<not> int_or (od_max_num_seqs cfg) 1 > 1"
    using assms by (cases "tf_blocks T") (auto simp: preallocate_kv_cache_def split: if_splits)
  obtain hs inferred w where r: "py_floordiv (tf_dim T) (tf_num_heads T) = Inr hs" "infer_frame_seqlen cfg = Inr inferred"
      "(case cf_window_chunks C of
          Some w \<Rightarrow> if w = 0 then py_floordiv max_att (int_or (tf_frame_seqlen T) inferred) else Inr w
        | None \<Rightarrow> py_floordiv max_att (int_or (tf_frame_seqlen T) inferred)) = Inr w"
    using assms b by (fastforce simp: preallocate_kv_cache_def rbind_Inr_iff Let_def)
  show ?thesis
    using assms b r
    by (intro that [of "\<lparr>ge_num_layers = tf_num_layers T, ge_num_kv_heads = (case tp of None \<Rightarrow> tf_num_heads T | Some n \<Rightarrow> n),
           ge_head_size = hs, ge_itemsize = od_itemsize cfg, ge_block_size = int_or (tf_frame_seqlen T) inferred, ge_max_model_len = 2 ^ 20,
           ge_available_bytes = free_bytes, ge_cross_attn_length = (case tf_text_len T of None \<Rightarrow> 0 | Some n \<Rightarrow> n),
           ge_cross_attn_img_length = (if tf_i2v T then 257 else 0), ge_device = True,
           ge_local_branches = (if (case cfg_world of None \<Rightarrow> 1 | Some n \<Rightarrow> n) \<ge> 2 then 1 else 2),
           ge_num_frame_per_block = tf_num_frame_per_block T\<rparr>" w])
      (auto simp: preallocate_kv_cache_def build_kv_cache_def rbind_Inr_iff Let_def split: if_splits)
qed

text \<open>
  Warm-up never fails the load of a usable configuration, and it takes its session away again: the
  blocks of the pool are free as before, whatever the synthetic requests did.
\<close>

context block_manager
begin

lemma rounds_sound:
  assumes "sessions_sound M ok R" "kv_spec (ar_cache R) = s"
  shows "sessions_sound M ok (warmup_rounds M i2v nb calls w cap js R) \<and> static (ar_cache (warmup_rounds M i2v nb calls w cap js R)) = static (ar_cache R) \<and>
    set (dict_keys (ar_states (warmup_rounds M i2v nb calls w cap js R))) \<subseteq> insert WARMUP_SID (set (dict_keys (ar_states R)))"
  using assms
proof (induction js arbitrary: R)
  case (Cons i js)
  obtain r R1 where e: "execute_ar M WARMUP_SID (calls_body M i2v nb (calls i)) R = (r, R1)" by fastforce
  have k: "set (dict_keys (ar_states R1)) \<subseteq> insert WARMUP_SID (set (dict_keys (ar_states R)))"
    by (rule execute_keys [OF e])
  note es = execute_sound [OF Cons.prems e]
  show ?case
  proof (cases r)
    case (Inl x)
    then show ?thesis using e es k by simp
  next
    case (Inr u)
    have R1: "sessions_sound M ok R1" "static (ar_cache R1) = static (ar_cache R)" using es by auto
    note ih = Cons.IH [OF R1(1) static_spec [OF R1(2), unfolded Cons.prems(2)]]
    then have "set (dict_keys (ar_states (warmup_rounds M i2v nb calls w cap js R1))) \<subseteq> insert WARMUP_SID (set (dict_keys (ar_states R)))"
      using k by blast
    then show ?thesis using e R1 k Inr ih by (simp add: Let_def)
  qed
qed auto

lemma drop_sound:
  assumes R: "sessions_sound M ok R"
  shows "sessions_sound M ok (drop_session M sid R) \<and> static (ar_cache (drop_session M sid R)) = static (ar_cache R) \<and>
    set (dict_keys (ar_states (drop_session M sid R))) = set (dict_keys (ar_states R)) - {sid}"
proof -
  have k: "set (dict_keys (dict_del sid (ar_states R))) = set (dict_keys (ar_states R)) - {sid}" by (simp add: dict_keys_del)
  show ?thesis
  proof (cases "dict_get (ar_states R) sid")
    case None
    then have "drop_session M sid R = R\<lparr>ar_model := dict_del sid (ar_model R)\<rparr>"
      by (simp add: drop_session_def dict_del_fresh)
    then show ?thesis using R None by (auto simp: sessions_sound_def dict_get_None_iff simp del: set_map)
  next
    case (Some S)
    obtain S1 K1 where c: "close_state M S (ar_cache R) = (S1, K1)" by fastforce
    have "ids_of S = {pos_id sid, neg_id sid}" using R Some by (auto simp: sessions_sound_def ids_of_def)
    moreover have "ok (kv_mgr (ar_cache R))" using R by (simp add: sessions_sound_def)
    ultimately show ?thesis
      using teardown_sound [OF R _ refl refl _ c, of sid "dict_del sid (ar_model R)"] k
      by (simp add: drop_session_def Some c del: set_map)
  qed
qed

lemma warmup_leaves_nothing:
  assumes R: "sessions_sound M ok R" "kv_spec (ar_cache R) = s" "ar_states R = []"
      and run: "warmup_ar_rollout M i2v nb calls window_chunks nfpb cfg cap R = Inr R1"
  shows "static (ar_cache R1) = static (ar_cache R) \<and> ar_states R1 = [] \<and> (\<forall>q. mg_block_ids M q (kv_mgr (ar_cache R1)) = []) \<and> ok (kv_mgr (ar_cache R1))"
proof -
  have idle: "ar_states T = [] \<and> (\<forall>q. mg_block_ids M q (kv_mgr (ar_cache T)) = []) \<and> ok (kv_mgr (ar_cache T))"
    if "sessions_sound M ok T" "set (dict_keys (ar_states T)) = {}" for T :: "('m, 't, 'd) ar_runner"
    using that by (auto simp: sessions_sound_def)
  let ?rounds = "\<lambda>w n. warmup_rounds M i2v nb calls w cap [0..<n] R"
  have "R1 = R \<or> (\<exists>w n. R1 = drop_session M WARMUP_SID (?rounds w n))"
    using run
    by (cases "image_resolution cfg" rule: remdups_adj.cases) (auto simp: warmup_ar_rollout_def Let_def rbind_Inr_iff split: if_splits)
  then show ?thesis
  proof
    assume "R1 = R"
    with idle [of R] R show ?thesis by simp
  next
    assume "\<exists>w n. R1 = drop_session M WARMUP_SID (?rounds w n)"
    then obtain w n where R1: "R1 = drop_session M WARMUP_SID (?rounds w n)" by blast
    note rs = rounds_sound [OF R(1,2), of i2v nb calls w cap "[0..<n]"]
    have "sessions_sound M ok R1" "set (dict_keys (ar_states R1)) = {}" "static (ar_cache R1) = static (ar_cache R)"
      using drop_sound [of "?rounds w n" WARMUP_SID] rs R(3) unfolding R1 by auto
    with idle show ?thesis by blast
  qed
qed

end

section \<open>The cache keeps its shape\<close>

text \<open>Whatever the manager does: here nothing is asked of it.\<close>

lemma any_manager: "block_manager M s N slack (\<lambda>_. False)"
  by (simp add: block_manager_def manager_laws_def)

lemma close_static: "static (snd (close_state M S K)) = static K"
  using block_manager.close_touches [OF any_manager, of M S K] by (cases "close_state M S K") (auto simp: touches_def)

lemma attach_static: "static (ar_cache (attach_session M sid R)) = static (ar_cache R)"
proof (cases "dict_get (ar_states R) sid")
  case None
  obtain pos K1 neg K2 where b: "begin_request (pos_id sid) 0 (ar_cache R) = (pos, K1)" "begin_request (neg_id sid) 0 K1 = (neg, K2)" by fastforce
  then have "static K2 = static (ar_cache R)" by (auto simp: begin_request_def)
  moreover have "static (close_all M dead K2) = static K2" for dead
    using block_manager.close_all_touches [OF any_manager, of M dead K2] by (simp add: touches_def)
  ultimately show ?thesis by (simp add: attach_session_def None b Let_def)
qed (simp add: attach_session_def)

lemma execute_static:
  assumes "execute_ar M sid (calls_body M i2v nb calls) R = (r, R1)"
  shows "static (ar_cache R1) = static (ar_cache R)"
proof -
  have c: "static K1 = static K" if "run_calls M i2v nb calls S K = (g, S1, K1)" for S K g S1 K1
    using block_manager.calls_touches [OF any_manager refl that] by (simp add: touches_def)
  have "static (ar_cache R1) = static (ar_cache (attach_session M sid R))"
    using assms c by (auto simp: execute_ar_def calls_body_def Let_def close_static split: option.splits prod.splits sum.splits)
  then show ?thesis by (simp add: attach_static)
qed

lemma rounds_static: "static (ar_cache (warmup_rounds M i2v nb calls w cap js R)) = static (ar_cache R)"
proof (induction js arbitrary: R)
  case (Cons i js)
  obtain r R1 where e: "execute_ar M WARMUP_SID (calls_body M i2v nb (calls i)) R = (r, R1)" by fastforce
  show ?case using Cons [of R1] execute_static [OF e] e by (cases r) (simp_all add: Let_def)
qed simp

lemma warmup_static:
  assumes "warmup_ar_rollout M i2v nb calls window_chunks nfpb cfg cap R = Inr R1"
  shows "static (ar_cache R1) = static (ar_cache R)"
  using assms
  by (cases "image_resolution cfg" rule: remdups_adj.cases)
    (auto simp: warmup_ar_rollout_def Let_def rbind_Inr_iff drop_session_def close_static rounds_static split: if_splits option.split)

end
