(* ===== verification/AR_Rollout.thy ===== *)
theory AR_Rollout
  imports AR_Setup
begin

text \<open>
  What the AR-Diffusion engine guarantees over whole rollouts: no blocks leak from sessions, a pool of the
  minimal size suffices for one session, the session table is a bounded LRU map; and where sessions get
  into each other's way: the cross-attention caches and the request ids.
\<close>

interpretation lowest: block_manager "lowest_first s (1 + int n)" s "1 + int n" 0 "lowest_ok s (1 + int n)" for s n
  by unfold_locales (rule lowest_laws, simp)

section \<open>No leaks\<close>

text \<open>
  C8: From a runner without sessions, after any requests of any sessions with any calls and failures,
  there are at most 64 sessions, each works on its own two request ids, and every block that is not
  free belongs to a request of a session in the table.  A failed request leaves nothing behind: its
  session is gone from both tables and its two requests hold no blocks.
\<close>

theorem sessions_do_not_leak:
  assumes "manager_laws M (kv_spec K) N slack ok" "ok (kv_mgr K)" "\<And>q. mg_block_ids M q (kv_mgr K) = []"
      and "R = run_requests M i2v nb reqs \<lparr>ar_states = [], ar_cache = K, ar_model = model\<rparr>"
      and "execute_ar M sid (calls_body M i2v nb calls) R = (r, R1)"
  shows "sessions_sound M ok R1 \<and>
    (case r of Inr out \<Rightarrow> sid \<in> set (dict_keys (ar_states R1))
     | Inl e \<Rightarrow> sid \<notin> set (dict_keys (ar_states R1)) \<and> sid \<notin> set (dict_keys (ar_model R1)) \<and>
         mg_block_ids M (pos_id sid) (kv_mgr (ar_cache R1)) = [] \<and> mg_block_ids M (neg_id sid) (kv_mgr (ar_cache R1)) = [])"
proof -
  have m: "block_manager M (kv_spec K) N slack ok" by (rule block_manager.intro) (rule assms(1))
  have "sessions_sound M ok \<lparr>ar_states = [], ar_cache = K, ar_model = model\<rparr>"
    using assms(2,3) by (simp add: sessions_sound_def)
  then have R: "sessions_sound M ok R" "kv_spec (ar_cache R) = kv_spec K"
    using block_manager.requests_sound [OF m, of "\<lparr>ar_states = [], ar_cache = K, ar_model = model\<rparr>" i2v nb reqs] assms(4)
    by (auto dest: static_spec)
  show ?thesis using block_manager.execute_sound [OF m R assms(5)] by (cases r) auto
qed

definition empty_cache :: "((string, int list) dict, nat) kv_cache" where
  "empty_cache = \<lparr>kv_spec = sample_spec, kv_num_layers = 1, kv_local_branches = 2, kv_managed_num_blocks = 8,
     kv_scratch_per_branch = 4, kv_cross_attn_length = 3, kv_mgr = [], kv_adapters = [],
     kv_cross = [\<lambda>_. None], kv_cross_img = [], kv_pools = [], kv_current = False\<rparr>"

definition sample_manager :: "(string, int list) dict manager" where
  "sample_manager = lowest_first sample_spec 8"

definition sample_runner :: "((string, int list) dict, nat, unit) ar_runner" where
  "sample_runner = run_requests sample_manager False 1
     [(''a'', [Forward False 2 True 0 2 None, Forward True 2 True 0 2 None]), (''b'', [Forward False 4 True 1 2 None])]
     \<lparr>ar_states = [], ar_cache = empty_cache, ar_model = [(''a'', ()), (''b'', ())]\<rparr>"

lemma sessions_do_not_leak_witness:
  "\<exists>R1. execute_ar sample_manager ''b'' (calls_body sample_manager False 1 [Forward False 2 True 0 2 (Some RuntimeError)]) sample_runner =
      (Inl RuntimeError, R1) \<and> sessions_sound sample_manager (lowest_ok sample_spec 8) R1 \<and>
    ''b'' \<notin> set (dict_keys (ar_states R1)) \<and>
    mg_block_ids sample_manager (pos_id ''b'') (kv_mgr (ar_cache R1)) = []"
proof -
  let ?ex = "execute_ar sample_manager ''b'' (calls_body sample_manager False 1 [Forward False 2 True 0 2 (Some RuntimeError)]) sample_runner"
  have "fst ?ex = Inl RuntimeError" by code_simp
  then obtain R1 where ex: "?ex = (Inl RuntimeError, R1)" by (metis prod.collapse)
  have k: "kv_spec empty_cache = sample_spec" "kv_mgr empty_cache = []" by (simp_all add: empty_cache_def)
  have laws: "manager_laws sample_manager (kv_spec empty_cache) 8 0 (lowest_ok sample_spec 8)"
    using lowest.laws [of sample_spec 7] by (simp add: k sample_manager_def)
  have ok: "lowest_ok sample_spec 8 (kv_mgr empty_cache)" using lowest_empty k by simp
  have tab: "mg_block_ids sample_manager q (kv_mgr empty_cache) = []" for q
    by (simp add: k sample_manager_def lowest_first_def table_in_def)
  show ?thesis
    using sessions_do_not_leak [OF laws ok tab sample_runner_def ex] ex by auto
qed

section \<open>Cross-attention\<close>

lemma foldr_rbind:
  "(\<And>i. i \<in> set xs \<Longrightarrow> f i = Inr (g i)) \<Longrightarrow>
   foldr (\<lambda>i r. rbind (f i) (\<lambda>x. rbind r (\<lambda>xs. Inr (x # xs)))) xs (Inr []) = Inr (map g xs)"
  by (induction xs) simp_all

text \<open>Writing all layers sets the branch of every layer, and nothing else.\<close>

lemma write_layers_exact:
  assumes "j \<le> length (kv_cross K)" "kv_cross_img K = [] \<or> ik = None \<or> length (kv_cross_img K) = length (kv_cross K)"
  shows "write_layers [j..<length (kv_cross K)] neg (Some tk) ik K =
    (Inr (), K\<lparr>kv_cross := map (\<lambda>i. if i < j then kv_cross K ! i else (kv_cross K ! i)(neg := Some (tk i))) [0..<length (kv_cross K)],
      kv_cross_img := (case ik of None \<Rightarrow> kv_cross_img K
        | Some f \<Rightarrow> map (\<lambda>i. if i < j then kv_cross_img K ! i else (kv_cross_img K ! i)(neg := Some (f i))) [0..<length (kv_cross_img K)])\<rparr>)"
  using assms
proof (induction "length (kv_cross K) - j" arbitrary: j K)
  case 0
  then have j: "j = length (kv_cross K)" by simp
  have id: "map (\<lambda>i. if i < n then xs ! i else h i) [0..<length xs] = xs" if "length xs \<le> n" for n h and xs :: "'zz list"
    using that by (intro nth_equalityI) auto
  have ide: "map (\<lambda>i. if i < j then kv_cross_img K ! i else h i) [0..<length (kv_cross_img K)] = kv_cross_img K" if "ik \<noteq> None" for h
    using 0 j that by (intro id) auto
  show ?case using j id [of "kv_cross K" j] ide by (cases ik) simp_all
next
  case (Suc d)
  let ?n = "length (kv_cross K)" and ?m = "length (kv_cross_img K)"
  have j: "j < ?n" using Suc.hyps(2) by simp
  define K1 where "K1 = K\<lparr>kv_cross := (kv_cross K)[j := (kv_cross K ! j)(neg := Some (tk j))],
    kv_cross_img := (case ik of None \<Rightarrow> kv_cross_img K | Some f \<Rightarrow> (kv_cross_img K)[j := (kv_cross_img K ! j)(neg := Some (f j))])\<rparr>"
  have w: "write_cross_kv j neg (Some (tk j)) (map_option (\<lambda>f. f j) ik) K = Inr K1"
    using j Suc.prems(2) by (cases ik) (auto simp: write_cross_kv_def K1_def)
  have l: "length (kv_cross K1) = ?n" "length (kv_cross_img K1) = ?m" by (simp_all add: K1_def split: option.splits)
  have im: "kv_cross_img K1 = [] \<or> ik = None \<or> length (kv_cross_img K1) = length (kv_cross K1)" using Suc.prems(2) l by auto
  have IH: "write_layers [Suc j..<?n] neg (Some tk) ik K1 =
    (Inr (), K1\<lparr>kv_cross := map (\<lambda>i. if i < Suc j then kv_cross K1 ! i else (kv_cross K1 ! i)(neg := Some (tk i))) [0..<?n],
      kv_cross_img := (case ik of None \<Rightarrow> kv_cross_img K1
        | Some f \<Rightarrow> map (\<lambda>i. if i < Suc j then kv_cross_img K1 ! i else (kv_cross_img K1 ! i)(neg := Some (f i))) [0..<?m])\<rparr>)"
    by (rule Suc.hyps(1) [of K1 "Suc j", unfolded l, OF _ _ im [unfolded l]]) (use Suc.hyps(2) j in auto)
  have c: "map (\<lambda>i. if i < Suc j then kv_cross K1 ! i else (kv_cross K1 ! i)(neg := Some (tk i))) [0..<?n] =
      map (\<lambda>i. if i < j then kv_cross K ! i else (kv_cross K ! i)(neg := Some (tk i))) [0..<?n]"
    by (auto simp: K1_def nth_list_update less_Suc_eq not_less)
  have d: "map (\<lambda>i. if i < Suc j then kv_cross_img K1 ! i else (kv_cross_img K1 ! i)(neg := Some (f i))) [0..<?m] =
      map (\<lambda>i. if i < j then kv_cross_img K ! i else (kv_cross_img K ! i)(neg := Some (f i))) [0..<?m]" if "ik = Some f" for f
    using that by (auto simp: K1_def nth_list_update less_Suc_eq not_less)
  have "write_layers [j..<?n] neg (Some tk) ik K = write_layers [Suc j..<?n] neg (Some tk) ik K1"
    using j w by (simp add: upt_conv_Cons)
  also have "\<dots> = (Inr (), K\<lparr>kv_cross := map (\<lambda>i. if i < j then kv_cross K ! i else (kv_cross K ! i)(neg := Some (tk i))) [0..<?n],
      kv_cross_img := (case ik of None \<Rightarrow> kv_cross_img K
        | Some f \<Rightarrow> map (\<lambda>i. if i < j then kv_cross_img K ! i else (kv_cross_img K ! i)(neg := Some (f i))) [0..<?m])\<rparr>)"
    unfolding IH c using d by (cases ik) (simp_all add: K1_def)
  finally show ?case .
qed

lemma populate_exact:
  assumes "\<not> ks_cross_text S neg" "kv_cross_img K = [] \<or> length (kv_cross_img K) = length (kv_cross K)"
  shows "\<exists>img. kv_populate_cross i2v (length (kv_cross K)) tk ik neg S K =
    (Inr (), S\<lparr>ks_cross_text := (ks_cross_text S)(neg := True),
               ks_cross_img := (if ik \<noteq> None \<and> i2v then (ks_cross_img S)(neg := True) else ks_cross_img S)\<rparr>,
     K\<lparr>kv_cross := map (\<lambda>i. (kv_cross K ! i)(neg := Some (tk i))) [0..<length (kv_cross K)], kv_cross_img := img\<rparr>) \<and>
    length img = length (kv_cross_img K)"
proof -
  define need where "need = (ik \<noteq> None \<and> i2v \<and> \<not> ks_cross_img S neg)"
  have w: "write_layers [0..<length (kv_cross K)] neg (Some tk) (if need then ik else None) K =
    (Inr (), K\<lparr>kv_cross := map (\<lambda>i. (kv_cross K ! i)(neg := Some (tk i))) [0..<length (kv_cross K)],
      kv_cross_img := (case if need then ik else None of None \<Rightarrow> kv_cross_img K
        | Some f \<Rightarrow> map (\<lambda>i. (kv_cross_img K ! i)(neg := Some (f i))) [0..<length (kv_cross_img K)])\<rparr>)"
    using write_layers_exact [of 0 K "if need then ik else None" neg tk] assms(2)
    by (simp only: not_less_zero if_False le0 simp_thms) blast
  have f: "(if need then (ks_cross_img S)(neg := True) else ks_cross_img S) =
      (if ik \<noteq> None \<and> i2v then (ks_cross_img S)(neg := True) else ks_cross_img S)"
    by (auto simp: need_def fun_eq_iff)
  have "kv_populate_cross i2v (length (kv_cross K)) tk ik neg S K =
    (Inr (), S\<lparr>ks_cross_text := (ks_cross_text S)(neg := True),
               ks_cross_img := (if ik \<noteq> None \<and> i2v then (ks_cross_img S)(neg := True) else ks_cross_img S)\<rparr>,
     K\<lparr>kv_cross := map (\<lambda>i. (kv_cross K ! i)(neg := Some (tk i))) [0..<length (kv_cross K)],
       kv_cross_img := (case if need then ik else None of None \<Rightarrow> kv_cross_img K
        | Some f \<Rightarrow> map (\<lambda>i. (kv_cross_img K ! i)(neg := Some (f i))) [0..<length (kv_cross_img K)])\<rparr>)"
    unfolding kv_populate_cross_def Let_def need_def [symmetric] using assms(1) w f by simp
  then show ?thesis by (intro exI conjI, assumption) (simp split: option.splits)
qed

text \<open>The text keys and values a session reads, layer by layer.\<close>

definition cross_texts :: "bool \<Rightarrow> kv_state \<Rightarrow> ('m, 't) kv_cache \<Rightarrow> py_exc + ('t \<times> 't) option list" where
  "cross_texts neg S K = rbind (get_cross_kv_caches neg S K) (\<lambda>cs. Inr (map cc_text cs))"

lemma cross_texts_exact:
  assumes "ks_cross_text S neg" "kv_cross_img K = [] \<or> ks_cross_img S neg \<and> length (kv_cross_img K) = length (kv_cross K)"
      and "0 < kv_cross_attn_length K" "ks_num_layers S = int (length (kv_cross K))"
  shows "cross_texts neg S K = Inr (map (\<lambda>i. (kv_cross K ! i) neg) [0..<length (kv_cross K)])"
proof -
  have ar: "arange 0 (ks_num_layers S) = map int [0..<length (kv_cross K)]" using assms(4) by (simp add: arange_def)
  have r: "read_cross_kv (nat i) neg K = Inr \<lparr>cc_text = (kv_cross K ! nat i) neg,
      cc_img = (if kv_cross_img K = [] then None else Some ((kv_cross_img K ! nat i) neg))\<rparr>"
    if "i \<in> set (arange 0 (ks_num_layers S))" for i
    using that assms(2) by (auto simp: ar read_cross_kv_def)
  have "get_cross_kv_caches neg S K = foldr (\<lambda>i r. rbind (read_cross_kv (nat i) neg K) (\<lambda>x. rbind r (\<lambda>xs. Inr (x # xs))))
      (arange 0 (ks_num_layers S)) (Inr [])"
    using assms(1-3) by (auto simp: get_cross_kv_caches_def)
  also have "\<dots> = Inr (map (\<lambda>i. \<lparr>cc_text = (kv_cross K ! nat i) neg,
      cc_img = (if kv_cross_img K = [] then None else Some ((kv_cross_img K ! nat i) neg))\<rparr>) (arange 0 (ks_num_layers S)))"
    by (rule foldr_rbind) (rule r)
  finally show ?thesis by (simp add: cross_texts_def ar)
qed

text \<open>
  C29: The cross-attention caches belong to the worker, not to the session.  A session that has filled
  them reads its own prompt only until another session fills them: then its flags still say that
  they are filled, so it does not fill them again and attends to the prompt of the other session.
\<close>

theorem cross_attention_shared:
  assumes "length (kv_cross K) = nb" "ks_num_layers SA = int nb" "0 < kv_cross_attn_length K"
      and "kv_cross_img K = [] \<or> length (kv_cross_img K) = nb \<and> i2v \<and> iA \<noteq> None \<and> iB \<noteq> None"
      and "\<not> ks_cross_text SA neg" "\<not> ks_cross_text SB neg"
      and "kv_populate_cross i2v nb tA iA neg SA K = (rA, SA1, K1)" "kv_populate_cross i2v nb tB iB neg SB K1 = (rB, SB1, K2)"
  shows "cross_texts neg SA1 K1 = Inr (map (\<lambda>i. Some (tA i)) [0..<nb]) \<and>
    kv_populate_cross i2v nb tA iA neg SA1 K2 = (Inr (), SA1, K2) \<and>
    cross_texts neg SA1 K2 = Inr (map (\<lambda>i. Some (tB i)) [0..<nb])"
proof -
  have im: "kv_cross_img K = [] \<or> length (kv_cross_img K) = length (kv_cross K)" using assms(1,4) by auto
  obtain img where A: "SA1 = SA\<lparr>ks_cross_text := (ks_cross_text SA)(neg := True),
        ks_cross_img := (if iA \<noteq> None \<and> i2v then (ks_cross_img SA)(neg := True) else ks_cross_img SA)\<rparr>"
      "K1 = K\<lparr>kv_cross := map (\<lambda>i. (kv_cross K ! i)(neg := Some (tA i))) [0..<nb], kv_cross_img := img\<rparr>"
      "length img = length (kv_cross_img K)"
    using populate_exact [OF assms(5) im, of i2v tA iA] assms(1,7) by auto
  have l1: "length (kv_cross K1) = nb" "length (kv_cross_img K1) = length (kv_cross_img K)" using A(2,3) by simp_all
  have im1: "kv_cross_img K1 = [] \<or> length (kv_cross_img K1) = length (kv_cross K1)" using im l1 assms(1) by (metis length_0_conv)
  obtain img2 where B: "K2 = K1\<lparr>kv_cross := map (\<lambda>i. (kv_cross K1 ! i)(neg := Some (tB i))) [0..<nb], kv_cross_img := img2\<rparr>"
      "length img2 = length (kv_cross_img K1)"
    using populate_exact [OF assms(6) im1, of i2v tB iB] l1(1) assms(8) by auto
  have fl: "ks_cross_text SA1 neg" "ks_num_layers SA1 = int nb" using A(1) assms(2) by simp_all
  have img_ok: "kv_cross_img K1 = [] \<or> ks_cross_img SA1 neg \<and> length (kv_cross_img K1) = length (kv_cross K1)"
      "kv_cross_img K2 = [] \<or> ks_cross_img SA1 neg \<and> length (kv_cross_img K2) = length (kv_cross K2)"
    using assms(4) A(1) l1 B by auto
  have "cross_texts neg SA1 K1 = Inr (map (\<lambda>i. Some (tA i)) [0..<nb])"
    using cross_texts_exact [OF fl(1) img_ok(1)] fl(2) assms(3) l1(1) by (simp add: A(2))
  moreover have "cross_texts neg SA1 K2 = Inr (map (\<lambda>i. Some (tB i)) [0..<nb])"
    using cross_texts_exact [OF fl(1) img_ok(2)] fl(2) assms(3) l1(1) by (simp add: B(1) A(2))
  moreover have "kv_populate_cross i2v nb tA iA neg SA1 K2 = (Inr (), SA1, K2)"
    using A(1) by (auto simp: kv_populate_cross_def Let_def)
  ultimately show ?thesis by blast
qed

definition fresh_session :: kv_state where
  "fresh_session = new_kv_state (new_adapter ''p'' 2 0) (new_adapter ''n'' 2 0) 1"

lemma cross_attention_shared_witness:
  "\<exists>SA K1 SB K2. kv_populate_cross False 1 (\<lambda>i. (1, 2)) None False fresh_session empty_cache = (Inr (), SA, K1) \<and>
    kv_populate_cross False 1 (\<lambda>i. (7, 8)) None False fresh_session K1 = (Inr (), SB, K2) \<and>
    cross_texts False SA K1 = Inr [Some (1, 2)] \<and> cross_texts False SA K2 = Inr [Some (7, 8)]"
proof -
  let ?pA = "kv_populate_cross False 1 (\<lambda>i. (1, 2)) None False fresh_session empty_cache"
  obtain rA SA K1 where A: "?pA = (rA, SA, K1)" by (cases ?pA) auto
  let ?pB = "kv_populate_cross False 1 (\<lambda>i. (7, 8)) None False fresh_session K1"
  obtain rB SB K2 where B: "?pB = (rB, SB, K2)" by (cases ?pB) auto
  have K: "length (kv_cross empty_cache) = 1" "0 < kv_cross_attn_length empty_cache" "kv_cross_img empty_cache = []"
    by (simp_all add: empty_cache_def)
  have S: "ks_num_layers fresh_session = int 1" "\<not> ks_cross_text fresh_session False"
    by (simp_all add: fresh_session_def new_kv_state_def)
  have "fst ?pA = Inr ()" by code_simp
  moreover have "fst (kv_populate_cross False 1 (\<lambda>i. (7, 8)) None False fresh_session (snd (snd ?pA))) = Inr ()" by code_simp
  ultimately have "rA = Inr ()" "rB = Inr ()" using A B by simp_all
  with cross_attention_shared [OF K(1) S(1) K(2) disjI1 [OF K(3)] S(2) S(2) A B] A B show ?thesis by auto
qed

section \<open>The smallest pool\<close>

lemma staticD:
  assumes "static K1 = static K"
  shows "kv_spec K1 = kv_spec K" "kv_managed_num_blocks K1 = kv_managed_num_blocks K" "kv_local_branches K1 = kv_local_branches K"
    "kv_scratch_per_branch K1 = kv_scratch_per_branch K" "kv_num_layers K1 = kv_num_layers K" "cache_shape B K1 = cache_shape B K"
    "length (kv_cross K1) = length (kv_cross K)" "length (kv_cross_img K1) = length (kv_cross_img K)"
  using assms by (auto simp: static_def cache_shape_def kv_block_size_def total_blocks_def)

text \<open>
  The state of one session between forwards, in a pool of its own: both branches hold whole chunks, at most a
  window and the last forward; a branch the worker does not run holds none.
\<close>

definition rollout_inv :: "'m manager \<Rightarrow> ('m \<Rightarrow> bool) \<Rightarrow> (bool \<Rightarrow> bool) \<Rightarrow> nat \<Rightarrow> kv_state \<Rightarrow> ('m, 't) kv_cache \<Rightarrow> bool" where
  "rollout_inv M ok runs nf S K \<longleftrightarrow>
     ok (kv_mgr K) \<and> request_id (ks_pos S) \<noteq> request_id (ks_neg S) \<and> 0 < ks_num_layers S \<and>
     (\<forall>q. q \<notin> ids_of S \<longrightarrow> mg_block_ids M q (kv_mgr K) = []) \<and>
     (\<forall>neg c. ks_pending S neg = Some c \<longrightarrow> \<not> fc_commit_current c) \<and>
     (\<forall>neg. \<exists>e live. branch_table M (kv_spec K) (branch_adapter neg S) (kv_mgr K) e live \<and>
        length live \<le> nat (sp_window_chunks (kv_spec K)) + nf \<and> (runs neg \<or> live = []))"

definition floor_ok :: "nat \<Rightarrow> ('m, 't) kv_cache \<Rightarrow> (bool \<Rightarrow> bool) \<Rightarrow> nat \<Rightarrow> bool" where
  "floor_ok B K runs nf \<longleftrightarrow> cache_shape B K \<and> sliding_spec (kv_spec K) \<and> sp_sink_chunks (kv_spec K) = 0 \<and>
     min_blocks (kv_local_branches K) (sp_window_chunks (kv_spec K)) (int nf) \<le> kv_managed_num_blocks K \<and>
     (kv_local_branches K = 1 \<longrightarrow> \<not> (runs False \<and> runs True))"

text \<open>What the other requests hold.\<close>

lemma others_bound:
  assumes "rollout_inv M ok runs nf S K" "floor_ok B K runs nf" "runs neg"
  shows "int (card (owned_by_others M (request_id (branch_adapter neg S)) (kv_mgr K))) \<le>
    (kv_local_branches K - 1) * (sp_window_chunks (kv_spec K) + int nf)"
proof -
  let ?o = "branch_adapter (\<not> neg) S" and ?m = "kv_mgr K"
  obtain e live where b: "branch_table M (kv_spec K) ?o ?m e live" "length live \<le> nat (sp_window_chunks (kv_spec K)) + nf"
      "runs (\<not> neg) \<or> live = []"
    using assms(1) unfolding rollout_inv_def by blast
  have W: "0 < sp_window_chunks (kv_spec K)" using assms(2) by (simp add: floor_ok_def sliding_spec_def)
  have ids: "ids_of S = {request_id (branch_adapter neg S), request_id ?o}" by (auto simp: ids_of_def branch_adapter_def)
  have "set (resident_block_ids (mg_block_ids M q ?m) (mg_null M)) \<subseteq> set live" if "q \<noteq> request_id (branch_adapter neg S)" for q
  proof (cases "q = request_id ?o")
    case True
    then show ?thesis using branch_window [OF b(1)] by simp
  next
    case False
    with that ids assms(1) have "mg_block_ids M q ?m = []" by (simp add: rollout_inv_def)
    then show ?thesis by (simp add: resident_block_ids_def)
  qed
  then have "owned_by_others M (request_id (branch_adapter neg S)) ?m \<subseteq> set live" by (auto simp: owned_by_others_def)
  then have c: "card (owned_by_others M (request_id (branch_adapter neg S)) ?m) \<le> length live"
    by (meson card_length card_mono finite_set le_trans)
  have lb: "kv_local_branches K = 1 \<or> kv_local_branches K = 2" using assms(2) by (simp add: floor_ok_def cache_shape_def)
  show ?thesis
  proof (cases "live = []")
    case True
    with c lb W show ?thesis by auto
  next
    case False
    then have "runs (\<not> neg)" using b(3) by blast
    then have "runs False \<and> runs True" using assms(3) by (cases neg) auto
    then have "kv_local_branches K = 2" using lb assms(2) by (auto simp: floor_ok_def)
    with c b(2) W show ?thesis by simp
  qed
qed

text \<open>The scratch blocks of a forward: its own video blocks unless it is committed, then those of its action rows.\<close>

definition scratch_need :: "nat \<Rightarrow> bool \<Rightarrow> nat \<Rightarrow> nat \<Rightarrow> int" where
  "scratch_need B update n len = (if update then 0 else int n) + (int len + int B - 1) div int B"

lemma scratch_granted:
  "0 \<le> start \<Longrightarrow> 0 \<le> count \<Longrightarrow> start + count \<le> kv_scratch_per_branch K \<Longrightarrow>
   scratch_block_ids neg start count K = Inr (arange (scratch_base K neg + start) (scratch_base K neg + start + count))"
  by (simp add: scratch_block_ids_def scratch_base_def Let_def add.assoc)

lemma action_granted:
  assumes shape: "cache_shape B K" and c: "fc_allocated_video c" "fc_action_slots c = None" "length (fc_video_blocks c) = n"
      and need: "scratch_need B (fc_commit_current c) n len \<le> kv_scratch_per_branch K"
  shows "\<exists>c1 K1. ensure_action_slots M a (int len) c K = (Inr (), c1, K1)"
proof (cases "len = 0")
  case False
  have B: "0 < B" "kv_block_size K = int B" using shape by (simp_all add: cache_shape_def)
  let ?off = "if fc_commit_current c then 0 else int (length (fc_video_blocks c))" and ?count = "(int len + int B - 1) div int B"
  have cnt: "0 \<le> ?count" using B(1) by (simp add: pos_imp_zdiv_nonneg_iff)
  have s: "scratch_block_ids (fc_is_negative c) ?off ?count K =
      Inr (arange (scratch_base K (fc_is_negative c) + ?off) (scratch_base K (fc_is_negative c) + ?off + ?count))" (is "_ = Inr ?blocks")
    using need c(3) cnt by (intro scratch_granted) (auto simp: scratch_need_def)
  have "int len \<le> int (B * length ?blocks)" using ceil_cover [OF B(1), of len] cnt by (simp add: arange_def mult.commute)
  then have "len \<le> B * length ?blocks" by linarith
  then have sl: "compute_slot_mapping ?blocks (arange 0 (int len)) (int B) = Inr (take len (slots_of B ?blocks))"
    using slot_mapping_exact [OF B(1), of 0 len ?blocks] by simp
  have ev: "ensure_video_slots M a c K = (Inr (), c, K)" using c by (simp add: ensure_video_slots_def)
  show ?thesis unfolding ensure_action_slots_def ev act_bind_simps Let_def B(2) s using False c(2) sl by simp
qed (simp add: ensure_action_slots_def)

lemma branch_table_cong:
  "mg_block_ids M (request_id a) m1 = mg_block_ids M (request_id a) m \<Longrightarrow> branch_table M s a m1 e live = branch_table M s a m e live"
  by (simp add: branch_table_def)

lemma prepare_after_video:
  assumes "ensure_video_slots M a c K = (Inr (), set_video B cur c, K1)" "\<not> fc_prepared c"
  shows "prepare_ctx M a len ql c K = prepare_ctx M a len ql (set_video B cur c) K1"
  using assms by (simp add: prepare_ctx_def set_video_def ensure_video_slots_def)

text \<open>Preparing a forward of \<open>n\<close> chunks, given where its video blocks are.\<close>

lemma prepare_granted:
  assumes shape: "cache_shape B K1" and s: "0 < W" "cur \<noteq> []" and same: "kv_scratch_per_branch K1 = kv_scratch_per_branch K"
      and ev: "ensure_video_slots M a c K = (Inr (), set_video B cur c, K1)"
      and c: "c = new_context neg hist sl up (int (W * B))"
      and need: "scratch_need B up (length cur) len \<le> kv_scratch_per_branch K"
  shows "\<exists>c1. prepare_ctx M a (int len) ql c K = (Inr (), c1, K1\<lparr>kv_current := True\<rparr>) \<and>
    fc_commit_current c1 = up \<and> fc_allocated_video c1 \<and> fc_seq_len c1 = sl"
proof -
  let ?c = "set_video B cur c"
  have f: "fc_allocated_video ?c" "fc_action_slots ?c = None" "\<not> fc_prepared ?c" "fc_video_blocks ?c = cur"
      "fc_video_slots ?c = Some (slots_of B cur)" "fc_max_video_tokens ?c = int (W * B)" "fc_commit_current ?c = up" "fc_seq_len ?c = sl"
    by (simp_all add: c set_video_def new_context_def)
  obtain c2 K2 where ea: "ensure_action_slots M a (int len) ?c K1 = (Inr (), c2, K2)"
    using action_granted [OF shape f(1,2) arg_cong [OF f(4), of length], of len M a] need f(7) same by auto
  have np: "\<not> fc_prepared c" by (simp add: c new_context_def)
  from prepare_finish [OF shape f(1-6) s(1) _ ea, of ql] s(2) f(7,8)
  show ?thesis unfolding prepare_after_video [OF ev np] by auto
qed

text \<open>The new blocks of a committed forward are granted in a pool of the minimal size.\<close>

lemma floor_grants:
  assumes laws: "manager_laws M (kv_spec K) (kv_managed_num_blocks K) slack ok" "slack \<le> 1"
      and fl: "floor_ok B K runs nf" and inv: "rollout_inv M ok runs nf S K" and r: "runs neg" and n: "0 < n" "n \<le> nf"
      and b: "branch_table M (kv_spec K) (branch_adapter neg S) (kv_mgr K) e live"
  shows "\<exists>m1. mg_allocate M (branch_adapter neg S) (int n * sp_chunk_size (kv_spec K)) (kv_mgr K) = (True, m1)"
proof -
  let ?a = "branch_adapter neg S" and ?W = "sp_window_chunks (kv_spec K)" and ?m = "kv_mgr K"
  define kept where "kept = drop (nat (completed_chunks ?a - ?W - sp_sink_chunks (kv_spec K)) - e) live"
  have sp: "sliding_spec (kv_spec K)" "sp_sink_chunks (kv_spec K) = 0" "0 < ?W" using fl by (auto simp: floor_ok_def sliding_spec_def)
  have ok: "ok ?m" using inv by (simp add: rollout_inv_def)
  obtain g m1 where al: "mg_allocate M ?a (int n * sp_chunk_size (kv_spec K)) ?m = (g, m1)" by fastforce
  note A = window_allocation [OF laws(1) ok sp(1) b n(1) al, folded kept_def]
  have lb: "kv_local_branches K = 1 \<or> kv_local_branches K = 2" using fl by (simp add: floor_ok_def cache_shape_def)
  have o: "int (card (owned_by_others M (request_id ?a) ?m)) \<le> (kv_local_branches K - 1) * (?W + int nf)"
    by (rule others_bound [OF inv fl r])
  have k: "int (length kept) \<le> ?W" using A(5) sp by linarith
  have "kv_local_branches K * (?W + int nf) + 2 \<le> kv_managed_num_blocks K" using fl by (simp add: floor_ok_def min_blocks_def)
  then have "int n + int (card (owned_by_others M (request_id ?a) ?m)) + int (length kept) + slack \<le> kv_managed_num_blocks K - 1"
    using o k n(2) laws(2) lb by (auto simp: algebra_simps)
  with A(4) al show ?thesis by auto
qed

lemma scratch_video_granted:
  assumes shape: "cache_shape B K" and c: "fc_seq_len c = int (n * B)" "\<not> fc_commit_current c" "\<not> fc_allocated_video c"
      and n: "int n \<le> kv_scratch_per_branch K"
  shows "\<exists>cur. ensure_video_slots M a c K = (Inr (), set_video B cur c, K) \<and> length cur = n"
proof -
  have B: "0 < B" "kv_block_size K = int B" using shape by (simp_all add: cache_shape_def)
  have nb: "num_current_video_blocks c K = Inr (int n)" using B c(1) by (simp add: num_current_video_blocks_def)
  let ?b = "scratch_base K (fc_is_negative c)"
  have s: "scratch_block_ids (fc_is_negative c) 0 (int n) K = Inr (arange ?b (?b + int n))"
    using scratch_granted [of 0 "int n" K] n by simp
  have l: "length (arange ?b (?b + int n)) = n" by (simp add: arange_def)
  then have "compute_slot_mapping (arange ?b (?b + int n)) (arange 0 (fc_seq_len c)) (int B) = Inr (slots_of B (arange ?b (?b + int n)))"
    using whole_mapping [OF B(1), of "arange ?b (?b + int n)"] c(1) by (simp add: mult.commute)
  then have "ensure_video_slots M a c K = (Inr (), set_video B (arange ?b (?b + int n)) c, K)"
    using nb c s B(2) by (simp add: ensure_video_slots_def set_video_def)
  with l show ?thesis by blast
qed

lemma pending_simps [simp]:
  "ks_pending (set_pending neg c S) = (ks_pending S)(neg := c)" "branch_adapter x (set_pending neg c S) = branch_adapter x S"
  "ids_of (set_pending neg c S) = ids_of S" "ks_pos (set_pending neg c S) = ks_pos S" "ks_neg (set_pending neg c S) = ks_neg S"
  "ks_num_layers (set_pending neg c S) = ks_num_layers S"
  by (simp_all add: set_pending_def branch_adapter_def ids_of_def)

lemma get_caches_run:
  assumes "floor_ok B K runs nf" "rollout_inv M ok runs nf S K"
  shows "\<exists>layers. layers \<noteq> [] \<and> get_kv_caches M neg (Some (int (n * B))) up S K = (Inr layers,
    set_pending neg (Some (new_context neg (window_block_ids M (branch_adapter neg S) K) (int (n * B)) up
      (int (nat (sp_window_chunks (kv_spec K)) * B)))) S)"
proof -
  have sp: "sp_chunk_size (kv_spec K) = int B" "0 < B" "sp_sliding_window (kv_spec K) = int (nat (sp_window_chunks (kv_spec K)) * B)"
    using assms(1) by (simp_all add: floor_ok_def cache_shape_def sliding_spec_def kv_block_size_def)
  have "\<not> (case ks_pending S neg of None \<Rightarrow> False | Some p \<Rightarrow> fc_commit_current p \<and> fc_allocated_video p \<and> \<not> fc_committed p)"
    using assms(2) by (auto simp: rollout_inv_def split: option.splits)
  moreover have "arange 0 (ks_num_layers S) \<noteq> []" using assms(2) by (simp add: arange_def rollout_inv_def)
  ultimately show ?thesis using sp by (simp add: get_kv_caches_def prepare_paged_context_def Let_def)
qed

lemma uncommitted_inv:
  assumes "rollout_inv M ok runs nf S K" "\<not> fc_commit_current c"
  shows "rollout_inv M ok runs nf (set_pending neg (Some c) S) (K\<lparr>kv_current := b\<rparr>)"
  using assms unfolding rollout_inv_def by auto

lemma committed_inv:
  assumes fl: "floor_ok B K runs nf" and inv: "rollout_inv M ok runs nf S K" and r: "runs neg" and n: "0 < n" "n \<le> nf"
      and laws: "manager_laws M (kv_spec K) N slack ok"
      and al: "mg_allocate M (branch_adapter neg S) (int n * sp_chunk_size (kv_spec K)) (kv_mgr K) = (True, m1)"
      and S1: "S1 = (set_adapter neg ((on_chunk_committed ^^ n) (branch_adapter neg S)) S)\<lparr>ks_committed := cm, ks_pending := (ks_pending S)(neg := None)\<rparr>"
  shows "rollout_inv M ok runs nf S1 (K\<lparr>kv_mgr := m1, kv_current := b\<rparr>)"
proof -
  let ?a = "branch_adapter neg S" and ?sp = "kv_spec K"
  obtain e live where br: "branch_table M ?sp ?a (kv_mgr K) e live" using inv unfolding rollout_inv_def by blast
  have ok: "ok (kv_mgr K)" using inv by (simp add: rollout_inv_def)
  have sp: "sliding_spec ?sp" "sp_sink_chunks ?sp = 0" using fl by (auto simp: floor_ok_def)
  define skip where "skip = nat (completed_chunks ?a - sp_window_chunks ?sp - sp_sink_chunks ?sp)"
  define kept where "kept = drop (skip - e) live"
  note A = window_allocation [OF laws ok sp(1) br n(1) al, folded skip_def, folded kept_def]
  obtain new where new: "length new = n" "mg_null M \<notin> set new"
      "mg_block_ids M (request_id ?a) m1 = replicate skip (mg_null M) @ kept @ new" using A(3) by blast
  have w: "whole_chunks ?sp ?a" "mg_null M \<notin> set live" using br by (simp_all add: branch_table_def)
  then have nk: "mg_null M \<notin> set kept" by (auto simp: kept_def dest: in_set_dropD)
  have kl: "length kept \<le> nat (sp_window_chunks ?sp)" using A(5) sp unfolding skip_def by linarith
  have b1: "branch_table M ?sp ((on_chunk_committed ^^ n) ?a) m1 skip (kept @ new)"
    using commit_branch [OF sp(1) w(1) nk new(2,3) A(5) skip_def] new(1) by simp
  have br1: "\<exists>e live. branch_table M ?sp (branch_adapter x S1) m1 e live \<and> length live \<le> nat (sp_window_chunks ?sp) + nf \<and> (runs x \<or> live = [])" for x
  proof (cases "x = neg")
    case True
    then have "branch_adapter x S1 = (on_chunk_committed ^^ n) ?a" by (simp add: S1 branch_adapter_def set_adapter_def)
    with True b1 r kl new(1) n(2) show ?thesis by (intro exI [of _ skip] exI [of _ "kept @ new"]) simp
  next
    case False
    then have x: "branch_adapter x S1 = branch_adapter x S" by (auto simp: S1 branch_adapter_def set_adapter_def)
    have "request_id (branch_adapter x S) \<noteq> request_id ?a" using False inv by (cases x; cases neg) (auto simp: rollout_inv_def branch_adapter_def)
    then have "branch_table M ?sp (branch_adapter x S) m1 e' l' = branch_table M ?sp (branch_adapter x S) (kv_mgr K) e' l'" for e' l'
      by (intro branch_table_cong A(2))
    with inv show ?thesis unfolding x rollout_inv_def by auto
  qed
  have ids: "request_id (ks_pos S1) = request_id (ks_pos S)" "request_id (ks_neg S1) = request_id (ks_neg S)"
    by (auto simp: S1 set_adapter_def branch_adapter_def)
  have "mg_block_ids M q m1 = []" if "q \<notin> ids_of S1" for q
    using A(2) [of q] that branch_id_in [of neg S] inv ids by (auto simp: rollout_inv_def ids_of_def)
  moreover have "ks_pending S1 = (ks_pending S)(neg := None)" "ks_num_layers S1 = ks_num_layers S" by (simp_all add: S1 set_adapter_def)
  ultimately show ?thesis using inv A(1) br1 ids unfolding rollout_inv_def by (auto split: if_splits)
qed

lemma forward_step:
  assumes laws: "manager_laws M (kv_spec K) (kv_managed_num_blocks K) slack ok" "slack \<le> 1"
      and fl: "floor_ok B K runs nf" and inv: "rollout_inv M ok runs nf S K" and r: "runs neg" and n: "0 < n" "n \<le> nf"
      and need: "scratch_need B up n len \<le> kv_scratch_per_branch K"
  shows "\<exists>S1 K1. forward_branch M neg (int (n * B)) up (int len) ql None S K = (Inr (), S1, K1) \<and> static K1 = static K \<and> rollout_inv M ok runs nf S1 K1"
proof -
  let ?a = "branch_adapter neg S" and ?W = "nat (sp_window_chunks (kv_spec K))"
  let ?c = "new_context neg (window_block_ids M ?a K) (int (n * B)) up (int (?W * B))"
  have W: "0 < ?W" "sliding_spec (kv_spec K)" and shape: "cache_shape B K" and B: "0 < B" "sp_chunk_size (kv_spec K) = int B"
    using fl by (simp_all add: floor_ok_def sliding_spec_def cache_shape_def kv_block_size_def)
  have c: "fc_seq_len ?c = int (n * B)" "fc_commit_current ?c = up" "\<not> fc_allocated_video ?c" by (simp_all add: new_context_def)
  obtain layers where g: "layers \<noteq> []" "get_kv_caches M neg (Some (int (n * B))) up S K = (Inr layers, set_pending neg (Some ?c) S)"
    using get_caches_run [OF fl inv] by blast
  have fwd: "forward_branch M neg (int (n * B)) up (int len) ql None S K =
      (Inr (), if up then commit_paged_context neg (set_pending neg (Some c1) S) K1 else set_pending neg (Some c1) S, K1)"
    if "prepare_ctx M ?a (int len) ql ?c K = (Inr (), c1, K1)" for c1 K1
    using g that by (simp add: forward_branch_def start_forward_def prepare_pending_def) (simp add: set_pending_def)
  show ?thesis
  proof (cases up)
    case False
    have "0 \<le> (int len + int B - 1) div int B" using B(1) by (simp add: pos_imp_zdiv_nonneg_iff)
    then have nn: "int n \<le> kv_scratch_per_branch K" using need False by (simp add: scratch_need_def)
    obtain cur where ev: "ensure_video_slots M ?a ?c K = (Inr (), set_video B cur ?c, K)" "length cur = n"
      using scratch_video_granted [OF shape c(1) _ c(3) nn] c(2) False by auto
    obtain c1 where p: "prepare_ctx M ?a (int len) ql ?c K = (Inr (), c1, K\<lparr>kv_current := True\<rparr>)" "\<not> fc_commit_current c1"
      using prepare_granted [OF shape W(1) _ refl ev(1) refl] ev(2) n(1) need False by auto
    show ?thesis
      using fwd [OF p(1)] False uncommitted_inv [OF inv p(2), of neg True] by auto
  next
    case True
    obtain e live where br: "branch_table M (kv_spec K) ?a (kv_mgr K) e live" using inv unfolding rollout_inv_def by blast
    obtain m1 where al: "mg_allocate M ?a (int n * sp_chunk_size (kv_spec K)) (kv_mgr K) = (True, m1)"
      using floor_grants [OF laws fl inv r n br] by blast
    have ok: "ok (kv_mgr K)" using inv by (simp add: rollout_inv_def)
    obtain new where ev: "ensure_video_slots M ?a ?c K = (Inr (), set_video B new ?c, K\<lparr>kv_mgr := m1\<rparr>)" "length new = n"
      using commit_granted [OF shape laws(1) ok W(2) br n(1) c(1) _ c(3) al] c(2) True by auto
    have shape1: "cache_shape B (K\<lparr>kv_mgr := m1\<rparr>)" using shape by (simp add: cache_shape_def kv_block_size_def total_blocks_def)
    obtain c1 where p: "prepare_ctx M ?a (int len) ql ?c K = (Inr (), c1, K\<lparr>kv_mgr := m1, kv_current := True\<rparr>)"
        "fc_commit_current c1" "fc_allocated_video c1" "fc_seq_len c1 = int (n * B)"
      using prepare_granted [OF shape1 W(1) _ _ ev(1) refl, of len ql] ev(2) n(1) need True by auto
    have div: "nat (int (n * B) div int B) = n" using B(1) by simp
    define S1 where "S1 = commit_paged_context neg (set_pending neg (Some c1) S) (K\<lparr>kv_mgr := m1, kv_current := True\<rparr>)"
    have "S1 = (set_adapter neg ((on_chunk_committed ^^ n) ?a) S)
        \<lparr>ks_committed := (ks_committed S)(neg := ks_committed S neg + int (n * B)), ks_pending := (ks_pending S)(neg := None)\<rparr>"
      using p(2-4) div B(2) by (simp add: S1_def commit_paged_context_def) (simp add: set_pending_def set_adapter_def)
    then have "rollout_inv M ok runs nf S1 (K\<lparr>kv_mgr := m1, kv_current := True\<rparr>)"
      by (rule committed_inv [OF fl inv r n laws(1) al])
    then show ?thesis using fwd [OF p(1)] True by (auto simp: S1_def)
  qed
qed

text \<open>The other calls: a reset empties the session, filling the cross-attention caches does not touch the blocks.\<close>

lemma reset_step:
  assumes laws: "manager_laws M (kv_spec K) (kv_managed_num_blocks K) slack ok" and inv: "rollout_inv M ok runs nf S K"
      and run: "reset_state M keep S K = (S1, K1)"
  shows "static K1 = static K \<and> rollout_inv M ok runs nf S1 K1"
proof -
  have m: "block_manager M (kv_spec K) (kv_managed_num_blocks K) slack ok" using laws by (rule block_manager.intro)
  obtain S2 K2 where c: "close_state M S K = (S2, K2)" by fastforce
  have okK: "ok (kv_mgr K)" and others: "\<And>q. q \<notin> ids_of S \<Longrightarrow> mg_block_ids M q (kv_mgr K) = []" using inv by (auto simp: rollout_inv_def)
  note ct = block_manager.close_touches [OF m c]
  have e: "mg_block_ids M q (kv_mgr K2) = []" for q using ct okK others by (cases "q \<in> ids_of S") (auto simp: touches_def)
  have r: "kv_mgr K1 = kv_mgr K2" "static K1 = static K2" "ks_num_layers S1 = ks_num_layers S" "ks_pending S1 = (\<lambda>_. None)"
      "ks_pos S1 = new_adapter (request_id (ks_pos S)) (sp_chunk_size (kv_spec K2)) 0" "ks_neg S1 = new_adapter (request_id (ks_neg S)) (sp_chunk_size (kv_spec K2)) 0"
    using run c by (auto simp: reset_state_def Let_def begin_request_def close_state_def end_request_def)
  have st: "static K1 = static K" using r(2) ct by (simp add: touches_def)
  have okK1: "ok (kv_mgr K1)" using ct okK r(1) by (simp add: touches_def)
  have w: "branch_table M (kv_spec K1) (branch_adapter neg S1) (kv_mgr K1) 0 []" for neg
    using e r(1,5,6) staticD(1) [OF r(2)] by (simp add: branch_table_def whole_chunks_def new_adapter_def branch_adapter_def)
  have "\<exists>e live. branch_table M (kv_spec K1) (branch_adapter neg S1) (kv_mgr K1) e live \<and>
      length live \<le> nat (sp_window_chunks (kv_spec K1)) + nf \<and> (runs neg \<or> live = [])" for neg
    by (intro exI [of _ 0] exI [of _ "[]"]) (simp add: w)
  then show ?thesis using inv st okK1 e r by (simp add: rollout_inv_def new_adapter_def)
qed

lemma write_cross_defined:
  assumes "i < length (kv_cross K)" "ik \<noteq> None \<and> kv_cross_img K \<noteq> [] \<longrightarrow> i < length (kv_cross_img K)"
  shows "\<exists>K1. write_cross_kv i neg tk ik K = Inr K1"
  using assms by (auto simp: write_cross_kv_def split: option.split)

lemma write_layers_defined:
  assumes "\<forall>i \<in> set js. i < length (kv_cross K) \<and> (kv_cross_img K \<noteq> [] \<longrightarrow> i < length (kv_cross_img K))"
  shows "fst (write_layers js neg tk ik K) = Inr ()"
  using assms
proof (induction js arbitrary: K)
  case (Cons i js)
  obtain K1 where w: "write_cross_kv i neg (map_option (\<lambda>f. f i) tk) (map_option (\<lambda>f. f i) ik) K = Inr K1"
    using write_cross_defined [of i K "map_option (\<lambda>f. f i) ik" neg "map_option (\<lambda>f. f i) tk"] Cons.prems by auto
  have "length (kv_cross K1) = length (kv_cross K)" "length (kv_cross_img K1) = length (kv_cross_img K)"
    using write_cross_mgr [OF w] staticD(7,8) by blast+
  then show ?case using Cons.IH [of K1] Cons.prems w by (simp flip: length_greater_0_conv)
qed simp

lemma populate_step:
  assumes inv: "rollout_inv M ok runs nf S K" and nb: "nb \<le> length (kv_cross K)" "kv_cross_img K = [] \<or> nb \<le> length (kv_cross_img K)"
  shows "\<exists>S1 K1. kv_populate_cross i2v nb tk ik neg S K = (Inr (), S1, K1) \<and> static K1 = static K \<and> rollout_inv M ok runs nf S1 K1"
proof -
  obtain r S1 K1 where p: "kv_populate_cross i2v nb tk ik neg S K = (r, S1, K1)" by (cases "kv_populate_cross i2v nb tk ik neg S K") auto
  have w: "fst (write_layers [0..<nb] neg t k K) = Inr ()" for t k by (rule write_layers_defined) (use nb in auto)
  have m: "kv_mgr (snd (write_layers [0..<nb] neg t k K)) = kv_mgr K" "static (snd (write_layers [0..<nb] neg t k K)) = static K" for t k
    using write_layers_mgr by blast+
  have l: "\<exists>K2. write_layers [0..<nb] neg t k K = (Inr (), K2) \<and> kv_mgr K2 = kv_mgr K \<and> static K2 = static K" for t k
    using w [of t k] m [of t k] by (cases "write_layers [0..<nb] neg t k K") auto
  have "r = Inr () \<and> kv_mgr K1 = kv_mgr K \<and> static K1 = static K \<and> ks_pos S1 = ks_pos S \<and> ks_neg S1 = ks_neg S \<and>
      ks_num_layers S1 = ks_num_layers S \<and> ks_pending S1 = ks_pending S"
    using p l [of "if \<not> ks_cross_text S neg then Some tk else None" "if ik \<noteq> None \<and> i2v \<and> \<not> ks_cross_img S neg then ik else None"]
    by (auto simp: kv_populate_cross_def Let_def split: if_splits)
  moreover from this have "ids_of S1 = ids_of S" "branch_adapter x S1 = branch_adapter x S" for x by (simp_all add: ids_of_def branch_adapter_def)
  ultimately show ?thesis using p inv staticD(1) [of K1 K] by (auto simp: rollout_inv_def)
qed

text \<open>A call within the limits the pool was sized for.\<close>

definition within_limits :: "nat \<Rightarrow> nat \<Rightarrow> ('m, 't) kv_cache \<Rightarrow> (bool \<Rightarrow> bool) \<Rightarrow> nat \<Rightarrow> 't kv_call \<Rightarrow> bool" where
  "within_limits B nb K runs nf x =
     (case x of
        Forward neg seq_len update action_len query_len failure \<Rightarrow>
          failure = None \<and> runs neg \<and> 0 < seq_len \<and> seq_len mod int B = 0 \<and> seq_len div int B \<le> int nf \<and> 0 \<le> action_len \<and>
          scratch_need B update (nat (seq_len div int B)) (nat action_len) \<le> kv_scratch_per_branch K
      | ResetWindow keep \<Rightarrow> True
      | Populate neg text_kv img_kv \<Rightarrow> nb \<le> length (kv_cross K) \<and> (kv_cross_img K = [] \<or> nb \<le> length (kv_cross_img K))
      | Crash e \<Rightarrow> False)"

lemma within_limits_static:
  assumes "static K1 = static K"
  shows "within_limits B nb K1 runs nf = within_limits B nb K runs nf"
  using staticD(4,7,8) [OF assms] by (intro ext) (auto simp: within_limits_def simp flip: length_0_conv split: kv_call.split)

lemma floor_ok_static: "static K1 = static K \<Longrightarrow> floor_ok B K1 runs nf = floor_ok B K runs nf"
  using staticD [of K1 K] by (simp add: floor_ok_def)

lemma call_step:
  assumes laws: "manager_laws M (kv_spec K) (kv_managed_num_blocks K) slack ok" "slack \<le> 1"
      and fl: "floor_ok B K runs nf" and inv: "rollout_inv M ok runs nf S K" and x: "within_limits B nb K runs nf x"
  shows "\<exists>S1 K1. run_call M i2v nb x S K = (Inr (), S1, K1) \<and> static K1 = static K \<and> rollout_inv M ok runs nf S1 K1"
proof (cases x)
  case (Forward neg sl up al ql failure)
  define n len where "n = nat (sl div int B)" and "len = nat al"
  have B: "0 < B" using fl by (simp add: floor_ok_def cache_shape_def)
  have l: "failure = None" "runs neg" "0 < sl" "sl mod int B = 0" "sl div int B \<le> int nf" "0 \<le> al" "scratch_need B up n len \<le> kv_scratch_per_branch K"
    using x Forward by (auto simp: within_limits_def n_def len_def)
  have slb: "sl = sl div int B * int B" using l(4) by (metis add.right_neutral div_mult_mod_eq)
  have q: "0 < sl div int B" using l(3) slb B by (metis mult_pos_pos not_less zero_less_mult_pos2 of_nat_0_less_iff)
  have n: "0 < n" "n \<le> nf" "sl = int (n * B)" "al = int len" using q l(5,6) slb by (auto simp: n_def len_def)
  show ?thesis
    using forward_step [OF laws fl inv l(2) n(1,2) l(7), of ql] n(3,4) by (auto simp: Forward l(1) run_call_def)
next
  case (ResetWindow keep)
  obtain S1 K1 where "reset_state M keep S K = (S1, K1)" by fastforce
  with reset_step [OF laws(1) inv this] show ?thesis by (auto simp: ResetWindow run_call_def)
next
  case (Populate neg tk ik)
  with populate_step [OF inv, of nb i2v tk ik neg] x show ?thesis by (auto simp: within_limits_def run_call_def)
qed (use x in \<open>simp add: within_limits_def\<close>)

lemma rollout_runs:
  assumes laws: "manager_laws M (kv_spec K) (kv_managed_num_blocks K) slack ok" "slack \<le> 1"
      and fl: "floor_ok B K runs nf" and inv: "rollout_inv M ok runs nf S K"
      and calls: "list_all (within_limits B nb K runs nf) calls"
  shows "\<exists>S1 K1. run_calls M i2v nb calls S K = (Inr (), S1, K1) \<and> static K1 = static K \<and> rollout_inv M ok runs nf S1 K1"
  using assms
proof (induction calls arbitrary: S K)
  case (Cons x calls)
  obtain S1 K1 where s: "run_call M i2v nb x S K = (Inr (), S1, K1)" "static K1 = static K" "rollout_inv M ok runs nf S1 K1"
    using call_step [OF Cons.prems(1-4), of nb x i2v] Cons.prems(5) by auto
  note D = staticD [OF s(2)]
  have "\<exists>S2 K2. run_calls M i2v nb calls S1 K1 = (Inr (), S2, K2) \<and> static K2 = static K1 \<and> rollout_inv M ok runs nf S2 K2"
    using Cons.prems s(3) D(1,2) floor_ok_static [OF s(2)] within_limits_static [OF s(2)] by (intro Cons.IH) simp_all
  with s(1,2) show ?case by auto
qed simp

text \<open>What the constructor makes.\<close>

lemma new_cache_floor:
  assumes "new_kv_cache W C G = Inr K" "cf_window_chunks C = Some w" "0 < w" "cf_sink_chunks C = 0" "\<not> cf_reset_at_boundary C"
      and "ge_block_size G = cf_chunk_size C" "kv_local_branches K = 1 \<longrightarrow> \<not> (runs False \<and> runs True)"
  shows "floor_ok (nat (cf_chunk_size C)) K runs (nat (max 1 (ge_num_frame_per_block G)))"
proof -
  let ?cs = "cf_chunk_size C" and ?nf = "max 1 (ge_num_frame_per_block G)"
  obtain scratch where K: "0 < ?cs" "ge_local_branches G = 1 \<or> ge_local_branches G = 2" "0 < scratch"
      "kv_spec K = spec_of C G w" "kv_local_branches K = ge_local_branches G" "kv_scratch_per_branch K = scratch"
      "min_blocks (ge_local_branches G) w ?nf \<le> kv_managed_num_blocks K"
      "kv_pools K = new_kv_pools W G (kv_managed_num_blocks K + ge_local_branches G * scratch)"
    using assms(1,2) by (auto simp: new_kv_cache_def rbind_Inr_iff Let_def ChunkWindowSpec_def split: if_splits)
  note m = K(7)
  have m0: "0 \<le> min_blocks (ge_local_branches G) w ?nf" using K(2) assms(3) by (auto simp: min_blocks_def)
  have len: "(kv_managed_num_blocks K + ge_local_branches G * scratch) * ?cs \<le>
      int (nat ((kv_managed_num_blocks K + ge_local_branches G * scratch) * ?cs))" by simp
  have "list_all (\<lambda>(k, v). total_blocks K * int (nat ?cs) \<le> int (length k) \<and> total_blocks K * int (nat ?cs) \<le> int (length v)) (kv_pools K)"
    unfolding K(8) new_kv_pools_def Let_def using K(1) len by (auto simp: list_all_iff total_blocks_def K(5,6) assms(6))
  then have "cache_shape (nat ?cs) K"
    using K m m0 assms(6) by (auto simp: cache_shape_def kv_block_size_def spec_of_def)
  moreover have "sliding_spec (kv_spec K)" using K(1) assms(3-6) by (simp add: K(4) spec_of_def sliding_spec_def)
  moreover have "int (nat ?nf) = ?nf" by simp
  ultimately show ?thesis unfolding floor_ok_def using m assms(4,7) K(4,5) by (simp add: spec_of_def del: int_nat_eq)
qed

text \<open>Requests of one session that has the pool to itself.\<close>

fun requests_succeed ::
  "'m manager \<Rightarrow> bool \<Rightarrow> nat \<Rightarrow> (string \<times> 't kv_call list) list \<Rightarrow> ('m, 't, 'd) ar_runner \<Rightarrow> bool" where
  "requests_succeed M i2v nb [] R = True"
| "requests_succeed M i2v nb ((sid, calls) # reqs) R =
     (case execute_ar M sid (calls_body M i2v nb calls) R of
        (Inl e, R1) \<Rightarrow> False
      | (Inr _, R1) \<Rightarrow> requests_succeed M i2v nb reqs R1)"

definition lone_session :: "'m manager \<Rightarrow> ('m \<Rightarrow> bool) \<Rightarrow> (bool \<Rightarrow> bool) \<Rightarrow> nat \<Rightarrow> string \<Rightarrow> ('m, 't, 'd) ar_runner \<Rightarrow> bool" where
  "lone_session M ok runs nf sid R \<longleftrightarrow>
     ar_states R = [] \<and> ok (kv_mgr (ar_cache R)) \<and> (\<forall>q. mg_block_ids M q (kv_mgr (ar_cache R)) = []) \<or>
     (\<exists>S. ar_states R = [(sid, S)] \<and> rollout_inv M ok runs nf S (ar_cache R))"

lemma attach_lone:
  assumes "lone_session M ok runs nf sid R" "0 < kv_num_layers (ar_cache R)"
  shows "\<exists>S. ar_states (attach_session M sid R) = [(sid, S)] \<and> rollout_inv M ok runs nf S (ar_cache (attach_session M sid R)) \<and>
    static (ar_cache (attach_session M sid R)) = static (ar_cache R)"
  using assms(1) unfolding lone_session_def
proof (elim disjE exE conjE)
  assume e: "ar_states R = []" "ok (kv_mgr (ar_cache R))" "\<forall>q. mg_block_ids M q (kv_mgr (ar_cache R)) = []"
  obtain pos K1 neg K2 where b: "begin_request (pos_id sid) 0 (ar_cache R) = (pos, K1)" "begin_request (neg_id sid) 0 K1 = (neg, K2)" by fastforce
  let ?S = "new_kv_state pos neg (kv_num_layers K2)"
  have K2: "kv_mgr K2 = kv_mgr (ar_cache R)" "static K2 = static (ar_cache R)" "kv_num_layers K2 = kv_num_layers (ar_cache R)"
      "pos = new_adapter (pos_id sid) (sp_chunk_size (kv_spec K2)) 0" "neg = new_adapter (neg_id sid) (sp_chunk_size (kv_spec K2)) 0"
    using b by (auto simp: begin_request_def)
  have at: "attach_session M sid R = R\<lparr>ar_states := [(sid, ?S)], ar_cache := K2\<rparr>"
    using e(1) b by (simp add: attach_session_def close_all_def move_to_end_def MAX_DREAMZERO_SESSIONS_def)
  have w: "branch_table M (kv_spec K2) (branch_adapter x ?S) (kv_mgr K2) 0 []" for x
    using e(3) K2 by (simp add: branch_table_def whole_chunks_def new_adapter_def branch_adapter_def new_kv_state_def)
  have "\<exists>e live. branch_table M (kv_spec K2) (branch_adapter x ?S) (kv_mgr K2) e live \<and>
      length live \<le> nat (sp_window_chunks (kv_spec K2)) + nf \<and> (runs x \<or> live = [])" for x
    by (intro exI [of _ 0] exI [of _ "[]"]) (simp add: w)
  then have "rollout_inv M ok runs nf ?S K2"
    using e K2 assms(2) by (simp add: rollout_inv_def new_kv_state_def new_adapter_def pos_id_def neg_id_def)
  then show ?thesis using at K2(2) by simp
next
  fix S assume s: "ar_states R = [(sid, S)]" "rollout_inv M ok runs nf S (ar_cache R)"
  then have "attach_session M sid R = R\<lparr>ar_states := [(sid, S)]\<rparr>" by (simp add: attach_session_def move_to_end_def)
  then show ?thesis using s by simp
qed

lemma lone_session_runs:
  assumes "manager_laws M (kv_spec (ar_cache R)) (kv_managed_num_blocks (ar_cache R)) slack ok" "slack \<le> 1"
      and "floor_ok B (ar_cache R) runs nf" "0 < kv_num_layers (ar_cache R)" "lone_session M ok runs nf sid R"
      and "list_all (list_all (within_limits B nb (ar_cache R) runs nf)) reqs"
  shows "requests_succeed M i2v nb (map (Pair sid) reqs) R"
  using assms
proof (induction reqs arbitrary: R)
  case (Cons calls reqs)
  define A where "A = attach_session M sid R"
  obtain S where A: "ar_states A = [(sid, S)]" "rollout_inv M ok runs nf S (ar_cache A)" "static (ar_cache A) = static (ar_cache R)"
    using attach_lone [OF Cons.prems(5,4)] unfolding A_def by blast
  note D = staticD [OF A(3)]
  obtain S1 K1 where s: "run_calls M i2v nb calls S (ar_cache A) = (Inr (), S1, K1)" "static K1 = static (ar_cache A)" "rollout_inv M ok runs nf S1 K1"
    using rollout_runs [of M "ar_cache A" slack ok B runs nf S nb calls i2v] Cons.prems A(2) D(1,2) floor_ok_static [OF A(3)] within_limits_static [OF A(3)] by auto
  define R1 where "R1 = A\<lparr>ar_states := [(sid, S1)], ar_cache := K1\<rparr>"
  have e: "execute_ar M sid (calls_body M i2v nb calls) R = (Inr (), R1)"
    using A(1) s(1) by (simp add: execute_ar_def A_def [symmetric] calls_body_def R1_def)
  have c: "ar_cache R1 = K1" "static K1 = static (ar_cache R)" using s(2) A(3) by (simp_all add: R1_def)
  note E = staticD [OF c(2)]
  have "lone_session M ok runs nf sid R1" using s(3) by (simp add: lone_session_def R1_def)
  then have "requests_succeed M i2v nb (map (Pair sid) reqs) R1"
    using Cons.prems E(1,2,5) floor_ok_static [OF c(2)] within_limits_static [OF c(2)] by (intro Cons.IH) (simp_all add: c(1))
  then show ?case using e by simp
qed simp

text \<open>What a runner is after load time, warmed up or not.\<close>

lemma loaded_runner:
  assumes load: "finish_load W M cfg cfg_world (Some T) free_bytes warm C = Inr (C1, Some R)"
      and laws: "manager_laws M (kv_spec (ar_cache R)) (kv_managed_num_blocks (ar_cache R)) slack ok"
      and built: "\<And>s n len. ok (wo_build W s n len) \<and> (\<forall>q. mg_block_ids M q (wo_build W s n len) = [])"
  obtains G w K where "new_kv_cache W C1 G = Inr K" "cf_window_chunks C1 = Some w" "ge_block_size G = cf_chunk_size C1"
    "ge_num_layers G = tf_num_layers T" "ge_num_frame_per_block G = tf_num_frame_per_block T"
    "cf_sink_chunks C1 = cf_sink_chunks C" "cf_reset_at_boundary C1 = cf_reset_at_boundary C" "static (ar_cache R) = static K"
    "ar_states R = []" "ok (kv_mgr (ar_cache R))" "\<forall>q. mg_block_ids M q (kv_mgr (ar_cache R)) = []"
proof -
  obtain K where p: "preallocate_kv_cache W cfg cfg_world T free_bytes C = Inr (C1, Some K)" and
      rest: "R = \<lparr>ar_states = [], ar_cache = K, ar_model = []\<rparr> \<or>
        warmup_ar_rollout M (tf_i2v T) (length (tf_blocks T)) warm (cf_window_chunks C1) (tf_num_frame_per_block T) cfg
          (cf_warmup_capture_reset C1) \<lparr>ar_states = [], ar_cache = K, ar_model = []\<rparr> = Inr R"
    using load by (auto simp: finish_load_def rbind_Inr_iff Let_def split: if_splits option.splits)
  obtain G w where g: "new_kv_cache W C1 G = Inr K" "cf_window_chunks C1 = Some w" "ge_block_size G = cf_chunk_size C1"
      "ge_num_layers G = tf_num_layers T" "ge_num_frame_per_block G = tf_num_frame_per_block T"
      "cf_sink_chunks C1 = cf_sink_chunks C" "cf_reset_at_boundary C1 = cf_reset_at_boundary C"
    by (rule preallocated [OF p]) 
  have m: "ok (kv_mgr K)" "mg_block_ids M q (kv_mgr K) = []" for q
    using g(1,2) built by (auto simp: new_kv_cache_def rbind_Inr_iff Let_def split: if_splits)
  have "static (ar_cache R) = static K \<and> ar_states R = [] \<and> ok (kv_mgr (ar_cache R)) \<and> (\<forall>q. mg_block_ids M q (kv_mgr (ar_cache R)) = [])"
    using rest
  proof
    assume w: "warmup_ar_rollout M (tf_i2v T) (length (tf_blocks T)) warm (cf_window_chunks C1) (tf_num_frame_per_block T) cfg
      (cf_warmup_capture_reset C1) \<lparr>ar_states = [], ar_cache = K, ar_model = []\<rparr> = Inr R"
    have bm: "block_manager M (kv_spec (ar_cache R)) (kv_managed_num_blocks (ar_cache R)) slack ok" using laws by (rule block_manager.intro)
    have st: "static (ar_cache R) = static K" using warmup_static [OF w] by simp
    have "sessions_sound M ok \<lparr>ar_states = [], ar_cache = K, ar_model = []\<rparr>" using m by (simp add: sessions_sound_def)
    from block_manager.warmup_leaves_nothing [OF bm this _ _ w] show ?thesis using st static_spec [OF st] by simp
  qed (use m in simp)
  with g show ?thesis by (intro that) auto
qed


definition sample_world :: "((string, int list) dict, nat) kv_world" where
  "sample_world = \<lparr>wo_scale = (\<lambda>n f. \<lfloor>of_int n * f\<rfloor>), wo_page_size = (\<lambda>s. 8), wo_build = (\<lambda>s n len. []), wo_scratch_env = None, wo_junk = 0\<rparr>"

definition sample_deployment :: od_config where
  "sample_deployment = \<lparr>od_max_num_seqs = None, od_itemsize = 2, od_image_resolution = Some [16, 32], od_enforce_eager = False\<rparr>"

definition sample_transformer :: transformer where
  "sample_transformer = \<lparr>tf_num_layers = 1, tf_num_heads = 1, tf_dim = 2, tf_num_frame_per_block = 2, tf_frame_seqlen = None,
     tf_text_len = Some 3, tf_i2v = True, tf_blocks = [(None, 4)]\<rparr>"

definition sample_pool :: "(string, int list) dict manager" where
  "sample_pool = lowest_first \<lparr>sp_block_size = 2, sp_sliding_window = 4, sp_chunk_size = 2, sp_window_chunks = 2, sp_sink_chunks = 0,
     sp_reset_at_boundary = False\<rparr> 10"

definition sample_load :: "py_exc + kv_config \<times> ((string, int list) dict, nat, unit) ar_runner option" where
  "sample_load = finish_load sample_world sample_pool sample_deployment None (Some sample_transformer) 0
     (\<lambda>i. [Forward False 2 True 1 2 None]) (default_config\<lparr>cf_enable := True\<rparr>)"

definition sample_requests :: "nat kv_call list list" where
  "sample_requests =
     [[Populate False (\<lambda>i. (1, 2)) (Some (\<lambda>i. (3, 4))), Populate True (\<lambda>i. (5, 6)) None,
       Forward False 2 True 1 2 None, Forward True 4 True 0 2 None],
      [Forward False 4 True 0 2 None, Forward True 4 False 3 2 None, ResetWindow True, Forward False 4 True 0 2 None, Forward True 4 True 0 2 None]]"



section \<open>The session table\<close>

definition ar_inv :: "(string, kv_state) dict \<Rightarrow> bool" where
  "ar_inv d \<longleftrightarrow> dict_ok d \<and> length d \<le> MAX_DREAMZERO_SESSIONS"

definition ar_put :: "string \<Rightarrow> kv_state \<Rightarrow> (string, kv_state) dict \<Rightarrow> (string, kv_state) dict" where
  "ar_put k v d = evict MAX_DREAMZERO_SESSIONS (dict_set k v d)"

interpretation ar_sessions: lru_map ar_inv dict_keys dict_get move_to_end ar_put "\<lambda>_. MAX_DREAMZERO_SESSIONS"
proof
  fix s :: "(string, kv_state) dict" and k j :: string and v :: kv_state
  assume s: "ar_inv s"
  show "0 < MAX_DREAMZERO_SESSIONS" by (simp add: MAX_DREAMZERO_SESSIONS_def)
  show "dict_ok s \<and> length (dict_keys s) \<le> MAX_DREAMZERO_SESSIONS" "(dict_get s k = None) = (k \<notin> set (dict_keys s))"
    using s by (auto simp: ar_inv_def map_of_eq_None_iff)
  show "ar_inv (move_to_end k s) \<and> MAX_DREAMZERO_SESSIONS = MAX_DREAMZERO_SESSIONS"
    using s by (simp add: ar_inv_def move_to_end_ok move_to_end_length)
  show "dict_get (move_to_end k s) j = dict_get s j" by (rule move_to_end_get)
  show "k \<in> set (dict_keys s) \<Longrightarrow> dict_keys (move_to_end k s) = removeAll k (dict_keys s) @ [k]"
    by (rule move_to_end_keys)
  show "ar_inv (ar_put k v s) \<and> MAX_DREAMZERO_SESSIONS = MAX_DREAMZERO_SESSIONS"
    using s by (simp add: ar_inv_def ar_put_def evict_lastn map_lastn distinct_lastn length_lastn)
  show "k \<notin> set (dict_keys s) \<Longrightarrow> dict_keys (ar_put k v s) = lastn MAX_DREAMZERO_SESSIONS (dict_keys s @ [k])"
    by (simp add: ar_put_def evict_lastn map_lastn dict_set_keys_fresh)
  show "j \<in> set (dict_keys (ar_put k v s)) \<Longrightarrow> dict_get (ar_put k v s) j = (if j = k then Some v else dict_get s j)"
    using s unfolding ar_put_def by (intro evict_put_lookup) (simp_all add: ar_inv_def)
qed

text \<open>Attaching is an access of the bounded map: the keys move as those of the pipeline's table do.\<close>

lemma attach_keys:
  assumes "ar_inv (ar_states R)"
  shows "dict_keys (ar_states (attach_session M sid R)) = lastn MAX_DREAMZERO_SESSIONS (removeAll sid (dict_keys (ar_states R)) @ [sid])"
proof -
  have "\<exists>v. ar_states (attach_session M sid R) = move_to_end sid (ar_sessions.use_key (\<lambda>_. v) sid (ar_states R))"
  proof (cases "dict_get (ar_states R) sid")
    case None
    then show ?thesis
      by (auto simp: attach_session_def ar_sessions.use_key_def ar_put_def Let_def split: prod.splits)
  next
    case (Some S)
    then have k: "sid \<in> set (dict_keys (ar_states R))" by (rule dict_get_Some_key)
    have "move_to_end sid (move_to_end sid (ar_states R)) = move_to_end sid (ar_states R)"
    proof -
      have "dict_del sid (dict_del sid (ar_states R) @ [(sid, S)]) = dict_del sid (ar_states R)" by (simp add: AList.delete_eq)
      then show ?thesis using Some by (simp add: move_to_end_def dict_get_del map_add_def)
    qed
    then show ?thesis using Some by (auto simp: attach_session_def ar_sessions.use_key_def)
  qed
  then obtain v where v: "ar_states (attach_session M sid R) = move_to_end sid (ar_sessions.use_key (\<lambda>_. v) sid (ar_states R))" by blast
  let ?ks = "lastn MAX_DREAMZERO_SESSIONS (removeAll sid (dict_keys (ar_states R)) @ [sid])"
  have u: "dict_keys (ar_sessions.use_key (\<lambda>_. v) sid (ar_states R)) = ?ks" by (rule ar_sessions.use_recency [OF assms])
  obtain xs where xs: "?ks = xs @ [sid]" "sid \<notin> set xs"
    using set_lastn [of "MAX_DREAMZERO_SESSIONS - 1" "removeAll sid (dict_keys (ar_states R))"]
    by (auto simp: lastn_append MAX_DREAMZERO_SESSIONS_def lastn_def)
  show ?thesis using move_to_end_keys [of sid "ar_sessions.use_key (\<lambda>_. v) sid (ar_states R)"] unfolding v u xs(1) using xs(2) by simp
qed

text \<open>
  The request ids of two sessions can be the same: the negative branch of one is the positive branch of
  the session whose id ends in \<^verbatim>\<open>__neg\<close>.  When that session is torn down, the first one loses the
  blocks of its negative branch.
\<close>

lemma session_ids_collide: "pos_id (sid @ ''__neg'') = neg_id sid"
  by (simp add: pos_id_def neg_id_def)

lemma collision_frees_neighbour:
  assumes "manager_laws M s N slack ok" "ok (kv_mgr K)" "request_id (ks_pos S) = pos_id (sid @ ''__neg'')" "close_state M S K = (S1, K1)"
  shows "mg_block_ids M (neg_id sid) (kv_mgr K1) = []"
  using block_manager.close_touches [OF block_manager.intro [OF assms(1)] assms(4)] assms(2,3)
  by (simp add: ids_of_def session_ids_collide)

end
