(* ===== verification/AR_Runner.thy ===== *)
theory AR_Runner
  imports AR_Setup Stage_Runner
begin

text \<open>
  Which session the AR-Diffusion runner attaches to a request (\<^verbatim>\<open>_resolve_session_id\<close> of
  \<^verbatim>\<open>experimental/ar_diffusion/runner.py\<close>), and whether it is the session the pipeline works on: the encode
  worker names the session in its payload, the transition hands the payload over, and on the denoise
  worker the engine resolves the session from the request while the pipeline takes it from the carrier.
\<close>

section \<open>Resolution\<close>

text \<open>\<^verbatim>\<open>payload.get("scalar_fields")\<close> of a plain dict, the attribute of a payload, \<^verbatim>\<open>{}\<close> without one.\<close>

definition scalars_of :: "'t carried \<Rightarrow> 't pyval" where
  "scalars_of v =
     (case v of
        Live p \<Rightarrow> scalar_fields p
      | Plain (PMap c kvs) \<Rightarrow> get_or kvs ''scalar_fields'' PNone
      | Plain w \<Rightarrow> PMap DICT_CLS [])"

text \<open>\<^verbatim>\<open>(scalar_fields or {}).get("session_id")\<close>\<close>

definition scalar_session :: "'t pyval \<Rightarrow> py_exc + 't pyval" where
  "scalar_session v =
     (if \<not> py_truthy v then Inr PNone
      else case v of PMap c kvs \<Rightarrow> Inr (get_or kvs ''session_id'' PNone) | _ \<Rightarrow> Inl AttributeError)"

text \<open>\<open>extra\<close> is the \<^verbatim>\<open>extra\<close> of the prompt when that is a dict.\<close>

definition resolve_session_id ::
  "'t py_conv \<Rightarrow> string option \<Rightarrow> (string, 't pyval) dict \<Rightarrow> (string, 't carried) dict option \<Rightarrow> py_exc + string" where
  "resolve_session_id C stage_name extra_args extra =
     (let given = (case dict_get extra_args ''session_id'' of None \<Rightarrow> PNone | Some v \<Rightarrow> v)
      in rbind
        (if given = PNone \<and> normalize_stage_role stage_name = DENOISE
         then case Option.bind extra (\<lambda>d. dict_get d STAGE_PAYLOAD_PROMPT_KEY) of
                None \<Rightarrow> Inr given
              | Some (Plain PNone) \<Rightarrow> Inr given
              | Some v \<Rightarrow> scalar_session (scalars_of v)
         else Inr given)
        (\<lambda>v. Inr (if py_truthy v then py_str C v else ''default'')))"

section \<open>Engine and pipeline\<close>

lemma scalars_arrived:
  assumes "canonical p" "arrives_as conv (Live p) v"
  shows "scalars_of v = scalar_fields p \<and> v \<noteq> Plain PNone"
  using assms
  by (auto simp: arrives_Live_iff scalars_of_def to_dict_def rbind_Inr_iff get_or_def canonical_def Let_def dict_copy_PMap
      split: pyval.splits)

lemma packed_session:
  assumes "pack_stage_state T st b = Inr p" "rs_carrier st = Some c"
  shows "scalar_fields p = PMap DICT_CLS [(PStr ''session_id'', PStr (c_session_id c))] \<and> rs_request_id st \<noteq> [] \<and>
    validate p = None \<and> canonical p"
proof -
  have v: "validate p = None \<and> canonical p" using pack_create [OF assms(1)] by simp
  have "scalar_fields p = PMap DICT_CLS [(PStr ''session_id'', PStr (c_session_id c))] \<and> StagePayload.request_id p = PStr (rs_request_id st)"
    using assms by (auto simp: pack_stage_state_def create_def Let_def rbind_Inr_iff split: option.splits)
  then show ?thesis using v validate_exact [of p] by auto
qed

lemma encoded_session:
  assumes "encode_atom M st p = (Inr st1, p1)"
  shows "\<exists>c. rs_carrier st1 = Some c \<and> c_session_id c = encode_session_id st \<and> rs_request_id st1 = rs_request_id st"
  using assms
  by (auto simp: encode_atom_def Let_def split: option.splits prod.splits sum.splits dest!: run_encode_facts)

lemma encode_stage_payload:
  assumes "execute_encode_stage (dreamzero_atoms M T C) (stage_request_of rq) re = (Inr co, re1)"
  shows "\<exists>p. co = intermediate_output p \<and> validate p = None \<and> canonical p \<and> rq_id rq \<noteq> [] \<and>
    scalar_fields p = PMap DICT_CLS [(PStr ''session_id'', PStr (encode_session_id (request_state_of rq)))]"
proof -
  let ?A = "dreamzero_atoms M T C"
  obtain st p1 st1 q where s: "check_inputs (init_state (request_state_of rq)) = Inr st" "encode_atom M st p1 = (Inr st1, q)"
      "\<exists>p. pack_stage_state T st1 ENCODE_TO_DIT = Inr p \<and> co = intermediate_output p"
    using assms
    by (auto simp: execute_encode_stage_def require_disaggregated_def dreamzero_atoms_def stage_request_of_def prepare_def
        Let_def rbind_Inr_iff split: sum.splits prod.splits)
  have st: "st = request_state_of rq"
    using s(1) by (auto simp: check_inputs_def init_state_def request_state_of_def split: option.splits if_splits)
  obtain c where c: "rs_carrier st1 = Some c" "c_session_id c = encode_session_id st" "rs_request_id st1 = rs_request_id st"
    using encoded_session [OF s(2)] by blast
  from s(3) obtain p where p: "pack_stage_state T st1 ENCODE_TO_DIT = Inr p" "co = intermediate_output p" by blast
  from packed_session [OF p(1) c(1)] p(2) c st show ?thesis by (auto simp: request_state_of_def)
qed

lemma unpacked_session:
  assumes "unpack_stage_state C dev p st = Inr st1" "rs_carrier st1 = Some c"
      and "scalar_fields p = PMap DICT_CLS [(PStr ''session_id'', PStr sid)]"
  shows "c_session_id c = sid"
proof -
  have s: "py_str C (get_or (items_of (scalar_fields p)) ''session_id'' d) = sid" for d
    by (simp add: assms(3) items_of_def get_or_def py_str_def)
  have v: "validate p = None" using assms(1) by (cases "validate p") (simp_all add: unpack_stage_state_def)
  show ?thesis
    using assms(1) unfolding unpack_stage_state_def v option.case Let_def rbind_Inr_iff s
    by (elim exE conjE) (use assms(2) in auto)
qed

lemma forwarded_payload:
  assumes "forward_output conv hop pr (intermediate_output p) = Inr x" "\<And>v. arrives_as conv v (hop v)" "validate p = None" "canonical p"
  shows "\<exists>v. x = [(STAGE_PAYLOAD_PROMPT_KEY, v)] \<and> arrives_as conv (Live p) v"
proof -
  obtain fields where "diffusion_stage_transition conv [Source_Object (Output_Dict [(STAGE_PAYLOAD_OUTPUT_KEY, hop (Live p))])] pr =
      Inr (Some \<lparr>dp_fields = fields, dp_extra = [(STAGE_PAYLOAD_PROMPT_KEY, Live p)]\<rparr>)"
    using transition_live [OF unwrap_arrived [OF assms(2,4), of conv] assms(3)] by blast
  with assms(1,2) show ?thesis by (auto simp: forward_output_def intermediate_output_def)
qed

lemma resolve_with_payload:
  assumes "canonical p" "arrives_as conv (Live p) v" "scalar_fields p = PMap DICT_CLS [(PStr ''session_id'', PStr sid)]"
      and "dict_get args ''session_id'' = map_option PStr given"
  shows "resolve_session_id C (Some ''denoise'') args (Some [(STAGE_PAYLOAD_PROMPT_KEY, v)]) =
    Inr (case given of None \<Rightarrow> if sid = [] then ''default'' else sid | Some s \<Rightarrow> if s = [] then ''default'' else s)"
proof -
  have role: "normalize_stage_role (Some ''denoise'') = DENOISE" by (simp add: normalize_stage_role_def py_strip_def py_isspace_def DENOISE_def)
  show ?thesis
  proof (cases given)
    case None
    with assms(4) role scalars_arrived [OF assms(1,2)] assms(3) show ?thesis
      by (cases v) (auto simp: resolve_session_id_def scalar_session_def get_or_def py_str_def split: pyval.splits)
  next
    case (Some s)
    with assms(4) show ?thesis by (simp add: resolve_session_id_def py_str_def)
  qed
qed

text \<open>
  C25: The engine attaches the session the pipeline works on.  A request goes through the encode stage,
  its payload through the transition, in or out of process, and the denoise worker restores the
  carrier.  The session the engine resolves is the carrier's session exactly when the request does
  not name the empty session: for that the encode worker falls back to the request id and the engine to
  \<^verbatim>\<open>default\<close>, so that the blocks of all such requests end up in one engine session.
\<close>

theorem engine_session_matches:
  assumes "execute_encode_stage (dreamzero_atoms M T C) (stage_request_of rq) re = (Inr co, re1)"
      and "\<And>v. arrives_as conv v (hop v)" "forward_output conv hop pr co = Inr x"
      and "restore_incoming (dreamzero_atoms M T C) conv ((stage_request_of rq)\<lparr>sr_extra := Some x\<rparr>) ENCODE_TO_DIT = Inr st"
      and "rs_carrier st = Some c" "dict_get args ''session_id'' = map_option PStr (rq_session_id rq)"
  shows "resolve_session_id C (Some ''denoise'') args (Some x) = Inr (c_session_id c) \<longleftrightarrow>
    rq_session_id rq \<noteq> Some [] \<or> rq_id rq = ''default''"
proof -
  obtain p where p: "co = intermediate_output p" "validate p = None" "canonical p" "rq_id rq \<noteq> []"
      "scalar_fields p = PMap DICT_CLS [(PStr ''session_id'', PStr (encode_session_id (request_state_of rq)))]"
    using encode_stage_payload [OF assms(1)] by blast
  obtain v where v: "x = [(STAGE_PAYLOAD_PROMPT_KEY, v)]" "arrives_as conv (Live p) v"
    using forwarded_payload [OF assms(3) [unfolded p(1)] assms(2) p(2,3)] by blast
  have "extract_incoming_payload conv (rq_id rq) (Some x) = Inr p" unfolding v(1) by (rule extract_arrived [OF v(2) p(3,2)])
  then have "unpack_stage_state C (to_device M) p (request_state_of rq) = Inr st"
    using assms(4) by (auto simp: restore_incoming_def stage_request_of_def dreamzero_atoms_def split: option.splits)
  then have "c_session_id c = encode_session_id (request_state_of rq)" using unpacked_session assms(5) p(5) by blast
  then show ?thesis
    unfolding v(1) resolve_with_payload [OF p(3) v(2) p(5) assms(6)] using p(4)
    by (auto simp: encode_session_id_def request_state_of_def split: option.splits)
qed

definition nameless_request :: "(int, int) dz_request" where
  "nameless_request = (tiny_request ''r'')\<lparr>rq_session_id := Some []\<rparr>"

definition nameless_carrier :: "int transport_error + (int, int) request_state" where
  "nameless_carrier =
     rbind (fst (execute_encode_stage (dreamzero_atoms tiny_ops plain_torch native_conv) (stage_request_of nameless_request) (tiny_worker None)))
       (\<lambda>co. rbind (forward_output no_conv (\<lambda>v. v) Prompt_Other co) (\<lambda>x.
          restore_incoming (dreamzero_atoms tiny_ops plain_torch native_conv) no_conv
            ((stage_request_of nameless_request)\<lparr>sr_extra := Some x\<rparr>) ENCODE_TO_DIT))"

lemma engine_session_matches_witness:
  "\<exists>st c x. nameless_carrier = Inr st \<and> rs_carrier st = Some c \<and> c_session_id c = ''r'' \<and>
    resolve_session_id native_conv (Some ''denoise'') [(''session_id'', PStr [])] (Some x) \<noteq> Inr ''r''"
proof -
  let ?A = "dreamzero_atoms tiny_ops plain_torch native_conv" and ?rq = nameless_request
  have "(case nameless_carrier of Inl e \<Rightarrow> None | Inr st \<Rightarrow> map_option c_session_id (rs_carrier st)) = Some ''r''" by code_simp
  then obtain st c where st: "nameless_carrier = Inr st" "rs_carrier st = Some c" "c_session_id c = ''r''"
    by (auto split: sum.splits)
  obtain e re1 where enc: "execute_encode_stage ?A (stage_request_of ?rq) (tiny_worker None) = (e, re1)" by fastforce
  with st(1) obtain co x where s: "execute_encode_stage ?A (stage_request_of ?rq) (tiny_worker None) = (Inr co, re1)"
      "forward_output no_conv (\<lambda>v. v) Prompt_Other co = Inr x"
      "restore_incoming ?A no_conv ((stage_request_of ?rq)\<lparr>sr_extra := Some x\<rparr>) ENCODE_TO_DIT = Inr st"
    by (auto simp: nameless_carrier_def rbind_Inr_iff)
  have arr: "arrives_as no_conv v ((\<lambda>v. v) v)" for v :: "int carried" by (simp add: in_process)
  have rq: "dict_get [(''session_id'', PStr [])] ''session_id'' = map_option PStr (rq_session_id ?rq)"
      "\<not> (rq_session_id ?rq \<noteq> Some [] \<or> rq_id ?rq = ''default'')"
    by (simp_all add: nameless_request_def tiny_request_def)
  have "resolve_session_id native_conv (Some ''denoise'') [(''session_id'', PStr [])] (Some x) \<noteq> Inr (c_session_id c)"
    using engine_session_matches [OF s(1) arr s(2,3) st(2) rq(1)] rq(2) by blast
  then show ?thesis using st by auto
qed

end
