(* ===== verification/Chunk_Transfer.thy ===== *)
theory Chunk_Transfer
  imports Payload_Keys Input_Coordinator
begin

text \<open>
  The chunk transfer adapter of the language stages
  (\<^verbatim>\<open>distributed/omni_connectors/transfer_adapter/chunk_transfer_adapter.py\<close>, \<^verbatim>\<open>base.py\<close>): a stage sends
  the chunks of a request under numbered keys, the next stage polls for them one by one.  This theory
  has the state of an adapter, the turns of its save and receive loops and the cleanup; the gates it puts
  before the scheduler's queues are in the theory after it.

  A request is a shared mutable object: the adapter holds its id, the objects live in a store.  Payloads
  are in the dictionary form the receiver decodes.  The loops of the two background threads are one
  step per request or task; every step is atomic.
\<close>

section \<open>Requests\<close>

record 'v stream_req =
  sq_external :: string
  sq_status :: request_status
  sq_resumable :: bool
  sq_num_computed :: nat
  sq_num_placeholders :: nat
  sq_prompt :: "int list"
  sq_num_prompt :: nat
  sq_all :: "int list"
  sq_output :: "int list"
  sq_info :: "'v payload option"

type_synonym 'v stream_store = "string \<Rightarrow> 'v stream_req"

definition RS_PREEMPTED :: request_status where
  "RS_PREEMPTED = RS_OTHER 0"

definition confirmed_num_computed_tokens :: "'v stream_req \<Rightarrow> nat" where
  "confirmed_num_computed_tokens r = sq_num_computed r - sq_num_placeholders r"

text \<open>
  What the code asks of a value: \<open>co_true\<close> is \<^verbatim>\<open>_is_truthy_scalar\<close>, \<open>co_flag\<close> a boolean tensor, \<open>co_codes\<close>
  tells an integer list or flat tensor (its ids) from a tensor of two dimensions (its number of
  elements), \<open>co_ids\<close> is a list of token ids.  \<open>co_finished\<close> is vLLM's \<^verbatim>\<open>RequestStatus.is_finished\<close>.
\<close>

datatype codes_view = Code_Ids "int list" | Code_Grid nat

record 'v chunk_ops =
  co_true :: "'v pv \<Rightarrow> bool"
  co_flag :: "bool \<Rightarrow> 'v"
  co_codes :: "'v pv \<Rightarrow> codes_view"
  co_ids :: "'v pv \<Rightarrow> int list"
  co_finished :: "request_status \<Rightarrow> bool"

section \<open>The adapter\<close>

record 'v send_task =
  tk_multimodal :: "'v payload option"
  tk_request :: string
  tk_external :: string
  tk_is_finished :: bool
  tk_is_segment_finished :: bool

text \<open>
  \<open>ca_request_state\<close> and \<open>ca_segment_state\<close> are what the input processors keep in the adapter by external
  id: \<^verbatim>\<open>request_payload\<close> and \<^verbatim>\<open>_pending_streaming_prefills\<close> for the whole request, \<^verbatim>\<open>code_prompt_token_ids\<close>
  and \<^verbatim>\<open>_cached_ic\<close> until a segment ends.  The active streams are the keys of \<^verbatim>\<open>_active_streams\<close> in order.
\<close>

record ('v, 'x) chunk_adapter =
  ca_stage_id :: int
  ca_max_num_seqs :: nat
  ca_active_window :: nat
  ca_ar_mode :: bool
  ca_pending_load :: "string list"
  ca_finished_load :: "string set"
  ca_cancelled_load :: "string set"
  ca_pending_save :: "'v send_task list"
  ca_put_chunk :: "(string, nat) dict"
  ca_get_chunk :: "(string, nat) dict"
  ca_finished :: "string set"
  ca_segment_finished :: "string set"
  ca_request_state :: "(string, 'x) dict"
  ca_segment_state :: "(string, 'x) dict"
  ca_ids :: "(string, string) dict"
  ca_waiting :: "string list"
  ca_running :: "string list"
  ca_ready :: "string set"
  ca_origin :: "(string, request_status) dict"
  ca_active :: "string list"
  ca_held :: "string list"
  ca_chunks_sent :: "(string, nat) dict"

text \<open>The window is at most the number of sequences of the model; a missing or zero setting turns it off.\<close>

definition active_window :: "int option \<Rightarrow> int option \<Rightarrow> nat \<Rightarrow> nat" where
  "active_window stream_window model_max_num_seqs max_num_seqs =
     (let w = (case stream_window of None \<Rightarrow> 0 | Some n \<Rightarrow> n);
          m = (case model_max_num_seqs of None \<Rightarrow> int max_num_seqs | Some n \<Rightarrow> n);
          m1 = (if m \<le> 0 then int max_num_seqs else m)
      in if w > 0 then nat (min w m1) else 0)"

definition new_chunk_adapter :: "int \<Rightarrow> nat \<Rightarrow> nat \<Rightarrow> bool \<Rightarrow> ('v, 'x) chunk_adapter" where
  "new_chunk_adapter stage max_num_seqs window ar_mode =
     \<lparr>ca_stage_id = stage, ca_max_num_seqs = max_num_seqs, ca_active_window = window, ca_ar_mode = ar_mode,
      ca_pending_load = [], ca_finished_load = {}, ca_cancelled_load = {}, ca_pending_save = [],
      ca_put_chunk = [], ca_get_chunk = [], ca_finished = {}, ca_segment_finished = {}, ca_request_state = [],
      ca_segment_state = [], ca_ids = [], ca_waiting = [], ca_running = [], ca_ready = {}, ca_origin = [],
      ca_active = [], ca_held = [], ca_chunks_sent = []\<rparr>"

definition is_done_receiving_chunks :: "string \<Rightarrow> ('v, 'x) chunk_adapter \<Rightarrow> bool" where
  "is_done_receiving_chunks rid A = (rid \<in> ca_finished A \<or> rid \<in> ca_segment_finished A)"

text \<open>The value of a \<^verbatim>\<open>defaultdict(int)\<close>; reading stores the default.\<close>

definition count_of :: "string \<Rightarrow> (string, nat) dict \<Rightarrow> nat" where
  "count_of k d = (case dict_get d k of None \<Rightarrow> 0 | Some n \<Rightarrow> n)"

definition chunk_key :: "string \<Rightarrow> int \<Rightarrow> nat \<Rightarrow> string" where
  "chunk_key ext stage chunk = ext @ ''_'' @ str_int stage @ ''_'' @ str_nat chunk"

section \<open>Cleanup\<close>

definition evict_finished_active_streams :: "string set option \<Rightarrow> ('v, 'x) chunk_adapter \<Rightarrow> ('v, 'x) chunk_adapter" where
  "evict_finished_active_streams ids A =
     A\<lparr>ca_active := filter (\<lambda>rid. \<not> ((case ids of None \<Rightarrow> True | Some s \<Rightarrow> rid \<in> s) \<and> rid \<in> ca_finished A)) (ca_active A)\<rparr>"

definition cleanup_receiver :: "string \<Rightarrow> ('v, 'x) chunk_adapter \<Rightarrow> ('v, 'x) chunk_adapter" where
  "cleanup_receiver rid A =
     (let A1 = (if rid \<in> ca_finished A then evict_finished_active_streams (Some {rid}) A
                else A\<lparr>ca_active := removeAll rid (ca_active A)\<rparr>)
      in A1\<lparr>ca_finished := ca_finished A1 - {rid}, ca_segment_finished := ca_segment_finished A1 - {rid},
            ca_get_chunk := dict_del rid (ca_get_chunk A1), ca_ready := ca_ready A1 - {rid},
            ca_ids := dict_del rid (ca_ids A1), ca_origin := dict_del rid (ca_origin A1),
            ca_cancelled_load := insert rid (ca_cancelled_load A1), ca_finished_load := ca_finished_load A1 - {rid}\<rparr>)"

definition cleanup_sender :: "string \<Rightarrow> ('v, 'x) chunk_adapter \<Rightarrow> ('v, 'x) chunk_adapter" where
  "cleanup_sender ext A =
     A\<lparr>ca_put_chunk := dict_del ext (ca_put_chunk A), ca_request_state := dict_del ext (ca_request_state A),
       ca_segment_state := dict_del ext (ca_segment_state A), ca_chunks_sent := dict_del ext (ca_chunks_sent A)\<rparr>"

definition cleanup :: "string \<Rightarrow> string option \<Rightarrow> ('v, 'x) chunk_adapter \<Rightarrow> ('v, 'x) chunk_adapter" where
  "cleanup rid ext A =
     (let e = (case ext of Some e \<Rightarrow> e | None \<Rightarrow> (case dict_get (ca_ids A) rid of None \<Rightarrow> rid | Some e \<Rightarrow> e))
      in cleanup_sender e (cleanup_receiver rid A))"

section \<open>Sending\<close>

text \<open>A preempted request does not enqueue again what it has saved before.\<close>

definition save_async ::
  "'v chunk_ops \<Rightarrow> 'v payload option \<Rightarrow> string \<Rightarrow> 'v stream_req \<Rightarrow> bool \<Rightarrow> ('v, 'x) chunk_adapter \<Rightarrow> ('v, 'x) chunk_adapter" where
  "save_async ops mm rid r segment_finished A =
     (let ext = sq_external r; confirmed = confirmed_num_computed_tokens r
      in if confirmed < count_of ext (ca_chunks_sent A) then A
         else A\<lparr>ca_chunks_sent := dict_set ext confirmed (ca_chunks_sent A),
                ca_pending_save := ca_pending_save A @
                  [\<lparr>tk_multimodal = mm, tk_request = rid, tk_external = ext,
                    tk_is_finished = (co_finished ops (sq_status r) \<and> \<not> sq_resumable r), tk_is_segment_finished = segment_finished\<rparr>]\<rparr>)"

text \<open>The custom processor of the model: it may keep state in the adapter, and it may raise.\<close>

type_synonym ('v, 'x) processor =
  "'v payload option \<Rightarrow> 'v send_task \<Rightarrow> ('v, 'x) chunk_adapter \<Rightarrow>
   (py_exc + 'v payload option) \<times> (string, 'x) dict \<times> (string, 'x) dict"

definition meta_of :: "'v payload \<Rightarrow> (pkey \<times> 'v pv) list" where
  "meta_of p = (case dict_get p ''meta'' of Some (PDict d) \<Rightarrow> d | _ \<Rightarrow> [])"

definition set_flags :: "'v chunk_ops \<Rightarrow> bool \<Rightarrow> bool \<Rightarrow> 'v payload \<Rightarrow> 'v payload" where
  "set_flags ops finished segment_finished p =
     dict_set ''meta''
       (PDict (dict_set (KS ''is_segment_finished'') (Atom (co_flag ops segment_finished))
                (dict_set (KS ''finished'') (Atom (co_flag ops finished)) (meta_of p)))) p"

type_synonym 'v connector = "(string, 'v payload) dict"

text \<open>
  The chunk of a task: the output of the processor, marked with the two flags.  A raising processor counts
  as no payload, and without a payload only a marker is sent.
\<close>

definition chunk_to_send ::
  "'v chunk_ops \<Rightarrow> ('v, 'x) processor option \<Rightarrow> 'v send_task \<Rightarrow> ('v, 'x) chunk_adapter \<Rightarrow>
   (py_exc + 'v payload option) \<times> ('v, 'x) chunk_adapter" where
  "chunk_to_send ops proc tk A =
     (case (case tk_multimodal tk of None \<Rightarrow> Inr None | Some raw \<Rightarrow> rbind (unflatten_payload raw) (\<lambda>p. Inr (Some p))) of
       Inl e \<Rightarrow> (Inl e, A)
     | Inr mm \<Rightarrow>
         (let fin = tk_is_finished tk; seg = tk_is_segment_finished tk;
              A0 = A\<lparr>ca_put_chunk := dict_set (tk_external tk) (count_of (tk_external tk) (ca_put_chunk A)) (ca_put_chunk A)\<rparr>;
              (payload, A1) = (case proc of
                 None \<Rightarrow> (None, A0)
               | Some f \<Rightarrow> (case f mm tk A0 of (r, rs, ss) \<Rightarrow>
                   (case r of Inl e \<Rightarrow> None | Inr p \<Rightarrow> p, A0\<lparr>ca_request_state := rs, ca_segment_state := ss\<rparr>)))
          in (Inr (if payload = None \<and> \<not> (seg \<or> fin) then None
                   else Some (set_flags ops fin seg (case payload of None \<Rightarrow> [] | Some p \<Rightarrow> p))), A1)))"

text \<open>\<open>put_ok\<close> tells whether the connector accepts the chunk; it is gone when not.\<close>

definition send_single_request ::
  "'v chunk_ops \<Rightarrow> ('v, 'x) processor option \<Rightarrow> bool \<Rightarrow> 'v send_task \<Rightarrow> ('v, 'x) chunk_adapter \<times> 'v connector \<Rightarrow>
   (py_exc + unit) \<times> ('v, 'x) chunk_adapter \<times> 'v connector" where
  "send_single_request ops proc put_ok tk = (\<lambda>(A, C).
     case chunk_to_send ops proc tk A of
       (Inl e, A1) \<Rightarrow> (Inl e, A1, C)
     | (Inr None, A1) \<Rightarrow> (Inr (), A1, C)
     | (Inr (Some p), A1) \<Rightarrow>
         (let ext = tk_external tk; chunk = count_of ext (ca_put_chunk A);
              C1 = (if put_ok then dict_set (chunk_key ext (ca_stage_id A) chunk) p C else C);
              A2 = (if put_ok
                    then let A2 = A1\<lparr>ca_put_chunk := dict_set ext (chunk + 1) (ca_put_chunk A1)\<rparr>
                         in if co_true ops (Atom (co_flag ops (tk_is_finished tk))) then cleanup (tk_request tk) (Some ext) A2
                            else A2
                    else A1);
              A3 = (if tk_is_segment_finished tk
                    then A2\<lparr>ca_segment_state := dict_del ext (ca_segment_state A2),
                            ca_chunks_sent := dict_del ext (ca_chunks_sent A2)\<rparr> else A2)
          in (Inr (), A3, C1)))"

text \<open>One task of the save loop; an exception is logged and the task is gone.\<close>

definition save_step ::
  "'v chunk_ops \<Rightarrow> ('v, 'x) processor option \<Rightarrow> bool \<Rightarrow> ('v, 'x) chunk_adapter \<times> 'v connector \<Rightarrow>
   ('v, 'x) chunk_adapter \<times> 'v connector" where
  "save_step ops proc put_ok = (\<lambda>(A, C).
     case ca_pending_save A of
       [] \<Rightarrow> (A, C)
     | tk # tks \<Rightarrow> snd (send_single_request ops proc put_ok tk (A\<lparr>ca_pending_save := tks\<rparr>, C)))"

section \<open>Receiving\<close>

text \<open>A stage without an upstream never polls.\<close>

definition load_async :: "string \<Rightarrow> ('v, 'x) chunk_adapter \<Rightarrow> ('v, 'x) chunk_adapter" where
  "load_async rid A =
     (if ca_stage_id A = 0 then A
      else A\<lparr>ca_cancelled_load := ca_cancelled_load A - {rid}, ca_pending_load := ca_pending_load A @ [rid]\<rparr>)"

text \<open>
  The length the next stage reserves for a talker prompt.  A segment starts at a start marker; \<open>n\<close> is the
  number of tokens after its first one.  A start marker at the very end has no role behind it.
\<close>

definition im_start_token_id :: int where "im_start_token_id = 151644"
definition system_token_id :: int where "system_token_id = 8948"
definition user_token_id :: int where "user_token_id = 872"
definition assistant_token_id :: int where "assistant_token_id = 77091"

definition im_start_indexes :: "int list \<Rightarrow> nat list" where
  "im_start_indexes ids = filter (\<lambda>i. ids ! i = im_start_token_id) [0..<length ids] @ [length ids]"

fun talker_segments :: "int list \<Rightarrow> nat list \<Rightarrow> nat \<Rightarrow> py_exc + nat" where
  "talker_segments ids (s # e # is) acc =
     (if s + 1 \<ge> length ids then Inl IndexError
      else (let role = ids ! (s + 1);
                acc1 = (if role = system_token_id then acc
                        else if role = user_token_id then acc + (e - s)
                        else if role = assistant_token_id \<and> is = [] then acc + 9
                        else acc)
            in talker_segments ids (e # is) acc1))"
| "talker_segments ids is acc = Inr acc"

definition compute_talker_prompt_ids_length :: "int list \<Rightarrow> py_exc + nat" where
  "compute_talker_prompt_ids_length ids = talker_segments ids (im_start_indexes ids) 0"

text \<open>
  A new segment of a streaming input: the tokens computed so far become the prompt, followed by zeros for the
  new slice.  The prompt is already extended when the length raises.
\<close>

definition construct_next_stage_streaming_input_prompt ::
  "'v chunk_ops \<Rightarrow> 'v payload \<Rightarrow> 'v stream_req \<Rightarrow> (py_exc + unit) \<times> 'v stream_req" where
  "construct_next_stage_streaming_input_prompt ops p r =
     (case dict_get p ''ids'' of
        Some (Atom a) \<Rightarrow> (Inl AttributeError, r)
      | ids_entry \<Rightarrow>
         (let ids = (case ids_entry of Some (PDict d) \<Rightarrow> d | _ \<Rightarrow> []);
              prompt = (case dict_get ids (KS ''prompt'') of None \<Rightarrow> [] | Some v \<Rightarrow> co_ids ops v)
          in if prompt = [] then (Inr (), r)
             else
               (let n = sq_num_computed r;
                    kept = drop (sq_num_prompt r) (take n (sq_all r));
                    r1 = r\<lparr>sq_all := take n (sq_all r), sq_output := [], sq_prompt := sq_prompt r @ kept\<rparr>
                in case compute_talker_prompt_ids_length prompt of
                     Inl e \<Rightarrow> (Inl e, r1)
                   | Inr k \<Rightarrow>
                       (let fresh = replicate (max 1 k) 0
                        in (Inr (), r1\<lparr>sq_all := sq_all r1 @ fresh, sq_prompt := sq_prompt r1 @ fresh,
                              sq_num_prompt := length (sq_prompt r1 @ fresh)\<rparr>)))))"

text \<open>Merging a chunk into the information a generation stage keeps for a request.\<close>

definition merge_entry :: "bool \<Rightarrow> string \<times> 'v pv \<Rightarrow> 'v payload \<Rightarrow> 'v payload" where
  "merge_entry grid = (\<lambda>(key, v) info.
     (let sub = (case dict_get info key of Some (PDict d) \<Rightarrow> d | _ \<Rightarrow> [])
      in if key = ''codes''
         then (case (grid, v) of (True, PDict d) \<Rightarrow> dict_set key (PDict (fold (\<lambda>(k, x). dict_set k x) d sub)) info
               | _ \<Rightarrow> info)
         else (case v of
             PDict d \<Rightarrow> dict_set key (PDict (fold (\<lambda>(k, x) m.
                 if key = ''meta'' \<and> k = KS ''finished'' then m else dict_set k x m) d sub)) info
           | Atom a \<Rightarrow> dict_set key v info)))"

definition mark_received :: "string \<Rightarrow> bool \<Rightarrow> bool \<Rightarrow> ('v, 'x) chunk_adapter \<Rightarrow> ('v, 'x) chunk_adapter" where
  "mark_received rid fin seg A =
     A\<lparr>ca_finished := (if fin then insert rid (ca_finished A) else ca_finished A),
       ca_segment_finished := (if seg then insert rid (ca_segment_finished A) else ca_segment_finished A)\<rparr>"

text \<open>The chunk a poll takes from the connector; \<open>get_ok\<close> is false when the connector raises or has nothing ready.\<close>

definition fetch_chunk ::
  "bool \<Rightarrow> string \<Rightarrow> ('v, 'x) chunk_adapter \<Rightarrow> 'v connector \<Rightarrow> 'v payload option \<times> 'v connector" where
  "fetch_chunk get_ok rid A C =
     (let ext = (case dict_get (ca_ids A) rid of None \<Rightarrow> rid | Some e \<Rightarrow> e);
          key = chunk_key ext (ca_stage_id A - 1) (count_of rid (ca_get_chunk A))
      in if get_ok then (dict_get C key, dict_del key C) else (None, C))"

definition receive_ar ::
  "'v chunk_ops \<Rightarrow> string \<Rightarrow> nat \<Rightarrow> 'v payload \<Rightarrow> bool \<Rightarrow> bool \<Rightarrow> ('v, 'x) chunk_adapter \<times> 'v stream_req \<Rightarrow>
     (py_exc + bool) \<times> ('v, 'x) chunk_adapter \<times> 'v stream_req" where
  "receive_ar ops rid chunk p fin seg = (\<lambda>(A, r).
     (let r1 = r\<lparr>sq_info := Some p\<rparr>;
          (res, r2) = (if chunk > 0 \<and> sq_resumable r1 then construct_next_stage_streaming_input_prompt ops p r1
                       else (Inr (), r1))
      in case res of
           Inl e \<Rightarrow> (Inl e, A, r2)
         | Inr u \<Rightarrow> (Inr True, mark_received rid fin seg A, if fin then r2\<lparr>sq_resumable := False\<rparr> else r2)))"

definition receive_generation ::
  "'v chunk_ops \<Rightarrow> string \<Rightarrow> 'v payload \<Rightarrow> bool \<Rightarrow> bool \<Rightarrow> ('v, 'x) chunk_adapter \<times> 'v stream_req \<Rightarrow>
     (py_exc + bool) \<times> ('v, 'x) chunk_adapter \<times> 'v stream_req" where
  "receive_generation ops rid p fin seg = (\<lambda>(A, r).
     (let A1 = mark_received rid fin seg A; r1 = (if fin then r\<lparr>sq_resumable := False\<rparr> else r)
      in case dict_get p ''codes'' of
           Some (Atom a) \<Rightarrow> (Inl AttributeError, A1, r1)
         | codes_entry \<Rightarrow>
            (let codes = (case codes_entry of Some (PDict d) \<Rightarrow> d | _ \<Rightarrow> []);
                 view = (case dict_get codes (KS ''audio'') of None \<Rightarrow> Code_Ids [] | Some v \<Rightarrow> co_codes ops v);
                 (grid, prompt, has_new) = (case view of
                     Code_Grid n \<Rightarrow> (True, if n > 0 then [0] else [], n > 0)
                   | Code_Ids ids \<Rightarrow> (False, ids, ids \<noteq> []));
                 info = fold (merge_entry grid) p (case sq_info r1 of None \<Rightarrow> [] | Some d \<Rightarrow> d);
                 r2 = r1\<lparr>sq_prompt := prompt, sq_info := Some info, sq_num_computed := 0\<rparr>
             in (Inr (has_new \<or> fin), A1, r2))))"

text \<open>\<open>True\<close> says the request has its chunk; a chunk counts as received even when it is not ready or raises.\<close>

definition poll_single_request ::
  "'v chunk_ops \<Rightarrow> bool \<Rightarrow> string \<Rightarrow> ('v, 'x) chunk_adapter \<times> 'v stream_store \<times> 'v connector \<Rightarrow>
     (py_exc + bool) \<times> ('v, 'x) chunk_adapter \<times> 'v stream_store \<times> 'v connector" where
  "poll_single_request ops get_ok rid = (\<lambda>(A, st, C).
     (let chunk = count_of rid (ca_get_chunk A);
          A0 = A\<lparr>ca_get_chunk := dict_set rid chunk (ca_get_chunk A)\<rparr>
      in case fetch_chunk get_ok rid A C of
           (None, C1) \<Rightarrow> (Inr False, A0, st, C1)
         | (Some [], C1) \<Rightarrow> (Inr False, A0, st, C1)
         | (Some p, C1) \<Rightarrow>
             (let A1 = A0\<lparr>ca_get_chunk := dict_set rid (chunk + 1) (ca_get_chunk A0)\<rparr>
              in case dict_get p ''meta'' of
                   Some (Atom a) \<Rightarrow> (Inl AttributeError, A1, st, C1)
                 | _ \<Rightarrow>
                     (let flag = (\<lambda>k. case dict_get (meta_of p) (KS k) of None \<Rightarrow> False | Some v \<Rightarrow> co_true ops v);
                          fin = flag ''finished''; seg = flag ''is_segment_finished'';
                          (res, A2, r2) = (if ca_ar_mode A then receive_ar ops rid chunk p fin seg (A1, st rid)
                                           else receive_generation ops rid p fin seg (A1, st rid));
                          A3 = (if res = Inr True then A2\<lparr>ca_finished_load := insert rid (ca_finished_load A2)\<rparr> else A2)
                      in (res, A3, st(rid := r2), C1)))))"

text \<open>One request of the receive loop: a cancelled one is dropped, one without its chunk is queued again.\<close>

definition recv_step ::
  "'v chunk_ops \<Rightarrow> bool \<Rightarrow> ('v, 'x) chunk_adapter \<times> 'v stream_store \<times> 'v connector \<Rightarrow>
     ('v, 'x) chunk_adapter \<times> 'v stream_store \<times> 'v connector" where
  "recv_step ops get_ok = (\<lambda>(A, st, C).
     case ca_pending_load A of
       [] \<Rightarrow> (A, st, C)
     | rid # rest \<Rightarrow>
         (let A1 = A\<lparr>ca_pending_load := rest\<rparr>
          in if rid \<in> ca_cancelled_load A1
             then (A1\<lparr>ca_cancelled_load := ca_cancelled_load A1 - {rid}\<rparr>, st, C)
             else (case poll_single_request ops get_ok rid
                      (A1\<lparr>ca_ids := dict_set rid (sq_external (st rid)) (ca_ids A1)\<rparr>, st, C) of
                 (res, A2, st2, C2) \<Rightarrow>
                   ((if res = Inr True then A2 else A2\<lparr>ca_pending_load := ca_pending_load A2 @ [rid]\<rparr>), st2, C2))))"

text \<open>A pass takes the requests that were pending when it began, each once.\<close>

definition recv_pass ::
  "'v chunk_ops \<Rightarrow> (string \<Rightarrow> bool) \<Rightarrow> ('v, 'x) chunk_adapter \<times> 'v stream_store \<times> 'v connector \<Rightarrow>
     ('v, 'x) chunk_adapter \<times> 'v stream_store \<times> 'v connector" where
  "recv_pass ops get_ok = (\<lambda>(A, st, C).
     ((\<lambda>(A, st, C). recv_step ops (case ca_pending_load A of [] \<Rightarrow> True | rid # _ \<Rightarrow> get_ok rid) (A, st, C))
        ^^ length (ca_pending_load A)) (A, st, C))"

end
