(* ===== verification/Chunk_Window.thy ===== *)
theory Chunk_Window
  imports Chunk_Transfer
begin

text \<open>
  The scheduling side of the chunk transfer adapter
  (\<^verbatim>\<open>transfer_adapter/chunk_transfer_adapter.py\<close>, the \<^verbatim>\<open>Schedule Helper\<close> methods): before a scheduling step the
  requests without a chunk are parked, and with a bounded window only the active streams may run; after it
  the queues are restored.  The waiting queue of vLLM is any \<open>queue_ops\<close> with \<open>queue_laws\<close>, as for the input
  coordinator; the ids of \<^verbatim>\<open>scheduler.requests\<close> are the argument \<open>known\<close>.
\<close>

section \<open>Zombies and the window\<close>

text \<open>What is parked but no longer known to the scheduler is dropped and cleaned up.\<close>

definition purge_untracked_chunk_requests ::
  "string set \<Rightarrow> string list \<Rightarrow> ('v, 'x) chunk_adapter \<Rightarrow> string list \<times> ('v, 'x) chunk_adapter" where
  "purge_untracked_chunk_requests known parked A =
     fold (\<lambda>rid (keep, A). if rid \<in> known then (keep @ [rid], A) else (keep, cleanup_receiver rid A)) parked ([], A)"

definition purge_parked :: "string set option \<Rightarrow> ('v, 'x) chunk_adapter \<Rightarrow> ('v, 'x) chunk_adapter" where
  "purge_parked known A =
     (case known of
        None \<Rightarrow> A
      | Some k \<Rightarrow>
         (case purge_untracked_chunk_requests k (ca_waiting A) A of
            (w, A1) \<Rightarrow> (case purge_untracked_chunk_requests k (ca_running A1) (A1\<lparr>ca_waiting := w\<rparr>) of
              (r, A2) \<Rightarrow> A2\<lparr>ca_running := r\<rparr>)))"

text \<open>Streams enter the window in queue order; a full window leaves the loop.\<close>

definition promote_active_streams :: "string list \<Rightarrow> ('v, 'x) chunk_adapter \<Rightarrow> ('v, 'x) chunk_adapter" where
  "promote_active_streams ids A =
     fold (\<lambda>rid A. if length (ca_active A) \<ge> ca_active_window A then A
                   else if rid \<in> set (ca_active A) \<or> rid \<in> ca_finished A then A
                   else A\<lparr>ca_active := ca_active A @ [rid]\<rparr>) ids A"

definition ensure_active_stream :: "string \<Rightarrow> ('v, 'x) chunk_adapter \<Rightarrow> bool \<times> ('v, 'x) chunk_adapter" where
  "ensure_active_stream rid A =
     (if ca_active_window A = 0 then (True, A)
      else if rid \<in> set (ca_active A) then (True, A)
      else if rid \<in> ca_finished A \<or> length (ca_active A) \<ge> ca_active_window A then (False, A)
      else (True, A\<lparr>ca_active := ca_active A @ [rid]\<rparr>))"

text \<open>Running requests outside the window are held, the last first.\<close>

definition preempt_non_active_running ::
  "string list \<Rightarrow> ('v, 'x) chunk_adapter \<Rightarrow> string list \<times> ('v, 'x) chunk_adapter" where
  "preempt_non_active_running running A =
     (filter (\<lambda>rid. rid \<in> set (ca_active A)) running,
      A\<lparr>ca_held := ca_held A @ rev (filter (\<lambda>rid. rid \<notin> set (ca_active A)) running)\<rparr>)"

section \<open>The chunk gate\<close>

text \<open>One request of the snapshot; \<open>bounded\<close> tells whether it needs a place in the window first.\<close>

definition gate_chunk ::
  "bool \<Rightarrow> 'q queue_ops \<Rightarrow> request_status \<Rightarrow> string \<Rightarrow>
     ('v, 'x) chunk_adapter \<times> 'v stream_store \<times> 'q \<times> string list \<Rightarrow>
     ('v, 'x) chunk_adapter \<times> 'v stream_store \<times> 'q \<times> string list" where
  "gate_chunk bounded Q target rid = (\<lambda>(A, st, q, parked).
     (case (if bounded then ensure_active_stream rid A else (True, A)) of
        (False, A1) \<Rightarrow> (A1, st, q, parked)
      | (True, A1) \<Rightarrow>
         (let park = (\<lambda>(A, st). (A\<lparr>ca_origin := dict_set rid target (ca_origin A)\<rparr>, st, q_remove Q rid q, parked @ [rid]))
          in if sq_status (st rid) \<noteq> RS_WAITING_FOR_CHUNK then
               (if rid \<in> ca_ready A1 then (A1, st, q, parked)
                else if is_done_receiving_chunks rid A1 then (A1, st(rid := (st rid)\<lparr>sq_info := None\<rparr>), q, parked)
                else park (load_async rid A1, st(rid := (st rid)\<lparr>sq_status := RS_WAITING_FOR_CHUNK\<rparr>)))
             else if rid \<in> ca_finished_load A1
             then (A1\<lparr>ca_finished_load := ca_finished_load A1 - {rid}, ca_ready := insert rid (ca_ready A1)\<rparr>,
                   st(rid := (st rid)\<lparr>sq_status := target\<rparr>), q, parked)
             else park (A1, st))))"

definition process_chunk_queue_legacy ::
  "'q queue_ops \<Rightarrow> request_status \<Rightarrow> ('v, 'x) chunk_adapter \<times> 'v stream_store \<times> 'q \<times> string list \<Rightarrow>
     ('v, 'x) chunk_adapter \<times> 'v stream_store \<times> 'q \<times> string list" where
  "process_chunk_queue_legacy Q target = (\<lambda>(A, st, q, parked). fold (gate_chunk False Q target) (q_items Q q) (A, st, q, parked))"

definition process_chunk_queue_bounded ::
  "'q queue_ops \<Rightarrow> request_status \<Rightarrow> ('v, 'x) chunk_adapter \<times> 'v stream_store \<times> 'q \<times> string list \<Rightarrow>
     ('v, 'x) chunk_adapter \<times> 'v stream_store \<times> 'q \<times> string list" where
  "process_chunk_queue_bounded Q target = (\<lambda>(A, st, q, parked). fold (gate_chunk True Q target) (q_items Q q) (A, st, q, parked))"

text \<open>The requests over the capacity of the scheduler go back to the head of the waiting queue, the last first.\<close>

definition preempt_over_capacity ::
  "'q queue_ops \<Rightarrow> nat \<Rightarrow> 'v stream_store \<times> 'q \<times> string list \<Rightarrow> 'v stream_store \<times> 'q \<times> string list" where
  "preempt_over_capacity Q n = (\<lambda>(st, wq, running).
     ((\<lambda>(st, wq, running). let rid = last running
        in (st(rid := (st rid)\<lparr>sq_status := RS_PREEMPTED\<rparr>), q_prepend Q rid wq, butlast running))
      ^^ (length running - n)) (st, wq, running))"

section \<open>A scheduling cycle\<close>

definition gate_pending_chunks ::
  "'q queue_ops \<Rightarrow> string set option \<Rightarrow> ('v, 'x) chunk_adapter \<times> 'v stream_store \<times> 'q \<times> string list \<Rightarrow>
     ('v, 'x) chunk_adapter \<times> 'v stream_store \<times> 'q \<times> string list" where
  "gate_pending_chunks Q known = (\<lambda>(A, st, wq, running).
     if ca_stage_id A = 0 then (A, st, wq, running)
     else
       (let A1 = purge_parked known A
        in if ca_active_window A1 = 0 then
             (case process_chunk_queue_legacy Q RS_WAITING (A1, st, wq, ca_waiting A1) of
                (A2, st2, wq2, w) \<Rightarrow>
                  (case process_chunk_queue_legacy running_ops RS_RUNNING (A2\<lparr>ca_waiting := w\<rparr>, st2, running, ca_running A2) of
                     (A3, st3, running3, r) \<Rightarrow>
                       (case preempt_over_capacity Q (ca_max_num_seqs A3) (st3, wq2, running3) of
                          (st4, wq4, running4) \<Rightarrow> (A3\<lparr>ca_running := r\<rparr>, st4, wq4, running4))))
           else
             (let A2 = promote_active_streams (q_items Q wq) (promote_active_streams running A1)
              in case process_chunk_queue_bounded Q RS_WAITING (A2, st, wq, ca_waiting A2) of
                (A3, st3, wq3, w) \<Rightarrow>
                  (case process_chunk_queue_bounded running_ops RS_RUNNING (A3\<lparr>ca_waiting := w\<rparr>, st3, running, ca_running A3) of
                     (A4, st4, running4, r) \<Rightarrow>
                       (let A5 = promote_active_streams (q_items Q wq3) (A4\<lparr>ca_running := r\<rparr>)
                        in case preempt_non_active_running running4 A5 of
                             (running5, A6) \<Rightarrow> (A6, st4, wq3, running5))))))"

definition restore_chunk_queues ::
  "'q queue_ops \<Rightarrow> string set option \<Rightarrow> ('v, 'x) chunk_adapter \<times> 'q \<times> string list \<Rightarrow>
     ('v, 'x) chunk_adapter \<times> 'q \<times> string list" where
  "restore_chunk_queues Q known = (\<lambda>(A, wq, running).
     (let A1 = purge_parked known A;
          live = filter (\<lambda>rid. case known of None \<Rightarrow> True | Some k \<Rightarrow> rid \<in> k)
      in (A1\<lparr>ca_waiting := [], ca_running := [], ca_held := []\<rparr>,
          fold (q_add Q) (live (ca_waiting A1)) wq,
          running @ live (ca_running A1) @ ca_held A1)))"

text \<open>The information of a cached request is handed out once.\<close>

definition attach_cached_additional_information ::
  "string list \<Rightarrow> string set \<Rightarrow> 'v stream_store \<Rightarrow> (string, 'v payload option) dict \<Rightarrow>
     (string, 'v payload option) dict \<times> 'v stream_store" where
  "attach_cached_additional_information cached known st out =
     fold (\<lambda>rid (out, st).
        let info = (if rid \<noteq> [] \<and> rid \<in> known then sq_info (st rid) else None)
        in (dict_set rid info out,
            if rid \<noteq> [] \<and> rid \<in> known \<and> info \<noteq> None \<and> info \<noteq> Some [] then st(rid := (st rid)\<lparr>sq_info := None\<rparr>) else st))
       cached (out, st)"

definition scheduled_chunk_ids :: "string list \<Rightarrow> string list \<Rightarrow> string set" where
  "scheduled_chunk_ids new cached = {rid \<in> set new \<union> set cached. rid \<noteq> []}"

definition clear_chunk_ready :: "string list \<Rightarrow> string list \<Rightarrow> ('v, 'x) chunk_adapter \<Rightarrow> ('v, 'x) chunk_adapter" where
  "clear_chunk_ready new cached A = A\<lparr>ca_ready := ca_ready A - set new - set cached\<rparr>"

definition postprocess_chunk_output ::
  "string set option \<Rightarrow> string list \<Rightarrow> string list \<Rightarrow> ('v, 'x) chunk_adapter \<times> 'v stream_store \<Rightarrow>
     (string, 'v payload option) dict \<times> ('v, 'x) chunk_adapter \<times> 'v stream_store" where
  "postprocess_chunk_output requests new cached = (\<lambda>(A, st).
     if ca_stage_id A = 0 then ([], A, st)
     else (case (case requests of None \<Rightarrow> ([], st) | Some k \<Rightarrow> attach_cached_additional_information cached k st []) of
       (out, st1) \<Rightarrow>
         (let ids = scheduled_chunk_ids new cached; A1 = clear_chunk_ready new cached A
          in (out, if ids = {} then A1 else evict_finished_active_streams (Some ids) A1, st1))))"

section \<open>Finishing requests from outside\<close>

text \<open>The ids are a list without repetition; \<open>None\<close> means all requests of the scheduler.\<close>

definition restore_status ::
  "'v chunk_ops \<Rightarrow> string list \<Rightarrow> string \<Rightarrow> ('v, 'x) chunk_adapter \<times> 'v stream_store \<Rightarrow> ('v, 'x) chunk_adapter \<times> 'v stream_store" where
  "restore_status ops requests rid = (\<lambda>(A, st).
     if rid \<notin> set requests \<or> co_finished ops (sq_status (st rid)) then (A, st)
     else (case dict_get (ca_origin A) rid of
        None \<Rightarrow> (A, st)
      | Some s \<Rightarrow> (A\<lparr>ca_origin := dict_del rid (ca_origin A)\<rparr>, st(rid := (st rid)\<lparr>sq_status := s\<rparr>))))"

definition finish_chunk_requests ::
  "'v chunk_ops \<Rightarrow> string list option \<Rightarrow> string list \<Rightarrow> ('v, 'x) chunk_adapter \<times> 'v stream_store \<Rightarrow>
     ('v, 'x) chunk_adapter \<times> 'v stream_store" where
  "finish_chunk_requests ops request_ids requests = (\<lambda>(A, st).
     (let ids = (case request_ids of None \<Rightarrow> requests | Some l \<Rightarrow> l)
      in case fold (restore_status ops requests) ids (A, st) of
        (A1, st1) \<Rightarrow>
          (A1\<lparr>ca_waiting := filter (\<lambda>rid. rid \<notin> set ids) (ca_waiting A1),
              ca_running := filter (\<lambda>rid. rid \<notin> set ids) (ca_running A1),
              ca_ready := ca_ready A1 - set ids, ca_finished := ca_finished A1 - set ids,
              ca_finished_load := ca_finished_load A1 - set ids,
              ca_cancelled_load := ca_cancelled_load A1 \<union> set ids\<rparr>, st1)))"

section \<open>The window\<close>

text \<open>The streams in the window after the streams of a list had their chance.\<close>

definition admitted :: "string list \<Rightarrow> ('v, 'x) chunk_adapter \<Rightarrow> string list" where
  "admitted ids A = ca_active A @
     take (ca_active_window A - length (ca_active A)) (filter (\<lambda>r. r \<notin> set (ca_active A) \<and> r \<notin> ca_finished A) ids)"

lemma promote_admitted: "distinct ids \<Longrightarrow> promote_active_streams ids A = A\<lparr>ca_active := admitted ids A\<rparr>"
proof (induction ids arbitrary: A)
  case (Cons r ids)
  define B where "B = (if length (ca_active A) \<ge> ca_active_window A then A
     else if r \<in> set (ca_active A) \<or> r \<in> ca_finished A then A else A\<lparr>ca_active := ca_active A @ [r]\<rparr>)"
  have "promote_active_streams (r # ids) A = promote_active_streams ids B"
    by (simp add: promote_active_streams_def B_def)
  also have "\<dots> = B\<lparr>ca_active := admitted ids B\<rparr>" using Cons by simp
  also have "\<dots> = A\<lparr>ca_active := admitted (r # ids) A\<rparr>"
  proof -
    have "filter (\<lambda>x. x \<noteq> r \<and> x \<notin> set (ca_active A) \<and> x \<notin> ca_finished A) ids =
        filter (\<lambda>x. x \<notin> set (ca_active A) \<and> x \<notin> ca_finished A) ids"
      using Cons.prems by (intro filter_cong) auto
    then show ?thesis by (auto simp: B_def admitted_def take_Cons' conj_ac)
  qed
  finally show ?case .
qed (simp add: promote_active_streams_def admitted_def)

lemma admitted_bound: "length (ca_active A) \<le> ca_active_window A \<Longrightarrow> length (admitted ids A) \<le> ca_active_window A"
  by (simp add: admitted_def)

text \<open>Nothing more can enter: the window is full or holds all there is.\<close>

definition saturated :: "string set \<Rightarrow> ('v, 'x) chunk_adapter \<Rightarrow> bool" where
  "saturated ids A \<longleftrightarrow> length (ca_active A) \<ge> ca_active_window A \<or> ids \<subseteq> set (ca_active A) \<union> ca_finished A"

lemma admitted_saturates: "saturated (set ids) (A\<lparr>ca_active := admitted ids A\<rparr>)"
proof (cases "length (admitted ids A) \<ge> ca_active_window A")
  case False
  then have "length (filter (\<lambda>r. r \<notin> set (ca_active A) \<and> r \<notin> ca_finished A) ids) \<le> ca_active_window A - length (ca_active A)"
    by (auto simp: admitted_def)
  then show ?thesis by (auto simp: saturated_def admitted_def)
qed (simp add: saturated_def)

lemma saturated_promote: "saturated (set ids) A \<Longrightarrow> promote_active_streams ids A = A"
  unfolding promote_active_streams_def by (induction ids) (auto simp: saturated_def)

lemma saturated_ensure:
  "ca_active_window A > 0 \<Longrightarrow> saturated ids A \<Longrightarrow> rid \<in> ids \<Longrightarrow> ensure_active_stream rid A = (rid \<in> set (ca_active A), A)"
  by (auto simp: saturated_def ensure_active_stream_def)

lemma promote_twice:
  assumes "distinct (xs @ ys)"
  shows "promote_active_streams ys (promote_active_streams xs A) = A\<lparr>ca_active := admitted (xs @ ys) A\<rparr>"
proof -
  have "promote_active_streams ys (promote_active_streams xs A) = promote_active_streams (xs @ ys) A"
    by (simp add: promote_active_streams_def)
  then show ?thesis using promote_admitted [OF assms] by simp
qed

section \<open>What the gate does\<close>

text \<open>A request that needs no parking: its chunk arrived now or before, or nothing more will come.\<close>

definition served :: "('v, 'x) chunk_adapter \<Rightarrow> 'v stream_store \<Rightarrow> string \<Rightarrow> bool" where
  "served A st rid \<longleftrightarrow>
     (if sq_status (st rid) = RS_WAITING_FOR_CHUNK then rid \<in> ca_finished_load A
      else rid \<in> ca_ready A \<or> is_done_receiving_chunks rid A)"

definition gate_frame :: "('v, 'x) chunk_adapter \<Rightarrow> ('v, 'x) chunk_adapter \<Rightarrow> bool" where
  "gate_frame A B \<longleftrightarrow> ca_stage_id B = ca_stage_id A \<and> ca_max_num_seqs B = ca_max_num_seqs A \<and>
     ca_active_window B = ca_active_window A \<and> ca_finished B = ca_finished A \<and>
     ca_segment_finished B = ca_segment_finished A \<and> ca_active B = ca_active A \<and> ca_held B = ca_held A \<and>
     ca_waiting B = ca_waiting A \<and> ca_running B = ca_running A"

lemma gate_frame_trans: "gate_frame A B \<Longrightarrow> gate_frame B C \<Longrightarrow> gate_frame A C"
  by (simp add: gate_frame_def)

definition gated_status_of :: "request_status \<Rightarrow> ('v, 'x) chunk_adapter \<Rightarrow> 'v stream_store \<Rightarrow> string \<Rightarrow> request_status" where
  "gated_status_of target A st rid =
     (if \<not> served A st rid then RS_WAITING_FOR_CHUNK
      else if sq_status (st rid) = RS_WAITING_FOR_CHUNK then target else sq_status (st rid))"

lemma chunk_gate_step:
  assumes "ca_stage_id A \<noteq> 0" "gate_chunk False Q target rid (A, st, q, parked) = (A', st', q', parked')"
  shows "gate_frame A A' \<and> q' = (if served A st rid then q else q_remove Q rid q) \<and>
     parked' = parked @ (if served A st rid then [] else [rid]) \<and>
     ca_pending_load A' = ca_pending_load A @
       (if served A st rid \<or> sq_status (st rid) = RS_WAITING_FOR_CHUNK then [] else [rid]) \<and>
     sq_status (st' rid) = gated_status_of target A st rid \<and>
     (\<forall>x. x \<noteq> rid \<longrightarrow> st' x = st x \<and> (x \<in> ca_ready A' \<longleftrightarrow> x \<in> ca_ready A) \<and>
       (x \<in> ca_finished_load A' \<longleftrightarrow> x \<in> ca_finished_load A))"
  using assms
  by (auto simp: gate_chunk_def served_def gated_status_of_def gate_frame_def load_async_def Let_def split: if_splits)

text \<open>The requests of a list the gate parks; \<open>inside\<close> tells which of them it looks at.\<close>

definition to_park :: "(string \<Rightarrow> bool) \<Rightarrow> ('v, 'x) chunk_adapter \<Rightarrow> 'v stream_store \<Rightarrow> string \<Rightarrow> bool" where
  "to_park inside A st r \<longleftrightarrow> inside r \<and> \<not> served A st r"

lemma chunk_gate_run:
  assumes "distinct rs" "ca_stage_id A \<noteq> 0"
      and "fold (\<lambda>r s. if inside r then gate_chunk False Q target r s else s) rs (A, st, q, parked) = (A', st', q', parked')"
  shows "gate_frame A A' \<and> parked' = parked @ filter (to_park inside A st) rs \<and>
     q' = fold (q_remove Q) (filter (to_park inside A st) rs) q \<and>
     ca_pending_load A' = ca_pending_load A @
       filter (\<lambda>r. to_park inside A st r \<and> sq_status (st r) \<noteq> RS_WAITING_FOR_CHUNK) rs \<and>
     (\<forall>x \<in> set rs. inside x \<longrightarrow> sq_status (st' x) = gated_status_of target A st x) \<and>
     (\<forall>x. x \<notin> set rs \<or> \<not> inside x \<longrightarrow> st' x = st x \<and> (x \<in> ca_ready A' \<longleftrightarrow> x \<in> ca_ready A) \<and>
       (x \<in> ca_finished_load A' \<longleftrightarrow> x \<in> ca_finished_load A))"
  using assms
proof (induction rs arbitrary: A st q parked)
  case (Cons r rs)
  let ?g = "\<lambda>r s. if inside r then gate_chunk False Q target r s else s"
  obtain B sb qb pb where one: "?g r (A, st, q, parked) = (B, sb, qb, pb)" by (metis prod_cases4)
  have s: "gate_frame A B" "qb = (if to_park inside A st r then q_remove Q r q else q)"
    "pb = parked @ (if to_park inside A st r then [r] else [])"
    "ca_pending_load B = ca_pending_load A @
       (if to_park inside A st r \<and> sq_status (st r) \<noteq> RS_WAITING_FOR_CHUNK then [r] else [])"
    "inside r \<longrightarrow> sq_status (sb r) = gated_status_of target A st r"
    "\<And>x. x \<noteq> r \<or> \<not> inside r \<Longrightarrow> sb x = st x \<and> (x \<in> ca_ready B \<longleftrightarrow> x \<in> ca_ready A) \<and>
       (x \<in> ca_finished_load B \<longleftrightarrow> x \<in> ca_finished_load A)"
    using one chunk_gate_step [OF Cons.prems(2), of Q target r st q parked B sb qb pb]
    by (auto simp: to_park_def gate_frame_def split: if_splits)
  have sid: "ca_stage_id B \<noteq> 0" using Cons.prems(2) s(1) by (simp add: gate_frame_def)
  have rest: "fold ?g rs (B, sb, qb, pb) = (A', st', q', parked')" using Cons.prems(3) one by simp
  have d: "distinct rs" "r \<notin> set rs" using Cons.prems(1) by simp_all
  note i = Cons.IH [OF d(1) sid rest]
  have e: "to_park inside B sb x = to_park inside A st x \<and> gated_status_of target B sb x = gated_status_of target A st x \<and>
    sq_status (sb x) = sq_status (st x)" if "x \<in> set rs" for x
  proof -
    have "x \<noteq> r" using that d(2) by auto
    with s(6) [of x] have "sb x = st x" "x \<in> ca_ready B \<longleftrightarrow> x \<in> ca_ready A" "x \<in> ca_finished_load B \<longleftrightarrow> x \<in> ca_finished_load A"
      by blast+
    with s(1) show ?thesis
      by (simp add: to_park_def served_def gated_status_of_def gate_frame_def is_done_receiving_chunks_def)
  qed
  have f: "filter (to_park inside B sb) rs = filter (to_park inside A st) rs"
    "filter (\<lambda>r. to_park inside B sb r \<and> sq_status (sb r) \<noteq> RS_WAITING_FOR_CHUNK) rs =
     filter (\<lambda>r. to_park inside A st r \<and> sq_status (st r) \<noteq> RS_WAITING_FOR_CHUNK) rs"
    using e by (intro filter_cong; simp)+
  have r: "inside r \<longrightarrow> sq_status (st' r) = gated_status_of target A st r" using i d(2) s(5) by auto
  have o': "st' x = st x \<and> (x \<in> ca_ready A' \<longleftrightarrow> x \<in> ca_ready A) \<and> (x \<in> ca_finished_load A' \<longleftrightarrow> x \<in> ca_finished_load A)"
    if "x \<notin> set (r # rs) \<or> \<not> inside x" for x
  proof -
    have "x \<noteq> r \<or> \<not> inside r" and out: "x \<notin> set rs \<or> \<not> inside x" using that by auto
    from s(6) [OF this(1)] i out show ?thesis by simp
  qed
  have "\<forall>x \<in> set (r # rs). inside x \<longrightarrow> sq_status (st' x) = gated_status_of target A st x" using i e r by simp
  moreover have "gate_frame A A'" using i s(1) gate_frame_trans by blast
  ultimately show ?case using i s(2-4) f o' by simp
qed (simp add: gate_frame_def)

text \<open>The bounded pass looks only at the streams of a saturated window.\<close>

lemma bounded_pass:
  assumes "ca_stage_id A \<noteq> 0" "ca_active_window A > 0" "set rs \<subseteq> ids" "saturated ids A"
  shows "fold (gate_chunk True Q target) rs (A, st, q, parked) =
    fold (\<lambda>r s. if r \<in> set (ca_active A) then gate_chunk False Q target r s else s) rs (A, st, q, parked)"
  using assms
proof (induction rs arbitrary: A st q parked)
  case (Cons r rs)
  have "ensure_active_stream r A = (r \<in> set (ca_active A), A)"
    using Cons.prems by (intro saturated_ensure) auto
  then have e: "gate_chunk True Q target r (A, st, q, parked) =
      (if r \<in> set (ca_active A) then gate_chunk False Q target r (A, st, q, parked) else (A, st, q, parked))"
    by (simp add: gate_chunk_def)
  obtain B sb qb pb where one: "gate_chunk True Q target r (A, st, q, parked) = (B, sb, qb, pb)" by (metis prod_cases4)
  have "gate_frame A B"
    using one chunk_gate_step [OF Cons.prems(1), of Q target r st q parked B sb qb pb]
    by (auto simp: e gate_frame_def split: if_splits)
  then have "ca_stage_id B \<noteq> 0" "ca_active_window B > 0" "saturated ids B" "ca_active B = ca_active A"
    using Cons.prems by (auto simp: gate_frame_def saturated_def)
  with Cons.IH [of B sb qb pb] Cons.prems(3) one e show ?case by simp
qed simp

lemma purge_nothing: "ca_waiting A = [] \<Longrightarrow> ca_running A = [] \<Longrightarrow> purge_parked known A = A"
  by (simp add: purge_parked_def purge_untracked_chunk_requests_def split: option.split)

lemma purge_all_known: "set parked \<subseteq> k \<Longrightarrow> purge_untracked_chunk_requests k parked A = (parked, A)"
proof -
  have "set parked \<subseteq> k \<Longrightarrow> fold (\<lambda>rid (keep, A). if rid \<in> k then (keep @ [rid], A) else (keep, cleanup_receiver rid A)) parked (acc, A) = (acc @ parked, A)" for acc
    by (induction parked arbitrary: acc) auto
  from this [of "[]"] show "set parked \<subseteq> k \<Longrightarrow> ?thesis" by (simp add: purge_untracked_chunk_requests_def)
qed

lemma purge_parked_known:
  "(\<And>k. known = Some k \<Longrightarrow> set (ca_waiting A) \<union> set (ca_running A) \<subseteq> k) \<Longrightarrow> purge_parked known A = A"
  by (cases known) (simp_all add: purge_parked_def purge_all_known)

text \<open>A cycle with the window on, from empty side queues.\<close>

lemma window_run:
  assumes Q: "queue_laws Q" and dist: "distinct (q_items Q wq @ running)" and sid: "ca_stage_id A \<noteq> 0"
      and K: "ca_active_window A > 0" and empty: "ca_waiting A = []" "ca_running A = []"
      and run: "gate_pending_chunks Q known (A, st, wq, running) = (A', st', wq', running')"
  defines "W \<equiv> admitted (running @ q_items Q wq) A"
  defines "P \<equiv> to_park (\<lambda>r. r \<in> set W) A st"
  shows "ca_active A' = W \<and> running' = filter (\<lambda>r. r \<in> set W \<and> \<not> P r) running \<and>
     ca_held A' = ca_held A @ rev (filter (\<lambda>r. r \<notin> set W) running) \<and>
     ca_waiting A' = filter P (q_items Q wq) \<and> ca_running A' = filter P running \<and>
     mset (q_items Q wq') = mset (filter (\<lambda>r. \<not> P r) (q_items Q wq)) \<and>
     ca_pending_load A' = ca_pending_load A @
       filter (\<lambda>r. P r \<and> sq_status (st r) \<noteq> RS_WAITING_FOR_CHUNK) (q_items Q wq @ running) \<and>
     (\<forall>x. x \<notin> set (q_items Q wq @ running) \<or> x \<notin> set W \<longrightarrow> st' x = st x) \<and>
     (\<forall>x \<in> set W \<inter> set (q_items Q wq). sq_status (st' x) = gated_status_of RS_WAITING A st x) \<and>
     (\<forall>x \<in> set W \<inter> set running. sq_status (st' x) = gated_status_of RS_RUNNING A st x) \<and>
     ca_active_window A' = ca_active_window A \<and> ca_stage_id A' = ca_stage_id A \<and> ca_finished A' = ca_finished A"
proof -
  let ?ids = "set (running @ q_items Q wq)"
  define A2 where "A2 = A\<lparr>ca_active := W\<rparr>"
  have dis: "distinct (running @ q_items Q wq)" "distinct (q_items Q wq)" "distinct running"
    "set (q_items Q wq) \<inter> set running = {}" using dist by auto
  have prom: "promote_active_streams (q_items Q wq) (promote_active_streams running A) = A2"
    using promote_twice [OF dis(1)] by (simp add: A2_def W_def)
  have sat: "saturated ?ids A2" unfolding A2_def W_def by (rule admitted_saturates)
  have A2: "ca_stage_id A2 \<noteq> 0" "ca_active_window A2 > 0" "ca_active A2 = W" "ca_waiting A2 = []" "ca_running A2 = []"
    "ca_pending_load A2 = ca_pending_load A" "ca_held A2 = ca_held A" "ca_active_window A2 = ca_active_window A"
    "ca_stage_id A2 = ca_stage_id A" "ca_finished A2 = ca_finished A"
    using sid K empty by (simp_all add: A2_def)
  have P2: "to_park (\<lambda>r. r \<in> set W) A2 st = P" "gated_status_of t A2 st = gated_status_of t A st" for t
    by (auto simp: P_def to_park_def served_def gated_status_of_def A2_def is_done_receiving_chunks_def fun_eq_iff)
  obtain A3 st3 wq3 w where g1: "process_chunk_queue_bounded Q RS_WAITING (A2, st, wq, ca_waiting A2) = (A3, st3, wq3, w)"
    by (metis prod_cases4)
  have f1: "fold (\<lambda>r s. if r \<in> set W then gate_chunk False Q RS_WAITING r s else s) (q_items Q wq) (A2, st, wq, []) = (A3, st3, wq3, w)"
    using g1 bounded_pass [OF A2(1,2) _ sat, of "q_items Q wq" Q RS_WAITING st wq "[]"] A2
    by (simp add: process_chunk_queue_bounded_def)
  note G1 = chunk_gate_run [OF dis(2) A2(1) f1, unfolded P2 append_Nil]
  define B where "B = A3\<lparr>ca_waiting := w\<rparr>"
  have B: "ca_stage_id B \<noteq> 0" "ca_active_window B > 0" "ca_active B = W" "saturated ?ids B" "ca_running B = []"
    using G1 A2 sat by (auto simp: B_def gate_frame_def saturated_def)
  obtain A4 st4 run4 r where g2: "process_chunk_queue_bounded running_ops RS_RUNNING (B, st3, running, ca_running A3) = (A4, st4, run4, r)"
    by (metis prod_cases4)
  have r3: "ca_running A3 = []" using B(5) by (simp add: B_def)
  have f2: "fold (\<lambda>r s. if r \<in> set W then gate_chunk False running_ops RS_RUNNING r s else s) running (B, st3, running, []) = (A4, st4, run4, r)"
    using g2 bounded_pass [OF B(1,2) _ B(4), of running running_ops RS_RUNNING st3 running "[]"] B r3
    by (simp add: process_chunk_queue_bounded_def running_items)
  note G2 = chunk_gate_run [OF dis(3) B(1) f2, unfolded append_Nil]
  have e: "to_park (\<lambda>r. r \<in> set W) B st3 x = P x \<and> gated_status_of t B st3 x = gated_status_of t A st x \<and> st3 x = st x"
    if "x \<in> set running" for x t
  proof -
    have "x \<notin> set (q_items Q wq)" using that dis(4) by auto
    with G1 have "st3 x = st x" "x \<in> ca_ready A3 \<longleftrightarrow> x \<in> ca_ready A2" "x \<in> ca_finished_load A3 \<longleftrightarrow> x \<in> ca_finished_load A2" by blast+
    with G1 show ?thesis unfolding P2 [symmetric]
      by (simp add: to_park_def served_def gated_status_of_def gate_frame_def B_def is_done_receiving_chunks_def)
  qed
  have fr: "filter (to_park (\<lambda>r. r \<in> set W) B st3) running = filter P running"
    "filter (\<lambda>r. to_park (\<lambda>r. r \<in> set W) B st3 r \<and> sq_status (st3 r) \<noteq> RS_WAITING_FOR_CHUNK) running =
     filter (\<lambda>r. P r \<and> sq_status (st r) \<noteq> RS_WAITING_FOR_CHUNK) running"
    using e by (intro filter_cong; simp)+
  note G2' = G2 [unfolded fr]
  have run4: "run4 = filter (\<lambda>r. \<not> P r) running"
    using G2' fold_remove1 [OF dis(3)] by (auto simp: running_ops_def intro!: filter_cong)
  have wq3: "mset (q_items Q wq3) = mset (filter (\<lambda>r. \<not> P r) (q_items Q wq))"
    using G1 fold_remove [OF Q] mset_filter_diff [of "q_items Q wq" "\<lambda>r. \<not> P r"] by simp
  define A5 where "A5 = A4\<lparr>ca_running := r\<rparr>"
  have fr4: "gate_frame B A4" using G2' by simp
  have "set (q_items Q wq3) \<subseteq> ?ids" using wq3 by (metis UnCI filter_is_subset set_append set_mset_mset subsetI subset_trans)
  then have sat5: "saturated (set (q_items Q wq3)) A5"
    using B(4) fr4 by (auto simp: A5_def gate_frame_def saturated_def)
  have act5: "ca_active A5 = W" using B(3) fr4 by (simp add: A5_def gate_frame_def)
  have "gate_pending_chunks Q known (A, st, wq, running) =
     (A5\<lparr>ca_held := ca_held A5 @ rev (filter (\<lambda>x. x \<notin> set W) run4)\<rparr>, st4, wq3, filter (\<lambda>x. x \<in> set W) run4)"
    using sid K g1 [unfolded A2(4)] g2 [unfolded r3 B_def] A2 r3 saturated_promote [OF sat5]
    by (simp add: gate_pending_chunks_def purge_nothing [OF empty] prom Let_def A5_def [symmetric]
        preempt_non_active_running_def act5)
  with run have res: "A' = A5\<lparr>ca_held := ca_held A5 @ rev (filter (\<lambda>x. x \<notin> set W) run4)\<rparr>" "st' = st4" "wq' = wq3"
    "running' = filter (\<lambda>x. x \<in> set W) run4" by simp_all
  have inW: "P x \<Longrightarrow> x \<in> set W" for x by (simp add: P_def to_park_def)
  have h: "filter (\<lambda>x. x \<notin> set W) run4 = filter (\<lambda>x. x \<notin> set W) running" "filter (\<lambda>x. x \<in> set W) run4 = filter (\<lambda>x. x \<in> set W \<and> \<not> P x) running"
    unfolding run4 filter_filter using inW by (auto intro!: filter_cong)
  show ?thesis
    unfolding res h using G1 G2' A2 act5 fr4 wq3 e dis(4) B
    by (auto simp: A5_def B_def gate_frame_def disjoint_iff)
qed

lemma mset_three:
  "(\<And>x. p x \<Longrightarrow> w x) \<Longrightarrow>
     mset (filter (\<lambda>x. w x \<and> \<not> p x) xs) + mset (filter p xs) + mset (filter (\<lambda>x. \<not> w x) xs) = mset xs"
  by (induction xs) auto

text \<open>
  C17: The window bounds what runs and loses nothing.  A cycle with the window on, from restored queues: at
  most as many streams as the window has places are active, the streams that were active stay so, and if a
  place is left every request that still expects chunks is active.  Only active streams run, parked are
  exactly the active ones whose chunk is not there, a chunk is asked for exactly for those that did not wait
  for one already, and a request outside the window is not touched.  After the restore the two queues hold
  exactly the requests they held before.
\<close>

theorem active_window_exact:
  assumes "queue_laws Q" "distinct (q_items Q wq @ running)" "ca_stage_id A \<noteq> 0"
      and "ca_active_window A > 0" "length (ca_active A) \<le> ca_active_window A"
      and "ca_waiting A = []" "ca_running A = []" "ca_held A = []"
      and "\<forall>k. known = Some k \<longrightarrow> set (q_items Q wq @ running) \<subseteq> k"
      and "gate_pending_chunks Q known (A, st, wq, running) = (A', st', wq', running')"
      and "restore_chunk_queues Q known (A', wq', running') = (A'', wq'', running'')"
  shows "length (ca_active A') \<le> ca_active_window A \<and> take (length (ca_active A)) (ca_active A') = ca_active A \<and>
     (length (ca_active A') < ca_active_window A \<longrightarrow>
        (\<forall>r \<in> set (q_items Q wq @ running). r \<in> set (ca_active A') \<or> r \<in> ca_finished A)) \<and>
     set running' \<subseteq> set (ca_active A') \<and>
     (\<forall>r \<in> set (q_items Q wq @ running). r \<in> set (ca_waiting A' @ ca_running A') \<longleftrightarrow>
        r \<in> set (ca_active A') \<and> \<not> served A st r) \<and>
     ca_pending_load A' = ca_pending_load A @ filter (\<lambda>r. r \<in> set (ca_active A') \<and> \<not> served A st r \<and>
        sq_status (st r) \<noteq> RS_WAITING_FOR_CHUNK) (q_items Q wq @ running) \<and>
     (\<forall>r. r \<notin> set (ca_active A') \<longrightarrow> st' r = st r) \<and>
     mset (q_items Q wq'') + mset running'' = mset (q_items Q wq) + mset running \<and>
     ca_waiting A'' = [] \<and> ca_running A'' = [] \<and> ca_held A'' = []"
proof -
  let ?W = "admitted (running @ q_items Q wq) A"
  let ?P = "to_park (\<lambda>r. r \<in> set ?W) A st"
  note w = window_run [OF assms(1-4,6,7,10)]
  have P: "?P r \<longleftrightarrow> r \<in> set ?W \<and> \<not> served A st r" for r by (simp add: to_park_def)
  have sat: "saturated (set (running @ q_items Q wq)) (A\<lparr>ca_active := ?W\<rparr>)" by (rule admitted_saturates)
  have keep: "purge_parked known A' = A'"
    using w assms(9) by (intro purge_parked_known) auto
  have live: "filter (\<lambda>rid. case known of None \<Rightarrow> True | Some k \<Rightarrow> rid \<in> k) xs = xs"
    if "set xs \<subseteq> set (q_items Q wq @ running)" for xs
    using that assms(9) by (cases known) (auto simp: filter_id_conv)
  have parked: "set (ca_waiting A') \<subseteq> set (q_items Q wq @ running)" "set (ca_running A') \<subseteq> set (q_items Q wq @ running)"
    using w by auto
  have "A'' = A'\<lparr>ca_waiting := [], ca_running := [], ca_held := []\<rparr> \<and> wq'' = fold (q_add Q) (ca_waiting A') wq' \<and>
    running'' = running' @ ca_running A' @ ca_held A'"
    using assms(11) by (simp add: restore_chunk_queues_def Let_def keep live [OF parked(1)] live [OF parked(2)])
  then have rest: "A'' = A'\<lparr>ca_waiting := [], ca_running := [], ca_held := []\<rparr>" "wq'' = fold (q_add Q) (filter ?P (q_items Q wq)) wq'"
    "running'' = running' @ filter ?P running @ rev (filter (\<lambda>r. r \<notin> set ?W) running)"
    using w assms(8) by simp_all
  have "mset running'' = mset running"
  proof -
    have "mset running'' = mset (filter (\<lambda>r. r \<in> set ?W \<and> \<not> ?P r) running) + mset (filter ?P running) +
        mset (filter (\<lambda>r. r \<notin> set ?W) running)" using rest w by simp
    also have "\<dots> = mset running" by (rule mset_three) (simp add: P)
    finally show ?thesis .
  qed
  moreover have "mset (q_items Q wq'') = mset (q_items Q wq)"
    using rest(2) w multiset_partition [of "mset (q_items Q wq)" ?P] by (simp add: fold_add [OF assms(1)] add.commute)
  moreover have "length ?W \<le> ca_active_window A" by (rule admitted_bound [OF assms(5)])
  moreover have "take (length (ca_active A)) ?W = ca_active A" by (simp add: admitted_def)
  moreover have "length ?W < ca_active_window A \<longrightarrow>
      (\<forall>r \<in> set (q_items Q wq @ running). r \<in> set ?W \<or> r \<in> ca_finished A)"
    using sat by (auto simp: saturated_def)
  ultimately show ?thesis using w rest(1) P by auto
qed

section \<open>The adapter under the scheduler\<close>

text \<open>
  Everything that can happen to the receiving side: the gate and the restore of a step, the scheduler
  changing its queues and requests in between, the output of a step, a turn of the receive loop, the
  scheduler cleaning up or finishing requests, and new chunks in the connector.
\<close>

datatype ('v, 'q) window_event =
    Ev_Gate "string set option" | Ev_Restore "string set option"
  | Ev_Schedule "'v stream_store" 'q "string list"
  | Ev_Output "string set option" "string list" "string list"
  | Ev_Receive bool | Ev_Cleanup string "string option"
  | Ev_Finish "string list option" "string list" | Ev_Chunks "'v connector"

type_synonym ('v, 'x, 'q) window_state =
  "('v, 'x) chunk_adapter \<times> 'v stream_store \<times> 'q \<times> string list \<times> 'v connector"

definition window_step ::
  "'v chunk_ops \<Rightarrow> 'q queue_ops \<Rightarrow> ('v, 'q) window_event \<Rightarrow> ('v, 'x, 'q) window_state \<Rightarrow> ('v, 'x, 'q) window_state" where
  "window_step ops Q ev = (\<lambda>(A, st, wq, running, C).
     case ev of
       Ev_Gate known \<Rightarrow> (case gate_pending_chunks Q known (A, st, wq, running) of (A', st', wq', r') \<Rightarrow> (A', st', wq', r', C))
     | Ev_Restore known \<Rightarrow> (case restore_chunk_queues Q known (A, wq, running) of (A', wq', r') \<Rightarrow> (A', st, wq', r', C))
     | Ev_Schedule st' wq' r' \<Rightarrow> (A, st', wq', r', C)
     | Ev_Output requests new cached \<Rightarrow> (case postprocess_chunk_output requests new cached (A, st) of (out, A', st') \<Rightarrow>
         (A', st', wq, running, C))
     | Ev_Receive ok \<Rightarrow> (case recv_step ops ok (A, st, C) of (A', st', C') \<Rightarrow> (A', st', wq, running, C'))
     | Ev_Cleanup rid ext \<Rightarrow> (cleanup rid ext A, st, wq, running, C)
     | Ev_Finish ids requests \<Rightarrow> (case finish_chunk_requests ops ids requests (A, st) of (A', st') \<Rightarrow> (A', st', wq, running, C))
     | Ev_Chunks C' \<Rightarrow> (A, st, wq, running, C'))"

definition window_steps ::
  "'v chunk_ops \<Rightarrow> 'q queue_ops \<Rightarrow> ('v, 'q) window_event list \<Rightarrow> ('v, 'x, 'q) window_state \<Rightarrow> ('v, 'x, 'q) window_state" where
  "window_steps ops Q evs s = fold (window_step ops Q) evs s"

section \<open>Cleanup and receiving, seen from the window\<close>

text \<open>What only the gate, the restore and the eviction change.\<close>

definition window_frame :: "('v, 'x) chunk_adapter \<Rightarrow> ('v, 'x) chunk_adapter \<Rightarrow> bool" where
  "window_frame A B \<longleftrightarrow> ca_stage_id B = ca_stage_id A \<and> ca_active_window B = ca_active_window A \<and>
     ca_waiting B = ca_waiting A \<and> ca_running B = ca_running A \<and> ca_held B = ca_held A"

lemma cleanup_window:
  "ca_active (cleanup_receiver rid A) = removeAll rid (ca_active A) \<and> ca_finished (cleanup_receiver rid A) = ca_finished A - {rid} \<and>
     ca_pending_load (cleanup_receiver rid A) = ca_pending_load A \<and> window_frame A (cleanup_receiver rid A)"
  "ca_active (cleanup rid ext A) = removeAll rid (ca_active A) \<and> ca_finished (cleanup rid ext A) = ca_finished A - {rid} \<and>
     ca_pending_load (cleanup rid ext A) = ca_pending_load A \<and> window_frame A (cleanup rid ext A)"
  by (auto simp: cleanup_def cleanup_sender_def cleanup_receiver_def evict_finished_active_streams_def window_frame_def Let_def
      removeAll_filter_not_eq intro!: filter_cong)

lemma cleanups_window:
  "ca_active (fold cleanup_receiver rs A) = filter (\<lambda>r. r \<notin> set rs) (ca_active A) \<and>
     ca_finished (fold cleanup_receiver rs A) = ca_finished A - set rs \<and>
     ca_pending_load (fold cleanup_receiver rs A) = ca_pending_load A \<and> window_frame A (fold cleanup_receiver rs A)"
proof (induction rs arbitrary: A)
  case (Cons r rs)
  from Cons [of "cleanup_receiver r A"] cleanup_window(1) [of r A] show ?case
    by (auto simp: window_frame_def removeAll_filter_not_eq intro!: filter_cong)
qed (simp add: window_frame_def)

lemma purge_eq:
  "purge_untracked_chunk_requests k parked A =
     (filter (\<lambda>r. r \<in> k) parked, fold cleanup_receiver (filter (\<lambda>r. r \<notin> k) parked) A)"
proof -
  have "fold (\<lambda>rid (keep, A). if rid \<in> k then (keep @ [rid], A) else (keep, cleanup_receiver rid A)) parked (acc, A) =
      (acc @ filter (\<lambda>r. r \<in> k) parked, fold cleanup_receiver (filter (\<lambda>r. r \<notin> k) parked) A)" for acc
    by (induction parked arbitrary: acc A) auto
  from this [of "[]"] show ?thesis by (simp add: purge_untracked_chunk_requests_def)
qed

text \<open>The purge drops only parked requests.\<close>

lemma purge_window:
  "\<exists>gone. set gone \<subseteq> set (ca_waiting A) \<union> set (ca_running A) \<and>
     ca_active (purge_parked known A) = filter (\<lambda>r. r \<notin> set gone) (ca_active A) \<and>
     ca_finished (purge_parked known A) = ca_finished A - set gone \<and>
     ca_pending_load (purge_parked known A) = ca_pending_load A \<and> ca_held (purge_parked known A) = ca_held A \<and>
     set (ca_waiting (purge_parked known A)) \<subseteq> set (ca_waiting A) \<and>
     set (ca_running (purge_parked known A)) \<subseteq> set (ca_running A) \<and>
     ca_stage_id (purge_parked known A) = ca_stage_id A \<and> ca_active_window (purge_parked known A) = ca_active_window A"
proof (cases known)
  case None
  then show ?thesis by (intro exI [of _ "[]"]) (simp add: purge_parked_def)
next
  case (Some k)
  let ?g1 = "filter (\<lambda>r. r \<notin> k) (ca_waiting A)" and ?g2 = "filter (\<lambda>r. r \<notin> k) (ca_running A)"
  have "ca_running (fold cleanup_receiver ?g1 A) = ca_running A" using cleanups_window [of ?g1 A] by (simp add: window_frame_def)
  then show ?thesis
    using Some cleanups_window [of ?g1 A] cleanups_window [of ?g2 "(fold cleanup_receiver ?g1 A)\<lparr>ca_waiting := filter (\<lambda>r. r \<in> k) (ca_waiting A)\<rparr>"]
    by (intro exI [of _ "?g1 @ ?g2"]) (auto simp: purge_parked_def purge_eq window_frame_def intro!: filter_cong)
qed

lemma mark_window:
  "ca_active (mark_received rid f g A) = ca_active A \<and> ca_finished A \<subseteq> ca_finished (mark_received rid f g A) \<and>
     window_frame A (mark_received rid f g A)"
  by (auto simp: mark_received_def window_frame_def)

lemma receive_window:
  assumes "receive_ar ops rid n p f g (A, r) = (res, B, r') \<or> receive_generation ops rid p f g (A, r) = (res, B, r')"
  shows "ca_active B = ca_active A \<and> ca_finished A \<subseteq> ca_finished B \<and> window_frame A B"
  using assms mark_window [of rid f g A]
  by (auto simp: receive_ar_def receive_generation_def Let_def window_frame_def split: sum.splits option.splits pv.splits prod.splits)

lemma poll_window:
  assumes "poll_single_request ops ok rid (A, st, C) = (res, B, st', C')"
  shows "ca_active B = ca_active A \<and> ca_finished A \<subseteq> ca_finished B \<and> window_frame A B"
proof -
  obtain p C1 where f: "fetch_chunk ok rid A C = (p, C1)" by (meson surj_pair)
  show ?thesis
  proof (cases "p = None \<or> p = Some []")
    case True
    then show ?thesis using assms f by (auto simp: poll_single_request_def Let_def window_frame_def)
  next
    case False
    then obtain x xs where p: "p = Some (x # xs)" by (cases p) (auto simp: neq_Nil_conv)
    show ?thesis
      using assms f p
      by (auto simp: poll_single_request_def Let_def window_frame_def
          split: option.splits pv.splits prod.splits if_splits dest!: receive_window [OF disjI1] receive_window [OF disjI2])
  qed
qed

lemma recv_window:
  assumes "recv_step ops ok (A, st, C) = (B, st', C')"
  shows "ca_active B = ca_active A \<and> ca_finished A \<subseteq> ca_finished B \<and> window_frame A B"
proof (cases "ca_pending_load A")
  case (Cons r rs)
  then show ?thesis
    using assms
    by (auto simp: recv_step_def Let_def window_frame_def split: prod.splits if_splits dest!: poll_window)
qed (use assms in \<open>auto simp: recv_step_def window_frame_def\<close>)

lemma finish_window:
  assumes "finish_chunk_requests ops ids requests (A, st) = (B, st')"
  defines "gone \<equiv> (case ids of None \<Rightarrow> requests | Some l \<Rightarrow> l)"
  shows "ca_active B = ca_active A \<and> ca_finished B = ca_finished A - set gone \<and> ca_held B = ca_held A \<and>
     ca_waiting B = filter (\<lambda>r. r \<notin> set gone) (ca_waiting A) \<and> ca_running B = filter (\<lambda>r. r \<notin> set gone) (ca_running A) \<and>
     ca_stage_id B = ca_stage_id A \<and> ca_active_window B = ca_active_window A"
proof -
  have "fold (restore_status ops requests) l (A, st) = (B1, st1) \<Longrightarrow>
      ca_active B1 = ca_active A \<and> ca_finished B1 = ca_finished A \<and> window_frame A B1" for l B1 st1
  proof (induction l arbitrary: A st)
    case (Cons r l)
    then show ?case by (auto simp: restore_status_def window_frame_def split: if_splits option.splits)
  qed (simp add: window_frame_def)
  then show ?thesis
    using assms(1) by (auto simp: finish_chunk_requests_def Let_def gone_def window_frame_def split: prod.splits)
qed

lemma output_window:
  assumes "postprocess_chunk_output requests new cached (A, st) = (out, B, st')"
  shows "ca_finished B = ca_finished A \<and> window_frame A B \<and> set (ca_active B) \<subseteq> set (ca_active A) \<and>
     (set (ca_active A) \<inter> (set new \<union> set cached) = {} \<longrightarrow> ca_active B = ca_active A) \<and>
     (ca_stage_id A \<noteq> 0 \<longrightarrow> (\<forall>r \<in> set new \<union> set cached. r \<noteq> [] \<and> r \<in> ca_finished A \<longrightarrow> r \<notin> set (ca_active B)))"
  using assms
  by (auto simp: postprocess_chunk_output_def clear_chunk_ready_def evict_finished_active_streams_def window_frame_def
      scheduled_chunk_ids_def Let_def filter_id_conv split: if_splits prod.splits)

section \<open>A window of stale streams\<close>

lemma idle_pass:
  assumes "ca_active_window A > 0" "ca_active_window A \<le> length (ca_active A)" "set rs \<inter> set (ca_active A) = {}"
  shows "fold (gate_chunk True Q target) rs (A, st, q, parked) = (A, st, q, parked)"
  using assms(3) by (induction rs) (use assms(1,2) in \<open>auto simp: gate_chunk_def ensure_active_stream_def\<close>)

lemma full_promote: "ca_active_window A \<le> length (ca_active A) \<Longrightarrow> promote_active_streams ids A = A"
  using saturated_promote [of ids A] by (simp add: saturated_def)

lemma idle_gate:
  assumes "ca_stage_id A \<noteq> 0" "ca_active_window A > 0"
      and "ca_active_window A \<le> length (ca_active (purge_parked known A))"
      and "(set (q_items Q wq) \<union> set running) \<inter> set (ca_active (purge_parked known A)) = {}"
  shows "gate_pending_chunks Q known (A, st, wq, running) =
     ((purge_parked known A)\<lparr>ca_held := ca_held A @ rev running\<rparr>, st, wq, [])"
proof -
  let ?A = "purge_parked known A"
  have w: "ca_active_window ?A > 0" "ca_active_window ?A \<le> length (ca_active ?A)" "ca_held ?A = ca_held A"
    using purge_window [of A known] assms(2,3) by auto
  have "filter (\<lambda>r. r \<in> set (ca_active ?A)) running = []" "filter (\<lambda>r. r \<notin> set (ca_active ?A)) running = running"
    using assms(4) by (auto simp: filter_empty_conv filter_id_conv)
  moreover have "?A\<lparr>ca_waiting := ca_waiting ?A\<rparr> = ?A" "?A\<lparr>ca_running := ca_running ?A\<rparr> = ?A" by simp_all
  moreover have "set (q_items Q wq) \<inter> set (ca_active ?A) = {}" "set running \<inter> set (ca_active ?A) = {}" using assms(4) by auto
  ultimately show ?thesis
    using assms(1) w idle_pass [OF w(1,2), of "q_items Q wq" Q RS_WAITING st wq "ca_waiting ?A"]
      idle_pass [OF w(1,2), of running running_ops RS_RUNNING st running "ca_running ?A"]
    by (simp add: gate_pending_chunks_def full_promote process_chunk_queue_bounded_def running_items
        preempt_non_active_running_def Let_def)
qed

definition blocked :: "'q queue_ops \<Rightarrow> string list \<Rightarrow> ('v, 'x, 'q) window_state \<Rightarrow> bool" where
  "blocked Q Z = (\<lambda>(A, st, wq, running, C).
     ca_active A = Z \<and> 0 < ca_active_window A \<and> ca_active_window A \<le> length Z \<and> ca_stage_id A \<noteq> 0 \<and>
     set Z \<inter> (set (ca_waiting A) \<union> set (ca_running A) \<union> set (ca_held A) \<union> set (q_items Q wq) \<union> set running) = {})"

text \<open>The scheduler has no business with the given requests any more.\<close>

definition leaves_alone :: "'q queue_ops \<Rightarrow> string list \<Rightarrow> ('v, 'q) window_event \<Rightarrow> bool" where
  "leaves_alone Q Z ev = (case ev of
     Ev_Schedule st wq running \<Rightarrow> set Z \<inter> (set (q_items Q wq) \<union> set running) = {}
   | Ev_Output requests new cached \<Rightarrow> set Z \<inter> (set new \<union> set cached) = {}
   | Ev_Cleanup rid ext \<Rightarrow> rid \<notin> set Z
   | _ \<Rightarrow> True)"

lemma blocked_gate:
  assumes "blocked Q Z (A, st, wq, running, C)" "gate_pending_chunks Q known (A, st, wq, running) = (A', st', wq', running')"
  shows "running' = [] \<and> wq' = wq \<and> st' = st \<and> ca_pending_load A' = ca_pending_load A \<and>
    blocked Q Z (A', st', wq', running', C)"
proof -
  obtain gone where g: "set gone \<subseteq> set (ca_waiting A) \<union> set (ca_running A)"
      "ca_active (purge_parked known A) = filter (\<lambda>r. r \<notin> set gone) (ca_active A)"
    using purge_window [of A known] by auto
  have "filter (\<lambda>r. r \<notin> set gone) (ca_active A) = Z" using assms(1) g(1) by (auto simp: blocked_def filter_id_conv)
  then have act: "ca_active (purge_parked known A) = Z" using g(2) by simp
  have "gate_pending_chunks Q known (A, st, wq, running) =
      ((purge_parked known A)\<lparr>ca_held := ca_held A @ rev running\<rparr>, st, wq, [])"
    using assms(1) by (intro idle_gate) (auto simp: blocked_def act)
  with assms act purge_window [of A known] show ?thesis by (auto simp: blocked_def)
qed

lemma restore_members:
  assumes "queue_laws Q" "restore_chunk_queues Q known (A, wq, running) = (A', wq', running')"
  shows "ca_active A' = ca_active (purge_parked known A) \<and> ca_finished A' = ca_finished (purge_parked known A) \<and>
     ca_stage_id A' = ca_stage_id A \<and>
     ca_active_window A' = ca_active_window A \<and> ca_waiting A' = [] \<and> ca_running A' = [] \<and> ca_held A' = [] \<and>
     set (q_items Q wq') \<subseteq> set (q_items Q wq) \<union> set (ca_waiting A) \<and>
     set running' \<subseteq> set running \<union> set (ca_running A) \<union> set (ca_held A)"
proof -
  let ?w = "filter (\<lambda>rid. case known of None \<Rightarrow> True | Some k \<Rightarrow> rid \<in> k) (ca_waiting (purge_parked known A))"
  have "set (q_items Q (fold (q_add Q) ?w wq)) = set ?w \<union> set (q_items Q wq)"
    using arg_cong [OF fold_add [OF assms(1), of ?w wq], of set_mset] by simp
  then show ?thesis
    using assms(2) purge_window [of A known] by (auto simp: restore_chunk_queues_def Let_def)
qed

lemma blocked_step:
  assumes "queue_laws Q" "blocked Q Z s" "leaves_alone Q Z ev"
  shows "blocked Q Z (window_step ops Q ev s)"
proof -
  obtain A st wq running C where s: "s = (A, st, wq, running, C)" by (metis prod_cases5)
  note b = assms(2) [unfolded s]
  show ?thesis
  proof (cases ev)
    case (Ev_Gate known)
    obtain A' st' wq' r' where g: "gate_pending_chunks Q known (A, st, wq, running) = (A', st', wq', r')" by (metis prod_cases4)
    have "blocked Q Z (A', st', wq', r', C)" using blocked_gate [OF b g] by blast
    then show ?thesis by (simp add: window_step_def s Ev_Gate g)
  next
    case (Ev_Restore known)
    obtain A' wq' r' where g: "restore_chunk_queues Q known (A, wq, running) = (A', wq', r')" by (metis prod_cases3)
    obtain gone where "set gone \<subseteq> set (ca_waiting A) \<union> set (ca_running A)"
        "ca_active (purge_parked known A) = filter (\<lambda>r. r \<notin> set gone) (ca_active A)"
      using purge_window [of A known] by auto
    with b have "ca_active (purge_parked known A) = Z" by (auto simp: blocked_def filter_id_conv)
    with restore_members [OF assms(1) g] b show ?thesis by (auto simp: window_step_def s Ev_Restore g blocked_def)
  next
    case (Ev_Output requests new cached)
    obtain out A' st' where g: "postprocess_chunk_output requests new cached (A, st) = (out, A', st')" by (metis prod_cases3)
    from output_window [OF g] b assms(3) show ?thesis
      by (auto simp: window_step_def s Ev_Output g blocked_def leaves_alone_def window_frame_def)
  next
    case (Ev_Receive ok)
    obtain A' st' C' where g: "recv_step ops ok (A, st, C) = (A', st', C')" by (metis prod_cases3)
    from recv_window [OF g] b show ?thesis by (auto simp: window_step_def s Ev_Receive g blocked_def window_frame_def)
  next
    case (Ev_Finish ids requests)
    obtain A' st' where g: "finish_chunk_requests ops ids requests (A, st) = (A', st')" by (meson surj_pair)
    from finish_window [OF g] b show ?thesis by (auto simp: window_step_def s Ev_Finish g blocked_def)
  next
    case (Ev_Cleanup rid ext)
    then have "removeAll rid Z = Z" using assms(3) by (simp add: leaves_alone_def)
    with cleanup_window(2) [of rid ext A] b show ?thesis by (auto simp: window_step_def s Ev_Cleanup blocked_def window_frame_def)
  qed (use b assms(3) in \<open>auto simp: window_step_def s blocked_def leaves_alone_def\<close>)
qed

lemma blocked_steps:
  "queue_laws Q \<Longrightarrow> blocked Q Z s \<Longrightarrow> \<forall>ev \<in> set evs. leaves_alone Q Z ev \<Longrightarrow> blocked Q Z (window_steps ops Q evs s)"
  unfolding window_steps_def by (induction evs arbitrary: s) (simp_all add: blocked_step)

text \<open>
  C30: Aborted streams keep their place in the window.  When as many active streams as the window has
  places are finished from outside, as an abort does, and the scheduler has dropped them, no other request
  is ever served again: whatever arrives, is scheduled, received or cleaned up afterwards, each step of the
  gate leaves the running list empty, asks for no chunk, and the window stays occupied by the aborted
  streams.
\<close>

theorem aborted_streams_block_window:
  assumes "queue_laws Q" "ca_stage_id A \<noteq> 0" "0 < ca_active_window A" "ca_active_window A \<le> length (ca_active A)"
      and "ca_held A = []" "set (ca_active A) \<inter> (set (q_items Q wq) \<union> set running) = {}"
      and "\<forall>ev \<in> set evs. leaves_alone Q (ca_active A) ev"
      and "window_steps ops Q (Ev_Finish (Some (ca_active A)) requests # evs) (A, st, wq, running, C) =
        (A1, st1, wq1, running1, C1)"
      and "gate_pending_chunks Q known (A1, st1, wq1, running1) = (A2, st2, wq2, running2)"
  shows "running2 = [] \<and> wq2 = wq1 \<and> st2 = st1 \<and> ca_pending_load A2 = ca_pending_load A1 \<and> ca_active A2 = ca_active A"
proof -
  obtain B stb where f: "finish_chunk_requests ops (Some (ca_active A)) requests (A, st) = (B, stb)" by (meson surj_pair)
  have "blocked Q (ca_active A) (B, stb, wq, running, C)"
    using finish_window [OF f] assms(2-6) by (auto simp: blocked_def)
  moreover have "window_steps ops Q evs (B, stb, wq, running, C) = (A1, st1, wq1, running1, C1)"
    using assms(8) by (simp add: window_steps_def window_step_def f)
  ultimately have b: "blocked Q (ca_active A) (A1, st1, wq1, running1, C1)"
    using blocked_steps [OF assms(1) _ assms(7), of "(B, stb, wq, running, C)" ops] by simp
  from blocked_gate [OF b assms(9)] show ?thesis by (simp add: blocked_def)
qed

section \<open>A stream whose last chunk was scheduled\<close>

definition left_window :: "string \<Rightarrow> ('v, 'x) chunk_adapter \<Rightarrow> bool" where
  "left_window rid A \<longleftrightarrow> rid \<in> ca_finished A \<and> rid \<notin> set (ca_active A) \<and> rid \<notin> set (ca_waiting A) \<union> set (ca_running A) \<and>
     0 < ca_active_window A \<and> ca_stage_id A \<noteq> 0"

text \<open>Nobody cleans up or finishes the request.\<close>

definition keeps_request :: "string \<Rightarrow> ('v, 'q) window_event \<Rightarrow> bool" where
  "keeps_request rid ev = (case ev of
     Ev_Cleanup r ext \<Rightarrow> r \<noteq> rid
   | Ev_Finish ids requests \<Rightarrow> rid \<notin> set (case ids of None \<Rightarrow> requests | Some l \<Rightarrow> l)
   | _ \<Rightarrow> True)"

lemma left_window_same: "left_window rid A \<Longrightarrow> window_frame A B \<Longrightarrow> ca_active B = ca_active A \<Longrightarrow> ca_finished A \<subseteq> ca_finished B \<Longrightarrow> left_window rid B"
  by (auto simp: left_window_def window_frame_def)

lemma left_window_promote: "left_window rid A \<Longrightarrow> left_window rid (promote_active_streams ids A)"
proof (induction ids arbitrary: A)
  case (Cons r ids)
  define B where "B = promote_active_streams [r] A"
  have "promote_active_streams (r # ids) A = promote_active_streams ids B" by (simp add: promote_active_streams_def B_def)
  moreover have "left_window rid B" using Cons.prems by (auto simp: B_def promote_active_streams_def left_window_def)
  ultimately show ?case using Cons.IH by simp
qed (simp add: promote_active_streams_def)

lemma left_window_purge:
  assumes "left_window rid A"
  shows "left_window rid (purge_parked known A)"
proof -
  let ?B = "purge_parked known A"
  obtain gone where "set gone \<subseteq> set (ca_waiting A) \<union> set (ca_running A)" "ca_active ?B = filter (\<lambda>r. r \<notin> set gone) (ca_active A)"
    "ca_finished ?B = ca_finished A - set gone" "set (ca_waiting ?B) \<subseteq> set (ca_waiting A)"
    "set (ca_running ?B) \<subseteq> set (ca_running A)" "ca_stage_id ?B = ca_stage_id A" "ca_active_window ?B = ca_active_window A"
    using purge_window [of A known] by blast
  with assms show ?thesis by (simp add: left_window_def) blast
qed

lemma remove_other:
  assumes "queue_laws Q" "r \<noteq> rid" "rid \<in> set (q_items Q q)"
  shows "rid \<in> set (q_items Q (q_remove Q r q))"
proof -
  have "rid \<in># mset (q_items Q q) - {#r#}" using assms(2,3) by (simp add: in_diff_count)
  then have "rid \<in># mset (q_items Q (q_remove Q r q))" using law_remove [OF assms(1), where r = r and q = q] by simp
  then show ?thesis by simp
qed

lemma left_window_chunk:
  assumes "queue_laws Q" "left_window rid A" "rid \<notin> set parked"
      and "gate_chunk True Q target r (A, st, q, parked) = (A', st', q', parked')"
  shows "left_window rid A' \<and> rid \<notin> set parked' \<and> (rid \<in> set (q_items Q q) \<longrightarrow> rid \<in> set (q_items Q q'))"
proof -
  have "q' = q \<or> r \<noteq> rid \<and> q' = q_remove Q r q"
    using assms(2,4) by (auto simp: gate_chunk_def ensure_active_stream_def left_window_def Let_def split: if_splits)
  moreover have "left_window rid A' \<and> rid \<notin> set parked'"
    using assms(2-4) by (auto simp: gate_chunk_def ensure_active_stream_def left_window_def load_async_def Let_def split: if_splits)
  ultimately show ?thesis using remove_other [OF assms(1)] by auto
qed

lemma left_window_pass:
  assumes "queue_laws Q" "left_window rid A" "rid \<notin> set parked"
      and "fold (gate_chunk True Q target) rs (A, st, q, parked) = (A', st', q', parked')"
  shows "left_window rid A' \<and> rid \<notin> set parked' \<and> (rid \<in> set (q_items Q q) \<longrightarrow> rid \<in> set (q_items Q q'))"
  using assms(2-4)
proof (induction rs arbitrary: A st q parked)
  case (Cons r rs)
  obtain B sb qb pb where one: "gate_chunk True Q target r (A, st, q, parked) = (B, sb, qb, pb)" by (metis prod_cases4)
  from left_window_chunk [OF assms(1) Cons.prems(1,2) one] Cons.IH [of B pb sb qb] Cons.prems(3) one show ?case by auto
qed simp

lemma left_window_gate:
  assumes "queue_laws Q" "left_window rid A"
      and "gate_pending_chunks Q known (A, st, wq, running) = (A', st', wq', running')"
  shows "left_window rid A' \<and> rid \<notin> set running' \<and> (rid \<in> set running \<longrightarrow> rid \<in> set (ca_held A'))"
proof -
  define A2 where "A2 = promote_active_streams (q_items Q wq) (promote_active_streams running (purge_parked known A))"
  have e2: "left_window rid A2" unfolding A2_def using assms(2) by (intro left_window_promote left_window_purge)
  then have p2: "rid \<notin> set (ca_waiting A2)" by (simp add: left_window_def)
  obtain A3 st3 wq3 w where g1: "process_chunk_queue_bounded Q RS_WAITING (A2, st, wq, ca_waiting A2) = (A3, st3, wq3, w)"
    by (metis prod_cases4)
  have e3: "left_window rid A3" "rid \<notin> set w"
    using left_window_pass [OF assms(1) e2 p2, of RS_WAITING "q_items Q wq" st wq A3 st3 wq3 w] g1 by (auto simp: process_chunk_queue_bounded_def)
  define B where "B = A3\<lparr>ca_waiting := w\<rparr>"
  have eB: "left_window rid B" "rid \<notin> set (ca_running A3)" using e3 by (auto simp: left_window_def B_def)
  obtain A4 st4 run4 r where g2: "process_chunk_queue_bounded running_ops RS_RUNNING (B, st3, running, ca_running A3) = (A4, st4, run4, r)"
    by (metis prod_cases4)
  have e4: "left_window rid A4" "rid \<notin> set r" "rid \<in> set running \<longrightarrow> rid \<in> set run4"
    using left_window_pass [OF running_laws eB, of RS_RUNNING running st3 running A4 st4 run4 r] g2
    by (auto simp: process_chunk_queue_bounded_def running_items)
  define A5 where "A5 = promote_active_streams (q_items Q wq3) (A4\<lparr>ca_running := r\<rparr>)"
  have "left_window rid (A4\<lparr>ca_running := r\<rparr>)" using e4 by (auto simp: left_window_def)
  then have e5: "left_window rid A5" unfolding A5_def by (rule left_window_promote)
  have "ca_active_window (purge_parked known A) \<noteq> 0" "ca_stage_id A \<noteq> 0"
    using left_window_purge [OF assms(2), of known] assms(2) by (auto simp: left_window_def)
  then have "gate_pending_chunks Q known (A, st, wq, running) =
      (A5\<lparr>ca_held := ca_held A5 @ rev (filter (\<lambda>x. x \<notin> set (ca_active A5)) run4)\<rparr>, st4, wq3, filter (\<lambda>x. x \<in> set (ca_active A5)) run4)"
    using g1 [unfolded A2_def] g2 [unfolded B_def]
    by (simp add: gate_pending_chunks_def Let_def A2_def [symmetric] A5_def [symmetric] preempt_non_active_running_def)
  with assms(3) e4(3) e5 show ?thesis by (auto simp: left_window_def)
qed

lemma left_window_step:
  assumes "queue_laws Q" "left_window rid (fst s)" "keeps_request rid ev"
  shows "left_window rid (fst (window_step ops Q ev s))"
proof -
  obtain A st wq running C where s: "s = (A, st, wq, running, C)" by (metis prod_cases5)
  have b: "left_window rid A" using assms(2) s by simp
  show ?thesis
  proof (cases ev)
    case (Ev_Gate known)
    obtain A' st' wq' r' where g: "gate_pending_chunks Q known (A, st, wq, running) = (A', st', wq', r')" by (metis prod_cases4)
    from left_window_gate [OF assms(1) b g] show ?thesis by (simp add: window_step_def s Ev_Gate g)
  next
    case (Ev_Restore known)
    obtain A' wq' r' where g: "restore_chunk_queues Q known (A, wq, running) = (A', wq', r')" by (metis prod_cases3)
    from restore_members [OF assms(1) g] left_window_purge [OF b, of known] b show ?thesis
      by (auto simp: window_step_def s Ev_Restore g left_window_def)
  next
    case (Ev_Output requests new cached)
    obtain out A' st' where g: "postprocess_chunk_output requests new cached (A, st) = (out, A', st')" by (metis prod_cases3)
    from output_window [OF g] b show ?thesis by (auto simp: window_step_def s Ev_Output g left_window_def window_frame_def)
  next
    case (Ev_Receive ok)
    obtain A' st' C' where g: "recv_step ops ok (A, st, C) = (A', st', C')" by (metis prod_cases3)
    from recv_window [OF g] left_window_same [OF b] show ?thesis by (auto simp: window_step_def s Ev_Receive g)
  next
    case (Ev_Finish ids requests)
    obtain A' st' where g: "finish_chunk_requests ops ids requests (A, st) = (A', st')" by (meson surj_pair)
    from finish_window [OF g] b assms(3) show ?thesis
      by (auto simp: window_step_def s Ev_Finish g left_window_def keeps_request_def)
  next
    case (Ev_Cleanup r ext)
    with cleanup_window(2) [of r ext A] b assms(3) show ?thesis
      by (auto simp: window_step_def s left_window_def window_frame_def keeps_request_def)
  qed (use b in \<open>auto simp: window_step_def s\<close>)
qed

lemma left_window_steps:
  "queue_laws Q \<Longrightarrow> left_window rid (fst s) \<Longrightarrow> \<forall>ev \<in> set evs. keeps_request rid ev \<Longrightarrow> left_window rid (fst (window_steps ops Q evs s))"
  unfolding window_steps_def by (induction evs arbitrary: s) (simp_all add: left_window_step)

text \<open>
  C31: With the window on, a stream runs at most once after its last chunk arrived.  Once a request whose
  last chunk has been received appears in the output of a scheduling step, every later step of the gate
  takes it off the running list and holds it, as long as nobody finishes it or cleans it up.
\<close>

theorem finished_stream_never_runs_again:
  assumes "queue_laws Q" "ca_stage_id A \<noteq> 0" "0 < ca_active_window A"
      and "rid \<in> ca_finished A" "rid \<notin> set (ca_waiting A) \<union> set (ca_running A)" "rid \<noteq> []" "rid \<in> set (new @ cached)"
      and "\<forall>ev \<in> set evs. keeps_request rid ev"
      and "window_steps ops Q (Ev_Output requests new cached # evs) (A, st, wq, running, C) = (A1, st1, wq1, running1, C1)"
      and "gate_pending_chunks Q known (A1, st1, wq1, running1) = (A2, st2, wq2, running2)"
  shows "rid \<notin> set running2 \<and> (rid \<in> set running1 \<longrightarrow> rid \<in> set (ca_held A2))"
proof -
  obtain out B stb where f: "postprocess_chunk_output requests new cached (A, st) = (out, B, stb)" by (metis prod_cases3)
  have "left_window rid B" using output_window [OF f] assms(2-7) by (auto simp: left_window_def window_frame_def)
  moreover have "window_steps ops Q evs (B, stb, wq, running, C) = (A1, st1, wq1, running1, C1)"
    using assms(9) by (simp add: window_steps_def window_step_def f)
  ultimately have "left_window rid A1"
    using left_window_steps [OF assms(1) _ assms(8), of "(B, stb, wq, running, C)" ops] by simp
  from left_window_gate [OF assms(1) this assms(10)] show ?thesis by simp
qed

section \<open>Witnesses\<close>

definition small_adapter :: "(int, unit) chunk_adapter" where
  "small_adapter = new_chunk_adapter 1 8 1 True"

definition stream_requests :: "int stream_store" where
  "stream_requests = (\<lambda>_. \<lparr>sq_external = ''e'', sq_status = RS_RUNNING, sq_resumable = False, sq_num_computed = 0,
     sq_num_placeholders = 0, sq_prompt = [], sq_num_prompt = 0, sq_all = [], sq_output = [], sq_info = None\<rparr>)"

definition sample_chunk_ops :: "int chunk_ops" where
  "sample_chunk_ops = \<lparr>co_true = (\<lambda>v. v = Atom 1), co_flag = (\<lambda>b. if b then 1 else 0),
     co_codes = (\<lambda>v. Code_Ids []), co_ids = (\<lambda>v. []), co_finished = (\<lambda>s. \<exists>n \<in> {1..9}. s = RS_OTHER n)\<rparr>"

lemmas sample_simps = small_adapter_def stream_requests_def new_chunk_adapter_def running_items

definition sample_window :: "(int, unit) chunk_adapter \<times> int stream_store \<times> string list \<times> string list" where
  "sample_window = gate_pending_chunks running_ops (Some {''a'', ''b''}) (small_adapter, stream_requests, [''b''], [''a''])"

lemma active_window_exact_witness:
  "length (ca_active (fst sample_window)) \<le> 1 \<and>
   (''a'' \<in> set (ca_waiting (fst sample_window) @ ca_running (fst sample_window)) \<longleftrightarrow> ''a'' \<in> set (ca_active (fst sample_window)))"
proof -
  obtain A' st' wq' r' where g: "sample_window = (A', st', wq', r')" by (metis prod_cases4)
  obtain A'' wq'' r'' where r: "restore_chunk_queues running_ops (Some {''a'', ''b''}) (A', wq', r') = (A'', wq'', r'')"
    by (metis prod_cases3)
  have "\<not> served small_adapter stream_requests ''a''"
    by (simp add: served_def is_done_receiving_chunks_def sample_simps)
  with active_window_exact [OF running_laws _ _ _ _ _ _ _ _ g [unfolded sample_window_def] r] show ?thesis
    by (simp add: g sample_simps)
qed

definition aborted_run :: "(int, unit, string list) window_state" where
  "aborted_run = window_steps sample_chunk_ops running_ops
     (Ev_Finish (Some (ca_active (small_adapter\<lparr>ca_active := [''x'']\<rparr>))) [] # [Ev_Schedule stream_requests [''b''] [''a'']])
     (small_adapter\<lparr>ca_active := [''x'']\<rparr>, stream_requests, [], [], [])"

lemma aborted_streams_block_window_witness:
  "case aborted_run of (A, st, wq, running, C) \<Rightarrow> running = [''a''] \<and>
     snd (snd (snd (gate_pending_chunks running_ops None (A, st, wq, running)))) = []"
proof -
  obtain A1 st1 wq1 running1 C1 where run: "aborted_run = (A1, st1, wq1, running1, C1)" by (metis prod_cases5)
  obtain A2 st2 wq2 running2 where g: "gate_pending_chunks running_ops None (A1, st1, wq1, running1) = (A2, st2, wq2, running2)"
    by (metis prod_cases4)
  have r1: "running1 = [''a'']"
    using run by (auto simp: aborted_run_def window_steps_def window_step_def split: prod.splits)
  have "running2 = []"
    using aborted_streams_block_window [OF running_laws _ _ _ _ _ _ run [unfolded aborted_run_def] g]
    by (simp add: sample_simps leaves_alone_def)
  then show ?thesis using g [unfolded r1] by (simp add: run r1)
qed

definition finished_run :: "(int, unit, string list) window_state" where
  "finished_run = window_steps sample_chunk_ops running_ops (Ev_Output None [] [''x''] # [Ev_Receive True])
     (small_adapter\<lparr>ca_active := [''x''], ca_finished := {''x''}\<rparr>, stream_requests, [], [''x''], [])"

lemma finished_stream_never_runs_again_witness:
  "case finished_run of (A, st, wq, running, C) \<Rightarrow> running = [''x''] \<and>
     ''x'' \<notin> set (snd (snd (snd (gate_pending_chunks running_ops None (A, st, wq, running)))))"
proof -
  obtain A1 st1 wq1 running1 C1 where run: "finished_run = (A1, st1, wq1, running1, C1)" by (metis prod_cases5)
  obtain A2 st2 wq2 running2 where g: "gate_pending_chunks running_ops None (A1, st1, wq1, running1) = (A2, st2, wq2, running2)"
    by (metis prod_cases4)
  have r1: "running1 = [''x'']"
    using run by (auto simp: finished_run_def window_steps_def window_step_def split: prod.splits)
  have "''x'' \<notin> set running2"
    using finished_stream_never_runs_again [OF running_laws _ _ _ _ _ _ _ run [unfolded finished_run_def] g]
    by (simp add: sample_simps keeps_request_def)
  then show ?thesis using g [unfolded r1] by (simp add: run r1)
qed

end
