(* ===== verification/Chunk_Stream.thy ===== *)
theory Chunk_Stream
  imports Chunk_Window
begin

text \<open>
  One stream of chunks between two stages: the save loop of the sending adapter, the receive loop of the
  next one and the connector between them, interleaved in any order, with failing puts and gets.  The
  connector is addressed by key; a put under a key replaces what is there and a get takes it away, as the
  shared memory connector (\<^verbatim>\<open>connectors/shm_connector.py\<close>) and its helpers in \<^verbatim>\<open>stage_utils.py\<close> do.
\<close>

section \<open>Keys\<close>

lemma underscore_split:
  assumes "x @ CHR ''_'' # s = y @ CHR ''_'' # t" "CHR ''_'' \<notin> set s" "CHR ''_'' \<notin> set t"
  shows "x = y \<and> s = t"
proof -
  have "takeWhile (\<lambda>c. c \<noteq> CHR ''_'') (rev s @ CHR ''_'' # rev x) = takeWhile (\<lambda>c. c \<noteq> CHR ''_'') (rev t @ CHR ''_'' # rev y)"
    using arg_cong [OF assms(1), of rev] by simp
  moreover have "takeWhile (\<lambda>c. c \<noteq> CHR ''_'') (rev u @ CHR ''_'' # v) = rev u" if "CHR ''_'' \<notin> set u" for u v
    using that by (subst takeWhile_append2) auto
  ultimately have "rev s = rev t" using assms(2,3) by simp
  with assms(1) show ?thesis by simp
qed

lemma str_nat_plain: "CHR ''_'' \<notin> set (str_nat n)"
proof -
  have "digit_of (CHR ''_'') = None" by (simp add: digit_of_def)
  then have "digit_char d \<noteq> CHR ''_''" if "d < 10" for d using digit_of_char [OF that] by auto
  then show ?thesis using str_nat_digits [of n] by force
qed

lemma chunk_key_inject: "chunk_key e s i = chunk_key f s j \<longleftrightarrow> e = f \<and> i = j"
  using underscore_split [of "e @ ''_'' @ str_int s" "str_nat i" "f @ ''_'' @ str_int s" "str_nat j"]
  by (auto simp: chunk_key_def str_nat_plain str_nat_inject)

section \<open>The link\<close>

text \<open>
  The requests of the sender come with the event that saves them; the last chunk of a stream is saved when
  its request is finished and cannot be resumed.
\<close>

datatype 'v link_event =
    Lk_Save "'v payload option" string "'v stream_req" bool | Lk_Send bool | Lk_Load string | Lk_Poll bool

text \<open>
  The state: sender, receiver, the receiver's requests, the connector, and for one stream the chunks the
  connector accepted and those the receiver took.
\<close>

type_synonym ('v, 'x) link_state =
  "('v, 'x) chunk_adapter \<times> ('v, 'x) chunk_adapter \<times> 'v stream_store \<times> 'v connector \<times> 'v payload list \<times> 'v payload list"

definition sent_by ::
  "'v chunk_ops \<Rightarrow> ('v, 'x) processor option \<Rightarrow> bool \<Rightarrow> string \<Rightarrow> ('v, 'x) chunk_adapter \<Rightarrow> 'v payload list" where
  "sent_by ops proc ok ext S =
     (case ca_pending_save S of
        [] \<Rightarrow> []
      | tk # tks \<Rightarrow>
          (case fst (chunk_to_send ops proc tk (S\<lparr>ca_pending_save := tks\<rparr>)) of
             Inr (Some p) \<Rightarrow> if ok \<and> tk_external tk = ext then [p] else []
           | _ \<Rightarrow> []))"

definition taken_by :: "bool \<Rightarrow> string \<Rightarrow> ('v, 'x) chunk_adapter \<Rightarrow> 'v stream_store \<Rightarrow> 'v connector \<Rightarrow> 'v payload list" where
  "taken_by ok rid R st C =
     (case ca_pending_load R of
        [] \<Rightarrow> []
      | r # rs \<Rightarrow>
          if r = rid \<and> r \<notin> ca_cancelled_load R
          then (case fst (fetch_chunk ok r (R\<lparr>ca_ids := dict_set r (sq_external (st r)) (ca_ids R)\<rparr>) C) of
                  Some p \<Rightarrow> [p] | None \<Rightarrow> [])
          else [])"

definition link_step ::
  "'v chunk_ops \<Rightarrow> ('v, 'x) processor option \<Rightarrow> string \<Rightarrow> string \<Rightarrow> 'v link_event \<Rightarrow> ('v, 'x) link_state \<Rightarrow> ('v, 'x) link_state" where
  "link_step ops proc ext rid ev = (\<lambda>(S, R, st, C, sent, got).
     case ev of
       Lk_Save mm q r seg \<Rightarrow> (save_async ops mm q r seg S, R, st, C, sent, got)
     | Lk_Send ok \<Rightarrow> (case save_step ops proc ok (S, C) of (S', C') \<Rightarrow> (S', R, st, C', sent @ sent_by ops proc ok ext S, got))
     | Lk_Load r \<Rightarrow> (S, load_async r R, st, C, sent, got)
     | Lk_Poll ok \<Rightarrow> (case recv_step ops ok (R, st, C) of
         (R', st', C') \<Rightarrow> (S, R', st', C', sent, got @ taken_by ok rid R st C)))"

definition link_run ::
  "'v chunk_ops \<Rightarrow> ('v, 'x) processor option \<Rightarrow> string \<Rightarrow> string \<Rightarrow> 'v link_event list \<Rightarrow> ('v, 'x) link_state \<Rightarrow> ('v, 'x) link_state" where
  "link_run ops proc ext rid evs s = fold (link_step ops proc ext rid) evs s"

text \<open>A stream ends once: nothing is saved for it after its last chunk.\<close>

definition saves :: "string \<Rightarrow> 'v link_event \<Rightarrow> bool" where
  "saves ext ev = (case ev of Lk_Save mm q r seg \<Rightarrow> sq_external r = ext | _ \<Rightarrow> False)"

fun ends_once :: "'v chunk_ops \<Rightarrow> string \<Rightarrow> 'v link_event list \<Rightarrow> bool" where
  "ends_once ops ext [] = True"
| "ends_once ops ext (ev # evs) =
     ((case ev of
         Lk_Save mm q r seg \<Rightarrow> sq_external r = ext \<and> co_finished ops (sq_status r) \<and> \<not> sq_resumable r \<longrightarrow>
           (\<forall>e \<in> set evs. \<not> saves ext e)
       | _ \<Rightarrow> True) \<and> ends_once ops ext evs)"

text \<open>A boolean tensor of one element is true when it was made from true.\<close>

definition flags_ok :: "'v chunk_ops \<Rightarrow> bool" where
  "flags_ok ops \<longleftrightarrow> (\<forall>b. co_true ops (Atom (co_flag ops b)) = b)"

section \<open>What a turn of each loop does to the stream\<close>

lemma construct_external:
  "construct_next_stage_streaming_input_prompt ops p r = (res, r') \<Longrightarrow> sq_external r' = sq_external r \<and> sq_info r' = sq_info r"
  by (auto simp: construct_next_stage_streaming_input_prompt_def Let_def
      split: option.splits pv.splits if_splits sum.splits)

lemma receive_stream:
  "receive_ar ops rid n p f g (A, r) = (res, B, r') \<Longrightarrow>
     ca_get_chunk B = ca_get_chunk A \<and> ca_stage_id B = ca_stage_id A \<and> sq_external r' = sq_external r \<and> sq_info r' = Some p"
  "receive_generation ops rid p f g (A, r) = (res, B, r') \<Longrightarrow>
     ca_get_chunk B = ca_get_chunk A \<and> ca_stage_id B = ca_stage_id A \<and> sq_external r' = sq_external r"
  by (auto simp: receive_ar_def receive_generation_def mark_received_def Let_def
      split: sum.splits option.splits pv.splits prod.splits if_splits codes_view.splits dest!: construct_external)

lemma count_set [simp]: "count_of k (dict_set j n d) = (if k = j then n else count_of k d)"
  by (simp add: count_of_def dict_simps)

lemma count_del [simp]: "count_of k (dict_del j d) = (if k = j then 0 else count_of k d)"
  by (simp add: count_of_def dict_simps)

lemma poll_stream:
  assumes "poll_single_request ops ok r (A, st, C) = (res, B, st', C')" "fetch_chunk ok r A C = (p, C1)"
  shows "C' = C1 \<and> ca_stage_id B = ca_stage_id A \<and> (\<forall>x. sq_external (st' x) = sq_external (st x)) \<and>
     (\<forall>x. count_of x (ca_get_chunk B) = count_of x (ca_get_chunk A) + (if x = r \<and> p \<noteq> None \<and> p \<noteq> Some [] then 1 else 0)) \<and>
     (\<forall>q d. p = Some q \<and> dict_get q ''meta'' = Some (PDict d) \<and> ca_ar_mode A \<longrightarrow> sq_info (st' r) = p)"
proof (cases "p = None \<or> p = Some []")
  case True
  then show ?thesis using assms by (auto simp: poll_single_request_def Let_def)
next
  case False
  then obtain x xs where p: "p = Some (x # xs)" by (cases p) (auto simp: neq_Nil_conv)
  show ?thesis
    using assms p
    by (auto simp: poll_single_request_def Let_def simp del: fun_upd_apply
        split: option.splits pv.splits prod.splits if_splits dest!: receive_stream) (auto split: if_splits)
qed

lemma chunk_shape:
  assumes "chunk_to_send ops proc tk A = (res, B)"
  shows "ca_pending_save B = ca_pending_save A \<and> ca_stage_id B = ca_stage_id A \<and>
     (\<forall>x. count_of x (ca_put_chunk B) = count_of x (ca_put_chunk A)) \<and>
     (\<forall>p. res = Inr (Some p) \<longrightarrow> p \<noteq> [] \<and> (\<exists>d. dict_get p ''meta'' = Some (PDict d)))"
proof -
  have "set_flags ops f g q \<noteq> [] \<and> (\<exists>d. dict_get (set_flags ops f g q) ''meta'' = Some (PDict d))" for f g q
    by (cases q) (auto simp: set_flags_def dict_simps)
  then show ?thesis
    using assms by (auto simp: chunk_to_send_def Let_def split: sum.splits option.splits prod.splits if_splits)
qed

lemma cleanup_put:
  "count_of x (ca_put_chunk (cleanup q (Some e) A)) = (if x = e then 0 else count_of x (ca_put_chunk A)) \<and>
     ca_pending_save (cleanup q (Some e) A) = ca_pending_save A \<and> ca_stage_id (cleanup q (Some e) A) = ca_stage_id A"
  by (simp add: cleanup_def cleanup_sender_def cleanup_receiver_def evict_finished_active_streams_def Let_def)

lemma send_stream:
  assumes "flags_ok ops" "save_step ops proc ok (S, C) = (S', C')" "ca_pending_save S = tk # tks"
  shows "ca_pending_save S' = tks \<and> ca_stage_id S' = ca_stage_id S \<and>
     (sent_by ops proc ok ext S = [] \<and> count_of ext (ca_put_chunk S') = count_of ext (ca_put_chunk S) \<and>
        (\<forall>i. dict_get C' (chunk_key ext (ca_stage_id S) i) = dict_get C (chunk_key ext (ca_stage_id S) i)) \<or>
      tk_external tk = ext \<and>
        (\<exists>p d. sent_by ops proc ok ext S = [p] \<and> p \<noteq> [] \<and> dict_get p ''meta'' = Some (PDict d) \<and>
          C' = dict_set (chunk_key ext (ca_stage_id S) (count_of ext (ca_put_chunk S))) p C \<and>
          count_of ext (ca_put_chunk S') = (if tk_is_finished tk then 0 else count_of ext (ca_put_chunk S) + 1)))"
proof -
  obtain res B where c: "chunk_to_send ops proc tk (S\<lparr>ca_pending_save := tks\<rparr>) = (res, B)" by (meson surj_pair)
  note sh = chunk_shape [OF c]
  have f: "co_true ops (Atom (co_flag ops b)) = b" for b using assms(1) by (simp add: flags_ok_def)
  show ?thesis
  proof (cases "\<exists>p. res = Inr (Some p)")
    case False
    then show ?thesis
      using assms(2,3) c sh
      by (auto simp: save_step_def send_single_request_def sent_by_def split: sum.splits option.splits)
  next
    case True
    then obtain p where r: "res = Inr (Some p)" by blast
    show ?thesis
      using assms(2,3) c sh r
      by (auto simp: save_step_def send_single_request_def sent_by_def f cleanup_put dict_simps chunk_key_inject Let_def)
  qed
qed

lemma recv_stream:
  assumes "recv_step ops ok (R, st, C) = (R', st', C')" "\<forall>x. sq_external (st x) = ext \<longleftrightarrow> x = rid"
  defines "key \<equiv> chunk_key ext (ca_stage_id R - 1)"
  defines "n \<equiv> count_of rid (ca_get_chunk R)"
  shows "ca_stage_id R' = ca_stage_id R \<and> (\<forall>x. sq_external (st' x) = sq_external (st x)) \<and>
     (taken_by ok rid R st C = [] \<and> count_of rid (ca_get_chunk R') = n \<and> (\<forall>i. dict_get C' (key i) = dict_get C (key i)) \<or>
      (\<exists>p. taken_by ok rid R st C = [p] \<and> dict_get C (key n) = Some p \<and> C' = dict_del (key n) C \<and>
         count_of rid (ca_get_chunk R') = (if p = [] then n else n + 1) \<and>
         (\<forall>d. dict_get p ''meta'' = Some (PDict d) \<and> ca_ar_mode R \<longrightarrow> sq_info (st' rid) = Some p)))"
proof (cases "ca_pending_load R")
  case Nil
  then show ?thesis using assms(1) by (auto simp: recv_step_def taken_by_def n_def)
next
  case (Cons r rs)
  show ?thesis
  proof (cases "r \<in> ca_cancelled_load R")
    case True
    then show ?thesis using assms(1) Cons by (auto simp: recv_step_def taken_by_def n_def)
  next
    case False
    define A where "A = R\<lparr>ca_pending_load := rs, ca_ids := dict_set r (sq_external (st r)) (ca_ids R)\<rparr>"
    obtain res B stb Cb where po: "poll_single_request ops ok r (A, st, C) = (res, B, stb, Cb)" by (metis prod_cases4)
    obtain p C1 where fe: "fetch_chunk ok r A C = (p, C1)" by (meson surj_pair)
    note ps = poll_stream [OF po fe]
    have st: "st' = stb" "C' = Cb" "ca_get_chunk R' = ca_get_chunk B" "ca_stage_id R' = ca_stage_id B"
      using assms(1) Cons False po [unfolded A_def] by (auto simp: recv_step_def Let_def split: if_splits)
    have ids: "dict_get (ca_ids A) r = Some (sq_external (st r))" by (simp add: A_def dict_simps)
    let ?k = "chunk_key (sq_external (st r)) (ca_stage_id R - 1) (count_of r (ca_get_chunk R))"
    have fe': "(p, C1) = (if ok then (dict_get C ?k, dict_del ?k C) else (None, C))"
      using fe ids by (auto simp: fetch_chunk_def A_def Let_def split: if_splits)
    have "fst (fetch_chunk ok r (R\<lparr>ca_ids := dict_set r (sq_external (st r)) (ca_ids R)\<rparr>) C) = p"
      using fe' by (auto simp: fetch_chunk_def dict_simps Let_def split: if_splits)
    then have tb: "taken_by ok rid R st C = (if r = rid then (case p of None \<Rightarrow> [] | Some q \<Rightarrow> [q]) else [])"
      using Cons False by (cases "r = rid") (simp_all add: taken_by_def)
    show ?thesis
    proof (cases "r = rid")
      case True
      then have ext: "sq_external (st r) = ext" using assms(2) by simp
      have "ca_ar_mode A = ca_ar_mode R" by (simp add: A_def)
      then show ?thesis
        using ps st tb True ext fe' by (auto simp: key_def n_def A_def dict_simps split: if_splits option.splits)
    next
      case False
      then have "sq_external (st r) \<noteq> ext" using assms(2) by simp
      then have "dict_get C1 (key i) = dict_get C (key i)" for i
        using fe' by (auto simp: key_def dict_simps chunk_key_inject split: if_splits)
      then show ?thesis using ps st tb False by (simp add: n_def A_def)
    qed
  qed
qed

section \<open>Chunks arrive in order\<close>

definition quiet :: "string \<Rightarrow> 'v link_event list \<Rightarrow> bool" where
  "quiet ext evs \<longleftrightarrow> (\<forall>e \<in> set evs. \<not> saves ext e)"

definition tasks_of :: "string \<Rightarrow> ('v, 'x) chunk_adapter \<Rightarrow> 'v send_task list" where
  "tasks_of ext S = filter (\<lambda>tk. tk_external tk = ext) (ca_pending_save S)"

text \<open>
  The connector holds exactly the chunks that were accepted and not taken, under their numbers; the sender's
  counter is right as long as something may still be sent.
\<close>

definition link_inv :: "'v chunk_ops \<Rightarrow> string \<Rightarrow> string \<Rightarrow> 'v link_event list \<Rightarrow> ('v, 'x) link_state \<Rightarrow> bool" where
  "link_inv ops ext rid evs = (\<lambda>(S, R, st, C, sent, got).
     ca_stage_id R = ca_stage_id S + 1 \<and> (\<forall>x. sq_external (st x) = ext \<longleftrightarrow> x = rid) \<and>
     take (length got) sent = got \<and> length got \<le> length sent \<and>
     (\<forall>p \<in> set sent. p \<noteq> [] \<and> (\<exists>d. dict_get p ''meta'' = Some (PDict d))) \<and>
     count_of rid (ca_get_chunk R) = length got \<and>
     (\<forall>i. dict_get C (chunk_key ext (ca_stage_id S) i) =
        (if length got \<le> i \<and> i < length sent then Some (sent ! i) else None)) \<and>
     (count_of ext (ca_put_chunk S) = length sent \<or> tasks_of ext S = [] \<and> quiet ext evs) \<and>
     (\<forall>tk \<in> set (butlast (tasks_of ext S)). \<not> tk_is_finished tk) \<and>
     ((\<exists>tk \<in> set (tasks_of ext S). tk_is_finished tk) \<longrightarrow> quiet ext evs) \<and> ends_once ops ext evs)"

lemma link_invI:
  assumes "ca_stage_id R = ca_stage_id S + 1" "\<And>x. sq_external (st x) = ext \<longleftrightarrow> x = rid"
      and "take (length got) sent = got" "length got \<le> length sent"
      and "\<forall>p \<in> set sent. p \<noteq> [] \<and> (\<exists>d. dict_get p ''meta'' = Some (PDict d))"
      and "count_of rid (ca_get_chunk R) = length got"
      and "\<And>i. dict_get C (chunk_key ext (ca_stage_id S) i) =
        (if length got \<le> i \<and> i < length sent then Some (sent ! i) else None)"
      and "count_of ext (ca_put_chunk S) = length sent \<or> tasks_of ext S = [] \<and> quiet ext evs"
      and "\<forall>tk \<in> set (butlast (tasks_of ext S)). \<not> tk_is_finished tk"
      and "(\<exists>tk \<in> set (tasks_of ext S). tk_is_finished tk) \<longrightarrow> quiet ext evs" "ends_once ops ext evs"
  shows "link_inv ops ext rid evs (S, R, st, C, sent, got)"
  using assms by (simp add: link_inv_def)

lemma link_invD:
  assumes "link_inv ops ext rid evs (S, R, st, C, sent, got)"
  shows "ca_stage_id R = ca_stage_id S + 1" "\<And>x. sq_external (st x) = ext \<longleftrightarrow> x = rid"
      "take (length got) sent = got" "length got \<le> length sent"
      "\<forall>p \<in> set sent. p \<noteq> [] \<and> (\<exists>d. dict_get p ''meta'' = Some (PDict d))"
      "count_of rid (ca_get_chunk R) = length got"
      "\<And>i. dict_get C (chunk_key ext (ca_stage_id S) i) =
        (if length got \<le> i \<and> i < length sent then Some (sent ! i) else None)"
      "count_of ext (ca_put_chunk S) = length sent \<or> tasks_of ext S = [] \<and> quiet ext evs"
      "\<forall>tk \<in> set (butlast (tasks_of ext S)). \<not> tk_is_finished tk"
      "(\<exists>tk \<in> set (tasks_of ext S). tk_is_finished tk) \<longrightarrow> quiet ext evs" "ends_once ops ext evs"
  using assms by (simp_all add: link_inv_def)

lemma quiet_Cons: "quiet ext (e # evs) \<longleftrightarrow> \<not> saves ext e \<and> quiet ext evs"
  by (simp add: quiet_def)

lemma link_save:
  assumes "link_inv ops ext rid (Lk_Save mm q r seg # evs) (S, R, st, C, sent, got)"
  shows "link_inv ops ext rid evs (save_async ops mm q r seg S, R, st, C, sent, got)"
proof (cases "confirmed_num_computed_tokens r < count_of (sq_external r) (ca_chunks_sent S)")
  case True
  then have "save_async ops mm q r seg S = S" by (simp add: save_async_def Let_def)
  with assms show ?thesis by (auto simp: link_inv_def quiet_Cons)
next
  case False
  define tk :: "'a send_task" where "tk = \<lparr>tk_multimodal = mm, tk_request = q, tk_external = sq_external r,
    tk_is_finished = (co_finished ops (sq_status r) \<and> \<not> sq_resumable r), tk_is_segment_finished = seg\<rparr>"
  define S' where "S' = save_async ops mm q r seg S"
  have S': "ca_pending_save S' = ca_pending_save S @ [tk]" "ca_stage_id S' = ca_stage_id S" "ca_put_chunk S' = ca_put_chunk S"
    using False by (simp_all add: S'_def save_async_def tk_def Let_def)
  have t: "tasks_of ext S' = tasks_of ext S @ (if sq_external r = ext then [tk] else [])"
    by (simp add: tasks_of_def S'(1)) (simp add: tk_def)
  show ?thesis
  proof (cases "sq_external r = ext")
    case True
    then have "\<not> quiet ext (Lk_Save mm q r seg # evs)" by (simp add: quiet_def saves_def)
    moreover have "tk_is_finished tk \<longrightarrow> quiet ext evs" using assms True by (simp add: link_inv_def tk_def quiet_def)
    ultimately show ?thesis using assms t True S' unfolding S'_def [symmetric] by (auto simp: link_inv_def butlast_append)
  next
    case False
    with assms t S' show ?thesis unfolding S'_def [symmetric] by (auto simp: link_inv_def quiet_Cons)
  qed
qed

lemma nth_snoc_window:
  "(if l \<le> i \<and> i < length (xs @ [p]) then Some ((xs @ [p]) ! i) else None) =
     (if i = length xs \<and> l \<le> i then Some p else if l \<le> i \<and> i < length xs then Some (xs ! i) else None)"
  by (auto simp: nth_append)

lemma link_send:
  assumes "flags_ok ops" "link_inv ops ext rid (Lk_Send ok # evs) (S, R, st, C, sent, got)"
      and "save_step ops proc ok (S, C) = (S', C')"
  shows "link_inv ops ext rid evs (S', R, st, C', sent @ sent_by ops proc ok ext S, got)"
proof (cases "ca_pending_save S")
  case Nil
  with assms show ?thesis by (auto simp: save_step_def sent_by_def link_inv_def quiet_Cons)
next
  case (Cons tk tks)
  note s = send_stream [OF assms(1,3) Cons, of ext]
  have t: "tasks_of ext S = (if tk_external tk = ext then [tk] else []) @ tasks_of ext S'"
    using s Cons by (simp add: tasks_of_def)
  show ?thesis
  proof (cases "sent_by ops proc ok ext S = []")
    case True
    have "set (butlast (tasks_of ext S')) \<subseteq> set (butlast (tasks_of ext S))"
      using t by (cases "tasks_of ext S'") auto
    with True s t assms(2) show ?thesis by (auto simp: link_inv_def quiet_Cons)
  next
    case False
    with s obtain p d where p: "sent_by ops proc ok ext S = [p]" "p \<noteq> []" "dict_get p ''meta'' = Some (PDict d)"
      and e: "tk_external tk = ext"
      and C': "C' = dict_set (chunk_key ext (ca_stage_id S) (count_of ext (ca_put_chunk S))) p C"
      and n: "count_of ext (ca_put_chunk S') = (if tk_is_finished tk then 0 else count_of ext (ca_put_chunk S) + 1)"
      by auto
    have t': "tasks_of ext S = tk # tasks_of ext S'" using t e by simp
    have sid: "ca_stage_id S' = ca_stage_id S" using s by blast
    note i = link_invD [OF assms(2)]
    have cnt: "count_of ext (ca_put_chunk S) = length sent" using i(8) t' by simp
    have over: "tasks_of ext S' = [] \<and> quiet ext evs" if "tk_is_finished tk"
    proof (cases "tasks_of ext S'")
      case Nil
      then show ?thesis using i(10) t' that by (simp add: quiet_Cons)
    next
      case (Cons x xs)
      then show ?thesis using i(9) t' that by simp
    qed
    have keys: "dict_get C' (chunk_key ext (ca_stage_id S) k) =
        (if length got \<le> k \<and> k < length (sent @ [p]) then Some ((sent @ [p]) ! k) else None)" for k
      unfolding nth_snoc_window C' cnt using i(4) i(7) [of k] by (simp add: dict_simps chunk_key_inject)
    have bl: "set (butlast (tasks_of ext S')) \<subseteq> set (butlast (tasks_of ext S))"
      unfolding t' by (cases "tasks_of ext S'") auto
    show ?thesis
    proof (rule link_invI)
      show "ca_stage_id R = ca_stage_id S' + 1" using i(1) sid by simp
      show "take (length got) (sent @ sent_by ops proc ok ext S) = got" using i(3,4) by simp
      show "length got \<le> length (sent @ sent_by ops proc ok ext S)" using i(4) by simp
      show "\<forall>q \<in> set (sent @ sent_by ops proc ok ext S). q \<noteq> [] \<and> (\<exists>d. dict_get q ''meta'' = Some (PDict d))"
        using i(5) p by auto
      show "dict_get C' (chunk_key ext (ca_stage_id S') k) = (if length got \<le> k \<and> k < length (sent @ sent_by ops proc ok ext S)
          then Some ((sent @ sent_by ops proc ok ext S) ! k) else None)" for k
        unfolding sid p(1) by (rule keys)
      show "count_of ext (ca_put_chunk S') = length (sent @ sent_by ops proc ok ext S) \<or> tasks_of ext S' = [] \<and> quiet ext evs"
        using n cnt over p(1) by (cases "tk_is_finished tk") simp_all
      show "\<forall>tk \<in> set (butlast (tasks_of ext S')). \<not> tk_is_finished tk" using i(9) bl by blast
      show "(\<exists>tk \<in> set (tasks_of ext S'). tk_is_finished tk) \<longrightarrow> quiet ext evs" using i(10) t' by (auto simp: quiet_Cons)
      show "ends_once ops ext evs" using i(11) by simp
    qed (use i(2,6) in simp_all)
  qed
qed

lemma link_poll:
  assumes "link_inv ops ext rid (Lk_Poll ok # evs) (S, R, st, C, sent, got)"
      and "recv_step ops ok (R, st, C) = (R', st', C')"
  shows "link_inv ops ext rid evs (S, R', st', C', sent, got @ taken_by ok rid R st C)"
proof -
  have ext: "\<forall>x. sq_external (st x) = ext \<longleftrightarrow> x = rid" using assms(1) by (simp add: link_inv_def)
  note r = recv_stream [OF assms(2) ext]
  show ?thesis
  proof (cases "taken_by ok rid R st C = []")
    case True
    with r assms(1) show ?thesis by (auto simp: link_inv_def quiet_Cons)
  next
    case False
    with r obtain p where p: "taken_by ok rid R st C = [p]" "dict_get C (chunk_key ext (ca_stage_id R - 1) (count_of rid (ca_get_chunk R))) = Some p"
        "C' = dict_del (chunk_key ext (ca_stage_id R - 1) (count_of rid (ca_get_chunk R))) C"
        "count_of rid (ca_get_chunk R') = (if p = [] then count_of rid (ca_get_chunk R) else count_of rid (ca_get_chunk R) + 1)"
      by auto
    note i = link_invD [OF assms(1)]
    have k: "chunk_key ext (ca_stage_id R - 1) = chunk_key ext (ca_stage_id S)" using i(1) by simp
    have l: "length got < length sent \<and> sent ! length got = p"
      using p(2) i(7) [of "length got"] unfolding k i(6) by (simp split: if_splits)
    then have "p \<in> set sent" by auto
    then have ne: "p \<noteq> []" using i(5) by blast
    show ?thesis
    proof (rule link_invI)
      show "ca_stage_id R' = ca_stage_id S + 1" using r i(1) by simp
      show "sq_external (st' x) = ext \<longleftrightarrow> x = rid" for x using r i(2) by simp
      show "take (length (got @ taken_by ok rid R st C)) sent = got @ taken_by ok rid R st C"
        using l i(3) take_Suc_conv_app_nth [of "length got" sent] by (simp add: p(1))
      show "length (got @ taken_by ok rid R st C) \<le> length sent" using l by (simp add: p(1))
      show "count_of rid (ca_get_chunk R') = length (got @ taken_by ok rid R st C)" using p ne i(6) by simp
      show "dict_get C' (chunk_key ext (ca_stage_id S) j) = (if length (got @ taken_by ok rid R st C) \<le> j \<and> j < length sent
          then Some (sent ! j) else None)" for j
        using i(7) [of j] unfolding p(1) p(3) k i(6) by (auto simp: dict_simps chunk_key_inject)
      show "count_of ext (ca_put_chunk S) = length sent \<or> tasks_of ext S = [] \<and> quiet ext evs"
        using i(8) by (auto simp: quiet_Cons)
      show "(\<exists>tk \<in> set (tasks_of ext S). tk_is_finished tk) \<longrightarrow> quiet ext evs" using i(10) by (auto simp: quiet_Cons)
      show "ends_once ops ext evs" using i(11) by simp
    qed (use i(5,9) in simp_all)
  qed
qed

lemma link_inv_step:
  assumes "flags_ok ops" "link_inv ops ext rid (ev # evs) s"
  shows "link_inv ops ext rid evs (link_step ops proc ext rid ev s)"
proof -
  obtain S R st C sent got where s: "s = (S, R, st, C, sent, got)" by (metis prod_cases6)
  show ?thesis
  proof (cases ev)
    case (Lk_Send ok)
    obtain S' C' where f: "save_step ops proc ok (S, C) = (S', C')" by (meson surj_pair)
    from link_send [OF assms(1) assms(2) [unfolded s Lk_Send] f] show ?thesis by (simp add: link_step_def s Lk_Send f)
  next
    case (Lk_Poll ok)
    obtain R' st' C' where f: "recv_step ops ok (R, st, C) = (R', st', C')" by (metis prod_cases3)
    from link_poll [OF assms(2) [unfolded s Lk_Poll] f] show ?thesis by (simp add: link_step_def s Lk_Poll f)
  next
    case (Lk_Load r)
    then show ?thesis using assms(2) by (auto simp: link_step_def s link_inv_def load_async_def quiet_Cons)
  next
    case (Lk_Save mm q r seg)
    then show ?thesis using link_save [OF assms(2) [unfolded s Lk_Save]] by (simp add: link_step_def s)
  qed
qed

lemma link_inv_run:
  assumes "flags_ok ops" "link_inv ops ext rid evs s"
  shows "link_inv ops ext rid [] (link_run ops proc ext rid evs s)"
  using assms(2) unfolding link_run_def
  by (induction evs arbitrary: s) (simp_all add: link_inv_step [OF assms(1)])

text \<open>
  C13: A stream arrives in order, without gaps or repetitions.  Whatever the interleaving of saving,
  sending, registering and polling, for this request and any others, and whatever puts and gets fail: when
  nothing is saved for a stream after its last chunk and its external id belongs to one request of the
  receiver, the chunks the receiver took are a prefix of those the connector accepted.  And whenever not all
  were taken, the next turn of the request takes exactly the next one, which the request of a language stage
  then holds.
\<close>

theorem chunks_arrive_in_order:
  assumes "flags_ok ops" "ends_once ops ext evs" "\<forall>x. sq_external (st x) = ext \<longleftrightarrow> x = rid"
      and "link_run ops proc ext rid evs
        (new_chunk_adapter i n w m, new_chunk_adapter (i + 1) n' w' m', st, [], [], []) = (S, R, st', C, sent, got)"
  shows "got = take (length got) sent \<and>
     (got \<noteq> sent \<and> take 1 (ca_pending_load R) = [rid] \<and> rid \<notin> ca_cancelled_load R \<longrightarrow>
        taken_by True rid R st' C = [sent ! length got] \<and>
        (ca_ar_mode R \<longrightarrow> sq_info (fst (snd (recv_step ops True (R, st', C))) rid) = Some (sent ! length got)))"
proof -
  have "link_inv ops ext rid evs (new_chunk_adapter i n w m, new_chunk_adapter (i + 1) n' w' m', st, [], [], [])"
    using assms(2,3) by (intro link_invI) (simp_all add: new_chunk_adapter_def count_of_def tasks_of_def)
  from link_inv_run [OF assms(1) this, of proc] have "link_inv ops ext rid [] (S, R, st', C, sent, got)" using assms(4) by simp
  note v = link_invD [OF this]
  have "taken_by True rid R st' C = [sent ! length got] \<and>
      (ca_ar_mode R \<longrightarrow> sq_info (fst (snd (recv_step ops True (R, st', C))) rid) = Some (sent ! length got))"
    if a: "got \<noteq> sent" "take 1 (ca_pending_load R) = [rid]" "rid \<notin> ca_cancelled_load R"
  proof -
    obtain rs where pend: "ca_pending_load R = rid # rs" using a(2) by (cases "ca_pending_load R") auto
    have "length got \<noteq> length sent" using v(3) a(1) by (metis take_all order_refl)
    then have l: "length got < length sent" using v(4) by simp
    then have "dict_get C (chunk_key ext (ca_stage_id R - 1) (length got)) = Some (sent ! length got)"
      using v(7) [of "length got"] v(1) by simp
    then have t: "taken_by True rid R st' C = [sent ! length got]"
      using pend a(3) v(2) [of rid] by (simp add: taken_by_def fetch_chunk_def dict_simps v(6))
    have "sent ! length got \<in> set sent" using l by simp
    then obtain d where d: "dict_get (sent ! length got) ''meta'' = Some (PDict d)" using v(5) by blast
    obtain R2 st2 C2 where rc: "recv_step ops True (R, st', C) = (R2, st2, C2)" by (metis prod_cases3)
    have "\<forall>x. sq_external (st' x) = ext \<longleftrightarrow> x = rid" using v(2) by blast
    from recv_stream [OF rc this] t d show ?thesis by (auto simp: rc)
  qed
  with v(3) show ?thesis by auto
qed

definition sample_stream :: "int link_event list" where
  "sample_stream =
     [Lk_Load ''a'', Lk_Save None ''q'' (stream_requests ''q'') True, Lk_Save None ''q'' (stream_requests ''q'') True,
      Lk_Send True, Lk_Send True, Lk_Poll False]"

definition sample_link :: "(int, unit) link_state" where
  "sample_link = link_run sample_chunk_ops None ''e'' ''a'' sample_stream
     (new_chunk_adapter 0 8 0 True, new_chunk_adapter (0 + 1) 8 0 True,
      (\<lambda>r. (stream_requests r)\<lparr>sq_external := if r = ''a'' then ''e'' else ''f''\<rparr>), [], [], [])"

lemma chunks_arrive_in_order_witness:
  "case sample_link of (S, R, st, C, sent, got) \<Rightarrow> length sent = 2 \<and> got = [] \<and> taken_by True ''a'' R st C = [hd sent]"
proof -
  let ?st = "\<lambda>r. (stream_requests r)\<lparr>sq_external := if r = ''a'' then ''e'' else ''f''\<rparr>"
  obtain S R st' C sent got where run: "sample_link = (S, R, st', C, sent, got)" by (metis prod_cases6)
  have c: "case sample_link of (S, R, st, C, sent, got) \<Rightarrow> length sent = 2 \<and> got = [] \<and> ca_pending_load R = [''a''] \<and>
      ca_cancelled_load R = {}"
    unfolding sample_link_def link_run_def sample_stream_def
    by (simp add: link_step_def load_async_def new_chunk_adapter_def save_async_def stream_requests_def sample_chunk_ops_def
        confirmed_num_computed_tokens_def count_of_def dict_simps save_step_def send_single_request_def chunk_to_send_def
        sent_by_def recv_step_def poll_single_request_def fetch_chunk_def taken_by_def Let_def)
  have "flags_ok sample_chunk_ops" by (auto simp: flags_ok_def sample_chunk_ops_def)
  moreover have "ends_once sample_chunk_ops ''e'' sample_stream"
    by (simp add: sample_stream_def saves_def stream_requests_def sample_chunk_ops_def)
  ultimately have "got \<noteq> sent \<and> take 1 (ca_pending_load R) = [''a''] \<and> ''a'' \<notin> ca_cancelled_load R \<longrightarrow>
      taken_by True ''a'' R st' C = [sent ! length got]"
    using chunks_arrive_in_order [OF _ _ _ run [unfolded sample_link_def]] by (simp add: stream_requests_def)
  moreover have "length sent = 2 \<and> got = [] \<and> ca_pending_load R = [''a''] \<and> ca_cancelled_load R = {}"
    using c unfolding run by simp
  ultimately show ?thesis by (cases sent) (auto simp: run)
qed

end
