(* ===== verification/KV_Bytes.thy ===== *)
theory KV_Bytes
  imports Py_Int "HOL-Library.Word"
begin

text \<open>
  The packed form of a key-value cache on its way between stages: \<^verbatim>\<open>KVCacheTransferData\<close> of
  \<^verbatim>\<open>distributed/omni_connectors/kv_transfer_manager.py\<close>.  Four bytes of header length, a JSON header that
  describes every tensor, then the bytes of the tensors.

  A tensor is its dtype, its shape and its bytes.  \<^verbatim>\<open>json.dumps\<close> with its encoding and \<^verbatim>\<open>json.loads\<close> are
  the record \<open>json_codec\<close>; what the code relies on is \<open>codec_laws\<close>.  A header that comes from the wire may
  be any JSON value, so every access of the reader can fail.
\<close>

section \<open>Bytes and JSON\<close>

type_synonym byte = "8 word"

text \<open>\<^verbatim>\<open>struct.pack(">I", n)\<close> and its inverse on four bytes.\<close>

definition pack_be32 :: "nat \<Rightarrow> py_exc + byte list" where
  "pack_be32 n =
     (if n \<ge> 2 ^ 32 then Inl StructError
      else Inr [word_of_nat (n div 2 ^ 24), word_of_nat (n div 2 ^ 16), word_of_nat (n div 2 ^ 8), word_of_nat n])"

definition unpack_be32 :: "byte list \<Rightarrow> nat" where
  "unpack_be32 bs = foldl (\<lambda>acc b. acc * 2 ^ 8 + unat b) 0 bs"

text \<open>A float is its bit pattern.\<close>

datatype json =
    JNull | JBool bool | JInt int | JFloat "64 word" | JStr string | JList "json list" | JDict "(string \<times> json) list"

fun json_ok :: "json \<Rightarrow> bool" where
  "json_ok (JList js) = (\<forall>j \<in> set js. json_ok j)"
| "json_ok (JDict d) = (distinct (map fst d) \<and> (\<forall>kv \<in> set d. json_ok (snd kv)))"
| "json_ok j = True"

record json_codec =
  jc_dumps :: "json \<Rightarrow> byte list"
  jc_loads :: "byte list \<Rightarrow> py_exc + json"

definition codec_laws :: "json_codec \<Rightarrow> bool" where
  "codec_laws J \<longleftrightarrow> (\<forall>j. json_ok j \<longrightarrow> jc_loads J (jc_dumps J j) = Inr j)"

text \<open>Subscript, \<^verbatim>\<open>get\<close> and truth of a parsed value; an integer where one is needed.\<close>

definition jindex :: "json \<Rightarrow> string \<Rightarrow> py_exc + json" where
  "jindex j k = (case j of JDict d \<Rightarrow> (case map_of d k of None \<Rightarrow> Inl KeyError | Some v \<Rightarrow> Inr v) | _ \<Rightarrow> Inl TypeError)"

definition jget :: "json \<Rightarrow> string \<Rightarrow> py_exc + json" where
  "jget j k = (case j of JDict d \<Rightarrow> Inr (case map_of d k of None \<Rightarrow> JNull | Some v \<Rightarrow> v) | _ \<Rightarrow> Inl AttributeError)"

definition jtruth :: "json \<Rightarrow> bool" where
  "jtruth j = (case j of JNull \<Rightarrow> False | JBool b \<Rightarrow> b | JInt i \<Rightarrow> i \<noteq> 0 | JFloat w \<Rightarrow> w \<noteq> 0 \<and> w \<noteq> push_bit 63 1
     | JStr s \<Rightarrow> s \<noteq> [] | JList js \<Rightarrow> js \<noteq> [] | JDict d \<Rightarrow> d \<noteq> [])"

definition jint :: "json \<Rightarrow> py_exc + int" where
  "jint j = (case j of JInt i \<Rightarrow> Inr i | JBool b \<Rightarrow> Inr (of_bool b) | _ \<Rightarrow> Inl TypeError)"

definition jlist :: "json \<Rightarrow> py_exc + json list" where
  "jlist j = (case j of JList js \<Rightarrow> Inr js | JStr s \<Rightarrow> Inr (map (\<lambda>c. JStr [c]) s) | JDict d \<Rightarrow> Inr (map (\<lambda>kv. JStr (fst kv)) d)
     | _ \<Rightarrow> Inl TypeError)"

section \<open>Tensors\<close>

text \<open>The accepted dtypes with the size of an element.\<close>

definition SAFE_TORCH_DTYPES :: "(string, nat) dict" where
  "SAFE_TORCH_DTYPES =
     [(''bool'', 1), (''uint8'', 1), (''int8'', 1), (''int16'', 2), (''int32'', 4), (''int64'', 8), (''float16'', 2),
      (''float32'', 4), (''float64'', 8), (''bfloat16'', 2), (''complex64'', 8), (''complex128'', 16),
      (''float8_e4m3fn'', 1), (''float8_e4m3fnuz'', 1), (''float8_e5m2'', 1), (''float8_e5m2fnuz'', 1)]"

record kv_tensor =
  kt_dtype :: string
  kt_shape :: "nat list"
  kt_bytes :: "byte list"

definition tensor_ok :: "kv_tensor \<Rightarrow> bool" where
  "tensor_ok t \<longleftrightarrow> (\<exists>sz. dict_get SAFE_TORCH_DTYPES (kt_dtype t) = Some sz \<and>
     length (kt_bytes t) = prod_list (kt_shape t) * sz)"

record kv_data =
  kd_request_id :: string
  kd_key_cache :: "kv_tensor option list"
  kd_value_cache :: "kv_tensor option list"
  kd_block_ids :: "int list"
  kd_metadata :: "(string \<times> json) list"

section \<open>Writing\<close>

definition tensor_desc :: "string \<Rightarrow> nat \<Rightarrow> nat \<Rightarrow> kv_tensor \<Rightarrow> json" where
  "tensor_desc name i off t =
     JDict [(''n'', JStr name), (''i'', JInt (int i)), (''d'', JStr (kt_dtype t)),
            (''s'', JList (map (\<lambda>k. JInt (int k)) (kt_shape t))), (''o'', JInt (int off)),
            (''b'', JInt (int (length (kt_bytes t))))]"

text \<open>The descriptors of the layers from \<open>i\<close> on and the bytes they describe, the first at offset \<open>off\<close>.\<close>

fun describe_cache :: "string \<Rightarrow> nat \<Rightarrow> nat \<Rightarrow> kv_tensor option list \<Rightarrow> json list \<times> byte list" where
  "describe_cache cache i off [] = ([], [])"
| "describe_cache cache i off (None # ts) =
     (case describe_cache cache (Suc i) off ts of
        (ds, bs) \<Rightarrow> (JDict [(''n'', JStr (cache @ ''_'' @ str_nat i)), (''x'', JBool True)] # ds, bs))"
| "describe_cache cache i off (Some t # ts) =
     (case describe_cache cache (Suc i) (off + length (kt_bytes t)) ts of
        (ds, bs) \<Rightarrow> (tensor_desc (cache @ ''_'' @ str_nat i) i off t # ds, kt_bytes t @ bs))"

definition build_tensors_desc :: "kv_data \<Rightarrow> json list \<times> byte list" where
  "build_tensors_desc d =
     (case describe_cache ''key_cache'' 0 0 (kd_key_cache d) of
        (kds, kbs) \<Rightarrow> (case describe_cache ''value_cache'' 0 (length kbs) (kd_value_cache d) of
          (vds, vbs) \<Rightarrow> (kds @ vds, kbs @ vbs)))"

definition kv_header :: "kv_data \<Rightarrow> json list \<Rightarrow> json" where
  "kv_header d descs =
     JDict [(''rid'', JStr (kd_request_id d)), (''bids'', JList (map JInt (kd_block_ids d))), (''meta'', JDict (kd_metadata d)),
            (''td'', JList descs), (''nl'', JInt (int (length (kd_key_cache d))))]"

definition build_header_bytes :: "json_codec \<Rightarrow> kv_data \<Rightarrow> json list \<Rightarrow> py_exc + byte list" where
  "build_header_bytes J d descs =
     (let header = jc_dumps J (kv_header d descs) in rbind (pack_be32 (length header)) (\<lambda>p. Inr (p @ header)))"

text \<open>A tensor without dimensions can only be viewed as bytes when its element is one byte.\<close>

definition byte_viewable :: "kv_tensor \<Rightarrow> bool" where
  "byte_viewable t \<longleftrightarrow> kt_shape t \<noteq> [] \<or> dict_get SAFE_TORCH_DTYPES (kt_dtype t) = Some 1"

definition present :: "kv_data \<Rightarrow> kv_tensor list" where
  "present d = List.map_filter id (kd_key_cache d @ kd_value_cache d)"

definition to_bytes :: "json_codec \<Rightarrow> kv_data \<Rightarrow> py_exc + byte list" where
  "to_bytes J d =
     (if \<exists>t \<in> set (present d). \<not> byte_viewable t then Inl RuntimeError
      else case build_tensors_desc d of (descs, bs) \<Rightarrow> rbind (build_header_bytes J d descs) (\<lambda>h. Inr (h @ bs)))"

text \<open>The chunks are copied behind the header one after the other, into a buffer of exactly their size;
  \<open>dev\<close> tells which tensors are on a device.\<close>

definition to_gpu_tensor :: "json_codec \<Rightarrow> (kv_tensor \<Rightarrow> bool) \<Rightarrow> kv_data \<Rightarrow> py_exc + byte list" where
  "to_gpu_tensor J dev d =
     (if \<exists>t \<in> set (present d). \<not> byte_viewable t then Inl RuntimeError
      else case build_tensors_desc d of (descs, bs) \<Rightarrow>
        if \<not> (\<exists>t \<in> set (present d). dev t) then Inl RuntimeError
        else rbind (build_header_bytes J d descs) (\<lambda>h. Inr (h @ bs)))"

lemma gpu_as_bytes: "to_gpu_tensor J dev d = Inr raw \<Longrightarrow> to_bytes J d = Inr raw"
  by (auto simp: to_gpu_tensor_def to_bytes_def split: if_splits prod.splits)

section \<open>Reading\<close>

definition load_header :: "json_codec \<Rightarrow> byte list \<Rightarrow> py_exc + (json \<times> byte list)" where
  "load_header J raw =
     (if length raw < 4 then Inl ValueError
      else (let n = unpack_be32 (take 4 raw)
            in if n > length raw - 4 then Inl ValueError
               else rbind (jc_loads J (take n (drop 4 raw))) (\<lambda>h. Inr (h, drop (4 + n) raw))))"

definition validate_tensor_span :: "json \<Rightarrow> nat \<Rightarrow> py_exc + (nat \<times> nat)" where
  "validate_tensor_span info len =
     rbind (jindex info ''o'') (\<lambda>jo. rbind (jindex info ''b'') (\<lambda>jb.
       rbind (jint jo) (\<lambda>off. rbind (jint jb) (\<lambda>n.
         if off < 0 \<or> n < 0 \<or> off + n > int len then Inl ValueError else Inr (nat off, nat n)))))"

text \<open>\<^verbatim>\<open>torch.frombuffer\<close> refuses to read nothing; a slice of a tensor does not.\<close>

definition get_from_buffer :: "byte list \<Rightarrow> json \<Rightarrow> py_exc + byte list" where
  "get_from_buffer data info =
     rbind (validate_tensor_span info (length data)) (\<lambda>(off, n). if n = 0 then Inl ValueError else Inr (take n (drop off data)))"

definition get_from_tensor :: "byte list \<Rightarrow> json \<Rightarrow> py_exc + byte list" where
  "get_from_tensor data info =
     rbind (validate_tensor_span info (length data)) (\<lambda>(off, n). Inr (take n (drop off data)))"

definition resolve_torch_dtype :: "json \<Rightarrow> py_exc + (string \<times> nat)" where
  "resolve_torch_dtype j = (case j of
     JStr s \<Rightarrow> (case dict_get SAFE_TORCH_DTYPES s of None \<Rightarrow> Inl ValueError | Some sz \<Rightarrow> Inr (s, sz))
   | _ \<Rightarrow> Inl ValueError)"

definition resolve_layer_idx :: "json \<Rightarrow> int \<Rightarrow> py_exc + nat" where
  "resolve_layer_idx info num_layers =
     rbind (jget info ''i'') (\<lambda>ji.
       rbind (if ji \<noteq> JNull then Inr ji
              else rbind (jget info ''n'') (\<lambda>name.
                case name of
                  JStr s \<Rightarrow>
                    if py_startswith s ''key_cache_'' then rbind (py_int (drop (length ''key_cache_'') s)) (\<lambda>i. Inr (JInt i))
                    else if py_startswith s ''value_cache_'' then rbind (py_int (drop (length ''value_cache_'') s)) (\<lambda>i. Inr (JInt i))
                    else Inl ValueError
                | _ \<Rightarrow> Inl ValueError)) (\<lambda>j.
         case jint j of
           Inl e \<Rightarrow> Inl ValueError
         | Inr i \<Rightarrow> if i < 0 \<or> i \<ge> num_layers then Inl ValueError else Inr (nat i)))"

text \<open>\<^verbatim>\<open>reshape\<close>: one entry may be \<open>-1\<close> and takes what is left.\<close>

definition resolve_shape :: "int list \<Rightarrow> nat \<Rightarrow> py_exc + nat list" where
  "resolve_shape dims numel =
     (let given = filter (\<lambda>i. i \<noteq> -1) dims; p = prod_list (map nat given)
      in if (\<exists>i \<in> set given. i < 0) \<or> length dims > length given + 1 then Inl RuntimeError
         else if length dims = length given
         then (if p = numel then Inr (map nat dims) else Inl RuntimeError)
         else if p = 0 \<or> numel mod p \<noteq> 0 then Inl RuntimeError
         else Inr (map (\<lambda>i. if i = -1 then numel div p else nat i) dims))"

fun jdims :: "json list \<Rightarrow> py_exc + int list" where
  "jdims [] = Inr []"
| "jdims (JInt i # js) = rbind (jdims js) (\<lambda>is. Inr (i # is))"
| "jdims (_ # js) = Inl TypeError"

definition view_tensor :: "string \<times> nat \<Rightarrow> byte list \<Rightarrow> json \<Rightarrow> py_exc + kv_tensor" where
  "view_tensor dtype bs shape =
     (if length bs mod snd dtype \<noteq> 0 then Inl RuntimeError
      else rbind (case shape of JList js \<Rightarrow> jdims js | _ \<Rightarrow> jdims [shape]) (\<lambda>dims.
        rbind (resolve_shape dims (length bs div snd dtype)) (\<lambda>sh.
          Inr \<lparr>kt_dtype = fst dtype, kt_shape = sh, kt_bytes = bs\<rparr>)))"

type_synonym kv_caches = "kv_tensor option list \<times> kv_tensor option list"

definition populate_entry :: "(json \<Rightarrow> py_exc + byte list) \<Rightarrow> int \<Rightarrow> json \<Rightarrow> kv_caches \<Rightarrow> py_exc + kv_caches" where
  "populate_entry get num_layers info = (\<lambda>(K, V).
     rbind (jget info ''x'') (\<lambda>x. if jtruth x then Inr (K, V)
     else rbind (jindex info ''n'') (\<lambda>name.
       rbind (jindex info ''d'') (\<lambda>jd. rbind (resolve_torch_dtype jd) (\<lambda>dtype.
         rbind (get info) (\<lambda>bs. rbind (jindex info ''s'') (\<lambda>js. rbind (view_tensor dtype bs js) (\<lambda>t.
           rbind (resolve_layer_idx info num_layers) (\<lambda>i.
             case name of
               JStr s \<Rightarrow> Inr (if py_startswith s ''key_cache_'' then (K[i := Some t], V)
                               else if py_startswith s ''value_cache_'' then (K, V[i := Some t]) else (K, V))
             | _ \<Rightarrow> Inl AttributeError)))))))))"

fun populate_all :: "(json \<Rightarrow> py_exc + byte list) \<Rightarrow> int \<Rightarrow> json list \<Rightarrow> kv_caches \<Rightarrow> py_exc + kv_caches" where
  "populate_all get n [] KV = Inr KV"
| "populate_all get n (info # infos) KV = rbind (populate_entry get n info KV) (populate_all get n infos)"

record kv_received =
  kr_request_id :: json
  kr_key_cache :: "kv_tensor option list"
  kr_value_cache :: "kv_tensor option list"
  kr_block_ids :: json
  kr_metadata :: json

definition populate_caches :: "json \<Rightarrow> (json \<Rightarrow> py_exc + byte list) \<Rightarrow> py_exc + kv_received" where
  "populate_caches header get =
     rbind (jindex header ''nl'') (\<lambda>jn. rbind (jint jn) (\<lambda>n.
       rbind (jindex header ''td'') (\<lambda>td. rbind (jlist td) (\<lambda>infos.
         rbind (populate_all get n infos (replicate (nat n) None, replicate (nat n) None)) (\<lambda>(K, V).
           rbind (jindex header ''rid'') (\<lambda>rid. rbind (jindex header ''bids'') (\<lambda>bids. rbind (jindex header ''meta'') (\<lambda>meta.
             Inr \<lparr>kr_request_id = rid, kr_key_cache = K, kr_value_cache = V, kr_block_ids = bids, kr_metadata = meta\<rparr>))))))))"

definition from_bytes :: "json_codec \<Rightarrow> byte list \<Rightarrow> py_exc + kv_received" where
  "from_bytes J raw = rbind (load_header J raw) (\<lambda>(header, data). populate_caches header (get_from_buffer data))"

definition from_bytes_device :: "json_codec \<Rightarrow> byte list \<Rightarrow> py_exc + kv_received" where
  "from_bytes_device J raw = rbind (load_header J raw) (\<lambda>(header, data). populate_caches header (get_from_tensor data))"

section \<open>Reading back what was written\<close>

lemma unpack_pack: "pack_be32 n = Inr p \<Longrightarrow> length p = 4 \<and> unpack_be32 p = n"
proof -
  assume a: "pack_be32 n = Inr p"
  then have n: "n < 2 ^ 32" and p: "p = [word_of_nat (n div 2 ^ 24), word_of_nat (n div 2 ^ 16), word_of_nat (n div 2 ^ 8), word_of_nat n]"
    by (auto simp: pack_be32_def split: if_splits)
  have w: "unat (word_of_nat k :: byte) = k mod 256" for k by (simp add: unat_of_nat)
  have "((n div 2 ^ 24 * 2 ^ 8 + n div 2 ^ 16 mod 256) * 2 ^ 8 + n div 2 ^ 8 mod 256) * 2 ^ 8 + n mod 256 = n"
  proof -
    have "n div 2 ^ 24 = n div 2 ^ 16 div 256" "n div 2 ^ 16 = n div 2 ^ 8 div 256" by (simp_all add: div_mult2_eq [symmetric])
    then have "n div 2 ^ 24 * 2 ^ 8 + n div 2 ^ 16 mod 256 = n div 2 ^ 16" "n div 2 ^ 16 * 2 ^ 8 + n div 2 ^ 8 mod 256 = n div 2 ^ 8"
      using div_mult_mod_eq [of "n div 2 ^ 16" 256] div_mult_mod_eq [of "n div 2 ^ 8" 256] by simp_all
    then show ?thesis using div_mult_mod_eq [of n 256] by simp
  qed
  moreover have "n div 2 ^ 24 mod 256 = n div 2 ^ 24" using n by (simp add: less_mult_imp_div_less)
  ultimately show ?thesis by (simp add: p unpack_be32_def w)
qed

lemma load_written:
  assumes "codec_laws J" "json_ok h" "pack_be32 (length (jc_dumps J h)) = Inr p"
  shows "load_header J (p @ jc_dumps J h @ data) = Inr (h, data)"
  using unpack_pack [OF assms(3)] assms(1,2) by (simp add: load_header_def codec_laws_def Let_def)

lemma collect_ints: "jdims (map (\<lambda>k. JInt (int k)) ks) = Inr (map int ks)"
  by (induction ks) simp_all

lemma resolve_written: "prod_list ks = n \<Longrightarrow> resolve_shape (map int ks) n = Inr ks"
proof -
  assume a: "prod_list ks = n"
  have f: "filter (\<lambda>i. i \<noteq> -1) (map int ks) = map int ks" by (simp add: filter_id_conv)
  have m: "map nat (map int ks) = ks" by (simp add: o_def)
  show ?thesis unfolding resolve_shape_def Let_def f m by (auto simp: a)
qed

lemma dtype_size: "dict_get SAFE_TORCH_DTYPES s = Some sz \<Longrightarrow> sz > 0"
  by (auto simp: SAFE_TORCH_DTYPES_def split: if_splits)

lemma view_written:
  assumes "tensor_ok t" "dict_get SAFE_TORCH_DTYPES (kt_dtype t) = Some sz"
  shows "view_tensor (kt_dtype t, sz) (kt_bytes t) (JList (map (\<lambda>k. JInt (int k)) (kt_shape t))) = Inr t"
proof -
  have "length (kt_bytes t) = prod_list (kt_shape t) * sz" "sz > 0"
    using assms dtype_size by (auto simp: tensor_ok_def)
  then show ?thesis by (simp add: view_tensor_def collect_ints resolve_written)
qed

lemma name_starts: "py_startswith (''key_cache'' @ ''_'' @ s) ''key_cache_''" "py_startswith (''value_cache'' @ ''_'' @ s) ''value_cache_''"
  "\<not> py_startswith (''value_cache'' @ ''_'' @ s) ''key_cache_''"
  by (simp_all add: py_startswith_def)

text \<open>One described tensor, when its bytes are there and when they are not.\<close>

lemma entry_fields:
  "jget (tensor_desc name i off t) ''x'' = Inr JNull" "jindex (tensor_desc name i off t) ''n'' = Inr (JStr name)"
  "jindex (tensor_desc name i off t) ''d'' = Inr (JStr (kt_dtype t))" "jget (tensor_desc name i off t) ''i'' = Inr (JInt (int i))"
  "jindex (tensor_desc name i off t) ''s'' = Inr (JList (map (\<lambda>k. JInt (int k)) (kt_shape t)))"
  "validate_tensor_span (tensor_desc name i off t) n =
     (if off + length (kt_bytes t) > n then Inl ValueError else Inr (off, length (kt_bytes t)))"
  by (auto simp: tensor_desc_def jget_def jindex_def validate_tensor_span_def jint_def)

definition put_kv_layer :: "string \<Rightarrow> nat \<Rightarrow> kv_tensor \<Rightarrow> kv_caches \<Rightarrow> kv_caches" where
  "put_kv_layer cache i t = (\<lambda>(K, V). if cache = ''key_cache'' then (K[i := Some t], V) else (K, V[i := Some t]))"

lemma entry_read:
  assumes "tensor_ok t" "i < n" "get (tensor_desc name i off t) = Inr (kt_bytes t)"
      and "cache = ''key_cache'' \<and> py_startswith name ''key_cache_'' \<or>
        cache = ''value_cache'' \<and> py_startswith name ''value_cache_'' \<and> \<not> py_startswith name ''key_cache_''"
  shows "populate_entry get (int n) (tensor_desc name i off t) KV = Inr (put_kv_layer cache i t KV)"
proof -
  obtain sz where sz: "dict_get SAFE_TORCH_DTYPES (kt_dtype t) = Some sz" using assms(1) by (auto simp: tensor_ok_def)
  have l: "resolve_layer_idx (tensor_desc name i off t) (int n) = Inr i"
    using assms(2) by (simp add: resolve_layer_idx_def entry_fields jint_def)
  obtain K V where KV: "KV = (K, V)" by (meson surj_pair)
  have "populate_entry get (int n) (tensor_desc name i off t) KV =
      Inr (if py_startswith name ''key_cache_'' then (K[i := Some t], V)
           else if py_startswith name ''value_cache_'' then (K, V[i := Some t]) else (K, V))"
    by (simp add: KV populate_entry_def entry_fields jtruth_def resolve_torch_dtype_def sz assms(3)
        view_written [OF assms(1) sz] l)
  with assms(4) show ?thesis by (auto simp: put_kv_layer_def KV)
qed

lemma entry_missing:
  assumes "tensor_ok t" "get (tensor_desc name i off t) = Inl ValueError"
  shows "populate_entry get n (tensor_desc name i off t) KV = Inl ValueError"
proof -
  obtain sz where "dict_get SAFE_TORCH_DTYPES (kt_dtype t) = Some sz" using assms(1) by (auto simp: tensor_ok_def)
  then show ?thesis
    by (cases KV) (simp add: populate_entry_def entry_fields jtruth_def resolve_torch_dtype_def assms(2))
qed

lemma entry_none:
  "populate_entry get n (JDict [(''n'', JStr name), (''x'', JBool True)]) KV = Inr KV"
  by (cases KV) (simp add: populate_entry_def jget_def jtruth_def)

text \<open>What the reader needs of the way it gets bytes: all of a span inside, an error for one that ends outside.\<close>

definition reads :: "byte list \<Rightarrow> (json \<Rightarrow> py_exc + byte list) \<Rightarrow> (kv_tensor \<Rightarrow> bool) \<Rightarrow> bool" where
  "reads data get ok \<longleftrightarrow>
     (\<forall>name i off t. ok t \<longrightarrow> get (tensor_desc name i off t) =
        (if off + length (kt_bytes t) > length data then Inl ValueError else Inr (take (length (kt_bytes t)) (drop off data))))"

lemma buffer_reads: "reads data (get_from_buffer data) (\<lambda>t. kt_bytes t \<noteq> [])"
  by (auto simp: reads_def get_from_buffer_def entry_fields)

lemma tensor_reads: "reads data (get_from_tensor data) (\<lambda>t. True)"
  by (auto simp: reads_def get_from_tensor_def entry_fields)

definition layers_ok :: "(kv_tensor \<Rightarrow> bool) \<Rightarrow> kv_tensor option list \<Rightarrow> bool" where
  "layers_ok ok ts \<longleftrightarrow> (\<forall>t. Some t \<in> set ts \<longrightarrow> tensor_ok t \<and> ok t)"

fun put_kv_layers :: "string \<Rightarrow> nat \<Rightarrow> kv_tensor option list \<Rightarrow> kv_caches \<Rightarrow> kv_caches" where
  "put_kv_layers cache i [] KV = KV"
| "put_kv_layers cache i (None # ts) KV = put_kv_layers cache (Suc i) ts KV"
| "put_kv_layers cache i (Some t # ts) KV = put_kv_layers cache (Suc i) ts (put_kv_layer cache i t KV)"

lemma cache_read:
  assumes "reads data get ok" "layers_ok ok ts" "i + length ts \<le> n" "cache = ''key_cache'' \<or> cache = ''value_cache''"
      and "describe_cache cache i off ts = (ds, bs)" "off \<le> length data"
      and "take (length data - off) bs = take (length bs) (drop off data)"
  shows "populate_all get (int n) (ds @ rest) KV =
     (if off + length bs \<le> length data then populate_all get (int n) rest (put_kv_layers cache i ts KV) else Inl ValueError)"
  using assms(2-7)
proof (induction cache i off ts arbitrary: ds bs KV rule: describe_cache.induct)
  case (2 cache i off ts)
  obtain ds' where r: "describe_cache cache (Suc i) off ts = (ds', bs)" and
    d: "ds = JDict [(''n'', JStr (cache @ ''_'' @ str_nat i)), (''x'', JBool True)] # ds'"
    using 2(5) by (auto split: prod.splits)
  have l: "layers_ok ok ts" "Suc i + length ts \<le> n" using 2(2,3) by (auto simp: layers_ok_def)
  show ?case using 2(1) [OF l 2(4) r 2(6,7)] by (simp add: d entry_none)
next
  case (3 cache i off t ts)
  obtain ds' bs' where r: "describe_cache cache (Suc i) (off + length (kt_bytes t)) ts = (ds', bs')" by (meson surj_pair)
  have d: "ds = tensor_desc (cache @ ''_'' @ str_nat i) i off t # ds'" "bs = kt_bytes t @ bs'" using 3(5) r by auto
  have t: "tensor_ok t" "ok t" "layers_ok ok ts" "Suc i + length ts \<le> n" "i < n" using 3(2,3) by (auto simp: layers_ok_def)
  have g: "get (tensor_desc (cache @ ''_'' @ str_nat i) i off t) =
      (if off + length (kt_bytes t) > length data then Inl ValueError else Inr (take (length (kt_bytes t)) (drop off data)))"
    using assms(1) t(2) by (simp add: reads_def)
  show ?case
  proof (cases "off + length (kt_bytes t) \<le> length data")
    case False
    then show ?thesis using g entry_missing [OF t(1)] by (simp add: d)
  next
    case True
    let ?k = "length (kt_bytes t)"
    have le: "?k \<le> length data - off" using True by simp
    have b: "take ?k (drop off data) = kt_bytes t"
      using arg_cong [OF 3(7), of "take ?k"] le by (simp add: d min_absorb2 min_absorb1)
    have tl: "take (length data - (off + ?k)) bs' = take (length bs') (drop (off + ?k) data)"
      using arg_cong [OF 3(7), of "drop ?k"] le by (simp add: d drop_take add.commute)
    have nm: "cache = ''key_cache'' \<and> py_startswith (cache @ ''_'' @ str_nat i) ''key_cache_'' \<or>
        cache = ''value_cache'' \<and> py_startswith (cache @ ''_'' @ str_nat i) ''value_cache_'' \<and>
        \<not> py_startswith (cache @ ''_'' @ str_nat i) ''key_cache_''"
      using 3(4) name_starts by blast
    have "get (tensor_desc (cache @ ''_'' @ str_nat i) i off t) = Inr (kt_bytes t)" unfolding g using True b by simp
    from entry_read [where cache = cache and get = get and off = off and name = "cache @ ''_'' @ str_nat i", OF t(1,5) this nm]
    have "populate_all get (int n) (ds @ rest) KV = populate_all get (int n) (ds' @ rest) (put_kv_layer cache i t KV)"
      unfolding d append_Cons populate_all.simps by simp
    then show ?thesis using 3(1) [OF t(3,4) 3(4) r True tl, of "put_kv_layer cache i t KV"] by (simp add: d(2) add.assoc)
  qed
qed simp

lemma overlay_step:
  "i < length K \<Longrightarrow> take (Suc i) (K[i := x]) @ ys @ drop (Suc (i + m)) (K[i := x]) = take i K @ (x # ys) @ drop (i + Suc m) K"
  by (simp add: take_Suc_conv_app_nth)

lemma put_kv_layers_fresh:
  "i + length ts \<le> length K \<Longrightarrow> (\<forall>j < length ts. K ! (i + j) = None) \<Longrightarrow>
     put_kv_layers ''key_cache'' i ts (K, V) = (take i K @ ts @ drop (i + length ts) K, V)"
  "i + length ts \<le> length V \<Longrightarrow> (\<forall>j < length ts. V ! (i + j) = None) \<Longrightarrow>
     put_kv_layers ''value_cache'' i ts (K, V) = (K, take i V @ ts @ drop (i + length ts) V)"
proof (induction ts arbitrary: i K V)
  case (Cons y ts)
  {
    case 1
    have n: "\<forall>j < length ts. (K[i := y]) ! (Suc i + j) = None" using 1(2) by auto
    have "K[i := None] = K" using 1 by (metis add.right_neutral length_Cons list_update_id zero_less_Suc)
    then have "put_kv_layers ''key_cache'' i (y # ts) (K, V) = put_kv_layers ''key_cache'' (Suc i) ts (K[i := y], V)"
      by (cases y) (simp_all add: put_kv_layer_def)
    then show ?case using Cons.IH(1) [of "Suc i" "K[i := y]" V] n 1(1) overlay_step [of i K y ts "length ts"] by simp
  next
    case 2
    have n: "\<forall>j < length ts. (V[i := y]) ! (Suc i + j) = None" using 2(2) by auto
    have "V[i := None] = V" using 2 by (metis add.right_neutral length_Cons list_update_id zero_less_Suc)
    then have "put_kv_layers ''value_cache'' i (y # ts) (K, V) = put_kv_layers ''value_cache'' (Suc i) ts (K, V[i := y])"
      by (cases y) (simp_all add: put_kv_layer_def)
    then show ?case using Cons.IH(2) [of "Suc i" "V[i := y]" K] n 2(1) overlay_step [of i V y ts "length ts"] by simp
  }
qed simp_all

lemma describe_ok: "describe_cache cache i off ts = (ds, bs) \<Longrightarrow> \<forall>j \<in> set ds. json_ok j"
proof (induction cache i off ts arbitrary: ds bs rule: describe_cache.induct)
  case (3 cache i off t ts)
  then show ?case by (fastforce simp: tensor_desc_def split: prod.splits)
qed (auto split: prod.splits)

definition received_as :: "kv_data \<Rightarrow> kv_received" where
  "received_as d = \<lparr>kr_request_id = JStr (kd_request_id d), kr_key_cache = kd_key_cache d, kr_value_cache = kd_value_cache d,
     kr_block_ids = JList (map JInt (kd_block_ids d)), kr_metadata = JDict (kd_metadata d)\<rparr>"

definition kv_ok :: "(kv_tensor \<Rightarrow> bool) \<Rightarrow> kv_data \<Rightarrow> bool" where
  "kv_ok ok d \<longleftrightarrow> layers_ok ok (kd_key_cache d) \<and> layers_ok ok (kd_value_cache d) \<and>
     length (kd_value_cache d) = length (kd_key_cache d) \<and> json_ok (JDict (kd_metadata d))"

lemma header_fields:
  "jindex (kv_header d ds) ''nl'' = Inr (JInt (int (length (kd_key_cache d))))" "jindex (kv_header d ds) ''td'' = Inr (JList ds)"
  "jindex (kv_header d ds) ''rid'' = Inr (JStr (kd_request_id d))" "jindex (kv_header d ds) ''meta'' = Inr (JDict (kd_metadata d))"
  "jindex (kv_header d ds) ''bids'' = Inr (JList (map JInt (kd_block_ids d)))"
  by (simp_all add: kv_header_def jindex_def)

lemma caches_read:
  assumes "kv_ok ok d" "build_tensors_desc d = (ds, bs)" "reads data get ok" "data = take n bs"
  shows "populate_caches (kv_header d ds) get = (if length bs \<le> length data then Inr (received_as d) else Inl ValueError)"
proof -
  obtain kds kbs vds vbs where k: "describe_cache ''key_cache'' 0 0 (kd_key_cache d) = (kds, kbs)"
    and v: "describe_cache ''value_cache'' 0 (length kbs) (kd_value_cache d) = (vds, vbs)" and d: "ds = kds @ vds" "bs = kbs @ vbs"
    using assms(2) by (auto simp: build_tensors_desc_def split: prod.splits)
  let ?n = "length (kd_key_cache d)" and ?N = "replicate (length (kd_key_cache d)) None"
  have lay: "layers_ok ok (kd_key_cache d)" "layers_ok ok (kd_value_cache d)" "length (kd_value_cache d) = ?n"
    using assms(1) by (simp_all add: kv_ok_def)
  have dk: "take (length data - 0) kbs = take (length kbs) (drop 0 data)"
    using assms(4) d by (cases "n \<le> length kbs") (simp_all add: min_absorb1 min_absorb2)
  have K: "populate_all get (int ?n) (kds @ vds) (?N, ?N) =
      (if length kbs \<le> length data then populate_all get (int ?n) vds (kd_key_cache d, ?N) else Inl ValueError)"
    using cache_read [OF assms(3) lay(1) _ _ k _ dk, of ?n vds "(?N, ?N)"] put_kv_layers_fresh(1) [of 0 "kd_key_cache d" ?N ?N] by simp
  have V: "populate_all get (int ?n) vds (kd_key_cache d, ?N) =
      (if length bs \<le> length data then Inr (kd_key_cache d, kd_value_cache d) else Inl ValueError)" if le: "length kbs \<le> length data"
  proof -
    have dv: "take (length data - length kbs) vbs = take (length vbs) (drop (length kbs) data)"
      using assms(4) d le by (simp add: drop_take min.commute)
    show ?thesis
      using cache_read [OF assms(3) lay(2) _ _ v le dv, of ?n "[]" "(kd_key_cache d, ?N)"] lay(3)
        put_kv_layers_fresh(2) [of 0 "kd_value_cache d" ?N "kd_key_cache d"] by (simp add: d)
  qed
  have "populate_all get (int ?n) ds (?N, ?N) =
      (if length bs \<le> length data then Inr (kd_key_cache d, kd_value_cache d) else Inl ValueError)"
    using K V by (auto simp: d)
  then show ?thesis by (simp add: populate_caches_def header_fields jint_def jlist_def received_as_def)
qed

lemma kv_written:
  assumes "to_bytes J d = Inr raw" "json_ok (JDict (kd_metadata d))"
  obtains ds bs p where "build_tensors_desc d = (ds, bs)" "json_ok (kv_header d ds)"
    "pack_be32 (length (jc_dumps J (kv_header d ds))) = Inr p" "raw = p @ jc_dumps J (kv_header d ds) @ bs"
proof -
  obtain ds bs where b: "build_tensors_desc d = (ds, bs)" by (meson surj_pair)
  have "\<forall>j \<in> set ds. json_ok j" using b describe_ok by (fastforce simp: build_tensors_desc_def split: prod.splits)
  then have "json_ok (kv_header d ds)" using assms(2) by (simp add: kv_header_def)
  with that b assms(1) show thesis by (auto simp: to_bytes_def build_header_bytes_def Let_def rbind_Inr_iff split: if_splits)
qed

lemma packed_read_back:
  assumes "codec_laws J" "kv_ok (\<lambda>t. True) d" "to_bytes J d = Inr raw \<or> to_gpu_tensor J dev d = Inr raw"
  shows "from_bytes_device J raw = Inr (received_as d) \<and>
     (kv_ok (\<lambda>t. kt_bytes t \<noteq> []) d \<longrightarrow> from_bytes J raw = Inr (received_as d))"
proof -
  have m: "json_ok (JDict (kd_metadata d))" using assms(2) by (simp add: kv_ok_def)
  have b: "to_bytes J d = Inr raw" using assms(3) gpu_as_bytes by blast
  obtain ds bs p where w: "build_tensors_desc d = (ds, bs)" "json_ok (kv_header d ds)"
    "pack_be32 (length (jc_dumps J (kv_header d ds))) = Inr p" "raw = p @ jc_dumps J (kv_header d ds) @ bs"
    using kv_written [OF b m] by blast
  have h: "load_header J raw = Inr (kv_header d ds, bs)" unfolding w(4) by (rule load_written [OF assms(1) w(2,3)])
  have all: "bs = take (length bs) bs" by simp
  show ?thesis
    using caches_read [OF assms(2) w(1) tensor_reads all] caches_read [OF _ w(1) buffer_reads all]
    by (auto simp: from_bytes_def from_bytes_device_def h)
qed

text \<open>
  C14: A packed cache is read back as it was written.  When every tensor has an accepted dtype and as many
  bytes as its shape says, keys and values have the same number of layers, and the JSON library reads what it
  wrote, the bytes give back the request id, the block ids, the metadata and every tensor, absent layers
  included, whether the host form or the device form wrote them.  On the host this needs every tensor to have bytes; the device form also carries empty ones.
\<close>

theorem kv_bytes_roundtrip:
  assumes "codec_laws J" "kv_ok (\<lambda>t. True) d" "to_bytes J d = Inr raw \<or> to_gpu_tensor J dev d = Inr raw"
  shows "from_bytes_device J raw = Inr (received_as d) \<and>
     (kv_ok (\<lambda>t. kt_bytes t \<noteq> []) d \<longrightarrow> from_bytes J raw = Inr (received_as d))"
  using assms by (rule packed_read_back)

text \<open>
  C19: A cut-off cache is refused.  Every proper prefix of a packed cache, cut in the length, in the header
  or in the bytes of any tensor, raises a value error in both forms; nothing is ever read from outside the
  buffer.
\<close>

theorem kv_truncation_refused:
  assumes "codec_laws J" "kv_ok (\<lambda>t. kt_bytes t \<noteq> []) d" "to_bytes J d = Inr raw" "n < length raw"
  shows "from_bytes J (take n raw) = Inl ValueError \<and> from_bytes_device J (take n raw) = Inl ValueError"
proof -
  have m: "json_ok (JDict (kd_metadata d))" "kv_ok (\<lambda>t. True) d" using assms(2) by (auto simp: kv_ok_def layers_ok_def)
  obtain ds bs p where w: "build_tensors_desc d = (ds, bs)" "json_ok (kv_header d ds)"
    "pack_be32 (length (jc_dumps J (kv_header d ds))) = Inr p" "raw = p @ jc_dumps J (kv_header d ds) @ bs"
    using kv_written [OF assms(3) m(1)] by blast
  let ?h = "jc_dumps J (kv_header d ds)"
  have p: "length p = 4" "unpack_be32 p = length ?h" using unpack_pack [OF w(3)] by auto
  show ?thesis
  proof (cases "n < 4 + length ?h")
    case True
    have "load_header J (take n raw) = Inl ValueError"
    proof (cases "n < 4")
      case False
      then have "take 4 (take n raw) = p" using w(4) p by (simp add: min_absorb1)
      moreover have "length (take n raw) = n" using assms(4) by simp
      moreover have "n - 4 < length ?h" using True False by simp
      ultimately show ?thesis using False p by (simp add: load_header_def Let_def)
    qed (use assms(4) in \<open>simp add: load_header_def\<close>)
    then show ?thesis by (simp add: from_bytes_def from_bytes_device_def)
  next
    case False
    define k where "k = n - (4 + length ?h)"
    have t: "take n raw = p @ ?h @ take k bs" using w(4) p False by (simp add: k_def)
    have h: "load_header J (take n raw) = Inr (kv_header d ds, take k bs)"
      unfolding t by (rule load_written [OF assms(1) w(2,3)])
    have "\<not> length bs \<le> length (take k bs)" using assms(4) w(4) p False by (simp add: k_def)
    then show ?thesis
      using caches_read [OF m(2) w(1) tensor_reads refl, of k] caches_read [OF assms(2) w(1) buffer_reads refl, of k]
      by (simp add: from_bytes_def from_bytes_device_def h)
  qed
qed

section \<open>A codec that satisfies the laws\<close>

text \<open>Tags before the values, numbers in unary; \<open>dec\<close> takes fuel, of which the number of bytes is enough.\<close>

definition enc_nat :: "nat \<Rightarrow> byte list" where "enc_nat n = replicate n 1 @ [0]"

definition enc_str :: "string \<Rightarrow> byte list" where "enc_str s = enc_nat (length s) @ map (\<lambda>c. of_nat (of_char c)) s"

fun enc :: "json \<Rightarrow> byte list" where
  "enc JNull = [0]"
| "enc (JBool b) = [1, of_bool b]"
| "enc (JInt i) = 2 # of_bool (i < 0) # enc_nat (nat \<bar>i\<bar>)"
| "enc (JFloat w) = 3 # enc_nat (unat w)"
| "enc (JStr s) = 4 # enc_str s"
| "enc (JList js) = 5 # concat (map (\<lambda>j. 1 # enc j) js) @ [0]"
| "enc (JDict d) = 6 # concat (map (\<lambda>(k, j). 1 # enc_str k @ enc j) d) @ [0]"

fun dec_nat :: "byte list \<Rightarrow> nat \<times> byte list" where
  "dec_nat (b # bs) = (if b = 1 then (case dec_nat bs of (n, r) \<Rightarrow> (Suc n, r)) else (0, bs))"
| "dec_nat [] = (0, [])"

definition dec_str :: "byte list \<Rightarrow> string \<times> byte list" where
  "dec_str bs = (case dec_nat bs of (n, r) \<Rightarrow> (map (\<lambda>b. char_of (unat b)) (take n r), drop n r))"

fun dec :: "nat \<Rightarrow> byte list \<Rightarrow> json \<times> byte list"
and dec_list :: "nat \<Rightarrow> byte list \<Rightarrow> json list \<times> byte list"
and dec_dict :: "nat \<Rightarrow> byte list \<Rightarrow> (string \<times> json) list \<times> byte list" where
  "dec (Suc n) (t # bs) =
     (if t = 1 then (JBool (hd bs = 1), tl bs)
      else if t = 2 then (case dec_nat (tl bs) of (k, r) \<Rightarrow> (JInt (if hd bs = 1 then - int k else int k), r))
      else if t = 3 then (case dec_nat bs of (k, r) \<Rightarrow> (JFloat (of_nat k), r))
      else if t = 4 then (case dec_str bs of (s, r) \<Rightarrow> (JStr s, r))
      else if t = 5 then (case dec_list n bs of (js, r) \<Rightarrow> (JList js, r))
      else if t = 6 then (case dec_dict n bs of (d, r) \<Rightarrow> (JDict d, r))
      else (JNull, bs))"
| "dec n bs = (JNull, bs)"
| "dec_list (Suc n) (b # bs) =
     (if b = 1 then (case dec n bs of (j, r) \<Rightarrow> (case dec_list n r of (js, r') \<Rightarrow> (j # js, r'))) else ([], bs))"
| "dec_list n bs = ([], bs)"
| "dec_dict (Suc n) (b # bs) =
     (if b = 1 then (case dec_str bs of (k, r0) \<Rightarrow> (case dec n r0 of (j, r) \<Rightarrow> (case dec_dict n r of (d, r') \<Rightarrow> ((k, j) # d, r'))))
      else ([], bs))"
| "dec_dict n bs = ([], bs)"

lemma dec_nat_enc [simp]: "dec_nat (enc_nat n @ r) = (n, r)"
  unfolding enc_nat_def by (induction n) simp_all

lemma byte_char: "char_of (unat (of_nat (of_char c) :: byte)) = c"
proof -
  have "(of_char c :: nat) < 256" by simp
  then show ?thesis by (simp add: unat_of_nat take_bit_eq_mod)
qed

lemma dec_str_enc [simp]: "dec_str (enc_str s @ r) = (s, r)"
  by (simp add: dec_str_def enc_str_def o_def byte_char)

lemma dec_items:
  assumes "\<And>j n r. j \<in> set js \<Longrightarrow> length (enc j) \<le> n \<Longrightarrow> dec n (enc j @ r) = (j, r)"
      and "length (concat (map (\<lambda>j. 1 # enc j) js)) < n"
  shows "dec_list n (concat (map (\<lambda>j. 1 # enc j) js) @ 0 # r) = (js, r)"
  using assms
proof (induction js arbitrary: n)
  case Nil
  then show ?case by (cases n) simp_all
next
  case (Cons j js)
  then obtain m where n: "n = Suc m" by (cases n) auto
  have "dec m (enc j @ concat (map (\<lambda>j. 1 # enc j) js) @ 0 # r) = (j, concat (map (\<lambda>j. 1 # enc j) js) @ 0 # r)"
    using Cons.prems by (simp add: n)
  moreover have "dec_list m (concat (map (\<lambda>j. 1 # enc j) js) @ 0 # r) = (js, r)"
    using Cons.prems by (intro Cons.IH) (simp_all add: n)
  ultimately show ?case by (simp add: n)
qed

lemma dec_entries:
  assumes "\<And>k j n r. (k, j) \<in> set d \<Longrightarrow> length (enc j) \<le> n \<Longrightarrow> dec n (enc j @ r) = (j, r)"
      and "length (concat (map (\<lambda>(k, j). 1 # enc_str k @ enc j) d)) < n"
  shows "dec_dict n (concat (map (\<lambda>(k, j). 1 # enc_str k @ enc j) d) @ 0 # r) = (d, r)"
  using assms
proof (induction d arbitrary: n)
  case Nil
  then show ?case by (cases n) simp_all
next
  case (Cons kj d)
  obtain k j where kj: "kj = (k, j)" by (meson surj_pair)
  let ?rest = "concat (map (\<lambda>(k, j). 1 # enc_str k @ enc j) d) @ 0 # r"
  obtain m where n: "n = Suc m" using Cons.prems(2) by (cases n) auto
  have "dec m (enc j @ ?rest) = (j, ?rest)"
    using Cons.prems(1) [of k j m ?rest] Cons.prems(2) by (simp add: n kj)
  moreover have "dec_dict m ?rest = (d, r)" using Cons.prems by (intro Cons.IH) (auto simp: n kj)
  ultimately show ?case by (simp add: n kj)
qed

lemma dec_enc: "length (enc j) \<le> n \<Longrightarrow> dec n (enc j @ r) = (j, r)"
proof (induction j arbitrary: n r)
  case (JList js)
  then obtain m where n: "n = Suc m" by (cases n) auto
  have "dec_list m (concat (map (\<lambda>j. 1 # enc j) js) @ 0 # r) = (js, r)"
    using JList by (intro dec_items) (auto simp: n)
  then show ?case by (simp add: n)
next
  case (JDict d)
  then obtain m where n: "n = Suc m" by (cases n) auto
  have "dec_dict m (concat (map (\<lambda>(k, j). 1 # enc_str k @ enc j) d) @ 0 # r) = (d, r)"
    using JDict by (intro dec_entries) (auto simp: n)
  then show ?case by (simp add: n)
next
  case (JInt i)
  then obtain m where "n = Suc m" by (cases n) auto
  then show ?case by simp
next
  case (JFloat w)
  then obtain m where "n = Suc m" by (cases n) auto
  then show ?case by simp
next
  case (JStr s)
  then obtain m where "n = Suc m" by (cases n) auto
  then show ?case by simp
qed (case_tac n; simp)+

definition unary_codec :: json_codec where
  "unary_codec = \<lparr>jc_dumps = enc, jc_loads = (\<lambda>bs. Inr (fst (dec (length bs) bs)))\<rparr>"

lemma unary_laws: "codec_laws unary_codec"
  using dec_enc [of _ _ "[]"] by (simp add: codec_laws_def unary_codec_def)

definition small_cache :: kv_data where
  "small_cache = \<lparr>kd_request_id = ''r'',
     kd_key_cache = [Some \<lparr>kt_dtype = ''int8'', kt_shape = [1, 2], kt_bytes = [5, 6]\<rparr>, None],
     kd_value_cache = [Some \<lparr>kt_dtype = ''int16'', kt_shape = [1, 1], kt_bytes = [7, 8]\<rparr>, None],
     kd_block_ids = [3], kd_metadata = [(''seq_len'', JInt 1)]\<rparr>"

lemma small_ok: "kv_ok (\<lambda>t. kt_bytes t \<noteq> []) small_cache" "kv_ok (\<lambda>t. True) small_cache"
  by (auto simp: kv_ok_def layers_ok_def small_cache_def tensor_ok_def SAFE_TORCH_DTYPES_def)

lemma small_written: "\<exists>raw. to_bytes unary_codec small_cache = Inr raw \<and> length raw > 10"
  by (simp add: to_bytes_def build_tensors_desc_def build_header_bytes_def small_cache_def tensor_desc_def kv_header_def
      unary_codec_def enc_str_def enc_nat_def pack_be32_def str_nat.simps Let_def present_def byte_viewable_def
      List.map_filter_def)

lemma kv_bytes_roundtrip_witness:
  "rbind (to_bytes unary_codec small_cache) (from_bytes unary_codec) = Inr (received_as small_cache)"
proof -
  obtain raw where r: "to_bytes unary_codec small_cache = Inr raw" using small_written by blast
  from kv_bytes_roundtrip [OF unary_laws small_ok(2), of raw] r small_ok(1) show ?thesis by (simp add: r)
qed

lemma kv_truncation_refused_witness:
  "rbind (to_bytes unary_codec small_cache) (\<lambda>raw. from_bytes unary_codec (take 10 raw)) = Inl ValueError"
proof -
  obtain raw where r: "to_bytes unary_codec small_cache = Inr raw" "10 < length raw" using small_written by blast
  from kv_truncation_refused [OF unary_laws small_ok(1) r] show ?thesis by (simp add: r)
qed

end
