(* ===== verification/KV_Shards.thy ===== *)
theory KV_Shards
  imports KV_Bytes
begin

text \<open>
  Head shards of a key-value cache (\<^verbatim>\<open>distributed/omni_connectors/utils/kv_utils.py\<close>): the tensor-parallel
  topology of a transfer, which ranks exchange shards and under which keys and ports, the slicing of heads
  and the merging of shards, the layouts of the attention backends, and the extraction of a request's blocks
  (\<^verbatim>\<open>kv_transfer_manager.py\<close>).

  Tensors are contiguous and row-major, as the code makes them before it slices, merges or packs.  What
  \<^verbatim>\<open>torch.cat\<close> does on tensors that do not agree in dtype or shape is the parameter \<open>odd_cat\<close>.
\<close>

section \<open>Tensors along one dimension\<close>

text \<open>The bytes of one index of the dimensions before \<open>d\<close>, and of one index of the dimensions up to \<open>d\<close>.\<close>

definition row_width :: "nat \<Rightarrow> kv_tensor \<Rightarrow> nat" where
  "row_width d t = length (kt_bytes t) div prod_list (take d (kt_shape t))"

definition rows :: "nat \<Rightarrow> kv_tensor \<Rightarrow> byte list list" where
  "rows d t = map (\<lambda>i. take (row_width d t) (drop (i * row_width d t) (kt_bytes t))) [0..<prod_list (take d (kt_shape t))]"

definition cell_width :: "nat \<Rightarrow> kv_tensor \<Rightarrow> nat" where
  "cell_width d t = row_width d t div kt_shape t ! d"

text \<open>\<^verbatim>\<open>tensor.narrow(d, start, n)\<close> and \<^verbatim>\<open>torch.cat(ts, dim=d)\<close>, made contiguous.\<close>

definition narrow :: "nat \<Rightarrow> nat \<Rightarrow> nat \<Rightarrow> kv_tensor \<Rightarrow> kv_tensor" where
  "narrow d start n t = t\<lparr>kt_shape := (kt_shape t)[d := n],
     kt_bytes := concat (map (\<lambda>r. take (n * cell_width d t) (drop (start * cell_width d t) r)) (rows d t))\<rparr>"

definition torch_cat :: "(kv_tensor list \<Rightarrow> py_exc + kv_tensor) \<Rightarrow> nat \<Rightarrow> kv_tensor list \<Rightarrow> py_exc + kv_tensor" where
  "torch_cat odd_cat d ts =
     (let t = hd ts
      in if ts \<noteq> [] \<and> (\<forall>u \<in> set ts. kt_dtype u = kt_dtype t \<and> d < length (kt_shape u) \<and> (kt_shape u)[d := 0] = (kt_shape t)[d := 0])
         then Inr (t\<lparr>kt_shape := (kt_shape t)[d := sum_list (map (\<lambda>u. kt_shape u ! d) ts)],
           kt_bytes := concat (map (\<lambda>i. concat (map (\<lambda>u. rows d u ! i) ts)) [0..<prod_list (take d (kt_shape t))])\<rparr>)
         else odd_cat ts)"

section \<open>Topology, keys and ports\<close>

record kv_topo =
  source_tp :: nat
  target_tp :: nat
  local_rank :: nat

definition new_topo :: "int \<Rightarrow> int \<Rightarrow> int \<Rightarrow> py_exc + kv_topo" where
  "new_topo s t r =
     (if s \<le> 0 \<or> t \<le> 0 then Inl ValueError else if r < 0 then Inl ValueError
      else Inr \<lparr>source_tp = nat s, target_tp = nat t, local_rank = nat r\<rparr>)"

definition is_heterogeneous :: "kv_topo \<Rightarrow> bool" where
  "is_heterogeneous T \<longleftrightarrow> source_tp T \<noteq> target_tp T"

definition tp_ratio :: "kv_topo \<Rightarrow> nat" where
  "tp_ratio T = max (source_tp T) (target_tp T) div min (source_tp T) (target_tp T)"

definition validate_kv_tp_topology :: "kv_topo \<Rightarrow> py_exc + unit" where
  "validate_kv_tp_topology T =
     (if max (source_tp T) (target_tp T) mod min (source_tp T) (target_tp T) \<noteq> 0 then Inl ValueError else Inr ())"

definition get_kv_target_ranks :: "kv_topo \<Rightarrow> py_exc + nat list" where
  "get_kv_target_ranks T = rbind (validate_kv_tp_topology T) (\<lambda>_. Inr (
     if source_tp T = target_tp T then [local_rank T]
     else if source_tp T > target_tp T then [local_rank T div (source_tp T div target_tp T)]
     else (let ratio = target_tp T div source_tp T in map (\<lambda>i. local_rank T * ratio + i) [0..<ratio])))"

definition get_kv_source_ranks :: "kv_topo \<Rightarrow> py_exc + nat list" where
  "get_kv_source_ranks T = rbind (validate_kv_tp_topology T) (\<lambda>_. Inr (
     if source_tp T = target_tp T then [local_rank T]
     else if source_tp T > target_tp T
     then (let ratio = source_tp T div target_tp T in map (\<lambda>i. local_rank T * ratio + i) [0..<ratio])
     else [local_rank T div (target_tp T div source_tp T)]))"

definition get_kv_connector_key :: "string \<Rightarrow> string \<Rightarrow> nat \<Rightarrow> nat \<Rightarrow> nat \<Rightarrow> string" where
  "get_kv_connector_key req_id from_stage chunk_id from_rank to_rank =
     req_id @ ''_'' @ from_stage @ ''_'' @ str_nat chunk_id @ ''_'' @ str_nat from_rank @ ''_'' @ str_nat to_rank"

definition single_key :: "string \<Rightarrow> string \<Rightarrow> string \<Rightarrow> string" where
  "single_key request_id from_stage to_stage = ''omni_'' @ from_stage @ ''_to_'' @ to_stage @ ''_kv_cache_'' @ request_id"

text \<open>A hook may build the keys; on the receiving side it returns bare keys or keys with sender ranks.\<close>

type_synonym send_hook = "string \<Rightarrow> string \<Rightarrow> string \<Rightarrow> py_exc + string list"

datatype hook_keys = Bare "string list" | Ranked "(string \<times> nat option) list"

type_synonym recv_hook = "string \<Rightarrow> string \<Rightarrow> string \<Rightarrow> py_exc + hook_keys"

definition default_send_keys :: "string \<Rightarrow> string \<Rightarrow> string \<Rightarrow> kv_topo \<Rightarrow> py_exc + string list" where
  "default_send_keys rid from_stage to_stage T =
     (if source_tp T \<le> 1 \<and> target_tp T \<le> 1 then Inr [single_key rid from_stage to_stage]
      else rbind (get_kv_target_ranks T) (\<lambda>rs. Inr (map (get_kv_connector_key rid from_stage 0 (local_rank T)) rs)))"

definition build_rank_aware_send_keys ::
  "string \<Rightarrow> string \<Rightarrow> string \<Rightarrow> kv_topo \<Rightarrow> send_hook option \<Rightarrow> py_exc + string list" where
  "build_rank_aware_send_keys rid from_stage to_stage T hook = (case hook of
     None \<Rightarrow> default_send_keys rid from_stage to_stage T
   | Some h \<Rightarrow> rbind (h rid from_stage to_stage) (\<lambda>keys.
       if keys \<noteq> [] then Inr keys else default_send_keys rid from_stage to_stage T))"

definition default_recv_keys :: "string \<Rightarrow> string \<Rightarrow> string \<Rightarrow> kv_topo \<Rightarrow> py_exc + (string \<times> nat option) list" where
  "default_recv_keys rid from_stage to_stage T =
     (if source_tp T \<le> 1 \<and> target_tp T \<le> 1 then Inr [(single_key rid from_stage to_stage, None)]
      else rbind (get_kv_source_ranks T) (\<lambda>rs.
        Inr (map (\<lambda>r. (get_kv_connector_key rid from_stage 0 r (local_rank T), Some r)) rs)))"

definition build_rank_aware_recv_keys ::
  "string \<Rightarrow> string \<Rightarrow> string \<Rightarrow> kv_topo \<Rightarrow> recv_hook option \<Rightarrow> py_exc + (string \<times> nat option) list" where
  "build_rank_aware_recv_keys rid from_stage to_stage T hook = (case hook of
     None \<Rightarrow> default_recv_keys rid from_stage to_stage T
   | Some h \<Rightarrow> rbind (h rid from_stage to_stage) (\<lambda>raw. case raw of
       Ranked ks \<Rightarrow> if ks \<noteq> [] then Inr ks else default_recv_keys rid from_stage to_stage T
     | Bare ks \<Rightarrow> if ks = [] then default_recv_keys rid from_stage to_stage T
         else rbind (get_kv_source_ranks T) (\<lambda>rs.
           Inr (if length ks = length rs then zip ks (map Some rs) else map (\<lambda>k. (k, None)) ks))))"

abbreviation "KV_TRANSFER_PORT_OFFSET \<equiv> (100 :: int)"
abbreviation "KV_RANK_PORT_STRIDE \<equiv> (16 :: int)"
abbreviation "KV_REPLICA_PORT_STRIDE \<equiv> (1024 :: int)"

text \<open>The replica id of the environment, used for the port when none is given.\<close>

definition get_omni_replica_id :: "string option \<Rightarrow> int" where
  "get_omni_replica_id env = (case py_int (case env of None \<Rightarrow> ''0'' | Some s \<Rightarrow> s) of Inl e \<Rightarrow> 0 | Inr i \<Rightarrow> max i 0)"

definition kv_zmq_port :: "string option \<Rightarrow> int \<Rightarrow> int \<Rightarrow> int \<Rightarrow> int option \<Rightarrow> int" where
  "kv_zmq_port env base_port from_stage rank replica_id =
     base_port + KV_TRANSFER_PORT_OFFSET + (case replica_id of None \<Rightarrow> get_omni_replica_id env | Some r \<Rightarrow> max r 0) * KV_REPLICA_PORT_STRIDE
       + rank * KV_RANK_PORT_STRIDE + from_stage"

section \<open>Slicing and merging\<close>

definition slice_kv_tensor_heads :: "nat \<Rightarrow> nat \<Rightarrow> kv_tensor option \<Rightarrow> py_exc + kv_tensor option" where
  "slice_kv_tensor_heads off num t_opt = (case t_opt of
     None \<Rightarrow> Inr None
   | Some t \<Rightarrow>
       if length (kt_shape t) < 2 then Inl ValueError
       else if num = 0 then Inl ValueError
       else if \<not> off < num then Inl ValueError
       else if kt_shape t ! 1 mod num \<noteq> 0 then Inl ValueError
       else (let per = kt_shape t ! 1 div num in Inr (Some (narrow 1 (off * per) per t))))"

definition slice_layer_blocks :: "nat \<Rightarrow> nat \<Rightarrow> kv_caches \<Rightarrow> py_exc + kv_caches" where
  "slice_layer_blocks off num = (\<lambda>(K, V).
     rbind (rmap (slice_kv_tensor_heads off num) K) (\<lambda>K'.
       rbind (rmap (slice_kv_tensor_heads off num) V) (\<lambda>V'. Inr (K', V'))))"

definition merge_layer :: "(kv_tensor list \<Rightarrow> py_exc + kv_tensor) \<Rightarrow> kv_tensor option list list \<Rightarrow> nat \<Rightarrow> py_exc + kv_tensor option" where
  "merge_layer odd_cat caches i =
     (let ts = List.map_filter (\<lambda>l. if i < length l then l ! i else None) caches
      in if ts = [] then Inr None else if length ts = 1 then Inr (Some (hd ts))
         else rbind (torch_cat odd_cat 1 ts) (\<lambda>t. Inr (Some t)))"

definition merge_cache :: "(kv_tensor list \<Rightarrow> py_exc + kv_tensor) \<Rightarrow> kv_tensor option list list \<Rightarrow> py_exc + kv_tensor option list" where
  "merge_cache odd_cat caches = rmap (merge_layer odd_cat caches) [0..<foldr max (map length caches) 0]"

text \<open>\<^verbatim>\<open>dict(x)\<close> and \<^verbatim>\<open>list(x)\<close> of the fields of a received payload; a metadata that is not an object counts
  as an error here, also where Python could make a dict of a list of pairs.\<close>

definition jdict :: "json \<Rightarrow> py_exc + (string \<times> json) list" where
  "jdict j = (case j of JDict d \<Rightarrow> Inr d | JList [] \<Rightarrow> Inr [] | JStr [] \<Rightarrow> Inr [] | _ \<Rightarrow> Inl TypeError)"

type_synonym kv_merger = "kv_received list \<Rightarrow> py_exc + kv_received option"

definition merge_received_rank_shards ::
  "(kv_tensor list \<Rightarrow> py_exc + kv_tensor) \<Rightarrow> kv_merger option \<Rightarrow> kv_merger" where
  "merge_received_rank_shards odd_cat merger ps = (case merger of Some m \<Rightarrow> m ps
   | None \<Rightarrow>
       if ps = [] then Inr None
       else if length ps = 1 then Inr (Some (hd ps))
       else rbind (jlist (kr_block_ids (hd ps))) (\<lambda>bids. rbind (jdict (kr_metadata (hd ps))) (\<lambda>meta.
         rbind (merge_cache odd_cat (map kr_key_cache ps)) (\<lambda>K. rbind (merge_cache odd_cat (map kr_value_cache ps)) (\<lambda>V.
           Inr (Some \<lparr>kr_request_id = kr_request_id (hd ps), kr_key_cache = K, kr_value_cache = V,
             kr_block_ids = JList bids, kr_metadata = JDict meta\<rparr>))))))"

definition nat_entry :: "string \<Rightarrow> nat \<Rightarrow> string \<times> json" where
  "nat_entry k n = (k, JInt (int n))"

text \<open>The mark of a sliced payload; a sender also names itself.\<close>

definition head_slice_tag :: "string \<Rightarrow> kv_topo \<Rightarrow> nat \<Rightarrow> (string \<times> json) list \<Rightarrow> json" where
  "head_slice_tag side T target source =
     JDict ([(''applied'', JBool True), (''side'', JStr side), nat_entry ''target_rank'' target] @ source @
       [nat_entry ''from_tp'' (source_tp T), nat_entry ''to_tp'' (target_tp T),
        nat_entry ''offset_in_shard'' (target mod (target_tp T div source_tp T)),
        nat_entry ''num_slices'' (target_tp T div source_tp T)])"

definition already_sliced :: "json \<Rightarrow> bool" where
  "already_sliced meta = (case meta of
     JDict d \<Rightarrow> (case dict_get d ''tp_head_slice'' of
       Some (JDict s) \<Rightarrow> (case dict_get s ''applied'' of Some j \<Rightarrow> jtruth j | None \<Rightarrow> False)
     | _ \<Rightarrow> False)
   | _ \<Rightarrow> False)"

definition slice_received_rank_shard ::
  "kv_topo \<Rightarrow> (kv_received option \<Rightarrow> py_exc + kv_received option) option \<Rightarrow> kv_received option \<Rightarrow> py_exc + kv_received option" where
  "slice_received_rank_shard T slicer payload = (case slicer of Some s \<Rightarrow> s payload
   | None \<Rightarrow> (case payload of None \<Rightarrow> Inr None | Some p \<Rightarrow>
       if target_tp T \<le> source_tp T then Inr (Some p)
       else if already_sliced (kr_metadata p) then Inr (Some p)
       else (let ratio = target_tp T div source_tp T; off = local_rank T mod ratio;
               meta = (case kr_metadata p of JDict d \<Rightarrow> d | _ \<Rightarrow> [])
             in rbind (slice_layer_blocks off ratio (kr_key_cache p, kr_value_cache p)) (\<lambda>(K, V).
               rbind (jlist (kr_block_ids p)) (\<lambda>bids.
                 Inr (Some \<lparr>kr_request_id = kr_request_id p, kr_key_cache = K, kr_value_cache = V, kr_block_ids = JList bids,
                   kr_metadata = JDict (dict_set ''tp_head_slice'' (head_slice_tag ''receiver'' T (local_rank T) []) meta)\<rparr>))))))"

section \<open>Layouts and extraction\<close>

datatype layer_part = Part kv_tensor | NotTensor

datatype layer_kv = Stacked kv_tensor | KV_Tuple "layer_part list" | Unsupported

definition normalize_layer_kv :: "layer_kv \<Rightarrow> (kv_tensor \<times> kv_tensor) option" where
  "normalize_layer_kv l =
     (let pair = (case l of
          Stacked t \<Rightarrow>
            let sh = kt_shape t;
                pick = (\<lambda>d i. (narrow d i 1 t)\<lparr>kt_shape := take d sh @ drop (Suc d) sh\<rparr>)
            in if length sh \<ge> 3 \<and> sh ! 0 = 2 then Some (pick 0 0, pick 0 1)
               else if length sh \<ge> 3 \<and> sh ! 1 = 2 then Some (pick 1 0, pick 1 1)
               else None
        | KV_Tuple [Part k, Part v] \<Rightarrow> Some (k, v)
        | _ \<Rightarrow> None)
      in case pair of None \<Rightarrow> None
         | Some (k, v) \<Rightarrow> if length (kt_shape k) < 2 \<or> length (kt_shape v) < 2 then None else Some (k, v))"

text \<open>\<^verbatim>\<open>blocks[ids].flatten(0, 1)\<close>, cut to the first \<open>seq_len\<close> rows when \<open>cut\<close>.\<close>

definition flatten_blocks :: "nat list \<Rightarrow> kv_tensor \<Rightarrow> kv_tensor" where
  "flatten_blocks ids t =
     t\<lparr>kt_shape := length ids * kt_shape t ! 1 # drop 2 (kt_shape t), kt_bytes := concat (map (\<lambda>b. rows 1 t ! b) ids)\<rparr>"

definition first_rows :: "nat \<Rightarrow> kv_tensor \<Rightarrow> kv_tensor" where
  "first_rows n t = narrow 0 0 (min n (kt_shape t ! 0)) t"

definition extract_layer :: "int list \<Rightarrow> nat \<Rightarrow> layer_kv \<Rightarrow> (kv_tensor \<times> kv_tensor) option" where
  "extract_layer block_ids seq_len l = (case normalize_layer_kv l of None \<Rightarrow> None | Some (k, v) \<Rightarrow>
     let max_block = int (min (kt_shape k ! 0) (kt_shape v ! 0)) - 1;
         valid = map nat (filter (\<lambda>b. 0 \<le> b \<and> b \<le> max_block) block_ids)
     in if valid = [] then None
        else let fk = flatten_blocks valid k; fv = flatten_blocks valid v
             in if seq_len < kt_shape fk ! 0 then Some (first_rows seq_len fk, first_rows seq_len fv) else Some (fk, fv))"

definition extract_kv_cache ::
  "string \<Rightarrow> int list \<Rightarrow> nat \<Rightarrow> layer_kv list \<Rightarrow> nat \<Rightarrow> string \<Rightarrow> (string \<times> json) list \<Rightarrow> kv_data option" where
  "extract_kv_cache req_id block_ids seq_len kv_caches block_size cache_dtype custom =
     (let layers = map (extract_layer block_ids seq_len) kv_caches
      in if \<forall>l \<in> set layers. l = None then None
         else Some \<lparr>kd_request_id = req_id, kd_key_cache = map (map_option fst) layers,
           kd_value_cache = map (map_option snd) layers, kd_block_ids = block_ids,
           kd_metadata = fold (\<lambda>(k, v). dict_set k v) custom
             [nat_entry ''block_size'' block_size, nat_entry ''num_layers'' (length kv_caches),
              (''dtype'', JStr cache_dtype), nat_entry ''seq_len'' seq_len]\<rparr>)"

section \<open>Rows\<close>

lemma concat_pieces: "concat (map (\<lambda>i. take w (drop (i * w) bs)) [0..<n]) = take (n * w) bs"
  by (induction n) (simp_all add: take_add [symmetric] add.commute)

lemma pieces_concat:
  "\<forall>r \<in> set rs. length r = w \<Longrightarrow> map (\<lambda>i. take w (drop (i * w) (concat rs))) [0..<length rs] = rs"
proof (induction rs)
  case (Cons r rs)
  have "map (\<lambda>i. take w (drop (i * w) (concat (r # rs)))) [0..<length (r # rs)] =
      take w (r @ concat rs) # map (\<lambda>i. take w (drop (Suc i * w) (r @ concat rs))) [0..<length rs]"
    by (simp add: upt_rec [of 0] map_Suc_upt [symmetric] o_def del: upt_Suc map_Suc_upt)
  then show ?case using Cons by simp
qed simp

text \<open>\<open>o\<close> rows of \<open>h\<close> cells of \<open>c\<close> bytes along dimension \<open>d\<close>.\<close>

definition grid :: "nat \<Rightarrow> kv_tensor \<Rightarrow> nat \<Rightarrow> nat \<Rightarrow> nat \<Rightarrow> bool" where
  "grid d t n h c \<longleftrightarrow> d < length (kt_shape t) \<and> prod_list (take d (kt_shape t)) = n \<and> kt_shape t ! d = h \<and>
     length (kt_bytes t) = n * (h * c) \<and> n > 0 \<and> h > 0"

lemma grid_widths: "grid d t n h c \<Longrightarrow> row_width d t = h * c \<and> cell_width d t = c"
  by (simp add: grid_def row_width_def cell_width_def)

lemma grid_rows:
  assumes "grid d t n h c"
  shows "length (rows d t) = n" "\<forall>r \<in> set (rows d t). length r = h * c"
proof -
  show "length (rows d t) = n" using assms by (simp add: rows_def grid_def)
  have "length (take (h * c) (drop (i * (h * c)) (kt_bytes t))) = h * c" if "i < n" for i
  proof -
    have "Suc i * (h * c) \<le> n * (h * c)" using that by (intro mult_right_mono) simp_all
    then show ?thesis using assms by (simp add: grid_def)
  qed
  then show "\<forall>r \<in> set (rows d t). length r = h * c" using assms grid_widths [OF assms] by (auto simp: rows_def grid_def)
qed

lemma prod_update: "d < length sh \<Longrightarrow> prod_list (take d (sh[d := n])) = prod_list (take d sh)"
  by simp

lemma narrow_grid:
  assumes "grid d t m h c" "s + n \<le> h" "n > 0"
  shows "grid d (narrow d s n t) m n c"
    and "rows d (narrow d s n t) = map (\<lambda>r. take (n * c) (drop (s * c) r)) (rows d t)"
proof -
  let ?rs = "map (\<lambda>r. take (n * c) (drop (s * c) r)) (rows d t)"
  have b: "kt_bytes (narrow d s n t) = concat ?rs" using grid_widths [OF assms(1)] by (simp add: narrow_def)
  have "(s + n) * c \<le> h * c" using assms(2) by (rule mult_right_mono) simp
  then have l: "\<forall>r \<in> set ?rs. length r = n * c" using grid_rows [OF assms(1)] by (auto simp: distrib_right)
  then have len: "length (concat ?rs) = m * (n * c)"
    using grid_rows(1) [OF assms(1)] by (simp add: length_concat sum_list_triv o_def cong: map_cong)
  show g: "grid d (narrow d s n t) m n c" using assms len unfolding grid_def b by (simp add: narrow_def)
  show "rows d (narrow d s n t) = ?rs"
    using pieces_concat [OF l] grid_rows(1) [OF assms(1)] g grid_widths [OF g] unfolding rows_def [of d "narrow d s n t"] b
    by (simp add: grid_def)
qed

lemma narrow_narrow:
  assumes "grid d t m h c" "s1 + n1 \<le> h" "n1 > 0" "s2 + n2 \<le> n1"
  shows "narrow d s2 n2 (narrow d s1 n1 t) = narrow d (s1 + s2) n2 t"
proof -
  have "(s2 + n2) * c \<le> n1 * c" using assms(4) by (rule mult_right_mono) simp
  then have t: "take (n2 * c) (drop (s2 * c) (take (n1 * c) (drop (s1 * c) r))) = take (n2 * c) (drop ((s1 + s2) * c) r)" for r :: "byte list"
    by (simp add: drop_take min_absorb1 distrib_right add.commute)
  note g = narrow_grid [OF assms(1-3)]
  show ?thesis
    unfolding narrow_def [of d s2] g(2) using grid_widths [OF g(1)] grid_widths [OF assms(1)] by (simp add: narrow_def t o_def)
qed

lemma cat_narrow:
  assumes "grid 1 t m h c" "s + k * n \<le> h" "n > 0" "k > 0"
  shows "torch_cat odd_cat 1 (map (\<lambda>i. narrow 1 (s + i * n) n t) [0..<k]) = Inr (narrow 1 s (k * n) t)"
proof -
  let ?u = "\<lambda>i. narrow 1 (s + i * n) n t"
  have fit: "s + i * n + n \<le> h" if "i < k" for i
  proof -
    have "Suc i * n \<le> k * n" using that by (intro mult_right_mono) simp_all
    then show ?thesis using assms(2) by simp
  qed
  note g = narrow_grid [OF assms(1) fit assms(3)]
  have sh: "kt_shape (?u i) = (kt_shape t)[1 := n]" "kt_dtype (?u i) = kt_dtype t" for i by (simp_all add: narrow_def)
  have d: "1 < length (kt_shape t)" using assms(1) by (simp add: grid_def)
  have hd: "hd (map ?u [0..<k]) = ?u 0" using assms(4) by (simp add: hd_map upt_rec)
  have row: "concat (map (\<lambda>u. rows 1 u ! j) (map ?u [0..<k])) = take (k * n * c) (drop (s * c) (rows 1 t ! j))" if "j < m" for j
  proof -
    have "map (\<lambda>u. rows 1 u ! j) (map ?u [0..<k]) = map (\<lambda>i. take (n * c) (drop (i * (n * c)) (drop (s * c) (rows 1 t ! j)))) [0..<k]"
      using g(2) that grid_rows(1) [OF assms(1)] by (auto simp: distrib_right add.commute mult.assoc)
    then show ?thesis
      using concat_pieces [of "n * c" "drop (s * c) (rows 1 t ! j)" k] by (simp only: mult.assoc)
  qed
  have p: "prod_list (take 1 (kt_shape (?u 0))) = m" using assms(1) by (simp add: narrow_def grid_def)
  have bytes: "concat (map (\<lambda>j. concat (map (\<lambda>u. rows 1 u ! j) (map ?u [0..<k]))) [0..<m]) = kt_bytes (narrow 1 s (k * n) t)"
  proof -
    have "map (\<lambda>j. concat (map (\<lambda>u. rows 1 u ! j) (map ?u [0..<k]))) [0..<m] = map (\<lambda>r. take (k * n * c) (drop (s * c) r)) (rows 1 t)"
      using row grid_rows(1) [OF assms(1)] by (intro nth_equalityI) simp_all
    then show ?thesis using grid_widths [OF assms(1)] by (simp only: narrow_def) simp
  qed
  have sum: "sum_list (map (\<lambda>u. kt_shape u ! 1) (map ?u [0..<k])) = k * n"
    using d by (simp add: narrow_def o_def sum_list_triv)
  show ?thesis
    unfolding torch_cat_def Let_def hd p bytes sum using assms(4) d
    by (simp add: sh) (simp add: narrow_def)
qed

section \<open>Shards\<close>

text \<open>The part of a tensor that rank \<open>a\<close> of \<open>S\<close> holds: an equal, contiguous range of its heads.\<close>

definition shard :: "nat \<Rightarrow> nat \<Rightarrow> kv_tensor \<Rightarrow> kv_tensor" where
  "shard S a t = narrow 1 (a * (kt_shape t ! 1 div S)) (kt_shape t ! 1 div S) t"

text \<open>A tensor of a cache with rows, heads and at least one byte per head, over every rank of \<open>S\<close>.\<close>

definition shardable :: "nat \<Rightarrow> kv_tensor \<Rightarrow> bool" where
  "shardable S t \<longleftrightarrow> tensor_ok t \<and> kt_bytes t \<noteq> [] \<and> length (kt_shape t) \<ge> 2 \<and> S dvd kt_shape t ! 1 \<and> S > 0"

lemma split_shape: "d < length sh \<Longrightarrow> prod_list sh = prod_list (take d sh) * (sh ! d * prod_list (drop (Suc d) sh))"
  by (metis id_take_nth_drop prod_list.Cons prod_list.append)

lemma shardable_grid:
  assumes "shardable S t"
  shows "\<exists>m c. grid 1 t m (kt_shape t ! 1) c \<and> c > 0 \<and>
    (\<forall>h. prod_list ((kt_shape t)[1 := h]) * the (dict_get SAFE_TORCH_DTYPES (kt_dtype t)) = m * (h * c))"
proof -
  obtain sz where sz: "dict_get SAFE_TORCH_DTYPES (kt_dtype t) = Some sz" and l: "length (kt_bytes t) = prod_list (kt_shape t) * sz"
    and two: "1 < length (kt_shape t)" using assms by (auto simp: shardable_def tensor_ok_def)
  let ?m = "prod_list (take 1 (kt_shape t))" and ?c = "prod_list (drop 2 (kt_shape t)) * sz"
  have e: "length (kt_bytes t) = ?m * (kt_shape t ! 1 * ?c)" using l split_shape [OF two] by (simp add: numeral_2_eq_2)
  have "length (kt_bytes t) > 0" using assms by (simp add: shardable_def)
  then have "grid 1 t ?m (kt_shape t ! 1) ?c" "?c > 0" using two e by (auto simp: grid_def intro!: gr0I)
  moreover have "prod_list ((kt_shape t)[1 := h]) * the (dict_get SAFE_TORCH_DTYPES (kt_dtype t)) = ?m * (h * ?c)" for h
    using split_shape [of 1 "(kt_shape t)[1 := h]"] two by (simp add: sz numeral_2_eq_2)
  ultimately show ?thesis by blast
qed

lemma shard_ok:
  assumes "shardable S t" "a < S"
  shows "tensor_ok (shard S a t) \<and> kt_bytes (shard S a t) \<noteq> []"
proof -
  obtain m c where g: "grid 1 t m (kt_shape t ! 1) c" and c: "c > 0"
    and p: "\<And>h. prod_list ((kt_shape t)[1 := h]) * the (dict_get SAFE_TORCH_DTYPES (kt_dtype t)) = m * (h * c)"
    using shardable_grid [OF assms(1)] by blast
  let ?h = "kt_shape t ! 1 div S"
  have S: "?h * S = kt_shape t ! 1" "?h > 0" using assms(1) g by (auto simp: shardable_def grid_def elim!: dvdE)
  have "Suc a * ?h \<le> S * ?h" using assms(2) by (intro mult_right_mono) simp_all
  then have fit: "a * ?h + ?h \<le> kt_shape t ! 1" using S by (simp add: mult.commute)
  have "grid 1 (shard S a t) m ?h c" using narrow_grid(1) [OF g fit S(2)] by (simp add: shard_def)
  then have l: "length (kt_bytes (shard S a t)) = m * (?h * c)" "m > 0" by (simp_all add: grid_def)
  moreover have "kt_shape (shard S a t) = (kt_shape t)[1 := ?h]" "kt_dtype (shard S a t) = kt_dtype t"
    by (simp_all add: shard_def narrow_def)
  moreover obtain sz where "dict_get SAFE_TORCH_DTYPES (kt_dtype t) = Some sz" using assms(1) by (auto simp: shardable_def tensor_ok_def)
  ultimately show ?thesis using p [of ?h] c S(2) by (auto simp: tensor_ok_def)
qed

text \<open>A finer rank's part of a coarser rank's shard, and the merge of finer shards into a coarser one.\<close>

lemma shard_of_shard:
  assumes "shardable (S * k) t" "b < S * k" "S > 0" "k > 0"
  shows "slice_kv_tensor_heads (b mod k) k (Some (shard S (b div k) t)) = Inr (Some (shard (S * k) b t))"
proof -
  obtain m c where g: "grid 1 t m (kt_shape t ! 1) c" using shardable_grid [OF assms(1)] by blast
  let ?n = "kt_shape t ! 1 div (S * k)"
  have H: "kt_shape t ! 1 = S * k * ?n" using assms(1) by (simp add: shardable_def)
  have S: "kt_shape t ! 1 div S = k * ?n" by (subst H) (use assms(3) in \<open>simp add: mult.assoc\<close>)
  have n: "?n > 0" using H g by (cases ?n) (simp_all add: grid_def)
  have kn: "0 < k * ?n" using n assms(4) by simp
  have "Suc (b div k) * (k * ?n) \<le> S * (k * ?n)"
    using assms(2,4) by (intro mult_right_mono) (simp_all add: less_mult_imp_div_less Suc_leI)
  then have fit: "(b div k) * (k * ?n) + k * ?n \<le> kt_shape t ! 1" by (subst H) (simp add: mult.assoc add.commute)
  have "Suc (b mod k) * ?n \<le> k * ?n" using assms(4) by (intro mult_right_mono) (simp_all add: Suc_leI)
  then have fit2: "(b mod k) * ?n + ?n \<le> k * ?n" by simp
  have off: "(b div k) * (k * ?n) + (b mod k) * ?n = b * ?n"
    by (metis div_mult_mod_eq distrib_right mult.assoc)
  have sh: "kt_shape (shard S (b div k) t) = (kt_shape t)[1 := k * ?n]" by (simp only: shard_def narrow_def S) simp
  have l: "1 < length (kt_shape t)" using g by (simp add: grid_def)
  have "narrow 1 (b mod k * ?n) ?n (shard S (b div k) t) = shard (S * k) b t"
    unfolding shard_def [of S] S narrow_narrow [OF g fit kn fit2] off by (simp add: shard_def)
  then show ?thesis using l assms(4) by (simp add: slice_kv_tensor_heads_def sh)
qed

lemma merge_shards:
  assumes "shardable (T * k) t" "b < T" "k > 0"
  shows "torch_cat odd_cat 1 (map (\<lambda>i. shard (T * k) (b * k + i) t) [0..<k]) = Inr (shard T b t)"
proof -
  obtain m c where g: "grid 1 t m (kt_shape t ! 1) c" using shardable_grid [OF assms(1)] by blast
  let ?n = "kt_shape t ! 1 div (T * k)"
  have H: "kt_shape t ! 1 = T * k * ?n" using assms(1) by (simp add: shardable_def)
  have T: "kt_shape t ! 1 div T = k * ?n" by (subst H) (use assms(2) in \<open>simp add: mult.assoc\<close>)
  have n: "?n > 0" using H g by (cases ?n) (simp_all add: grid_def)
  have "Suc b * (k * ?n) \<le> T * (k * ?n)" using assms(2) by (intro mult_right_mono) simp_all
  then have fit: "b * k * ?n + k * ?n \<le> kt_shape t ! 1" by (subst H) (simp add: mult.assoc add.commute)
  have "map (\<lambda>i. shard (T * k) (b * k + i) t) [0..<k] = map (\<lambda>i. narrow 1 (b * k * ?n + i * ?n) ?n t) [0..<k]"
    by (simp add: shard_def distrib_right)
  then show ?thesis using cat_narrow [OF g fit n assms(3)] by (simp only: shard_def [of T] T mult.assoc)
qed

end
