(* ===== verification/KV_Transfer.thy ===== *)
theory KV_Transfer
  imports KV_Shards
begin

text \<open>
  The transfer of a request's key-value cache from the tensor-parallel ranks of one stage to those of another:
  \<^verbatim>\<open>OmniKVTransferManager\<close> of \<^verbatim>\<open>distributed/omni_connectors/kv_transfer_manager.py\<close> with its hooks from
  \<^verbatim>\<open>worker/omni_connector_model_runner_mixin.py\<close>.

  The connector is a state \<open>'c\<close> with a put and a get; \<open>connector_laws\<close> says what the code relies on.  While a
  receiver sleeps between two passes others change that state.  Moving and cloning the received tensors keeps
  their contents; whether it succeeds is an argument.  A dictionary that a connector delivers is one that
  \<^verbatim>\<open>to_dict\<close> made.
\<close>

section \<open>The manager\<close>

datatype stage_ref = StageStr string | StageInt int

definition stage_str :: "stage_ref \<Rightarrow> string" where
  "stage_str s = (case s of StageStr n \<Rightarrow> n | StageInt i \<Rightarrow> str_int i)"

definition stage_truth :: "stage_ref option \<Rightarrow> bool" where
  "stage_truth s = (case s of None \<Rightarrow> False | Some (StageStr n) \<Rightarrow> n \<noteq> [] | Some (StageInt i) \<Rightarrow> i \<noteq> 0)"

record transfer_config =
  kc_from_stage :: "stage_ref option"
  kc_to_stage :: "stage_ref option"
  kc_stage_id :: "stage_ref option"
  kc_input_source :: "stage_ref list"
  kc_need_recv :: bool
  kc_need_send :: bool
  kc_from_tp :: int
  kc_to_tp :: int

record kv_manager =
  km_config :: transfer_config
  km_send_stages :: "(string \<times> string) option"
  km_recv_stages :: "(string \<times> string) option"
  km_topo :: kv_topo
  km_send_hook :: "send_hook option"
  km_recv_hook :: "recv_hook option"
  km_merger :: "kv_merger option"
  km_slicer :: "(kv_received option \<Rightarrow> py_exc + kv_received option) option"
  km_base :: "string option \<times> int option"

definition recv_from :: "transfer_config \<Rightarrow> stage_ref option" where
  "recv_from C = (case kc_input_source C of s # _ \<Rightarrow> Some s
   | [] \<Rightarrow> (case kc_stage_id C of Some (StageInt i) \<Rightarrow> Some (StageInt (i - 1)) | _ \<Rightarrow> kc_from_stage C))"

text \<open>\<open>rank\<close> and \<open>world\<close> are what the process finds out about its tensor-parallel group.\<close>

definition new_kv_manager :: "int \<Rightarrow> int \<Rightarrow> transfer_config \<Rightarrow> py_exc + kv_manager" where
  "new_kv_manager rank world C =
     (let (s, t) = (if kc_from_tp C \<le> 1 \<and> kc_to_tp C \<le> 1 then (world, world) else (kc_from_tp C, kc_to_tp C))
      in rbind (new_topo s t rank) (\<lambda>T. Inr
        \<lparr>km_config = C,
         km_send_stages = (if stage_truth (kc_from_stage C) \<and> stage_truth (kc_to_stage C)
           then Some (stage_str (the (kc_from_stage C)), stage_str (the (kc_to_stage C))) else None),
         km_recv_stages = (case (recv_from C, kc_stage_id C) of (Some f, Some i) \<Rightarrow> Some (stage_str f, stage_str i) | _ \<Rightarrow> None),
         km_topo = T, km_send_hook = None, km_recv_hook = None, km_merger = None, km_slicer = None,
         km_base = (None, None)\<rparr>))"

section \<open>Sending\<close>

datatype kv_wire = WDevice "byte list" | WBytes "byte list" | WDict kv_data

text \<open>What the process gives to every transfer: the codec, which tensors are on a device, and whether the
  connector takes raw data.\<close>

record kv_env =
  ke_codec :: json_codec
  ke_dev :: "kv_tensor \<Rightarrow> bool"
  ke_raw :: bool
  ke_odd_cat :: "kv_tensor list \<Rightarrow> py_exc + kv_tensor"

definition serialize_transfer_payload :: "kv_env \<Rightarrow> kv_data \<Rightarrow> kv_wire" where
  "serialize_transfer_payload E d =
     (case (if ke_raw E then to_gpu_tensor (ke_codec E) (ke_dev E) d else Inl RuntimeError) of
        Inr b \<Rightarrow> WDevice b
      | Inl _ \<Rightarrow> (case to_bytes (ke_codec E) d of Inr b \<Rightarrow> WBytes b | Inl _ \<Rightarrow> WDict d))"

definition slice_transfer_data_for_target :: "kv_topo \<Rightarrow> kv_data \<Rightarrow> nat \<Rightarrow> py_exc + kv_data" where
  "slice_transfer_data_for_target T d target =
     (let ratio = target_tp T div source_tp T
      in rbind (slice_layer_blocks (target mod ratio) ratio (kd_key_cache d, kd_value_cache d)) (\<lambda>(K, V).
        Inr \<lparr>kd_request_id = kd_request_id d, kd_key_cache = K, kd_value_cache = V, kd_block_ids = kd_block_ids d,
          kd_metadata = dict_set ''tp_head_slice''
            (head_slice_tag ''sender'' T target [nat_entry ''source_rank'' (local_rank T)]) (kd_metadata d)\<rparr>))"

datatype put_result = PutRaised | PutDone bool nat

type_synonym 'c kv_put = "string \<Rightarrow> string \<Rightarrow> string \<Rightarrow> kv_wire \<Rightarrow> 'c \<Rightarrow> put_result \<times> 'c"

fun transfer_with_retry :: "'c kv_put \<Rightarrow> nat \<Rightarrow> string \<Rightarrow> string \<Rightarrow> string \<Rightarrow> kv_wire \<Rightarrow> 'c \<Rightarrow> (bool \<times> nat) \<times> 'c" where
  "transfer_with_retry put 0 fs ts key w c = ((False, 0), c)"
| "transfer_with_retry put (Suc n) fs ts key w c =
     (case put fs ts key w c of
        (PutDone True sz, c') \<Rightarrow> ((True, sz), c')
      | (_, c') \<Rightarrow> transfer_with_retry put n fs ts key w c')"

fun transfer_all :: "'c kv_put \<Rightarrow> string \<Rightarrow> string \<Rightarrow> (string \<times> kv_wire) list \<Rightarrow> 'c \<Rightarrow> bool \<times> 'c" where
  "transfer_all put fs ts [] c = (True, c)"
| "transfer_all put fs ts ((key, w) # kws) c =
     (case transfer_with_retry put 3 fs ts key w c of ((ok, _), c') \<Rightarrow>
        (case transfer_all put fs ts kws c' of (oks, c'') \<Rightarrow> (ok \<and> oks, c'')))"

definition per_key_payloads :: "kv_env \<Rightarrow> kv_manager \<Rightarrow> kv_data \<Rightarrow> string list \<Rightarrow> py_exc + (string \<times> kv_wire) list" where
  "per_key_payloads E M d keys =
     (let T = km_topo M
      in rbind (if source_tp T < target_tp T \<and> length keys > 1 \<and> km_send_hook M = None
                then rbind (get_kv_target_ranks T) (\<lambda>rs.
                  if length rs \<noteq> length keys then Inr []
                  else rmap (\<lambda>(key, r). rbind (slice_transfer_data_for_target T d r) (\<lambda>d'.
                    Inr (key, serialize_transfer_payload E d'))) (zip keys rs))
                else Inr []) (\<lambda>kws.
        Inr (if kws = [] then map (\<lambda>key. (key, serialize_transfer_payload E d)) keys else kws)))"

text \<open>Whether every key was accepted, or the error that came before the first put.\<close>

definition transfer_kv_cache :: "'c kv_put \<Rightarrow> kv_env \<Rightarrow> kv_manager \<Rightarrow> kv_data \<Rightarrow> string \<Rightarrow> 'c \<Rightarrow> (py_exc + bool) \<times> 'c" where
  "transfer_kv_cache put E M d rid c = (case km_send_stages M of
     None \<Rightarrow> (Inl ValueError, c)
   | Some (fs, ts) \<Rightarrow>
       (case rbind (build_rank_aware_send_keys rid fs ts (km_topo M) (km_send_hook M))
               (per_key_payloads E M (d\<lparr>kd_request_id := rid\<rparr>)) of
          Inl e \<Rightarrow> (Inl e, c)
        | Inr kws \<Rightarrow> (case transfer_all put fs ts kws c of (ok, c') \<Rightarrow> (Inr ok, c'))))"

record finished_req =
  fr_block_ids :: "int list"
  fr_seq_len :: nat
  fr_custom :: "(string \<times> json) list"

text \<open>The cache memory the finished requests are read from.\<close>

record kv_pool =
  kp_caches :: "layer_kv list"
  kp_block_size :: nat
  kp_dtype :: string

fun transfer_finished ::
  "'c kv_put \<Rightarrow> kv_env \<Rightarrow> kv_manager \<Rightarrow> kv_pool \<Rightarrow> (string \<Rightarrow> py_exc + string) \<Rightarrow> (string, finished_req) dict \<Rightarrow> 'c \<Rightarrow> string list \<times> 'c" where
  "transfer_finished put E M P resolve [] c = ([], c)"
| "transfer_finished put E M P resolve ((rid, r) # rs) c =
     (let c' = (if fr_block_ids r = [] then c
                else case extract_kv_cache rid (fr_block_ids r) (fr_seq_len r) (kp_caches P) (kp_block_size P) (kp_dtype P) (fr_custom r) of
                  None \<Rightarrow> c
                | Some d \<Rightarrow> (case resolve rid of Inl e \<Rightarrow> c | Inr rid' \<Rightarrow> snd (transfer_kv_cache put E M d rid' c)))
      in (case transfer_finished put E M P resolve rs c' of (ids, c'') \<Rightarrow> (rid # ids, c'')))"

text \<open>\<open>has_connector\<close> tells whether the connector could be made.\<close>

definition handle_finished_requests_kv_transfer ::
  "'c kv_put \<Rightarrow> kv_env \<Rightarrow> kv_manager \<Rightarrow> bool \<Rightarrow> kv_pool \<Rightarrow> (string \<Rightarrow> py_exc + string) \<Rightarrow> (string, finished_req) dict \<Rightarrow> 'c \<Rightarrow> string list \<times> 'c" where
  "handle_finished_requests_kv_transfer put E M has_connector P resolve reqs c =
     (if reqs = [] then ([], c)
      else if \<not> kc_need_send (km_config M) then (dict_keys reqs, c)
      else if \<not> has_connector then (dict_keys reqs, c)
      else transfer_finished put E M P resolve reqs c)"

section \<open>Receiving\<close>

text \<open>What a get delivers: a buffer of the pool or a tensor, on a device or not, bytes, or a dictionary.\<close>

datatype kv_delivered = Managed nat bool "byte list" | RawTensor bool "byte list" | RawBytes "byte list" | Delivered kv_received

datatype get_result = GetNothing | GetRaised | Got kv_delivered nat

type_synonym 'c kv_get = "string \<Rightarrow> string \<Rightarrow> string \<Rightarrow> (string \<times> int) option \<Rightarrow> 'c \<Rightarrow> get_result \<times> 'c"

definition decode_delivered :: "kv_env \<Rightarrow> kv_delivered \<Rightarrow> py_exc + kv_received" where
  "decode_delivered E x =
     (let read = (\<lambda>dev b. if dev then from_bytes_device (ke_codec E) b else from_bytes (ke_codec E) b)
      in case x of Managed i dev b \<Rightarrow> read dev b | RawTensor dev b \<Rightarrow> read dev b | RawBytes b \<Rightarrow> read False b | Delivered p \<Rightarrow> Inr p)"

record kv_recv =
  rv_pending :: "(string \<times> nat option) list"
  rv_got :: "(string, kv_received \<times> nat) dict"
  rv_deferred :: "nat list"
  rv_released :: "nat list"

definition rank_metadata :: "string option \<times> int option \<Rightarrow> bool \<Rightarrow> nat option \<Rightarrow> (string \<times> int) option option" where
  "rank_metadata base given from_rank =
     (case base of
        (Some host, Some port) \<Rightarrow>
          if (from_rank \<noteq> None \<or> given) \<and> host \<noteq> []
          then Some (Some (host, port + int (case from_rank of None \<Rightarrow> 0 | Some r \<Rightarrow> r) * KV_RANK_PORT_STRIDE))
          else if given then None else Some None
      | _ \<Rightarrow> if given then None else Some None)"

text \<open>A buffer on a device is released once its tensors are cloned, one on the host when the request is done,
  and either at once when it cannot be read.\<close>

definition take_in :: "string \<times> nat option \<Rightarrow> kv_delivered \<Rightarrow> kv_received \<Rightarrow> nat \<Rightarrow> kv_recv \<Rightarrow> kv_recv" where
  "take_in pair x p sz s =
     s\<lparr>rv_pending := remove1 pair (rv_pending s), rv_got := dict_set (fst pair) (p, sz) (rv_got s),
       rv_deferred := rv_deferred s @ (case x of Managed i False b \<Rightarrow> [i] | _ \<Rightarrow> []),
       rv_released := rv_released s @ (case x of Managed i True b \<Rightarrow> [i] | _ \<Rightarrow> [])\<rparr>"

fun kv_recv_pass ::
  "'c kv_get \<Rightarrow> kv_env \<Rightarrow> string \<times> string \<Rightarrow> string option \<times> int option \<Rightarrow> bool \<Rightarrow> (string \<times> nat option) list \<Rightarrow> kv_recv \<Rightarrow> 'c \<Rightarrow> (bool \<times> kv_recv) \<times> 'c" where
  "kv_recv_pass get E st base given [] s c = ((True, s), c)"
| "kv_recv_pass get E st base given (pair # pairs) s c =
     (case rank_metadata base given (snd pair) of
        None \<Rightarrow> ((False, s), c)
      | Some meta \<Rightarrow> (case get (fst st) (snd st) (fst pair) meta c of
          (GetNothing, c') \<Rightarrow> kv_recv_pass get E st base given pairs s c'
        | (GetRaised, c') \<Rightarrow> ((False, s), c')
        | (Got x sz, c') \<Rightarrow> (case decode_delivered E x of
            Inl e \<Rightarrow> ((False, s\<lparr>rv_released := rv_released s @ (case x of Managed i _ _ \<Rightarrow> [i] | _ \<Rightarrow> [])\<rparr>), c')
          | Inr p \<Rightarrow> kv_recv_pass get E st base given pairs (take_in pair x p sz s) c')))"

datatype recv_outcome = Waiting | RecvRaised py_exc | RecvNone | ConsumeError | RecvData "kv_received option" nat

definition assemble :: "kv_env \<Rightarrow> kv_manager \<Rightarrow> (string \<times> nat option) list \<Rightarrow> kv_recv \<Rightarrow> bool \<Rightarrow> recv_outcome" where
  "assemble E M pairs s moved =
     (let items = map (\<lambda>pair. the (dict_get (rv_got s) (fst pair))) pairs
      in case rbind (if length items = 1 then Inr (Some (fst (hd items)))
                     else merge_received_rank_shards (ke_odd_cat E) (km_merger M) (map fst items))
                (slice_received_rank_shard (km_topo M) (km_slicer M)) of
           Inl e \<Rightarrow> RecvNone
         | Inr p \<Rightarrow> if moved then RecvData p (sum_list (map snd items)) else ConsumeError)"

text \<open>One element per pass: what others do to the connector before it, and whether the time is over after it.\<close>

fun kv_recv_loop ::
  "'c kv_get \<Rightarrow> kv_env \<Rightarrow> kv_manager \<Rightarrow> string \<times> string \<Rightarrow> string option \<times> int option \<Rightarrow> bool \<Rightarrow> (string \<times> nat option) list \<Rightarrow> bool \<Rightarrow>
   (('c \<Rightarrow> 'c) \<times> bool) list \<Rightarrow> kv_recv \<Rightarrow> 'c \<Rightarrow> (recv_outcome \<times> kv_recv) \<times> 'c" where
  "kv_recv_loop get E M st base given pairs moved [] s c = ((Waiting, s), c)"
| "kv_recv_loop get E M st base given pairs moved ((others, late) # turns) s c =
     (case kv_recv_pass get E st base given (rv_pending s) s (others c) of
        ((False, s'), c') \<Rightarrow> ((RecvNone, s'), c')
      | ((True, s'), c') \<Rightarrow>
          if rv_pending s' = [] \<and> rv_got s' \<noteq> [] then ((assemble E M pairs s' moved, s'), c')
          else if late then ((RecvNone, s'), c')
          else kv_recv_loop get E M st base given pairs moved turns s' c')"

definition release_pool_buffers :: "kv_recv \<Rightarrow> kv_recv" where
  "release_pool_buffers s = s\<lparr>rv_released := rv_released s @ rv_deferred s, rv_deferred := []\<rparr>"

text \<open>\<open>sender\<close> is the endpoint given with the call, if one was, as far as it could be resolved; \<open>dummy\<close> marks the
  request ids of warm-up runs.  With the outcome go the buffers that were released.\<close>

definition receive_kv_cache_for_request ::
  "'c kv_get \<Rightarrow> kv_env \<Rightarrow> kv_manager \<Rightarrow> bool \<Rightarrow> (string \<Rightarrow> bool) \<Rightarrow> string \<Rightarrow> (string option \<times> int option) option \<Rightarrow> bool \<Rightarrow>
   (('c \<Rightarrow> 'c) \<times> bool) list \<Rightarrow> 'c \<Rightarrow> (recv_outcome \<times> nat list) \<times> 'c" where
  "receive_kv_cache_for_request get E M has_connector dummy rid sender moved turns c =
     (if \<not> kc_need_recv (km_config M) then ((RecvNone, []), c)
      else if \<not> has_connector then ((RecvNone, []), c)
      else case km_recv_stages M of None \<Rightarrow> ((RecvNone, []), c)
      | Some st \<Rightarrow>
          if fst st = [] \<or> snd st = [] then ((RecvNone, []), c)
          else if dummy rid then ((RecvNone, []), c)
          else case build_rank_aware_recv_keys rid (fst st) (snd st) (km_topo M) (km_recv_hook M) of
            Inl e \<Rightarrow> ((RecvRaised e, []), c)
          | Inr pairs \<Rightarrow>
              (case kv_recv_loop get E M st (case sender of Some b \<Rightarrow> b | None \<Rightarrow> km_base M) (sender \<noteq> None) pairs moved turns
                      \<lparr>rv_pending = pairs, rv_got = [], rv_deferred = [], rv_released = []\<rparr> c of
                 ((out, s), c') \<Rightarrow> ((out, if out = Waiting then rv_released s else rv_released (release_pool_buffers s)), c')))"

section \<open>Keys\<close>

definition edge_key :: "string \<Rightarrow> string \<Rightarrow> string \<Rightarrow> nat \<Rightarrow> nat \<Rightarrow> nat \<Rightarrow> nat \<Rightarrow> string" where
  "edge_key rid fs ts S T a b = (if S \<le> 1 \<and> T \<le> 1 then single_key rid fs ts else get_kv_connector_key rid fs 0 a b)"

definition target_ranks :: "nat \<Rightarrow> nat \<Rightarrow> nat \<Rightarrow> nat list" where
  "target_ranks S T a = (if S \<ge> T then [a div (S div T)] else map (\<lambda>i. a * (T div S) + i) [0..<T div S])"

definition source_ranks :: "nat \<Rightarrow> nat \<Rightarrow> nat \<Rightarrow> nat list" where
  "source_ranks S T b = (if S > T then map (\<lambda>i. b * (S div T) + i) [0..<S div T] else [b div (T div S)])"

definition divides :: "nat \<Rightarrow> nat \<Rightarrow> bool" where
  "divides S T \<longleftrightarrow> S > 0 \<and> T > 0 \<and> (S dvd T \<or> T dvd S)"

lemma valid_kv_topology:
  "divides (source_tp T) (target_tp T) \<Longrightarrow> validate_kv_tp_topology T = Inr ()"
  by (auto simp: validate_kv_tp_topology_def divides_def max_def min_def dest: dvd_imp_le)

lemma ranks_written:
  assumes "divides (source_tp T) (target_tp T)"
  shows "get_kv_target_ranks T = Inr (target_ranks (source_tp T) (target_tp T) (local_rank T))"
    and "get_kv_source_ranks T = Inr (source_ranks (source_tp T) (target_tp T) (local_rank T))"
  using valid_kv_topology [OF assms] assms
  by (auto simp: get_kv_target_ranks_def get_kv_source_ranks_def target_ranks_def source_ranks_def divides_def Let_def)

lemma keys_written:
  assumes "divides S T" "source_tp X = S" "target_tp X = T"
  shows "default_send_keys rid fs ts X =
      Inr (if S \<le> 1 \<and> T \<le> 1 then [single_key rid fs ts] else map (edge_key rid fs ts S T (local_rank X)) (target_ranks S T (local_rank X)))"
    and "default_recv_keys rid fs ts X =
      Inr (if S \<le> 1 \<and> T \<le> 1 then [(single_key rid fs ts, None)]
           else map (\<lambda>a. (edge_key rid fs ts S T a (local_rank X), Some a)) (source_ranks S T (local_rank X)))"
  using ranks_written [of X] assms by (auto simp: default_send_keys_def default_recv_keys_def edge_key_def)

lemma single_ranks: "divides S T \<Longrightarrow> S \<le> 1 \<and> T \<le> 1 \<Longrightarrow> S = 1 \<and> T = 1"
  by (auto simp: divides_def)

lemma source_range: "divides S T \<Longrightarrow> b < T \<Longrightarrow> a \<in> set (source_ranks S T b) \<Longrightarrow> a < S \<and> b \<in> set (target_ranks S T a)"
proof -
  assume d: "divides S T" and b: "b < T" and a: "a \<in> set (source_ranks S T b)"
  show ?thesis
  proof (cases "S > T")
    case True
    then obtain k where k: "S = T * k" "k > 0" using d by (auto simp: divides_def dest: dvd_imp_le elim!: dvdE)
    then have "b * k \<le> a \<and> a < b * k + k" using a True b by (auto simp: source_ranks_def)
    then obtain i where i: "a = b * k + i" "i < k" by (metis add_less_cancel_left le_Suc_ex)
    have "Suc b * k \<le> T * k" using b by (intro mult_right_mono) simp_all
    then have "a < S" using i k by simp
    moreover have "a div k = b" using i by simp
    ultimately show ?thesis using True k b by (auto simp: target_ranks_def)
  next
    case False
    then obtain k where k: "T = S * k" "k > 0" "S > 0" using d by (auto simp: divides_def dest: dvd_imp_le elim!: dvdE)
    then have a': "a = b div k" using a False by (simp add: source_ranks_def)
    then have lt: "a < S" using b k by (simp add: less_mult_imp_div_less)
    obtain i where "b = a * k + i" "i < k" using k a' by (metis div_mult_mod_eq mod_less_divisor)
    then show ?thesis using lt k False by (cases "k = 1") (auto simp: target_ranks_def)
  qed
qed

lemma digits_no_underscore: "CHR ''_'' \<notin> set (str_nat n)"
proof -
  have "digit_of CHR ''_'' = None" by (simp add: digit_of_def)
  then have "\<not> (\<exists>d < 10. CHR ''_'' = digit_char d)" using digit_of_char by (metis option.distinct(1))
  then show ?thesis using str_nat_digits by blast
qed

lemma append_sep: "c \<notin> set u \<Longrightarrow> c \<notin> set v \<Longrightarrow> u @ c # x = v @ c # y \<longleftrightarrow> u = v \<and> x = y"
  by (auto simp: append_eq_append_conv2 Cons_eq_append_conv append_eq_Cons_conv)

lemma connector_key_inject:
  "get_kv_connector_key rid fs n a b = get_kv_connector_key rid fs n a' b' \<longleftrightarrow> a = a' \<and> b = b'"
  using digits_no_underscore by (simp add: get_kv_connector_key_def append_sep str_nat_inject)

lemma edge_key_inject:
  "divides S T \<Longrightarrow> a < S \<Longrightarrow> a' < S \<Longrightarrow> b < T \<Longrightarrow> b' < T \<Longrightarrow>
     edge_key rid fs ts S T a b = edge_key rid fs ts S T a' b' \<longleftrightarrow> a = a' \<and> b = b'"
  using single_ranks by (auto simp: edge_key_def connector_key_inject)

lemma target_range: "divides S T \<Longrightarrow> a < S \<Longrightarrow> b \<in> set (target_ranks S T a) \<Longrightarrow> b < T"
proof -
  assume d: "divides S T" and a: "a < S" and b: "b \<in> set (target_ranks S T a)"
  show "b < T"
  proof (cases "S \<ge> T")
    case True
    then obtain k where k: "S = T * k" "k > 0" "T > 0" using d by (auto simp: divides_def dest: dvd_imp_le elim!: dvdE)
    then show ?thesis using a b True by (auto simp: target_ranks_def less_mult_imp_div_less)
  next
    case False
    then obtain k where k: "T = S * k" "k > 0" "S > 0" using d by (auto simp: divides_def dest: dvd_imp_le elim!: dvdE)
    have "Suc a * k \<le> S * k" using a by (intro mult_right_mono) simp_all
    then show ?thesis using k b False by (auto simp: target_ranks_def)
  qed
qed

lemma ranks_distinct: "distinct (target_ranks S T a)" "distinct (source_ranks S T a)" "target_ranks S T a = [] \<longleftrightarrow> T > S \<and> T div S = 0"
  by (auto simp: target_ranks_def source_ranks_def distinct_map inj_on_def)

section \<open>The connector\<close>

text \<open>What a delivery brings of a wire form, and the documented behaviour of a connector: an accepted put
  makes the payload available under its key, and neither operation touches other keys.\<close>

definition delivered_bytes :: "kv_delivered \<Rightarrow> byte list option" where
  "delivered_bytes x = (case x of Managed i dev b \<Rightarrow> Some b | RawTensor dev b \<Rightarrow> Some b | RawBytes b \<Rightarrow> Some b | Delivered p \<Rightarrow> None)"

definition carries :: "kv_wire \<Rightarrow> kv_delivered \<Rightarrow> bool" where
  "carries w x \<longleftrightarrow> (case w of WDevice b \<Rightarrow> delivered_bytes x = Some b | WBytes b \<Rightarrow> delivered_bytes x = Some b
     | WDict d \<Rightarrow> x = Delivered (received_as d))"

definition put_effect :: "('c \<Rightarrow> string \<Rightarrow> kv_wire option) \<Rightarrow> string \<Rightarrow> kv_wire \<Rightarrow> 'c \<Rightarrow> put_result \<times> 'c \<Rightarrow> bool" where
  "put_effect look k w c rc \<longleftrightarrow>
     (\<forall>k'. k' \<noteq> k \<longrightarrow> look (snd rc) k' = look c k') \<and> (\<forall>n. fst rc = PutDone True n \<longrightarrow> look (snd rc) k = Some w)"

definition get_effect :: "('c \<Rightarrow> string \<Rightarrow> kv_wire option) \<Rightarrow> string \<Rightarrow> kv_wire \<Rightarrow> 'c \<Rightarrow> get_result \<times> 'c \<Rightarrow> bool" where
  "get_effect look k w c rc \<longleftrightarrow>
     (\<forall>k'. k' \<noteq> k \<longrightarrow> look (snd rc) k' = look c k') \<and> (\<exists>x n. fst rc = Got x n \<and> carries w x)"

definition connector_laws :: "('c \<Rightarrow> string \<Rightarrow> kv_wire option) \<Rightarrow> 'c kv_put \<Rightarrow> 'c kv_get \<Rightarrow> bool" where
  "connector_laws look put get \<longleftrightarrow>
     (\<forall>fs ts k w c. put_effect look k w c (put fs ts k w c)) \<and>
     (\<forall>fs ts k meta c w. look c k = Some w \<longrightarrow> get_effect look k w c (get fs ts k meta c))"

lemma put_law:
  assumes "connector_laws look put get" "put fs ts k w c = (r, c')"
  shows "(\<forall>k'. k' \<noteq> k \<longrightarrow> look c' k' = look c k') \<and> (\<forall>n. r = PutDone True n \<longrightarrow> look c' k = Some w)"
proof -
  have "put_effect look k w c (put fs ts k w c)" using assms(1) unfolding connector_laws_def by blast
  then show ?thesis by (simp add: put_effect_def assms(2))
qed

lemma get_law:
  assumes "connector_laws look put get" "look c k = Some w"
  shows "\<exists>x n c'. get fs ts k meta c = (Got x n, c') \<and> carries w x \<and> (\<forall>k'. k' \<noteq> k \<longrightarrow> look c' k' = look c k')"
proof -
  have "get_effect look k w c (get fs ts k meta c)" using assms unfolding connector_laws_def by blast
  then show ?thesis by (cases "get fs ts k meta c") (simp add: get_effect_def)
qed

lemma retry_puts:
  assumes "connector_laws look put get"
  shows "transfer_with_retry put n fs ts k w c = ((ok, z), c') \<Longrightarrow>
    (\<forall>k'. k' \<noteq> k \<longrightarrow> look c' k' = look c k') \<and> (ok \<longrightarrow> look c' k = Some w)"
proof (induction n arbitrary: c)
  case (Suc n)
  obtain r c1 where p: "put fs ts k w c = (r, c1)" by (meson surj_pair)
  note l = put_law [OF assms p]
  show ?case
  proof (cases "\<exists>m. r = PutDone True m")
    case True
    then show ?thesis using Suc.prems l p by auto
  next
    case False
    then have "transfer_with_retry put n fs ts k w c1 = ((ok, z), c')"
      using Suc.prems p by (auto split: put_result.splits bool.splits)
    then show ?thesis using Suc.IH l by auto
  qed
qed simp

lemma all_put:
  assumes "connector_laws look put get"
  shows "distinct (map fst kws) \<Longrightarrow> transfer_all put fs ts kws c = (ok, c') \<Longrightarrow>
    (\<forall>k. k \<notin> fst ` set kws \<longrightarrow> look c' k = look c k) \<and> (ok \<longrightarrow> (\<forall>(k, w) \<in> set kws. look c' k = Some w))"
proof (induction kws arbitrary: c ok)
  case (Cons kw kws)
  obtain k w where kw: "kw = (k, w)" by (meson surj_pair)
  obtain ok1 z c1 where t: "transfer_with_retry put 3 fs ts k w c = ((ok1, z), c1)" by (metis surj_pair)
  obtain ok2 where r: "transfer_all put fs ts kws c1 = (ok2, c')" "ok = (ok1 \<and> ok2)"
    using Cons.prems(2) by (auto simp: kw t split: prod.splits)
  note l = retry_puts [OF assms t]
  have IH: "\<forall>k. k \<notin> fst ` set kws \<longrightarrow> look c' k = look c1 k" "ok2 \<longrightarrow> (\<forall>(k, w) \<in> set kws. look c' k = Some w)"
    using Cons.IH [OF _ r(1)] Cons.prems(1) by auto
  have "k \<notin> fst ` set kws" using Cons.prems(1) by (simp add: kw)
  then show ?case using IH l r(2) by (auto simp: kw)
qed simp

text \<open>What was serialized is read back from whatever carries it.\<close>

lemma decode_serialized:
  assumes "codec_laws (ke_codec E)" "kv_ok (\<lambda>t. kt_bytes t \<noteq> []) d" "carries (serialize_transfer_payload E d) x"
  shows "decode_delivered E x = Inr (received_as d)"
proof -
  have ok: "kv_ok (\<lambda>t. True) d" using assms(2) by (auto simp: kv_ok_def layers_ok_def)
  have "x = Delivered (received_as d) \<or>
      (\<exists>b. delivered_bytes x = Some b \<and> (to_bytes (ke_codec E) d = Inr b \<or> to_gpu_tensor (ke_codec E) (ke_dev E) d = Inr b))"
    using assms(3) by (auto simp: serialize_transfer_payload_def carries_def split: sum.splits if_splits)
  then show ?thesis
  proof
    assume "\<exists>b. delivered_bytes x = Some b \<and> (to_bytes (ke_codec E) d = Inr b \<or> to_gpu_tensor (ke_codec E) (ke_dev E) d = Inr b)"
    then obtain b where b: "delivered_bytes x = Some b"
      and w: "to_bytes (ke_codec E) d = Inr b \<or> to_gpu_tensor (ke_codec E) (ke_dev E) d = Inr b" by blast
    show ?thesis
      using packed_read_back [OF assms(1) ok w] assms(2) b
      by (auto simp: decode_delivered_def delivered_bytes_def Let_def split: kv_delivered.splits)
  qed (simp add: decode_delivered_def)
qed

section \<open>One pass over keys that are all there\<close>

definition endpoint_known :: "string option \<times> int option \<Rightarrow> bool \<Rightarrow> bool" where
  "endpoint_known base given \<longleftrightarrow> (\<forall>r. rank_metadata base given r \<noteq> None)"

lemma pass_takes_all:
  assumes "connector_laws look put get" "codec_laws (ke_codec E)" "endpoint_known base given"
  shows "distinct (map fst pairs) \<Longrightarrow>
    (\<forall>pair \<in> set pairs. kv_ok (\<lambda>t. kt_bytes t \<noteq> []) (q pair) \<and> look c (fst pair) = Some (serialize_transfer_payload E (q pair))) \<Longrightarrow>
    rv_pending s = pairs \<Longrightarrow>
    \<exists>s' c'. kv_recv_pass get E st base given pairs s c = ((True, s'), c') \<and> rv_pending s' = [] \<and>
      (\<forall>k. k \<notin> fst ` set pairs \<longrightarrow> dict_get (rv_got s') k = dict_get (rv_got s) k) \<and>
      (\<forall>pair \<in> set pairs. \<exists>n. dict_get (rv_got s') (fst pair) = Some (received_as (q pair), n))"
proof (induction pairs arbitrary: s c)
  case (Cons pair pairs)
  obtain meta where m: "rank_metadata base given (snd pair) = Some meta" using assms(3) by (auto simp: endpoint_known_def)
  have p: "kv_ok (\<lambda>t. kt_bytes t \<noteq> []) (q pair)" "look c (fst pair) = Some (serialize_transfer_payload E (q pair))"
    using Cons.prems(2) by auto
  obtain x n c1 where g: "get (fst st) (snd st) (fst pair) meta c = (Got x n, c1)" "carries (serialize_transfer_payload E (q pair)) x"
    "\<forall>k'. k' \<noteq> fst pair \<longrightarrow> look c1 k' = look c k'" using get_law [OF assms(1) p(2)] by blast
  have d: "decode_delivered E x = Inr (received_as (q pair))" using decode_serialized [OF assms(2) p(1) g(2)] .
  let ?s = "take_in pair x (received_as (q pair)) n s"
  have fresh: "fst pair \<notin> fst ` set pairs" using Cons.prems(1) by auto
  have l: "\<forall>pair' \<in> set pairs. kv_ok (\<lambda>t. kt_bytes t \<noteq> []) (q pair') \<and> look c1 (fst pair') = Some (serialize_transfer_payload E (q pair'))"
  proof
    fix pair' assume a: "pair' \<in> set pairs"
    then have "fst pair' \<noteq> fst pair" using fresh by (metis image_eqI)
    then show "kv_ok (\<lambda>t. kt_bytes t \<noteq> []) (q pair') \<and> look c1 (fst pair') = Some (serialize_transfer_payload E (q pair'))"
      using Cons.prems(2) a g(3) by auto
  qed
  have pend: "rv_pending ?s = pairs" using Cons.prems(3) by (simp add: take_in_def)
  obtain s' c' where r: "kv_recv_pass get E st base given pairs ?s c1 = ((True, s'), c')" "rv_pending s' = []"
    "\<forall>k. k \<notin> fst ` set pairs \<longrightarrow> dict_get (rv_got s') k = dict_get (rv_got ?s) k"
    "\<forall>pair \<in> set pairs. \<exists>n. dict_get (rv_got s') (fst pair) = Some (received_as (q pair), n)"
    using Cons.IH [OF _ l pend] Cons.prems(1) by auto
  have "kv_recv_pass get E st base given (pair # pairs) s c = ((True, s'), c')" using r(1) by (simp add: m g(1) d)
  moreover have "dict_get (rv_got s') (fst pair) = Some (received_as (q pair), n)"
    using r(3) fresh by (simp add: take_in_def dict_simps)
  moreover have "dict_get (rv_got s') k = dict_get (rv_got s) k" if "k \<notin> fst ` set (pair # pairs)" for k
    using r(3) that by (simp add: take_in_def dict_simps)
  ultimately show ?case using r(2,4) by auto
qed simp

section \<open>Shards of whole caches\<close>

definition shards :: "nat \<Rightarrow> nat \<Rightarrow> kv_tensor option list \<Rightarrow> kv_tensor option list" where
  "shards S a ts = map (map_option (shard S a)) ts"

definition all_shardable :: "nat \<Rightarrow> kv_tensor option list \<Rightarrow> bool" where
  "all_shardable S ts \<longleftrightarrow> (\<forall>t. Some t \<in> set ts \<longrightarrow> shardable S t)"

lemma rmap_Inr: "\<forall>x \<in> set xs. f x = Inr (g x) \<Longrightarrow> rmap f xs = Inr (map g xs)"
  by (induction xs) simp_all

lemma slice_shards:
  assumes "all_shardable (S * k) ts" "b < S * k" "S > 0" "k > 0"
  shows "rmap (slice_kv_tensor_heads (b mod k) k) (shards S (b div k) ts) = Inr (shards (S * k) b ts)"
proof -
  have "slice_kv_tensor_heads (b mod k) k (map_option (shard S (b div k)) t) = Inr (map_option (shard (S * k) b) t)"
    if t: "t \<in> set ts" for t
  proof (cases t)
    case (Some u)
    then show ?thesis using shard_of_shard [OF _ assms(2-4)] assms(1) t by (simp add: all_shardable_def)
  qed (simp add: slice_kv_tensor_heads_def)
  then show ?thesis unfolding shards_def rmap_map by (intro rmap_Inr) simp
qed

lemma merge_caches:
  assumes "all_shardable (T * k) ts" "b < T" "k > 1"
  shows "merge_cache odd_cat (map (\<lambda>i. shards (T * k) (b * k + i) ts) [0..<k]) = Inr (shards T b ts)"
proof -
  let ?cs = "map (\<lambda>i. shards (T * k) (b * k + i) ts) [0..<k]"
  have n: "foldr max (map length ?cs) 0 = length ts"
  proof -
    have "foldr max (map (\<lambda>_. m) xs) 0 = (if xs = [] then 0 else m)" for m :: nat and xs :: "nat list" by (induction xs) auto
    then show ?thesis using assms(3) by (simp add: o_def shards_def)
  qed
  have "merge_layer odd_cat ?cs j = Inr (shards T b ts ! j)" if j: "j < length ts" for j
  proof (cases "ts ! j")
    case None
    then have "List.map_filter (\<lambda>l. if j < length l then l ! j else None) ?cs = []"
      using j by (auto simp: List.map_filter_def shards_def)
    then show ?thesis using j None by (simp add: merge_layer_def shards_def)
  next
    case (Some t)
    have "List.map_filter (\<lambda>l. if j < length l then l ! j else None) ?cs = map (\<lambda>i. shard (T * k) (b * k + i) t) [0..<k]"
      using j Some by (simp add: List.map_filter_def shards_def o_def)
    moreover have "shardable (T * k) t" using assms(1) j Some by (metis all_shardable_def nth_mem)
    ultimately show ?thesis using merge_shards [OF _ assms(2)] assms(3) j Some by (simp add: merge_layer_def shards_def)
  qed
  then have "merge_cache odd_cat ?cs = Inr (map ((!) (shards T b ts)) [0..<length ts])"
    unfolding merge_cache_def n by (intro rmap_Inr) simp
  then show ?thesis by (simp add: shards_def map_nth [of "shards T b ts", unfolded shards_def, simplified])
qed

section \<open>Every rank sends\<close>

text \<open>What rank \<open>a\<close> of \<open>S\<close> holds of the cache of a request, and what it puts under the key for rank \<open>b\<close> of \<open>T\<close>.\<close>

record kv_global =
  kg_key_cache :: "kv_tensor option list"
  kg_value_cache :: "kv_tensor option list"
  kg_block_ids :: "int list"
  kg_metadata :: "(string \<times> json) list"

definition global_ok :: "nat \<Rightarrow> kv_global \<Rightarrow> bool" where
  "global_ok n G \<longleftrightarrow> all_shardable n (kg_key_cache G) \<and> all_shardable n (kg_value_cache G) \<and>
     length (kg_value_cache G) = length (kg_key_cache G) \<and> json_ok (JDict (kg_metadata G)) \<and>
     dict_get (kg_metadata G) ''tp_head_slice'' = None"

definition rank_data :: "kv_global \<Rightarrow> string \<Rightarrow> nat \<Rightarrow> nat \<Rightarrow> kv_data" where
  "rank_data G rid S a = \<lparr>kd_request_id = rid, kd_key_cache = shards S a (kg_key_cache G),
     kd_value_cache = shards S a (kg_value_cache G), kd_block_ids = kg_block_ids G, kd_metadata = kg_metadata G\<rparr>"

definition edge_data :: "kv_global \<Rightarrow> string \<Rightarrow> kv_topo \<Rightarrow> nat \<Rightarrow> kv_data" where
  "edge_data G rid X b =
     (if source_tp X < target_tp X
      then (rank_data G rid (target_tp X) b)\<lparr>kd_metadata := dict_set ''tp_head_slice''
        (head_slice_tag ''sender'' X b [nat_entry ''source_rank'' (local_rank X)]) (kg_metadata G)\<rparr>
      else rank_data G rid (source_tp X) (local_rank X))"

lemma shards_ok:
  assumes "all_shardable S ts" "a < S"
  shows "layers_ok (\<lambda>t. kt_bytes t \<noteq> []) (shards S a ts)"
  unfolding layers_ok_def
proof (intro allI impI)
  fix t assume "Some t \<in> set (shards S a ts)"
  then obtain x where "x \<in> set ts" "map_option (shard S a) x = Some t"
    unfolding shards_def set_map by (metis imageE)
  then obtain u where "Some u \<in> set ts" "t = shard S a u" by auto
  then show "tensor_ok t \<and> kt_bytes t \<noteq> []" using assms shard_ok by (simp add: all_shardable_def)
qed

lemma all_shardable_dvd: "all_shardable n ts \<Longrightarrow> m dvd n \<Longrightarrow> all_shardable m ts"
  by (auto simp: all_shardable_def shardable_def intro: dvd_trans dvd_pos_nat)

lemma all_coarser: "all_shardable (max S T) ts \<Longrightarrow> divides S T \<Longrightarrow> all_shardable S ts \<and> all_shardable T ts"
proof -
  assume a: "all_shardable (max S T) ts" and d: "divides S T"
  have "S dvd max S T \<and> T dvd max S T" using d by (cases "S \<le> T") (auto simp: divides_def dest: dvd_imp_le)
  then show ?thesis using a all_shardable_dvd by blast
qed

lemma json_dict_set: "json_ok (JDict d) \<Longrightarrow> json_ok j \<Longrightarrow> json_ok (JDict (dict_set k j d))"
proof -
  assume d: "json_ok (JDict d)" and j: "json_ok j"
  have "\<forall>kv \<in> set d. json_ok (snd kv) \<Longrightarrow> \<forall>kv \<in> set (dict_set k j d). json_ok (snd kv)"
    using j by (induction d) auto
  then show ?thesis using d by simp
qed

lemma edge_ok:
  assumes "global_ok (max (source_tp X) (target_tp X)) G" "divides (source_tp X) (target_tp X)"
    "local_rank X < source_tp X" "b < target_tp X"
  shows "kv_ok (\<lambda>t. kt_bytes t \<noteq> []) (edge_data G rid X b)"
proof -
  let ?n = "if source_tp X < target_tp X then target_tp X else source_tp X" and ?i = "if source_tp X < target_tp X then b else local_rank X"
  have l: "layers_ok (\<lambda>t. kt_bytes t \<noteq> []) (shards ?n ?i (kg_key_cache G))" "layers_ok (\<lambda>t. kt_bytes t \<noteq> []) (shards ?n ?i (kg_value_cache G))"
    using assms all_coarser [OF _ assms(2)] by (auto simp: global_ok_def intro!: shards_ok)
  have m: "json_ok (JDict (kg_metadata G))" "length (kg_value_cache G) = length (kg_key_cache G)" using assms(1) by (auto simp: global_ok_def)
  have t: "json_ok (head_slice_tag side X b [nat_entry ''source_rank'' r])" for side r
    by (auto simp: head_slice_tag_def nat_entry_def)
  note d = json_dict_set [OF m(1) t]
  have e: "edge_data G rid X b = \<lparr>kd_request_id = rid, kd_key_cache = shards ?n ?i (kg_key_cache G),
      kd_value_cache = shards ?n ?i (kg_value_cache G), kd_block_ids = kg_block_ids G, kd_metadata = kd_metadata (edge_data G rid X b)\<rparr>"
    by (simp add: edge_data_def rank_data_def)
  have "json_ok (JDict (kd_metadata (edge_data G rid X b)))" using m d by (simp only: edge_data_def rank_data_def) simp
  then show ?thesis using l m(2) by (subst e) (simp add: kv_ok_def shards_def)
qed

text \<open>A manager without hooks for rank \<open>a\<close>, on both sides of the same pair of stages.\<close>

definition plain_manager :: "string \<Rightarrow> string \<Rightarrow> nat \<Rightarrow> nat \<Rightarrow> nat \<Rightarrow> kv_manager \<Rightarrow> bool" where
  "plain_manager fs ts S T a M \<longleftrightarrow> source_tp (km_topo M) = S \<and> target_tp (km_topo M) = T \<and> local_rank (km_topo M) = a \<and>
     km_send_hook M = None \<and> km_recv_hook M = None \<and> km_merger M = None \<and> km_slicer M = None"

lemma send_keys_plain:
  assumes "plain_manager fs ts S T a M" "divides S T" "a < S"
  shows "build_rank_aware_send_keys rid fs ts (km_topo M) (km_send_hook M) =
    Inr (map (edge_key rid fs ts S T a) (target_ranks S T a))"
  using assms keys_written(1) [OF assms(2), of "km_topo M"] single_ranks [OF assms(2)]
  by (auto simp: build_rank_aware_send_keys_def plain_manager_def edge_key_def target_ranks_def)

lemma slice_for_target:
  assumes "source_tp X = S" "target_tp X = S * k" "S > 0" "k > 1" "b < S * k" "local_rank X = b div k"
    "global_ok (S * k) G"
  shows "slice_transfer_data_for_target X (rank_data G rid S (b div k)) b = Inr (edge_data G rid X b)"
  using slice_shards [of S k "kg_key_cache G" b] slice_shards [of S k "kg_value_cache G" b] assms
  by (simp add: slice_transfer_data_for_target_def slice_layer_blocks_def rank_data_def edge_data_def global_ok_def Let_def)

lemma payloads_plain:
  assumes "plain_manager fs ts S T a M" "divides S T" "a < S" "global_ok (max S T) G"
  shows "per_key_payloads E M (rank_data G rid S a) (map (edge_key rid fs ts S T a) (target_ranks S T a)) =
    Inr (map (\<lambda>b. (edge_key rid fs ts S T a b, serialize_transfer_payload E (edge_data G rid (km_topo M) b))) (target_ranks S T a))"
proof (cases "S < T")
  case False
  then show ?thesis
    using assms(1) by (simp add: per_key_payloads_def plain_manager_def edge_data_def o_def)
next
  case True
  then obtain k where k: "T = S * k" "k > 1" "S > 0" using assms(2)
    by (auto simp: divides_def dest: dvd_imp_le elim!: dvdE)
  have m: "source_tp (km_topo M) = S" "target_tp (km_topo M) = S * k" "local_rank (km_topo M) = a" "km_send_hook M = None"
    using assms(1) k by (simp_all add: plain_manager_def)
  have ranks: "get_kv_target_ranks (km_topo M) = Inr (target_ranks S T a)"
    using ranks_written(1) [of "km_topo M"] assms(2) m k by simp
  have len: "length (target_ranks S T a) = k" using k True by (simp add: target_ranks_def)
  have G: "global_ok (S * k) G" using assms(4) True k by (simp add: max_def)
  have sl: "slice_transfer_data_for_target (km_topo M) (rank_data G rid S a) b = Inr (edge_data G rid (km_topo M) b)"
    if "b \<in> set (target_ranks S T a)" for b
  proof -
    have "a * k \<le> b \<and> b < a * k + k" using that k True by (auto simp: target_ranks_def)
    then have b: "b div k = a" by (intro div_nat_eqI) (simp_all add: mult.commute)
    have lt: "b < S * k" using target_range [OF assms(2,3) that] k by simp
    show ?thesis using slice_for_target [OF m(1,2) k(3,2) lt _ G] b m(3) by simp
  qed
  have z: "zip (map (edge_key rid fs ts S T a) (target_ranks S T a)) (target_ranks S T a) =
      map (\<lambda>b. (edge_key rid fs ts S T a b, b)) (target_ranks S T a)"
    by (simp add: zip_map1 zip_same_conv_map)
  have "rmap (\<lambda>(key, r). rbind (slice_transfer_data_for_target (km_topo M) (rank_data G rid S a) r) (\<lambda>d'.
      Inr (key, serialize_transfer_payload E d'))) (zip (map (edge_key rid fs ts S T a) (target_ranks S T a)) (target_ranks S T a)) =
    Inr (map (\<lambda>b. (edge_key rid fs ts S T a b, serialize_transfer_payload E (edge_data G rid (km_topo M) b))) (target_ranks S T a))"
    unfolding z rmap_map by (rule rmap_Inr) (simp add: sl)
  moreover have "target_ranks S T a \<noteq> []" using len k by auto
  ultimately show ?thesis using m True k len ranks by (simp add: per_key_payloads_def Let_def)
qed

text \<open>A rank whose puts were accepted has stored its part under the key of each of its targets, and nothing else.\<close>

lemma rank_sent:
  assumes "connector_laws look put get" "plain_manager fs ts S T a M" "km_send_stages M = Some (fs, ts)" "divides S T" "a < S"
    "global_ok (max S T) G" "transfer_kv_cache put E M (rank_data G rid' S a) rid c = (Inr ok, c')"
  shows "(\<forall>k. k \<notin> edge_key rid fs ts S T a ` set (target_ranks S T a) \<longrightarrow> look c' k = look c k) \<and>
    (ok \<longrightarrow> (\<forall>b \<in> set (target_ranks S T a). look c' (edge_key rid fs ts S T a b) =
      Some (serialize_transfer_payload E (edge_data G rid (km_topo M) b))))"
proof -
  have rid: "(rank_data G rid' S a)\<lparr>kd_request_id := rid\<rparr> = rank_data G rid S a" by (simp add: rank_data_def)
  let ?kws = "map (\<lambda>b. (edge_key rid fs ts S T a b, serialize_transfer_payload E (edge_data G rid (km_topo M) b))) (target_ranks S T a)"
  have t: "transfer_all put fs ts ?kws c = (ok, c')"
    using assms(3,7) send_keys_plain [OF assms(2,4,5)] payloads_plain [OF assms(2,4,5,6)]
    by (simp add: transfer_kv_cache_def rid split: prod.splits)
  have "inj_on (edge_key rid fs ts S T a) (set (target_ranks S T a))"
    using edge_key_inject [OF assms(4,5,5)] target_range [OF assms(4,5)] by (auto intro!: inj_onI)
  then have "distinct (map fst ?kws)" using ranks_distinct(1) by (simp add: o_def distinct_map)
  from all_put [OF assms(1) this t] show ?thesis by (auto simp: image_image)
qed

text \<open>The ranks of the sending stage, one after the other.\<close>

fun ranks_send :: "'c kv_put \<Rightarrow> kv_env \<Rightarrow> (nat \<Rightarrow> kv_manager) \<Rightarrow> (nat \<Rightarrow> kv_data) \<Rightarrow> string \<Rightarrow> nat list \<Rightarrow> 'c \<Rightarrow> bool \<times> 'c" where
  "ranks_send put E M d rid [] c = (True, c)"
| "ranks_send put E M d rid (a # as) c =
     (case transfer_kv_cache put E (M a) (d a) rid c of (r, c1) \<Rightarrow>
        (case ranks_send put E M d rid as c1 of (oks, c2) \<Rightarrow> (r = Inr True \<and> oks, c2)))"

lemma all_sent:
  assumes "connector_laws look put get" "\<And>a. a < S \<Longrightarrow> plain_manager fs ts S T a (M a) \<and> km_send_stages (M a) = Some (fs, ts)"
    "divides S T" "global_ok (max S T) G"
  shows "distinct as \<Longrightarrow> set as \<subseteq> {..<S} \<Longrightarrow> ranks_send put E M (rank_data G rid' S) rid as c = (True, c') \<Longrightarrow>
    (\<forall>k. k \<notin> (\<Union>a \<in> set as. edge_key rid fs ts S T a ` set (target_ranks S T a)) \<longrightarrow> look c' k = look c k) \<and>
    (\<forall>a \<in> set as. \<forall>b \<in> set (target_ranks S T a). look c' (edge_key rid fs ts S T a b) =
      Some (serialize_transfer_payload E (edge_data G rid (km_topo (M a)) b)))"
proof (induction as arbitrary: c)
  case (Cons a as)
  have a: "a < S" "plain_manager fs ts S T a (M a)" "km_send_stages (M a) = Some (fs, ts)" using Cons.prems(2) assms(2) by auto
  obtain c1 where t: "transfer_kv_cache put E (M a) (rank_data G rid' S a) rid c = (Inr True, c1)"
    and r: "ranks_send put E M (rank_data G rid' S) rid as c1 = (True, c')"
    using Cons.prems(3) by (auto split: prod.splits)
  note one = rank_sent [OF assms(1) a(2,3) assms(3) a(1) assms(4) t]
  have IH: "\<forall>k. k \<notin> (\<Union>a \<in> set as. edge_key rid fs ts S T a ` set (target_ranks S T a)) \<longrightarrow> look c' k = look c1 k"
    "\<forall>a \<in> set as. \<forall>b \<in> set (target_ranks S T a). look c' (edge_key rid fs ts S T a b) =
      Some (serialize_transfer_payload E (edge_data G rid (km_topo (M a)) b))"
    using Cons.IH [OF _ _ r] Cons.prems(1,2) by auto
  have "edge_key rid fs ts S T a b \<notin> (\<Union>a \<in> set as. edge_key rid fs ts S T a ` set (target_ranks S T a))"
    if b: "b \<in> set (target_ranks S T a)" for b
  proof
    assume "edge_key rid fs ts S T a b \<in> (\<Union>a \<in> set as. edge_key rid fs ts S T a ` set (target_ranks S T a))"
    then obtain a' b' where e: "a' \<in> set as" "b' \<in> set (target_ranks S T a')" "edge_key rid fs ts S T a b = edge_key rid fs ts S T a' b'"
      by auto
    then have "a' < S" using Cons.prems(2) by auto
    then have "a = a'" using edge_key_inject [OF assms(3) a(1)] target_range [OF assms(3)] a(1) b e by metis
    then show False using e(1) Cons.prems(1) by simp
  qed
  then show ?case using one IH by auto
qed simp

section \<open>Every rank receives\<close>

lemma recv_keys_plain:
  assumes "plain_manager fs ts S T b N" "divides S T" "b < T"
  shows "\<exists>rank. build_rank_aware_recv_keys rid fs ts (km_topo N) (km_recv_hook N) =
    Inr (map (\<lambda>a. (edge_key rid fs ts S T a b, rank a)) (source_ranks S T b))"
proof (cases "S \<le> 1 \<and> T \<le> 1")
  case True
  then have "source_ranks S T b = [0]" using single_ranks [OF assms(2)] assms(3) by (simp add: source_ranks_def)
  then show ?thesis using assms True keys_written(2) [OF assms(2), of "km_topo N"]
    by (intro exI [of _ "\<lambda>a. None"]) (auto simp: build_rank_aware_recv_keys_def plain_manager_def edge_key_def)
next
  case False
  then show ?thesis using assms keys_written(2) [OF assms(2), of "km_topo N"]
    by (intro exI [of _ Some]) (auto simp: build_rank_aware_recv_keys_def plain_manager_def)
qed

text \<open>What a target rank should end with.\<close>

definition is_shard_of :: "kv_global \<Rightarrow> string \<Rightarrow> nat \<Rightarrow> nat \<Rightarrow> kv_received \<Rightarrow> bool" where
  "is_shard_of G rid T b p \<longleftrightarrow> kr_request_id p = JStr rid \<and> kr_key_cache p = shards T b (kg_key_cache G) \<and>
     kr_value_cache p = shards T b (kg_value_cache G) \<and> kr_block_ids p = JList (map JInt (kg_block_ids G))"

lemma merged_shards:
  assumes "global_ok (T * k) G" "b < T" "k > 1"
  shows "\<exists>p. merge_received_rank_shards odd_cat None (map (\<lambda>i. received_as (rank_data G rid (T * k) (b * k + i))) [0..<k]) = Inr (Some p) \<and>
    is_shard_of G rid T b p"
proof -
  let ?f = "\<lambda>i. received_as (rank_data G rid (T * k) (b * k + i))"
  have h: "hd (map ?f [0..<k]) = ?f 0" using assms(3) by (simp add: hd_map upt_rec)
  have g: "all_shardable (T * k) (kg_key_cache G)" "all_shardable (T * k) (kg_value_cache G)"
    using assms(1) by (simp_all add: global_ok_def)
  have c: "map kr_key_cache (map ?f [0..<k]) = map (\<lambda>i. shards (T * k) (b * k + i) (kg_key_cache G)) [0..<k]"
    "map kr_value_cache (map ?f [0..<k]) = map (\<lambda>i. shards (T * k) (b * k + i) (kg_value_cache G)) [0..<k]"
    by (simp_all add: received_as_def rank_data_def)
  have n: "map ?f [0..<k] \<noteq> []" "length (map ?f [0..<k]) \<noteq> 1" using assms(3) by auto
  show ?thesis
    unfolding merge_received_rank_shards_def h c merge_caches [OF g(1) assms(2,3)] merge_caches [OF g(2) assms(2,3)]
    using n by (simp add: received_as_def rank_data_def jlist_def jdict_def is_shard_of_def)
qed

lemma assembled:
  assumes "plain_manager fs ts S T b N" "divides S T" "b < T" "global_ok (max S T) G" "\<And>a. a < S \<Longrightarrow> plain_manager fs ts S T a (M a)"
    "length keys = length (source_ranks S T b)"
    "\<forall>j < length keys. \<exists>n. dict_get (rv_got s) (fst (keys ! j)) =
       Some (received_as (edge_data G rid (km_topo (M (source_ranks S T b ! j))) b), n)"
  shows "\<exists>p n. assemble E N keys s True = RecvData (Some p) n \<and> is_shard_of G rid T b p"
proof -
  let ?item = "\<lambda>key. the (dict_get (rv_got s) (fst key))" and ?e = "\<lambda>a. received_as (edge_data G rid (km_topo (M a)) b)"
  have m: "source_tp (km_topo N) = S" "target_tp (km_topo N) = T" "local_rank (km_topo N) = b" "km_merger N = None" "km_slicer N = None"
    using assms(1) by (simp_all add: plain_manager_def)
  have items: "map fst (map ?item keys) = map ?e (source_ranks S T b)"
    using assms(6,7) by (intro nth_equalityI) fastforce+
  have src: "source_tp (km_topo (M a)) = S \<and> target_tp (km_topo (M a)) = T \<and> local_rank (km_topo (M a)) = a"
    if "a \<in> set (source_ranks S T b)" for a
    using assms(5) source_range [OF assms(2,3) that] by (simp add: plain_manager_def)
  have "\<exists>p. rbind (if length (map ?item keys) = 1 then Inr (Some (fst (hd (map ?item keys))))
      else merge_received_rank_shards (ke_odd_cat E) (km_merger N) (map fst (map ?item keys)))
      (slice_received_rank_shard (km_topo N) (km_slicer N)) = Inr (Some p) \<and> is_shard_of G rid T b p"
  proof (cases "S > T")
    case True
    then obtain k where k: "S = T * k" "k > 1" using assms(2)
      by (auto simp: divides_def dest: dvd_imp_le elim!: dvdE)
    have r: "source_ranks S T b = map (\<lambda>i. b * k + i) [0..<k]" using k True by (simp add: source_ranks_def)
    have "map ?e (source_ranks S T b) = map (\<lambda>a. received_as (rank_data G rid (T * k) a)) (source_ranks S T b)"
      using src True k(1) by (simp add: edge_data_def)
    then have f: "map fst (map ?item keys) = map (\<lambda>i. received_as (rank_data G rid (T * k) (b * k + i))) [0..<k]"
      using items by (simp add: r)
    have l: "length (map ?item keys) \<noteq> 1" using assms(6) k(2) by (simp only: r length_map) simp
    have G: "global_ok (T * k) G" using assms(4) True k by (simp add: max_def)
    obtain p where p: "merge_received_rank_shards (ke_odd_cat E) None
        (map (\<lambda>i. received_as (rank_data G rid (T * k) (b * k + i))) [0..<k]) = Inr (Some p)" "is_shard_of G rid T b p"
      using merged_shards [OF G assms(3) k(2)] by blast
    have "slice_received_rank_shard (km_topo N) None (Some p) = Inr (Some p)" using m True by (simp add: slice_received_rank_shard_def)
    then show ?thesis using p l unfolding f m(4,5) by simp
  next
    case False
    let ?a = "b div (T div S)"
    have r: "source_ranks S T b = [?a]" using False by (simp add: source_ranks_def)
    have l: "length (map ?item keys) = 1" using assms(6) by (simp add: r)
    have f: "fst (hd (map ?item keys)) = ?e ?a" using items l by (cases keys) (simp_all add: r)
    have a: "source_tp (km_topo (M ?a)) = S" "target_tp (km_topo (M ?a)) = T" "local_rank (km_topo (M ?a)) = ?a"
      using src [of ?a] by (simp_all add: r)
    show ?thesis
    proof (cases "S < T")
      case True
      have "already_sliced (kr_metadata (?e ?a))"
        using True a by (simp add: edge_data_def received_as_def already_sliced_def dict_simps head_slice_tag_def jtruth_def)
      then show ?thesis using f l m True a
        by (simp add: slice_received_rank_shard_def is_shard_of_def edge_data_def rank_data_def received_as_def)
    next
      case False
      then have "S = T" using \<open>\<not> S > T\<close> by simp
      then show ?thesis using f l m a assms(2)
        by (simp add: slice_received_rank_shard_def is_shard_of_def edge_data_def rank_data_def received_as_def divides_def)
    qed
  qed
  then obtain p where p: "rbind (if length (map ?item keys) = 1 then Inr (Some (fst (hd (map ?item keys))))
      else merge_received_rank_shards (ke_odd_cat E) (km_merger N) (map fst (map ?item keys)))
      (slice_received_rank_shard (km_topo N) (km_slicer N)) = Inr (Some p)" "is_shard_of G rid T b p" by blast
  then show ?thesis unfolding assemble_def Let_def p(1) by simp
qed

text \<open>
  C6: Resharding is exact.  Let the ranks of the sending stage hold the equal head ranges of a cache, and
  let one of the numbers of ranks divide the other.  Once every rank of the sending stage had its puts
  accepted, every rank of the receiving stage gets in its first pass, whatever others do to the connector
  apart from its keys, exactly its own head range of every layer, keys and values, with the request id and
  the block ids: sliced by the sender when there are more receivers, merged by the receiver when there are
  fewer.  The connector stores what it accepted and brings it in any of its forms.
\<close>

theorem kv_reshard_exact:
  assumes "connector_laws look put get" "codec_laws (ke_codec E)" "divides S T" "global_ok (max S T) G"
    "\<forall>a < S. plain_manager fs ts S T a (M a) \<and> km_send_stages (M a) = Some (fs, ts)"
    "ranks_send put E M (rank_data G rid' S) rid [0..<S] c = (True, c')"
    "b < T" "plain_manager fs ts S T b N" "km_recv_stages N = Some (fs, ts)" "kc_need_recv (km_config N)" "fs \<noteq> []" "ts \<noteq> []"
    "\<not> dummy rid" "\<forall>k. look (others c') k = look c' k" "sender = None \<or> sender = Some (Some host, Some port) \<and> host \<noteq> []"
  shows "\<exists>p n released c''. receive_kv_cache_for_request get E N True dummy rid sender True ((others, late) # turns) c' =
    ((RecvData (Some p) n, released), c'') \<and> is_shard_of G rid T b p"
proof -
  have M: "\<And>a. a < S \<Longrightarrow> plain_manager fs ts S T a (M a) \<and> km_send_stages (M a) = Some (fs, ts)" using assms(5) by blast
  have range: "set [0..<S] \<subseteq> {..<S}" by auto
  have sent: "\<forall>a < S. \<forall>b \<in> set (target_ranks S T a). look (others c') (edge_key rid fs ts S T a b) =
      Some (serialize_transfer_payload E (edge_data G rid (km_topo (M a)) b))"
    using all_sent [OF assms(1) M assms(3,4) _ range assms(6)] assms(14) by auto
  obtain rank where keys: "build_rank_aware_recv_keys rid fs ts (km_topo N) (km_recv_hook N) =
      Inr (map (\<lambda>a. (edge_key rid fs ts S T a b, rank a)) (source_ranks S T b))" (is "_ = Inr ?pairs")
    using recv_keys_plain [OF assms(8,3,7)] by blast
  define base where "base = (case sender of Some b \<Rightarrow> b | None \<Rightarrow> km_base N)"
  define given where "given = (sender \<noteq> None)"
  let ?s = "\<lparr>rv_pending = ?pairs, rv_got = [], rv_deferred = [], rv_released = []\<rparr>"
  have ep: "endpoint_known base given"
    using assms(15) by (auto simp: base_def given_def endpoint_known_def rank_metadata_def split: option.splits prod.splits)
  define q where "q pair = edge_data G rid (km_topo (M (SOME a. a < S \<and> fst pair = edge_key rid fs ts S T a b))) b" for pair :: "string \<times> nat option"
  have q: "q (edge_key rid fs ts S T a b, r) = edge_data G rid (km_topo (M a)) b" if "a < S" for a r
  proof -
    have "(SOME a'. a' < S \<and> edge_key rid fs ts S T a b = edge_key rid fs ts S T a' b) = a"
      using edge_key_inject [OF assms(3) that _ assms(7,7)] that by (intro some_equality) auto
    then show ?thesis by (simp add: q_def)
  qed
  have src: "a < S \<and> b \<in> set (target_ranks S T a)" if "a \<in> set (source_ranks S T b)" for a
    using source_range [OF assms(3,7) that] .
  have dist: "distinct (map fst ?pairs)"
    using ranks_distinct(2) edge_key_inject [OF assms(3) _ _ assms(7,7)] src by (auto simp: o_def distinct_map intro!: inj_onI)
  have there: "\<forall>pair \<in> set ?pairs. kv_ok (\<lambda>t. kt_bytes t \<noteq> []) (q pair) \<and> look (others c') (fst pair) = Some (serialize_transfer_payload E (q pair))"
  proof
    fix pair assume "pair \<in> set ?pairs"
    then obtain a where a: "a \<in> set (source_ranks S T b)" "pair = (edge_key rid fs ts S T a b, rank a)" by auto
    then have "kv_ok (\<lambda>t. kt_bytes t \<noteq> []) (edge_data G rid (km_topo (M a)) b)"
      using edge_ok [of "km_topo (M a)" G b] M [of a] src assms(3,4,7) by (simp add: plain_manager_def)
    then show "kv_ok (\<lambda>t. kt_bytes t \<noteq> []) (q pair) \<and> look (others c') (fst pair) = Some (serialize_transfer_payload E (q pair))"
      using a sent src q by simp
  qed
  obtain s' c'' where r: "kv_recv_pass get E (fs, ts) base given ?pairs ?s (others c') = ((True, s'), c'')" "rv_pending s' = []"
    "\<forall>pair \<in> set ?pairs. \<exists>n. dict_get (rv_got s') (fst pair) = Some (received_as (q pair), n)"
    using pass_takes_all [OF assms(1,2) ep dist there, of ?s "(fs, ts)"] by auto
  have ne: "?pairs \<noteq> []" using assms(3) by (auto simp: source_ranks_def divides_def dest: dvd_imp_le elim!: dvdE)
  then have got: "rv_got s' \<noteq> []" using r(3) by (metis list.set_intros(1) map_of.simps(1) neq_Nil_conv option.distinct(1))
  have "\<forall>j < length ?pairs. \<exists>n. dict_get (rv_got s') (fst (?pairs ! j)) =
      Some (received_as (edge_data G rid (km_topo (M (source_ranks S T b ! j))) b), n)"
  proof (intro allI impI)
    fix j assume j: "j < length ?pairs"
    let ?a = "source_ranks S T b ! j"
    have pj: "?pairs ! j = (edge_key rid fs ts S T ?a b, rank ?a)" using j by simp
    have "\<exists>n. dict_get (rv_got s') (fst (?pairs ! j)) = Some (received_as (q (?pairs ! j)), n)"
      using r(3) nth_mem [OF j] by blast
    moreover have "?a < S" using j src by simp
    ultimately show "\<exists>n. dict_get (rv_got s') (fst (?pairs ! j)) =
        Some (received_as (edge_data G rid (km_topo (M ?a)) b), n)" unfolding pj using q by simp
  qed
  then obtain p n where p: "assemble E N ?pairs s' True = RecvData (Some p) n" "is_shard_of G rid T b p"
    using assembled [OF assms(8,3,7,4), of M ?pairs s' rid E] M by auto
  then have "kv_recv_loop get E N (fs, ts) base given ?pairs True ((others, late) # turns) ?s c' = ((RecvData (Some p) n, s'), c'')"
    using r(1,2) got by simp
  then have "receive_kv_cache_for_request get E N True dummy rid sender True ((others, late) # turns) c' =
      ((RecvData (Some p) n, rv_released (release_pool_buffers s')), c'')"
    unfolding receive_kv_cache_for_request_def base_def [symmetric] given_def [symmetric] using assms(10-13) by (simp add: assms(9) keys)
  then show ?thesis using p(2) by blast
qed

section \<open>An instance\<close>

lemma ranks_send_accepted:
  assumes "\<And>fs ts k w c. \<exists>n c'. put fs ts k w c = (PutDone True n, c')"
    "\<And>a. a < S \<Longrightarrow> plain_manager fs ts S T a (M a) \<and> km_send_stages (M a) = Some (fs, ts)" "divides S T" "global_ok (max S T) G"
  shows "set as \<subseteq> {..<S} \<Longrightarrow> \<exists>c'. ranks_send put E M (rank_data G rid' S) rid as c = (True, c')"
proof (induction as arbitrary: c)
  case (Cons a as)
  have a: "a < S" "plain_manager fs ts S T a (M a)" "km_send_stages (M a) = Some (fs, ts)" using Cons.prems assms(2) by auto
  have all: "\<exists>c'. transfer_all put fs ts kws c = (True, c')" for kws c
  proof (induction kws arbitrary: c)
    case (Cons kw kws)
    obtain n c1 where "put fs ts (fst kw) (snd kw) c = (PutDone True n, c1)" using assms(1) by blast
    then show ?case using Cons [of c1] by (cases kw) (auto simp: numeral_3_eq_3)
  qed simp
  have rid: "(rank_data G rid' S a)\<lparr>kd_request_id := rid\<rparr> = rank_data G rid S a" by (simp add: rank_data_def)
  obtain c1 where "transfer_all put fs ts (map (\<lambda>b. (edge_key rid fs ts S T a b,
      serialize_transfer_payload E (edge_data G rid (km_topo (M a)) b))) (target_ranks S T a)) c = (True, c1)" using all by blast
  then have "transfer_kv_cache put E (M a) (rank_data G rid' S a) rid c = (Inr True, c1)"
    using send_keys_plain [OF a(2) assms(3) a(1)] payloads_plain [OF a(2) assms(3) a(1) assms(4)] a(3)
    by (simp add: transfer_kv_cache_def rid)
  then show ?case using Cons.IH [of c1] Cons.prems by (auto split: prod.splits)
qed simp

type_synonym kv_store = "string \<Rightarrow> kv_wire option"

definition store_put :: "kv_store kv_put" where
  "store_put fs ts k w c = (PutDone True 1, c(k \<mapsto> w))"

definition store_get :: "kv_store kv_get" where
  "store_get fs ts k meta c = (case c k of
     None \<Rightarrow> GetNothing
   | Some (WBytes b) \<Rightarrow> Got (RawBytes b) 1 | Some (WDevice b) \<Rightarrow> Got (RawTensor True b) 1
   | Some (WDict d) \<Rightarrow> Got (Delivered (received_as d)) 1, c)"

lemma store_laws: "connector_laws (\<lambda>c. c) store_put store_get"
proof -
  have "get_effect (\<lambda>c. c) k w c (store_get fs ts k meta c)" if "c k = Some w" for fs ts k meta c w
    using that by (cases w) (simp_all add: get_effect_def store_get_def carries_def delivered_bytes_def)
  then show ?thesis by (simp add: connector_laws_def put_effect_def store_put_def)
qed

definition demo_env :: kv_env where
  "demo_env = \<lparr>ke_codec = unary_codec, ke_dev = (\<lambda>t. False), ke_raw = False, ke_odd_cat = (\<lambda>ts. Inl RuntimeError)\<rparr>"

definition demo_cache :: kv_global where
  "demo_cache = \<lparr>kg_key_cache = [Some \<lparr>kt_dtype = ''int8'', kt_shape = [1, 2, 1], kt_bytes = [5, 6]\<rparr>, None],
     kg_value_cache = [Some \<lparr>kt_dtype = ''int8'', kt_shape = [1, 2, 1], kt_bytes = [7, 8]\<rparr>, None],
     kg_block_ids = [4], kg_metadata = []\<rparr>"

definition demo_manager :: "nat \<Rightarrow> kv_manager" where
  "demo_manager r = \<lparr>km_config = \<lparr>kc_from_stage = Some (StageStr ''0''), kc_to_stage = Some (StageStr ''1''), kc_stage_id = Some (StageInt 1),
       kc_input_source = [], kc_need_recv = True, kc_need_send = True, kc_from_tp = 1, kc_to_tp = 2\<rparr>,
     km_send_stages = Some (''0'', ''1''), km_recv_stages = Some (''0'', ''1''),
     km_topo = \<lparr>source_tp = 1, target_tp = 2, local_rank = r\<rparr>, km_send_hook = None, km_recv_hook = None, km_merger = None,
     km_slicer = None, km_base = (None, None)\<rparr>"

lemma demo_ok: "global_ok 2 demo_cache"
  by (auto simp: global_ok_def demo_cache_def all_shardable_def shardable_def tensor_ok_def SAFE_TORCH_DTYPES_def)

lemma kv_reshard_exact_witness:
  "\<exists>c' p n released c''.
     ranks_send store_put demo_env demo_manager (rank_data demo_cache ''r'' 1) ''g'' [0] Map.empty = (True, c') \<and>
     receive_kv_cache_for_request store_get demo_env (demo_manager 1) True (\<lambda>r. False) ''g'' None True [(id, False)] c' =
       ((RecvData (Some p) n, released), c'') \<and> is_shard_of demo_cache ''g'' 2 1 p"
proof -
  have d: "divides 1 2" by (simp add: divides_def)
  have m: "plain_manager ''0'' ''1'' 1 2 a (demo_manager a) \<and> km_send_stages (demo_manager a) = Some (''0'', ''1'')" for a
    by (simp add: plain_manager_def demo_manager_def)
  have G: "global_ok (max 1 2) demo_cache" using demo_ok by (simp add: numeral_2_eq_2)
  have put: "\<exists>n c'. store_put fs ts k w c = (PutDone True n, c')" for fs ts k w c by (simp add: store_put_def)
  obtain c' where s: "ranks_send store_put demo_env demo_manager (rank_data demo_cache ''r'' 1) ''g'' [0..<1] Map.empty = (True, c')"
    using ranks_send_accepted [where put = store_put and S = 1 and as = "[0..<1]", OF put m d G] by fastforce
  have l: "codec_laws (ke_codec demo_env)" by (simp add: demo_env_def unary_laws)
  have "\<exists>p n released c''. receive_kv_cache_for_request store_get demo_env (demo_manager 1) True (\<lambda>r. False) ''g'' None True ((id, False) # []) c' =
      ((RecvData (Some p) n, released), c'') \<and> is_shard_of demo_cache ''g'' 2 1 p"
    using kv_reshard_exact [where sender = None and others = id and late = False and turns = "[]" and host = "''h''" and port = 0
        and N = "demo_manager 1" and b = 1 and dummy = "\<lambda>r. False", OF store_laws l d G _ s] m
    by (simp add: plain_manager_def demo_manager_def)
  then show ?thesis using s by (auto simp: upt_rec)
qed

end
