(* ===== verification/KV_Buffers.thy ===== *)
theory KV_Buffers
  imports KV_Transfer "HOL-Library.Multiset"
begin

text \<open>
  What a transfer leaves behind: the buffers of the connector's pool that a receiver was given, and the
  requests whose blocks the sending scheduler may free.
\<close>

section \<open>Pool buffers\<close>

text \<open>\<open>taken\<close> is the record of the pool buffers that the connector has handed out.\<close>

definition handed_out :: "get_result \<Rightarrow> nat list" where
  "handed_out r = (case r of Got (Managed i dev b) n \<Rightarrow> [i] | _ \<Rightarrow> [])"

definition records_buffers :: "('c \<Rightarrow> nat list) \<Rightarrow> 'c kv_get \<Rightarrow> bool" where
  "records_buffers taken get \<longleftrightarrow>
     (\<forall>fs ts k meta c. taken (snd (get fs ts k meta c)) = taken c @ handed_out (fst (get fs ts k meta c)))"

definition held :: "kv_recv \<Rightarrow> nat multiset" where
  "held s = mset (rv_deferred s) + mset (rv_released s)"

lemma get_records:
  "records_buffers taken get \<Longrightarrow> get fs ts k meta c = (r, c') \<Longrightarrow> taken c' = taken c @ handed_out r"
  unfolding records_buffers_def by (metis fst_conv snd_conv)

lemma held_take_in: "held (take_in pair x p n s) = held s + mset (handed_out (Got x n))"
  by (auto simp: held_def take_in_def handed_out_def split: kv_delivered.splits bool.splits)

lemma pass_holds:
  assumes "records_buffers taken get"
  shows "kv_recv_pass get E st base given pairs s c = ((ok, s'), c') \<Longrightarrow>
    mset (taken c) + held s' = mset (taken c') + held s"
proof (induction pairs arbitrary: s c)
  case (Cons pair pairs)
  show ?case
  proof (cases "rank_metadata base given (snd pair)")
    case (Some meta)
    obtain r c1 where g: "get (fst st) (snd st) (fst pair) meta c = (r, c1)" by (meson surj_pair)
    note t = get_records [OF assms g]
    show ?thesis
    proof (cases r)
      case (Got x n)
      show ?thesis
      proof (cases "decode_delivered E x")
        case (Inl e)
        then have "s' = s\<lparr>rv_released := rv_released s @ (case x of Managed i _ _ \<Rightarrow> [i] | _ \<Rightarrow> [])\<rparr>" "c' = c1"
          using Cons.prems by (auto simp: Some g Got)
        then show ?thesis using t by (auto simp: Got held_def handed_out_def split: kv_delivered.splits)
      next
        case (Inr p)
        then have "kv_recv_pass get E st base given pairs (take_in pair x p n s) c1 = ((ok, s'), c')"
          using Cons.prems by (simp add: Some g Got)
        from Cons.IH [OF this] show ?thesis using t by (simp add: Got held_take_in)
      qed
    next
      case GetNothing
      then show ?thesis using Cons.prems Cons.IH [of s c1] t by (simp add: Some g handed_out_def)
    qed (use Cons.prems t in \<open>auto simp: Some g handed_out_def\<close>)
  qed (use Cons.prems in simp)
qed simp

lemma loop_holds:
  assumes "records_buffers taken get"
  shows "\<forall>turn \<in> set turns. \<forall>c. taken (fst turn c) = taken c \<Longrightarrow>
    kv_recv_loop get E M st base given pairs moved turns s c = ((out, s'), c') \<Longrightarrow>
    mset (taken c) + held s' = mset (taken c') + held s"
proof (induction turns arbitrary: s c)
  case (Cons turn turns)
  obtain others late where turn: "turn = (others, late)" by (meson surj_pair)
  obtain ok s1 c1 where p: "kv_recv_pass get E st base given (rv_pending s) s (others c) = ((ok, s1), c1)" by (metis surj_pair)
  have one: "mset (taken c) + held s1 = mset (taken c1) + held s"
    using pass_holds [OF assms p] Cons.prems(1) by (simp add: turn)
  have "(s', c') = (s1, c1) \<or> kv_recv_loop get E M st base given pairs moved turns s1 c1 = ((out, s'), c')"
    using Cons.prems(2) p by (auto simp: turn split: bool.splits if_splits)
  then show ?case
  proof
    assume "kv_recv_loop get E M st base given pairs moved turns s1 c1 = ((out, s'), c')"
    then have two: "mset (taken c1) + held s' = mset (taken c') + held s1" using Cons.IH Cons.prems(1) by simp
    have "(mset (taken c) + held s') + (held s1 + mset (taken c1)) = (mset (taken c') + held s) + (held s1 + mset (taken c1))"
      using arg_cong2 [of _ _ _ _ "(+)", OF one two] by (simp add: ac_simps)
    then show ?thesis by simp
  qed (use one in simp)
qed simp

text \<open>
  C20: No pool buffer leaks.  Whatever the connector delivers, raises or withholds, in however many passes,
  a receive that has ended, with data, without, or with a failed move, has released every buffer it was
  handed exactly once and no other.
\<close>

theorem kv_buffers_released:
  assumes "records_buffers taken get" "\<forall>turn \<in> set turns. \<forall>c. taken (fst turn c) = taken c"
    "receive_kv_cache_for_request get E M con dummy rid sender moved turns c = ((out, released), c')" "out \<noteq> Waiting"
  shows "mset (taken c') = mset (taken c) + mset released"
proof (cases "\<exists>st pairs s. km_recv_stages M = Some st \<and>
    kv_recv_loop get E M st (case sender of Some b \<Rightarrow> b | None \<Rightarrow> km_base M) (sender \<noteq> None) pairs moved turns
      \<lparr>rv_pending = pairs, rv_got = [], rv_deferred = [], rv_released = []\<rparr> c = ((out, s), c') \<and>
    released = rv_released (release_pool_buffers s)")
  case True
  then obtain st pairs s where l: "kv_recv_loop get E M st (case sender of Some b \<Rightarrow> b | None \<Rightarrow> km_base M) (sender \<noteq> None) pairs moved turns
      \<lparr>rv_pending = pairs, rv_got = [], rv_deferred = [], rv_released = []\<rparr> c = ((out, s), c')"
    "released = rv_released (release_pool_buffers s)" by blast
  from loop_holds [OF assms(1,2) l(1)] show ?thesis
    by (simp add: l(2) held_def release_pool_buffers_def add.commute)
next
  case False
  then have "released = [] \<and> c' = c" using assms(3,4)
    by (auto simp: receive_kv_cache_for_request_def split: if_splits option.splits sum.splits prod.splits)
  then show ?thesis by simp
qed

text \<open>A pool that hands out one buffer on the host and then nothing.\<close>

definition one_buffer_get :: "nat list kv_get" where
  "one_buffer_get fs ts k meta taken = (if taken = [] then (Got (Managed 7 False []) 1, [7]) else (GetNothing, taken))"

lemma kv_buffers_released_witness:
  "\<exists>out released c'. receive_kv_cache_for_request one_buffer_get demo_env (demo_manager 1) True (\<lambda>r. False) ''g'' None True [(id, True)] [] =
     ((out, released), c') \<and> out \<noteq> Waiting \<and> mset c' = mset released"
proof -
  have g: "records_buffers (\<lambda>c. c) one_buffer_get"
    by (simp add: records_buffers_def one_buffer_get_def handed_out_def)
  obtain out released c' where r: "receive_kv_cache_for_request one_buffer_get demo_env (demo_manager 1) True (\<lambda>r. False) ''g'' None True
      [(id, True)] [] = ((out, released), c')" by (metis surj_pair)
  have "assemble E M pairs s moved \<noteq> Waiting" for E M pairs s moved
    unfolding assemble_def Let_def by (simp split: sum.splits)
  then have w: "out \<noteq> Waiting" using r
    by (auto simp: receive_kv_cache_for_request_def demo_manager_def split: if_splits sum.splits prod.splits bool.splits)
  have "mset c' = mset [] + mset released" by (rule kv_buffers_released [OF g _ r w]) simp
  then show ?thesis using r w by simp
qed

section \<open>Finished requests\<close>

text \<open>Whatever fails on the way, every finished request is reported, so that its blocks can be freed.\<close>

lemma all_finished_reported:
  "fst (handle_finished_requests_kv_transfer put E M con P resolve reqs c) = dict_keys reqs"
proof -
  have "fst (transfer_finished put E M P resolve reqs c) = dict_keys reqs" for reqs c
    by (induction reqs arbitrary: c) (simp_all add: Let_def case_prod_beta split_paired_all)
  then show ?thesis by (simp add: handle_finished_requests_kv_transfer_def)
qed

end
