(* ===== verification/KV_Hooks.thy ===== *)
theory KV_Hooks
  imports KV_Transfer
begin

text \<open>
  The rank-aware hooks that a language-model runner puts into its transfer manager
  (\<^verbatim>\<open>worker/omni_connector_model_runner_mixin.py\<close>): its own routing, keys, merge and slice, which replace the
  defaults.  They work along the last dimension but one, the defaults along the second.
\<close>

record rank_mapping =
  rm_from_tp :: int
  rm_to_tp :: int
  rm_local_rank :: int

definition hook_validate :: "rank_mapping \<Rightarrow> py_exc + unit" where
  "hook_validate R =
     (if rm_from_tp R \<le> 0 \<or> rm_to_tp R \<le> 0 then Inl ValueError
      else if max (rm_from_tp R) (rm_to_tp R) mod min (rm_from_tp R) (rm_to_tp R) \<noteq> 0 then Inl ValueError
      else Inr ())"

definition hook_remote_ranks :: "rank_mapping \<Rightarrow> py_exc + int list" where
  "hook_remote_ranks R = rbind (hook_validate R) (\<lambda>_. Inr (
     if rm_from_tp R = rm_to_tp R then [rm_local_rank R]
     else if rm_from_tp R > rm_to_tp R
     then (let ratio = rm_from_tp R div rm_to_tp R in map (\<lambda>i. rm_local_rank R * ratio + i) [0..ratio - 1])
     else [rm_local_rank R div (rm_to_tp R div rm_from_tp R)]))"

definition hook_target_ranks :: "rank_mapping \<Rightarrow> py_exc + int list" where
  "hook_target_ranks R = rbind (hook_validate R) (\<lambda>_. Inr (
     if rm_from_tp R = rm_to_tp R then [rm_local_rank R]
     else if rm_from_tp R > rm_to_tp R then [rm_local_rank R div (rm_from_tp R div rm_to_tp R)]
     else (let ratio = rm_to_tp R div rm_from_tp R in map (\<lambda>i. rm_local_rank R * ratio + i) [0..ratio - 1])))"

definition hook_connector_key :: "string \<Rightarrow> string \<Rightarrow> int \<Rightarrow> int \<Rightarrow> int \<Rightarrow> string" where
  "hook_connector_key req_id from_stage chunk_id from_rank to_rank =
     req_id @ ''_'' @ from_stage @ ''_'' @ str_int chunk_id @ ''_'' @ str_int from_rank @ ''_'' @ str_int to_rank"

definition hook_recv_keys :: "rank_mapping \<Rightarrow> recv_hook" where
  "hook_recv_keys R rid from_stage to_stage = rbind (hook_remote_ranks R) (\<lambda>rs.
     Inr (Bare (map (\<lambda>r. hook_connector_key rid from_stage 0 r (rm_local_rank R)) rs)))"

definition hook_send_keys :: "rank_mapping \<Rightarrow> send_hook" where
  "hook_send_keys R rid from_stage to_stage = rbind (hook_target_ranks R) (\<lambda>rs.
     Inr (map (\<lambda>r. hook_connector_key rid from_stage 0 (rm_local_rank R) r) rs))"

definition hook_merge_layer ::
  "(kv_tensor list \<Rightarrow> py_exc + kv_tensor) \<Rightarrow> kv_tensor option list list \<Rightarrow> nat \<Rightarrow> py_exc + kv_tensor option" where
  "hook_merge_layer odd_cat caches i =
     (let ts = List.map_filter (\<lambda>l. if i < length l then l ! i else None) caches
      in if ts = [] then Inr None else if length ts = 1 then Inr (Some (hd ts))
         else rbind (if length (kt_shape (hd ts)) < 2 then odd_cat ts else torch_cat odd_cat (length (kt_shape (hd ts)) - 2) ts)
           (\<lambda>t. Inr (Some t)))"

definition hook_merge_cache ::
  "(kv_tensor list \<Rightarrow> py_exc + kv_tensor) \<Rightarrow> kv_tensor option list list \<Rightarrow> py_exc + kv_tensor option list" where
  "hook_merge_cache odd_cat caches = rmap (hook_merge_layer odd_cat caches) [0..<foldr max (map length caches) 0]"

definition hook_merge :: "(kv_tensor list \<Rightarrow> py_exc + kv_tensor) \<Rightarrow> kv_merger" where
  "hook_merge odd_cat ps =
     (if ps = [] then Inr None
      else if length ps = 1 then Inr (Some (hd ps))
      else rbind (hook_merge_cache odd_cat (map kr_key_cache ps)) (\<lambda>K. rbind (hook_merge_cache odd_cat (map kr_value_cache ps)) (\<lambda>V.
        rbind (jdict (kr_metadata (hd ps))) (\<lambda>meta.
          Inr (Some ((hd ps)\<lparr>kr_key_cache := K, kr_value_cache := V,
            kr_metadata := JDict (dict_set ''merged_remote_rank_count'' (JInt (int (length ps))) meta)\<rparr>))))))"

definition hook_slice_tensor :: "nat \<Rightarrow> nat \<Rightarrow> kv_tensor option \<Rightarrow> kv_tensor option" where
  "hook_slice_tensor ratio index t_opt = (case t_opt of
     None \<Rightarrow> None
   | Some t \<Rightarrow>
       let d = length (kt_shape t) - 2
       in if length (kt_shape t) < 2 then Some t
          else if kt_shape t ! d mod ratio \<noteq> 0 then Some t
          else Some (narrow d (index * (kt_shape t ! d div ratio)) (kt_shape t ! d div ratio) t))"

text \<open>A mapping that is not positive makes the slicing fail on its first division.\<close>

definition hook_slice :: "rank_mapping \<Rightarrow> kv_received option \<Rightarrow> py_exc + kv_received option" where
  "hook_slice R payload = (case payload of None \<Rightarrow> Inr None | Some p \<Rightarrow>
     if rm_from_tp R \<ge> rm_to_tp R then Inr (Some p)
     else if rm_from_tp R = 0 then Inl ZeroDivisionError
     else (let ratio = rm_to_tp R div rm_from_tp R
           in if ratio = 0 then Inl ZeroDivisionError
              else rbind (jdict (kr_metadata p)) (\<lambda>meta.
                Inr (Some (p\<lparr>kr_key_cache := map (hook_slice_tensor (nat ratio) (nat (rm_local_rank R mod ratio))) (kr_key_cache p),
                  kr_value_cache := map (hook_slice_tensor (nat ratio) (nat (rm_local_rank R mod ratio))) (kr_value_cache p),
                  kr_metadata := JDict (dict_set ''sliced_for_local_rank'' (JInt (rm_local_rank R)) meta)\<rparr>)))))"

definition install_hooks :: "(kv_tensor list \<Rightarrow> py_exc + kv_tensor) \<Rightarrow> rank_mapping \<Rightarrow> kv_manager \<Rightarrow> kv_manager" where
  "install_hooks odd_cat R M = M\<lparr>km_send_hook := Some (hook_send_keys R), km_recv_hook := Some (hook_recv_keys R),
     km_merger := Some (hook_merge odd_cat), km_slicer := Some (hook_slice R)\<rparr>"

section \<open>The hooks against the defaults\<close>

definition mapping_of :: "nat \<Rightarrow> nat \<Rightarrow> nat \<Rightarrow> rank_mapping" where
  "mapping_of S T r = \<lparr>rm_from_tp = int S, rm_to_tp = int T, rm_local_rank = int r\<rparr>"

lemma upto_int: "[0..int k - 1] = map int [0..<k]"
  by (induction k) (simp_all add: upto_rec2)

lemma hook_valid: "divides S T \<Longrightarrow> hook_validate (mapping_of S T r) = Inr ()"
  by (auto simp: hook_validate_def mapping_of_def divides_def max_def min_def dest: dvd_imp_le)

lemma hook_ranks:
  assumes "divides S T"
  shows "hook_remote_ranks (mapping_of S T r) = Inr (map int (source_ranks S T r))"
    and "hook_target_ranks (mapping_of S T r) = Inr (map int (target_ranks S T r))"
proof -
  have d: "int x div int y = int (x div y)" for x y by (simp add: zdiv_int)
  show "hook_remote_ranks (mapping_of S T r) = Inr (map int (source_ranks S T r))"
    using assms hook_valid [OF assms, of r]
    by (auto simp: hook_remote_ranks_def source_ranks_def mapping_of_def d Let_def upto_int divides_def)
  show "hook_target_ranks (mapping_of S T r) = Inr (map int (target_ranks S T r))"
    using assms hook_valid [OF assms, of r]
    by (auto simp: hook_target_ranks_def target_ranks_def mapping_of_def d Let_def upto_int divides_def)
qed

lemma hook_key: "hook_connector_key rid fs 0 (int a) (int b) = get_kv_connector_key rid fs 0 a b"
  by (simp add: hook_connector_key_def get_kv_connector_key_def str_int_def)

definition three_dim :: "kv_tensor option list \<Rightarrow> bool" where
  "three_dim ts \<longleftrightarrow> (\<forall>t. Some t \<in> set ts \<longrightarrow> length (kt_shape t) = 3)"

lemma three_dim_shards: "three_dim ts \<Longrightarrow> three_dim (shards S a ts)"
proof -
  assume t: "three_dim ts"
  have "length (kt_shape u) = 3" if u: "Some u \<in> set (shards S a ts)" for u
  proof -
    obtain x where "x \<in> set ts" "map_option (shard S a) x = Some u" using u unfolding shards_def set_map by (metis imageE)
    then show ?thesis using t by (auto simp: three_dim_def shard_def narrow_def)
  qed
  then show ?thesis by (simp add: three_dim_def)
qed

lemma hook_merge_default:
  assumes "\<forall>c \<in> set caches. three_dim c"
  shows "hook_merge_cache odd_cat caches = merge_cache odd_cat caches"
proof -
  have "hook_merge_layer odd_cat caches i = merge_layer odd_cat caches i" for i
  proof -
    let ?ts = "List.map_filter (\<lambda>l. if i < length l then l ! i else None) caches"
    have "\<forall>t \<in> set ?ts. length (kt_shape t) = 3"
    proof
      fix t assume "t \<in> set ?ts"
      then obtain c where "c \<in> set caches" "i < length c" "c ! i = Some t" by (auto simp: List.map_filter_def split: if_splits)
      then show "length (kt_shape t) = 3" using assms by (metis three_dim_def nth_mem)
    qed
    then have "?ts \<noteq> [] \<Longrightarrow> length (kt_shape (hd ?ts)) = 3" by simp
    then show ?thesis by (simp add: hook_merge_layer_def merge_layer_def Let_def)
  qed
  then have "hook_merge_layer odd_cat caches = merge_layer odd_cat caches" by (rule ext)
  then show ?thesis by (simp add: hook_merge_cache_def merge_cache_def)
qed

lemma hook_slice_shards:
  assumes "all_shardable (S * k) ts" "b < S * k" "S > 0" "k > 0" "three_dim ts"
  shows "map (hook_slice_tensor k (b mod k)) (shards S (b div k) ts) = shards (S * k) b ts"
proof -
  have "hook_slice_tensor k (b mod k) (map_option (shard S (b div k)) t) = map_option (shard (S * k) b) t" if t: "t \<in> set ts" for t
  proof (cases t)
    case (Some u)
    have "shardable (S * k) u" using assms(1) t Some by (simp add: all_shardable_def)
    from shard_of_shard [OF this assms(2-4)] show ?thesis
      using assms(5) t Some
      by (auto simp: three_dim_def hook_slice_tensor_def slice_kv_tensor_heads_def shard_def [of S] narrow_def Let_def split: if_splits)
  qed (simp add: hook_slice_tensor_def)
  then show ?thesis by (simp add: shards_def)
qed



end
