(* ===== verification/Prefix_Tensors.thy ===== *)
theory Prefix_Tensors
  imports Omni_Prelude
begin

text \<open>
  The prefix cache for hidden states and multimodal outputs (\<^verbatim>\<open>core/prefix_cache.py\<close>, with
  \<^verbatim>\<open>utils/mm_outputs.py\<close>): one row per token, kept in the slots that vLLM gives the token in its key-value
  cache.  Rows are written after every forward, either at once or one step late by an asynchronous copy;
  outputs of some keys are kept back until their request finishes.  A request that starts on cached blocks
  gets the rows of those blocks in front of its own.

  A row is an abstract value \<open>'r\<close>, \<open>zeros\<close> the row a new cache holds.  A tensor with two dimensions is the
  list of its rows; every value under one key has rows of one width.  A tensor with one dimension is \<open>Flat\<close>,
  one without dimensions \<open>MScalar\<close>, and \<open>MObj\<close> is anything else.
\<close>

section \<open>Values and state\<close>

datatype 'r mm_value =
    Rows "'r list" | Flat "'r list" | MScalar 'r | MDict "(string \<times> 'r mm_value) list" | MList "'r mm_value list" | MNone | MObj 'r

record 'r pending_write =
  pw_num_tokens :: nat
  pw_slots :: "nat list"
  pw_hidden :: "'r list option"
  pw_mm :: "(string, 'r list) dict"

record 'r prefix_cache =
  pc_num_blocks :: nat
  pc_block_size :: nat
  pc_hidden :: "'r list"
  pc_mm :: "(string, 'r list) dict"
  pc_hits :: "string list"
  pc_deferred :: "(string, (string, (nat \<times> 'r list) list) dict) dict"
  pc_pending :: "'r pending_write option"

definition cache_tensor :: "'r \<Rightarrow> nat \<Rightarrow> nat \<Rightarrow> 'r list" where
  "cache_tensor zeros num_blocks block_size = replicate (num_blocks * block_size) zeros"

definition new_prefix_cache :: "'r \<Rightarrow> nat \<Rightarrow> nat \<Rightarrow> 'r prefix_cache" where
  "new_prefix_cache zeros num_blocks block_size =
     \<lparr>pc_num_blocks = num_blocks, pc_block_size = block_size, pc_hidden = cache_tensor zeros num_blocks block_size,
      pc_mm = [], pc_hits = [], pc_deferred = [], pc_pending = None\<rparr>"

definition maybe_init_missing_mm_cache_keys :: "'r \<Rightarrow> (string, 'r mm_value) dict \<Rightarrow> nat \<Rightarrow> 'r prefix_cache \<Rightarrow> 'r prefix_cache" where
  "maybe_init_missing_mm_cache_keys zeros outputs seq_len S =
     fold (\<lambda>(k, v) S. case v of
         Rows rs \<Rightarrow> if length rs = seq_len \<and> dict_get (pc_mm S) k = None
                    then S\<lparr>pc_mm := dict_set k (cache_tensor zeros (pc_num_blocks S) (pc_block_size S)) (pc_mm S)\<rparr> else S
       | _ \<Rightarrow> S) outputs S"

section \<open>Writing\<close>

text \<open>\<^verbatim>\<open>index_copy_(0, slots, src)\<close>.\<close>

definition index_copy :: "nat list \<Rightarrow> 'r list \<Rightarrow> 'r list \<Rightarrow> py_exc + 'r list" where
  "index_copy slots src flat =
     (if length slots \<noteq> length src \<or> (\<exists>s \<in> set slots. s \<ge> length flat) then Inl IndexError
      else Inr (fold (\<lambda>(s, r) f. f[s := r]) (zip slots src) flat))"

fun write_mm :: "nat list \<Rightarrow> (string, 'r list) dict \<Rightarrow> 'r prefix_cache \<Rightarrow> py_exc + 'r prefix_cache" where
  "write_mm slots [] S = Inr S"
| "write_mm slots ((k, src) # mm) S =
     (case dict_get (pc_mm S) k of
        None \<Rightarrow> write_mm slots mm S
      | Some flat \<Rightarrow> rbind (index_copy slots src flat) (\<lambda>flat'. write_mm slots mm (S\<lparr>pc_mm := dict_set k flat' (pc_mm S)\<rparr>)))"

definition write_hidden :: "nat list \<Rightarrow> 'r list option \<Rightarrow> 'r prefix_cache \<Rightarrow> py_exc + 'r prefix_cache" where
  "write_hidden slots h S = (case h of None \<Rightarrow> Inr S
     | Some src \<Rightarrow> rbind (index_copy slots src (pc_hidden S)) (\<lambda>flat. Inr (S\<lparr>pc_hidden := flat\<rparr>)))"

text \<open>At once.  A value under a cached key that is no tensor of rows cannot be scattered.\<close>

fun sync_mm :: "nat \<Rightarrow> nat list \<Rightarrow> string list \<Rightarrow> (string, 'r mm_value) dict \<Rightarrow> string list \<Rightarrow> 'r prefix_cache \<Rightarrow> py_exc + 'r prefix_cache" where
  "sync_mm n slots skip outputs [] S = Inr S"
| "sync_mm n slots skip outputs (k # ks) S =
     (if k \<in> set skip then sync_mm n slots skip outputs ks S
      else case dict_get outputs k of
        None \<Rightarrow> sync_mm n slots skip outputs ks S
      | Some (Rows rs) \<Rightarrow> rbind (index_copy slots (take n rs) (the (dict_get (pc_mm S) k))) (\<lambda>flat.
          sync_mm n slots skip outputs ks (S\<lparr>pc_mm := dict_set k flat (pc_mm S)\<rparr>))
      | Some (Flat rs) \<Rightarrow> Inl IndexError
      | Some (MScalar r) \<Rightarrow> Inl IndexError
      | Some (MList vs) \<Rightarrow> Inl AttributeError
      | Some v \<Rightarrow> Inl TypeError)"

text \<open>A hidden-state view that was staged on the host before: what is checked of it, and its rows.\<close>

record 'r staged_rows =
  sr_valid :: bool
  sr_rows :: "'r list"

definition resolve_hidden_states_cpu :: "'r list \<Rightarrow> nat \<Rightarrow> 'r staged_rows option \<Rightarrow> py_exc + 'r list" where
  "resolve_hidden_states_cpu hidden n staged = (case staged of
     None \<Rightarrow> Inr (take n hidden)
   | Some s \<Rightarrow> if \<not> sr_valid s \<or> length (sr_rows s) < n then Inl RuntimeError else Inr (take n (sr_rows s)))"

definition update_omni_tensor_prefix_cache ::
  "'r \<Rightarrow> 'r list option \<Rightarrow> (string, 'r mm_value) dict option \<Rightarrow> nat \<Rightarrow> nat list \<Rightarrow> nat option \<Rightarrow> string list \<Rightarrow> 'r staged_rows option \<Rightarrow>
   'r prefix_cache \<Rightarrow> py_exc + 'r prefix_cache" where
  "update_omni_tensor_prefix_cache zeros hidden outputs n slot_mapping padded skip staged S =
     (let slots = take n slot_mapping
      in rbind (case hidden of None \<Rightarrow> Inr S
                | Some h \<Rightarrow> rbind (resolve_hidden_states_cpu h n staged) (\<lambda>rs. write_hidden slots (Some rs) S)) (\<lambda>S1.
        case outputs of None \<Rightarrow> Inr S1
        | Some out \<Rightarrow>
            let S2 = maybe_init_missing_mm_cache_keys zeros out (case padded of None \<Rightarrow> n | Some p \<Rightarrow> p) S1
            in sync_mm n slots skip out (dict_keys (pc_mm S2)) S2))"

text \<open>One step late: the copy of a step is applied when the next one is scheduled, or earlier when it has
  finished by then.\<close>

definition consume_pending_write :: "'r prefix_cache \<Rightarrow> py_exc + 'r prefix_cache" where
  "consume_pending_write S = (case pc_pending S of
     None \<Rightarrow> Inr S
   | Some w \<Rightarrow>
       let S1 = S\<lparr>pc_pending := None\<rparr>
       in if pw_num_tokens w = 0 then Inr S1
          else rbind (write_hidden (pw_slots w) (pw_hidden w) S1) (write_mm (pw_slots w) (pw_mm w)))"

definition drain_ready_async_writes :: "bool \<Rightarrow> 'r prefix_cache \<Rightarrow> py_exc + (nat \<times> 'r prefix_cache)" where
  "drain_ready_async_writes fired S =
     (if pc_pending S = None then Inr (0, S)
      else if \<not> fired then Inr (0, S)
      else rbind (consume_pending_write S) (\<lambda>S'. Inr (1, S')))"

definition cacheable_rows :: "nat \<Rightarrow> string list \<Rightarrow> (string, 'r mm_value) dict \<Rightarrow> string list \<Rightarrow> (string, 'r list) dict" where
  "cacheable_rows n skip outputs keys = List.map_filter (\<lambda>k.
     if k \<in> set skip then None
     else case dict_get outputs k of Some (Rows rs) \<Rightarrow> if length rs < n then None else Some (k, take n rs) | _ \<Rightarrow> None) keys"

definition schedule_async_write ::
  "'r \<Rightarrow> bool \<Rightarrow> 'r list option \<Rightarrow> (string, 'r mm_value) dict option \<Rightarrow> nat list \<Rightarrow> nat \<Rightarrow> nat \<Rightarrow> string list \<Rightarrow> 'r prefix_cache \<Rightarrow>
   py_exc + 'r prefix_cache" where
  "schedule_async_write zeros cuda hidden outputs slot_mapping n padded skip S =
     (if \<not> cuda then Inr S
      else let has = (outputs \<noteq> None \<and> outputs \<noteq> Some []); out = (case outputs of None \<Rightarrow> [] | Some d \<Rightarrow> d);
               S1 = (if has then maybe_init_missing_mm_cache_keys zeros out padded S else S);
               rows = (if has then cacheable_rows n skip out (dict_keys (pc_mm S1)) else [])
           in rbind (consume_pending_write S1) (\<lambda>S2.
             if hidden = None \<and> rows = [] then Inr S2
             else Inr (S2\<lparr>pc_pending := Some \<lparr>pw_num_tokens = n, pw_slots = take n slot_mapping,
               pw_hidden = map_option (take n) hidden, pw_mm = rows\<rparr>\<rparr>)))"

section \<open>The batch\<close>

text \<open>The requests of the runner's batch, by row: every request of a batch has a row, a start and a block table.\<close>

record input_batch =
  ib_req_ids :: "string list"
  ib_index :: "(string, nat) dict"
  ib_num_computed :: "nat list"
  ib_block_table :: "nat list list"

definition add_prefix_cached_new_req_id :: "string \<Rightarrow> 'r prefix_cache \<Rightarrow> 'r prefix_cache" where
  "add_prefix_cached_new_req_id rid S = S\<lparr>pc_hits := List.insert rid (pc_hits S)\<rparr>"

definition reset_prefix_cached_new_req_ids :: "'r prefix_cache \<Rightarrow> 'r prefix_cache" where
  "reset_prefix_cached_new_req_ids S = S\<lparr>pc_hits := []\<rparr>"

definition has_prefix_cached_new_req_ids :: "'r prefix_cache \<Rightarrow> bool" where
  "has_prefix_cached_new_req_ids S \<longleftrightarrow> pc_hits S \<noteq> []"

section \<open>Outputs kept back until the request finishes\<close>

definition token_start :: "nat \<Rightarrow> nat \<Rightarrow> nat" where
  "token_start computed_end sched = computed_end - sched"

definition stage_chunk ::
  "nat list \<Rightarrow> input_batch \<Rightarrow> (string, nat) dict \<Rightarrow> string \<Rightarrow> 'r list \<Rightarrow> string \<Rightarrow> 'r prefix_cache \<Rightarrow> 'r prefix_cache" where
  "stage_chunk query_start B scheduled key rows rid S =
     (let idx = the (dict_get (ib_index B) rid);
          sched = (case dict_get scheduled rid of None \<Rightarrow> 0 | Some n \<Rightarrow> n);
          start = query_start ! idx; stop = min (start + sched) (length rows)
      in if sched = 0 \<or> start \<ge> length rows \<or> stop \<le> start then S
         else let per = (case dict_get (pc_deferred S) rid of None \<Rightarrow> [] | Some d \<Rightarrow> d);
                  chunks = (case dict_get per key of None \<Rightarrow> [] | Some cs \<Rightarrow> cs);
                  chunk = (token_start (ib_num_computed B ! idx) sched, take (stop - start) (drop start rows))
              in S\<lparr>pc_deferred := dict_set rid (dict_set key (chunks @ [chunk]) per) (pc_deferred S)\<rparr>)"

definition stage_deferred_mm_outputs ::
  "nat list \<Rightarrow> input_batch \<Rightarrow> (string, 'r mm_value) dict option \<Rightarrow> (string, nat) dict \<Rightarrow> string list \<Rightarrow> 'r prefix_cache \<Rightarrow> 'r prefix_cache" where
  "stage_deferred_mm_outputs query_start B outputs scheduled keys S =
     fold (\<lambda>key S. case dict_get (case outputs of None \<Rightarrow> [] | Some d \<Rightarrow> d) key of
         Some (Rows rows) \<Rightarrow> fold (stage_chunk query_start B scheduled key rows) (ib_req_ids B) S
       | _ \<Rightarrow> S) keys S"

definition slot_ids_for_token_range :: "nat \<Rightarrow> input_batch \<Rightarrow> nat \<Rightarrow> nat \<Rightarrow> nat \<Rightarrow> nat list" where
  "slot_ids_for_token_range block_size B idx start n =
     map (\<lambda>p. (ib_block_table B ! idx ! (p div block_size)) * block_size + p mod block_size)
       (filter (\<lambda>p. p div block_size < length (ib_block_table B ! idx)) [start..<start + n])"

definition write_deferred_mm_tensor :: "'r \<Rightarrow> nat \<Rightarrow> input_batch \<Rightarrow> string \<Rightarrow> 'r list list \<Rightarrow> nat \<Rightarrow> 'r prefix_cache \<Rightarrow> py_exc + 'r prefix_cache" where
  "write_deferred_mm_tensor zeros idx B key tensors start S =
     (let rows = concat tensors
      in if rows = [] then Inr S
         else let S1 = (if dict_get (pc_mm S) key = None
                then S\<lparr>pc_mm := dict_set key (cache_tensor zeros (pc_num_blocks S) (pc_block_size S)) (pc_mm S)\<rparr> else S);
                  slots = slot_ids_for_token_range (pc_block_size S1) B idx start (length rows)
              in if slots = [] then Inr S1
                 else rbind (index_copy slots (take (length slots) rows) (the (dict_get (pc_mm S1) key))) (\<lambda>flat.
                   Inr (S1\<lparr>pc_mm := dict_set key flat (pc_mm S1)\<rparr>)))"

text \<open>The loop over the sorted chunks: the run collected so far, where it starts and where it should go on.\<close>

fun commit_chunks ::
  "'r \<Rightarrow> nat \<Rightarrow> input_batch \<Rightarrow> string \<Rightarrow> (nat \<times> 'r list) list \<Rightarrow> nat \<Rightarrow> nat \<Rightarrow> 'r list list \<Rightarrow> 'r prefix_cache \<Rightarrow> py_exc + 'r prefix_cache" where
  "commit_chunks zeros idx B key [] first expected tensors S =
     (if tensors \<noteq> [] then write_deferred_mm_tensor zeros idx B key tensors first S else Inr S)"
| "commit_chunks zeros idx B key ((start, rows) # chunks) first expected tensors S =
     (if rows = [] then commit_chunks zeros idx B key chunks first expected tensors S
      else if start \<noteq> expected
      then rbind (if tensors \<noteq> [] then write_deferred_mm_tensor zeros idx B key tensors first S else Inr S)
             (commit_chunks zeros idx B key chunks start (start + length rows) [rows])
      else commit_chunks zeros idx B key chunks first (expected + length rows) (tensors @ [rows]) S)"

definition commit_deferred_mm_key ::
  "'r \<Rightarrow> nat \<Rightarrow> input_batch \<Rightarrow> string \<times> (nat \<times> 'r list) list \<Rightarrow> 'r prefix_cache \<Rightarrow> py_exc + 'r prefix_cache" where
  "commit_deferred_mm_key zeros idx B = (\<lambda>(key, chunks) S.
     if chunks = [] then Inr S
     else let cs = sort_key fst chunks in commit_chunks zeros idx B key cs (fst (hd cs)) (fst (hd cs)) [] S)"

fun fold_result :: "('a \<Rightarrow> 's \<Rightarrow> 'e + 's) \<Rightarrow> 'a list \<Rightarrow> 's \<Rightarrow> 'e + 's" where
  "fold_result f [] s = Inr s"
| "fold_result f (x # xs) s = rbind (f x s) (fold_result f xs)"

definition commit_request :: "'r \<Rightarrow> input_batch \<Rightarrow> string \<Rightarrow> 'r prefix_cache \<Rightarrow> py_exc + 'r prefix_cache" where
  "commit_request zeros B rid S =
     (let S1 = S\<lparr>pc_deferred := dict_del rid (pc_deferred S)\<rparr>
      in case dict_get (pc_deferred S) rid of
           None \<Rightarrow> Inr S1
         | Some per \<Rightarrow> if per = [] then Inr S1
             else (case dict_get (ib_index B) rid of None \<Rightarrow> Inr S1
               | Some idx \<Rightarrow> fold_result (commit_deferred_mm_key zeros idx B) per S1))"

definition commit_deferred_mm_outputs :: "'r \<Rightarrow> string list \<Rightarrow> input_batch \<Rightarrow> 'r prefix_cache \<Rightarrow> py_exc + 'r prefix_cache" where
  "commit_deferred_mm_outputs zeros finished B S =
     (if finished = [] \<or> pc_deferred S = [] then Inr S else fold_result (commit_request zeros B) finished S)"

definition discard_deferred_mm_outputs :: "string \<Rightarrow> 'r prefix_cache \<Rightarrow> 'r prefix_cache" where
  "discard_deferred_mm_outputs rid S = S\<lparr>pc_deferred := dict_del rid (pc_deferred S)\<rparr>"

section \<open>Merging\<close>

definition cached_block_ids :: "nat \<Rightarrow> nat \<Rightarrow> input_batch \<Rightarrow> nat list" where
  "cached_block_ids block_size idx B = take (ib_num_computed B ! idx div block_size) (ib_block_table B ! idx)"

definition block_rows :: "nat \<Rightarrow> 'r list \<Rightarrow> nat \<Rightarrow> 'r list" where
  "block_rows block_size flat b = take block_size (drop (b * block_size) flat)"

definition span :: "nat list \<Rightarrow> input_batch \<Rightarrow> (string, nat) dict \<Rightarrow> string \<Rightarrow> py_exc + (nat \<times> nat)" where
  "span query_start B scheduled rid = (case (dict_get (ib_index B) rid, dict_get scheduled rid) of
     (Some idx, Some n) \<Rightarrow> if idx < length query_start then Inr (query_start ! idx, query_start ! idx + n) else Inl IndexError
   | _ \<Rightarrow> Inl KeyError)"

fun spans :: "nat list \<Rightarrow> input_batch \<Rightarrow> (string, nat) dict \<Rightarrow> string list \<Rightarrow> py_exc + (string \<times> nat \<times> nat) list" where
  "spans query_start B scheduled [] = Inr []"
| "spans query_start B scheduled (rid # rids) =
     rbind (span query_start B scheduled rid) (\<lambda>s. rbind (spans query_start B scheduled rids) (\<lambda>ss. Inr ((rid, s) # ss)))"

definition merged_rows :: "nat \<Rightarrow> string list \<Rightarrow> input_batch \<Rightarrow> 'r list \<Rightarrow> 'r list \<Rightarrow> string \<times> nat \<times> nat \<Rightarrow> 'r list" where
  "merged_rows block_size hits B flat rows = (\<lambda>(rid, start, stop).
     let new = take (stop - start) (drop start rows)
     in if rid \<in> set hits
        then concat (map (block_rows block_size flat) (cached_block_ids block_size (the (dict_get (ib_index B) rid)) B)) @ new
        else new)"

definition get_merged_tensors ::
  "nat list \<Rightarrow> input_batch \<Rightarrow> 'r list \<Rightarrow> 'r list \<Rightarrow> (string, nat) dict \<Rightarrow> 'r staged_rows option \<Rightarrow> 'r prefix_cache \<Rightarrow>
   py_exc + (string, 'r list) dict" where
  "get_merged_tensors query_start B flat hidden scheduled staged S =
     rbind (spans query_start B scheduled (ib_req_ids B)) (\<lambda>ss.
       rbind (resolve_hidden_states_cpu hidden (foldr max (map (snd \<circ> snd) ss) 0) staged) (\<lambda>rows.
         if \<exists>rid \<in> set (ib_req_ids B). rid \<in> set (pc_hits S) \<and>
              (\<exists>b \<in> set (cached_block_ids (pc_block_size S) (the (dict_get (ib_index B) rid)) B). b \<ge> pc_num_blocks S)
         then Inl IndexError
         else Inr (map (\<lambda>s. (fst s, merged_rows (pc_block_size S) (pc_hits S) B flat rows s)) ss)))"

definition get_merged_hidden_states ::
  "nat list \<Rightarrow> input_batch \<Rightarrow> 'r list \<Rightarrow> (string, nat) dict \<Rightarrow> 'r staged_rows option \<Rightarrow> 'r prefix_cache \<Rightarrow> py_exc + (string, 'r list) dict" where
  "get_merged_hidden_states query_start B hidden scheduled staged S =
     get_merged_tensors query_start B (pc_hidden S) hidden scheduled staged S"

section \<open>Scattering rows\<close>

definition scatter :: "nat list \<Rightarrow> 'r list \<Rightarrow> 'r list \<Rightarrow> 'r list" where
  "scatter slots src flat = fold (\<lambda>(s, r) f. f[s := r]) (zip slots src) flat"

lemma index_copy_ok:
  "length slots = length src \<Longrightarrow> \<forall>s \<in> set slots. s < length flat \<Longrightarrow> index_copy slots src flat = Inr (scatter slots src flat)"
  by (auto simp: index_copy_def scatter_def not_le)

lemma length_scatter [simp]: "length (scatter slots src flat) = length flat"
  by (induction slots arbitrary: src flat) (auto simp: scatter_def zip_Cons1 split: list.splits)

lemma scatter_other: "s \<notin> set slots \<Longrightarrow> scatter slots src flat ! s = flat ! s"
proof (induction slots arbitrary: src flat)
  case (Cons t slots)
  then show ?case by (cases src) (auto simp: scatter_def)
qed (simp add: scatter_def)

lemma scatter_at:
  "distinct slots \<Longrightarrow> length slots = length src \<Longrightarrow> \<forall>s \<in> set slots. s < length flat \<Longrightarrow> i < length slots \<Longrightarrow>
     scatter slots src flat ! (slots ! i) = src ! i"
proof (induction slots arbitrary: src flat i)
  case (Cons t slots)
  obtain r rs where src: "src = r # rs" using Cons.prems(2) by (cases src) auto
  have e: "scatter (t # slots) src flat = scatter slots rs (flat[t := r])" by (simp add: scatter_def src)
  show ?case
  proof (cases i)
    case 0
    then show ?thesis using Cons.prems scatter_other [of t slots rs "flat[t := r]"] by (simp add: e) (simp add: src)
  next
    case (Suc j)
    have "scatter slots rs (flat[t := r]) ! (slots ! j) = rs ! j" using Cons.prems by (intro Cons.IH) (simp_all add: src Suc)
    then show ?thesis by (simp add: e) (simp add: src Suc)
  qed
qed simp

section \<open>Rows that were kept back\<close>

definition slot_of :: "nat \<Rightarrow> nat list \<Rightarrow> nat \<Rightarrow> nat" where
  "slot_of block_size table p = table ! (p div block_size) * block_size + p mod block_size"

lemma slot_inject:
  assumes "distinct table" "bs > 0" "p < length table * bs" "q < length table * bs"
  shows "slot_of bs table p = slot_of bs table q \<longleftrightarrow> p = q"
proof
  assume e: "slot_of bs table p = slot_of bs table q"
  have "slot_of bs table p div bs = slot_of bs table q div bs" "slot_of bs table p mod bs = slot_of bs table q mod bs"
    using e by simp_all
  then have m: "table ! (p div bs) = table ! (q div bs)" "p mod bs = q mod bs" using assms(2) by (simp_all add: slot_of_def)
  have "p div bs < length table" "q div bs < length table" using assms(3,4) by (simp_all add: less_mult_imp_div_less)
  then have "p div bs = q div bs" using m(1) assms(1) by (simp add: nth_eq_iff_index_eq)
  then show "p = q" using m(2) by (metis div_mult_mod_eq)
qed simp

lemma slots_in_table:
  assumes "ib_block_table B ! idx = table" "start + n \<le> length table * bs"
  shows "slot_ids_for_token_range bs B idx start n = map (slot_of bs table) [start..<start + n]"
proof -
  have "filter (\<lambda>p. p div bs < length table) [start..<start + n] = [start..<start + n]"
    using assms(2) by (intro filter_True) (auto intro!: less_mult_imp_div_less)
  then show ?thesis using assms(1) by (simp add: slot_ids_for_token_range_def slot_of_def [abs_def])
qed

lemma slot_bound:
  assumes "\<forall>b \<in> set table. b < nb" "bs > 0" "p < length table * bs"
  shows "slot_of bs table p < nb * bs"
proof -
  have "p div bs < length table" using assms(3) by (simp add: less_mult_imp_div_less)
  then have "table ! (p div bs) < nb" using assms(1) by simp
  then have "Suc (table ! (p div bs)) * bs \<le> nb * bs" by (intro mult_right_mono) simp_all
  moreover have "p mod bs < bs" using assms(2) by simp
  ultimately show ?thesis unfolding slot_of_def by simp
qed

text \<open>One run of rows written through the block table of its request.\<close>

lemma run_written:
  assumes "ib_block_table B ! idx = table" "distinct table" "\<forall>b \<in> set table. b < pc_num_blocks S" "pc_block_size S > 0"
    "start + length rows \<le> length table * pc_block_size S" "rows \<noteq> []"
    "dict_get (pc_mm S) key = (if new then None else Some flat)" "flat = (if new then cache_tensor zeros (pc_num_blocks S) (pc_block_size S) else flat)"
    "length flat = pc_num_blocks S * pc_block_size S"
  shows "\<exists>S' flat'. write_deferred_mm_tensor zeros idx B key [rows] start S = Inr S' \<and>
    pc_num_blocks S' = pc_num_blocks S \<and> pc_block_size S' = pc_block_size S \<and> dict_get (pc_mm S') key = Some flat' \<and> length flat' = length flat \<and>
    (\<forall>p < length table * pc_block_size S. flat' ! slot_of (pc_block_size S) table p =
      (if start \<le> p \<and> p < start + length rows then rows ! (p - start) else flat ! slot_of (pc_block_size S) table p))"
proof -
  let ?bs = "pc_block_size S" and ?slots = "map (slot_of (pc_block_size S) table) [start..<start + length rows]"
  have slots: "slot_ids_for_token_range ?bs B idx start (length rows) = ?slots" using slots_in_table [OF assms(1,5)] .
  have inj: "inj_on (slot_of ?bs table) {start..<start + length rows}"
    using slot_inject [OF assms(2,4)] assms(5) by (auto intro!: inj_onI)
  then have d: "distinct ?slots" by (simp add: distinct_map)
  have b: "\<forall>s \<in> set ?slots. s < length flat" using slot_bound [OF assms(3,4)] assms(5,9) by auto
  have ne: "?slots \<noteq> []" using assms(6) by simp
  have ic: "index_copy ?slots rows flat = Inr (scatter ?slots rows flat)" using b by (intro index_copy_ok) simp_all
  have w: "\<exists>S'. write_deferred_mm_tensor zeros idx B key [rows] start S = Inr S' \<and> pc_num_blocks S' = pc_num_blocks S \<and>
      pc_block_size S' = ?bs \<and> dict_get (pc_mm S') key = Some (scatter ?slots rows flat)"
    using assms(6,7,8) ic ne by (cases new) (simp_all add: write_deferred_mm_tensor_def Let_def slots dict_simps)
  have "scatter ?slots rows flat ! slot_of ?bs table p =
      (if start \<le> p \<and> p < start + length rows then rows ! (p - start) else flat ! slot_of ?bs table p)"
    if p: "p < length table * ?bs" for p
  proof (cases "start \<le> p \<and> p < start + length rows")
    case True
    then have lt: "p - start < length rows" by linarith
    then have "?slots ! (p - start) = slot_of ?bs table p" using True by (subst nth_map) simp_all
    then show ?thesis using scatter_at [OF d _ b, of rows "p - start"] True lt by simp
  next
    case False
    have out: "slot_of ?bs table p \<notin> set ?slots"
    proof
      assume "slot_of ?bs table p \<in> set ?slots"
      then obtain q where "q \<in> {start..<start + length rows}" "slot_of ?bs table p = slot_of ?bs table q" by auto
      then show False using slot_inject [OF assms(2,4) p] False assms(5) by auto
    qed
    show ?thesis unfolding if_not_P [OF False] by (rule scatter_other [OF out])
  qed
  then show ?thesis using w by auto
qed

text \<open>What staging keeps of a request that is alone in its batch.\<close>

definition alone :: "string \<Rightarrow> nat \<Rightarrow> nat list \<Rightarrow> input_batch" where
  "alone rid computed table = \<lparr>ib_req_ids = [rid], ib_index = [(rid, 0)], ib_num_computed = [computed], ib_block_table = [table]\<rparr>"

lemma staged_alone:
  assumes "rows \<noteq> []"
  shows "stage_deferred_mm_outputs [0] (alone rid computed table) (Some [(key, Rows rows)]) [(rid, length rows)] [key] S =
    S\<lparr>pc_deferred := dict_set rid (dict_set key
      ((case dict_get (case dict_get (pc_deferred S) rid of None \<Rightarrow> [] | Some d \<Rightarrow> d) key of None \<Rightarrow> [] | Some cs \<Rightarrow> cs) @
        [(computed - length rows, rows)])
      (case dict_get (pc_deferred S) rid of None \<Rightarrow> [] | Some d \<Rightarrow> d)) (pc_deferred S)\<rparr>"
  using assms by (simp add: stage_deferred_mm_outputs_def stage_chunk_def alone_def token_start_def Let_def)

text \<open>
  C32: Rows that are kept back land too early.  A prompt is prefilled in two parts, the second at most as long
  as the first, and the batch tells before each forward how many tokens were computed before it, which is also
  what merging takes it for.  Staging takes the number for the one after the forward: when the request finishes,
  the rows of the second part are written over the last rows of the first, and the slots of the second part keep
  what they held.  A later request that starts on these blocks gets the wrong rows.
\<close>

theorem deferred_rows_land_early:
  assumes "distinct table" "\<forall>b \<in> set table. b < pc_num_blocks S" "pc_block_size S > 0"
    "dict_get (pc_deferred S) rid = None" "dict_get (pc_mm S) key = None"
    "first \<noteq> []" "second \<noteq> []" "length second \<le> length first" "length first + length second \<le> length table * pc_block_size S"
  shows "\<exists>S' flat. commit_deferred_mm_outputs zeros [rid] (alone rid (length first + length second) table)
      (stage_deferred_mm_outputs [0] (alone rid (length first) table) (Some [(key, Rows second)]) [(rid, length second)] [key]
        (stage_deferred_mm_outputs [0] (alone rid 0 table) (Some [(key, Rows first)]) [(rid, length first)] [key] S)) = Inr S' \<and>
    dict_get (pc_mm S') key = Some flat \<and>
    (\<forall>i < length second. flat ! slot_of (pc_block_size S) table (length first - length second + i) = second ! i \<and>
      flat ! slot_of (pc_block_size S) table (length first + i) = zeros)"
proof -
  let ?n = "length first" and ?m = "length second" and ?B = "alone rid (length first + length second) table"
  let ?D = "dict_set rid [(key, [(0, first), (?n - ?m, second)])] (dict_set rid [(key, [(0, first)])] (pc_deferred S))"
  let ?S1 = "S\<lparr>pc_deferred := dict_del rid ?D\<rparr>"
  have staged: "stage_deferred_mm_outputs [0] (alone rid ?n table) (Some [(key, Rows second)]) [(rid, ?m)] [key]
      (stage_deferred_mm_outputs [0] (alone rid 0 table) (Some [(key, Rows first)]) [(rid, ?n)] [key] S) = S\<lparr>pc_deferred := ?D\<rparr>"
    using assms(4,6,7) by (simp add: staged_alone dict_simps)
  have table: "ib_block_table ?B ! 0 = table" by (simp add: alone_def)
  obtain S2 flat2 where one: "write_deferred_mm_tensor zeros 0 ?B key [first] 0 ?S1 = Inr S2"
    "pc_num_blocks S2 = pc_num_blocks S" "pc_block_size S2 = pc_block_size S" "dict_get (pc_mm S2) key = Some flat2"
    "length flat2 = pc_num_blocks S * pc_block_size S"
    "\<forall>p < length table * pc_block_size S. flat2 ! slot_of (pc_block_size S) table p =
      (if p < ?n then first ! p else cache_tensor zeros (pc_num_blocks S) (pc_block_size S) ! slot_of (pc_block_size S) table p)"
    using run_written [OF table assms(1), of ?S1 0 first key True "cache_tensor zeros (pc_num_blocks S) (pc_block_size S)" zeros] assms
    by (auto simp: cache_tensor_def)
  obtain S3 flat3 where two: "write_deferred_mm_tensor zeros 0 ?B key [second] (?n - ?m) S2 = Inr S3" "dict_get (pc_mm S3) key = Some flat3"
    "\<forall>p < length table * pc_block_size S. flat3 ! slot_of (pc_block_size S) table p =
      (if ?n - ?m \<le> p \<and> p < ?n - ?m + ?m then second ! (p - (?n - ?m)) else flat2 ! slot_of (pc_block_size S) table p)"
    using run_written [OF table assms(1), of S2 "?n - ?m" second key False flat2 zeros] assms one by auto
  have sorted: "sort_key fst [(0, first), (?n - ?m, second)] = [(0, first), (?n - ?m, second)]"
    by (simp add: sort_key_def)
  have differ: "?n - ?m \<noteq> ?n" using assms(6-8) by (cases second) auto
  have "commit_chunks zeros 0 ?B key [(0, first), (?n - ?m, second)] 0 0 [] ?S1 = Inr S3"
    using one(1) two(1) assms(6,7) differ by simp
  then have "commit_deferred_mm_outputs zeros [rid] ?B (S\<lparr>pc_deferred := ?D\<rparr>) = Inr S3"
    using sorted assms(4)
    by (simp add: commit_deferred_mm_outputs_def commit_request_def commit_deferred_mm_key_def alone_def dict_simps Let_def)
  moreover have "flat3 ! slot_of (pc_block_size S) table (?n - ?m + i) = second ! i" if "i < ?m" for i
  proof -
    have c: "?n - ?m \<le> ?n - ?m + i \<and> ?n - ?m + i < ?n - ?m + ?m" "?n - ?m + i - (?n - ?m) = i" using that by simp_all
    have "?n - ?m + i < length table * pc_block_size S" using that assms(8,9) by linarith
    then show ?thesis using two(3) unfolding if_P [OF c(1)] by (metis c if_P)
  qed
  moreover have "flat3 ! slot_of (pc_block_size S) table (?n + i) = zeros" if i: "i < ?m" for i
  proof -
    have "slot_of (pc_block_size S) table (?n + i) < pc_num_blocks S * pc_block_size S"
      using slot_bound [OF assms(2,3)] i assms(9) by simp
    then show ?thesis using two(3) one(6) i assms(8,9) by (simp add: cache_tensor_def)
  qed
  ultimately show ?thesis using two(2) unfolding staged by blast
qed

lemma deferred_rows_land_early_witness:
  "\<exists>S' flat. commit_deferred_mm_outputs (0 :: nat) [''r''] (alone ''r'' 4 [1, 0])
      (stage_deferred_mm_outputs [0] (alone ''r'' 2 [1, 0]) (Some [(''codes.audio'', Rows [13, 14])]) [(''r'', 2)] [''codes.audio'']
        (stage_deferred_mm_outputs [0] (alone ''r'' 0 [1, 0]) (Some [(''codes.audio'', Rows [11, 12])]) [(''r'', 2)] [''codes.audio'']
          (new_prefix_cache 0 2 2))) = Inr S' \<and>
    dict_get (pc_mm S') ''codes.audio'' = Some flat \<and> flat ! 2 = 13 \<and> flat ! 0 = 0"
proof -
  have four: "length [11 :: nat, 12] + length [13 :: nat, 14] = 4" and two: "length [11 :: nat, 12] = 2" "length [13 :: nat, 14] = 2" by simp_all
  obtain S' flat where "commit_deferred_mm_outputs (0 :: nat) [''r''] (alone ''r'' 4 [1, 0])
      (stage_deferred_mm_outputs [0] (alone ''r'' 2 [1, 0]) (Some [(''codes.audio'', Rows [13, 14])]) [(''r'', 2)] [''codes.audio'']
        (stage_deferred_mm_outputs [0] (alone ''r'' 0 [1, 0]) (Some [(''codes.audio'', Rows [11, 12])]) [(''r'', 2)] [''codes.audio'']
          (new_prefix_cache 0 2 2))) = Inr S'" "dict_get (pc_mm S') ''codes.audio'' = Some flat"
    "\<forall>i < 2. flat ! slot_of (pc_block_size (new_prefix_cache (0 :: nat) 2 2)) [1, 0] (2 - 2 + i) = [13, 14] ! i \<and>
      flat ! slot_of (pc_block_size (new_prefix_cache (0 :: nat) 2 2)) [1, 0] (2 + i) = 0"
    using deferred_rows_land_early [of "[1, 0]" "new_prefix_cache (0 :: nat) 2 2" "''r''" "''codes.audio''" "[11, 12]" "[13, 14]" 0]
    unfolding four two by (auto simp: new_prefix_cache_def)
  moreover from this(3) have "flat ! 2 = 13 \<and> flat ! 0 = 0"
    by (auto dest!: spec [of _ 0] simp: slot_of_def new_prefix_cache_def numeral_2_eq_2)
  ultimately show ?thesis by blast
qed

end
