(* ===== verification/Prefix_Writes.thy ===== *)
theory Prefix_Writes
  imports Prefix_Tensors
begin

text \<open>
  The asynchronous writes of the prefix cache against writes at once: the runner's steps over both, and what a
  request that starts on cached blocks gets from them.
\<close>

section \<open>Late writes against writes at once\<close>

record 'r forward_step =
  fs_fired :: bool
  fs_hidden :: "'r list option"
  fs_outputs :: "(string, 'r mm_value) dict option"
  fs_slots :: "nat list"
  fs_n :: nat
  fs_padded :: nat
  fs_skip :: "string list"

text \<open>A step of the runner drains what has finished copying, runs the forward and schedules its rows; with
  writes at once there is nothing to drain.\<close>

definition async_step :: "'r \<Rightarrow> 'r forward_step \<Rightarrow> 'r prefix_cache \<Rightarrow> py_exc + 'r prefix_cache" where
  "async_step zeros w S = rbind (drain_ready_async_writes (fs_fired w) S) (\<lambda>(k, S').
     schedule_async_write zeros True (fs_hidden w) (fs_outputs w) (fs_slots w) (fs_n w) (fs_padded w) (fs_skip w) S')"

definition sync_step :: "'r \<Rightarrow> 'r forward_step \<Rightarrow> 'r prefix_cache \<Rightarrow> py_exc + 'r prefix_cache" where
  "sync_step zeros w S =
     update_omni_tensor_prefix_cache zeros (fs_hidden w) (fs_outputs w) (fs_n w) (fs_slots w) (Some (fs_padded w)) (fs_skip w) None S"

definition rows_ok :: "nat \<Rightarrow> (string, 'r mm_value) dict \<Rightarrow> bool" where
  "rows_ok n out \<longleftrightarrow> (\<forall>kv \<in> set out. case snd kv of Rows rs \<Rightarrow> n \<le> length rs | _ \<Rightarrow> False)"

definition step_ok :: "nat \<Rightarrow> 'r forward_step \<Rightarrow> bool" where
  "step_ok slots w \<longleftrightarrow> fs_n w \<le> length (fs_slots w) \<and> (\<forall>s \<in> set (take (fs_n w) (fs_slots w)). s < slots) \<and>
     (case fs_hidden w of None \<Rightarrow> True | Some h \<Rightarrow> fs_n w \<le> length h) \<and>
     (case fs_outputs w of None \<Rightarrow> True | Some out \<Rightarrow> rows_ok (fs_n w) out)"

definition well :: "'r prefix_cache \<Rightarrow> bool" where
  "well S \<longleftrightarrow> length (pc_hidden S) = pc_num_blocks S * pc_block_size S \<and> dict_ok (pc_mm S) \<and>
     (\<forall>kv \<in> set (pc_mm S). length (snd kv) = pc_num_blocks S * pc_block_size S)"

definition pending_ok :: "'r pending_write \<Rightarrow> 'r prefix_cache \<Rightarrow> bool" where
  "pending_ok w S \<longleftrightarrow> length (pw_slots w) = pw_num_tokens w \<and> (\<forall>s \<in> set (pw_slots w). s < pc_num_blocks S * pc_block_size S) \<and>
     (case pw_hidden w of None \<Rightarrow> True | Some h \<Rightarrow> length h = pw_num_tokens w) \<and> dict_ok (pw_mm w) \<and>
     fst ` set (pw_mm w) \<subseteq> fst ` set (pc_mm S) \<and> (\<forall>kv \<in> set (pw_mm w). length (snd kv) = pw_num_tokens w)"

definition overlay :: "nat list \<Rightarrow> (string, 'r list) dict \<Rightarrow> (string, 'r list) dict \<Rightarrow> (string, 'r list) dict" where
  "overlay slots new mm = map (\<lambda>(k, f). (k, case dict_get new k of None \<Rightarrow> f | Some rs \<Rightarrow> scatter slots rs f)) mm"

definition applied :: "'r pending_write \<Rightarrow> 'r prefix_cache \<Rightarrow> 'r prefix_cache" where
  "applied w S = S\<lparr>pc_hidden := (case pw_hidden w of None \<Rightarrow> pc_hidden S | Some h \<Rightarrow> scatter (pw_slots w) h (pc_hidden S)),
     pc_mm := overlay (pw_slots w) (pw_mm w) (pc_mm S), pc_pending := None\<rparr>"

lemma dict_set_present:
  "dict_ok d \<Longrightarrow> dict_get d k = Some f \<Longrightarrow> dict_set k (g f) d = map (\<lambda>(k', f'). (k', if k' = k then g f' else f')) d"
proof (induction d)
  case (Cons kv d)
  show ?case
  proof (cases "fst kv = k")
    case True
    then have "k \<notin> fst ` set d" using Cons.prems(1) by simp
    then have "\<forall>kv' \<in> set d. fst kv' \<noteq> k" by (metis image_eqI)
    then have "map (\<lambda>(k', f'). (k', if k' = k then g f' else f')) d = d" by (intro map_idI) auto
    then show ?thesis using True Cons.prems by (cases kv) simp
  next
    case False
    then show ?thesis using Cons by (cases kv) simp
  qed
qed simp

lemma keys_overlay [simp]: "map fst (overlay slots new mm) = map fst mm"
  by (simp add: overlay_def o_def case_prod_beta)

lemma overlay_nothing: "\<forall>k \<in> fst ` set mm. dict_get new k = None \<Longrightarrow> overlay slots new mm = mm"
  unfolding overlay_def by (intro map_idI) auto

lemma overlay_append: "overlay slots new (mm @ mm') = overlay slots new mm @ overlay slots new mm'"
  by (simp add: overlay_def)

lemma overlay_lengths: "\<forall>kv \<in> set mm. length (snd kv) = n \<Longrightarrow> \<forall>kv \<in> set (overlay slots new mm). length (snd kv) = n"
  by (auto simp: overlay_def split: option.splits)

lemma write_mm_ok:
  "well S \<Longrightarrow> \<forall>s \<in> set slots. s < pc_num_blocks S * pc_block_size S \<Longrightarrow> dict_ok new \<Longrightarrow> fst ` set new \<subseteq> fst ` set (pc_mm S) \<Longrightarrow>
     \<forall>kv \<in> set new. length (snd kv) = length slots \<Longrightarrow>
     write_mm slots new S = Inr (S\<lparr>pc_mm := overlay slots new (pc_mm S)\<rparr>)"
proof (induction new arbitrary: S)
  case Nil
  then show ?case by (simp add: overlay_nothing)
next
  case (Cons kv new)
  obtain k src where kv: "kv = (k, src)" by (meson surj_pair)
  have "k \<in> fst ` set (pc_mm S)" using Cons.prems(4) by (simp add: kv)
  then obtain f where f: "dict_get (pc_mm S) k = Some f" by (metis dict_get_None_iff list.set_map not_None_eq)
  have len: "length f = pc_num_blocks S * pc_block_size S" using Cons.prems(1) map_of_SomeD [OF f] by (force simp: well_def)
  have ic: "index_copy slots src f = Inr (scatter slots src f)" using Cons.prems(2,5) len by (intro index_copy_ok) (simp_all add: kv)
  let ?mm = "map (\<lambda>(k', f'). (k', if k' = k then scatter slots src f' else f')) (pc_mm S)"
  have d: "dict_ok (pc_mm S)" using Cons.prems(1) by (simp add: well_def)
  have set: "dict_set k (scatter slots src f) (pc_mm S) = ?mm" using dict_set_present [OF d f] .
  have w: "well (S\<lparr>pc_mm := ?mm\<rparr>)" using Cons.prems(1) by (auto simp: well_def o_def case_prod_beta)
  have IH: "write_mm slots new (S\<lparr>pc_mm := ?mm\<rparr>) = Inr (S\<lparr>pc_mm := overlay slots new ?mm\<rparr>)"
    using Cons.IH [OF w] Cons.prems(2-5) by (simp add: kv image_image case_prod_beta)
  have fresh: "dict_get new k = None" using Cons.prems(3) by (simp add: kv dict_get_None_iff)
  have "overlay slots new ?mm = overlay slots (kv # new) (pc_mm S)" using fresh by (auto simp: overlay_def kv)
  then show ?case using IH by (simp add: kv f ic set)
qed

lemma consume_applied:
  assumes "well S" "pc_pending S = Some w" "pending_ok w S"
  shows "consume_pending_write S = Inr (applied w S)"
proof (cases "pw_num_tokens w = 0")
  case True
  then have e: "pw_slots w = []" using assms(3) by (simp add: pending_ok_def)
  have "overlay [] (pw_mm w) (pc_mm S) = pc_mm S" unfolding overlay_def by (intro map_idI) (auto simp: scatter_def split: option.splits)
  then show ?thesis using True assms(2) by (auto simp: consume_pending_write_def applied_def e scatter_def split: option.splits)
next
  case False
  let ?S1 = "S\<lparr>pc_pending := None\<rparr>"
  let ?h = "case pw_hidden w of None \<Rightarrow> pc_hidden S | Some h \<Rightarrow> scatter (pw_slots w) h (pc_hidden S)"
  have "write_hidden (pw_slots w) (pw_hidden w) ?S1 = Inr (?S1\<lparr>pc_hidden := ?h\<rparr>)"
    using assms(1,3) index_copy_ok [of "pw_slots w" _ "pc_hidden S"] by (cases "pw_hidden w") (auto simp: write_hidden_def well_def pending_ok_def)
  moreover have "well (?S1\<lparr>pc_hidden := ?h\<rparr>)" using assms(1) by (simp add: well_def split: option.splits)
  from write_mm_ok [OF this, of "pw_slots w" "pw_mm w"]
  have "write_mm (pw_slots w) (pw_mm w) (?S1\<lparr>pc_hidden := ?h\<rparr>) =
      Inr (?S1\<lparr>pc_hidden := ?h, pc_mm := overlay (pw_slots w) (pw_mm w) (pc_mm S)\<rparr>)"
    using assms(3) by (simp add: pending_ok_def)
  ultimately show ?thesis using False assms(2) by (simp add: consume_pending_write_def applied_def)
qed

text \<open>New keys are put behind the present ones, whatever those hold.\<close>

fun init_entries :: "'r list \<Rightarrow> nat \<Rightarrow> (string, 'r mm_value) dict \<Rightarrow> string list \<Rightarrow> (string, 'r list) dict" where
  "init_entries z p [] ks = []"
| "init_entries z p ((k, v) # out) ks = (case v of
     Rows rs \<Rightarrow> if length rs = p \<and> k \<notin> set ks then (k, z) # init_entries z p out (ks @ [k]) else init_entries z p out ks
   | _ \<Rightarrow> init_entries z p out ks)"

lemma init_appends:
  "maybe_init_missing_mm_cache_keys zeros out p S = S\<lparr>pc_mm := pc_mm S @
     init_entries (cache_tensor zeros (pc_num_blocks S) (pc_block_size S)) p out (dict_keys (pc_mm S))\<rparr>"
proof (induction out arbitrary: S)
  case Nil
  then show ?case by (simp add: maybe_init_missing_mm_cache_keys_def)
next
  case (Cons kv out)
  obtain k v where kv: "kv = (k, v)" by (meson surj_pair)
  let ?z = "cache_tensor zeros (pc_num_blocks S) (pc_block_size S)"
  have unfold: "maybe_init_missing_mm_cache_keys zeros (kv # out) p S = maybe_init_missing_mm_cache_keys zeros out p
      (case v of Rows rs \<Rightarrow> if length rs = p \<and> dict_get (pc_mm S) k = None then S\<lparr>pc_mm := dict_set k ?z (pc_mm S)\<rparr> else S | _ \<Rightarrow> S)"
    by (simp add: maybe_init_missing_mm_cache_keys_def kv)
  show ?case
  proof (cases "\<exists>rs. v = Rows rs \<and> length rs = p \<and> dict_get (pc_mm S) k = None")
    case True
    then have "dict_set k ?z (pc_mm S) = pc_mm S @ [(k, ?z)]" "k \<notin> set (dict_keys (pc_mm S))"
      using dict_set_fresh dict_get_None_iff by (metis, metis)
    then show ?thesis using True unfolding unfold Cons.IH by (auto simp: kv)
  next
    case False
    then have "(case v of Rows rs \<Rightarrow> if length rs = p \<and> dict_get (pc_mm S) k = None then S\<lparr>pc_mm := dict_set k ?z (pc_mm S)\<rparr> else S | _ \<Rightarrow> S) = S"
      by (auto split: mm_value.splits)
    moreover have "init_entries ?z p (kv # out) (dict_keys (pc_mm S)) = init_entries ?z p out (dict_keys (pc_mm S))"
      using False by (auto simp: kv dict_get_None_iff split: mm_value.splits)
    ultimately show ?thesis unfolding unfold Cons.IH by simp
  qed
qed

lemma init_entries_fresh:
  "fst ` set (init_entries z p out ks) \<inter> set ks = {} \<and> distinct (map fst (init_entries z p out ks)) \<and>
     (\<forall>kv \<in> set (init_entries z p out ks). snd kv = z)"
proof (induction out arbitrary: ks)
  case (Cons kv out)
  obtain k v where kv: "kv = (k, v)" by (meson surj_pair)
  show ?case using Cons.IH [of ks] Cons.IH [of "ks @ [k]"] by (auto simp: kv split: mm_value.splits)
qed simp

lemma init_well:
  assumes "well S"
  shows "well (maybe_init_missing_mm_cache_keys zeros out p S)"
  using assms init_entries_fresh [of "cache_tensor zeros (pc_num_blocks S) (pc_block_size S)" p out "dict_keys (pc_mm S)"]
  by (auto simp: init_appends well_def cache_tensor_def disjoint_iff)

lemma init_applied:
  assumes "pending_ok w S"
  shows "applied w (maybe_init_missing_mm_cache_keys zeros out p S) = maybe_init_missing_mm_cache_keys zeros out p (applied w S)"
    and "pending_ok w (maybe_init_missing_mm_cache_keys zeros out p S)"
proof -
  let ?new = "init_entries (cache_tensor zeros (pc_num_blocks S) (pc_block_size S)) p out (dict_keys (pc_mm S))"
  have "\<forall>k \<in> fst ` set ?new. dict_get (pw_mm w) k = None"
  proof
    fix k assume "k \<in> fst ` set ?new"
    then have "k \<notin> set (dict_keys (pc_mm S))"
      using conjunct1 [OF init_entries_fresh [of "cache_tensor zeros (pc_num_blocks S) (pc_block_size S)" p out "dict_keys (pc_mm S)"]]
      by blast
    then have "k \<notin> fst ` set (pc_mm S)" by simp
    then show "dict_get (pw_mm w) k = None" using assms by (auto simp: pending_ok_def dict_get_None_iff)
  qed
  then show "applied w (maybe_init_missing_mm_cache_keys zeros out p S) = maybe_init_missing_mm_cache_keys zeros out p (applied w S)"
    by (cases "pw_hidden w") (simp_all add: init_appends applied_def overlay_append overlay_nothing)
  show "pending_ok w (maybe_init_missing_mm_cache_keys zeros out p S)"
    using assms by (auto simp: pending_ok_def init_appends)
qed

text \<open>Writing the outputs at once is the overlay of what a late write keeps of them.\<close>

lemma cacheable_get:
  "dict_get (cacheable_rows n skip out ks) k = (if k \<in> set ks \<and> k \<notin> set skip
     then (case dict_get out k of Some (Rows rs) \<Rightarrow> if length rs < n then None else Some (take n rs) | _ \<Rightarrow> None) else None)"
proof (induction ks)
  case Nil
  then show ?case by (simp add: cacheable_rows_def List.map_filter_def)
next
  case (Cons j ks)
  have "cacheable_rows n skip out (j # ks) = (case (if j \<in> set skip then None
     else case dict_get out j of Some (Rows rs) \<Rightarrow> if length rs < n then None else Some (j, take n rs) | _ \<Rightarrow> None) of
       None \<Rightarrow> cacheable_rows n skip out ks | Some x \<Rightarrow> x # cacheable_rows n skip out ks)"
    by (simp add: cacheable_rows_def List.map_filter_def split: option.split)
  then show ?case using Cons by (auto split: option.splits mm_value.splits)
qed

lemma cacheable_ok:
  "distinct ks \<Longrightarrow> dict_ok (cacheable_rows n skip out ks) \<and> fst ` set (cacheable_rows n skip out ks) \<subseteq> set ks \<and>
     (\<forall>kv \<in> set (cacheable_rows n skip out ks). length (snd kv) = n)"
proof (induction ks)
  case Nil
  then show ?case by (simp add: cacheable_rows_def List.map_filter_def)
next
  case (Cons j ks)
  have "cacheable_rows n skip out (j # ks) = (case (if j \<in> set skip then None
     else case dict_get out j of Some (Rows rs) \<Rightarrow> if length rs < n then None else Some (j, take n rs) | _ \<Rightarrow> None) of
       None \<Rightarrow> cacheable_rows n skip out ks | Some x \<Rightarrow> x # cacheable_rows n skip out ks)"
    by (simp add: cacheable_rows_def List.map_filter_def split: option.split)
  then show ?case using Cons by (auto split: option.splits mm_value.splits)
qed

lemma overlay_cong: "\<forall>k \<in> fst ` set mm. dict_get new k = dict_get new' k \<Longrightarrow> overlay slots new mm = overlay slots new' mm"
  unfolding overlay_def by (intro map_cong) auto

lemma sync_mm_overlay:
  "well S \<Longrightarrow> rows_ok n out \<Longrightarrow> length slots = n \<Longrightarrow> \<forall>s \<in> set slots. s < pc_num_blocks S * pc_block_size S \<Longrightarrow>
     distinct ks \<Longrightarrow> set ks \<subseteq> fst ` set (pc_mm S) \<Longrightarrow>
     sync_mm n slots skip out ks S = Inr (S\<lparr>pc_mm := overlay slots (cacheable_rows n skip out ks) (pc_mm S)\<rparr>)"
proof (induction ks arbitrary: S)
  case Nil
  then show ?case by (simp add: cacheable_rows_def List.map_filter_def overlay_nothing)
next
  case (Cons k ks)
  have IH0: "sync_mm n slots skip out ks S = Inr (S\<lparr>pc_mm := overlay slots (cacheable_rows n skip out ks) (pc_mm S)\<rparr>)"
    using Cons by simp
  show ?case
  proof (cases "k \<in> set skip \<or> dict_get out k = None")
    case True
    then have "overlay slots (cacheable_rows n skip out (k # ks)) (pc_mm S) = overlay slots (cacheable_rows n skip out ks) (pc_mm S)"
      using Cons.prems(5) by (intro overlay_cong) (auto simp: cacheable_get)
    then show ?thesis using True IH0 by auto
  next
    case False
    then obtain v where v: "dict_get out k = Some v" by auto
    have "case v of Rows rs \<Rightarrow> n \<le> length rs | _ \<Rightarrow> False"
      using Cons.prems(2) map_of_SomeD [OF v] unfolding rows_ok_def by (metis snd_conv)
    then obtain rs where rs: "dict_get out k = Some (Rows rs)" "n \<le> length rs" using v by (cases v) simp_all
    obtain f where f: "dict_get (pc_mm S) k = Some f" using Cons.prems(6) by (metis dict_get_None_iff insert_subset list.set_map list.simps(15) not_None_eq)
    have len: "length f = pc_num_blocks S * pc_block_size S" using Cons.prems(1) map_of_SomeD [OF f] by (force simp: well_def)
    have ic: "index_copy slots (take n rs) f = Inr (scatter slots (take n rs) f)"
      using Cons.prems(3,4) len rs(2) by (intro index_copy_ok) simp_all
    let ?mm = "map (\<lambda>(k', f'). (k', if k' = k then scatter slots (take n rs) f' else f')) (pc_mm S)"
    have d: "dict_ok (pc_mm S)" using Cons.prems(1) by (simp add: well_def)
    have set: "dict_set k (scatter slots (take n rs) f) (pc_mm S) = ?mm" using dict_set_present [OF d f] .
    have w: "well (S\<lparr>pc_mm := ?mm\<rparr>)" using Cons.prems(1) by (auto simp: well_def o_def case_prod_beta)
    have IH: "sync_mm n slots skip out ks (S\<lparr>pc_mm := ?mm\<rparr>) = Inr (S\<lparr>pc_mm := overlay slots (cacheable_rows n skip out ks) ?mm\<rparr>)"
      using Cons.IH [OF w] Cons.prems(2-6) by (simp add: image_image case_prod_beta)
    have "overlay slots (cacheable_rows n skip out ks) ?mm = overlay slots (cacheable_rows n skip out (k # ks)) (pc_mm S)"
      using Cons.prems(5) False rs by (auto simp: overlay_def cacheable_get split: option.splits)
    then show ?thesis using IH False rs by (simp add: f ic set)
  qed
qed

definition late_write :: "'r forward_step \<Rightarrow> 'r prefix_cache \<Rightarrow> 'r pending_write" where
  "late_write w S = \<lparr>pw_num_tokens = fs_n w, pw_slots = take (fs_n w) (fs_slots w), pw_hidden = map_option (take (fs_n w)) (fs_hidden w),
     pw_mm = (case fs_outputs w of None \<Rightarrow> [] | Some out \<Rightarrow> cacheable_rows (fs_n w) (fs_skip w) out (dict_keys (pc_mm S)))\<rparr>"

definition with_keys :: "'r \<Rightarrow> 'r forward_step \<Rightarrow> 'r prefix_cache \<Rightarrow> 'r prefix_cache" where
  "with_keys zeros w S = (case fs_outputs w of None \<Rightarrow> S | Some out \<Rightarrow> maybe_init_missing_mm_cache_keys zeros out (fs_padded w) S)"

lemma init_hidden: "maybe_init_missing_mm_cache_keys zeros out p (S\<lparr>pc_hidden := h\<rparr>) =
    (maybe_init_missing_mm_cache_keys zeros out p S)\<lparr>pc_hidden := h\<rparr>"
  by (simp add: init_appends)

lemma init_keeps [simp]:
  "pc_pending (maybe_init_missing_mm_cache_keys zeros out p S) = pc_pending S" "pc_hidden (maybe_init_missing_mm_cache_keys zeros out p S) = pc_hidden S"
  "pc_num_blocks (maybe_init_missing_mm_cache_keys zeros out p S) = pc_num_blocks S" "pc_block_size (maybe_init_missing_mm_cache_keys zeros out p S) = pc_block_size S"
  by (simp_all add: init_appends)

lemma no_pending: "pc_pending S = None \<Longrightarrow> S\<lparr>pc_hidden := h, pc_mm := m, pc_pending := None\<rparr> = S\<lparr>pc_hidden := h, pc_mm := m\<rparr>"
  by (cases S) simp

lemma late_write_ok:
  assumes "step_ok (pc_num_blocks S * pc_block_size S) w" "well S"
  shows "pending_ok (late_write w S) S"
proof -
  let ?mm = "pw_mm (late_write w S)"
  have "distinct (dict_keys (pc_mm S))" using assms(2) by (simp add: well_def)
  note c = cacheable_ok [OF this, of "fs_n w" "fs_skip w"]
  have mm: "dict_ok ?mm \<and> fst ` set ?mm \<subseteq> fst ` set (pc_mm S) \<and> (\<forall>kv \<in> set ?mm. length (snd kv) = fs_n w)"
  proof (cases "fs_outputs w")
    case (Some out)
    then have "?mm = cacheable_rows (fs_n w) (fs_skip w) out (dict_keys (pc_mm S))" by (simp add: late_write_def)
    then show ?thesis using c [of out] by simp
  qed (simp add: late_write_def)
  have h: "case map_option (take (fs_n w)) (fs_hidden w) of None \<Rightarrow> True | Some h \<Rightarrow> length h = fs_n w"
    using assms(1) by (cases "fs_hidden w") (simp_all add: step_ok_def)
  have "pw_num_tokens (late_write w S) = fs_n w" "pw_slots (late_write w S) = take (fs_n w) (fs_slots w)"
    "pw_hidden (late_write w S) = map_option (take (fs_n w)) (fs_hidden w)" by (simp_all add: late_write_def)
  then show ?thesis using mm h assms(1) unfolding pending_ok_def by (cases "fs_hidden w") (simp_all add: step_ok_def)
qed

lemma sync_applies:
  assumes "well S" "step_ok (pc_num_blocks S * pc_block_size S) w" "pc_pending S = None"
  shows "sync_step zeros w S = Inr (applied (late_write w (with_keys zeros w S)) (with_keys zeros w S))"
proof -
  let ?slots = "take (fs_n w) (fs_slots w)"
  let ?h = "case fs_hidden w of None \<Rightarrow> pc_hidden S | Some h \<Rightarrow> scatter ?slots (take (fs_n w) h) (pc_hidden S)"
  have s: "length ?slots = fs_n w" "\<forall>s \<in> set ?slots. s < pc_num_blocks S * pc_block_size S" using assms(2) by (simp_all add: step_ok_def)
  have h: "(case fs_hidden w of None \<Rightarrow> Inr S | Some h \<Rightarrow> rbind (resolve_hidden_states_cpu h (fs_n w) None) (\<lambda>rs. write_hidden ?slots (Some rs) S)) =
      Inr (S\<lparr>pc_hidden := ?h\<rparr>)"
  proof (cases "fs_hidden w")
    case (Some x)
    then have "fs_n w \<le> length x" using assms(2) by (simp add: step_ok_def)
    then have "index_copy ?slots (take (fs_n w) x) (pc_hidden S) = Inr (scatter ?slots (take (fs_n w) x) (pc_hidden S))"
      using s assms(1) by (intro index_copy_ok) (simp_all add: well_def)
    then show ?thesis by (simp add: Some resolve_hidden_states_cpu_def write_hidden_def)
  qed simp
  have w: "well (S\<lparr>pc_hidden := ?h\<rparr>)" using assms(1) by (simp add: well_def split: option.splits)
  show ?thesis
  proof (cases "fs_outputs w")
    case None
    then show ?thesis unfolding sync_step_def update_omni_tensor_prefix_cache_def Let_def h
      using assms(3) by (simp add: applied_def late_write_def with_keys_def overlay_nothing split: option.splits)
  next
    case (Some out)
    let ?S2 = "maybe_init_missing_mm_cache_keys zeros out (fs_padded w) S"
    let ?A = "?S2\<lparr>pc_hidden := ?h\<rparr>"
    have wA: "well ?A" using init_well [OF w, of zeros out "fs_padded w"] by (simp only: init_hidden)
    have ro: "rows_ok (fs_n w) out" using assms(2) Some by (simp add: step_ok_def)
    have sl: "\<forall>s \<in> set ?slots. s < pc_num_blocks ?A * pc_block_size ?A" using s(2) by (simp add: init_appends)
    have dist: "distinct (dict_keys (pc_mm ?S2))" using init_well [OF assms(1), of zeros out "fs_padded w"] unfolding well_def by blast
    have sub: "set (dict_keys (pc_mm ?S2)) \<subseteq> fst ` set (pc_mm ?A)" by simp
    have "sync_mm (fs_n w) ?slots (fs_skip w) out (dict_keys (pc_mm ?S2)) (?S2\<lparr>pc_hidden := ?h\<rparr>) =
        Inr (?S2\<lparr>pc_hidden := ?h, pc_mm := overlay ?slots (cacheable_rows (fs_n w) (fs_skip w) out (dict_keys (pc_mm ?S2))) (pc_mm ?S2)\<rparr>)"
      using sync_mm_overlay [OF wA ro s(1) sl dist sub, of "fs_skip w"] by simp
    then have "sync_step zeros w S = Inr (?S2\<lparr>pc_hidden := ?h,
        pc_mm := overlay ?slots (cacheable_rows (fs_n w) (fs_skip w) out (dict_keys (pc_mm ?S2))) (pc_mm ?S2)\<rparr>)"
      unfolding sync_step_def update_omni_tensor_prefix_cache_def Let_def h using Some by (simp add: init_hidden)
    then show ?thesis using no_pending [of ?S2] assms(3) Some
      by (cases "fs_hidden w") (simp_all add: applied_def late_write_def with_keys_def)
  qed
qed

text \<open>An asynchronous cache stands for the one in which its pending write is done.\<close>

definition settled :: "'r prefix_cache \<Rightarrow> 'r prefix_cache" where
  "settled S = (case pc_pending S of None \<Rightarrow> S | Some w \<Rightarrow> applied w S)"

definition async_ok :: "'r prefix_cache \<Rightarrow> bool" where
  "async_ok S \<longleftrightarrow> well S \<and> (case pc_pending S of None \<Rightarrow> True | Some w \<Rightarrow> pending_ok w S)"

lemma settled_well: "async_ok S \<Longrightarrow> well (settled S) \<and> pc_pending (settled S) = None \<and>
    pc_num_blocks (settled S) = pc_num_blocks S \<and> pc_block_size (settled S) = pc_block_size S \<and> consume_pending_write S = Inr (settled S)"
  using consume_applied [of S] overlay_lengths [of "pc_mm S" "pc_num_blocks S * pc_block_size S"]
  by (auto simp: async_ok_def settled_def applied_def well_def consume_pending_write_def [of S] split: option.splits)

lemma drain_settles:
  assumes "async_ok S"
  shows "\<exists>n S'. drain_ready_async_writes fired S = Inr (n, S') \<and> async_ok S' \<and> settled S' = settled S \<and>
    pc_num_blocks S' = pc_num_blocks S \<and> pc_block_size S' = pc_block_size S"
proof (cases "pc_pending S = None \<or> \<not> fired")
  case True
  then show ?thesis using assms by (auto simp: drain_ready_async_writes_def)
next
  case False
  have "async_ok (settled S)" "settled (settled S) = settled S" using settled_well [OF assms] by (simp_all add: async_ok_def settled_def)
  moreover have "drain_ready_async_writes fired S = Inr (1, settled S)" using False settled_well [OF assms]
    by (simp add: drain_ready_async_writes_def)
  ultimately show ?thesis using settled_well [OF assms] by blast
qed

lemma with_keys_settled:
  assumes "async_ok S"
  shows "async_ok (with_keys zeros w S)" "settled (with_keys zeros w S) = with_keys zeros w (settled S)"
proof -
  show "async_ok (with_keys zeros w S)"
    using assms init_well init_applied(2) by (auto simp: async_ok_def with_keys_def split: option.splits)
  show "settled (with_keys zeros w S) = with_keys zeros w (settled S)"
    using assms init_applied(1) by (auto simp: async_ok_def settled_def with_keys_def split: option.splits)
qed

lemma settled_pending: "settled (S\<lparr>pc_pending := Some w\<rparr>) = applied w S"
  by (cases "pw_hidden w") (simp_all add: settled_def applied_def)

lemma settled_keys: "map fst (pc_mm (settled S)) = map fst (pc_mm S)"
  by (simp add: settled_def applied_def split: option.splits)

lemma late_write_settled: "late_write w (settled S) = late_write w S"
  by (simp add: late_write_def settled_keys split: option.splits)

lemma schedule_settles:
  assumes "async_ok S" "step_ok (pc_num_blocks S * pc_block_size S) w"
  shows "\<exists>S'. schedule_async_write zeros True (fs_hidden w) (fs_outputs w) (fs_slots w) (fs_n w) (fs_padded w) (fs_skip w) S = Inr S' \<and>
    async_ok S' \<and> pc_num_blocks S' = pc_num_blocks S \<and> pc_block_size S' = pc_block_size S \<and>
    settled S' = applied (late_write w (with_keys zeros w (settled S))) (with_keys zeros w (settled S)) \<and>
    pc_hidden S' = pc_hidden (settled S)"
proof -
  let ?S1 = "with_keys zeros w S" and ?S2 = "with_keys zeros w (settled S)"
  let ?rows = "case fs_outputs w of None \<Rightarrow> [] | Some out \<Rightarrow> cacheable_rows (fs_n w) (fs_skip w) out (dict_keys (pc_mm ?S1))"
  note k = with_keys_settled [OF assms(1)] and st = settled_well [OF assms(1)]
  have c: "consume_pending_write ?S1 = Inr ?S2" using settled_well [OF k(1)] k(2) by simp
  have n: "pc_pending ?S2 = None" "well ?S2" "pc_hidden ?S2 = pc_hidden (settled S)"
    "pc_num_blocks ?S2 = pc_num_blocks S" "pc_block_size ?S2 = pc_block_size S"
    using st init_well by (auto simp: with_keys_def split: option.splits)
  have rows: "pw_mm (late_write w ?S2) = ?rows" using settled_keys [of ?S1] k(2) by (simp add: late_write_def split: option.splits)
  have empty: "cacheable_rows m skip [] ks = []" for m skip ks by (simp add: cacheable_rows_def List.map_filter_def)
  have init0: "maybe_init_missing_mm_cache_keys zeros [] p S = S" for p by (simp add: maybe_init_missing_mm_cache_keys_def)
  have run: "schedule_async_write zeros True (fs_hidden w) (fs_outputs w) (fs_slots w) (fs_n w) (fs_padded w) (fs_skip w) S =
      Inr (if fs_hidden w = None \<and> ?rows = [] then ?S2 else ?S2\<lparr>pc_pending := Some (late_write w ?S2)\<rparr>)"
  proof (cases "fs_outputs w = None \<or> fs_outputs w = Some []")
    case True
    then have "?S1 = S" "?rows = []" using empty init0 by (auto simp: with_keys_def)
    then show ?thesis using c rows True by (auto simp: schedule_async_write_def Let_def late_write_def)
  next
    case False
    then show ?thesis using c rows by (auto simp: schedule_async_write_def Let_def late_write_def with_keys_def)
  qed
  have ok: "pending_ok (late_write w ?S2) ?S2" using late_write_ok [of ?S2 w] n assms(2) by simp
  show ?thesis
  proof (cases "fs_hidden w = None \<and> ?rows = []")
    case True
    have "applied (late_write w ?S2) ?S2 = ?S2" using True rows n(1) no_pending [OF n(1), where h = "pc_hidden ?S2" and m = "pc_mm ?S2"]
      by (simp add: applied_def overlay_nothing) (simp add: late_write_def)
    then show ?thesis using True run n by (simp add: async_ok_def settled_def)
  next
    case False
    let ?S3 = "?S2\<lparr>pc_pending := Some (late_write w ?S2)\<rparr>"
    have "async_ok ?S3" using ok n(2) by (simp add: async_ok_def well_def pending_ok_def)
    moreover have "settled ?S3 = applied (late_write w ?S2) ?S2" by (rule settled_pending)
    moreover have "schedule_async_write zeros True (fs_hidden w) (fs_outputs w) (fs_slots w) (fs_n w) (fs_padded w) (fs_skip w) S = Inr ?S3"
      using run unfolding if_not_P [OF False] .
    ultimately show ?thesis using n by simp
  qed
qed

lemma block_untouched:
  assumes "\<forall>s \<in> set slots. s div bs \<noteq> b"
  shows "block_rows bs (scatter slots src flat) b = block_rows bs flat b"
proof (rule nth_equalityI)
  fix i assume "i < length (block_rows bs (scatter slots src flat) b)"
  then have i: "i < bs" "b * bs + i < length flat" by (auto simp: block_rows_def)
  have "(b * bs + i) div bs = b" using i(1) by simp
  then have "b * bs + i \<notin> set slots" using assms by blast
  then show "block_rows bs (scatter slots src flat) b ! i = block_rows bs flat b ! i"
    using i by (simp add: block_rows_def scatter_other)
qed (simp add: block_rows_def)

lemma steps_settle:
  "async_ok A \<Longrightarrow> \<forall>w \<in> set steps. step_ok (pc_num_blocks A * pc_block_size A) w \<Longrightarrow>
    \<exists>A' B. fold_result (async_step zeros) steps A = Inr A' \<and> fold_result (sync_step zeros) steps (settled A) = Inr B \<and>
      async_ok A' \<and> settled A' = B \<and> pc_num_blocks A' = pc_num_blocks A \<and> pc_block_size A' = pc_block_size A \<and>
      (steps \<noteq> [] \<longrightarrow> (\<forall>b. (\<forall>s \<in> set (take (fs_n (last steps)) (fs_slots (last steps))). s div pc_block_size A \<noteq> b) \<longrightarrow>
        block_rows (pc_block_size A) (pc_hidden A') b = block_rows (pc_block_size A) (pc_hidden B) b))"
proof (induction steps arbitrary: A)
  case (Cons w steps)
  obtain n A1 where d: "drain_ready_async_writes (fs_fired w) A = Inr (n, A1)" "async_ok A1" "settled A1 = settled A"
    "pc_num_blocks A1 = pc_num_blocks A" "pc_block_size A1 = pc_block_size A" using drain_settles [OF Cons.prems(1)] by blast
  have ok: "step_ok (pc_num_blocks A1 * pc_block_size A1) w" using Cons.prems(2) d by simp
  obtain A2 where s: "schedule_async_write zeros True (fs_hidden w) (fs_outputs w) (fs_slots w) (fs_n w) (fs_padded w) (fs_skip w) A1 = Inr A2"
    "async_ok A2" "pc_num_blocks A2 = pc_num_blocks A" "pc_block_size A2 = pc_block_size A"
    "settled A2 = applied (late_write w (with_keys zeros w (settled A))) (with_keys zeros w (settled A))" "pc_hidden A2 = pc_hidden (settled A)"
    using schedule_settles [OF d(2) ok, of zeros] d(3-5) by auto
  have a: "async_step zeros w A = Inr A2" using d(1) s(1) by (simp add: async_step_def)
  have y: "sync_step zeros w (settled A) = Inr (settled A2)"
    using sync_applies [of "settled A" w zeros] settled_well [OF Cons.prems(1)] ok d s(5) by simp
  have "\<forall>w \<in> set steps. step_ok (pc_num_blocks A2 * pc_block_size A2) w" using Cons.prems(2) s by simp
  from Cons.IH [OF s(2) this] obtain A' B where r: "fold_result (async_step zeros) steps A2 = Inr A'" "fold_result (sync_step zeros) steps (settled A2) = Inr B"
    "async_ok A'" "settled A' = B" "pc_num_blocks A' = pc_num_blocks A" "pc_block_size A' = pc_block_size A"
    "steps \<noteq> [] \<longrightarrow> (\<forall>b. (\<forall>s \<in> set (take (fs_n (last steps)) (fs_slots (last steps))). s div pc_block_size A \<noteq> b) \<longrightarrow>
        block_rows (pc_block_size A) (pc_hidden A') b = block_rows (pc_block_size A) (pc_hidden B) b)"
    using s(3,4) by auto
  have "block_rows (pc_block_size A) (pc_hidden A2) b = block_rows (pc_block_size A) (pc_hidden (settled A2)) b"
    if "\<forall>s \<in> set (take (fs_n w) (fs_slots w)). s div pc_block_size A \<noteq> b" for b
    using block_untouched [OF that, of "take (fs_n w) (the (fs_hidden w))" "pc_hidden (settled A)"] s(5,6)
    by (cases "fs_hidden w") (simp_all add: applied_def late_write_def with_keys_def split: option.splits)
  then show ?case using r a y by (cases steps) auto
qed (simp add: settled_well)

text \<open>
  C22: Late writes change nothing.  Run any forwards with well-formed outputs over a new cache, with the writes
  of each applied late: when its copy is found finished at the start of a step, or when the next write is
  scheduled.  Nothing fails, finishing the last write gives the cache that writing everything at once gives, and
  already before that every request of the next batch that starts on cached blocks gets from the asynchronous
  cache exactly the rows it gets from the other, as long as the last forward wrote to none of these blocks.
\<close>

theorem late_writes_exact:
  assumes "\<forall>w \<in> set steps. step_ok (num_blocks * block_size) w"
    "steps \<noteq> [] \<longrightarrow> (\<forall>rid \<in> set (ib_req_ids B). \<forall>b \<in> set (cached_block_ids block_size (the (dict_get (ib_index B) rid)) B).
      \<forall>s \<in> set (take (fs_n (last steps)) (fs_slots (last steps))). s div block_size \<noteq> b)"
  shows "\<exists>A D. fold_result (async_step zeros) steps (new_prefix_cache zeros num_blocks block_size) = Inr A \<and>
    fold_result (sync_step zeros) steps (new_prefix_cache zeros num_blocks block_size) = Inr D \<and>
    consume_pending_write A = Inr D \<and>
    get_merged_hidden_states query_start B hidden scheduled staged (A\<lparr>pc_hits := hits\<rparr>) =
      get_merged_hidden_states query_start B hidden scheduled staged (D\<lparr>pc_hits := hits\<rparr>)"
proof -
  let ?N = "new_prefix_cache zeros num_blocks block_size"
  have n: "async_ok ?N" "settled ?N = ?N" "pc_num_blocks ?N = num_blocks" "pc_block_size ?N = block_size"
    by (simp_all add: async_ok_def well_def settled_def new_prefix_cache_def cache_tensor_def)
  obtain A D where r: "fold_result (async_step zeros) steps ?N = Inr A" "fold_result (sync_step zeros) steps ?N = Inr D"
    "async_ok A" "settled A = D" "pc_num_blocks A = num_blocks" "pc_block_size A = block_size"
    "steps \<noteq> [] \<longrightarrow> (\<forall>b. (\<forall>s \<in> set (take (fs_n (last steps)) (fs_slots (last steps))). s div block_size \<noteq> b) \<longrightarrow>
        block_rows block_size (pc_hidden A) b = block_rows block_size (pc_hidden D) b)"
    using steps_settle [OF n(1), of steps zeros] assms(1) n by auto
  have D: "pc_num_blocks D = num_blocks" "pc_block_size D = block_size" "consume_pending_write A = Inr D"
    using settled_well [OF r(3)] r(4-6) by auto
  have b: "block_rows block_size (pc_hidden A) b = block_rows block_size (pc_hidden D) b"
    if "rid \<in> set (ib_req_ids B)" "b \<in> set (cached_block_ids block_size (the (dict_get (ib_index B) rid)) B)" for rid b
  proof (cases "steps = []")
    case True
    then show ?thesis using r(1,2) by simp
  next
    case False
    then show ?thesis using r(7) assms(2) that by blast
  qed
  have m: "merged_rows block_size hits B (pc_hidden A) rows s = merged_rows block_size hits B (pc_hidden D) rows s"
    if "fst s \<in> set (ib_req_ids B)" for rows s
  proof -
    have "map (block_rows block_size (pc_hidden A)) (cached_block_ids block_size (the (dict_get (ib_index B) (fst s))) B) =
        map (block_rows block_size (pc_hidden D)) (cached_block_ids block_size (the (dict_get (ib_index B) (fst s))) B)"
      using b [OF that] by (intro map_cong) auto
    then show ?thesis unfolding merged_rows_def case_prod_beta Let_def by (simp only:)
  qed
  have ids: "spans query_start B scheduled ids = Inr ss \<Longrightarrow> map fst ss = ids" for ids ss
    by (induction ids arbitrary: ss) (auto simp: rbind_Inr_iff)
  have eq: "map (\<lambda>s. (fst s, merged_rows block_size hits B (pc_hidden A) rows s)) ss =
      map (\<lambda>s. (fst s, merged_rows block_size hits B (pc_hidden D) rows s)) ss"
    if "spans query_start B scheduled (ib_req_ids B) = Inr ss" for rows ss
  proof (intro map_cong refl)
    fix s assume "s \<in> set ss"
    then have "fst s \<in> set (ib_req_ids B)" using ids [OF that] by (metis image_eqI list.set_map)
    then show "(fst s, merged_rows block_size hits B (pc_hidden A) rows s) = (fst s, merged_rows block_size hits B (pc_hidden D) rows s)"
      using m by simp
  qed
  have "get_merged_hidden_states query_start B hidden scheduled staged (A\<lparr>pc_hits := hits\<rparr>) =
      get_merged_hidden_states query_start B hidden scheduled staged (D\<lparr>pc_hits := hits\<rparr>)"
  proof (cases "spans query_start B scheduled (ib_req_ids B)")
    case (Inr ss)
    have parts: "pc_hits (X\<lparr>pc_hits := hits\<rparr>) = hits" "pc_hidden (X\<lparr>pc_hits := hits\<rparr>) = pc_hidden X"
      "pc_num_blocks (X\<lparr>pc_hits := hits\<rparr>) = pc_num_blocks X" "pc_block_size (X\<lparr>pc_hits := hits\<rparr>) = pc_block_size X"
      for X :: "'a prefix_cache" by simp_all
    show ?thesis unfolding get_merged_hidden_states_def get_merged_tensors_def Inr rbind_simps parts r(5,6) D(1,2) eq [OF Inr] ..
  qed (simp add: get_merged_hidden_states_def get_merged_tensors_def)
  then show ?thesis using r(1,2) D(3) by blast
qed

text \<open>Two forwards; the second request starts on the block the first one filled.\<close>

definition demo_steps :: "nat forward_step list" where
  "demo_steps = [\<lparr>fs_fired = False, fs_hidden = Some [5, 6], fs_outputs = None, fs_slots = [0, 1], fs_n = 2, fs_padded = 2, fs_skip = []\<rparr>,
     \<lparr>fs_fired = False, fs_hidden = Some [7], fs_outputs = Some [(''x'', Rows [9])], fs_slots = [2], fs_n = 1, fs_padded = 1, fs_skip = []\<rparr>]"

definition demo_batch :: input_batch where
  "demo_batch = \<lparr>ib_req_ids = [''q''], ib_index = [(''q'', 0)], ib_num_computed = [2], ib_block_table = [[0, 1]]\<rparr>"

lemma late_writes_exact_witness:
  "\<exists>A D. fold_result (async_step 0) demo_steps (new_prefix_cache 0 2 2) = Inr A \<and>
    fold_result (sync_step 0) demo_steps (new_prefix_cache 0 2 2) = Inr D \<and>
    get_merged_hidden_states [0] demo_batch [7] [(''q'', 1)] None (A\<lparr>pc_hits := [''q'']\<rparr>) =
      get_merged_hidden_states [0] demo_batch [7] [(''q'', 1)] None (D\<lparr>pc_hits := [''q'']\<rparr>)"
proof -
  have ok: "\<forall>w \<in> set demo_steps. step_ok (2 * 2) w" by (simp add: demo_steps_def step_ok_def rows_ok_def)
  have "\<forall>rid \<in> set (ib_req_ids demo_batch). \<forall>b \<in> set (cached_block_ids 2 (the (dict_get (ib_index demo_batch) rid)) demo_batch).
      \<forall>s \<in> set (take (fs_n (last demo_steps)) (fs_slots (last demo_steps))). s div 2 \<noteq> b"
    by (simp add: demo_batch_def demo_steps_def cached_block_ids_def)
  then show ?thesis using late_writes_exact [OF ok, of demo_batch 0 "[0]" "[7]" "[(''q'', 1)]" None "[''q'']"] by blast
qed

end
