(* ===== verification/Prefix_Merge.thy ===== *)
theory Prefix_Merge
  imports Prefix_Writes
begin

text \<open>
  What a step hands on of its multimodal outputs (\<^verbatim>\<open>utils/mm_outputs.py\<close>, the merging half of
  \<^verbatim>\<open>core/prefix_cache.py\<close>, and the payload builders of \<^verbatim>\<open>worker/gpu_ar_model_runner.py\<close>): with the prefix cache,
  every output is first merged into one dictionary per key with a value for every request; without it, the
  payload of a request is cut directly out of the outputs.  The two ways are meant to agree.
\<close>

section \<open>Values on the host\<close>

fun to_cpu :: "'r mm_value \<Rightarrow> 'r mm_value" and cpu_fields :: "(string \<times> 'r mm_value) list \<Rightarrow> (string \<times> 'r mm_value) list"
  and cpu_items :: "'r mm_value list \<Rightarrow> 'r mm_value list" where
  "to_cpu (MDict d) = (case cpu_fields d of [] \<Rightarrow> MNone | out \<Rightarrow> MDict out)"
| "to_cpu (MList vs) = MList (cpu_items vs)"
| "to_cpu v = v"
| "cpu_fields [] = []"
| "cpu_fields ((k, v) # d) = (case to_cpu v of MNone \<Rightarrow> cpu_fields d | w \<Rightarrow> (k, w) # cpu_fields d)"
| "cpu_items [] = []"
| "cpu_items (v # vs) = to_cpu v # cpu_items vs"

definition build_mm_cpu :: "(string, 'r mm_value) dict \<Rightarrow> (string, 'r mm_value) dict" where
  "build_mm_cpu outputs = cpu_fields outputs"

section \<open>The share of one request\<close>

definition slice_hit :: "nat option \<Rightarrow> nat option \<Rightarrow> nat \<Rightarrow> bool" where
  "slice_hit seq_len scheduled n \<longleftrightarrow>
     seq_len = Some n \<or> (case scheduled of None \<Rightarrow> seq_len | Some m \<Rightarrow> Some m) = Some n"

definition cut :: "nat \<Rightarrow> nat \<Rightarrow> 'r list \<Rightarrow> 'r list" where
  "cut start stop rs = take (stop - start) (drop start rs)"

fun to_payload_element ::
    "nat \<Rightarrow> nat \<Rightarrow> nat \<Rightarrow> bool \<Rightarrow> nat option \<Rightarrow> nat option \<Rightarrow> 'r mm_value \<Rightarrow> py_exc + 'r mm_value"
  and payload_fields ::
    "nat \<Rightarrow> nat \<Rightarrow> nat \<Rightarrow> bool \<Rightarrow> nat option \<Rightarrow> nat option \<Rightarrow> (string \<times> 'r mm_value) list \<Rightarrow> py_exc + (string \<times> 'r mm_value) list" where
  "to_payload_element idx start stop pass n m (Rows rs) = Inr (Rows (if slice_hit n m (length rs) then cut start stop rs else rs))"
| "to_payload_element idx start stop pass n m (Flat rs) = Inr (Flat (if slice_hit n m (length rs) then cut start stop rs else rs))"
| "to_payload_element idx start stop pass n m (MScalar r) = (if n \<noteq> None \<or> m \<noteq> None then Inl IndexError else Inr (MScalar r))"
| "to_payload_element idx start stop pass n m (MDict d) =
     rbind (payload_fields idx start stop pass n m d) (\<lambda>d'. Inr (MDict d'))"
| "to_payload_element idx start stop pass n m (MList vs) =
     (if pass then Inr (MList vs)
      else if idx < length vs then Inr (vs ! idx) else if vs = [] then Inl IndexError else Inr (hd vs))"
| "to_payload_element idx start stop pass n m MNone = Inr MNone"
| "to_payload_element idx start stop pass n m (MObj r) = Inr (MObj r)"
| "payload_fields idx start stop pass n m [] = Inr []"
| "payload_fields idx start stop pass n m ((k, v) # d) =
     rbind (to_payload_element idx start stop pass n m v) (\<lambda>w.
       rbind (payload_fields idx start stop pass n m d) (\<lambda>ws. Inr ((k, w) # ws)))"

section \<open>Merging with the cache\<close>

definition scheduled_of :: "(string, nat) dict \<Rightarrow> string \<Rightarrow> py_exc + nat" where
  "scheduled_of scheduled rid = (case dict_get scheduled rid of None \<Rightarrow> Inl KeyError | Some n \<Rightarrow> Inr n)"

definition coerce_to_payload_dict ::
  "nat list \<Rightarrow> input_batch \<Rightarrow> (string, nat) dict \<Rightarrow> 'r mm_value \<Rightarrow> py_exc + (string, 'r mm_value) dict" where
  "coerce_to_payload_dict query_start B scheduled element =
     rbind (rmap (scheduled_of scheduled) (ib_req_ids B)) (\<lambda>ns.
       rmap (\<lambda>rid. rbind (span query_start B scheduled rid) (\<lambda>(start, stop).
         rbind (to_payload_element (the (dict_get (ib_index B) rid)) start stop True (Some (sum_list ns)) None element) (\<lambda>w.
           Inr (rid, w)))) (ib_req_ids B))"

text \<open>A value under a cached key.  Rows of another rank cannot be joined with cached ones, unless there are none.\<close>

definition merged_flat :: "input_batch \<Rightarrow> 'r list \<Rightarrow> 'r list \<Rightarrow> 'r prefix_cache \<Rightarrow> string \<times> nat \<times> nat \<Rightarrow> py_exc + (string \<times> 'r mm_value)" where
  "merged_flat B flat rs S = (\<lambda>(rid, start, stop).
     if rid \<notin> set (pc_hits S) then Inr (rid, Flat (cut start stop rs))
     else let blocks = cached_block_ids (pc_block_size S) (the (dict_get (ib_index B) rid)) B
          in if \<exists>b \<in> set blocks. b \<ge> pc_num_blocks S then Inl IndexError
             else if cut start stop rs = [] then Inr (rid, Rows (concat (map (block_rows (pc_block_size S) flat) blocks)))
             else Inl RuntimeError)"

definition merged_value ::
  "nat list \<Rightarrow> input_batch \<Rightarrow> (string, nat) dict \<Rightarrow> 'r prefix_cache \<Rightarrow> 'r list \<Rightarrow> 'r mm_value \<Rightarrow> py_exc + (string, 'r mm_value) dict" where
  "merged_value query_start B scheduled S flat v = (case v of
     Rows rs \<Rightarrow> rbind (get_merged_tensors query_start B flat rs scheduled None S) (\<lambda>d. Inr (map (map_prod id Rows) d))
   | Flat rs \<Rightarrow> rbind (spans query_start B scheduled (ib_req_ids B)) (\<lambda>ss.
       rmap (merged_flat B flat (take (foldr max (map (snd \<circ> snd) ss) 0) rs) S) ss)
   | MScalar r \<Rightarrow> rbind (spans query_start B scheduled (ib_req_ids B)) (\<lambda>ss. Inl IndexError)
   | MList vs \<Rightarrow> rbind (spans query_start B scheduled (ib_req_ids B)) (\<lambda>ss. Inl AttributeError)
   | _ \<Rightarrow> rbind (spans query_start B scheduled (ib_req_ids B)) (\<lambda>ss. Inl TypeError))"

definition get_merged_multimodal_states ::
  "nat list \<Rightarrow> input_batch \<Rightarrow> (string, 'r mm_value) dict option \<Rightarrow> (string, nat) dict \<Rightarrow> 'r prefix_cache \<Rightarrow>
   py_exc + (string, (string, 'r mm_value) dict) dict" where
  "get_merged_multimodal_states query_start B outputs scheduled S =
     (let out = (case outputs of None \<Rightarrow> [] | Some d \<Rightarrow> d)
      in rbind (rmap (\<lambda>(k, flat). rbind (merged_value query_start B scheduled S flat (the (dict_get out k))) (\<lambda>d. Inr (k, d)))
                (filter (\<lambda>(k, flat). dict_get out k \<noteq> None) (pc_mm S))) (\<lambda>cached.
         rbind (rmap (\<lambda>(k, v). rbind (coerce_to_payload_dict query_start B scheduled v) (\<lambda>d. Inr (k, d)))
                (build_mm_cpu (filter (\<lambda>(k, v). dict_get (pc_mm S) k = None) out))) (\<lambda>passed.
           Inr (cached @ passed))))"

section \<open>Payloads\<close>

fun unwrap_lists :: "nat \<Rightarrow> 'r mm_value \<Rightarrow> py_exc + 'r mm_value"
  and unwrap_fields :: "nat \<Rightarrow> (string \<times> 'r mm_value) list \<Rightarrow> py_exc + (string \<times> 'r mm_value) list" where
  "unwrap_lists idx (MList vs) = (if idx < length vs then Inr (vs ! idx) else if vs = [] then Inl IndexError else Inr (hd vs))"
| "unwrap_lists idx (MDict d) = rbind (unwrap_fields idx d) (\<lambda>d'. Inr (MDict d'))"
| "unwrap_lists idx v = Inr v"
| "unwrap_fields idx [] = Inr []"
| "unwrap_fields idx ((k, v) # d) = rbind (unwrap_lists idx v) (\<lambda>w. rbind (unwrap_fields idx d) (\<lambda>ws. Inr ((k, w) # ws)))"

definition build_combined_prefix_cache_mm_payload ::
  "(string, (string, 'r mm_value) dict) dict \<Rightarrow> string \<Rightarrow> nat \<Rightarrow> py_exc + (string, 'r mm_value) dict" where
  "build_combined_prefix_cache_mm_payload combined rid idx =
     rmap (\<lambda>(k, d). case dict_get d rid of
         None \<Rightarrow> Inl KeyError
       | Some v \<Rightarrow> rbind (unwrap_lists idx v) (\<lambda>w. Inr (k, w))) combined"

definition plain_keys :: "bool \<Rightarrow> (string, nat) dict \<Rightarrow> string \<Rightarrow> string \<times> 'r mm_value \<Rightarrow> bool" where
  "plain_keys sparse sparse_index rid = (\<lambda>(k, v).
     k \<notin> {''meta.req_id'', ''meta.sparse_audio''} \<and>
     (case v of MList vs \<Rightarrow> sparse \<longrightarrow> (case dict_get sparse_index rid of None \<Rightarrow> False | Some i \<Rightarrow> i < length vs) | _ \<Rightarrow> True))"

definition plain_value ::
  "bool \<Rightarrow> (string, nat) dict \<Rightarrow> string \<Rightarrow> nat \<Rightarrow> nat \<Rightarrow> nat \<Rightarrow> nat \<Rightarrow> nat \<Rightarrow> 'r mm_value \<Rightarrow> py_exc + 'r mm_value" where
  "plain_value sparse sparse_index rid idx start stop hidden_len scheduled_len v = (case v of
     MList vs \<Rightarrow> if sparse then Inr (vs ! the (dict_get sparse_index rid))
                else to_payload_element idx start stop False (Some hidden_len) (Some scheduled_len) v
   | _ \<Rightarrow> to_payload_element idx start stop False (Some hidden_len) (Some scheduled_len) v)"

definition build_omni_mm_payload ::
  "(string, (string, 'r mm_value) dict) dict option \<Rightarrow> (string, 'r mm_value) dict option \<Rightarrow> string \<Rightarrow> nat \<Rightarrow> nat \<Rightarrow> nat \<Rightarrow>
   bool \<Rightarrow> (string, nat) dict \<Rightarrow> nat \<Rightarrow> nat \<Rightarrow> py_exc + (string, 'r mm_value) dict" where
  "build_omni_mm_payload combined mm_cpu rid idx start stop sparse sparse_index hidden_len scheduled_len =
     (case combined of
        Some (c # cs) \<Rightarrow> build_combined_prefix_cache_mm_payload (c # cs) rid idx
      | _ \<Rightarrow> rmap (\<lambda>(k, v). rbind (plain_value sparse sparse_index rid idx start stop hidden_len scheduled_len v) (\<lambda>w. Inr (k, w)))
               (filter (plain_keys sparse sparse_index rid) (case mm_cpu of None \<Rightarrow> [] | Some d \<Rightarrow> d)))"

definition resolve_req_hidden_states ::
  "'r list option \<Rightarrow> (string, 'r list) dict option \<Rightarrow> string \<Rightarrow> nat \<Rightarrow> nat \<Rightarrow> py_exc + 'r list option" where
  "resolve_req_hidden_states hidden combined rid start stop = (case combined of
     Some d \<Rightarrow> (case dict_get d rid of None \<Rightarrow> Inl RuntimeError | Some rs \<Rightarrow> Inr (Some rs))
   | None \<Rightarrow> Inr (map_option (cut start stop) hidden))"

definition build_omni_pooler_payload ::
  "string \<Rightarrow> nat \<Rightarrow> nat \<Rightarrow> nat \<Rightarrow> 'r list option \<Rightarrow> (string, 'r list) dict option \<Rightarrow> (string, 'r list) dict option \<Rightarrow>
   (string, (string, 'r mm_value) dict) dict option \<Rightarrow> (string, 'r mm_value) dict option \<Rightarrow> bool \<Rightarrow> (string, nat) dict \<Rightarrow> nat \<Rightarrow> nat \<Rightarrow>
   py_exc + (string, 'r mm_value) dict" where
  "build_omni_pooler_payload rid idx start stop hidden req_hidden combined_hidden combined mm_cpu sparse sparse_index hidden_len scheduled_len =
     rbind (if sparse then Inr None
            else case (req_hidden, combined_hidden) of
              (Some d, None) \<Rightarrow> (case dict_get d rid of None \<Rightarrow> Inl KeyError | Some rs \<Rightarrow> Inr (Some rs))
            | _ \<Rightarrow> resolve_req_hidden_states hidden combined_hidden rid start stop) (\<lambda>h.
       rbind (build_omni_mm_payload combined mm_cpu rid idx start stop sparse sparse_index hidden_len scheduled_len) (\<lambda>mm.
         Inr (fold (\<lambda>(k, v). dict_set k v) mm (case h of None \<Rightarrow> [] | Some rs \<Rightarrow> [(''hidden'', Rows rs)]))))"

text \<open>An audio stage that has outputs for some of the requests only names these, in the order of the outputs.\<close>

definition resolve_sparse_mm_routing ::
  "string \<Rightarrow> string list \<Rightarrow> string list \<Rightarrow> string list option \<Rightarrow> string list \<times> (string, nat) dict \<times> bool" where
  "resolve_sparse_mm_routing output_type req_ids downstream sparse_ids =
     (let index = fold (\<lambda>(i, rid). dict_set rid i) (enumerate 0 (case sparse_ids of None \<Rightarrow> [] | Some ids \<Rightarrow> ids)) []
      in case sparse_ids of
           None \<Rightarrow> (downstream, index, False)
         | Some ids \<Rightarrow> if output_type \<noteq> ''audio'' then (downstream, index, False)
             else (filter (\<lambda>rid. rid \<in> set ids) req_ids, index, True))"

definition maybe_get_combined ::
  "bool \<Rightarrow> bool \<Rightarrow> nat list \<Rightarrow> input_batch \<Rightarrow> 'r list \<Rightarrow> 'r staged_rows option \<Rightarrow> (string, 'r mm_value) dict option \<Rightarrow> (string, nat) dict \<Rightarrow>
   'r prefix_cache option \<Rightarrow> py_exc + (string, 'r list) dict option \<times> (string, (string, 'r mm_value) dict) dict option" where
  "maybe_get_combined last_rank full query_start B hidden staged outputs scheduled cache =
     (if staged \<noteq> None \<and> \<not> last_rank then Inl RuntimeError
      else case cache of None \<Rightarrow> Inr (None, None)
      | Some S \<Rightarrow> if \<not> last_rank then Inl RuntimeError
          else if \<not> full \<and> \<not> has_prefix_cached_new_req_ids S then Inr (None, None)
          else rbind (if full then rbind (get_merged_hidden_states query_start B hidden scheduled staged S) (\<lambda>d. Inr (Some d)) else Inr None) (\<lambda>h.
            rbind (get_merged_multimodal_states query_start B outputs scheduled S) (\<lambda>mm. Inr (h, Some mm))))"

section \<open>What the next stage gets and what the client gets\<close>

definition client_mm_root_keys :: "string list" where
  "client_mm_root_keys = [''model_outputs'', ''sr'', ''audio'', ''image'', ''images'', ''video'', ''videos'', ''trajectory_latents'', ''latents'']"

definition client_key :: "string \<Rightarrow> bool" where
  "client_key k \<longleftrightarrow> takeWhile (\<lambda>c. c \<noteq> CHR ''.'') k \<in> set client_mm_root_keys"

definition partition_flat_payload :: "(string, 'v) dict \<Rightarrow> (string, 'v) dict \<times> (string, 'v) dict" where
  "partition_flat_payload payload = (filter (\<lambda>(k, v). \<not> client_key k) payload, filter (\<lambda>(k, v). client_key k) payload)"

definition all_or_none :: "'a list list \<Rightarrow> 'a list option list option" where
  "all_or_none ds = (if \<forall>d \<in> set ds. d = [] then None else Some (map (\<lambda>d. if d = [] then None else Some d) ds))"

definition partition_payload_list ::
  "(string, 'v) dict list \<Rightarrow> (string, 'v) dict option list option \<times> (string, 'v) dict option list option" where
  "partition_payload_list payloads =
     (all_or_none (map (fst \<circ> partition_flat_payload) payloads), all_or_none (map (snd \<circ> partition_flat_payload) payloads))"

section \<open>Merging before cutting\<close>

lemma payload_error:
  fixes v :: "'r mm_value" and d :: "(string \<times> 'r mm_value) list"
  shows "to_payload_element idx start stop pass n m v = Inl e \<Longrightarrow> e = IndexError"
  "payload_fields idx start stop pass n m d = Inl e \<Longrightarrow> e = IndexError"
  by (induction idx start stop pass n m v and idx start stop pass n m d rule: to_payload_element_payload_fields.induct)
    (auto simp: rbind_Inl_iff split: if_splits)

lemma unwrap_error:
  fixes v :: "'r mm_value" and d :: "(string \<times> 'r mm_value) list"
  shows "unwrap_lists idx v = Inl e \<Longrightarrow> e = IndexError" "unwrap_fields idx d = Inl e \<Longrightarrow> e = IndexError"
  by (induction idx v and idx d rule: unwrap_lists_unwrap_fields.induct) (auto simp: rbind_Inl_iff split: if_splits)

text \<open>Whether cutting fails does not depend on the request.\<close>

lemma payload_fails_alike:
  fixes v :: "'r mm_value" and d :: "(string \<times> 'r mm_value) list"
  shows "isl (to_payload_element idx start stop True n m v) = isl (to_payload_element idx' start' stop' True n m v)"
  "isl (payload_fields idx start stop True n m d) = isl (payload_fields idx' start' stop' True n m d)"
proof (induction idx start stop "True" n m v and idx start stop "True" n m d rule: to_payload_element_payload_fields.induct)
  case (4 idx start stop n m d)
  then show ?case by (cases "payload_fields idx start stop True n m d"; cases "payload_fields idx' start' stop' True n m d") simp_all
next
  case (9 idx start stop n m k v d)
  then show ?case
    by (cases "to_payload_element idx start stop True n m v"; cases "to_payload_element idx' start' stop' True n m v";
        cases "payload_fields idx start stop True n m d"; cases "payload_fields idx' start' stop' True n m d") auto
qed simp_all

text \<open>Passing lists on and picking the entry of the request afterwards is picking it at once.\<close>

lemma pick_later:
  fixes v :: "'r mm_value" and d :: "(string \<times> 'r mm_value) list"
  shows "rbind (to_payload_element idx start stop True (Some n) None v) (unwrap_lists idx) = to_payload_element idx start stop False (Some n) (Some n) v"
  "rbind (payload_fields idx start stop True (Some n) None d) (unwrap_fields idx) = payload_fields idx start stop False (Some n) (Some n) d"
proof (induction idx start stop "True" "Some n" "None :: nat option" v and idx start stop "True" "Some n" "None :: nat option" d
    rule: to_payload_element_payload_fields.induct)
  case (4 idx start stop d)
  then show ?case by (cases "payload_fields idx start stop True (Some n) None d") (simp_all flip: 4)
next
  case (9 idx start stop k v d)
  show ?case
  proof (cases "to_payload_element idx start stop True (Some n) None v")
    case (Inr w)
    show ?thesis
    proof (cases "payload_fields idx start stop True (Some n) None d")
      case i: (Inl e)
      then show ?thesis using Inr payload_error(2) [OF i] unwrap_error(1) [of idx w]
        by (cases "unwrap_lists idx w") (simp_all flip: 9)
    qed (use Inr in \<open>simp flip: 9\<close>)
  qed (simp flip: 9)
qed (simp_all add: slice_hit_def)

lemma spans_lookup:
  assumes "spans query_start B scheduled ids = Inr ss"
  shows "map fst ss = ids" "rid \<in> set ids \<Longrightarrow> span query_start B scheduled rid = Inr (the (dict_get ss rid)) \<and> dict_get ss rid \<noteq> None"
proof -
  show "map fst ss = ids" using assms by (induction ids arbitrary: ss) (auto simp: rbind_Inr_iff)
  show "rid \<in> set ids \<Longrightarrow> span query_start B scheduled rid = Inr (the (dict_get ss rid)) \<and> dict_get ss rid \<noteq> None"
    using assms by (induction ids arbitrary: ss) (auto simp: rbind_Inr_iff)
qed

text \<open>Rows that one request gets of every element of the batch.\<close>

lemma rmap_request:
  assumes "rmap (\<lambda>x. rbind (f x) (\<lambda>w. Inr (x, w))) ids = Inr d" "rid \<in> set ids"
  shows "\<exists>w. f rid = Inr w \<and> dict_get d rid = Some w"
  using assms by (induction ids arbitrary: d) (auto simp: rbind_Inr_iff)

lemma scheduled_total:
  assumes "spans query_start B scheduled ids = Inr ss"
  shows "rmap (scheduled_of scheduled) ids = Inr (map (\<lambda>rid. the (dict_get scheduled rid)) ids)"
  using assms
  by (induction ids arbitrary: ss) (auto simp: rbind_Inr_iff span_def scheduled_of_def split: option.splits if_splits)

text \<open>Sharing an element out to the batch and picking the share of one request cuts it for this request.\<close>

lemma coerced_share:
  assumes "spans query_start B scheduled (ib_req_ids B) = Inr ss" "rid \<in> set (ib_req_ids B)" "dict_get ss rid = Some (start, stop)"
    "idx = the (dict_get (ib_index B) rid)" "n = sum_list (map (\<lambda>r. the (dict_get scheduled r)) (ib_req_ids B))"
  shows "rbind (coerce_to_payload_dict query_start B scheduled v) (\<lambda>d. case dict_get d rid of None \<Rightarrow> Inl KeyError | Some w \<Rightarrow> unwrap_lists idx w) =
    to_payload_element idx start stop False (Some n) (Some n) v"
    and "coerce_to_payload_dict query_start B scheduled v = Inl e \<Longrightarrow> e = IndexError"
    and "coerce_to_payload_dict query_start B scheduled v = Inr d \<Longrightarrow> \<exists>w. dict_get d rid = Some w"
proof -
  let ?f = "\<lambda>r. rbind (span query_start B scheduled r) (\<lambda>(s, e). to_payload_element (the (dict_get (ib_index B) r)) s e True (Some n) None v)"
  have c: "coerce_to_payload_dict query_start B scheduled v = rmap (\<lambda>r. rbind (?f r) (\<lambda>w. Inr (r, w))) (ib_req_ids B)"
    unfolding coerce_to_payload_dict_def scheduled_total [OF assms(1)] rbind_simps assms(5) [symmetric]
    by (intro arg_cong2 [where f = rmap] ext) (simp_all add: rbind_def split: sum.splits prod.splits)
  have f: "?f r = to_payload_element (the (dict_get (ib_index B) r)) (fst (the (dict_get ss r))) (snd (the (dict_get ss r))) True (Some n) None v"
    if "r \<in> set (ib_req_ids B)" for r using spans_lookup(2) [OF assms(1) that] by (simp add: case_prod_beta)
  have err: "e = IndexError \<and> isl (to_payload_element idx start stop True (Some n) None v)"
    if "rmap (\<lambda>r. rbind (?f r) (\<lambda>w. Inr (r, w))) (ib_req_ids B) = Inl e" for e
  proof -
    note ex = rmap_Inl_ex [OF that]
    obtain r where r: "r \<in> set (ib_req_ids B)" "?f r = Inl e" using ex by (auto simp: rbind_Inl_iff)
    show ?thesis using r(2) payload_error(1) payload_fails_alike(1) unfolding f [OF r(1)] by (metis isl_def)
  qed
  show "e = IndexError" if "coerce_to_payload_dict query_start B scheduled v = Inl e" using err that c by simp
  show "\<exists>w. dict_get d rid = Some w" if "coerce_to_payload_dict query_start B scheduled v = Inr d"
    using rmap_request [OF that [unfolded c] assms(2)] by blast
  show "rbind (coerce_to_payload_dict query_start B scheduled v) (\<lambda>d. case dict_get d rid of None \<Rightarrow> Inl KeyError | Some w \<Rightarrow> unwrap_lists idx w) =
    to_payload_element idx start stop False (Some n) (Some n) v"
  proof (cases "coerce_to_payload_dict query_start B scheduled v")
    case (Inl e)
    then obtain x where x: "to_payload_element idx start stop True (Some n) None v = Inl x" "e = IndexError"
      using err [of e] by (auto simp: c isl_def)
    then show ?thesis using Inl payload_error(1) [OF x(1)] by (simp flip: pick_later)
  next
    case (Inr d)
    obtain w where w: "?f rid = Inr w" "dict_get d rid = Some w" using rmap_request [OF Inr [unfolded c] assms(2)] by blast
    then show ?thesis using Inr f [OF assms(2)] assms(3,4) by (simp flip: pick_later)
  qed
qed

lemma cpu_fields_keys: "k \<notin> fst ` set d \<Longrightarrow> k \<notin> fst ` set (cpu_fields d)"
  by (induction d) (auto split: mm_value.splits)

lemma cpu_fields_ok: "dict_ok d \<Longrightarrow> dict_ok (cpu_fields d)"
proof (induction d)
  case (Cons x d)
  obtain k v where x: "x = (k, v)" by (cases x)
  have "k \<notin> fst ` set (cpu_fields d)" using Cons.prems by (intro cpu_fields_keys) (simp add: x)
  then show ?case using Cons by (auto simp: x split: mm_value.splits)
qed simp

lemma cpu_fields_get:
  "dict_ok d \<Longrightarrow> dict_get (cpu_fields d) k = (case dict_get d k of None \<Rightarrow> None | Some v \<Rightarrow> if to_cpu v = MNone then None else Some (to_cpu v))"
proof (induction d)
  case (Cons x d)
  obtain k' v where x: "x = (k', v)" by (cases x)
  have n: "dict_get (cpu_fields d) k' = None" using Cons.prems cpu_fields_keys [of k' d] by (auto simp: x map_of_eq_None_iff)
  show ?case using Cons n by (cases "k = k'") (auto simp: x split: mm_value.splits)
qed simp

lemma cpu_fields_filter: "cpu_fields (filter (\<lambda>(k, v). P k) d) = filter (\<lambda>(k, v). P k) (cpu_fields d)"
  by (induction d) (auto split: mm_value.splits)

lemma dict_get_filter: "dict_get (filter (\<lambda>(k, v). P k) d) k = (if P k then dict_get d k else None)"
  by (induction d) auto

lemma dict_get_map_filter:
  "dict_get (map (\<lambda>(k, v). (k, h k)) (filter (\<lambda>(k, v). P k) d)) k = (if P k \<and> dict_get d k \<noteq> None then Some (h k) else None)"
  by (induction d) auto

text \<open>Two results that fail alike or hold the same values under the same keys.\<close>

definition agree :: "py_exc + (string, 'v) dict \<Rightarrow> py_exc + (string, 'v) dict \<Rightarrow> bool" where
  "agree r r' \<longleftrightarrow> (case (r, r') of (Inl e, Inl e') \<Rightarrow> e = e' | (Inr d, Inr d') \<Rightarrow> dict_get d = dict_get d' | _ \<Rightarrow> False)"

lemma agree_rmap:
  assumes "dict_ok L" "dict_ok L'" "dict_get L = dict_get L'" "\<And>v e. f v = Inl e \<Longrightarrow> e = E"
  shows "agree (rmap (\<lambda>(k, v). rbind (f v) (\<lambda>w. Inr (k, w))) L) (rmap (\<lambda>(k, v). rbind (f v) (\<lambda>w. Inr (k, w))) L')"
proof -
  let ?r = "rmap (\<lambda>(k, v). rbind (f v) (\<lambda>w. Inr (k, w)))"
  have sets: "set L = set L'" using assms(1-3) by (metis map_of_eq_Some_iff subset_antisym subrelI)
  have "\<exists>e. ?r M' = Inl e" if "?r M = Inl e" "set M = set M'" for M M' e
  proof (rule ccontr)
    assume "\<nexists>e. ?r M' = Inl e"
    then obtain ys where ys: "?r M' = Inr ys" by (cases "?r M'") auto
    note ex = rmap_Inl_ex [OF that(1)]
    obtain x where x: "x \<in> set M" "(\<lambda>(k, v). rbind (f v) (\<lambda>w. Inr (k, w))) x = Inl e" using ex by blast
    have "x \<in> set M'" using x(1) that(2) by simp
    then obtain y where "(\<lambda>(k, v). rbind (f v) (\<lambda>w. Inr (k, w))) x = Inr y"
      using rmap_Inr_each [OF ys] by blast
    then show False using x(2) by simp
  qed
  then have fails: "(\<exists>e. ?r L = Inl e) = (\<exists>e. ?r L' = Inl e)" using sets by blast
  have E: "e = E" if "?r M = Inl e" for M e
  proof -
    have "\<exists>v. f v = Inl e" using rmap_Inl_ex [OF that] by (auto simp: rbind_Inl_iff)
    then show ?thesis using assms(4) by blast
  qed
  show ?thesis
  proof (cases "?r L")
    case (Inl e)
    then obtain e' where "?r L' = Inl e'" using fails by blast
    then show ?thesis using Inl E [OF Inl] E [of L' e'] by (simp add: agree_def)
  next
    case (Inr d)
    then obtain d' where d': "?r L' = Inr d'" using fails by (cases "?r L'") auto
    have "dict_get d k = dict_get d' k" for k using rmap_values [OF Inr] rmap_values [OF d'] assms(3) by simp
    then show ?thesis using Inr d' by (auto simp: agree_def)
  qed
qed

text \<open>The value of a cached key for a request that does not start on cached blocks.\<close>

lemma merged_rows_share:
  assumes "spans query_start B scheduled (ib_req_ids B) = Inr ss" "dict_get ss rid = Some (start, stop)" "rid \<notin> set (pc_hits S)"
    "\<forall>r \<in> set (ib_req_ids B) \<inter> set (pc_hits S). \<forall>b \<in> set (cached_block_ids (pc_block_size S) (the (dict_get (ib_index B) r)) B). b < pc_num_blocks S"
  shows "\<exists>d. merged_value query_start B scheduled S flat (Rows rs) = Inr d \<and> dict_get d rid = Some (Rows (cut start stop rs))"
proof -
  let ?N = "foldr max (map (snd \<circ> snd) ss) 0"
  have "(rid, start, stop) \<in> set ss" using map_of_SomeD [OF assms(2)] .
  then have "stop \<le> ?N" by (induction ss) auto
  then have c: "take (stop - start) (drop start (take ?N rs)) = cut start stop rs" by (simp add: cut_def drop_take min_def)
  have "\<not> (\<exists>r \<in> set (ib_req_ids B). r \<in> set (pc_hits S) \<and>
      (\<exists>b \<in> set (cached_block_ids (pc_block_size S) (the (dict_get (ib_index B) r)) B). b \<ge> pc_num_blocks S))"
    using assms(4) by (meson IntI leD)
  then have m: "merged_value query_start B scheduled S flat (Rows rs) =
      Inr (map (\<lambda>s. (fst s, Rows (merged_rows (pc_block_size S) (pc_hits S) B flat (take ?N rs) s))) ss)"
    by (simp add: merged_value_def get_merged_tensors_def assms(1) resolve_hidden_states_cpu_def comp_def)
  have "dict_get (map (\<lambda>s. (fst s, Rows (merged_rows (pc_block_size S) (pc_hits S) B flat (take ?N rs) s))) xs) rid =
      map_option (\<lambda>(a, b). Rows (merged_rows (pc_block_size S) (pc_hits S) B flat (take ?N rs) (rid, a, b))) (dict_get xs rid)" for xs
    by (induction xs) auto
  then show ?thesis using m assms(2,3) c by (simp add: merged_rows_def)
qed

text \<open>
  C23: The payload of a request is the same with the prefix cache and without it, as long as the request does not
  start on cached blocks, the batch is not padded and the outputs under cached keys are rows for the tokens of the
  batch: merging shares every output out to the whole batch and picks the entries of lists afterwards, the plain way
  cuts it for one request, and both raise the same error or give the same values.
\<close>

theorem merged_payload_mirrors:
  assumes "dict_ok outputs" "dict_ok (pc_mm S)" "\<forall>k \<in> {''meta.req_id'', ''meta.sparse_audio''}. dict_get outputs k = None"
    "spans query_start B scheduled (ib_req_ids B) = Inr ss" "rid \<in> set (ib_req_ids B)" "dict_get ss rid = Some (start, stop)"
    "n = sum_list (map (\<lambda>r. the (dict_get scheduled r)) (ib_req_ids B))" "idx = the (dict_get (ib_index B) rid)"
    "rid \<notin> set (pc_hits S)"
    "\<forall>r \<in> set (ib_req_ids B) \<inter> set (pc_hits S). \<forall>b \<in> set (cached_block_ids (pc_block_size S) (the (dict_get (ib_index B) r)) B). b < pc_num_blocks S"
    "\<forall>k v. dict_get outputs k = Some v \<and> dict_get (pc_mm S) k \<noteq> None \<longrightarrow> (\<exists>rs. v = Rows rs \<and> length rs = n)"
  shows "agree
    (rbind (get_merged_multimodal_states query_start B (Some outputs) scheduled S) (\<lambda>c.
       build_omni_mm_payload (Some c) None rid idx start stop False index n n))
    (build_omni_mm_payload None (Some (build_mm_cpu outputs)) rid idx start stop False index n n)"
proof -
  let ?plain = "to_payload_element idx start stop False (Some n) (Some n) :: 'a mm_value \<Rightarrow> py_exc + 'a mm_value"
  let ?kv = "\<lambda>(k, v). rbind (?plain v) (\<lambda>w. Inr (k, w))"
  let ?U = "\<lambda>(k, d). case dict_get d rid of None \<Rightarrow> Inl KeyError | Some v \<Rightarrow> rbind (unwrap_lists idx v) (\<lambda>w. Inr (k, w))"
  let ?A0 = "filter (\<lambda>(k, flat). dict_get outputs k \<noteq> None) (pc_mm S)" and ?g = "\<lambda>(k, flat). (k, the (dict_get outputs k))"
  let ?B = "filter (\<lambda>(k, v). dict_get (pc_mm S) k = None) (cpu_fields outputs)"
  let ?f1 = "\<lambda>(k, flat). rbind (merged_value query_start B scheduled S flat (the (dict_get outputs k))) (\<lambda>d. Inr (k, d))"
  let ?f2 = "\<lambda>(k, v). rbind (coerce_to_payload_dict query_start B scheduled v) (\<lambda>d. Inr (k, d))"
  have plain_err: "?plain v = Inl e \<Longrightarrow> e = IndexError" for v e by (rule payload_error(1))
  have cached: "\<exists>d rs. ?f1 x = Inr (fst x, d) \<and> ?U (fst x, d) = ?kv (?g x) \<and> ?U (fst x, d) = Inr (fst x, Rows rs)" if x: "x \<in> set ?A0" for x
  proof -
    obtain k flat where kf: "x = (k, flat)" by (cases x)
    have "dict_get outputs k \<noteq> None" "dict_get (pc_mm S) k \<noteq> None" using x kf by (auto simp: weak_map_of_SomeI)
    then obtain v where v: "dict_get outputs k = Some v" "dict_get (pc_mm S) k \<noteq> None" by blast
    obtain rs where rs: "v = Rows rs" "length rs = n" using assms(11) v by blast
    obtain d where "merged_value query_start B scheduled S flat (Rows rs) = Inr d" "dict_get d rid = Some (Rows (cut start stop rs))"
      using merged_rows_share [OF assms(4,6,9,10)] by blast
    then show ?thesis using kf v rs by (simp add: slice_hit_def)
  qed
  have A: "rbind (rmap ?f1 ?A0) (rmap ?U) = rmap (\<lambda>x. ?kv (?g x)) ?A0"
  proof (rule rmap_fuse [where E = IndexError])
    show "rbind (?f1 x) ?U = ?kv (?g x)" "?f1 x = Inl e \<Longrightarrow> e = IndexError" if "x \<in> set ?A0" for x e using cached [OF that] by auto
    show "e = IndexError" if "x \<in> set ?A0" "?f1 x = Inr y" "?U y = Inl e" for x y e using cached [OF that(1)] that(2,3) by auto
  qed
  have shared: "rbind (?f2 x) ?U = ?kv x" "?f2 x = Inl e \<Longrightarrow> e = IndexError" "?f2 x = Inr y \<Longrightarrow> ?U y = Inl e \<Longrightarrow> e = IndexError" for x y e
  proof -
    obtain k v where x: "x = (k, v)" by (cases x)
    note c = coerced_share [OF assms(4,5,6,8,7), of v]
    show "?f2 x = Inl e \<Longrightarrow> e = IndexError" using c(2) by (auto simp: x rbind_Inl_iff)
    show "rbind (?f2 x) ?U = ?kv x"
      using c(1) [symmetric] by (cases "coerce_to_payload_dict query_start B scheduled v") (auto simp: x split: option.splits)
    show "?f2 x = Inr y \<Longrightarrow> ?U y = Inl e \<Longrightarrow> e = IndexError" using c(3) unwrap_error(1) by (fastforce simp: x rbind_Inr_iff rbind_Inl_iff)
  qed
  have Bf: "rbind (rmap ?f2 ?B) (rmap ?U) = rmap ?kv ?B" by (rule rmap_fuse [where E = IndexError]) (rule shared; assumption)+
  obtain a' where a': "rmap (\<lambda>x. ?kv (?g x)) ?A0 = Inr a'"
  proof (cases "rmap (\<lambda>x. ?kv (?g x)) ?A0")
    case (Inl e)
    obtain x where x: "x \<in> set ?A0" "?kv (?g x) = Inl e" using rmap_Inl_ex [OF Inl] by (rule bexE)
    obtain d rs where "?U (fst x, d) = ?kv (?g x)" "?U (fst x, d) = Inr (fst x, Rows rs)" using cached [OF x(1)] by blast
    then have "Inr (fst x, Rows rs) = (Inl e :: py_exc + string \<times> 'a mm_value)" using x(2) by (simp only:)
    then show ?thesis by simp
  qed (rule that)
  obtain a where a: "rmap ?f1 ?A0 = Inr a" "rmap ?U a = Inr a'" using A unfolding a' rbind_Inr_iff by blast
  have g: "rmap ?kv (map ?g ?A0) = Inr a'" using a' unfolding rmap_map .
  have "rbind (get_merged_multimodal_states query_start B (Some outputs) scheduled S) (rmap ?U) = rmap ?kv (map ?g ?A0 @ ?B)"
    using a g Bf [symmetric] by (cases "rmap ?f2 ?B")
      (simp_all add: get_merged_multimodal_states_def build_mm_cpu_def cpu_fields_filter rmap_append Let_def)
  moreover have "build_omni_mm_payload (Some c) None rid idx start stop False index n n = rmap ?U c" for c :: "(string, (string, 'a mm_value) dict) dict"
    by (cases c) (simp_all add: build_omni_mm_payload_def build_combined_prefix_cache_mm_payload_def)
  moreover have "build_omni_mm_payload None (Some (build_mm_cpu outputs)) rid idx start stop False index n n = rmap ?kv (cpu_fields outputs)"
  proof -
    have "filter (plain_keys False index rid) (cpu_fields outputs) = cpu_fields outputs"
    proof (intro filter_True ballI)
      fix x assume "x \<in> set (cpu_fields outputs)"
      then have "fst x \<in> fst ` set outputs" using cpu_fields_keys [of "fst x" outputs] by auto
      then have "dict_get outputs (fst x) \<noteq> None" by (simp add: map_of_eq_None_iff)
      then have "fst x \<notin> {''meta.req_id'', ''meta.sparse_audio''}" using assms(3) by (intro notI) (drule bspec, assumption, simp)
      then show "plain_keys False index rid x" by (simp add: plain_keys_def case_prod_beta split: mm_value.splits)
    qed
    moreover have "plain_value False index rid idx start stop n n = ?plain" by (intro ext) (simp add: plain_value_def split: mm_value.splits)
    ultimately show ?thesis by (simp add: build_omni_mm_payload_def build_mm_cpu_def)
  qed
  moreover have "agree (rmap ?kv (map ?g ?A0 @ ?B)) (rmap ?kv (cpu_fields outputs))"
  proof (rule agree_rmap [where E = IndexError])
    have k: "map fst (map ?g ?A0) = map fst ?A0" by (simp add: case_prod_beta)
    have "distinct (map fst ?A0)" "distinct (map fst ?B)" using assms(1,2) cpu_fields_ok by (auto intro: distinct_map_filter)
    moreover have "fst ` set ?A0 \<inter> fst ` set ?B = {}" by (auto simp: map_of_eq_None_iff image_iff)
    ultimately show "dict_ok (map ?g ?A0 @ ?B)" unfolding map_append k distinct_append by simp
    have "dict_get (map ?g ?A0 @ ?B) k = dict_get (cpu_fields outputs) k" for k
    proof (cases "dict_get outputs k = None \<or> dict_get (pc_mm S) k = None")
      case False
      then obtain v where v: "dict_get outputs k = Some v" by (cases "dict_get outputs k") simp_all
      moreover have "\<exists>rs. v = Rows rs" using assms(11) v False by blast
      ultimately obtain rs where "dict_get outputs k = Some (Rows rs)" by blast
      then show ?thesis using False by (simp add: map_add_def dict_get_filter dict_get_map_filter cpu_fields_get [OF assms(1)])
    qed (auto simp: map_add_def dict_get_filter dict_get_map_filter cpu_fields_get [OF assms(1)])
    then show "dict_get (map ?g ?A0 @ ?B) = dict_get (cpu_fields outputs)" by blast
  qed (use assms(1) plain_err cpu_fields_ok in auto)
  ultimately show ?thesis by simp
qed

text \<open>A batch of two requests: a list with an entry for each of them, and rows for both.\<close>

definition two_requests :: input_batch where
  "two_requests = \<lparr>ib_req_ids = [''a'', ''b''], ib_index = [(''a'', 0), (''b'', 1)], ib_num_computed = [0, 0], ib_block_table = [[0], [1]]\<rparr>"

lemma merged_payload_mirrors_witness:
  "agree
    (rbind (get_merged_multimodal_states [0, 2] two_requests (Some [(''codes'', Rows [1, 2, 3]), (''text'', MList [MObj 7, MObj (8 :: nat)])])
        [(''a'', 2), (''b'', 1)] (new_prefix_cache 0 2 2)) (\<lambda>c. build_omni_mm_payload (Some c) None ''b'' 1 2 3 False [] 3 3))
    (build_omni_mm_payload None (Some (build_mm_cpu [(''codes'', Rows [1, 2, 3]), (''text'', MList [MObj 7, MObj 8])])) ''b'' 1 2 3 False [] 3 3)"
  by (rule merged_payload_mirrors [where ss = "[(''a'', 0, 2), (''b'', 2, 3)]"])
    (simp_all add: two_requests_def new_prefix_cache_def span_def)

section \<open>Sparse outputs\<close>

lemma sparse_position:
  assumes "distinct ids" "i < length ids"
  shows "dict_get (fold (\<lambda>(j, rid). dict_set rid j) (enumerate n ids) d) (ids ! i) = Some (n + i)"
  using assms
proof (induction ids arbitrary: n d i)
  case (Cons x ids)
  have other: "dict_get (fold (\<lambda>(j, rid). dict_set rid j) (enumerate m ids) e) x = dict_get e x" for m e
    using Cons.prems(1) by (induction ids arbitrary: m e) (auto simp: dict_simps)
  show ?case
  proof (cases i)
    case 0
    then show ?thesis using other [of "Suc n" "dict_set x n d"] by (simp add: dict_simps)
  next
    case (Suc j)
    then show ?thesis using Cons.IH [of j "Suc n" "dict_set x n d"] Cons.prems by simp
  qed
qed simp

lemma shared_list:
  assumes "spans query_start B scheduled (ib_req_ids B) = Inr ss"
  shows "coerce_to_payload_dict query_start B scheduled (MList vs) = Inr (map (\<lambda>r. (r, MList vs)) (ib_req_ids B))"
proof -
  let ?f = "\<lambda>n r. rbind (span query_start B scheduled r) (\<lambda>(s, e).
    rbind (to_payload_element (the (dict_get (ib_index B) r)) s e True (Some n) None (MList vs)) (\<lambda>w. Inr (r, w)))"
  have "rmap (?f n) ids = Inr (map (\<lambda>r. (r, MList vs)) ids)" if "set ids \<subseteq> set (ib_req_ids B)" for n ids
    using that spans_lookup(2) [OF assms] by (induction ids) (auto simp: case_prod_beta)
  then show ?thesis using scheduled_total [OF assms] by (simp add: coerce_to_payload_dict_def)
qed

lemma dict_get_const: "r \<in> set rs \<Longrightarrow> dict_get (map (\<lambda>r. (r, x)) rs) r = Some x"
  by (induction rs) auto

lemma cpu_items_map: "cpu_items vs = map to_cpu vs"
  by (induction vs) simp_all

text \<open>
  C33: An audio stage that has chunks for some requests only hands on the list of these chunks and the ids they
  belong to.  Without merging every named request gets its own chunk.  With a prefix cache the outputs are merged as
  soon as one request of the batch starts on cached blocks, and then the ids are not looked at: a request gets the
  chunk at its position in the batch, or the first one when the list is too short.
\<close>

theorem sparse_chunks_by_position:
  assumes "distinct ready" "i < length ready" "length chunks = length ready"
    "key \<notin> {''meta.req_id'', ''meta.sparse_audio''}" "ids \<noteq> []" "flags \<noteq> []" "pc_mm S = []" "pc_hits S \<noteq> []"
    "spans query_start B scheduled (ib_req_ids B) = Inr ss" "ready ! i \<in> set (ib_req_ids B)"
    "idx = the (dict_get (ib_index B) (ready ! i))"
    "outputs = [(key, MList chunks), (''meta.req_id'', MList ids), (''meta.sparse_audio'', MList flags)]"
    "resolve_sparse_mm_routing ''audio'' (ib_req_ids B) downstream (Some ready) = (named, index, sparse)"
  shows "ready ! i \<in> set named \<and>
    build_omni_mm_payload None (Some (build_mm_cpu outputs)) (ready ! i) idx start stop sparse index h n = Inr [(key, to_cpu (chunks ! i))] \<and>
    (\<exists>c p. maybe_get_combined True False query_start B hidden None (Some outputs) scheduled (Some S) = Inr (None, Some c) \<and>
      build_omni_mm_payload (Some c) None (ready ! i) idx start stop sparse index h n = Inr p \<and>
      dict_get p key = Some (to_cpu (if idx < length chunks then chunks ! idx else hd chunks)))"
proof (intro conjI)
  have r: "named = filter (\<lambda>rid. rid \<in> set ready) (ib_req_ids B)" "index = fold (\<lambda>(j, rid). dict_set rid j) (enumerate 0 ready) []" "sparse"
    using assms(13) by (auto simp: resolve_sparse_mm_routing_def)
  show "ready ! i \<in> set named" using assms(2,10) r(1) by simp
  have pos: "dict_get index (ready ! i) = Some i" using sparse_position [OF assms(1,2), of 0 "[]"] r(2) by simp
  have cpu: "build_mm_cpu outputs = [(key, MList (map to_cpu chunks)), (''meta.req_id'', MList (map to_cpu ids)), (''meta.sparse_audio'', MList (map to_cpu flags))]"
    by (simp add: assms(12) build_mm_cpu_def cpu_items_map)
  show "build_omni_mm_payload None (Some (build_mm_cpu outputs)) (ready ! i) idx start stop sparse index h n = Inr [(key, to_cpu (chunks ! i))]"
    unfolding cpu using assms(2-4) pos r(3) by (simp add: build_omni_mm_payload_def plain_keys_def plain_value_def)
  let ?c = "map (\<lambda>(k, v). (k, map (\<lambda>r. (r, v)) (ib_req_ids B))) (build_mm_cpu outputs)"
  have "get_merged_multimodal_states query_start B (Some outputs) scheduled S = Inr ?c"
    by (simp add: get_merged_multimodal_states_def assms(7) cpu shared_list [OF assms(9)])
  then have "maybe_get_combined True False query_start B hidden None (Some outputs) scheduled (Some S) = Inr (None, Some ?c)"
    using assms(8) by (simp add: maybe_get_combined_def has_prefix_cached_new_req_ids_def)
  moreover have ne: "chunks \<noteq> []" using assms(2,3) by auto
  have "\<exists>p. build_omni_mm_payload (Some ?c) None (ready ! i) idx start stop sparse index h n = Inr p \<and>
      dict_get p key = Some (to_cpu (if idx < length chunks then chunks ! idx else hd chunks))"
    unfolding cpu using assms(4-6) ne
    by (simp add: build_omni_mm_payload_def build_combined_prefix_cache_mm_payload_def hd_map dict_get_const [OF assms(10)])
  ultimately show "\<exists>c p. maybe_get_combined True False query_start B hidden None (Some outputs) scheduled (Some S) = Inr (None, Some c) \<and>
      build_omni_mm_payload (Some c) None (ready ! i) idx start stop sparse index h n = Inr p \<and>
      dict_get p key = Some (to_cpu (if idx < length chunks then chunks ! idx else hd chunks))" by blast
qed

text \<open>Chunks for the second and the first request, in this order: merged, they are swapped.\<close>

lemma sparse_chunks_by_position_witness:
  "build_omni_mm_payload None (Some (build_mm_cpu [(''model_outputs'', MList [MObj 7, MObj (8 :: nat)]), (''meta.req_id'', MList [MObj 1, MObj 0]),
      (''meta.sparse_audio'', MList [MObj 1])])) ''a'' 0 0 1 True [(''b'', 0), (''a'', 1)] 2 2 = Inr [(''model_outputs'', MObj 8)] \<and>
   (\<exists>c p. maybe_get_combined True False [0, 1] two_requests [] None (Some [(''model_outputs'', MList [MObj 7, MObj (8 :: nat)]), (''meta.req_id'', MList [MObj 1, MObj 0]),
      (''meta.sparse_audio'', MList [MObj 1])]) [(''a'', 1), (''b'', 1)] (Some (add_prefix_cached_new_req_id ''b'' (new_prefix_cache 0 2 2))) = Inr (None, Some c) \<and>
     build_omni_mm_payload (Some c) None ''a'' 0 0 1 True [(''b'', 0), (''a'', 1)] 2 2 = Inr p \<and> dict_get p ''model_outputs'' = Some (MObj 7))"
  using sparse_chunks_by_position [of "[''b'', ''a'']" 1 "[MObj 7, MObj 8]" "''model_outputs''" "[MObj 1, MObj 0]" "[MObj 1]"
    "add_prefix_cached_new_req_id ''b'' (new_prefix_cache (0 :: nat) 2 2)" "[0, 1]" two_requests "[(''a'', 1), (''b'', 1)]"
    "[(''a'', 0, 1), (''b'', 1, 2)]" 0 _ "[]" "[''a'', ''b'']" "[(''b'', 0), (''a'', 1)]" True 0 1 2 2 "[]"]
  by (simp add: two_requests_def new_prefix_cache_def span_def add_prefix_cached_new_req_id_def resolve_sparse_mm_routing_def enumerate_eq_zip)

end
