(* ===== verification/Prefix_Hits.thy ===== *)
theory Prefix_Hits
  imports Prefix_Merge
begin

text \<open>
  What a request that starts on cached blocks gets (\<^verbatim>\<open>core/prefix_cache.py\<close>): the cache is a map from
  slots to the rows written to them last, and merging reads the cached blocks of the request out of it.
\<close>

section \<open>The cache as a map from slots to rows\<close>

definition write_rows :: "'r \<Rightarrow> nat list \<times> 'r list \<Rightarrow> 'r prefix_cache \<Rightarrow> py_exc + 'r prefix_cache" where
  "write_rows zeros = (\<lambda>(slots, rs). update_omni_tensor_prefix_cache zeros (Some rs) None (length rs) slots None [] None)"

text \<open>The row that was written last to a slot.\<close>

definition last_row :: "(nat list \<times> 'r list) list \<Rightarrow> nat \<Rightarrow> 'r option" where
  "last_row steps = map_of (rev (concat (map (\<lambda>(slots, rs). zip slots rs) steps)))"

lemma last_row_Cons: "last_row ((slots, rs) # steps) = map_of (rev (zip slots rs)) ++ last_row steps"
  by (simp add: last_row_def)

lemma scatter_lookup:
  "s < length flat \<Longrightarrow> length slots = length src \<Longrightarrow>
     scatter slots src flat ! s = (case map_of (rev (zip slots src)) s of None \<Rightarrow> flat ! s | Some r \<Rightarrow> r)"
proof (induction slots arbitrary: src flat)
  case (Cons t slots)
  obtain r rs where src: "src = r # rs" using Cons.prems(2) by (cases src) auto
  have e: "scatter (t # slots) src flat = scatter slots rs (flat[t := r])" by (simp add: scatter_def src)
  show ?case unfolding e using Cons.prems Cons.IH [of "flat[t := r]" rs]
    by (auto simp: src map_add_def nth_list_update split: option.splits)
qed (simp add: scatter_def)

text \<open>Writing refines updating the map.\<close>

lemma written_rows:
  assumes "\<forall>(slots, rs) \<in> set steps. length slots = length rs \<and> (\<forall>s \<in> set slots. s < length (pc_hidden S))"
  shows "\<exists>S'. fold_result (write_rows zeros) steps S = Inr S' \<and> length (pc_hidden S') = length (pc_hidden S) \<and>
    pc_num_blocks S' = pc_num_blocks S \<and> pc_block_size S' = pc_block_size S \<and>
    (\<forall>s < length (pc_hidden S). pc_hidden S' ! s = (case last_row steps s of None \<Rightarrow> pc_hidden S ! s | Some r \<Rightarrow> r))"
  using assms
proof (induction steps arbitrary: S)
  case (Cons x steps)
  obtain slots rs where x: "x = (slots, rs)" by (cases x)
  have ok: "length slots = length rs" "\<forall>s \<in> set slots. s < length (pc_hidden S)" using Cons.prems x by auto
  let ?S = "S\<lparr>pc_hidden := scatter slots rs (pc_hidden S)\<rparr>"
  have w: "write_rows zeros x S = Inr ?S"
    using ok by (simp add: x write_rows_def update_omni_tensor_prefix_cache_def resolve_hidden_states_cpu_def write_hidden_def index_copy_ok)
  have rest: "\<forall>(slots, rs) \<in> set steps. length slots = length rs \<and> (\<forall>s \<in> set slots. s < length (pc_hidden ?S))" using Cons.prems by simp
  obtain S' where S': "fold_result (write_rows zeros) steps ?S = Inr S'" "length (pc_hidden S') = length (pc_hidden ?S)"
    "pc_num_blocks S' = pc_num_blocks ?S" "pc_block_size S' = pc_block_size ?S"
    "\<forall>s < length (pc_hidden ?S). pc_hidden S' ! s = (case last_row steps s of None \<Rightarrow> pc_hidden ?S ! s | Some r \<Rightarrow> r)"
    using Cons.IH [OF rest] by blast
  have "pc_hidden S' ! s = (case last_row (x # steps) s of None \<Rightarrow> pc_hidden S ! s | Some r \<Rightarrow> r)" if "s < length (pc_hidden S)" for s
    using S'(5) that scatter_lookup [OF that ok(1)] by (simp add: x last_row_Cons map_add_def split: option.splits)
  then show ?case using w S' by simp
qed (simp add: last_row_def)

section \<open>Reading the cached blocks\<close>

lemma block_rows_nth: "b * bs + bs \<le> length flat \<Longrightarrow> block_rows bs flat b = map (\<lambda>j. flat ! (b * bs + j)) [0..<bs]"
  by (rule nth_equalityI) (simp_all add: block_rows_def)

lemma blocks_by_position:
  assumes "\<forall>b \<in> set (take k table). b < nb" "k \<le> length table" "length flat = nb * bs"
  shows "concat (map (block_rows bs flat) (take k table)) = map (\<lambda>p. flat ! slot_of bs table p) [0..<k * bs]"
  using assms
proof (induction k)
  case (Suc k)
  have k: "k < length table" and "table ! k < nb" using Suc.prems by (auto simp: take_Suc_conv_app_nth)
  then have "Suc (table ! k) * bs \<le> nb * bs" by (intro mult_right_mono) simp_all
  then have b: "block_rows bs flat (table ! k) = map (\<lambda>j. flat ! (table ! k * bs + j)) [0..<bs]"
    using Suc.prems(3) by (intro block_rows_nth) simp
  have "[0..<Suc k * bs] = [0..<k * bs] @ map (\<lambda>j. k * bs + j) [0..<bs]"
    by (rule nth_equalityI) (auto simp: nth_append)
  moreover have "map (\<lambda>p. flat ! slot_of bs table p) (map (\<lambda>j. k * bs + j) [0..<bs]) = map (\<lambda>j. flat ! (table ! k * bs + j)) [0..<bs]"
    by (auto simp: slot_of_def)
  ultimately show ?case using Suc b k by (auto simp: take_Suc_conv_app_nth)
qed simp

text \<open>
  C7: A cached prefix stands for the rows it was computed with.  Take any number of forwards that wrote rows to slots
  of the cache, and a request whose first blocks hold, position by position, the rows written last to its slots.
  When it starts on these blocks, merging gives it exactly these rows, in order, up to the last full block, and
  behind them its own rows of this forward, whatever else is in the batch.
\<close>

theorem prefix_hit_exact:
  assumes "\<forall>(slots, rs) \<in> set steps. length slots = length rs \<and> (\<forall>s \<in> set slots. s < num_blocks * block_size)"
    "spans query_start B scheduled (ib_req_ids B) = Inr ss" "dict_get ss rid = Some (start, stop)" "rid \<in> set hits"
    "\<forall>r \<in> set (ib_req_ids B) \<inter> set hits. \<forall>b \<in> set (cached_block_ids block_size (the (dict_get (ib_index B) r)) B). b < num_blocks"
    "idx = the (dict_get (ib_index B) rid)" "k = ib_num_computed B ! idx div block_size" "k \<le> length (ib_block_table B ! idx)"
    "\<forall>p < k * block_size. last_row steps (slot_of block_size (ib_block_table B ! idx) p) = Some (prefix ! p)" "length prefix = k * block_size"
  shows "\<exists>S d. fold_result (write_rows zeros) steps (new_prefix_cache zeros num_blocks block_size) = Inr S \<and>
    get_merged_hidden_states query_start B hidden scheduled None (S\<lparr>pc_hits := hits\<rparr>) = Inr d \<and>
    dict_get d rid = Some (prefix @ cut start stop hidden)"
proof -
  let ?N = "new_prefix_cache zeros num_blocks block_size" and ?table = "ib_block_table B ! idx" and ?n = "foldr max (map (snd \<circ> snd) ss) 0"
  have len: "length (pc_hidden ?N) = num_blocks * block_size" "pc_num_blocks ?N = num_blocks" "pc_block_size ?N = block_size"
    by (simp_all add: new_prefix_cache_def cache_tensor_def)
  obtain S where S: "fold_result (write_rows zeros) steps ?N = Inr S" "length (pc_hidden S) = num_blocks * block_size"
    "pc_num_blocks S = num_blocks" "pc_block_size S = block_size"
    "\<forall>s < num_blocks * block_size. pc_hidden S ! s = (case last_row steps s of None \<Rightarrow> pc_hidden ?N ! s | Some r \<Rightarrow> r)"
    using written_rows [of steps ?N zeros] assms(1) len by auto
  have rid: "rid \<in> set (ib_req_ids B)" using spans_lookup(1) [OF assms(2)] dict_get_Some_key [OF assms(3)] by simp
  have blocks: "cached_block_ids block_size idx B = take k ?table" by (simp add: cached_block_ids_def assms(7))
  have tb: "\<forall>b \<in> set (take k ?table). b < num_blocks" using assms(4-6) rid blocks by auto
  have at: "pc_hidden S ! slot_of block_size ?table p = prefix ! p" if "p < k * block_size" for p
  proof -
    have "slot_of block_size ?table p = slot_of block_size (take k ?table) p"
      using that assms(8) by (simp add: slot_of_def less_mult_imp_div_less)
    moreover have "block_size > 0" using that by (cases block_size) simp_all
    ultimately have "slot_of block_size ?table p < num_blocks * block_size"
      using slot_bound [OF tb, of block_size p] that assms(8) by simp
    then show ?thesis using S(5) assms(9) that by simp
  qed
  have "concat (map (block_rows block_size (pc_hidden S)) (take k ?table)) = map (\<lambda>p. pc_hidden S ! slot_of block_size ?table p) [0..<k * block_size]"
    by (rule blocks_by_position [OF tb assms(8) S(2)])
  also have "\<dots> = prefix" using at assms(10) by (intro nth_equalityI) simp_all
  finally have pre: "concat (map (block_rows block_size (pc_hidden S)) (cached_block_ids block_size idx B)) = prefix" unfolding blocks .
  have "(rid, start, stop) \<in> set ss" using map_of_SomeD [OF assms(3)] .
  then have "stop \<le> ?n" by (induction ss) auto
  then have c: "take (stop - start) (drop start (take ?n hidden)) = cut start stop hidden" by (simp add: cut_def drop_take min_def)
  have safe: "\<not> (\<exists>r \<in> set (ib_req_ids B). r \<in> set hits \<and> (\<exists>b \<in> set (cached_block_ids block_size (the (dict_get (ib_index B) r)) B). b \<ge> num_blocks))"
    using assms(5) by (meson IntI leD)
  have m: "get_merged_hidden_states query_start B hidden scheduled None (S\<lparr>pc_hits := hits\<rparr>) =
      Inr (map (\<lambda>s. (fst s, merged_rows block_size hits B (pc_hidden S) (take ?n hidden) s)) ss)"
    using safe by (simp add: get_merged_hidden_states_def get_merged_tensors_def assms(2) resolve_hidden_states_cpu_def S(3,4))
  have "dict_get (map (\<lambda>s. (fst s, merged_rows block_size hits B (pc_hidden S) (take ?n hidden) s)) xs) rid =
      map_option (\<lambda>(a, b). merged_rows block_size hits B (pc_hidden S) (take ?n hidden) (rid, a, b)) (dict_get xs rid)" for xs
    by (induction xs) auto
  then show ?thesis using S(1) m assms(3,4,6) pre c by (simp add: merged_rows_def)
qed

text \<open>The first request is prefilled in two parts over blocks 2 and 0; the second shares its first block.\<close>

lemma prefix_hit_exact_witness:
  "\<exists>S d. fold_result (write_rows 0) [([4, 5, 0], [11, 12, 13]), ([1], [14 :: nat])] (new_prefix_cache 0 3 2) = Inr S \<and>
    get_merged_hidden_states [0] \<lparr>ib_req_ids = [''q''], ib_index = [(''q'', 0)], ib_num_computed = [2], ib_block_table = [[2, 1]]\<rparr> [15, 16]
      [(''q'', 2)] None (S\<lparr>pc_hits := [''q'']\<rparr>) = Inr d \<and> dict_get d ''q'' = Some ([11, 12] @ cut 0 2 [15, 16])"
  by (rule prefix_hit_exact [where ss = "[(''q'', 0, 2)]" and idx = 0 and k = 1])
    (auto simp: span_def cached_block_ids_def last_row_def slot_of_def less_Suc_eq numeral_2_eq_2)

end
