(* ===== verification/Spec2Isabelle.thy ===== *)
theory Spec2Isabelle
  imports Omni_Prelude Py_Int Stage_Roles Stage_Payload Lru_Cache Prompt_Cache DreamZero_State DreamZero
    Stage_Transition Stage_Runner Diffusion_Scheduler Diffusion_Engine Memory_Pool
    Replica_Coordinator Load_Balancer Stage_Pool Input_Coordinator
    Cfg_Companions Payload_Keys Paged_Cache Paged_Attention AR_Session AR_Setup AR_Rollout AR_Runner
    Chunk_Transfer Chunk_Window Chunk_Stream
    KV_Bytes KV_Shards KV_Transfer KV_Buffers KV_Hooks
    Prefix_Tensors Prefix_Writes Prefix_Merge Prefix_Hits
begin

text \<open>
  A model of the disaggregated diffusion core of \<^verbatim>\<open>vllm_omni\<close> and of the services around it: the
  scheduler and loop of the diffusion engine, the paged key-value cache of its autoregressive models,
  the routing of requests to replicas, and the buffer pool of the connectors.

  \<^bold>\<open>The program.\<close>  A diffusion model can be split over three workers: an encode worker turns an
  observation into conditions, a denoise worker runs the diffusion transformer over them, a decode
  worker turns the result into an action and a video.  Between them travels a \<^verbatim>\<open>StagePayload\<close>,
  packed by the producing pipeline, wrapped in a stage output, turned into the next stage's prompt by
  the transition processor and unpacked by the consuming pipeline.  Before any worker starts, the
  configured stages are checked as a topology.  Inside a worker the engine's busy loop drives a
  scheduler that forms batches of compatible requests.  The denoise worker of an autoregressive model
  keeps the attention keys and values of its sessions in a pool of blocks: a session's forward gets
  slots for its rows, attends over the block table of its window and commits whole chunks.  Every stage may have several replicas: they
  report to a coordinator, which publishes the list of live ones; the head's stage pools route each
  request over that list through a load balancer, and a watcher detaches replicas that vanish from it.
  Connectors move tensors through a registered pool of memory.

  \<^bold>\<open>Theories\<close> (paths under \<^verbatim>\<open>src/vllm_omni/\<close>).

  \<^item> \<^verbatim>\<open>Omni_Prelude\<close>: Python dicts as association lists (\<open>dict\<close>), exceptions as the left side of a
    sum, \<open>rbind\<close>, slices, truth values; the named theorem collections.
  \<^item> \<^verbatim>\<open>Py_Int\<close>: integers as decimal strings and back.
  \<^item> \<^verbatim>\<open>Stage_Roles\<close>: role names, execution paths, component ownership and the topology validator
    (\<^verbatim>\<open>diffusion/stage_roles.py\<close>, \<^verbatim>\<open>diffusion/stage_topology.py\<close>).
  \<^item> \<^verbatim>\<open>Stage_Payload\<close>: the transport allow-list, tensor sanitising and the payload class
    (\<^verbatim>\<open>diffusion/stage_payload.py\<close>, \<^verbatim>\<open>diffusion/models/interface.py\<close>).
  \<^item> \<^verbatim>\<open>Lru_Cache\<close>: the ordered-dict table with eviction at its front that the caches and session
    tables share, and the locales \<open>lru_map\<close> and \<open>lru_sessions\<close>.
  \<^item> \<^verbatim>\<open>Prompt_Cache\<close>: the prompt embedding cache (\<^verbatim>\<open>diffusion/cache/prompt_embed_cache.py\<close>).
  \<^item> \<^verbatim>\<open>DreamZero_State\<close>: the session state of DreamZero, its frame window and its streaming video
    encoder (\<^verbatim>\<open>diffusion/models/dreamzero/state_dreamzero.py\<close>, \<^verbatim>\<open>pipeline_dreamzero.py\<close>).
  \<^item> \<^verbatim>\<open>DreamZero\<close>: the three phases, the monolithic \<^verbatim>\<open>forward\<close>, the per-stage atoms, packing and
    unpacking of the carrier (\<^verbatim>\<open>diffusion/models/dreamzero/pipeline_dreamzero.py\<close>).
  \<^item> \<^verbatim>\<open>Stage_Transition\<close>: the transition processor and the hand-over between workers
    (\<^verbatim>\<open>model_executor/stage_input_processors/diffusion.py\<close>); the locale \<open>payload_producer\<close>.
  \<^item> \<^verbatim>\<open>Stage_Runner\<close>: the runner's stage paths (\<^verbatim>\<open>diffusion/worker/diffusion_model_runner.py\<close>), three
    stages in a row, and their comparison with \<^verbatim>\<open>forward\<close>.

  \<^item> \<^verbatim>\<open>Diffusion_Scheduler\<close>: the scheduler base class with its request and step variants
    (\<^verbatim>\<open>diffusion/sched/\<close>): the queues, batch compatibility, scheduling rounds, preemption, aborts and the
    verdict on a runner result; the locale \<open>scheduler_contract\<close> and the reachable states.
  \<^item> \<^verbatim>\<open>Diffusion_Engine\<close>: the busy loop (\<^verbatim>\<open>diffusion/diffusion_engine.py\<close>): client adds and aborts, one
    loop iteration split at the execution, the futures, closing.
  \<^item> \<^verbatim>\<open>Memory_Pool\<close>: the first-fit allocator and the managed buffers
    (\<^verbatim>\<open>distributed/omni_connectors/utils/memory_pool.py\<close>), as a machine of allocations and releases.
  \<^item> \<^verbatim>\<open>Replica_Coordinator\<close>: replica registry, events, heartbeats and coalesced broadcasts, with the two
    threads as interleaved steps, and the hub's cache (\<^verbatim>\<open>distributed/omni_coordinator/\<close>).
  \<^item> \<^verbatim>\<open>Load_Balancer\<close>: the policies and the locales \<open>load_balancer\<close> and \<open>rotating_balancer\<close>, interpreted on
    each of them (\<^verbatim>\<open>distributed/omni_coordinator/load_balancer.py\<close>).
  \<^item> \<^verbatim>\<open>Stage_Pool\<close>: slots, affinity and picks (\<^verbatim>\<open>engine/stage_pool.py\<close>), proved once over the locale
    \<open>load_balancer\<close>, and the membership controller (\<^verbatim>\<open>engine/membership_controller.py\<close>).
  \<^item> \<^verbatim>\<open>Input_Coordinator\<close>: the gates that park language-stage requests whose chunk or whole input has not
    arrived (\<^verbatim>\<open>core/sched/omni_scheduling_coordinator.py\<close>), over an arbitrary waiting queue of vLLM under
    the named laws \<open>queue_laws\<close>.
  \<^item> \<^verbatim>\<open>Cfg_Companions\<close>: the tracker of guidance companions (\<^verbatim>\<open>engine/cfg_companion_tracker.py\<close>) and the
    gate of the orchestrator that holds a parent back for them (\<^verbatim>\<open>engine/orchestrator.py\<close>).
  \<^item> \<^verbatim>\<open>Payload_Keys\<close>: the payloads between language stages: struct to dictionary, dotted keys, wire
    entries and the way back (\<^verbatim>\<open>data_entry_keys.py\<close>, \<^verbatim>\<open>engine/serialization.py\<close>).
  \<^item> \<^verbatim>\<open>Chunk_Transfer\<close>: the chunk transfer adapter of the language stages, its sending, receiving and
    cleanup (\<^verbatim>\<open>distributed/omni_connectors/transfer_adapter/\<close>, \<^verbatim>\<open>adapter.py\<close>).
  \<^item> \<^verbatim>\<open>Chunk_Window\<close>: the gates of the adapter before the scheduler, with and without the bounded window of
    active streams, and the adapter under any events of the scheduler.
  \<^item> \<^verbatim>\<open>Chunk_Stream\<close>: a stream of chunks between two adapters, with failing puts and gets.
  \<^item> \<^verbatim>\<open>KV_Bytes\<close>: the packed form of a key-value cache, its writer and its readers
    (\<^verbatim>\<open>distributed/omni_connectors/kv_transfer_manager.py\<close>), over a JSON library under \<open>codec_laws\<close>.
  \<^item> \<^verbatim>\<open>KV_Shards\<close>: topology, routing, keys, ports, slicing, merging and extraction of head shards
    (\<^verbatim>\<open>distributed/omni_connectors/utils/kv_utils.py\<close>), on tensors with their bytes.
  \<^item> \<^verbatim>\<open>KV_Transfer\<close>: the manager that sends and receives them, over a connector under \<open>connector_laws\<close>;
    \<^verbatim>\<open>KV_Buffers\<close>: the pool buffers and the finished requests it leaves behind; \<^verbatim>\<open>KV_Hooks\<close>: the hooks of the
    language-model runners (\<^verbatim>\<open>worker/omni_connector_model_runner_mixin.py\<close>).
  \<^item> \<^verbatim>\<open>Prefix_Tensors\<close>: the prefix cache of hidden states and multimodal outputs (\<^verbatim>\<open>core/prefix_cache.py\<close>): its
    state, writes at once and late, outputs kept back until a request finishes, merging.
  \<^item> \<^verbatim>\<open>Prefix_Writes\<close>: late writes against writes at once; \<^verbatim>\<open>Prefix_Merge\<close>: the merging of multimodal outputs and
    the payload builders (\<^verbatim>\<open>utils/mm_outputs.py\<close>, \<^verbatim>\<open>worker/gpu_ar_model_runner.py\<close>), with the cache and without it;
    \<^verbatim>\<open>Prefix_Hits\<close>: the cache as a map from slots to rows.

  Of \<^verbatim>\<open>experimental/ar_diffusion/\<close>:

  \<^item> \<^verbatim>\<open>Paged_Cache\<close>: slot mappings, eviction by chunks, requests, the cache object and its sizing
    (\<^verbatim>\<open>kv_cache/paged.py\<close>, \<^verbatim>\<open>manager.py\<close>, \<^verbatim>\<open>config.py\<close>), over a block manager of vLLM under the named laws
    \<open>manager_laws\<close>, which the concrete manager \<open>lowest_first\<close> satisfies.
  \<^item> \<^verbatim>\<open>Paged_Attention\<close>: the context of one forward, its block table, and the write-and-attend operation of a
    layer (\<^verbatim>\<open>kv_cache/paged_attention.py\<close>).
  \<^item> \<^verbatim>\<open>AR_Session\<close>: the state of a session, its forwards, commits, resets and cross-attention caches
    (\<^verbatim>\<open>kv_cache/state.py\<close>, hooks of \<^verbatim>\<open>pipeline_dreamzero.py\<close>), and the session table of the runner with its
    eviction and teardown (\<^verbatim>\<open>runner.py\<close>); the locale \<open>block_manager\<close>.
  \<^item> \<^verbatim>\<open>AR_Setup\<close>: preallocation, warm-up and dispatch of the runner (\<^verbatim>\<open>runner.py\<close>).
  \<^item> \<^verbatim>\<open>AR_Rollout\<close>: what holds over whole rollouts; interpretations of \<open>block_manager\<close> and \<open>lru_map\<close>.
  \<^item> \<^verbatim>\<open>AR_Runner\<close>: the session id the engine resolves, against the one the pipeline works on.

  \<^bold>\<open>What the lemmas show.\<close>  Payloads: validation is exact, sanitising safe, the dictionary form and the
  hand-over lossless.  DreamZero: three stages equal the monolithic run when the workers agree about
  the session, and a concrete second chunk where they do not.  Caches and tables: transparency, bounds
  and survival under eviction.  Scheduler and engine: sound queues, homogeneous batches, first come
  first served, progress, drainage, answers for every scheduled request, and the request that is never
  answered.  Pool: disjoint aligned buffers, refusal only without space, no lasting fragmentation, and
  the corruption by empty buffers.  Routing: fresh lists up to one race, fair and minimal policies,
  sound and sticky picks, and the replica that a lapse of its heartbeat detaches for good.  Gates: exactly
  the requests that need input are parked, and a cycle loses none; a guided request is
  forwarded once and complete, in whatever order its parts finish.  Chunks: a stream arrives in order without
  gaps; the window bounds what runs and loses nothing, but aborted streams keep their places and a stream
  that was scheduled after its last chunk never runs again.  Key-value transfer: a packed cache is read back
  or refused, resharding between any two divisible numbers of ranks is exact, with the defaults and with the
  hooks, and no pool buffer leaks.  Prefix cache: a request that starts on cached blocks gets the rows they were
  computed with, late writes are writes at once, merging first and cutting directly give the same payloads; kept
  back rows land too early, and merged sparse outputs go to the wrong requests.  Payload keys: a typed payload
  arrives as it was sent, except for empty categories.  Paged cache: attention over the pool equals
  attention over a contiguous window and disturbs no other row; no request leaks blocks, whatever fails;
  the smallest pool that load time can build carries any rollout of one session; the cross-attention
  pools and the ids of two sessions get into each other's way; engine and pipeline agree about the
  session unless its id is empty.

  \<^bold>\<open>Parameters.\<close>  Tensors are an abstract type \<open>'t\<close>; what torch does to them is the record
  \<open>torch_ops\<close>, their byte form the record \<open>tensor_wire\<close>, what the networks, tokenizer, schedulers and KV caches compute is the record \<open>dz_ops\<close>.
  Constructors of builtins applied to foreign types are the parameters \<open>conv\<close> and \<open>py_conv\<close>.  The
  control flow around them is the code's.  The draws of Python's random module, the outcome of a
  network send and the readings of a clock are arguments of the steps that use them; times are exact
  rationals.  The block manager of vLLM is the record \<open>manager\<close>; the page size of a spec, the float product
  that sizes the pool and the environment are the record \<open>kv_world\<close>; the softmax and products of attention
  are the parameter \<open>attend\<close>.  A request on a session is the list of calls it makes (\<open>kv_call\<close>), each of
  which may fail; the batch of a paged forward is one sequence, as the runner enforces.

  \<^bold>\<open>Bounds.\<close>  Recursion is structural or by a decreasing list, so no definition needs fuel: the denoise loop
  recurs over the list of timesteps, validation over the nested value, the coalescing of free blocks
  over the list.  Loops that wait for other tasks (the engine's busy loop, the periodic thread, a pick
  without candidates) are one step per turn.  Python integers are \<open>int\<close>, floats
  their 64 bit pattern.

  \<^bold>\<open>Not modelled.\<close>  The numerics of the models, weight loading, compilation, collectives, device
  memory, profiling, logging, and the process and network layers: they are tensors, devices and sockets
  rather than decisions.  The language-model schedulers and runners extend classes of vLLM that are not
  part of the repository.  The flash kernel is taken to read the rows the reference attention reads.  Of the
  modelled parts the streaming mode of the engine, the submission and
  metrics half of the stage pools and the socket handling of coordinator and hub are left out.
\<close>

end
